(* ===== verification/Wv_Prelude.thy ===== *)
theory Wv_Prelude
  imports Main "HOL-Library.Word" "HOL-Library.Char_ord" "HOL-Library.List_Lexorder"
    "HOL-Library.Sublist" "HOL-Library.AList" "HOL-Library.Code_Target_Nat"
begin

text \<open>
  What the components of the development share.
  \<^item> The names of Go's sized integers, of byte strings and of instants, and the named
    collections of rules the component proofs use.
  \<^item> \<open>encoding/binary\<close>'s big-endian accessors and their round trips.
  \<^item> The parts of Go's \<open>strings\<close> and \<open>unicode\<close> packages the sources call: \<open>TrimSpace\<close>,
    \<open>ToLower\<close>, and the tests for white space and control characters in a string.
  \<^item> Generic lemmas on words and on association lists (Go maps whose keys are listed).

  A Go string is a sequence of bytes and is modelled as \<^typ>\<open>string\<close>, one \<^typ>\<open>char\<close> per
  byte. \<open>TrimSpace\<close> and the rune tests are exact on UTF-8: the code points of Unicode's
  \<open>White_Space\<close> and \<open>Cc\<close> are written as their UTF-8 byte sequences, and because UTF-8 is
  self-synchronising such a sequence occurs in a string exactly where Go's rune decoder finds
  the code point. \<open>ToLower\<close> maps the ASCII letters and leaves every other byte alone; the
  case mapping of non-ASCII letters is not modelled.
\<close>

section \<open>Sized integers, bytes, instants\<close>

type_synonym byte = "8 word"
type_synonym bytes = "8 word list"
type_synonym u16 = "16 word"
type_synonym u32 = "32 word"
type_synonym u64 = "64 word"

text \<open>
  An instant is the number of nanoseconds since Go's zero \<open>time.Time\<close> (January 1 of year 1,
  UTC), so the zero value is \<open>0\<close> and \<open>IsZero\<close> is a comparison with it. \<open>Before\<close>, \<open>After\<close>,
  \<open>Add\<close> are the order and addition of integers. A \<open>time.Duration\<close> is a number of nanoseconds.
\<close>

type_synonym go_time = int
type_synonym go_duration = int

abbreviation go_second :: go_duration where
  "go_second \<equiv> 1000000000"

definition go_unix :: "go_time \<Rightarrow> int" where
  "go_unix t = t div 1000000000 - 62135596800"

text \<open>The two's-complement value an \<open>int64\<close> expression has when its exact value is \<open>x\<close>.\<close>

definition go_int64 :: "int \<Rightarrow> int" where
  "go_int64 x = (x + 2 ^ 63) mod 2 ^ 64 - 2 ^ 63"

lemma go_int64_id: "- (2 ^ 63) \<le> x \<Longrightarrow> x < 2 ^ 63 \<Longrightarrow> go_int64 x = x"
  by (simp add: go_int64_def)

lemma go_int64_sint: "go_int64 x = sint (word_of_int x :: 64 word)"
  by (simp add: go_int64_def signed_of_int signed_take_bit_eq_take_bit_shift take_bit_eq_mod)

lemma go_unix_mono: "s \<le> t \<Longrightarrow> go_unix s \<le> go_unix t"
  by (simp add: go_unix_def zdiv_mono1)

named_theorems unat_rules \<open>addition and subtraction of words read as natural numbers\<close>
named_theorems trim_rules \<open>normal forms of trimmed and lower-cased strings\<close>
named_theorems guards \<open>a sequence of early returns reaches its end exactly when every guard lets it pass\<close>

lemma guard_Inl [guards]: "(if b then Inl e else r) = Inr x \<longleftrightarrow> \<not> b \<and> r = Inr x"
  by simp

lemma guard_Some [guards]: "(if b then Some e else r) = None \<longleftrightarrow> \<not> b \<and> r = None"
  by simp

section \<open>Words\<close>

lemma unat_add_no_wrap [unat_rules]:
  fixes a b :: "'a::len word"
  assumes "unat a + unat b < 2 ^ LENGTH('a)"
  shows "unat (a + b) = unat a + unat b"
  using assms by (simp add: unat_add_lem [THEN iffD1])

lemma unat_diff_no_wrap [unat_rules]:
  fixes a b :: "'a::len word"
  assumes "unat b \<le> unat a"
  shows "unat (a - b) = unat a - unat b"
  using assms by (simp add: unat_sub word_le_nat_alt)

lemma unat_of_nat_small [unat_rules]:
  assumes "n < 2 ^ LENGTH('a::len)"
  shows "unat (of_nat n :: 'a word) = n"
  using assms by (simp add: unat_of_nat)

lemma unat_ucast_32_64 [unat_rules]: "unat (ucast (w :: u32) :: u64) = unat w"
proof -
  have "unat w < 2 ^ 64"
    using unsigned_less [of w, where ?'a = nat] by simp
  then show ?thesis
    by (simp add: unsigned_ucast_eq take_bit_nat_eq_self)
qed

lemma unat_lt_u32: "unat (w :: u32) < 4294967296"
  using unsigned_less [of w, where ?'a = nat] by simp

lemma unat_lt_u64: "unat (w :: u64) < 18446744073709551616"
  using unsigned_less [of w, where ?'a = nat] by simp

section \<open>Big-endian encoding\<close>

definition put_uint16 :: "u16 \<Rightarrow> bytes" where
  "put_uint16 v = [ucast (drop_bit 8 v), ucast v]"

definition put_uint32 :: "u32 \<Rightarrow> bytes" where
  "put_uint32 v = [ucast (drop_bit 24 v), ucast (drop_bit 16 v), ucast (drop_bit 8 v), ucast v]"

definition get_uint16 :: "bytes \<Rightarrow> u16" where
  "get_uint16 b = or (ucast (b ! 1)) (push_bit 8 (ucast (b ! 0)))"

definition get_uint32 :: "bytes \<Rightarrow> u32" where
  "get_uint32 b = or (or (ucast (b ! 3)) (push_bit 8 (ucast (b ! 2))))
     (or (push_bit 16 (ucast (b ! 1))) (push_bit 24 (ucast (b ! 0))))"

lemma length_put_uint16 [simp]: "length (put_uint16 v) = 2"
  by (simp add: put_uint16_def)

lemma length_put_uint32 [simp]: "length (put_uint32 v) = 4"
  by (simp add: put_uint32_def)

lemma get_put_uint16 [simp]: "get_uint16 (put_uint16 v) = v"
  unfolding get_uint16_def put_uint16_def
  by (rule bit_word_eqI) (auto simp: bit_simps)

lemma get_put_uint32 [simp]: "get_uint32 (put_uint32 v) = v"
proof (rule bit_word_eqI)
  fix n :: nat
  assume n: "n < LENGTH(32)"
  then consider "n < 8" | "8 \<le> n" "n < 16" | "16 \<le> n" "n < 24" | "24 \<le> n" "n < 32"
    by fastforce
  then show "bit (get_uint32 (put_uint32 v)) n = bit v n"
    by cases (auto simp: get_uint32_def put_uint32_def bit_simps)
qed

section \<open>Strings\<close>

text \<open>Decimal notation of a natural number.\<close>

fun Itoa :: "nat \<Rightarrow> string" where
  "Itoa n = (if n < 10 then [char_of (48 + n)] else Itoa (n div 10) @ [char_of (48 + n mod 10)])"

declare Itoa.simps [simp del]

text \<open>
  \<open>white_space\<close> lists the UTF-8 encodings of the code points \<open>unicode.IsSpace\<close> accepts;
  \<open>control_chars\<close> those \<open>unicode.IsControl\<close> accepts beyond ASCII.
\<close>

definition white_space :: "string list" where
  "white_space = [[CHR 0x09], [CHR 0x0A], [CHR 0x0B], [CHR 0x0C], [CHR 0x0D], [CHR 0x20],
     [CHR 0xC2, CHR 0x85], [CHR 0xC2, CHR 0xA0], [CHR 0xE1, CHR 0x9A, CHR 0x80],
     [CHR 0xE2, CHR 0x80, CHR 0x80], [CHR 0xE2, CHR 0x80, CHR 0x81],
     [CHR 0xE2, CHR 0x80, CHR 0x82], [CHR 0xE2, CHR 0x80, CHR 0x83],
     [CHR 0xE2, CHR 0x80, CHR 0x84], [CHR 0xE2, CHR 0x80, CHR 0x85],
     [CHR 0xE2, CHR 0x80, CHR 0x86], [CHR 0xE2, CHR 0x80, CHR 0x87],
     [CHR 0xE2, CHR 0x80, CHR 0x88], [CHR 0xE2, CHR 0x80, CHR 0x89],
     [CHR 0xE2, CHR 0x80, CHR 0x8A], [CHR 0xE2, CHR 0x80, CHR 0xA8],
     [CHR 0xE2, CHR 0x80, CHR 0xA9], [CHR 0xE2, CHR 0x80, CHR 0xAF],
     [CHR 0xE2, CHR 0x81, CHR 0x9F], [CHR 0xE3, CHR 0x80, CHR 0x80]]"

text \<open>\<open>strip ps s\<close> drops members of \<open>ps\<close> from the front of \<open>s\<close> as long as one is there.\<close>

fun strip :: "string list \<Rightarrow> string \<Rightarrow> string" where
  "strip ps [] = []"
| "strip ps (c # cs) =
     (case find (\<lambda>p. p \<noteq> [] \<and> prefix p (c # cs)) ps of
        None \<Rightarrow> c # cs
      | Some p \<Rightarrow> strip ps (drop (length p - 1) cs))"

definition trimLeft :: "string \<Rightarrow> string" where
  "trimLeft s = strip white_space s"

definition trimRight :: "string \<Rightarrow> string" where
  "trimRight s = rev (strip (map rev white_space) (rev s))"

definition TrimSpace :: "string \<Rightarrow> string" where
  "TrimSpace s = trimRight (trimLeft s)"

definition lower_char :: "char \<Rightarrow> char" where
  "lower_char c = (let n = (of_char c :: nat) in if 65 \<le> n \<and> n \<le> 90 then char_of (n + 32) else c)"

definition ToLower :: "string \<Rightarrow> string" where
  "ToLower s = map lower_char s"

fun contains :: "string \<Rightarrow> string \<Rightarrow> bool" where
  "contains p [] = (p = [])"
| "contains p (c # cs) = (prefix p (c # cs) \<or> contains p cs)"

definition has_space :: "string \<Rightarrow> bool" where
  "has_space s = list_ex (\<lambda>p. contains p s) white_space"

fun has_control :: "string \<Rightarrow> bool" where
  "has_control [] = False"
| "has_control (c # cs) =
     (let n = (of_char c :: nat) in
        n < 32 \<or> n = 127
        \<or> (n = 194 \<and> (case cs of [] \<Rightarrow> False
              | d # _ \<Rightarrow> 128 \<le> (of_char d :: nat) \<and> (of_char d :: nat) \<le> 159))
        \<or> has_control cs)"

subsection \<open>Trimming and lower-casing are normal forms\<close>

lemma strip_no_prefix: "p \<in> set ps \<Longrightarrow> p \<noteq> [] \<Longrightarrow> \<not> prefix p (strip ps s)"
proof (induction ps s rule: strip.induct)
  case (1 ps)
  then show ?case by simp
next
  case (2 ps c cs)
  then show ?case
    by (auto split: option.split simp: find_None_iff)
qed

lemma strip_id: "(\<And>p. p \<in> set ps \<Longrightarrow> p \<noteq> [] \<Longrightarrow> \<not> prefix p s) \<Longrightarrow> strip ps s = s"
  by (cases s) (auto split: option.split simp: find_Some_iff in_set_conv_nth)

lemma suffix_strip: "suffix (strip ps s) s"
proof (induction ps s rule: strip.induct)
  case (1 ps)
  then show ?case by simp
next
  case (2 ps c cs)
  show ?case
  proof (cases "find (\<lambda>p. p \<noteq> [] \<and> prefix p (c # cs)) ps")
    case None
    then show ?thesis by simp
  next
    case (Some p)
    with "2.IH" have "suffix (strip ps (drop (length p - 1) cs)) (drop (length p - 1) cs)"
      by blast
    also have "suffix (drop (length p - 1) cs) (c # cs)"
      by (rule suffix_order.order_trans [OF suffix_drop]) (simp add: suffix_Cons)
    finally show ?thesis using Some by simp
  qed
qed

lemma trimLeft_no_prefix: "p \<in> set white_space \<Longrightarrow> \<not> prefix p (trimLeft s)"
  unfolding trimLeft_def by (rule strip_no_prefix) (auto simp: white_space_def)

lemma trimRight_no_suffix: "p \<in> set white_space \<Longrightarrow> \<not> suffix p (trimRight s)"
  using strip_no_prefix [of "rev p" "map rev white_space" "rev s"]
  by (auto simp: trimRight_def suffix_to_prefix white_space_def)

lemma prefix_trimRight: "prefix (trimRight s) s"
  using suffix_strip [of "map rev white_space" "rev s"]
  by (simp add: trimRight_def suffix_to_prefix)

lemma trimLeft_id: "(\<And>p. p \<in> set white_space \<Longrightarrow> \<not> prefix p s) \<Longrightarrow> trimLeft s = s"
  unfolding trimLeft_def by (rule strip_id) blast

lemma trimRight_id: "(\<And>p. p \<in> set white_space \<Longrightarrow> \<not> suffix p s) \<Longrightarrow> trimRight s = s"
proof -
  assume "\<And>p. p \<in> set white_space \<Longrightarrow> \<not> suffix p s"
  then have "strip (map rev white_space) (rev s) = rev s"
    by (intro strip_id) (auto simp: suffix_to_prefix)
  then show ?thesis by (simp add: trimRight_def)
qed

text \<open>A string is trimmed when no white space stands at either end.\<close>

definition trimmed :: "string \<Rightarrow> bool" where
  "trimmed s = list_all (\<lambda>p. \<not> prefix p s \<and> \<not> suffix p s) white_space"

lemma TrimSpace_id [trim_rules]: "trimmed s \<Longrightarrow> TrimSpace s = s"
  by (simp add: TrimSpace_def trimmed_def list_all_iff trimLeft_id trimRight_id)

lemma trimmed_TrimSpace [simp]: "trimmed (TrimSpace s)"
proof -
  have "\<not> prefix p (TrimSpace s)" if "p \<in> set white_space" for p
    using that trimLeft_no_prefix prefix_trimRight prefix_order.order_trans
    unfolding TrimSpace_def by blast
  moreover have "\<not> suffix p (TrimSpace s)" if "p \<in> set white_space" for p
    using that trimRight_no_suffix unfolding TrimSpace_def by blast
  ultimately show ?thesis by (simp add: trimmed_def list_all_iff)
qed

lemma TrimSpace_idem [simp]: "TrimSpace (TrimSpace s) = TrimSpace s"
  by (rule TrimSpace_id) simp

lemma TrimSpace_Nil [simp]: "TrimSpace [] = []"
  by (simp add: TrimSpace_def trimLeft_def trimRight_def)

lemma lower_char_idem [simp]: "lower_char (lower_char c) = lower_char c"
  by (auto simp: lower_char_def Let_def)

lemma ToLower_idem [simp]: "ToLower (ToLower s) = ToLower s"
  by (simp add: ToLower_def)

lemma length_ToLower [simp]: "length (ToLower s) = length s"
  by (simp add: ToLower_def)

lemma ToLower_eq_Nil [simp]: "ToLower s = [] \<longleftrightarrow> s = []"
  by (simp add: ToLower_def)

text \<open>No byte of a white-space encoding is a letter, so lower-casing does not touch them.\<close>

definition caseless :: "char \<Rightarrow> bool" where
  "caseless c = (let n = (of_char c :: nat) in \<not> (65 \<le> n \<and> n \<le> 90) \<and> \<not> (97 \<le> n \<and> n \<le> 122))"

lemma lower_char_eq_caseless: "caseless d \<Longrightarrow> lower_char c = d \<longleftrightarrow> c = d"
  by (auto simp: lower_char_def caseless_def Let_def split: if_splits)

lemma map_lower_eq_caseless:
  "list_all caseless p \<Longrightarrow> map lower_char q = p \<longleftrightarrow> q = p"
proof (induction p arbitrary: q)
  case Nil
  then show ?case by simp
next
  case (Cons d p)
  then show ?case
    by (cases q) (auto simp: lower_char_eq_caseless)
qed

lemma caseless_white_space: "p \<in> set white_space \<Longrightarrow> list_all caseless p"
  by (auto simp: white_space_def caseless_def)

lemma prefix_ToLower_white:
  "p \<in> set white_space \<Longrightarrow> prefix p (ToLower s) \<longleftrightarrow> prefix p s"
  unfolding prefix_def ToLower_def
  by (metis append_eq_map_conv caseless_white_space map_append map_lower_eq_caseless)

lemma suffix_ToLower_white:
  "p \<in> set white_space \<Longrightarrow> suffix p (ToLower s) \<longleftrightarrow> suffix p s"
  unfolding suffix_def ToLower_def
  by (metis append_eq_map_conv caseless_white_space map_append map_lower_eq_caseless)

lemma trimmed_ToLower [simp]: "trimmed (ToLower s) \<longleftrightarrow> trimmed s"
  by (auto simp: trimmed_def list_all_iff prefix_ToLower_white suffix_ToLower_white)

lemma TrimSpace_ToLower [simp]: "TrimSpace (ToLower (TrimSpace s)) = ToLower (TrimSpace s)"
  by (rule TrimSpace_id) simp

lemma ucast_u32_u64: "ucast (ucast (w :: u32) :: u64) = w"
  by (simp add: word_eq_iff_unsigned unsigned_ucast_eq take_bit_word_eq_self)

text \<open>Association lists.\<close>

lemma alist_update_mem: "x \<in> set (AList.update k v al) \<Longrightarrow> x = (k, v) \<or> x \<in> set al"
  by (induction al) (auto split: if_splits)

lemma alist_delete_mem: "x \<in> set (AList.delete k al) \<longleftrightarrow> x \<in> set al \<and> fst x \<noteq> k"
  by (auto simp: AList.delete_eq)

end
