(* ===== verification/Mux_Frame.thy ===== *)
theory Mux_Frame
  imports Wv_Prelude
begin

text \<open>
  The wire format of the session multiplexer: \<open>src/sessionmux/frame.go\<close> and
  \<open>src/sessionmux/flow.go\<close>. Frame types, service numbers and header fields keep their Go
  widths. An \<open>io.Reader\<close> is the list of the bytes it will still deliver before end of file; an
  \<open>io.Writer\<close> is a record \<open>conn\<close> of the bytes it has taken and of a script that says how its
  next \<open>Write\<close> calls answer (how many bytes each takes, or that it fails), so short writes and
  transport failures are part of the model. A script that has run out takes everything.

  The lemmas show that a written frame reads back as itself whatever follows it and however the
  writer splits it, that \<open>ReadFrame\<close> accepts only frames within the codec's bounds, and that
  WINDOW credit survives its encoding.
\<close>

section \<open>Errors\<close>

text \<open>
  One constructor per error value or error message of the package; text arguments of a message
  are left out. \<open>ErrTransport\<close> stands for the error of a failed transport write,
  \<open>ErrContext\<close> for a cancelled context's \<open>ctx.Err()\<close>.
\<close>

datatype mux_error =
    ErrInvalidFrameType | ErrPayloadTooLarge | ErrFlowControlViolation | ErrControlPayload
  | ErrStreamZero | ErrInvalidService | ErrFrameMagic | ErrProtocolVersion
  | ErrEOF | ErrUnexpectedEOF | ErrShortWrite | ErrTransport | ErrClosedPipe
  | ErrNilTransport | ErrInvalidRole | ErrWindowTooLarge | ErrThresholdTooLarge
  | ErrDataPayloadTooLarge | ErrDataPayloadZero
  | ErrMuxClosed | ErrStreamReset | ErrIncomingBacklog | ErrNotAccepted
  | ErrAcceptUnknown | ErrAcceptService | ErrInvalidStreamID | ErrDuplicateOpen
  | ErrUnsupportedFrame | ErrContext

section \<open>Frame types and services\<close>

abbreviation FrameOpen :: byte where "FrameOpen \<equiv> 1"
abbreviation FrameAccept :: byte where "FrameAccept \<equiv> 2"
abbreviation FrameData :: byte where "FrameData \<equiv> 3"
abbreviation FrameWindow :: byte where "FrameWindow \<equiv> 4"
abbreviation FrameClose :: byte where "FrameClose \<equiv> 5"
abbreviation FrameReset :: byte where "FrameReset \<equiv> 6"
abbreviation FramePing :: byte where "FramePing \<equiv> 7"
abbreviation FramePong :: byte where "FramePong \<equiv> 8"

definition FrameType_valid :: "byte \<Rightarrow> bool" where
  "FrameType_valid t = (FrameOpen \<le> t \<and> t \<le> FramePong)"

abbreviation ServiceControl :: u16 where "ServiceControl \<equiv> 1"
abbreviation ServiceFS :: u16 where "ServiceFS \<equiv> 2"
abbreviation ServiceTCP :: u16 where "ServiceTCP \<equiv> 3"
abbreviation ServiceExec :: u16 where "ServiceExec \<equiv> 4"
abbreviation ServiceEvents :: u16 where "ServiceEvents \<equiv> 5"
abbreviation ServiceUDP :: u16 where "ServiceUDP \<equiv> 6"

definition ServiceID_Valid :: "u16 \<Rightarrow> bool" where
  "ServiceID_Valid s = (ServiceControl \<le> s \<and> s \<le> ServiceUDP)"

definition ServiceID_String :: "u16 \<Rightarrow> string" where
  "ServiceID_String s =
     (if s = ServiceControl then ''control''
      else if s = ServiceFS then ''fs''
      else if s = ServiceTCP then ''tcp''
      else if s = ServiceExec then ''exec''
      else if s = ServiceEvents then ''events''
      else if s = ServiceUDP then ''udp''
      else ''service('' @ Itoa (unat s) @ '')'')"

record Frame =
  fType :: byte
  fFlags :: u16
  fStreamID :: u32
  fService :: u16
  fPayload :: bytes

text \<open>A frame literal that leaves \<open>Flags\<close> at its zero value, as every literal of the package does.\<close>

definition mkFrame :: "byte \<Rightarrow> u32 \<Rightarrow> u16 \<Rightarrow> bytes \<Rightarrow> Frame" where
  "mkFrame t sid svc p = \<lparr>fType = t, fFlags = 0, fStreamID = sid, fService = svc, fPayload = p\<rparr>"

lemma mkFrame_sel [simp]:
  "fType (mkFrame t sid svc p) = t" "fFlags (mkFrame t sid svc p) = 0"
  "fStreamID (mkFrame t sid svc p) = sid" "fService (mkFrame t sid svc p) = svc"
  "fPayload (mkFrame t sid svc p) = p"
  by (simp_all add: mkFrame_def)

section \<open>The codec\<close>

record Codec =
  MaxPayload :: u32

definition maxPayload :: "Codec \<Rightarrow> u32" where
  "maxPayload c = (if MaxPayload c = 0 then 16777216 else MaxPayload c)"

definition frameMagic :: bytes where
  "frameMagic = [0x57, 0x56, 0x4D, 0x31]"

definition protocolVersion :: byte where
  "protocolVersion = 2"

abbreviation headerSize :: nat where
  "headerSize \<equiv> 20"

definition validateFramePayloadLength :: "byte \<Rightarrow> u32 \<Rightarrow> mux_error option" where
  "validateFramePayloadLength t len =
     (if t = FrameWindow then (if len \<noteq> 4 then Some ErrFlowControlViolation else None)
      else if t = FrameAccept \<or> t = FrameClose \<or> t = FrameReset then
        (if len \<noteq> 0 then Some ErrControlPayload else None)
      else None)"

text \<open>The answers of an \<open>io.Writer\<close>'s next calls: \<open>Wrote n\<close> takes \<open>n\<close> bytes, \<open>WriteFails\<close> errs.\<close>

datatype write_call = Wrote nat | WriteFails

record conn =
  cnScript :: "write_call list"
  cnOut :: bytes
  cnClosed :: bool

fun writeFull_script :: "write_call list \<Rightarrow> bytes \<Rightarrow> bytes \<Rightarrow> mux_error option \<times> bytes \<times> write_call list" where
  "writeFull_script sc [] out = (None, out, sc)"
| "writeFull_script [] data out = (None, out @ data, [])"
| "writeFull_script (WriteFails # sc) data out = (Some ErrTransport, out, sc)"
| "writeFull_script (Wrote n # sc) data out =
     (if n = 0 then (Some ErrShortWrite, out, sc)
      else writeFull_script sc (drop n data) (out @ take n data))"

definition writeFull :: "conn \<Rightarrow> bytes \<Rightarrow> mux_error option \<times> conn" where
  "writeFull w data =
     (case writeFull_script (cnScript w) data (cnOut w) of
        (err, out, sc) \<Rightarrow> (err, w\<lparr>cnScript := sc, cnOut := out\<rparr>))"

definition frameHeader :: "Frame \<Rightarrow> bytes" where
  "frameHeader f = frameMagic @ [protocolVersion, fType f] @ put_uint16 (fFlags f)
     @ put_uint32 (fStreamID f) @ put_uint16 (fService f) @ [0, 0]
     @ put_uint32 (of_nat (length (fPayload f)))"

text \<open>The checks of \<open>WriteFrame\<close>, in its order.\<close>

definition checkWriteFrame :: "Codec \<Rightarrow> Frame \<Rightarrow> mux_error option" where
  "checkWriteFrame c f =
     (if \<not> FrameType_valid (fType f) then Some ErrInvalidFrameType
      else if unat (maxPayload c) < length (fPayload f) then Some ErrPayloadTooLarge
      else case validateFramePayloadLength (fType f) (of_nat (length (fPayload f))) of
        Some e \<Rightarrow> Some e
      | None \<Rightarrow>
          if fStreamID f = 0 \<and> fType f \<noteq> FramePing \<and> fType f \<noteq> FramePong then Some ErrStreamZero
          else if fType f = FrameOpen \<and> \<not> ServiceID_Valid (fService f) then Some ErrInvalidService
          else None)"

definition WriteFrame :: "Codec \<Rightarrow> conn \<Rightarrow> Frame \<Rightarrow> mux_error option \<times> conn" where
  "WriteFrame c w f =
     (case checkWriteFrame c f of
        Some e \<Rightarrow> (Some e, w)
      | None \<Rightarrow>
          (case writeFull w (frameHeader f) of
             (Some e, w') \<Rightarrow> (Some e, w')
           | (None, w') \<Rightarrow> writeFull w' (fPayload f)))"

text \<open>\<open>io.ReadFull\<close> on a reader that still delivers \<open>bs\<close>.\<close>

definition ReadFull :: "nat \<Rightarrow> bytes \<Rightarrow> mux_error + bytes \<times> bytes" where
  "ReadFull n bs =
     (if n \<le> length bs then Inr (take n bs, drop n bs)
      else if bs = [] then Inl ErrEOF else Inl ErrUnexpectedEOF)"

text \<open>The frame a header announces, its payload still empty, and the checks made on it.\<close>

definition headerFrame :: "bytes \<Rightarrow> Frame" where
  "headerFrame header =
     \<lparr>fType = header ! 5,
      fFlags = get_uint16 (take 2 (drop 6 header)),
      fStreamID = get_uint32 (take 4 (drop 8 header)),
      fService = get_uint16 (take 2 (drop 12 header)),
      fPayload = []\<rparr>"

definition checkReadFrame :: "Codec \<Rightarrow> Frame \<Rightarrow> u32 \<Rightarrow> mux_error option" where
  "checkReadFrame c f len =
     (if \<not> FrameType_valid (fType f) then Some ErrInvalidFrameType
      else if fStreamID f = 0 \<and> fType f \<noteq> FramePing \<and> fType f \<noteq> FramePong then Some ErrStreamZero
      else if maxPayload c < len then Some ErrPayloadTooLarge
      else validateFramePayloadLength (fType f) len)"

definition ReadFrame :: "Codec \<Rightarrow> bytes \<Rightarrow> mux_error + Frame \<times> bytes" where
  "ReadFrame c r =
     (case ReadFull headerSize r of
        Inl e \<Rightarrow> Inl e
      | Inr (header, r1) \<Rightarrow>
          if take 4 header \<noteq> frameMagic then Inl ErrFrameMagic
          else if header ! 4 \<noteq> protocolVersion then Inl ErrProtocolVersion
          else
            let frame = headerFrame header; len = get_uint32 (take 4 (drop 16 header)) in
            case checkReadFrame c frame len of
              Some e \<Rightarrow> Inl e
            | None \<Rightarrow>
                if 0 < len then
                  (case ReadFull (unat len) r1 of
                     Inl e \<Rightarrow> Inl e
                   | Inr (payload, r2) \<Rightarrow> Inr (frame\<lparr>fPayload := payload\<rparr>, r2))
                else Inr (frame, r1))"

section \<open>WINDOW credit\<close>

abbreviation DefaultInitialWindow :: u32 where "DefaultInitialWindow \<equiv> 262144"
abbreviation DefaultMaxDataPayload :: u32 where "DefaultMaxDataPayload \<equiv> 65536"
abbreviation maxInitialWindow :: u32 where "maxInitialWindow \<equiv> 67108864"

definition encodeWindowCredit :: "u32 \<Rightarrow> mux_error + bytes" where
  "encodeWindowCredit credit =
     (if credit = 0 then Inl ErrFlowControlViolation else Inr (put_uint32 credit))"

definition decodeWindowCredit :: "bytes \<Rightarrow> mux_error + u32" where
  "decodeWindowCredit payload =
     (if length payload \<noteq> 4 then Inl ErrFlowControlViolation
      else let credit = get_uint32 payload in
        if credit = 0 then Inl ErrFlowControlViolation else Inr credit)"

definition minUint32 :: "u32 \<Rightarrow> u32 \<Rightarrow> u32" where
  "minUint32 l r = (if l < r then l else r)"

section \<open>Lemmas\<close>

text \<open>
  What the reader promises of a frame it returns: a defined type, a payload within the codec's
  bound and of the length its type requires, and stream 0 only for PING and PONG.
\<close>

definition frame_wf :: "Codec \<Rightarrow> Frame \<Rightarrow> bool" where
  "frame_wf c f =
     (FrameType_valid (fType f) \<and> length (fPayload f) \<le> unat (maxPayload c)
      \<and> validateFramePayloadLength (fType f) (of_nat (length (fPayload f))) = None
      \<and> (fStreamID f = 0 \<longrightarrow> fType f = FramePing \<or> fType f = FramePong))"

lemma checkWriteFrame_wf: "checkWriteFrame c f = None \<Longrightarrow> frame_wf c f"
  by (auto simp: checkWriteFrame_def frame_wf_def split: if_splits option.splits)

lemma frame_wf_length: "frame_wf c f \<Longrightarrow> length (fPayload f) < 2 ^ 32"
  using unat_lt_u32 [of "maxPayload c"] by (simp add: frame_wf_def)

lemma length_frameHeader [simp]: "length (frameHeader f) = 20"
  by (simp add: frameHeader_def frameMagic_def)

lemma frameHeader_fields:
  "take 4 (frameHeader f) = frameMagic"
  "frameHeader f ! 4 = protocolVersion"
  "frameHeader f ! 5 = fType f"
  "take 2 (drop 6 (frameHeader f)) = put_uint16 (fFlags f)"
  "take 4 (drop 8 (frameHeader f)) = put_uint32 (fStreamID f)"
  "take 2 (drop 12 (frameHeader f)) = put_uint16 (fService f)"
  "take 4 (drop 16 (frameHeader f)) = put_uint32 (of_nat (length (fPayload f)))"
  by (simp_all add: frameHeader_def frameMagic_def put_uint16_def put_uint32_def)

lemma ReadFull_append [simp]:
  "length xs = n \<Longrightarrow> ReadFull n (xs @ ys) = Inr (xs, ys)"
  by (simp add: ReadFull_def)

lemma writeFull_script_append:
  "writeFull_script sc data out = (None, out', sc') \<Longrightarrow> out' = out @ data"
  by (induction sc data out arbitrary: out' sc' rule: writeFull_script.induct)
     (auto split: if_splits)

lemma writeFull_ok: "writeFull w data = (None, w') \<Longrightarrow> cnOut w' = cnOut w @ data"
  by (auto simp: writeFull_def dest!: writeFull_script_append split: prod.splits)

lemma writeFull_script_prefix:
  "writeFull_script sc data out = (e, out', sc') \<Longrightarrow> prefix out out'"
  by (induction sc data out arbitrary: e out' sc' rule: writeFull_script.induct)
     (auto split: if_splits dest: append_prefixD)

lemma writeFull_prefix: "writeFull w data = (e, w') \<Longrightarrow> prefix (cnOut w) (cnOut w')"
  by (auto simp: writeFull_def dest!: writeFull_script_prefix split: prod.splits)

lemma writeFull_empty_script:
  "cnScript w = [] \<Longrightarrow> writeFull w data = (None, w\<lparr>cnOut := cnOut w @ data\<rparr>)"
  by (cases data) (simp_all add: writeFull_def)

definition frameBytes :: "Frame \<Rightarrow> bytes" where
  "frameBytes f = frameHeader f @ fPayload f"

lemma WriteFrame_ok:
  assumes "WriteFrame c w f = (None, w')"
  shows "checkWriteFrame c f = None" "cnOut w' = cnOut w @ frameBytes f"
  using assms
  by (auto simp: WriteFrame_def frameBytes_def dest!: writeFull_ok split: option.splits prod.splits)

lemma headerFrame_frameHeader: "headerFrame (frameHeader f) = f\<lparr>fPayload := []\<rparr>"
  by (simp add: headerFrame_def frameHeader_fields)

lemma ReadFrame_frameBytes:
  assumes "frame_wf c f"
  shows "ReadFrame c (frameBytes f @ rest) = Inr (f, rest)"
proof -
  let ?len = "of_nat (length (fPayload f)) :: u32"
  have len: "unat ?len = length (fPayload f)"
    using frame_wf_length [OF assms] by (simp add: unat_of_nat_small)
  have rd: "ReadFull headerSize (frameBytes f @ rest) = Inr (frameHeader f, fPayload f @ rest)"
    by (simp add: frameBytes_def)
  have ok: "checkReadFrame c (f\<lparr>fPayload := []\<rparr>) ?len = None"
    using assms len by (simp add: checkReadFrame_def frame_wf_def word_less_nat_alt)
  have pos: "0 < ?len \<longleftrightarrow> fPayload f \<noteq> []"
    using len by (simp add: word_less_nat_alt)
  show ?thesis
    using ok pos len
    by (simp add: ReadFrame_def rd frameHeader_fields headerFrame_frameHeader Let_def)
qed

lemma headerFrame_payload [simp]: "fPayload (headerFrame h) = []"
  by (simp add: headerFrame_def)

lemma checkReadFrame_wf:
  assumes "checkReadFrame c f len = None" "length p = unat len"
  shows "frame_wf c (f\<lparr>fPayload := p\<rparr>)"
  using assms by (simp add: checkReadFrame_def frame_wf_def word_less_nat_alt split: if_splits)

text \<open>A frame that was read is its header's frame with the announced payload.\<close>

lemma ReadFrame_cases:
  assumes "ReadFrame c r = Inr (f, rest)"
  obtains header payload len where
    "r = header @ payload @ rest" "length header = 20" "take 4 header = frameMagic"
    "header ! 4 = protocolVersion" "len = get_uint32 (take 4 (drop 16 header))"
    "checkReadFrame c (headerFrame header) len = None" "length payload = unat len"
    "f = headerFrame header\<lparr>fPayload := payload\<rparr>"
proof -
  let ?h = "take 20 r"
  let ?len = "get_uint32 (take 4 (drop 16 ?h))"
  from assms have h: "20 \<le> length r" "take 4 ?h = frameMagic" "?h ! 4 = protocolVersion"
    and ok: "checkReadFrame c (headerFrame ?h) ?len = None"
    by (auto simp: ReadFrame_def ReadFull_def Let_def split: if_splits option.splits)
  show ?thesis
  proof (cases "0 < ?len")
    case True
    with assms h ok have n: "unat ?len \<le> length (drop 20 r)"
      and f: "f = headerFrame ?h\<lparr>fPayload := take (unat ?len) (drop 20 r)\<rparr>"
      and rest: "rest = drop (unat ?len) (drop 20 r)"
      by (auto simp: ReadFrame_def ReadFull_def Let_def split: if_splits)
    have "r = ?h @ take (unat ?len) (drop 20 r) @ rest"
      unfolding rest by (simp only: append_take_drop_id)
    from that [OF this _ h(2,3) refl ok _ f] h(1) n show ?thesis by simp
  next
    case False
    with assms h ok have fh: "f = headerFrame ?h" and rest: "rest = drop 20 r"
      by (auto simp: ReadFrame_def ReadFull_def Let_def)
    have f: "f = headerFrame ?h\<lparr>fPayload := []\<rparr>"
      unfolding fh by (simp add: headerFrame_def)
    have r: "r = ?h @ [] @ rest" using rest by simp
    from False have "unat ?len = 0" by (simp add: word_less_nat_alt)
    with that [OF r _ h(2,3) refl ok _ f] h(1) show ?thesis by simp
  qed
qed

lemma ReadFrame_wf:
  assumes "ReadFrame c r = Inr (f, rest)"
  shows "frame_wf c f" "length r = 20 + length (fPayload f) + length rest"
  by (rule ReadFrame_cases [OF assms], simp add: checkReadFrame_wf, rule ReadFrame_cases [OF assms], simp)

lemma encodeWindowCredit_length: "encodeWindowCredit credit = Inr p \<Longrightarrow> length p = 4"
  by (auto simp: encodeWindowCredit_def split: if_splits)

lemma decode_encodeWindowCredit:
  "encodeWindowCredit credit = Inr p \<Longrightarrow> decodeWindowCredit p = Inr credit"
  by (auto simp: encodeWindowCredit_def decodeWindowCredit_def split: if_splits)

section \<open>Properties\<close>

text \<open>
  C5: Frames survive the wire: whatever sequence of short writes the transport answers with, a
  frame that \<open>WriteFrame\<close> wrote is read back unchanged by every codec that accepts payloads of its
  length, and the reader stops exactly at its end.
\<close>

theorem codec_roundtrip:
  assumes "WriteFrame c w f = (None, w')" "length (fPayload f) \<le> unat (maxPayload c')"
  shows "\<exists>bs. cnOut w' = cnOut w @ bs \<and> ReadFrame c' (bs @ rest) = Inr (f, rest)"
proof -
  have "frame_wf c f" using WriteFrame_ok(1) [OF assms(1)] by (rule checkWriteFrame_wf)
  then have "frame_wf c' f" using assms(2) by (simp add: frame_wf_def)
  with WriteFrame_ok(2) [OF assms(1)] show ?thesis by (auto simp: ReadFrame_frameBytes)
qed

theorem codec_roundtrip_witness:
  "\<exists>w' bs. WriteFrame \<lparr>MaxPayload = 0\<rparr> \<lparr>cnScript = [Wrote 3, Wrote 100, Wrote 1], cnOut = [], cnClosed = False\<rparr>
        (mkFrame FrameData 5 ServiceTCP [1, 2, 3]) = (None, w')
     \<and> cnOut w' = bs \<and> ReadFrame \<lparr>MaxPayload = 9\<rparr> (bs @ [255]) = Inr (mkFrame FrameData 5 ServiceTCP [1, 2, 3], [255])"
proof -
  let ?w = "\<lparr>cnScript = [Wrote 3, Wrote 100, Wrote 1], cnOut = [], cnClosed = False\<rparr>"
  let ?f = "mkFrame FrameData 5 ServiceTCP [1, 2, 3]"
  have "fst (WriteFrame \<lparr>MaxPayload = 0\<rparr> ?w ?f) = None"
    by (simp add: WriteFrame_def checkWriteFrame_def maxPayload_def FrameType_valid_def
        validateFramePayloadLength_def writeFull_def frameHeader_def frameMagic_def put_uint16_def put_uint32_def)
  then obtain w' where w: "WriteFrame \<lparr>MaxPayload = 0\<rparr> ?w ?f = (None, w')"
    by (metis prod.collapse)
  show ?thesis
    using codec_roundtrip [OF w, of "\<lparr>MaxPayload = 9\<rparr>" "[255]"] w by (auto simp: maxPayload_def)
qed

text \<open>
  The reader accepts nothing else: a frame that \<open>ReadFrame\<close> returns has a defined type, a
  payload within the codec's limit and of the length its type demands, and a stream ID unless it
  is a PING or PONG; the bytes consumed are its header and payload and nothing more.
\<close>

theorem reader_accepts_only:
  assumes "ReadFrame c bs = Inr (f, rest)"
  shows "FrameType_valid (fType f) \<and> length (fPayload f) \<le> unat (maxPayload c)
    \<and> (fType f = FrameWindow \<longrightarrow> length (fPayload f) = 4)
    \<and> (fType f \<in> {FrameAccept, FrameClose, FrameReset} \<longrightarrow> fPayload f = [])
    \<and> (fStreamID f = 0 \<longrightarrow> fType f = FramePing \<or> fType f = FramePong)
    \<and> (\<exists>header. length header = headerSize \<and> take 4 header = frameMagic \<and> bs = header @ fPayload f @ rest)"
proof -
  have wf: "frame_wf c f" by (rule ReadFrame_wf(1) [OF assms])
  have "unat (of_nat (length (fPayload f)) :: u32) = length (fPayload f)"
    using frame_wf_length [OF wf] by (simp add: unat_of_nat_small)
  then have "(of_nat (length (fPayload f)) :: u32) = 4 \<Longrightarrow> length (fPayload f) = 4"
    "(of_nat (length (fPayload f)) :: u32) = 0 \<Longrightarrow> fPayload f = []"
    by (simp_all del: unat_of_nat unsigned_of_nat)
  moreover have "\<exists>header. length header = headerSize \<and> take 4 header = frameMagic \<and> bs = header @ fPayload f @ rest"
    by (rule ReadFrame_cases [OF assms]) auto
  ultimately show ?thesis
    using wf by (auto simp: frame_wf_def validateFramePayloadLength_def split: if_splits)
qed

theorem reader_accepts_only_witness:
  "ReadFrame \<lparr>MaxPayload = 8\<rparr> (frameBytes (mkFrame FrameReset 4 ServiceFS [])) = Inr (mkFrame FrameReset 4 ServiceFS [], [])
   \<and> fPayload (mkFrame FrameReset 4 ServiceFS []) = []"
proof -
  have "frame_wf \<lparr>MaxPayload = 8\<rparr> (mkFrame FrameReset 4 ServiceFS [])"
    by (simp add: frame_wf_def FrameType_valid_def validateFramePayloadLength_def)
  from ReadFrame_frameBytes [OF this, of "[]"]
  have r: "ReadFrame \<lparr>MaxPayload = 8\<rparr> (frameBytes (mkFrame FrameReset 4 ServiceFS [])) = Inr (mkFrame FrameReset 4 ServiceFS [], [])"
    by simp
  from reader_accepts_only [OF r] r show ?thesis by simp
qed

text \<open>
  A truncated frame is never delivered: every proper prefix of an encoded frame is refused
  with an end-of-file error. The error is the plain one, that also ends an idle connection, when
  the input stops between header and payload.
\<close>

theorem truncated_frame_refused:
  assumes "frame_wf c f" "n < length (frameBytes f)"
  shows "ReadFrame c (take n (frameBytes f)) = Inl (if n = 0 \<or> n = headerSize then ErrEOF else ErrUnexpectedEOF)"
proof (cases "n < headerSize")
  case True
  have "frameHeader f \<noteq> []" using length_frameHeader [of f] by force
  with True show ?thesis by (auto simp: ReadFrame_def ReadFull_def frameBytes_def)
next
  case False
  let ?len = "of_nat (length (fPayload f)) :: u32"
  have len: "unat ?len = length (fPayload f)"
    using frame_wf_length [OF assms(1)] by (simp add: unat_of_nat_small)
  have short: "n - 20 < length (fPayload f)" using assms(2) False by (simp add: frameBytes_def)
  have rd: "ReadFull headerSize (take n (frameBytes f)) = Inr (frameHeader f, take (n - 20) (fPayload f))"
    using False by (simp add: frameBytes_def)
  have ok: "checkReadFrame c (f\<lparr>fPayload := []\<rparr>) ?len = None"
    using assms(1) len by (simp add: checkReadFrame_def frame_wf_def word_less_nat_alt)
  have "0 < ?len" using len short by (auto simp: word_less_nat_alt)
  with ok len short False show ?thesis
    by (simp add: ReadFrame_def rd frameHeader_fields headerFrame_frameHeader Let_def)
       (auto simp: ReadFull_def)
qed

theorem truncated_frame_refused_witness:
  "ReadFrame \<lparr>MaxPayload = 8\<rparr> (take 20 (frameBytes (mkFrame FrameData 4 ServiceFS [1, 2]))) = Inl ErrEOF"
  using truncated_frame_refused [of "\<lparr>MaxPayload = 8\<rparr>" "mkFrame FrameData 4 ServiceFS [1, 2]" 20]
  by (simp add: frame_wf_def FrameType_valid_def validateFramePayloadLength_def frameBytes_def maxPayload_def)

text \<open>
  WINDOW credit survives the wire, and the encoder refuses exactly the zero credit that the
  decoder refuses.
\<close>

theorem credit_roundtrip:
  "(case encodeWindowCredit credit of
      Inl e \<Rightarrow> credit = 0 \<and> decodeWindowCredit (put_uint32 credit) = Inl e
    | Inr p \<Rightarrow> length p = 4 \<and> decodeWindowCredit p = Inr credit)"
  by (simp add: encodeWindowCredit_def decodeWindowCredit_def)

end
