(* ===== verification/Mux_Stream.thy ===== *)
theory Mux_Stream
  imports Mux_Frame
begin

text \<open>
  One logical stream of the multiplexer: \<open>src/sessionmux/stream.go\<close>. A \<open>Stream\<close> is a record
  with the fields of the Go struct; its mutexes and condition variables have no counterpart,
  because each operation below is what one critical section does. The one-slot channel
  \<open>accepted\<close> together with the \<open>sync.Once\<close> that guards it is an optional signal: \<open>None\<close> before
  \<open>signalAccepted\<close>, \<open>Some err\<close> after. Where the code waits on a condition variable the operation
  returns a waiting outcome and leaves the stream as it is.

  The invariant \<open>stream_inv\<close> says that unread bytes, receive credit and credit not yet returned
  always fit the initial window (and fill it exactly while the peer may still send), and that
  send credit never exceeds the window the peer advertised. Every operation preserves it. Two
  locales state what the two ends of a stream promise each other, and the stream operations are
  shown to keep these promises.
\<close>

section \<open>State\<close>

record Stream =
  sID :: u32
  sService :: u16
  sMetadata :: bytes
  sAccepted :: "mux_error option option"
  sReadBuf :: bytes
  sIsOpen :: bool
  sLocalClosed :: bool
  sRemoteClosed :: bool
  sTerminalErr :: "mux_error option"
  sInitialWindow :: u64
  sWindowThreshold :: u64
  sMaxDataPayload :: u32
  sWindowAdvertised :: bool
  sRecvCredit :: u64
  sPendingWindow :: u64
  sPeerWindowSet :: bool
  sPeerWindow :: u64
  sSendCredit :: u64

definition newStream ::
  "u32 \<Rightarrow> u32 \<Rightarrow> u32 \<Rightarrow> u32 \<Rightarrow> u16 \<Rightarrow> bytes \<Rightarrow> bool \<Rightarrow> Stream" where
  "newStream initialWindow windowThreshold maxDataPayload sid service metadata accepted =
     \<lparr>sID = sid, sService = service, sMetadata = metadata, sAccepted = None, sReadBuf = [],
      sIsOpen = accepted, sLocalClosed = False, sRemoteClosed = False, sTerminalErr = None,
      sInitialWindow = ucast initialWindow, sWindowThreshold = ucast windowThreshold,
      sMaxDataPayload = maxDataPayload, sWindowAdvertised = False, sRecvCredit = 0,
      sPendingWindow = 0, sPeerWindowSet = False, sPeerWindow = 0, sSendCredit = 0\<rparr>"

section \<open>Reading\<close>

text \<open>
  \<open>ReadGot data grant\<close>: bytes were taken, and \<open>grant\<close> bytes of credit go back to the peer
  (none when it is 0). \<open>ReadViolation\<close> is the error return that still hands the bytes over.
\<close>

datatype read_result =
    ReadGot bytes u32
  | ReadViolation bytes
  | ReadEnd mux_error
  | ReadWait

definition Stream_Read :: "Stream \<Rightarrow> nat \<Rightarrow> read_result \<times> Stream" where
  "Stream_Read s n =
     (if n = 0 then (ReadGot [] 0, s)
      else if sReadBuf s \<noteq> [] then
        let data = take n (sReadBuf s); s1 = s\<lparr>sReadBuf := drop n (sReadBuf s)\<rparr> in
        if \<not> sRemoteClosed s1 then
          let pending = sPendingWindow s1 + of_nat (length data);
              s2 = s1\<lparr>sPendingWindow := pending\<rparr> in
          if sWindowThreshold s2 \<le> pending \<or> sReadBuf s2 = [] then
            if sInitialWindow s2 < sRecvCredit s2 + pending then (ReadViolation data, s2)
            else (ReadGot data (ucast pending),
                  s2\<lparr>sRecvCredit := sRecvCredit s2 + pending, sPendingWindow := 0\<rparr>)
          else (ReadGot data 0, s2)
        else (ReadGot data 0, s1)
      else if sRemoteClosed s then
        (ReadEnd (case sTerminalErr s of Some e \<Rightarrow> e | None \<Rightarrow> ErrEOF), s)
      else (ReadWait, s))"

section \<open>Writing\<close>

datatype write_result =
    WriteChunk bytes
  | WriteErr mux_error
  | WriteWait

text \<open>
  One round of the loop in \<open>Write\<close> for the bytes \<open>p\<close> still to be sent: the inner wait loop's
  checks in their order, then the size of the DATA chunk and the credit it uses up.
\<close>

definition chunkSize :: "Stream \<Rightarrow> bytes \<Rightarrow> nat" where
  "chunkSize s p =
     (let chunk = length p;
          chunk1 = (if unat (sMaxDataPayload s) < chunk then unat (sMaxDataPayload s) else chunk)
      in if unat (sSendCredit s) < chunk1 then unat (sSendCredit s) else chunk1)"

definition Stream_writeChunk :: "Stream \<Rightarrow> bytes \<Rightarrow> write_result \<times> Stream" where
  "Stream_writeChunk s p =
     (if \<not> sIsOpen s then (WriteErr ErrNotAccepted, s)
      else if sLocalClosed s then (WriteErr ErrClosedPipe, s)
      else case sTerminalErr s of
        Some e \<Rightarrow> (WriteErr e, s)
      | None \<Rightarrow>
          if 0 < sSendCredit s then
            let chunk = chunkSize s p in
            (WriteChunk (take chunk p), s\<lparr>sSendCredit := sSendCredit s - of_nat chunk\<rparr>)
          else (WriteWait, s))"

section \<open>Closing and accepting\<close>

text \<open>The first critical section of \<open>Close\<close>; \<open>None\<close> when the stream was closed before.\<close>

definition Stream_closeLocal :: "Stream \<Rightarrow> Stream option" where
  "Stream_closeLocal s = (if sLocalClosed s then None else Some (s\<lparr>sLocalClosed := True\<rparr>))"

definition Stream_resetLocal :: "Stream \<Rightarrow> Stream option" where
  "Stream_resetLocal s =
     (if sLocalClosed s then None
      else Some (s\<lparr>sLocalClosed := True, sRemoteClosed := True, sTerminalErr := Some ErrStreamReset\<rparr>))"

definition markAccepted :: "Stream \<Rightarrow> Stream" where
  "markAccepted s = s\<lparr>sIsOpen := True\<rparr>"

definition signalAccepted :: "mux_error option \<Rightarrow> Stream \<Rightarrow> Stream" where
  "signalAccepted err s =
     (case sAccepted s of None \<Rightarrow> s\<lparr>sAccepted := Some err\<rparr> | Some _ \<Rightarrow> s)"

definition initializeReceiveWindow :: "Stream \<Rightarrow> mux_error + u32 \<times> Stream" where
  "initializeReceiveWindow s =
     (if sWindowAdvertised s then Inl ErrFlowControlViolation
      else Inr (ucast (sInitialWindow s),
                s\<lparr>sWindowAdvertised := True, sRecvCredit := sInitialWindow s\<rparr>))"

definition addSendCredit :: "u32 \<Rightarrow> Stream \<Rightarrow> mux_error + Stream" where
  "addSendCredit credit s =
     (if sLocalClosed s \<or> sTerminalErr s \<noteq> None then Inr s
      else if \<not> sPeerWindowSet s then
        if maxInitialWindow < credit then Inl ErrFlowControlViolation
        else Inr (s\<lparr>sPeerWindowSet := True, sPeerWindow := ucast credit, sSendCredit := ucast credit\<rparr>)
      else if sPeerWindow s < sSendCredit s + ucast credit then Inl ErrFlowControlViolation
      else Inr (s\<lparr>sSendCredit := sSendCredit s + ucast credit\<rparr>))"

definition deliver :: "bytes \<Rightarrow> Stream \<Rightarrow> mux_error + Stream" where
  "deliver payload s =
     (if payload = [] then Inr s
      else if sMaxDataPayload s < of_nat (length payload) then Inl ErrFlowControlViolation
      else if sRemoteClosed s then Inl ErrFlowControlViolation
      else if \<not> sWindowAdvertised s then Inl ErrFlowControlViolation
      else if unat (sRecvCredit s) < length payload then Inl ErrFlowControlViolation
      else if unat (sInitialWindow s) < length (sReadBuf s) + length payload then
        Inl ErrFlowControlViolation
      else Inr (s\<lparr>sRecvCredit := sRecvCredit s - of_nat (length payload),
                  sReadBuf := sReadBuf s @ payload\<rparr>))"

definition remoteClose :: "mux_error option \<Rightarrow> Stream \<Rightarrow> Stream" where
  "remoteClose err s =
     (if sRemoteClosed s \<and> sTerminalErr s \<noteq> None then s
      else let s1 = s\<lparr>sRemoteClosed := True\<rparr> in
        case err of None \<Rightarrow> s1 | Some e \<Rightarrow> s1\<lparr>sTerminalErr := Some e\<rparr>)"

definition isFullyClosed :: "Stream \<Rightarrow> bool" where
  "isFullyClosed s = (sLocalClosed s \<and> sRemoteClosed s)"

definition flowSnapshot :: "Stream \<Rightarrow> nat \<times> u64 \<times> u64 \<times> u64" where
  "flowSnapshot s = (length (sReadBuf s), sSendCredit s, sRecvCredit s, sPendingWindow s)"

section \<open>The invariant\<close>

text \<open>
  What \<open>New\<close> guarantees of the three limits of a multiplexer, and of their copies in a stream.
\<close>

definition limits_from_New :: "u32 \<Rightarrow> u32 \<Rightarrow> u32 \<Rightarrow> bool" where
  "limits_from_New iw th md =
     (unat iw \<le> 67108864 \<and> 0 < unat th \<and> unat th \<le> unat iw \<and> 0 < unat md \<and> unat md \<le> unat iw)"

definition limits_ok :: "Stream \<Rightarrow> bool" where
  "limits_ok s =
     (unat (sInitialWindow s) \<le> 67108864
      \<and> 0 < unat (sWindowThreshold s) \<and> unat (sWindowThreshold s) \<le> unat (sInitialWindow s)
      \<and> 0 < unat (sMaxDataPayload s) \<and> unat (sMaxDataPayload s) \<le> unat (sInitialWindow s))"

text \<open>Bytes the peer may still send, plus bytes it sent that have not been paid back.\<close>

definition recv_total :: "Stream \<Rightarrow> nat" where
  "recv_total s = length (sReadBuf s) + unat (sRecvCredit s) + unat (sPendingWindow s)"

definition recv_inv :: "Stream \<Rightarrow> bool" where
  "recv_inv s =
     (if sWindowAdvertised s then
        recv_total s \<le> unat (sInitialWindow s)
        \<and> (\<not> sRemoteClosed s \<longrightarrow>
             recv_total s = unat (sInitialWindow s)
             \<and> unat (sPendingWindow s) < unat (sWindowThreshold s)
             \<and> (sReadBuf s = [] \<longrightarrow> sPendingWindow s = 0))
      else sReadBuf s = [] \<and> sRecvCredit s = 0 \<and> sPendingWindow s = 0)"

definition send_inv :: "Stream \<Rightarrow> bool" where
  "send_inv s =
     (if sPeerWindowSet s then
        unat (sSendCredit s) \<le> unat (sPeerWindow s) \<and> unat (sPeerWindow s) \<le> 67108864
      else sSendCredit s = 0 \<and> sPeerWindow s = 0)"

definition stream_inv :: "Stream \<Rightarrow> bool" where
  "stream_inv s = (limits_ok s \<and> recv_inv s \<and> send_inv s)"

lemmas stream_inv_defs = stream_inv_def limits_ok_def recv_inv_def send_inv_def recv_total_def


subsection \<open>Every operation preserves it\<close>

lemma newStream_inv: "limits_from_New iw th md \<Longrightarrow> stream_inv (newStream iw th md sid svc m a)"
  by (simp add: limits_from_New_def stream_inv_defs newStream_def unat_ucast_32_64)

text \<open>Operations that leave the window fields alone preserve the invariant at once.\<close>

lemma limits_ok_frame [simp]:
  "limits_ok (s\<lparr>sIsOpen := b\<rparr>) = limits_ok s" "limits_ok (s\<lparr>sAccepted := a\<rparr>) = limits_ok s"
  "limits_ok (s\<lparr>sLocalClosed := b\<rparr>) = limits_ok s" "limits_ok (s\<lparr>sRemoteClosed := b\<rparr>) = limits_ok s"
  "limits_ok (s\<lparr>sTerminalErr := e\<rparr>) = limits_ok s" "limits_ok (s\<lparr>sSendCredit := c\<rparr>) = limits_ok s"
  "limits_ok (s\<lparr>sRecvCredit := c\<rparr>) = limits_ok s" "limits_ok (s\<lparr>sReadBuf := d\<rparr>) = limits_ok s"
  "limits_ok (s\<lparr>sPendingWindow := c\<rparr>) = limits_ok s"
  "limits_ok (s\<lparr>sPeerWindowSet := b\<rparr>) = limits_ok s" "limits_ok (s\<lparr>sPeerWindow := c\<rparr>) = limits_ok s"
  "limits_ok (s\<lparr>sWindowAdvertised := b\<rparr>) = limits_ok s"
  by (simp_all add: limits_ok_def)

lemma recv_inv_frame [simp]:
  "recv_inv (s\<lparr>sIsOpen := b\<rparr>) = recv_inv s" "recv_inv (s\<lparr>sAccepted := a\<rparr>) = recv_inv s"
  "recv_inv (s\<lparr>sLocalClosed := b\<rparr>) = recv_inv s" "recv_inv (s\<lparr>sTerminalErr := e\<rparr>) = recv_inv s"
  "recv_inv (s\<lparr>sSendCredit := c\<rparr>) = recv_inv s" "recv_inv (s\<lparr>sPeerWindowSet := b\<rparr>) = recv_inv s"
  "recv_inv (s\<lparr>sPeerWindow := c\<rparr>) = recv_inv s"
  by (simp_all add: recv_inv_def recv_total_def)

lemma send_inv_frame [simp]:
  "send_inv (s\<lparr>sIsOpen := b\<rparr>) = send_inv s" "send_inv (s\<lparr>sAccepted := a\<rparr>) = send_inv s"
  "send_inv (s\<lparr>sLocalClosed := b\<rparr>) = send_inv s" "send_inv (s\<lparr>sRemoteClosed := b\<rparr>) = send_inv s"
  "send_inv (s\<lparr>sTerminalErr := e\<rparr>) = send_inv s" "send_inv (s\<lparr>sRecvCredit := c\<rparr>) = send_inv s"
  "send_inv (s\<lparr>sReadBuf := d\<rparr>) = send_inv s" "send_inv (s\<lparr>sPendingWindow := c\<rparr>) = send_inv s"
  "send_inv (s\<lparr>sWindowAdvertised := b\<rparr>) = send_inv s"
  by (simp_all add: send_inv_def)

lemma recv_inv_remoteClosed: "recv_inv s \<Longrightarrow> recv_inv (s\<lparr>sRemoteClosed := True\<rparr>)"
  by (simp add: recv_inv_def recv_total_def split: if_splits)

lemma markAccepted_inv [simp]: "stream_inv (markAccepted s) \<longleftrightarrow> stream_inv s"
  by (simp add: stream_inv_def markAccepted_def)

lemma signalAccepted_inv [simp]: "stream_inv (signalAccepted e s) \<longleftrightarrow> stream_inv s"
  by (simp add: stream_inv_def signalAccepted_def split: option.splits)

lemma remoteClose_inv: "stream_inv s \<Longrightarrow> stream_inv (remoteClose e s)"
  by (simp add: stream_inv_def remoteClose_def Let_def recv_inv_remoteClosed split: option.splits)

lemma closeLocal_inv: "stream_inv s \<Longrightarrow> Stream_closeLocal s = Some s' \<Longrightarrow> stream_inv s'"
  by (auto simp: stream_inv_def Stream_closeLocal_def split: if_splits)

lemma resetLocal_inv: "stream_inv s \<Longrightarrow> Stream_resetLocal s = Some s' \<Longrightarrow> stream_inv s'"
  by (auto simp: stream_inv_def Stream_resetLocal_def recv_inv_remoteClosed split: if_splits)

lemma initializeReceiveWindow_inv:
  "stream_inv s \<Longrightarrow> initializeReceiveWindow s = Inr (w, s') \<Longrightarrow> stream_inv s'"
  by (auto simp: stream_inv_def initializeReceiveWindow_def recv_inv_def recv_total_def limits_ok_def
      split: if_splits)

lemma addSendCredit_inv:
  assumes inv: "stream_inv s" and r: "addSendCredit credit s = Inr s'"
  shows "stream_inv s'"
proof -
  have fit: "unat (sSendCredit s + ucast credit) = unat (sSendCredit s) + unat credit"
    if "sPeerWindowSet s"
    using inv that unat_lt_u32 [of credit]
    by (simp add: stream_inv_defs unat_rules)
  from inv r fit show ?thesis
    by (auto simp: stream_inv_def send_inv_def addSendCredit_def word_less_nat_alt unat_ucast_32_64
        split: if_splits)
qed

lemma deliver_inv:
  assumes inv: "stream_inv s" and r: "deliver p s = Inr s'"
  shows "stream_inv s'"
proof (cases "p = []")
  case True
  with inv r show ?thesis by (simp add: deliver_def)
next
  case False
  with r have s': "s' = s\<lparr>sRecvCredit := sRecvCredit s - of_nat (length p), sReadBuf := sReadBuf s @ p\<rparr>"
    and len: "length p \<le> unat (sRecvCredit s)" and adv: "sWindowAdvertised s"
    by (auto simp: deliver_def split: if_splits)
  have "length p < 2 ^ 64"
    using len unat_lt_u64 [of "sRecvCredit s"] by simp
  then have "unat (sRecvCredit s - of_nat (length p)) = unat (sRecvCredit s) - length p"
    using len by (simp add: unat_rules)
  with inv len adv False r show ?thesis
    by (auto simp: s' stream_inv_def recv_inv_def recv_total_def deliver_def split: if_splits)
qed

lemma chunkSize_bounds:
  "chunkSize s p \<le> length p" "chunkSize s p \<le> unat (sSendCredit s)"
  "chunkSize s p \<le> unat (sMaxDataPayload s)"
  by (simp_all add: chunkSize_def Let_def)

lemma chunkSize_pos:
  "p \<noteq> [] \<Longrightarrow> 0 < sSendCredit s \<Longrightarrow> 0 < unat (sMaxDataPayload s) \<Longrightarrow> 0 < chunkSize s p"
  by (simp add: chunkSize_def Let_def word_less_nat_alt)

lemma writeChunk_cases:
  assumes "Stream_writeChunk s p = (WriteChunk c, s')"
  shows "sIsOpen s" "\<not> sLocalClosed s" "sTerminalErr s = None" "0 < sSendCredit s"
    "c = take (chunkSize s p) p" "s' = s\<lparr>sSendCredit := sSendCredit s - of_nat (chunkSize s p)\<rparr>"
  using assms by (auto simp: Stream_writeChunk_def Let_def split: if_splits option.splits)

lemma writeChunk_credit:
  assumes "Stream_writeChunk s p = (WriteChunk c, s')"
  shows "unat (sSendCredit s') = unat (sSendCredit s) - length c" "length c \<le> unat (sSendCredit s)"
    "length c \<le> unat (sMaxDataPayload s)" "length c = chunkSize s p"
proof -
  have "chunkSize s p < 2 ^ 64"
    using chunkSize_bounds(2) [of s p] unat_lt_u64 [of "sSendCredit s"] by simp
  then have "unat (sSendCredit s - of_nat (chunkSize s p)) = unat (sSendCredit s) - chunkSize s p"
    using chunkSize_bounds(2) [of s p] by (simp add: unat_rules)
  moreover show "length c = chunkSize s p"
    using writeChunk_cases(5) [OF assms] chunkSize_bounds(1) [of s p] by simp
  ultimately show "unat (sSendCredit s') = unat (sSendCredit s) - length c"
    "length c \<le> unat (sSendCredit s)" "length c \<le> unat (sMaxDataPayload s)"
    using writeChunk_cases(6) [OF assms] chunkSize_bounds [of s p] by simp_all
qed

lemma writeChunk_inv:
  assumes "stream_inv s" "Stream_writeChunk s p = (r, s')"
  shows "stream_inv s'"
proof (cases r)
  case (WriteChunk c)
  with assms(2) have w: "Stream_writeChunk s p = (WriteChunk c, s')" by simp
  note s' = writeChunk_cases(6) [OF w]
  have "unat (sSendCredit s') = unat (sSendCredit s) - length c" "length c \<le> unat (sSendCredit s)"
    by (rule writeChunk_credit [OF w])+
  with assms(1) s' writeChunk_cases(4) [OF w] show ?thesis
    by (auto simp: stream_inv_def send_inv_def split: if_splits)
qed (use assms in \<open>auto simp: Stream_writeChunk_def Let_def split: if_splits option.splits\<close>)

text \<open>
  Reading. Under the invariant the pending credit and the receive credit fit the window, so the
  sums of \<open>Read\<close> do not wrap and its violation branch is dead.
\<close>

lemma Read_got_closed:
  assumes "n \<noteq> 0" "sReadBuf s \<noteq> []" "sRemoteClosed s"
  shows "Stream_Read s n = (ReadGot (take n (sReadBuf s)) 0, s\<lparr>sReadBuf := drop n (sReadBuf s)\<rparr>)"
  using assms by (simp add: Stream_Read_def Let_def)

lemma pending_after_read:
  assumes "stream_inv s" "sWindowAdvertised s"
  shows "unat (sPendingWindow s + of_nat (length (take n (sReadBuf s))))
         = unat (sPendingWindow s) + length (take n (sReadBuf s))"
    and "unat (sRecvCredit s + (sPendingWindow s + of_nat (length (take n (sReadBuf s)))))
         = unat (sRecvCredit s) + unat (sPendingWindow s) + length (take n (sReadBuf s))"
proof -
  let ?d = "length (take n (sReadBuf s))"
  have fit: "?d + unat (sRecvCredit s) + unat (sPendingWindow s) \<le> 67108864"
    using assms by (auto simp: stream_inv_defs)
  then have d: "unat (of_nat ?d :: u64) = ?d"
    by (intro unat_of_nat_small) simp
  show p: "unat (sPendingWindow s + of_nat ?d) = unat (sPendingWindow s) + ?d"
    using fit d by (simp add: unat_add_no_wrap)
  show "unat (sRecvCredit s + (sPendingWindow s + of_nat ?d))
      = unat (sRecvCredit s) + unat (sPendingWindow s) + ?d"
    using fit d p by (simp add: unat_add_no_wrap)
qed

lemma Read_advertised:
  assumes "stream_inv s" "sReadBuf s \<noteq> []"
  shows "sWindowAdvertised s"
  using assms by (auto simp: stream_inv_defs split: if_splits)

lemma Read_got_open:
  assumes inv: "stream_inv s" and n: "n \<noteq> 0" and buf: "sReadBuf s \<noteq> []" and op: "\<not> sRemoteClosed s"
  defines "data \<equiv> take n (sReadBuf s)"
  defines "pending \<equiv> sPendingWindow s + of_nat (length data)"
  shows "Stream_Read s n =
     (if sWindowThreshold s \<le> pending \<or> drop n (sReadBuf s) = [] then
        (ReadGot data (ucast pending),
         s\<lparr>sReadBuf := drop n (sReadBuf s), sPendingWindow := 0, sRecvCredit := sRecvCredit s + pending\<rparr>)
      else (ReadGot data 0, s\<lparr>sReadBuf := drop n (sReadBuf s), sPendingWindow := pending\<rparr>))"
proof -
  have adv: "sWindowAdvertised s" by (rule Read_advertised [OF inv buf])
  have "unat (sRecvCredit s + pending) \<le> unat (sInitialWindow s)"
    using inv adv unfolding pending_def data_def pending_after_read(2) [OF inv adv]
    by (auto simp: stream_inv_defs)
  then have fits: "\<not> sInitialWindow s < sRecvCredit s + pending"
    by (simp add: word_less_nat_alt)
  have "Stream_Read s n =
     (if sWindowThreshold s \<le> pending \<or> drop n (sReadBuf s) = [] then
        if sInitialWindow s < sRecvCredit s + pending then
          (ReadViolation data, s\<lparr>sReadBuf := drop n (sReadBuf s), sPendingWindow := pending\<rparr>)
        else (ReadGot data (ucast pending),
          s\<lparr>sReadBuf := drop n (sReadBuf s), sPendingWindow := 0, sRecvCredit := sRecvCredit s + pending\<rparr>)
      else (ReadGot data 0, s\<lparr>sReadBuf := drop n (sReadBuf s), sPendingWindow := pending\<rparr>))"
    using n buf op unfolding Stream_Read_def Let_def data_def pending_def
    by (simp del: length_take drop_eq_Nil cong: if_cong)
  then show ?thesis
    by (simp only: if_not_P [OF fits])
qed

lemma Read_inv:
  assumes inv: "stream_inv s" and r: "Stream_Read s n = (r, s')"
  shows "stream_inv s'"
proof (cases "n \<noteq> 0 \<and> sReadBuf s \<noteq> []")
  case False
  with inv r show ?thesis by (auto simp: Stream_Read_def split: if_splits)
next
  case True
  then have n: "n \<noteq> 0" and buf: "sReadBuf s \<noteq> []" by auto
  have adv: "sWindowAdvertised s" by (rule Read_advertised [OF inv buf])
  show ?thesis
  proof (cases "sRemoteClosed s")
    case True
    with inv adv r show ?thesis
      by (auto simp: Read_got_closed [OF n buf True] stream_inv_defs)
  next
    case False
    let ?d = "take n (sReadBuf s)" and ?rest = "drop n (sReadBuf s)"
    let ?p = "sPendingWindow s + of_nat (length ?d)"
    have len: "length (sReadBuf s) = length ?d + length ?rest"
      by simp
    have tot: "length (sReadBuf s) + unat (sRecvCredit s) + unat (sPendingWindow s)
        = unat (sInitialWindow s)" and lim: "limits_ok s" and snd: "send_inv s"
      using inv adv False by (auto simp: stream_inv_defs)
    note sums = pending_after_read [OF inv adv, of n]
    note r' = r [unfolded Read_got_open [OF inv n buf False]]
    show ?thesis
    proof (cases "sWindowThreshold s \<le> ?p \<or> ?rest = []")
      case True
      from r' have "s' = s\<lparr>sReadBuf := ?rest, sPendingWindow := 0, sRecvCredit := sRecvCredit s + ?p\<rparr>"
        by (simp only: if_P [OF True] prod.inject)
      moreover have "length ?rest + unat (sRecvCredit s + ?p) = unat (sInitialWindow s)"
        using tot len sums(2) by linarith
      ultimately show ?thesis
        using adv lim snd False by (simp add: stream_inv_defs)
    next
      case below: False
      from r' have "s' = s\<lparr>sReadBuf := ?rest, sPendingWindow := ?p\<rparr>"
        by (simp only: if_not_P [OF below] prod.inject)
      moreover have "length ?rest + unat (sRecvCredit s) + unat ?p = unat (sInitialWindow s)"
        using tot len sums(1) by linarith
      moreover have "unat ?p < unat (sWindowThreshold s)" "?rest \<noteq> []"
        using below by (auto simp: word_le_nat_alt)
      ultimately show ?thesis
        using adv lim snd False by (simp add: stream_inv_defs)
    qed
  qed
qed

end
