(* ===== verification/Mux_Credit.thy ===== *)
theory Mux_Credit
  imports Mux_Stream
begin

text \<open>
  The credit contract between the two ends of a stream. \<open>flow_sender\<close> states what the sending
  half of a stream promises (\<open>Write\<close> and \<open>addSendCredit\<close> of \<open>src/sessionmux/stream.go\<close>),
  \<open>flow_receiver\<close> what the receiving half promises (\<open>deliver\<close> and \<open>Read\<close>), and \<open>flow_pair\<close>
  joins them over one FIFO of DATA chunks and one FIFO of WINDOW grants. The conservation law of
  credit and its consequences are proved once inside \<open>flow_pair\<close>; the interpretation at the end
  discharges the contracts for the model of \<open>Stream\<close>.
\<close>

section \<open>The two contracts\<close>

locale flow_sender =
  fixes sinv :: "'s \<Rightarrow> bool"
    and active :: "'s \<Rightarrow> bool"
    and credit :: "'s \<Rightarrow> nat"
    and window :: "'s \<Rightarrow> nat option"
    and limit :: "'s \<Rightarrow> nat"
    and chunk :: "'s \<Rightarrow> bytes \<Rightarrow> (bytes \<times> 's) option"
    and grant :: "u32 \<Rightarrow> 's \<Rightarrow> 's option"
  assumes chunk_sound: "\<lbrakk>sinv s; p \<noteq> []; chunk s p = Some (c, s')\<rbrakk> \<Longrightarrow>
        sinv s' \<and> active s \<and> active s' \<and> c \<noteq> [] \<and> prefix c p \<and> length c \<le> limit s
        \<and> credit s = credit s' + length c \<and> window s' = window s \<and> limit s' = limit s"
    and chunk_progress: "\<lbrakk>sinv s; active s; 0 < credit s; p \<noteq> []\<rbrakk> \<Longrightarrow> \<exists>c s'. chunk s p = Some (c, s')"
    and grant_first: "\<lbrakk>sinv s; active s; window s = None; unat g \<le> 67108864\<rbrakk> \<Longrightarrow>
        \<exists>s'. grant g s = Some s' \<and> sinv s' \<and> active s' \<and> credit s' = unat g
           \<and> window s' = Some (unat g) \<and> limit s' = limit s"
    and grant_next: "\<lbrakk>sinv s; active s; window s = Some w; credit s + unat g \<le> w\<rbrakk> \<Longrightarrow>
        \<exists>s'. grant g s = Some s' \<and> sinv s' \<and> active s' \<and> credit s' = credit s + unat g
           \<and> window s' = Some w \<and> limit s' = limit s"
    and grant_inactive: "\<lbrakk>sinv s; \<not> active s\<rbrakk> \<Longrightarrow> grant g s = Some s"
    and unopened_credit: "\<lbrakk>sinv s; window s = None\<rbrakk> \<Longrightarrow> credit s = 0"

locale flow_receiver =
  fixes rinv :: "'r \<Rightarrow> bool"
    and live :: "'r \<Rightarrow> bool"
    and room :: "'r \<Rightarrow> nat"
    and unread :: "'r \<Rightarrow> bytes"
    and owed :: "'r \<Rightarrow> nat"
    and size_of :: "'r \<Rightarrow> nat"
    and cap :: "'r \<Rightarrow> nat"
    and dl :: "bytes \<Rightarrow> 'r \<Rightarrow> 'r option"
    and rd :: "'r \<Rightarrow> nat \<Rightarrow> (bytes \<times> u32 \<times> 'r) option"
  assumes dl_law: "\<lbrakk>rinv r; live r; c \<noteq> []; length c \<le> cap r; length c \<le> room r\<rbrakk> \<Longrightarrow>
        \<exists>r'. dl c r = Some r' \<and> rinv r' \<and> live r' \<and> unread r' = unread r @ c
           \<and> room r = room r' + length c \<and> size_of r' = size_of r \<and> cap r' = cap r"
    and rd_law: "\<lbrakk>rinv r; n \<noteq> 0; unread r \<noteq> []\<rbrakk> \<Longrightarrow>
        \<exists>d g r'. rd r n = Some (d, g, r') \<and> rinv r' \<and> live r' = live r \<and> d = take n (unread r)
           \<and> unread r' = drop n (unread r) \<and> room r' = room r + unat g
           \<and> size_of r' = size_of r \<and> cap r' = cap r"
    and rd_empty: "\<lbrakk>rinv r; n \<noteq> 0; unread r = []\<rbrakk> \<Longrightarrow> rd r n = None"
    and full: "\<lbrakk>rinv r; live r\<rbrakk> \<Longrightarrow> length (unread r) + room r + owed r = size_of r"
    and drained: "\<lbrakk>rinv r; live r; unread r = []\<rbrakk> \<Longrightarrow> owed r = 0"
    and size_bounds: "rinv r \<Longrightarrow> 0 < size_of r \<and> size_of r \<le> 67108864"

section \<open>A sender and a receiver joined by two queues\<close>

locale flow_pair = flow_sender sinv active credit window limit chunk grant
    + flow_receiver rinv live room unread owed size_of cap dl rd
  for sinv :: "'s \<Rightarrow> bool" and active credit window limit chunk grant
    and rinv :: "'r \<Rightarrow> bool" and live room unread owed size_of cap dl rd
begin

text \<open>
  \<open>pair_inv s r data wins\<close>: the chunks \<open>data\<close> are on their way from \<open>s\<close> to \<open>r\<close>, the grants
  \<open>wins\<close> on their way back. While the sender is active, its credit, the bytes in flight and the
  grants in flight add up to exactly what the receiver is prepared to take.
\<close>

definition pair_inv :: "'s \<Rightarrow> 'r \<Rightarrow> bytes list \<Rightarrow> u32 list \<Rightarrow> bool" where
  "pair_inv s r data wins =
     (sinv s \<and> rinv r \<and> min (limit s) (size_of r) \<le> cap r
      \<and> list_all (\<lambda>c. c \<noteq> [] \<and> length c \<le> cap r) data
      \<and> (data \<noteq> [] \<longrightarrow> live r)
      \<and> (live r \<longrightarrow> credit s + length (concat data) + sum_list (map unat wins) \<le> room r)
      \<and> (active s \<longrightarrow> live r
           \<and> credit s + length (concat data) + sum_list (map unat wins) = room r
           \<and> (case window s of
                None \<Rightarrow> data = [] \<and> (\<exists>w. wins = [w] \<and> unat w = size_of r)
              | Some w \<Rightarrow> w = size_of r)))"

lemma pair_send:
  assumes inv: "pair_inv s r data wins" and p: "p \<noteq> []" and c: "chunk s p = Some (c, s')"
  shows "pair_inv s' r (data @ [c]) wins"
proof -
  from inv have s: "sinv s" and r: "rinv r" by (simp_all add: pair_inv_def)
  note snd = chunk_sound [OF s p c]
  from inv snd have lv: "live r"
    and eq: "credit s + length (concat data) + sum_list (map unat wins) = room r"
    by (auto simp: pair_inv_def)
  have "length c \<le> size_of r"
    using snd eq full [OF r lv] by linarith
  with snd inv have "length c \<le> cap r"
    by (auto simp: pair_inv_def)
  moreover have "window s \<noteq> None"
    using snd unopened_credit [OF s] by fastforce
  ultimately show ?thesis
    using inv snd lv eq by (auto simp: pair_inv_def split: option.splits)
qed

lemma pair_deliver:
  assumes inv: "pair_inv s r (c # data) wins"
  shows "\<exists>r'. dl c r = Some r' \<and> unread r' = unread r @ c \<and> pair_inv s r' data wins"
proof -
  from inv have r: "rinv r" and lv: "live r" and c: "c \<noteq> []" "length c \<le> cap r"
    and room: "length c \<le> room r"
    by (auto simp: pair_inv_def)
  from dl_law [OF r lv c room] obtain r' where r': "dl c r = Some r'" "rinv r'" "live r'"
    "unread r' = unread r @ c" "room r = room r' + length c" "size_of r' = size_of r" "cap r' = cap r"
    by blast
  with inv have "pair_inv s r' data wins"
    by (auto simp: pair_inv_def split: option.splits)
  with r' show ?thesis by blast
qed

lemma pair_read:
  assumes inv: "pair_inv s r data wins" and n: "n \<noteq> 0" and rd: "rd r n = Some (d, g, r')"
  shows "pair_inv s r' data (if g = 0 then wins else wins @ [g])"
    and "unread r = d @ unread r'" and "d \<noteq> []"
proof -
  from inv have r: "rinv r" by (simp add: pair_inv_def)
  have ne: "unread r \<noteq> []"
    using rd_empty [OF r n] rd by force
  from rd_law [OF r n ne] rd have r': "rinv r'" "live r' = live r" "d = take n (unread r)"
    "unread r' = drop n (unread r)" "room r' = room r + unat g" "size_of r' = size_of r" "cap r' = cap r"
    by auto
  have small: "room r < size_of r" if "live r"
    using full [OF r that] ne by (cases "unread r") simp_all
  have opened: "window s \<noteq> None" if "active s"
  proof
    assume "window s = None"
    with inv that have "live r" "room r \<ge> size_of r"
      by (auto simp: pair_inv_def)
    with small show False by simp
  qed
  show "pair_inv s r' data (if g = 0 then wins else wins @ [g])"
    using inv r' opened by (auto simp: pair_inv_def split: option.splits)
  show "unread r = d @ unread r'" "d \<noteq> []"
    using r' n ne by simp_all
qed

lemma pair_grant:
  assumes inv: "pair_inv s r data (g # wins)"
  shows "\<exists>s'. grant g s = Some s' \<and> pair_inv s' r data wins"
proof (cases "active s")
  case False
  with inv have "grant g s = Some s"
    by (simp add: grant_inactive pair_inv_def)
  moreover from inv False have "pair_inv s r data wins"
    by (auto simp: pair_inv_def)
  ultimately show ?thesis by blast
next
  case True
  from inv have s: "sinv s" and r: "rinv r" by (simp_all add: pair_inv_def)
  from inv True have lv: "live r"
    and eq: "credit s + length (concat data) + (unat g + sum_list (map unat wins)) = room r"
    by (auto simp: pair_inv_def)
  show ?thesis
  proof (cases "window s")
    case None
    with inv True have d: "data = []" "wins = []" "unat g = size_of r"
      by (auto simp: pair_inv_def)
    from d(3) size_bounds [OF r] have "unat g \<le> 67108864" by simp
    from grant_first [OF s True None this] obtain s' where
      "grant g s = Some s'" "sinv s'" "active s'" "credit s' = unat g"
      "window s' = Some (unat g)" "limit s' = limit s"
      by blast
    with inv True None d lv eq unopened_credit [OF s None] show ?thesis
      by (auto simp: pair_inv_def)
  next
    case (Some w)
    with inv True have w: "w = size_of r"
      by (auto simp: pair_inv_def)
    have "credit s + unat g \<le> w"
      using eq w full [OF r lv] by linarith
    from grant_next [OF s True Some this] obtain s' where
      "grant g s = Some s'" "sinv s'" "active s'" "credit s' = credit s + unat g"
      "window s' = Some w" "limit s' = limit s"
      by blast
    with inv True Some w lv eq show ?thesis
      by (auto simp: pair_inv_def)
  qed
qed

text \<open>
  A sender without credit is never stuck for good: something is in flight, or the receiver's
  application has unread bytes whose consumption returns credit.
\<close>

lemma pair_not_stuck:
  assumes "pair_inv s r data wins" "active s" "credit s = 0" "data = []" "wins = []"
  shows "unread r \<noteq> []"
proof
  assume e: "unread r = []"
  from assms have r: "rinv r" "live r" "room r = 0"
    by (auto simp: pair_inv_def)
  with e full [OF r(1,2)] drained [OF r(1,2) e] size_bounds [OF r(1)] show False
    by simp
qed

text \<open>Once everything is delivered, consumed and granted, the sender has the whole window.\<close>

lemma pair_recovered:
  assumes "pair_inv s r [] []" "active s" "unread r = []"
  shows "credit s = size_of r"
proof -
  from assms have r: "rinv r" "live r" "credit s = room r"
    by (auto simp: pair_inv_def)
  with full [OF r(1,2)] drained [OF r(1,2) assms(3)] assms(3) show ?thesis
    by simp
qed

end

section \<open>The model of a stream keeps both contracts\<close>

definition sender_ok :: "Stream \<Rightarrow> bool" where
  "sender_ok s = (stream_inv s \<and> sIsOpen s)"

definition sender_active :: "Stream \<Rightarrow> bool" where
  "sender_active s = (\<not> sLocalClosed s \<and> sTerminalErr s = None)"

definition sender_window :: "Stream \<Rightarrow> nat option" where
  "sender_window s = (if sPeerWindowSet s then Some (unat (sPeerWindow s)) else None)"

definition sender_chunk :: "Stream \<Rightarrow> bytes \<Rightarrow> (bytes \<times> Stream) option" where
  "sender_chunk s p =
     (case Stream_writeChunk s p of (WriteChunk c, s') \<Rightarrow> Some (c, s') | _ \<Rightarrow> None)"

definition sender_grant :: "u32 \<Rightarrow> Stream \<Rightarrow> Stream option" where
  "sender_grant g s = (case addSendCredit g s of Inl _ \<Rightarrow> None | Inr s' \<Rightarrow> Some s')"

definition receiver_ok :: "Stream \<Rightarrow> bool" where
  "receiver_ok s = (stream_inv s \<and> sWindowAdvertised s)"

definition receiver_deliver :: "bytes \<Rightarrow> Stream \<Rightarrow> Stream option" where
  "receiver_deliver c s = (case deliver c s of Inl _ \<Rightarrow> None | Inr s' \<Rightarrow> Some s')"

definition receiver_read :: "Stream \<Rightarrow> nat \<Rightarrow> (bytes \<times> u32 \<times> Stream) option" where
  "receiver_read s n =
     (case Stream_Read s n of (ReadGot d g, s') \<Rightarrow> Some (d, g, s') | _ \<Rightarrow> None)"

lemma sender_chunk_Some:
  "sender_chunk s p = Some (c, s') \<longleftrightarrow> Stream_writeChunk s p = (WriteChunk c, s')"
  by (auto simp: sender_chunk_def split: prod.splits write_result.splits)

lemma sender_chunk_sound:
  assumes "sender_ok s" "p \<noteq> []" "sender_chunk s p = Some (c, s')"
  shows "sender_ok s' \<and> sender_active s \<and> sender_active s' \<and> c \<noteq> [] \<and> prefix c p
    \<and> length c \<le> unat (sMaxDataPayload s) \<and> unat (sSendCredit s) = unat (sSendCredit s') + length c
    \<and> sender_window s' = sender_window s \<and> unat (sMaxDataPayload s') = unat (sMaxDataPayload s)"
proof -
  from assms(3) have w: "Stream_writeChunk s p = (WriteChunk c, s')"
    by (simp add: sender_chunk_Some)
  note cs = writeChunk_cases [OF w] and cr = writeChunk_credit [OF w]
  have "0 < unat (sMaxDataPayload s)"
    using assms(1) by (simp add: sender_ok_def stream_inv_def limits_ok_def)
  then have "0 < length c"
    using cr(4) chunkSize_pos [OF assms(2) cs(4)] by simp
  moreover have "stream_inv s'"
    using assms(1) writeChunk_inv [OF _ w] by (simp add: sender_ok_def)
  moreover have "prefix c p"
    using cs(5) by (simp add: take_is_prefix)
  ultimately show ?thesis
    using cs(1-3,6) cr by (auto simp: sender_ok_def sender_active_def sender_window_def)
qed

lemma sender_grant_first:
  assumes "sender_ok s" "sender_active s" "sender_window s = None" "unat g \<le> 67108864"
  shows "\<exists>s'. sender_grant g s = Some s' \<and> sender_ok s' \<and> sender_active s'
    \<and> unat (sSendCredit s') = unat g \<and> sender_window s' = Some (unat g)
    \<and> unat (sMaxDataPayload s') = unat (sMaxDataPayload s)"
proof -
  let ?s' = "s\<lparr>sPeerWindowSet := True, sPeerWindow := ucast g, sSendCredit := ucast g\<rparr>"
  have g: "\<not> maxInitialWindow < g"
    using assms(4) by (simp add: word_less_nat_alt)
  have act: "\<not> sLocalClosed s" "sTerminalErr s = None"
    using assms(2) by (simp_all add: sender_active_def)
  have unset: "\<not> sPeerWindowSet s"
    using assms(3) by (simp add: sender_window_def split: if_splits)
  have r: "addSendCredit g s = Inr ?s'"
    unfolding addSendCredit_def using act unset g by simp
  moreover have "stream_inv ?s'"
    using assms(1) addSendCredit_inv [OF _ r] by (simp add: sender_ok_def)
  ultimately show ?thesis
    using assms(1,2)
    by (auto simp: sender_grant_def sender_ok_def sender_active_def sender_window_def unat_ucast_32_64)
qed

lemma sender_grant_next:
  assumes "sender_ok s" "sender_active s" "sender_window s = Some w" "unat (sSendCredit s) + unat g \<le> w"
  shows "\<exists>s'. sender_grant g s = Some s' \<and> sender_ok s' \<and> sender_active s'
    \<and> unat (sSendCredit s') = unat (sSendCredit s) + unat g \<and> sender_window s' = Some w
    \<and> unat (sMaxDataPayload s') = unat (sMaxDataPayload s)"
proof -
  let ?s' = "s\<lparr>sSendCredit := sSendCredit s + ucast g\<rparr>"
  have set: "sPeerWindowSet s" "w = unat (sPeerWindow s)"
    using assms(3) by (auto simp: sender_window_def split: if_splits)
  have sum: "unat (sSendCredit s + ucast g) = unat (sSendCredit s) + unat g"
    using assms(4) set unat_lt_u64 [of "sPeerWindow s"] by (simp add: unat_rules)
  have r: "addSendCredit g s = Inr ?s'"
    using assms(2,4) set sum by (auto simp: addSendCredit_def sender_active_def word_less_nat_alt)
  moreover have "stream_inv ?s'"
    using assms(1) addSendCredit_inv [OF _ r] by (simp add: sender_ok_def)
  ultimately show ?thesis
    using assms(1,2) set sum
    by (auto simp: sender_grant_def sender_ok_def sender_active_def sender_window_def)
qed

lemma receiver_deliver_law:
  assumes "receiver_ok s" "\<not> sRemoteClosed s" "c \<noteq> []" "length c \<le> unat (sMaxDataPayload s)"
    "length c \<le> unat (sRecvCredit s)"
  shows "\<exists>s'. receiver_deliver c s = Some s' \<and> receiver_ok s' \<and> \<not> sRemoteClosed s'
    \<and> sReadBuf s' = sReadBuf s @ c \<and> unat (sRecvCredit s) = unat (sRecvCredit s') + length c
    \<and> unat (sInitialWindow s') = unat (sInitialWindow s)
    \<and> unat (sMaxDataPayload s') = unat (sMaxDataPayload s)"
proof -
  let ?s' = "s\<lparr>sRecvCredit := sRecvCredit s - of_nat (length c), sReadBuf := sReadBuf s @ c\<rparr>"
  have adv: "sWindowAdvertised s" and inv: "stream_inv s"
    using assms(1) by (auto simp: receiver_ok_def)
  have tot: "length (sReadBuf s) + unat (sRecvCredit s) \<le> unat (sInitialWindow s)"
    using inv adv by (auto simp: stream_inv_def recv_inv_def recv_total_def)
  have l32: "length c < 2 ^ 32"
    using assms(4) unat_lt_u32 [of "sMaxDataPayload s"] by simp
  then have w32: "unat (of_nat (length c) :: u32) = length c"
    by (intro unat_of_nat_small) simp
  have w64: "unat (of_nat (length c) :: u64) = length c"
    by (rule unat_of_nat_small) (use l32 in simp)
  have r: "deliver c s = Inr ?s'"
    using assms(2-5) adv tot w32 by (auto simp: deliver_def word_less_nat_alt)
  have "unat (sRecvCredit s - of_nat (length c)) = unat (sRecvCredit s) - length c"
    using w64 assms(5) by (simp add: unat_diff_no_wrap)
  with r deliver_inv [OF inv r] adv assms(2,5) show ?thesis
    by (auto simp: receiver_deliver_def receiver_ok_def)
qed

text \<open>The credit a read returns fits the 32 bits of the WINDOW payload.\<close>

lemma unat_ucast_64_32: "unat w < 2 ^ 32 \<Longrightarrow> unat (ucast (w :: u64) :: u32) = unat w"
  by (simp add: unsigned_ucast_eq take_bit_nat_eq_self)

lemma receiver_read_law:
  assumes ok: "receiver_ok s" and n: "n \<noteq> 0" and buf: "sReadBuf s \<noteq> []"
  shows "\<exists>d g s'. receiver_read s n = Some (d, g, s') \<and> receiver_ok s'
    \<and> (\<not> sRemoteClosed s') = (\<not> sRemoteClosed s) \<and> d = take n (sReadBuf s)
    \<and> sReadBuf s' = drop n (sReadBuf s) \<and> unat (sRecvCredit s') = unat (sRecvCredit s) + unat g
    \<and> unat (sInitialWindow s') = unat (sInitialWindow s)
    \<and> unat (sMaxDataPayload s') = unat (sMaxDataPayload s)"
proof (cases "sRemoteClosed s")
  case True
  from ok have adv: "sWindowAdvertised s" and inv: "stream_inv s"
    by (auto simp: receiver_ok_def)
  note r = Read_got_closed [OF n buf True]
  from Read_inv [OF inv r] adv True show ?thesis
    by (simp add: receiver_read_def r receiver_ok_def)
next
  case False
  from ok have adv: "sWindowAdvertised s" and inv: "stream_inv s"
    by (auto simp: receiver_ok_def)
  let ?p = "sPendingWindow s + of_nat (length (take n (sReadBuf s)))"
  note sums = pending_after_read [OF inv adv, of n]
  have "unat ?p \<le> 67108864"
    using inv adv sums(1) by (auto simp: stream_inv_defs)
  then have g: "unat (ucast ?p :: u32) = unat ?p"
    by (intro unat_ucast_64_32) simp
  note r = Read_got_open [OF inv n buf False]
  show ?thesis
  proof (cases "sWindowThreshold s \<le> ?p \<or> drop n (sReadBuf s) = []")
    case True
    note r' = r [unfolded if_P [OF True]]
    from Read_inv [OF inv r'] adv False g sums show ?thesis
      by (simp add: receiver_read_def r' receiver_ok_def)
  next
    case below: False
    note r' = r [unfolded if_not_P [OF below]]
    from Read_inv [OF inv r'] adv False show ?thesis
      by (simp add: receiver_read_def r' receiver_ok_def)
  qed
qed

interpretation stream_flow: flow_pair
  sender_ok sender_active "\<lambda>s. unat (sSendCredit s)" sender_window "\<lambda>s. unat (sMaxDataPayload s)"
  sender_chunk sender_grant
  receiver_ok "\<lambda>s. \<not> sRemoteClosed s" "\<lambda>s. unat (sRecvCredit s)" sReadBuf
  "\<lambda>s. unat (sPendingWindow s)" "\<lambda>s. unat (sInitialWindow s)" "\<lambda>s. unat (sMaxDataPayload s)"
  receiver_deliver receiver_read
proof (unfold_locales, goal_cases)
  case (1 s p c s')
  then show ?case by (rule sender_chunk_sound)
next
  case (2 s p)
  then show ?case
    by (auto simp: sender_chunk_def Stream_writeChunk_def sender_ok_def sender_active_def Let_def
        word_less_nat_alt)
next
  case (3 s g)
  then show ?case by (rule sender_grant_first)
next
  case (4 s w g)
  then show ?case by (rule sender_grant_next)
next
  case (5 s g)
  then show ?case
    by (auto simp: sender_grant_def addSendCredit_def sender_active_def)
next
  case (6 s)
  then show ?case
    by (auto simp: sender_ok_def sender_window_def stream_inv_def send_inv_def split: if_splits)
next
  case (7 r c)
  then show ?case by (rule receiver_deliver_law)
next
  case (8 r n)
  then show ?case by (rule receiver_read_law)
next
  case (9 r n)
  then show ?case
    by (auto simp: receiver_read_def Stream_Read_def)
next
  case (10 r)
  then show ?case
    by (auto simp: receiver_ok_def stream_inv_def recv_inv_def recv_total_def)
next
  case (11 r)
  then show ?case
    by (auto simp: receiver_ok_def stream_inv_def recv_inv_def recv_total_def)
next
  case (12 r)
  then show ?case
    by (auto simp: receiver_ok_def stream_inv_def limits_ok_def)
qed

end
