(* ===== verification/Mux_Flow.thy ===== *)
theory Mux_Flow
  imports Mux_Credit
begin

text \<open>
  One direction of one stream end to end: the stream object of the writing peer, the stream
  object of the reading peer, the DATA and CLOSE frames in flight between them and the WINDOW
  grants in flight back, each a FIFO because both peers share one ordered transport. A step is
  one call of an operation of \<open>src/sessionmux/stream.go\<close> at either peer; the order of steps is
  arbitrary. A call of \<open>Write\<close> puts its bytes into \<open>lkTodo\<close>, what the loop in \<open>Write\<close> has still to
  send; calls do not overlap, because \<open>Write\<close> holds \<open>writeMu\<close>. Ghost fields record the bytes given to
  \<open>Write\<close> (without those a failed call reports as not written), the bytes sent, and the bytes \<open>Read\<close>
  returned. The writer may close or reset the stream. The reader's own \<open>Reset\<close> takes the stream out of
  its table and ends this direction; it is a step of the multiplexer in \<open>Mux_Session\<close>.

  The theorems: a peer that follows the protocol is never reported as violating flow control,
  bytes arrive complete and in order, buffering is bounded by the window, and the exchange of
  credit cannot deadlock.
\<close>

section \<open>The system\<close>

datatype link_frame = LData bytes | LClose | LReset

record link =
  lkSender :: Stream
  lkReceiver :: Stream
  lkFrames :: "link_frame list"
  lkWindows :: "u32 list"
  lkTodo :: bytes
  lkGiven :: bytes
  lkSent :: bytes
  lkRead :: bytes

fun chunks :: "link_frame list \<Rightarrow> bytes list" where
  "chunks [] = []"
| "chunks (LData c # fs) = c # chunks fs"
| "chunks (LClose # fs) = chunks fs"
| "chunks (LReset # fs) = chunks fs"

text \<open>
  Both ends have accepted the stream; the reader's initial WINDOW is on its way
  (\<open>sendInitialWindow\<close>).
\<close>

definition link_init :: "Stream \<Rightarrow> Stream \<Rightarrow> link option" where
  "link_init s r =
     (case initializeReceiveWindow r of
        Inl _ \<Rightarrow> None
      | Inr (w, r') \<Rightarrow>
          Some \<lparr>lkSender = s, lkReceiver = r', lkFrames = [], lkWindows = [w], lkTodo = [], lkGiven = [],
            lkSent = [], lkRead = []\<rparr>)"

inductive link_step :: "link \<Rightarrow> link \<Rightarrow> bool" where
  call: "lkTodo l = [] \<Longrightarrow> p \<noteq> [] \<Longrightarrow> link_step l (l\<lparr>lkTodo := p, lkGiven := lkGiven l @ p\<rparr>)"
| send: "lkTodo l \<noteq> [] \<Longrightarrow> Stream_writeChunk (lkSender l) (lkTodo l) = (WriteChunk c, s') \<Longrightarrow>
    link_step l (l\<lparr>lkSender := s', lkFrames := lkFrames l @ [LData c], lkTodo := drop (length c) (lkTodo l),
                  lkSent := lkSent l @ c\<rparr>)"
| fail: "lkTodo l \<noteq> [] \<Longrightarrow> Stream_writeChunk (lkSender l) (lkTodo l) = (WriteErr e, s') \<Longrightarrow>
    link_step l (l\<lparr>lkSender := s', lkTodo := [], lkGiven := take (length (lkGiven l) - length (lkTodo l)) (lkGiven l)\<rparr>)"
| close: "Stream_closeLocal (lkSender l) = Some s' \<Longrightarrow>
    link_step l (l\<lparr>lkSender := s', lkFrames := lkFrames l @ [LClose]\<rparr>)"
| reset: "Stream_resetLocal (lkSender l) = Some s' \<Longrightarrow>
    link_step l (l\<lparr>lkSender := s', lkFrames := lkFrames l @ [LReset]\<rparr>)"
| data: "lkFrames l = LData c # fs \<Longrightarrow> deliver c (lkReceiver l) = Inr r' \<Longrightarrow>
    link_step l (l\<lparr>lkReceiver := r', lkFrames := fs\<rparr>)"
| eof: "lkFrames l = LClose # fs \<Longrightarrow>
    link_step l (l\<lparr>lkReceiver := remoteClose None (lkReceiver l), lkFrames := fs\<rparr>)"
| abort: "lkFrames l = LReset # fs \<Longrightarrow>
    link_step l (l\<lparr>lkReceiver := remoteClose (Some ErrStreamReset) (signalAccepted (Some ErrStreamReset) (lkReceiver l)),
                  lkFrames := fs\<rparr>)"
| read: "n \<noteq> 0 \<Longrightarrow> Stream_Read (lkReceiver l) n = (ReadGot d g, r') \<Longrightarrow>
    link_step l (l\<lparr>lkReceiver := r', lkWindows := (if g = 0 then lkWindows l else lkWindows l @ [g]),
                  lkRead := lkRead l @ d\<rparr>)"
| credit: "lkWindows l = g # ws \<Longrightarrow> addSendCredit g (lkSender l) = Inr s' \<Longrightarrow>
    link_step l (l\<lparr>lkSender := s', lkWindows := ws\<rparr>)"

text \<open>
  The limits are those \<open>New\<close> computes at each peer. The two peers configure their DATA payload
  limits on their own and do not exchange them, so the last premise asks that the reader accepts
  the chunks the writer may produce.
\<close>

inductive link_reachable :: "link \<Rightarrow> bool" where
  start: "limits_from_New iws ths mds \<Longrightarrow> limits_from_New iwr thr mdr \<Longrightarrow>
    min (unat mds) (unat iwr) \<le> unat mdr \<Longrightarrow>
    link_init (newStream iws ths mds sid svc ms True) (newStream iwr thr mdr sid svc mr True) = Some l \<Longrightarrow>
    link_reachable l"
| step: "link_reachable l \<Longrightarrow> link_step l l' \<Longrightarrow> link_reachable l'"

text \<open>The same steps as a function of an action, to run concrete exchanges.\<close>

datatype link_act = AWrite bytes | ASend | AClose | AReset | ARecv | ARead nat | ACredit

fun link_do :: "link \<Rightarrow> link_act \<Rightarrow> link option" where
  "link_do l (AWrite p) =
     (if lkTodo l = [] \<and> p \<noteq> [] then Some (l\<lparr>lkTodo := p, lkGiven := lkGiven l @ p\<rparr>) else None)"
| "link_do l ASend =
     (if lkTodo l = [] then None
      else case Stream_writeChunk (lkSender l) (lkTodo l) of
        (WriteChunk c, s') \<Rightarrow>
          Some (l\<lparr>lkSender := s', lkFrames := lkFrames l @ [LData c], lkTodo := drop (length c) (lkTodo l),
                  lkSent := lkSent l @ c\<rparr>)
      | (WriteErr e, s') \<Rightarrow>
          Some (l\<lparr>lkSender := s', lkTodo := [], lkGiven := take (length (lkGiven l) - length (lkTodo l)) (lkGiven l)\<rparr>)
      | _ \<Rightarrow> None)"
| "link_do l AClose =
     (case Stream_closeLocal (lkSender l) of
        None \<Rightarrow> None
      | Some s' \<Rightarrow> Some (l\<lparr>lkSender := s', lkFrames := lkFrames l @ [LClose]\<rparr>))"
| "link_do l AReset =
     (case Stream_resetLocal (lkSender l) of
        None \<Rightarrow> None
      | Some s' \<Rightarrow> Some (l\<lparr>lkSender := s', lkFrames := lkFrames l @ [LReset]\<rparr>))"
| "link_do l ARecv =
     (case lkFrames l of
        [] \<Rightarrow> None
      | LData c # fs \<Rightarrow>
          (case deliver c (lkReceiver l) of
             Inl _ \<Rightarrow> None
           | Inr r' \<Rightarrow> Some (l\<lparr>lkReceiver := r', lkFrames := fs\<rparr>))
      | LClose # fs \<Rightarrow> Some (l\<lparr>lkReceiver := remoteClose None (lkReceiver l), lkFrames := fs\<rparr>)
      | LReset # fs \<Rightarrow>
          Some (l\<lparr>lkReceiver := remoteClose (Some ErrStreamReset) (signalAccepted (Some ErrStreamReset) (lkReceiver l)),
                  lkFrames := fs\<rparr>))"
| "link_do l (ARead n) =
     (case Stream_Read (lkReceiver l) n of
        (ReadGot d g, r') \<Rightarrow>
          if n = 0 then None
          else Some (l\<lparr>lkReceiver := r', lkWindows := (if g = 0 then lkWindows l else lkWindows l @ [g]),
                       lkRead := lkRead l @ d\<rparr>)
      | _ \<Rightarrow> None)"
| "link_do l ACredit =
     (case lkWindows l of
        [] \<Rightarrow> None
      | g # ws \<Rightarrow>
          (case addSendCredit g (lkSender l) of
             Inl _ \<Rightarrow> None
           | Inr s' \<Rightarrow> Some (l\<lparr>lkSender := s', lkWindows := ws\<rparr>)))"

fun link_run :: "link \<Rightarrow> link_act list \<Rightarrow> link option" where
  "link_run l [] = Some l"
| "link_run l (a # as) = (case link_do l a of None \<Rightarrow> None | Some l' \<Rightarrow> link_run l' as)"

lemma link_do_read_step: "link_do l (ARead n) = Some l' \<Longrightarrow> link_step l l'"
  using link_step.read [of n l]
  by (cases "n = 0") (auto split: prod.splits read_result.splits)

lemma link_do_step: "link_do l a = Some l' \<Longrightarrow> link_step l l'"
  using link_do_read_step
  by (cases a)
     (auto intro: link_step.intros split: prod.splits write_result.splits
        option.splits list.splits link_frame.splits sum.splits if_splits)

lemma link_run_reachable: "link_reachable l \<Longrightarrow> link_run l as = Some l' \<Longrightarrow> link_reachable l'"
proof (induction as arbitrary: l)
  case Nil
  then show ?case by simp
next
  case (Cons a as)
  then show ?case
    by (auto split: option.splits intro: link_reachable.step [OF _ link_do_step])
qed

section \<open>Invariant\<close>

definition link_inv :: "link \<Rightarrow> bool" where
  "link_inv l =
     (stream_flow.pair_inv (lkSender l) (lkReceiver l) (chunks (lkFrames l)) (lkWindows l)
      \<and> (lkFrames l = map LData (chunks (lkFrames l))
         \<or> ((lkFrames l = map LData (chunks (lkFrames l)) @ [LClose] \<or> lkFrames l = map LData (chunks (lkFrames l)) @ [LReset])
            \<and> sLocalClosed (lkSender l) \<and> \<not> sRemoteClosed (lkReceiver l)))
      \<and> (sRemoteClosed (lkReceiver l) \<longrightarrow> sLocalClosed (lkSender l))
      \<and> lkSent l = lkRead l @ sReadBuf (lkReceiver l) @ concat (chunks (lkFrames l))
      \<and> lkGiven l = lkSent l @ lkTodo l)"

lemma chunks_append [simp]: "chunks (fs @ gs) = chunks fs @ chunks gs"
  by (induction fs rule: chunks.induct) auto

lemma chunks_map_LData [simp]: "chunks (map LData cs) = cs"
  by (induction cs) auto

lemma link_start_inv:
  assumes "limits_from_New iws ths mds" "limits_from_New iwr thr mdr"
    "min (unat mds) (unat iwr) \<le> unat mdr"
    "link_init (newStream iws ths mds sid svc ms True) (newStream iwr thr mdr sid svc mr True) = Some l"
  shows "link_inv l"
proof -
  let ?s = "newStream iws ths mds sid svc ms True" and ?fresh = "newStream iwr thr mdr sid svc mr True"
  let ?r = "?fresh\<lparr>sWindowAdvertised := True, sRecvCredit := sInitialWindow ?fresh\<rparr>"
  have w: "unat (ucast (ucast iwr :: u64) :: u32) = unat iwr"
  proof -
    have "unat (ucast iwr :: u64) < 2 ^ 32"
      using unat_lt_u32 [of iwr] by (simp add: unat_ucast_32_64)
    from unat_ucast_64_32 [OF this] show ?thesis
      by (simp only: unat_ucast_32_64)
  qed
  have i: "initializeReceiveWindow ?fresh = Inr (ucast (sInitialWindow ?fresh), ?r)"
    unfolding initializeReceiveWindow_def by (simp add: newStream_def)
  have inv: "stream_inv ?s" "stream_inv ?fresh"
    using assms(1,2) by (simp_all add: newStream_inv)
  with initializeReceiveWindow_inv [OF inv(2) i] have ok: "sender_ok ?s" "receiver_ok ?r"
    by (simp_all add: sender_ok_def receiver_ok_def newStream_def)
  from assms(4) i have l: "l = \<lparr>lkSender = ?s, lkReceiver = ?r, lkFrames = [],
      lkWindows = [ucast (sInitialWindow ?fresh)], lkTodo = [], lkGiven = [], lkSent = [], lkRead = []\<rparr>"
    by (simp add: link_init_def)
  show ?thesis
    using ok assms(3) w
    by (simp add: l link_inv_def stream_flow.pair_inv_def sender_active_def sender_window_def
        newStream_def unat_ucast_32_64)
qed

lemma link_call_inv: "link_inv l \<Longrightarrow> lkTodo l = [] \<Longrightarrow> link_inv (l\<lparr>lkTodo := p, lkGiven := lkGiven l @ p\<rparr>)"
  by (simp add: link_inv_def)

lemma writeChunk_err: "Stream_writeChunk s p = (WriteErr e, s') \<Longrightarrow> s' = s"
  by (auto simp: Stream_writeChunk_def Let_def split: if_splits option.splits)

lemma link_fail_inv:
  assumes "link_inv l" "Stream_writeChunk (lkSender l) (lkTodo l) = (WriteErr e, s')"
  shows "link_inv (l\<lparr>lkSender := s', lkTodo := [], lkGiven := take (length (lkGiven l) - length (lkTodo l)) (lkGiven l)\<rparr>)"
  using assms(1) writeChunk_err [OF assms(2)] by (simp add: link_inv_def)

lemma link_send_inv:
  assumes inv: "link_inv l" and p: "lkTodo l \<noteq> []" and w: "Stream_writeChunk (lkSender l) (lkTodo l) = (WriteChunk c, s')"
  shows "link_inv (l\<lparr>lkSender := s', lkFrames := lkFrames l @ [LData c], lkTodo := drop (length c) (lkTodo l),
                    lkSent := lkSent l @ c\<rparr>)"
proof -
  have cs: "\<not> sLocalClosed (lkSender l)" "sLocalClosed s' = sLocalClosed (lkSender l)"
    using writeChunk_cases [OF w] by simp_all
  have ch: "sender_chunk (lkSender l) (lkTodo l) = Some (c, s')"
    using w by (simp add: sender_chunk_Some)
  from inv have "sender_ok (lkSender l)" by (simp add: link_inv_def stream_flow.pair_inv_def)
  from sender_chunk_sound [OF this p ch] have "c @ drop (length c) (lkTodo l) = lkTodo l"
    by (auto simp: prefix_def)
  moreover from stream_flow.pair_send [OF _ p ch] inv
  have "stream_flow.pair_inv s' (lkReceiver l) (chunks (lkFrames l) @ [c]) (lkWindows l)"
    by (simp add: link_inv_def)
  ultimately show ?thesis using inv cs
    by (auto simp: link_inv_def)
qed

lemma pair_inv_closeLocal:
  assumes "stream_flow.pair_inv s r ds ws" "Stream_closeLocal s = Some s'"
  shows "stream_flow.pair_inv s' r ds ws"
proof -
  from assms(2) have s': "s' = s\<lparr>sLocalClosed := True\<rparr>"
    by (simp add: Stream_closeLocal_def split: if_splits)
  from assms closeLocal_inv have "sender_ok s'"
    by (auto simp: stream_flow.pair_inv_def sender_ok_def s')
  with assms(1) show ?thesis
    by (auto simp: s' stream_flow.pair_inv_def sender_active_def)
qed

lemma link_close_inv:
  assumes "link_inv l" "Stream_closeLocal (lkSender l) = Some s'"
  shows "link_inv (l\<lparr>lkSender := s', lkFrames := lkFrames l @ [LClose]\<rparr>)"
  using assms pair_inv_closeLocal [OF _ assms(2)]
  by (auto simp: link_inv_def Stream_closeLocal_def split: if_splits)

lemma pair_inv_resetLocal:
  assumes "stream_flow.pair_inv s r ds ws" "Stream_resetLocal s = Some s'"
  shows "stream_flow.pair_inv s' r ds ws"
proof -
  from assms(2) have s': "s' = s\<lparr>sLocalClosed := True, sRemoteClosed := True, sTerminalErr := Some ErrStreamReset\<rparr>"
    by (simp add: Stream_resetLocal_def split: if_splits)
  from assms resetLocal_inv have "sender_ok s'"
    by (auto simp: stream_flow.pair_inv_def sender_ok_def s')
  with assms(1) show ?thesis
    by (auto simp: s' stream_flow.pair_inv_def sender_active_def)
qed

lemma link_reset_inv:
  assumes "link_inv l" "Stream_resetLocal (lkSender l) = Some s'"
  shows "link_inv (l\<lparr>lkSender := s', lkFrames := lkFrames l @ [LReset]\<rparr>)"
  using assms pair_inv_resetLocal [OF _ assms(2)]
  by (auto simp: link_inv_def Stream_resetLocal_def split: if_splits)

lemma link_data_inv:
  assumes inv: "link_inv l" and f: "lkFrames l = LData c # fs"
  shows "\<exists>r'. deliver c (lkReceiver l) = Inr r' \<and> link_inv (l\<lparr>lkReceiver := r', lkFrames := fs\<rparr>)"
proof -
  from inv f have "stream_flow.pair_inv (lkSender l) (lkReceiver l) (c # chunks fs) (lkWindows l)"
    by (simp add: link_inv_def)
  from stream_flow.pair_deliver [OF this] obtain r' where
    r': "receiver_deliver c (lkReceiver l) = Some r'" "sReadBuf r' = sReadBuf (lkReceiver l) @ c"
    and pi: "stream_flow.pair_inv (lkSender l) r' (chunks fs) (lkWindows l)"
    by blast
  from r'(1) have d: "deliver c (lkReceiver l) = Inr r'"
    by (simp add: receiver_deliver_def split: sum.splits)
  then have "sRemoteClosed r' = sRemoteClosed (lkReceiver l)"
    by (auto simp: deliver_def split: if_splits)
  with inv f r'(2) pi d show ?thesis
    by (auto simp: link_inv_def)
qed

text \<open>The last frame of a direction, CLOSE or RESET, ends the receiving side.\<close>

lemma link_end_inv:
  assumes inv: "link_inv l" and f: "lkFrames l = f # fs" "f = LClose \<or> f = LReset"
    and r': "receiver_ok r'" "sRemoteClosed r'" "sReadBuf r' = sReadBuf (lkReceiver l)" "sRecvCredit r' = sRecvCredit (lkReceiver l)"
      "sInitialWindow r' = sInitialWindow (lkReceiver l)" "sMaxDataPayload r' = sMaxDataPayload (lkReceiver l)"
  shows "link_inv (l\<lparr>lkReceiver := r', lkFrames := fs\<rparr>)"
proof -
  from inv f have fs: "fs = []" and cl: "sLocalClosed (lkSender l)"
    and pi: "stream_flow.pair_inv (lkSender l) (lkReceiver l) [] (lkWindows l)"
    by (auto simp: link_inv_def Cons_eq_append_conv Cons_eq_map_conv)
  from inv f fs have "lkSent l = lkRead l @ sReadBuf (lkReceiver l)" "lkGiven l = lkSent l @ lkTodo l"
    by (auto simp: link_inv_def)
  with fs cl pi r' show ?thesis
    by (simp add: link_inv_def stream_flow.pair_inv_def sender_active_def)
qed

lemma link_close_inv_receiver:
  assumes "link_inv l" "lkFrames l = f # fs" "f = LClose \<or> f = LReset"
  shows "link_inv (l\<lparr>lkReceiver := remoteClose err (lkReceiver l), lkFrames := fs\<rparr>)"
    "link_inv (l\<lparr>lkReceiver := remoteClose err (signalAccepted err' (lkReceiver l)), lkFrames := fs\<rparr>)"
proof -
  have ok: "receiver_ok (lkReceiver l)" using assms(1) by (simp add: link_inv_def stream_flow.pair_inv_def)
  have k: "receiver_ok (remoteClose e r) \<and> sRemoteClosed (remoteClose e r) \<and> sReadBuf (remoteClose e r) = sReadBuf r
      \<and> sRecvCredit (remoteClose e r) = sRecvCredit r \<and> sInitialWindow (remoteClose e r) = sInitialWindow r
      \<and> sMaxDataPayload (remoteClose e r) = sMaxDataPayload r" if "receiver_ok r" for e r
    using that remoteClose_inv [of r e] by (auto simp: receiver_ok_def remoteClose_def Let_def split: option.splits)
  have "receiver_ok (signalAccepted err' (lkReceiver l))"
    using ok by (auto simp: receiver_ok_def) (auto simp: signalAccepted_def split: option.split)
  note k2 = k [OF this, of err]
  show "link_inv (l\<lparr>lkReceiver := remoteClose err (lkReceiver l), lkFrames := fs\<rparr>)"
    using k [OF ok, of err] by (intro link_end_inv [OF assms]) simp_all
  show "link_inv (l\<lparr>lkReceiver := remoteClose err (signalAccepted err' (lkReceiver l)), lkFrames := fs\<rparr>)"
    using k2 by (intro link_end_inv [OF assms]) (simp_all, (simp add: signalAccepted_def split: option.split)+)
qed

lemma link_read_inv:
  assumes inv: "link_inv l" and n: "n \<noteq> 0" and r: "Stream_Read (lkReceiver l) n = (ReadGot d g, r')"
  shows "link_inv (l\<lparr>lkReceiver := r', lkWindows := (if g = 0 then lkWindows l else lkWindows l @ [g]),
                    lkRead := lkRead l @ d\<rparr>)"
proof -
  have rr: "receiver_read (lkReceiver l) n = Some (d, g, r')"
    using r by (simp add: receiver_read_def)
  have rc: "sRemoteClosed r' = sRemoteClosed (lkReceiver l)"
    using r by (auto simp: Stream_Read_def Let_def split: if_splits)
  from inv have pi: "stream_flow.pair_inv (lkSender l) (lkReceiver l) (chunks (lkFrames l)) (lkWindows l)"
    by (simp add: link_inv_def)
  from stream_flow.pair_read [OF pi n rr] inv rc show ?thesis
    by (auto simp: link_inv_def)
qed

lemma link_credit_inv:
  assumes inv: "link_inv l" and w: "lkWindows l = g # ws"
  shows "\<exists>s'. addSendCredit g (lkSender l) = Inr s' \<and> link_inv (l\<lparr>lkSender := s', lkWindows := ws\<rparr>)"
proof -
  from inv w have "stream_flow.pair_inv (lkSender l) (lkReceiver l) (chunks (lkFrames l)) (g # ws)"
    by (simp add: link_inv_def)
  from stream_flow.pair_grant [OF this] obtain s' where s': "sender_grant g (lkSender l) = Some s'"
    and pi: "stream_flow.pair_inv s' (lkReceiver l) (chunks (lkFrames l)) ws"
    by blast
  from s' have a: "addSendCredit g (lkSender l) = Inr s'"
    by (simp add: sender_grant_def split: sum.splits)
  then have "sLocalClosed s' = sLocalClosed (lkSender l)"
    by (auto simp: addSendCredit_def split: if_splits)
  with inv pi a show ?thesis
    by (auto simp: link_inv_def)
qed

lemma link_step_inv: "link_step l l' \<Longrightarrow> link_inv l \<Longrightarrow> link_inv l'"
proof (induction rule: link_step.induct)
  case (data l c fs r')
  then show ?case using link_data_inv [of l c fs] by auto
next
  case (credit l g ws s')
  then show ?case using link_credit_inv [of l g ws] by auto
qed (simp_all add: link_call_inv link_send_inv link_fail_inv link_close_inv link_reset_inv link_close_inv_receiver link_read_inv)

lemma link_reachable_inv: "link_reachable l \<Longrightarrow> link_inv l"
  by (induction rule: link_reachable.induct) (auto intro: link_start_inv link_step_inv)


section \<open>Draining\<close>

lemma rtrancl_link_inv: "link_step\<^sup>*\<^sup>* l l' \<Longrightarrow> link_inv l \<Longrightarrow> link_inv l'"
  by (induction rule: rtranclp_induct) (auto intro: link_step_inv)

lemma active_no_close:
  assumes "link_inv l" "sender_active (lkSender l)"
  shows "lkFrames l = map LData (chunks (lkFrames l))"
  using assms by (auto simp: link_inv_def sender_active_def)

lemma drain_frames:
  assumes "link_inv l" "sender_active (lkSender l)"
  shows "\<exists>l'. link_step\<^sup>*\<^sup>* l l' \<and> lkFrames l' = [] \<and> lkSender l' = lkSender l
    \<and> lkWindows l' = lkWindows l \<and> lkSent l' = lkSent l"
  using assms
proof (induction "lkFrames l" arbitrary: l)
  case Nil
  then show ?case by (intro exI [of _ l]) simp
next
  case (Cons f fs)
  with active_no_close [of l] obtain c where f: "lkFrames l = LData c # fs"
    by (metis Cons_eq_map_conv)
  from link_data_inv [OF Cons.prems(1) f] obtain r' where
    d: "deliver c (lkReceiver l) = Inr r'" and inv: "link_inv (l\<lparr>lkReceiver := r', lkFrames := fs\<rparr>)"
    by blast
  let ?l = "l\<lparr>lkReceiver := r', lkFrames := fs\<rparr>"
  from f d have st: "link_step l ?l" by (rule link_step.data)
  from Cons.hyps(1) [of ?l] inv Cons.prems(2) obtain l' where "link_step\<^sup>*\<^sup>* ?l l'"
    "lkFrames l' = []" "lkSender l' = lkSender l" "lkWindows l' = lkWindows l" "lkSent l' = lkSent l"
    by auto
  with st show ?case by (meson converse_rtranclp_into_rtranclp)
qed

lemma drain_unread:
  assumes inv: "link_inv l" and fs: "lkFrames l = []"
  shows "\<exists>l'. link_step\<^sup>*\<^sup>* l l' \<and> lkFrames l' = [] \<and> sReadBuf (lkReceiver l') = []
    \<and> lkSender l' = lkSender l \<and> lkSent l' = lkSent l"
proof (cases "sReadBuf (lkReceiver l) = []")
  case True
  with fs show ?thesis by (intro exI [of _ l]) simp
next
  case False
  let ?n = "length (sReadBuf (lkReceiver l))"
  from inv have ok: "receiver_ok (lkReceiver l)"
    by (simp add: link_inv_def stream_flow.pair_inv_def)
  from receiver_read_law [OF ok, of ?n] False obtain d g r' where
    r: "receiver_read (lkReceiver l) ?n = Some (d, g, r')" "sReadBuf r' = []"
    by auto
  then have "Stream_Read (lkReceiver l) ?n = (ReadGot d g, r')"
    by (simp add: receiver_read_def split: prod.splits read_result.splits)
  from link_step.read [OF _ this] False obtain l' where "link_step l l'"
    "l' = l\<lparr>lkReceiver := r', lkWindows := (if g = 0 then lkWindows l else lkWindows l @ [g]),
           lkRead := lkRead l @ d\<rparr>"
    by auto
  with fs r(2) show ?thesis
    by (intro exI [of _ l']) auto
qed

lemma addSendCredit_active:
  "addSendCredit g s = Inr s' \<Longrightarrow> sender_active s' = sender_active s"
  by (auto simp: addSendCredit_def sender_active_def split: if_splits)

lemma drain_windows:
  assumes "link_inv l"
  shows "\<exists>l'. link_step\<^sup>*\<^sup>* l l' \<and> lkWindows l' = [] \<and> lkFrames l' = lkFrames l
    \<and> lkReceiver l' = lkReceiver l \<and> lkSent l' = lkSent l
    \<and> sender_active (lkSender l') = sender_active (lkSender l)"
  using assms
proof (induction "lkWindows l" arbitrary: l)
  case Nil
  then show ?case by (intro exI [of _ l]) simp
next
  case (Cons g ws)
  note w = Cons.hyps(2) [symmetric]
  from link_credit_inv [OF Cons.prems w] obtain s' where
    a: "addSendCredit g (lkSender l) = Inr s'" and inv: "link_inv (l\<lparr>lkSender := s', lkWindows := ws\<rparr>)"
    by blast
  let ?l = "l\<lparr>lkSender := s', lkWindows := ws\<rparr>"
  from w a have st: "link_step l ?l" by (rule link_step.credit)
  from Cons.hyps(1) [of ?l] inv obtain l' where "link_step\<^sup>*\<^sup>* ?l l'" "lkWindows l' = []"
    "lkFrames l' = lkFrames l" "lkReceiver l' = lkReceiver l" "lkSent l' = lkSent l"
    "sender_active (lkSender l') = sender_active s'"
    by auto
  with st addSendCredit_active [OF a] show ?case by (metis converse_rtranclp_into_rtranclp)
qed

section \<open>Properties\<close>

definition demo_start :: link where
  "demo_start = the (link_init (newStream 8 4 4 1 3 [] True) (newStream 8 4 4 1 3 [] True))"

text \<open>A concrete exchange: twelve bytes offered to a window of eight, partly consumed.\<close>

definition demo_link :: link where
  "demo_link = the (link_run demo_start
     [ACredit, AWrite [1,2,3,4,5,6,7,8,9,10,11,12], ASend, ASend, ARecv, ARead 3])"

lemma demo_start_reachable: "link_reachable demo_start"
  by (rule link_reachable.start [of 8 4 4 8 4 4 1 3 "[]" "[]"])
     (simp_all add: limits_from_New_def demo_start_def link_init_def initializeReceiveWindow_def newStream_def)

lemma demo_link_run:
  "link_run demo_start
     [ACredit, AWrite [1,2,3,4,5,6,7,8,9,10,11,12], ASend, ASend, ARecv, ARead 3]
   = Some demo_link"
  by (simp add: demo_link_def demo_start_def link_init_def initializeReceiveWindow_def newStream_def
      addSendCredit_def Stream_writeChunk_def chunkSize_def deliver_def Stream_Read_def)

lemma demo_link_reachable: "link_reachable demo_link"
  by (rule link_run_reachable [OF demo_start_reachable demo_link_run])

text \<open>C1: Flow control never accuses a conforming peer. Let both ends have limits \<open>New\<close> accepts, and let
  the reader take DATA frames as large as the writer may send: the smaller of the writer's payload
  limit and the reader's window is at most the reader's payload limit. Then in every state the two ends
  can reach by writing, closing, resetting, reading and exchanging frames, the next DATA frame is
  accepted by \<open>deliver\<close>, the next WINDOW grant is accepted by \<open>addSendCredit\<close>, and \<open>Read\<close> never takes its
  "receive-credit invariant exceeded" branch.\<close>

theorem flow_no_violation:
  assumes "link_reachable l"
  shows "(\<forall>c fs. lkFrames l = LData c # fs \<longrightarrow> (\<exists>r'. deliver c (lkReceiver l) = Inr r'))
    \<and> (\<forall>g ws. lkWindows l = g # ws \<longrightarrow> (\<exists>s'. addSendCredit g (lkSender l) = Inr s'))
    \<and> (\<forall>n d. fst (Stream_Read (lkReceiver l) n) \<noteq> ReadViolation d)"
proof -
  note inv = link_reachable_inv [OF assms]
  then have ok: "receiver_ok (lkReceiver l)"
    by (simp add: link_inv_def stream_flow.pair_inv_def)
  have "fst (Stream_Read (lkReceiver l) n) \<noteq> ReadViolation d" for n d
    using receiver_read_law [OF ok, of n]
    by (cases "n = 0 \<or> sReadBuf (lkReceiver l) = []")
       (auto simp: Stream_Read_def receiver_read_def split: prod.splits read_result.splits)
  with link_data_inv [OF inv] link_credit_inv [OF inv] show ?thesis
    by blast
qed

theorem flow_no_violation_witness:
  "link_reachable demo_link \<and> lkFrames demo_link = [LData [5,6,7,8]]
   \<and> (\<exists>r'. deliver [5,6,7,8] (lkReceiver demo_link) = Inr r')"
proof -
  have fs: "lkFrames demo_link = [LData [5,6,7,8]]"
    by (simp add: demo_link_def demo_start_def link_init_def initializeReceiveWindow_def newStream_def
        addSendCredit_def Stream_writeChunk_def chunkSize_def deliver_def Stream_Read_def)
  with flow_no_violation [OF demo_link_reachable] demo_link_reachable show ?thesis by blast
qed

text \<open>C7: Under the condition on the payload limits of C1, a stream delivers the bytes given to \<open>Write\<close>
  complete, unduplicated and in order: they are what has been read, followed by what waits in the
  receive buffer, followed by what is in flight, followed by what the current call has still to send.
  Bytes a failed call reports as not written do not count as given.\<close>

theorem flow_in_order:
  assumes "link_reachable l"
  shows "lkGiven l = lkRead l @ sReadBuf (lkReceiver l) @ concat (chunks (lkFrames l)) @ lkTodo l"
  using link_reachable_inv [OF assms] by (simp add: link_inv_def)

theorem flow_in_order_witness:
  "link_reachable demo_link \<and> lkGiven demo_link = [1,2,3,4,5,6,7,8,9,10,11,12] \<and> lkRead demo_link = [1,2,3]
   \<and> sReadBuf (lkReceiver demo_link) @ concat (chunks (lkFrames demo_link)) @ lkTodo demo_link = [4,5,6,7,8,9,10,11,12]"
proof -
  have "lkGiven demo_link = [1,2,3,4,5,6,7,8,9,10,11,12]" "lkRead demo_link = [1,2,3]"
    by (simp_all add: demo_link_def demo_start_def link_init_def initializeReceiveWindow_def newStream_def
        addSendCredit_def Stream_writeChunk_def chunkSize_def deliver_def Stream_Read_def)
  with flow_in_order [OF demo_link_reachable] demo_link_reachable show ?thesis by simp
qed

text \<open>
  The condition on the payload limits is needed: a writer whose limit is larger than the reader's, each
  within what \<open>New\<close> accepts, is reported for a violation with its first full frame.
\<close>

theorem payload_limits_clash:
  "limits_from_New 8 4 8 \<and> limits_from_New 8 4 2
   \<and> map_option (\<lambda>l. deliver (concat (chunks (lkFrames l))) (lkReceiver l))
        (Option.bind (link_init (newStream 8 4 8 1 3 [] True) (newStream 8 4 2 1 3 [] True)) (\<lambda>l. link_run l [ACredit, AWrite [1,2,3,4], ASend]))
      = Some (Inl ErrFlowControlViolation)"
  by (simp add: limits_from_New_def link_init_def initializeReceiveWindow_def newStream_def
      addSendCredit_def Stream_writeChunk_def chunkSize_def deliver_def)

text \<open>Memory is bounded: the bytes a reader has to hold, buffered or still in flight to it,
  never exceed the window it advertised, and the writer's remaining credit is within that bound
  too.\<close>

theorem flow_bounded:
  assumes "link_reachable l" "\<not> sRemoteClosed (lkReceiver l)"
  shows "length (sReadBuf (lkReceiver l)) + length (concat (chunks (lkFrames l)))
      + unat (sSendCredit (lkSender l)) \<le> unat (sInitialWindow (lkReceiver l))"
proof -
  from link_reachable_inv [OF assms(1)] assms(2)
  have ok: "receiver_ok (lkReceiver l)"
    and "unat (sSendCredit (lkSender l)) + length (concat (chunks (lkFrames l)))
      \<le> unat (sRecvCredit (lkReceiver l))"
    by (auto simp: link_inv_def stream_flow.pair_inv_def)
  with stream_flow.full [OF ok] assms(2) show ?thesis by simp
qed

theorem flow_bounded_witness:
  "\<not> sRemoteClosed (lkReceiver demo_link) \<and> sInitialWindow (lkReceiver demo_link) = 8
   \<and> length (sReadBuf (lkReceiver demo_link)) + length (concat (chunks (lkFrames demo_link)))
      + unat (sSendCredit (lkSender demo_link)) \<le> 8"
proof -
  have "\<not> sRemoteClosed (lkReceiver demo_link)" "sInitialWindow (lkReceiver demo_link) = 8"
    by (simp_all add: demo_link_def demo_start_def link_init_def initializeReceiveWindow_def newStream_def
        addSendCredit_def Stream_writeChunk_def chunkSize_def deliver_def Stream_Read_def)
  with flow_bounded [OF demo_link_reachable] show ?thesis by simp
qed

text \<open>C31: The exchange of credit cannot deadlock and loses no credit: from every reachable state
  whose writer is still active there is a run, made only of deliveries, reads and grants, after
  which the reader has consumed everything written and the writer owns the whole window again.\<close>

theorem flow_recovers:
  assumes "link_reachable l" "sender_active (lkSender l)"
  shows "\<exists>l'. link_step\<^sup>*\<^sup>* l l' \<and> lkSent l' = lkSent l \<and> lkRead l' = lkSent l
    \<and> sender_active (lkSender l')
    \<and> unat (sSendCredit (lkSender l')) = unat (sInitialWindow (lkReceiver l'))"
proof -
  note inv = link_reachable_inv [OF assms(1)]
  from drain_frames [OF inv assms(2)] obtain l1 where l1: "link_step\<^sup>*\<^sup>* l l1" "lkFrames l1 = []"
    "lkSender l1 = lkSender l" "lkSent l1 = lkSent l" by blast
  note inv1 = rtrancl_link_inv [OF l1(1) inv]
  from drain_unread [OF inv1 l1(2)] obtain l2 where l2: "link_step\<^sup>*\<^sup>* l1 l2" "lkFrames l2 = []"
    "sReadBuf (lkReceiver l2) = []" "lkSender l2 = lkSender l1" "lkSent l2 = lkSent l1" by blast
  note inv2 = rtrancl_link_inv [OF l2(1) inv1]
  from drain_windows [OF inv2] obtain l3 where l3: "link_step\<^sup>*\<^sup>* l2 l3" "lkWindows l3 = []"
    "lkFrames l3 = lkFrames l2" "lkReceiver l3 = lkReceiver l2" "lkSent l3 = lkSent l2"
    "sender_active (lkSender l3) = sender_active (lkSender l2)" by blast
  note inv3 = rtrancl_link_inv [OF l3(1) inv2]
  have "unat (sSendCredit (lkSender l3)) = unat (sInitialWindow (lkReceiver l3))"
    by (rule stream_flow.pair_recovered)
       (use inv3 l3 l2 l1 assms(2) in \<open>auto simp: link_inv_def\<close>)
  moreover have "lkRead l3 = lkSent l3"
    using inv3 l3 l2 by (simp add: link_inv_def)
  ultimately show ?thesis
    using l1 l2 l3 assms(2) by (intro exI [of _ l3]) auto
qed

theorem flow_recovers_witness:
  "sSendCredit (lkSender demo_link) = 0
   \<and> (\<exists>l'. link_step\<^sup>*\<^sup>* demo_link l' \<and> lkRead l' = [1,2,3,4,5,6,7,8]
        \<and> unat (sSendCredit (lkSender l')) = unat (sInitialWindow (lkReceiver l')))"
proof -
  have e: "sSendCredit (lkSender demo_link) = 0" "sender_active (lkSender demo_link)"
    "lkSent demo_link = [1,2,3,4,5,6,7,8]"
    by (simp_all add: sender_active_def demo_link_def demo_start_def link_init_def
        initializeReceiveWindow_def newStream_def addSendCredit_def Stream_writeChunk_def chunkSize_def
        deliver_def Stream_Read_def)
  with flow_recovers [OF demo_link_reachable e(2)] show ?thesis by metis
qed

end
