(* ===== verification/Mux_Core.thy ===== *)
theory Mux_Core
  imports Mux_Stream
begin

text \<open>
  The multiplexer itself: \<open>src/sessionmux/mux.go\<close>, and the parts of the methods of
  \<open>src/sessionmux/stream.go\<close> that talk to it. A \<open>Stream\<close> pointer is an index into \<open>mHeap\<close>,
  the list of all stream objects ever allocated: an application keeps using a stream after the
  multiplexer has dropped it from its table. The table \<open>streams\<close> is an association list from
  stream IDs to such indices. The channel \<open>incoming\<close> is a list with its capacity; the channel
  \<open>outgoing\<close> is the list of queued frames. Closing \<open>done\<close> is the flag \<open>mDone\<close>.

  A function below is one call of the Go function of that name, run without interruption. A
  sender waiting for room in \<open>outgoing\<close> is not modelled: the queue takes every frame, and a
  full channel only delays its sender. Where a \<open>select\<close> finds \<open>done\<close> closed beside another ready
  case, the model takes \<open>done\<close>. \<open>send\<close>, which waits for the writer's result, runs the writer loop
  until the queue is empty. Methods that wait for the peer are split at the wait:
  \<open>Mux_Open\<close> up to the queued OPEN frame, \<open>Open_wait\<close> for the \<open>select\<close> that follows.
\<close>

section \<open>State\<close>

abbreviation RoleInitiator :: byte where "RoleInitiator \<equiv> 1"
abbreviation RoleResponder :: byte where "RoleResponder \<equiv> 2"

record Config =
  cRole :: byte
  cCodec :: Codec
  cIncomingBacklog :: int
  cAllowedServices :: "(u16 \<times> bool) list option"
  cInitialWindow :: u32
  cWindowUpdateThreshold :: u32
  cMaxDataPayload :: u32

record Mux =
  mConn :: conn
  mCodec :: Codec
  mRole :: byte
  mInitialWindow :: u32
  mWindowThreshold :: u32
  mMaxDataPayload :: u32
  mHeap :: "Stream list"
  mStreams :: "(u32 \<times> nat) list"
  mNextID :: u32
  mErr :: "mux_error option"
  mAllowed :: "u16 \<Rightarrow> bool"
  mIncoming :: "nat list"
  mIncomingCap :: nat
  mOutgoing :: "Frame list"
  mDone :: bool

section \<open>Construction\<close>

definition defaultServices :: "u16 \<Rightarrow> bool" where
  "defaultServices s =
     (s = ServiceControl \<or> s = ServiceFS \<or> s = ServiceTCP \<or> s = ServiceExec \<or> s = ServiceEvents)"

text \<open>The defaults \<open>New\<close> puts in place of zero values.\<close>

definition configBacklog :: "Config \<Rightarrow> nat" where
  "configBacklog config = (if cIncomingBacklog config \<le> 0 then 16 else nat (cIncomingBacklog config))"

definition configWindow :: "Config \<Rightarrow> u32" where
  "configWindow config =
     (if cInitialWindow config = 0 then DefaultInitialWindow else cInitialWindow config)"

definition configThreshold :: "Config \<Rightarrow> u32 \<Rightarrow> u32" where
  "configThreshold config initialWindow =
     (if cWindowUpdateThreshold config = 0 then
        (if initialWindow div 2 = 0 then 1 else initialWindow div 2)
      else cWindowUpdateThreshold config)"

definition configMaxData :: "Config \<Rightarrow> u32 \<Rightarrow> u32" where
  "configMaxData config codecMax =
     (if cMaxDataPayload config = 0 then minUint32 DefaultMaxDataPayload codecMax
      else cMaxDataPayload config)"

definition configAllowed :: "Config \<Rightarrow> u16 \<Rightarrow> bool" where
  "configAllowed config =
     (case cAllowedServices config of
        None \<Rightarrow> defaultServices
      | Some al \<Rightarrow> (\<lambda>s. map_of al s = Some True))"

definition New :: "conn option \<Rightarrow> Config \<Rightarrow> mux_error + Mux" where
  "New transport config =
     (case transport of
        None \<Rightarrow> Inl ErrNilTransport
      | Some conn \<Rightarrow>
          if cRole config \<noteq> RoleInitiator \<and> cRole config \<noteq> RoleResponder then Inl ErrInvalidRole
          else
            let initialWindow = configWindow config in
            if 67108864 < initialWindow then Inl ErrWindowTooLarge
            else
              let windowThreshold = configThreshold config initialWindow in
              if initialWindow < windowThreshold then Inl ErrThresholdTooLarge
              else
                let codecMax = maxPayload (cCodec config);
                    maxData = configMaxData config codecMax in
                if codecMax < maxData then Inl ErrDataPayloadTooLarge
                else
                  let maxDataPayload = minUint32 maxData initialWindow in
                  if maxDataPayload = 0 then Inl ErrDataPayloadZero
                  else Inr
                    \<lparr>mConn = conn, mCodec = cCodec config, mRole = cRole config,
                     mInitialWindow = initialWindow, mWindowThreshold = windowThreshold,
                     mMaxDataPayload = maxDataPayload, mHeap = [], mStreams = [],
                     mNextID = (if cRole config = RoleResponder then 2 else 1),
                     mErr = None, mAllowed = configAllowed config,
                     mIncoming = [], mIncomingCap = configBacklog config, mOutgoing = [],
                     mDone = False\<rparr>)"

section \<open>The stream table\<close>

definition updStream :: "nat \<Rightarrow> (Stream \<Rightarrow> Stream) \<Rightarrow> Mux \<Rightarrow> Mux" where
  "updStream r f m = m\<lparr>mHeap := (mHeap m)[r := f (mHeap m ! r)]\<rparr>"

definition lookupStream :: "u32 \<Rightarrow> Mux \<Rightarrow> nat option" where
  "lookupStream sid m = map_of (mStreams m) sid"

definition removeStream :: "u32 \<Rightarrow> Mux \<Rightarrow> Mux" where
  "removeStream sid m = m\<lparr>mStreams := AList.delete sid (mStreams m)\<rparr>"

text \<open>\<open>newStream\<close> with the limits of this multiplexer, entered in the table under its ID.\<close>

definition addStream :: "u32 \<Rightarrow> u16 \<Rightarrow> bytes \<Rightarrow> bool \<Rightarrow> Mux \<Rightarrow> nat \<times> Mux" where
  "addStream sid service metadata accepted m =
     (length (mHeap m),
      m\<lparr>mHeap := mHeap m @ [newStream (mInitialWindow m) (mWindowThreshold m) (mMaxDataPayload m)
                              sid service metadata accepted],
        mStreams := AList.update sid (length (mHeap m)) (mStreams m)\<rparr>)"

definition newLocalStream :: "u16 \<Rightarrow> Mux \<Rightarrow> mux_error + nat \<times> Mux" where
  "newLocalStream service m =
     (case mErr m of
        Some e \<Rightarrow> Inl e
      | None \<Rightarrow>
          let sid = mNextID m in
          Inr (addStream sid service [] False (m\<lparr>mNextID := mNextID m + 2\<rparr>)))"

definition peerOwns :: "Mux \<Rightarrow> u32 \<Rightarrow> bool" where
  "peerOwns m sid =
     (if sid = 0 then False
      else if mRole m = RoleInitiator then sid mod 2 = 0
      else sid mod 2 = 1)"

definition maybeRemove :: "nat \<Rightarrow> Mux \<Rightarrow> Mux" where
  "maybeRemove r m =
     (if isFullyClosed (mHeap m ! r) then removeStream (sID (mHeap m ! r)) m else m)"

section \<open>Shutdown and the writer\<close>

definition closeErr :: "Mux \<Rightarrow> mux_error" where
  "closeErr m = (case mErr m of Some e \<Rightarrow> e | None \<Rightarrow> ErrMuxClosed)"

definition shutdownStream :: "mux_error \<Rightarrow> Stream \<Rightarrow> Stream" where
  "shutdownStream e s = remoteClose (Some e) (signalAccepted (Some e) s)"

definition shutdown :: "mux_error option \<Rightarrow> Mux \<Rightarrow> Mux" where
  "shutdown err m =
     (let e = (case err of None \<Rightarrow> ErrMuxClosed | Some e \<Rightarrow> e) in
      if mDone m then m
      else
        fold (\<lambda>r. updStream r (shutdownStream e)) (map snd (mStreams m))
          (m\<lparr>mErr := Some e, mStreams := [], mDone := True,
             mConn := (mConn m)\<lparr>cnClosed := True\<rparr>\<rparr>))"

definition Mux_Close :: "Mux \<Rightarrow> Mux" where
  "Mux_Close m = shutdown (Some ErrMuxClosed) m"

definition sendAsync :: "Frame \<Rightarrow> Mux \<Rightarrow> mux_error + Mux" where
  "sendAsync frame m =
     (if mDone m then Inl (closeErr m) else Inr (m\<lparr>mOutgoing := mOutgoing m @ [frame]\<rparr>))"

text \<open>One round of \<open>writerLoop\<close>, and its rounds until the queue is empty.\<close>

definition writerStep :: "Mux \<Rightarrow> Mux" where
  "writerStep m =
     (if mDone m then m
      else case mOutgoing m of
        [] \<Rightarrow> m
      | f # fs \<Rightarrow>
          (case WriteFrame (mCodec m) (mConn m) f of
             (None, w) \<Rightarrow> m\<lparr>mConn := w, mOutgoing := fs\<rparr>
           | (Some e, w) \<Rightarrow> shutdown (Some e) (m\<lparr>mConn := w, mOutgoing := fs\<rparr>)))"

definition writerLoop :: "Mux \<Rightarrow> Mux" where
  "writerLoop m = (writerStep ^^ length (mOutgoing m)) m"

definition send :: "Frame \<Rightarrow> Mux \<Rightarrow> mux_error option \<times> Mux" where
  "send frame m =
     (case sendAsync frame m of
        Inl e \<Rightarrow> (Some e, m)
      | Inr m1 \<Rightarrow>
          let m2 = writerLoop m1 in
          if mDone m2 then (Some (closeErr m2), m2) else (None, m2))"

section \<open>Incoming frames\<close>

text \<open>\<open>_ = m.sendAsync(frame)\<close>: the error is dropped.\<close>

definition sendIgnore :: "Frame \<Rightarrow> Mux \<Rightarrow> Mux" where
  "sendIgnore frame m = (case sendAsync frame m of Inl _ \<Rightarrow> m | Inr m' \<Rightarrow> m')"

definition resetStream :: "nat \<Rightarrow> mux_error option \<Rightarrow> Mux \<Rightarrow> Mux" where
  "resetStream r err m =
     (let e = (case err of None \<Rightarrow> ErrStreamReset | Some e \<Rightarrow> e);
          m1 = updStream r (shutdownStream e) m;
          s = mHeap m1 ! r;
          m2 = sendIgnore (mkFrame FrameReset (sID s) (sService s) []) m1
      in removeStream (sID s) m2)"

definition asyncReply :: "Frame \<Rightarrow> Mux \<Rightarrow> mux_error option \<times> Mux" where
  "asyncReply frame m =
     (case sendAsync frame m of Inl e \<Rightarrow> (Some e, m) | Inr m' \<Rightarrow> (None, m'))"

definition sendInitialWindow :: "nat \<Rightarrow> bool \<Rightarrow> Mux \<Rightarrow> mux_error option \<times> Mux" where
  "sendInitialWindow r async m =
     (case initializeReceiveWindow (mHeap m ! r) of
        Inl e \<Rightarrow> (Some e, m)
      | Inr (credit, s') \<Rightarrow>
          let m1 = updStream r (\<lambda>_. s') m in
          (case encodeWindowCredit credit of
             Inl e \<Rightarrow> (Some e, m1)
           | Inr payload \<Rightarrow>
               let frame = mkFrame FrameWindow (sID s') (sService s') payload in
               if async then asyncReply frame m1 else send frame m1))"

text \<open>The failure exits of \<open>handleOpen\<close> and \<open>Open\<close>: \<open>remoteClose\<close>, then \<open>removeStream\<close>.\<close>

definition dropStream :: "nat \<Rightarrow> mux_error \<Rightarrow> u32 \<Rightarrow> Mux \<Rightarrow> Mux" where
  "dropStream r e sid m = removeStream sid (updStream r (remoteClose (Some e)) m)"

text \<open>
  \<open>handleOpen\<close> after the stream object \<open>r\<close> is entered in the table: backlog check, ACCEPT, the
  initial WINDOW, and the hand-over to \<open>Accept\<close>.
\<close>

definition admitStream :: "nat \<Rightarrow> u32 \<Rightarrow> u16 \<Rightarrow> Mux \<Rightarrow> mux_error option \<times> Mux" where
  "admitStream r sid svc m1 =
     (if mIncomingCap m1 \<le> length (mIncoming m1) then
        asyncReply (mkFrame FrameReset sid svc []) (dropStream r ErrIncomingBacklog sid m1)
      else case asyncReply (mkFrame FrameAccept sid svc []) m1 of
        (Some e, m2) \<Rightarrow> (Some e, dropStream r e sid m2)
      | (None, m2) \<Rightarrow>
          (case sendInitialWindow r True m2 of
             (Some e, m3) \<Rightarrow> (Some e, dropStream r e sid m3)
           | (None, m3) \<Rightarrow>
               let m4 = updStream r markAccepted m3 in
               if mDone m4 then (Some (closeErr m4), dropStream r (closeErr m4) sid m4)
               else (None, m4\<lparr>mIncoming := mIncoming m4 @ [r]\<rparr>)))"

definition handleOpen :: "Frame \<Rightarrow> Mux \<Rightarrow> mux_error option \<times> Mux" where
  "handleOpen frame m =
     (let sid = fStreamID frame; svc = fService frame in
      if \<not> ServiceID_Valid svc \<or> \<not> mAllowed m svc then
        asyncReply (mkFrame FrameReset sid svc []) m
      else if \<not> peerOwns m sid then (Some ErrInvalidStreamID, m)
      else case mErr m of
        Some e \<Rightarrow> (Some e, m)
      | None \<Rightarrow>
          if lookupStream sid m \<noteq> None then (Some ErrDuplicateOpen, m)
          else
            let (r, m1) = addStream sid svc (fPayload frame) True m in admitStream r sid svc m1)"

definition handleFrame :: "Frame \<Rightarrow> Mux \<Rightarrow> mux_error option \<times> Mux" where
  "handleFrame frame m =
     (let t = fType frame; sid = fStreamID frame; svc = fService frame in
      if t = FrameOpen then handleOpen frame m
      else if t = FrameAccept then
        (case lookupStream sid m of
           None \<Rightarrow> (Some ErrAcceptUnknown, m)
         | Some r \<Rightarrow>
             if sService (mHeap m ! r) \<noteq> svc then (Some ErrAcceptService, m)
             else (None, updStream r (signalAccepted None) m))
      else if t = FrameWindow then
        (case lookupStream sid m of
           None \<Rightarrow> (None, m)
         | Some r \<Rightarrow>
             if sService (mHeap m ! r) \<noteq> svc then
               (None, resetStream r (Some ErrFlowControlViolation) m)
             else (case decodeWindowCredit (fPayload frame) of
                     Inl e \<Rightarrow> (None, resetStream r (Some e) m)
                   | Inr credit \<Rightarrow>
                       (case addSendCredit credit (mHeap m ! r) of
                          Inl e \<Rightarrow> (None, resetStream r (Some e) m)
                        | Inr s' \<Rightarrow> (None, updStream r (\<lambda>_. s') m))))
      else if t = FrameData then
        (case lookupStream sid m of
           None \<Rightarrow> (None, sendIgnore (mkFrame FrameReset sid svc []) m)
         | Some r \<Rightarrow>
             if \<not> sIsOpen (mHeap m ! r) \<or> sService (mHeap m ! r) \<noteq> svc then
               (None, resetStream r (Some ErrStreamReset) m)
             else (case deliver (fPayload frame) (mHeap m ! r) of
                     Inl e \<Rightarrow> (None, resetStream r (Some e) m)
                   | Inr s' \<Rightarrow> (None, updStream r (\<lambda>_. s') m)))
      else if t = FrameClose then
        (case lookupStream sid m of
           None \<Rightarrow> (None, m)
         | Some r \<Rightarrow>
             if sService (mHeap m ! r) \<noteq> svc then (None, resetStream r (Some ErrStreamReset) m)
             else (None, maybeRemove r (updStream r (remoteClose None) m)))
      else if t = FrameReset then
        (case lookupStream sid m of
           None \<Rightarrow> (None, m)
         | Some r \<Rightarrow> (None, removeStream sid (updStream r (shutdownStream ErrStreamReset) m)))
      else if t = FramePing then
        asyncReply (mkFrame FramePong 0 0 (fPayload frame)) m
      else if t = FramePong then (None, m)
      else (Some ErrUnsupportedFrame, m))"

text \<open>One round of \<open>readLoop\<close> on the bytes the transport still delivers, and the whole loop.\<close>

definition readStep :: "bytes \<Rightarrow> Mux \<Rightarrow> bytes option \<times> Mux" where
  "readStep bs m =
     (case ReadFrame (mCodec m) bs of
        Inl e \<Rightarrow> (None, shutdown (Some e) m)
      | Inr (frame, rest) \<Rightarrow>
          (case handleFrame frame m of
             (Some e, m') \<Rightarrow> (None, shutdown (Some e) m')
           | (None, m') \<Rightarrow> (Some rest, m')))"

function readLoop :: "bytes \<Rightarrow> Mux \<Rightarrow> Mux" where
  "readLoop bs m = (case readStep bs m of (None, m') \<Rightarrow> m' | (Some rest, m') \<Rightarrow> readLoop rest m')"
  by pat_completeness auto
termination
  by (relation "measure (\<lambda>(bs, m). length bs)")
     (auto simp: readStep_def dest: ReadFrame_wf(2) split: sum.splits prod.splits option.splits)

declare readLoop.simps [simp del]

section \<open>Operations of the application\<close>

definition Mux_Open :: "u16 \<Rightarrow> bytes \<Rightarrow> Mux \<Rightarrow> (mux_error + nat) \<times> Mux" where
  "Mux_Open service metadata m =
     (if \<not> ServiceID_Valid service then (Inl ErrInvalidService, m)
      else case newLocalStream service m of
        Inl e \<Rightarrow> (Inl e, m)
      | Inr (r, m1) \<Rightarrow>
          (case send (mkFrame FrameOpen (sID (mHeap m1 ! r)) service metadata) m1 of
             (Some e, m2) \<Rightarrow> (Inl e, removeStream (sID (mHeap m1 ! r)) m2)
           | (None, m2) \<Rightarrow> (Inr r, m2)))"

text \<open>
  The three cases of the \<open>select\<close> in \<open>Open\<close> and in \<open>Accept\<close>: the channel waited for, the
  cancelled context, the closed multiplexer. The result is \<open>None\<close> when the case is not ready.
\<close>

datatype select_case = CaseReady | CaseContext | CaseDone

definition Open_wait :: "select_case \<Rightarrow> nat \<Rightarrow> Mux \<Rightarrow> ((mux_error + nat) \<times> Mux) option" where
  "Open_wait ev r m =
     (let s = mHeap m ! r in
      case ev of
        CaseReady \<Rightarrow>
          (case sAccepted s of
             None \<Rightarrow> None
           | Some (Some e) \<Rightarrow> Some (Inl e, removeStream (sID s) m)
           | Some None \<Rightarrow>
               (case sendInitialWindow r False (updStream r markAccepted m) of
                  (Some e, m2) \<Rightarrow> Some (Inl e, dropStream r e (sID s) m2)
                | (None, m2) \<Rightarrow> Some (Inr r, m2)))
      | CaseContext \<Rightarrow>
          let m1 = sendIgnore (mkFrame FrameReset (sID s) (sService s) []) m
          in Some (Inl ErrContext, dropStream r ErrContext (sID s) m1)
      | CaseDone \<Rightarrow> if mDone m then Some (Inl (closeErr m), m) else None)"

definition Mux_Accept :: "select_case \<Rightarrow> Mux \<Rightarrow> ((mux_error + nat) \<times> Mux) option" where
  "Mux_Accept ev m =
     (case ev of
        CaseReady \<Rightarrow>
          (case mIncoming m of
             [] \<Rightarrow> None
           | r # rs \<Rightarrow> Some (Inr r, m\<lparr>mIncoming := rs\<rparr>))
      | CaseContext \<Rightarrow> Some (Inl ErrContext, m)
      | CaseDone \<Rightarrow> if mDone m then Some (Inl (closeErr m), m) else None)"

text \<open>\<open>Stream.Read\<close>: the critical section, then the WINDOW frame for the credit it returns.\<close>

definition Mux_Read :: "nat \<Rightarrow> nat \<Rightarrow> Mux \<Rightarrow> (read_result \<times> mux_error option) \<times> Mux" where
  "Mux_Read r n m =
     (case Stream_Read (mHeap m ! r) n of
        (ReadGot d g, s') \<Rightarrow>
          let m1 = updStream r (\<lambda>_. s') m in
          if 0 < g then
            (case encodeWindowCredit g of
               Inl e \<Rightarrow> ((ReadGot d g, Some e), m1)
             | Inr payload \<Rightarrow>
                 (case asyncReply (mkFrame FrameWindow (sID s') (sService s') payload) m1 of
                    (err, m2) \<Rightarrow> ((ReadGot d g, err), m2)))
          else ((ReadGot d g, None), m1)
      | (ReadViolation d, s') \<Rightarrow> ((ReadViolation d, Some ErrFlowControlViolation), updStream r (\<lambda>_. s') m)
      | (ReadEnd e, s') \<Rightarrow> ((ReadEnd e, Some e), m)
      | (ReadWait, s') \<Rightarrow> ((ReadWait, None), m))"

text \<open>
  \<open>Stream.Write\<close>. One round of its loop for the bytes \<open>p\<close> still to be sent, then the loop:
  \<open>WDone n err\<close> is its return, \<open>WBlocked n\<close> its wait for credit after \<open>n\<close> bytes. A loop that
  sends empty chunks for ever has no value.
\<close>

definition Mux_writeRound :: "nat \<Rightarrow> bytes \<Rightarrow> Mux \<Rightarrow> (write_result \<times> mux_error option) \<times> Mux" where
  "Mux_writeRound r p m =
     (case Stream_writeChunk (mHeap m ! r) p of
        (WriteChunk c, s') \<Rightarrow>
          (case send (mkFrame FrameData (sID s') (sService s') c) (updStream r (\<lambda>_. s') m) of
             (err, m2) \<Rightarrow> ((WriteChunk c, err), m2))
      | (WriteErr e, s') \<Rightarrow> ((WriteErr e, Some e), m)
      | (WriteWait, s') \<Rightarrow> ((WriteWait, None), m))"

datatype write_outcome = WDone nat "mux_error option" | WBlocked nat

partial_function (option) Mux_Write :: "nat \<Rightarrow> bytes \<Rightarrow> nat \<Rightarrow> Mux \<Rightarrow> (write_outcome \<times> Mux) option" where
  "Mux_Write r p sent m =
     (if sent < length p then
        (case Mux_writeRound r (drop sent p) m of
           ((WriteChunk c, None), m2) \<Rightarrow> Mux_Write r p (sent + length c) m2
         | ((_, Some e), m2) \<Rightarrow> Some (WDone sent (Some e), m2)
         | ((_, None), m2) \<Rightarrow> Some (WBlocked sent, m2))
      else Some (WDone sent None, m))"

definition Mux_CloseStream :: "nat \<Rightarrow> Mux \<Rightarrow> mux_error option \<times> Mux" where
  "Mux_CloseStream r m =
     (case Stream_closeLocal (mHeap m ! r) of
        None \<Rightarrow> (None, m)
      | Some s' \<Rightarrow>
          (case send (mkFrame FrameClose (sID s') (sService s') []) (updStream r (\<lambda>_. s') m) of
             (err, m2) \<Rightarrow> (err, maybeRemove r m2)))"

definition Mux_ResetStream :: "nat \<Rightarrow> Mux \<Rightarrow> mux_error option \<times> Mux" where
  "Mux_ResetStream r m =
     (case Stream_resetLocal (mHeap m ! r) of
        None \<Rightarrow> (None, m)
      | Some s' \<Rightarrow>
          (case asyncReply (mkFrame FrameReset (sID s') (sService s') []) (updStream r (\<lambda>_. s') m) of
             (err, m2) \<Rightarrow> (err, removeStream (sID s') m2)))"

end
