(* ===== verification/Mux_Inv.thy ===== *)
theory Mux_Inv
  imports Mux_Core
begin

text \<open>
  The invariant of the multiplexer and what follows from it. \<open>mux_inv\<close> says: the limits are the
  ones \<open>New\<close> accepts and every stream ever created satisfies \<open>stream_inv\<close> under them; the stream
  table maps each ID to a stream with that ID; the backlog keeps its bound; \<open>done\<close> is closed
  exactly when an error is recorded, and then the table is empty; the IDs this end allocated are
  the arithmetic sequence of its parity. It is preserved by every operation, because every
  operation is composed of a few changes of the state that preserve it.
\<close>

section \<open>The invariant\<close>

definition stream_fits :: "Mux \<Rightarrow> Stream \<Rightarrow> bool" where
  "stream_fits m s =
     (stream_inv s \<and> sInitialWindow s = ucast (mInitialWindow m)
      \<and> sWindowThreshold s = ucast (mWindowThreshold m) \<and> sMaxDataPayload s = mMaxDataPayload m)"

definition static_ok :: "Mux \<Rightarrow> bool" where
  "static_ok m =
     (limits_from_New (mInitialWindow m) (mWindowThreshold m) (mMaxDataPayload m)
      \<and> mMaxDataPayload m \<le> maxPayload (mCodec m)
      \<and> (mRole m = RoleInitiator \<or> mRole m = RoleResponder))"

definition table_ok :: "Mux \<Rightarrow> bool" where
  "table_ok m =
     (distinct (map fst (mStreams m))
      \<and> (\<forall>(sid, r) \<in> set (mStreams m). r < length (mHeap m) \<and> sID (mHeap m ! r) = sid))"

text \<open>The IDs of the streams opened by this end, in the order of their creation.\<close>

definition local_ids :: "Mux \<Rightarrow> u32 list" where
  "local_ids m = filter (\<lambda>sid. \<not> peerOwns m sid) (map sID (mHeap m))"

definition firstID :: "Mux \<Rightarrow> u32" where
  "firstID m = (if mRole m = RoleResponder then 2 else 1)"

definition ids_ok :: "Mux \<Rightarrow> bool" where
  "ids_ok m =
     (local_ids m = map (\<lambda>k. firstID m + 2 * of_nat k) [0..<length (local_ids m)]
      \<and> mNextID m = firstID m + 2 * of_nat (length (local_ids m)))"

definition mux_inv :: "Mux \<Rightarrow> bool" where
  "mux_inv m =
     (static_ok m \<and> (\<forall>s \<in> set (mHeap m). stream_fits m s) \<and> table_ok m \<and> ids_ok m
      \<and> length (mIncoming m) \<le> mIncomingCap m \<and> (\<forall>r \<in> set (mIncoming m). r < length (mHeap m))
      \<and> (mDone m \<longleftrightarrow> mErr m \<noteq> None) \<and> (mDone m \<longrightarrow> mStreams m = []))"

lemmas mux_inv_parts = mux_inv_def static_ok_def table_ok_def ids_ok_def local_ids_def firstID_def
  stream_fits_def peerOwns_def

text \<open>What an operation on one stream keeps of it.\<close>

definition stream_keeps :: "Stream \<Rightarrow> Stream \<Rightarrow> bool" where
  "stream_keeps s s' =
     (sID s' = sID s \<and> sService s' = sService s \<and> sInitialWindow s' = sInitialWindow s
      \<and> sWindowThreshold s' = sWindowThreshold s \<and> sMaxDataPayload s' = sMaxDataPayload s
      \<and> (stream_inv s \<longrightarrow> stream_inv s'))"

named_theorems keeps

lemma keeps_refl [keeps]: "stream_keeps s s"
  by (simp add: stream_keeps_def)

lemma keeps_trans: "stream_keeps a b \<Longrightarrow> stream_keeps b c \<Longrightarrow> stream_keeps a c"
  by (simp add: stream_keeps_def)

lemma keeps_markAccepted [keeps]: "stream_keeps s (markAccepted s)"
  by (simp add: stream_keeps_def) (simp add: markAccepted_def)

lemma keeps_signalAccepted [keeps]: "stream_keeps s (signalAccepted e s)"
  by (simp add: stream_keeps_def) (simp add: signalAccepted_def split: option.splits)

lemma keeps_remoteClose [keeps]: "stream_keeps s (remoteClose e s)"
  by (simp add: stream_keeps_def remoteClose_inv)
     (simp add: remoteClose_def Let_def split: option.splits)

lemma keeps_shutdownStream [keeps]: "stream_keeps s (shutdownStream e s)"
  unfolding shutdownStream_def by (rule keeps_trans [OF keeps_signalAccepted keeps_remoteClose])

lemma keeps_initializeReceiveWindow [keeps]:
  "initializeReceiveWindow s = Inr (w, s') \<Longrightarrow> stream_keeps s s'"
  using initializeReceiveWindow_inv [of s w s']
  by (auto simp: stream_keeps_def initializeReceiveWindow_def split: if_splits)

lemma keeps_addSendCredit [keeps]: "addSendCredit c s = Inr s' \<Longrightarrow> stream_keeps s s'"
  using addSendCredit_inv [of s c s']
  by (auto simp: stream_keeps_def addSendCredit_def split: if_splits)

lemma keeps_deliver [keeps]: "deliver p s = Inr s' \<Longrightarrow> stream_keeps s s'"
  using deliver_inv [of s p s'] by (auto simp: stream_keeps_def deliver_def split: if_splits)

lemma keeps_closeLocal [keeps]: "Stream_closeLocal s = Some s' \<Longrightarrow> stream_keeps s s'"
  using closeLocal_inv [of s s'] by (auto simp: stream_keeps_def Stream_closeLocal_def split: if_splits)

lemma keeps_resetLocal [keeps]: "Stream_resetLocal s = Some s' \<Longrightarrow> stream_keeps s s'"
  using resetLocal_inv [of s s'] by (auto simp: stream_keeps_def Stream_resetLocal_def split: if_splits)

lemma keeps_writeChunk [keeps]: "Stream_writeChunk s p = (w, s') \<Longrightarrow> stream_keeps s s'"
  using writeChunk_inv [of s p w s']
  by (auto simp: stream_keeps_def Stream_writeChunk_def Let_def split: if_splits option.splits)

lemma Read_frame:
  "Stream_Read s n = (w, s') \<Longrightarrow>
     sID s' = sID s \<and> sService s' = sService s \<and> sInitialWindow s' = sInitialWindow s
     \<and> sWindowThreshold s' = sWindowThreshold s \<and> sMaxDataPayload s' = sMaxDataPayload s"
  by (auto simp: Stream_Read_def Let_def simp del: length_take split: if_splits)

lemma keeps_Read [keeps]: "Stream_Read s n = (w, s') \<Longrightarrow> stream_keeps s s'"
  using Read_inv [of s n w s'] Read_frame [of s n w s'] by (simp add: stream_keeps_def)

section \<open>Changes of the state that preserve it\<close>

lemma updStream_sel [simp]:
  "mConn (updStream r f m) = mConn m" "mCodec (updStream r f m) = mCodec m"
  "mRole (updStream r f m) = mRole m" "mInitialWindow (updStream r f m) = mInitialWindow m"
  "mWindowThreshold (updStream r f m) = mWindowThreshold m"
  "mMaxDataPayload (updStream r f m) = mMaxDataPayload m" "mStreams (updStream r f m) = mStreams m"
  "mNextID (updStream r f m) = mNextID m" "mErr (updStream r f m) = mErr m"
  "mAllowed (updStream r f m) = mAllowed m" "mIncoming (updStream r f m) = mIncoming m"
  "mIncomingCap (updStream r f m) = mIncomingCap m" "mOutgoing (updStream r f m) = mOutgoing m"
  "mDone (updStream r f m) = mDone m" "length (mHeap (updStream r f m)) = length (mHeap m)"
  by (simp_all add: updStream_def)

lemma updStream_same [simp]:
  "r < length (mHeap m) \<Longrightarrow> mHeap (updStream r f m) ! r = f (mHeap m ! r)"
  by (simp add: updStream_def)

lemma updStream_other [simp]: "r \<noteq> r' \<Longrightarrow> mHeap (updStream r f m) ! r' = mHeap m ! r'"
  by (simp add: updStream_def)

lemma removeStream_sel [simp]:
  "mConn (removeStream i m) = mConn m" "mCodec (removeStream i m) = mCodec m"
  "mRole (removeStream i m) = mRole m" "mInitialWindow (removeStream i m) = mInitialWindow m"
  "mWindowThreshold (removeStream i m) = mWindowThreshold m"
  "mMaxDataPayload (removeStream i m) = mMaxDataPayload m" "mHeap (removeStream i m) = mHeap m"
  "mNextID (removeStream i m) = mNextID m" "mErr (removeStream i m) = mErr m"
  "mAllowed (removeStream i m) = mAllowed m" "mIncoming (removeStream i m) = mIncoming m"
  "mIncomingCap (removeStream i m) = mIncomingCap m" "mOutgoing (removeStream i m) = mOutgoing m"
  "mDone (removeStream i m) = mDone m" "mStreams (removeStream i m) = AList.delete i (mStreams m)"
  by (simp_all add: removeStream_def)

lemma peerOwns_cong: "mRole m' = mRole m \<Longrightarrow> peerOwns m' = peerOwns m"
  by (rule ext) (simp add: peerOwns_def)

lemma local_ids_cong:
  "mRole m' = mRole m \<Longrightarrow> map sID (mHeap m') = map sID (mHeap m) \<Longrightarrow> local_ids m' = local_ids m"
  using peerOwns_cong [of m' m] by (simp add: local_ids_def)

lemma static_ok_frame [simp]:
  "static_ok (m\<lparr>mOutgoing := q\<rparr>) = static_ok m" "static_ok (m\<lparr>mConn := w\<rparr>) = static_ok m"
  "static_ok (m\<lparr>mIncoming := rs\<rparr>) = static_ok m" "static_ok (updStream r f m) = static_ok m"
  "static_ok (removeStream i m) = static_ok m"
  by (simp_all add: static_ok_def)

lemma stream_fits_frame [simp]:
  "stream_fits (m\<lparr>mOutgoing := q\<rparr>) = stream_fits m" "stream_fits (m\<lparr>mConn := w\<rparr>) = stream_fits m"
  "stream_fits (m\<lparr>mIncoming := rs\<rparr>) = stream_fits m" "stream_fits (updStream r f m) = stream_fits m"
  "stream_fits (removeStream i m) = stream_fits m"
  by (simp_all add: stream_fits_def fun_eq_iff)

lemma table_ok_frame [simp]:
  "table_ok (m\<lparr>mOutgoing := q\<rparr>) = table_ok m" "table_ok (m\<lparr>mConn := w\<rparr>) = table_ok m"
  "table_ok (m\<lparr>mIncoming := rs\<rparr>) = table_ok m"
  by (simp_all add: table_ok_def)

lemma ids_ok_cong:
  "mRole m' = mRole m \<Longrightarrow> mNextID m' = mNextID m \<Longrightarrow> map sID (mHeap m') = map sID (mHeap m) \<Longrightarrow>
     ids_ok m' = ids_ok m"
  using local_ids_cong [of m' m] by (simp add: ids_ok_def firstID_def)

lemma ids_ok_frame [simp]:
  "ids_ok (m\<lparr>mOutgoing := q\<rparr>) = ids_ok m" "ids_ok (m\<lparr>mConn := w\<rparr>) = ids_ok m"
  "ids_ok (m\<lparr>mIncoming := rs\<rparr>) = ids_ok m" "ids_ok (removeStream i m) = ids_ok m"
  by (rule ids_ok_cong; simp)+

lemma mux_inv_outgoing [simp]: "mux_inv (m\<lparr>mOutgoing := q\<rparr>) = mux_inv m"
  by (simp add: mux_inv_def)

lemma mux_inv_conn [simp]: "mux_inv (m\<lparr>mConn := w\<rparr>) = mux_inv m"
  by (simp add: mux_inv_def)

lemma map_sID_update:
  "(r < length h \<Longrightarrow> sID s = sID (h ! r)) \<Longrightarrow> map sID (h[r := s]) = map sID h"
  by (cases "r < length h") (simp_all add: map_update list_update_beyond list_update_same_conv)

lemma stream_fits_keeps: "stream_fits m s \<Longrightarrow> stream_keeps s s' \<Longrightarrow> stream_fits m s'"
  by (simp add: stream_fits_def stream_keeps_def)

lemma mux_inv_updStream:
  assumes inv: "mux_inv m" and k: "r < length (mHeap m) \<Longrightarrow> stream_keeps (mHeap m ! r) (f (mHeap m ! r))"
  shows "mux_inv (updStream r f m)"
proof -
  have ids: "map sID (mHeap (updStream r f m)) = map sID (mHeap m)"
    using k by (simp add: updStream_def map_sID_update stream_keeps_def)
  have sid: "sID (mHeap (updStream r f m) ! i) = sID (mHeap m ! i)" if "i < length (mHeap m)" for i
    using arg_cong [OF ids, of "\<lambda>xs. xs ! i"] that by simp
  have "\<forall>s \<in> set (mHeap (updStream r f m)). stream_fits m s"
  proof (cases "r < length (mHeap m)")
    case True
    then have "stream_fits m (f (mHeap m ! r))"
      using inv k by (auto simp: mux_inv_def intro: stream_fits_keeps)
    with inv show ?thesis
      by (auto simp: mux_inv_def updStream_def dest!: set_update_subset_insert [THEN subsetD])
  qed (use inv in \<open>simp add: mux_inv_def updStream_def list_update_beyond\<close>)
  moreover have "table_ok (updStream r f m)"
    using inv sid by (auto simp: mux_inv_def table_ok_def)
  moreover have "ids_ok (updStream r f m)"
    using inv ids_ok_cong [OF _ _ ids] by (simp add: mux_inv_def)
  ultimately show ?thesis
    using inv by (simp add: mux_inv_def)
qed

lemma mux_inv_removeStream: "mux_inv m \<Longrightarrow> mux_inv (removeStream i m)"
  by (auto simp: mux_inv_def table_ok_def AList.delete_eq distinct_map_filter)

lemma mux_inv_incoming:
  "mux_inv m \<Longrightarrow> length q \<le> mIncomingCap m \<Longrightarrow> \<forall>r\<in>set q. r < length (mHeap m) \<Longrightarrow>
     mux_inv (m\<lparr>mIncoming := q\<rparr>)"
  by (simp add: mux_inv_def)

subsection \<open>New streams\<close>

lemma addStream_sel [simp]:
  "fst (addStream sid svc md a m) = length (mHeap m)"
  "mHeap (snd (addStream sid svc md a m)) = mHeap m @
     [newStream (mInitialWindow m) (mWindowThreshold m) (mMaxDataPayload m) sid svc md a]"
  "mStreams (snd (addStream sid svc md a m)) = AList.update sid (length (mHeap m)) (mStreams m)"
  "mDone (snd (addStream sid svc md a m)) = mDone m" "mErr (snd (addStream sid svc md a m)) = mErr m"
  "mOutgoing (snd (addStream sid svc md a m)) = mOutgoing m"
  "mIncoming (snd (addStream sid svc md a m)) = mIncoming m"
  "mIncomingCap (snd (addStream sid svc md a m)) = mIncomingCap m"
  "mCodec (snd (addStream sid svc md a m)) = mCodec m" "mRole (snd (addStream sid svc md a m)) = mRole m"
  "mConn (snd (addStream sid svc md a m)) = mConn m"
  "mNextID (snd (addStream sid svc md a m)) = mNextID m"
  "mInitialWindow (snd (addStream sid svc md a m)) = mInitialWindow m"
  "mWindowThreshold (snd (addStream sid svc md a m)) = mWindowThreshold m"
  "mMaxDataPayload (snd (addStream sid svc md a m)) = mMaxDataPayload m"
  "mAllowed (snd (addStream sid svc md a m)) = mAllowed m"
  by (simp_all add: addStream_def)

lemma newStream_sel [simp]:
  "sID (newStream iw th md sid svc meta a) = sid" "sService (newStream iw th md sid svc meta a) = svc"
  "sIsOpen (newStream iw th md sid svc meta a) = a"
  "sMetadata (newStream iw th md sid svc meta a) = meta"
  "sAccepted (newStream iw th md sid svc meta a) = None"
  by (simp_all add: newStream_def)

lemma addStream_parts:
  assumes "static_ok m" "\<forall>s \<in> set (mHeap m). stream_fits m s" "table_ok m"
    and "m' = snd (addStream sid svc md a m)"
  shows "static_ok m'" "\<forall>s \<in> set (mHeap m'). stream_fits m' s" "table_ok m'"
proof -
  show "static_ok m'" using assms by (simp add: static_ok_def)
  show "\<forall>s \<in> set (mHeap m'). stream_fits m' s"
    using assms by (auto simp: stream_fits_def static_ok_def newStream_inv) (simp_all add: newStream_def)
  show "table_ok m'"
    using assms by (auto simp: table_ok_def distinct_update nth_append dest!: alist_update_mem)
qed

lemma peerOwns_addStream [simp]: "peerOwns (snd (addStream sid svc md a m)) = peerOwns m"
  by (rule peerOwns_cong) simp

lemma local_ids_addStream:
  "local_ids (snd (addStream sid svc md a m)) = local_ids m @ (if peerOwns m sid then [] else [sid])"
  by (simp add: local_ids_def)

lemma mux_inv_addPeer:
  assumes "mux_inv m" "\<not> mDone m" "peerOwns m sid"
  shows "mux_inv (snd (addStream sid svc md a m))"
proof -
  have "ids_ok (snd (addStream sid svc md a m))"
    using assms by (simp add: mux_inv_def ids_ok_def local_ids_addStream firstID_def)
  moreover have "\<forall>r \<in> set (mIncoming m). r < Suc (length (mHeap m))"
    using assms by (auto simp: mux_inv_def)
  ultimately show ?thesis
    using assms addStream_parts [OF _ _ _ refl, of m sid svc md a] by (simp add: mux_inv_def)
qed

lemma not_peerOwns_local:
  assumes "mRole m = RoleInitiator \<or> mRole m = RoleResponder"
  shows "\<not> peerOwns m (firstID m + 2 * of_nat k)"
  using assms by (auto simp: peerOwns_def firstID_def mod_2_eq_odd)

lemma newLocalStream_Inr:
  assumes "newLocalStream svc m = Inr (r, m')"
  shows "mErr m = None" "r = length (mHeap m)"
    "m' = snd (addStream (mNextID m) svc [] False (m\<lparr>mNextID := mNextID m + 2\<rparr>))"
  using assms by (auto simp: newLocalStream_def Let_def addStream_def split: option.splits)

lemma mux_inv_newLocal:
  assumes inv: "mux_inv m" and r: "newLocalStream svc m = Inr (r, m')"
  shows "mux_inv m'" "local_ids m' = local_ids m @ [mNextID m]"
proof -
  let ?n = "m\<lparr>mNextID := mNextID m + 2\<rparr>"
  have n: "static_ok ?n" "\<forall>s \<in> set (mHeap ?n). stream_fits ?n s" "table_ok ?n"
    using inv by (simp_all add: mux_inv_def static_ok_def stream_fits_def table_ok_def)
  have own: "\<not> peerOwns ?n (mNextID m)" and next_id: "mNextID m = firstID m + 2 * of_nat (length (local_ids m))"
    using inv not_peerOwns_local [of m] peerOwns_cong [of ?n m]
    by (auto simp: mux_inv_def ids_ok_def static_ok_def)
  have li: "local_ids ?n = local_ids m"
    using peerOwns_cong [of ?n m] by (simp add: local_ids_def)
  note m' = newLocalStream_Inr [OF r]
  show l: "local_ids m' = local_ids m @ [mNextID m]"
    using own li by (simp add: m'(3) local_ids_addStream)
  have "ids_ok m'"
    using inv next_id l by (simp add: mux_inv_def ids_ok_def m'(3) firstID_def algebra_simps)
  moreover have "\<forall>r \<in> set (mIncoming m). r < Suc (length (mHeap m))"
    using inv by (auto simp: mux_inv_def)
  ultimately show "mux_inv m'"
    using inv m'(1) addStream_parts [OF n m'(3)] unfolding mux_inv_def by (simp add: m'(3))
qed

subsection \<open>Shutdown and sending\<close>

lemma fold_updStream_sel [simp]:
  "mDone (fold (\<lambda>r. updStream r f) rs m) = mDone m" "mErr (fold (\<lambda>r. updStream r f) rs m) = mErr m"
  "mStreams (fold (\<lambda>r. updStream r f) rs m) = mStreams m"
  "mOutgoing (fold (\<lambda>r. updStream r f) rs m) = mOutgoing m"
  "mCodec (fold (\<lambda>r. updStream r f) rs m) = mCodec m" "mRole (fold (\<lambda>r. updStream r f) rs m) = mRole m"
  "mConn (fold (\<lambda>r. updStream r f) rs m) = mConn m"
  "mNextID (fold (\<lambda>r. updStream r f) rs m) = mNextID m"
  "mIncoming (fold (\<lambda>r. updStream r f) rs m) = mIncoming m"
  "length (mHeap (fold (\<lambda>r. updStream r f) rs m)) = length (mHeap m)"
  by (induction rs arbitrary: m) simp_all

lemma mux_inv_fold_updStream:
  "mux_inv m \<Longrightarrow> (\<And>s. stream_keeps s (f s)) \<Longrightarrow> mux_inv (fold (\<lambda>r. updStream r f) rs m)"
  by (induction rs arbitrary: m) (simp_all add: mux_inv_updStream)

lemma shutdown_done [simp]: "mDone (shutdown e m)"
  by (simp add: shutdown_def Let_def)

lemma shutdown_again: "mDone m \<Longrightarrow> shutdown e m = m"
  by (simp add: shutdown_def)

lemma shutdown_sel [simp]:
  "mOutgoing (shutdown e m) = mOutgoing m" "mCodec (shutdown e m) = mCodec m"
  "mRole (shutdown e m) = mRole m" "length (mHeap (shutdown e m)) = length (mHeap m)"
  by (simp_all add: shutdown_def Let_def)

lemma shutdown_err: "\<not> mDone m \<Longrightarrow> mErr (shutdown (Some e) m) = Some e"
  by (simp add: shutdown_def Let_def)

lemma mux_inv_shutdown:
  assumes "mux_inv m"
  shows "mux_inv (shutdown e m)"
proof -
  have "mux_inv (m\<lparr>mErr := Some x, mStreams := [], mDone := True, mConn := (mConn m)\<lparr>cnClosed := True\<rparr>\<rparr>)" for x
    using assms ids_ok_cong [of "m\<lparr>mErr := Some x, mStreams := [], mDone := True,
        mConn := (mConn m)\<lparr>cnClosed := True\<rparr>\<rparr>" m]
    by (simp add: mux_inv_def static_ok_def stream_fits_def table_ok_def)
  with assms show ?thesis
    by (simp add: shutdown_def Let_def mux_inv_fold_updStream keeps)
qed

lemma sendAsync_Inr: "sendAsync f m = Inr m' \<longleftrightarrow> \<not> mDone m \<and> m' = m\<lparr>mOutgoing := mOutgoing m @ [f]\<rparr>"
  by (auto simp: sendAsync_def)

lemma sendAsync_Inl: "sendAsync f m = Inl e \<longleftrightarrow> mDone m \<and> e = closeErr m"
  by (auto simp: sendAsync_def)

lemma sendIgnore_eq: "sendIgnore f m = (if mDone m then m else m\<lparr>mOutgoing := mOutgoing m @ [f]\<rparr>)"
  by (simp add: sendIgnore_def sendAsync_def)

lemma asyncReply_eq:
  "asyncReply f m = (if mDone m then (Some (closeErr m), m) else (None, m\<lparr>mOutgoing := mOutgoing m @ [f]\<rparr>))"
  by (simp add: asyncReply_def sendAsync_def)

lemma mux_inv_sendIgnore [simp]: "mux_inv (sendIgnore f m) = mux_inv m"
  by (simp add: sendIgnore_eq)

lemma mux_inv_asyncReply [simp]: "mux_inv (snd (asyncReply f m)) = mux_inv m"
  by (simp add: asyncReply_eq)

lemma mux_inv_writerStep: "mux_inv m \<Longrightarrow> mux_inv (writerStep m)"
  by (auto simp: writerStep_def mux_inv_shutdown split: list.splits prod.splits option.splits)

lemma writerStep_heap_length [simp]: "length (mHeap (writerStep m)) = length (mHeap m)"
  by (simp add: writerStep_def split: list.splits prod.splits option.splits)

lemma funpow_inv: "P m \<Longrightarrow> (\<And>x. P x \<Longrightarrow> P (f x)) \<Longrightarrow> P ((f ^^ n) m)"
  by (induction n) simp_all

lemma mux_inv_writerLoop: "mux_inv m \<Longrightarrow> mux_inv (writerLoop m)"
  unfolding writerLoop_def by (rule funpow_inv [of mux_inv]) (simp_all add: mux_inv_writerStep)

lemma writerLoop_heap_length [simp]: "length (mHeap (writerLoop m)) = length (mHeap m)"
  unfolding writerLoop_def by (rule funpow_inv [of "\<lambda>x. length (mHeap x) = length (mHeap m)"]) simp_all

lemma mux_inv_send: "mux_inv m \<Longrightarrow> mux_inv (snd (send f m))"
  by (auto simp: send_def Let_def sendAsync_def mux_inv_writerLoop)

lemma send_heap_length [simp]: "length (mHeap (snd (send f m))) = length (mHeap m)"
  by (auto simp: send_def Let_def sendAsync_def)

subsection \<open>The handlers and the application's operations\<close>

lemma lookupStream_ref:
  assumes "mux_inv m" "lookupStream sid m = Some r"
  shows "r < length (mHeap m)" "sID (mHeap m ! r) = sid" "\<not> mDone m"
  using assms by (auto simp: lookupStream_def mux_inv_def table_ok_def dest!: map_of_SomeD)

lemma mux_inv_dropStream: "mux_inv m \<Longrightarrow> mux_inv (dropStream r e sid m)"
  by (simp add: dropStream_def mux_inv_removeStream mux_inv_updStream keeps)

lemma mux_inv_resetStream: "mux_inv m \<Longrightarrow> mux_inv (resetStream r e m)"
  by (simp add: resetStream_def Let_def mux_inv_removeStream mux_inv_updStream keeps)

lemma mux_inv_maybeRemove: "mux_inv m \<Longrightarrow> mux_inv (maybeRemove r m)"
  by (simp add: maybeRemove_def mux_inv_removeStream)

lemma mux_inv_sendInitialWindow:
  assumes "mux_inv m" "sendInitialWindow r async m = (e, m')"
  shows "mux_inv m'" "length (mHeap m') = length (mHeap m)"
proof -
  have "mux_inv m' \<and> length (mHeap m') = length (mHeap m)"
  proof (cases "initializeReceiveWindow (mHeap m ! r)")
    case (Inr p)
    obtain credit s' where p: "p = (credit, s')" by (cases p)
    let ?m1 = "updStream r (\<lambda>_. s') m"
    have "mux_inv ?m1"
      using assms(1) keeps_initializeReceiveWindow [OF Inr [unfolded p]] by (simp add: mux_inv_updStream)
    then have "mux_inv (snd (asyncReply f ?m1)) \<and> mux_inv (snd (send f ?m1))" for f
      by (simp add: mux_inv_send)
    moreover have "length (mHeap (snd (asyncReply f ?m1))) = length (mHeap m)
        \<and> length (mHeap (snd (send f ?m1))) = length (mHeap m)" for f
      by (simp add: asyncReply_eq)
    ultimately show ?thesis
      using assms Inr p \<open>mux_inv ?m1\<close>
      by (auto simp: sendInitialWindow_def Let_def split: sum.splits if_splits dest!: arg_cong [of _ _ snd])
  qed (use assms in \<open>auto simp: sendInitialWindow_def\<close>)
  then show "mux_inv m'" "length (mHeap m') = length (mHeap m)" by simp_all
qed

lemma sendInitialWindow_incoming:
  assumes "sendInitialWindow r True m = (e, m')"
  shows "mIncoming m' = mIncoming m" "mIncomingCap m' = mIncomingCap m" "mDone m' = mDone m"
  using assms
  by (auto simp: sendInitialWindow_def asyncReply_eq Let_def split: sum.splits if_splits)

lemma mux_inv_admitStream:
  assumes inv: "mux_inv m" and r: "r < length (mHeap m)" and h: "admitStream r sid svc m = (e, m')"
  shows "mux_inv m'"
proof (cases "mIncomingCap m \<le> length (mIncoming m)")
  case True
  with h have "asyncReply (mkFrame FrameReset sid svc []) (dropStream r ErrIncomingBacklog sid m) = (e, m')"
    by (simp add: admitStream_def)
  then show ?thesis
    using mux_inv_asyncReply [of "mkFrame FrameReset sid svc []" "dropStream r ErrIncomingBacklog sid m"]
      mux_inv_dropStream [OF inv] by simp
next
  case room: False
  let ?acc = "mkFrame FrameAccept sid svc []"
  obtain e2 m2 where acc: "asyncReply ?acc m = (e2, m2)" by fastforce
  have m2: "mux_inv m2" "length (mHeap m2) = length (mHeap m)" "mIncoming m2 = mIncoming m"
    "mIncomingCap m2 = mIncomingCap m"
    using acc inv by (auto simp: asyncReply_eq split: if_splits)
  obtain e3 m3 where w: "sendInitialWindow r True m2 = (e3, m3)" by fastforce
  note m3 = mux_inv_sendInitialWindow [OF m2(1) w] sendInitialWindow_incoming [OF w]
  let ?m4 = "updStream r markAccepted m3"
  have m4: "mux_inv ?m4" using m3(1) by (simp add: mux_inv_updStream keeps)
  have "mux_inv (?m4\<lparr>mIncoming := mIncoming ?m4 @ [r]\<rparr>)"
    by (rule mux_inv_incoming [OF m4]) (use inv room r m2 m3 in \<open>auto simp: mux_inv_def\<close>)
  then show ?thesis
    using h room mux_inv_dropStream [OF m2(1)] mux_inv_dropStream [OF m3(1)] mux_inv_dropStream [OF m4]
    by (auto simp: admitStream_def acc w Let_def split: option.splits if_splits)
qed

lemma mux_inv_handleOpen:
  assumes inv: "mux_inv m" and h: "handleOpen f m = (e, m')"
  shows "mux_inv m'"
proof -
  let ?sid = "fStreamID f" and ?svc = "fService f"
  let ?m1 = "snd (addStream ?sid ?svc (fPayload f) True m)" and ?r = "length (mHeap m)"
  show ?thesis
  proof (cases "(\<not> ServiceID_Valid ?svc \<or> \<not> mAllowed m ?svc) \<or> \<not> peerOwns m ?sid
      \<or> mErr m \<noteq> None \<or> lookupStream ?sid m \<noteq> None")
    case True
    with inv h show ?thesis
      by (auto simp: handleOpen_def Let_def asyncReply_eq split: if_splits option.splits)
  next
    case False
    have "\<not> mDone m" using inv False by (simp add: mux_inv_def)
    then have "mux_inv ?m1" using False inv by (simp add: mux_inv_addPeer)
    moreover have "admitStream ?r ?sid ?svc ?m1 = (e, m')"
      using h False by (simp add: handleOpen_def Let_def split_beta)
    ultimately show ?thesis
      using mux_inv_admitStream [of ?m1 ?r ?sid ?svc e m'] by simp
  qed
qed

lemma mux_inv_handleFrame:
  assumes inv: "mux_inv m" and h: "handleFrame f m = (e, m')"
  shows "mux_inv m'"
proof (cases "fType f = FrameOpen")
  case True
  with h mux_inv_handleOpen [OF inv] show ?thesis by (simp add: handleFrame_def)
next
  case False
  note up = mux_inv_updStream [OF inv] mux_inv_resetStream [OF inv] mux_inv_removeStream mux_inv_maybeRemove
  have [simp]: "mux_inv (updStream r (\<lambda>_. s') m)" if "stream_keeps (mHeap m ! r) s'" for r s'
    using that by (simp add: up)
  have [simp]: "mux_inv (updStream r (signalAccepted None) m)" "mux_inv (updStream r (remoteClose None) m)"
    "mux_inv (updStream r (shutdownStream x) m)" for r x
    by (simp_all add: up keeps)
  from h False inv show ?thesis
    by (auto simp: handleFrame_def Let_def asyncReply_eq up keeps
        split: if_splits option.splits sum.splits)
qed

lemma mux_inv_sendD: "mux_inv m \<Longrightarrow> send f m = (e, m') \<Longrightarrow> mux_inv m'"
  using mux_inv_send [of m f] by simp

lemma mux_inv_Open:
  assumes inv: "mux_inv m" and h: "Mux_Open svc md m = (res, m')"
  shows "mux_inv m'"
proof (cases "newLocalStream svc m")
  case (Inr p)
  obtain r m1 where p: "p = (r, m1)" by (cases p)
  obtain e m2 where s: "send (mkFrame FrameOpen (sID (mHeap m1 ! r)) svc md) m1 = (e, m2)" by fastforce
  have "mux_inv m2"
    using mux_inv_sendD [OF mux_inv_newLocal(1) [OF inv Inr [unfolded p]] s] .
  with inv h Inr p s show ?thesis
    by (auto simp: Mux_Open_def mux_inv_removeStream split: if_splits option.splits)
qed (use inv h in \<open>auto simp: Mux_Open_def split: if_splits\<close>)

lemma mux_inv_Open_wait:
  assumes inv: "mux_inv m" and h: "Open_wait ev r m = Some (res, m')"
  shows "mux_inv m'"
proof -
  have acc: "mux_inv (updStream r markAccepted m)"
    using inv by (simp add: mux_inv_updStream keeps)
  obtain e m2 where w: "sendInitialWindow r False (updStream r markAccepted m) = (e, m2)" by fastforce
  have "mux_inv m2" by (rule mux_inv_sendInitialWindow(1) [OF acc w])
  with inv h w show ?thesis
    by (auto simp: Open_wait_def Let_def mux_inv_removeStream mux_inv_dropStream
        split: select_case.splits option.splits if_splits)
qed

lemma mux_inv_Accept:
  "mux_inv m \<Longrightarrow> Mux_Accept ev m = Some (res, m') \<Longrightarrow> mux_inv m'"
  by (auto simp: Mux_Accept_def mux_inv_def split: select_case.splits list.splits if_splits)

lemma mux_inv_Read:
  assumes inv: "mux_inv m" and h: "Mux_Read r n m = (res, m')"
  shows "mux_inv m'"
proof -
  obtain w s' where rd: "Stream_Read (mHeap m ! r) n = (w, s')" by fastforce
  have "mux_inv (updStream r (\<lambda>_. s') m)"
    using inv keeps_Read [OF rd] by (simp add: mux_inv_updStream)
  with inv h rd show ?thesis
    by (auto simp: Mux_Read_def Let_def asyncReply_eq split: read_result.splits if_splits sum.splits)
qed

lemma mux_inv_writeRound:
  assumes inv: "mux_inv m" and h: "Mux_writeRound r p m = (res, m')"
  shows "mux_inv m'"
proof -
  obtain w s' where wc: "Stream_writeChunk (mHeap m ! r) p = (w, s')" by fastforce
  have up: "mux_inv (updStream r (\<lambda>_. s') m)"
    using inv keeps_writeChunk [OF wc] by (simp add: mux_inv_updStream)
  show ?thesis
    using inv h wc mux_inv_sendD [OF up]
    by (auto simp: Mux_writeRound_def split: write_result.splits prod.splits)
qed

lemma mux_inv_CloseStream:
  assumes inv: "mux_inv m" and h: "Mux_CloseStream r m = (res, m')"
  shows "mux_inv m'"
proof (cases "Stream_closeLocal (mHeap m ! r)")
  case (Some s')
  have up: "mux_inv (updStream r (\<lambda>_. s') m)"
    using inv keeps_closeLocal [OF Some] by (simp add: mux_inv_updStream)
  show ?thesis
    using h Some mux_inv_sendD [OF up]
    by (auto simp: Mux_CloseStream_def mux_inv_maybeRemove split: prod.splits)
qed (use inv h in \<open>simp add: Mux_CloseStream_def\<close>)

lemma mux_inv_ResetStream:
  assumes inv: "mux_inv m" and h: "Mux_ResetStream r m = (res, m')"
  shows "mux_inv m'"
proof (cases "Stream_resetLocal (mHeap m ! r)")
  case (Some s')
  have up: "mux_inv (updStream r (\<lambda>_. s') m)"
    using inv keeps_resetLocal [OF Some] by (simp add: mux_inv_updStream)
  then show ?thesis
    using h Some by (auto simp: Mux_ResetStream_def asyncReply_eq mux_inv_removeStream split: if_splits)
qed (use inv h in \<open>simp add: Mux_ResetStream_def\<close>)

lemma mux_inv_readStep:
  "mux_inv m \<Longrightarrow> readStep bs m = (res, m') \<Longrightarrow> mux_inv m'"
  using mux_inv_handleFrame [of m]
  by (auto simp: readStep_def mux_inv_shutdown split: sum.splits prod.splits option.splits)

lemma mux_inv_readLoop: "mux_inv m \<Longrightarrow> mux_inv (readLoop bs m)"
proof (induction bs m rule: readLoop.induct)
  case (1 bs m)
  obtain x m' where s: "readStep bs m = (x, m')" by fastforce
  with 1 mux_inv_readStep [OF 1(2) s] show ?case
    by (auto simp: readLoop.simps [of bs m] split: option.splits)
qed

lemma configThreshold_pos: "0 < unat (configThreshold cfg w)"
  by (simp add: configThreshold_def unat_gt_0)

lemma New_Inr:
  assumes "New c cfg = Inr m"
  shows "static_ok m" "mHeap m = []" "mStreams m = []" "mErr m = None" "\<not> mDone m"
    "mIncoming m = []" "mOutgoing m = []" "mNextID m = firstID m" "0 < mIncomingCap m"
    "c = Some (mConn m)" "mCodec m = cCodec cfg" "mRole m = cRole cfg"
    "mInitialWindow m = configWindow cfg" "mAllowed m = configAllowed cfg"
proof -
  have b: "0 < configBacklog cfg" by (simp add: configBacklog_def)
  have lim: "limits_from_New (configWindow cfg) (configThreshold cfg (configWindow cfg)) (minUint32 md (configWindow cfg))"
    if "\<not> 67108864 < configWindow cfg" "\<not> configWindow cfg < configThreshold cfg (configWindow cfg)"
      "minUint32 md (configWindow cfg) \<noteq> 0" for md
    using that configThreshold_pos [of cfg "configWindow cfg"] unat_gt_0 [of "minUint32 md (configWindow cfg)"]
    by (auto simp: limits_from_New_def word_less_nat_alt minUint32_def split: if_splits)
  have md: "minUint32 md w \<le> x" if "\<not> x < md" for md w x :: u32
    using that by (auto simp: minUint32_def)
  from assms show "static_ok m" "mHeap m = []" "mStreams m = []" "mErr m = None" "\<not> mDone m"
    "mIncoming m = []" "mOutgoing m = []" "mNextID m = firstID m" "0 < mIncomingCap m"
    "c = Some (mConn m)" "mCodec m = cCodec cfg" "mRole m = cRole cfg"
    "mInitialWindow m = configWindow cfg" "mAllowed m = configAllowed cfg"
    by (auto simp: New_def Let_def static_ok_def firstID_def lim md b split: option.splits if_split_asm)
qed

lemma mux_inv_New: "New c cfg = Inr m \<Longrightarrow> mux_inv m"
  using New_Inr [of c cfg m] by (simp add: mux_inv_def table_ok_def ids_ok_def local_ids_def)

end
