(* ===== verification/Mux_Session.thy ===== *)
theory Mux_Session
  imports Mux_Inv
begin

text \<open>
  Runs of one multiplexer (\<open>src/sessionmux/mux.go\<close>): its reader and writer loops and its
  application interleaved, as a step relation, and the properties that hold in every state they
  reach, whatever the peer sends.
\<close>

section \<open>Runs\<close>

text \<open>
  A step is one round of the reader loop on whatever bytes the transport delivers, one round of
  the writer loop, or one call of the application; \<open>r\<close> ranges over streams it was handed.
  Opening a stream is a rule of reachability of its own, so that it can be restricted below.
\<close>

inductive mux_step :: "Mux \<Rightarrow> Mux \<Rightarrow> bool" where
  st_receive: "\<not> mDone m \<Longrightarrow> readStep bs m = (res, m') \<Longrightarrow> mux_step m m'"
| st_write_out: "mux_step m (writerStep m)"
| st_open_wait: "r < length (mHeap m) \<Longrightarrow> Open_wait ev r m = Some (res, m') \<Longrightarrow> mux_step m m'"
| st_accept: "Mux_Accept ev m = Some (res, m') \<Longrightarrow> mux_step m m'"
| st_read: "r < length (mHeap m) \<Longrightarrow> Mux_Read r n m = (res, m') \<Longrightarrow> mux_step m m'"
| st_write: "r < length (mHeap m) \<Longrightarrow> Mux_writeRound r p m = (res, m') \<Longrightarrow> mux_step m m'"
| st_close: "r < length (mHeap m) \<Longrightarrow> Mux_CloseStream r m = (res, m') \<Longrightarrow> mux_step m m'"
| st_reset: "r < length (mHeap m) \<Longrightarrow> Mux_ResetStream r m = (res, m') \<Longrightarrow> mux_step m m'"
| st_close_all: "mux_step m (Mux_Close m)"

inductive mux_reachable :: "Mux \<Rightarrow> bool" where
  start: "New transport config = Inr m \<Longrightarrow> mux_reachable m"
| step: "mux_reachable m \<Longrightarrow> mux_step m m' \<Longrightarrow> mux_reachable m'"
| opened: "mux_reachable m \<Longrightarrow> Mux_Open svc md m = (res, m') \<Longrightarrow> mux_reachable m'"

lemma mux_inv_step: "mux_step m m' \<Longrightarrow> mux_inv m \<Longrightarrow> mux_inv m'"
  by (induction rule: mux_step.induct)
     (auto simp: Mux_Close_def mux_inv_shutdown mux_inv_writerStep
       dest: mux_inv_readStep mux_inv_Open_wait mux_inv_Accept mux_inv_Read
         mux_inv_writeRound mux_inv_CloseStream mux_inv_ResetStream)

lemma reachable_inv: "mux_reachable m \<Longrightarrow> mux_inv m"
  by (induction rule: mux_reachable.induct) (auto dest: mux_inv_New mux_inv_step mux_inv_Open)

text \<open>A small concrete session: the default configuration on a transport that takes all writes.\<close>

definition demo_config :: "byte \<Rightarrow> Config" where
  "demo_config role =
     \<lparr>cRole = role, cCodec = \<lparr>MaxPayload = 0\<rparr>, cIncomingBacklog = 0, cAllowedServices = None,
      cInitialWindow = 0, cWindowUpdateThreshold = 0, cMaxDataPayload = 0\<rparr>"

definition demo_mux :: "byte \<Rightarrow> Mux" where
  "demo_mux role =
     \<lparr>mConn = \<lparr>cnScript = [], cnOut = [], cnClosed = False\<rparr>, mCodec = \<lparr>MaxPayload = 0\<rparr>, mRole = role,
      mInitialWindow = 262144, mWindowThreshold = 131072, mMaxDataPayload = 65536, mHeap = [],
      mStreams = [], mNextID = (if role = RoleResponder then 2 else 1), mErr = None,
      mAllowed = defaultServices, mIncoming = [], mIncomingCap = 16, mOutgoing = [], mDone = False\<rparr>"

lemma demo_New:
  "role = RoleInitiator \<or> role = RoleResponder \<Longrightarrow>
     New (Some \<lparr>cnScript = [], cnOut = [], cnClosed = False\<rparr>) (demo_config role) = Inr (demo_mux role)"
  by (auto simp: New_def demo_config_def demo_mux_def configWindow_def configThreshold_def
      configMaxData_def configAllowed_def configBacklog_def minUint32_def maxPayload_def)

lemma demo_reachable: "role = RoleInitiator \<or> role = RoleResponder \<Longrightarrow> mux_reachable (demo_mux role)"
  by (rule mux_reachable.start [OF demo_New])

text \<open>The responder after the OPEN of stream 1 arrived, with its ACCEPT and WINDOW still queued.\<close>

definition demo_OPEN :: Frame where
  "demo_OPEN = mkFrame FrameOpen 1 ServiceTCP [7, 8]"

definition demo_served :: Mux where
  "demo_served = snd (handleOpen demo_OPEN (demo_mux RoleResponder))"

lemma demo_handleOpen: "handleFrame demo_OPEN (demo_mux RoleResponder) = (None, demo_served)"
  by (simp add: demo_served_def demo_OPEN_def handleFrame_def handleOpen_def demo_mux_def
      ServiceID_Valid_def defaultServices_def peerOwns_def lookupStream_def addStream_def
      admitStream_def asyncReply_eq sendInitialWindow_def newStream_def initializeReceiveWindow_def
      encodeWindowCredit_def updStream_def Let_def)

lemma demo_served_eq:
  "mHeap demo_served = [markAccepted (newStream 262144 131072 65536 1 ServiceTCP [7, 8] True)
       \<lparr>sWindowAdvertised := True, sRecvCredit := 262144\<rparr>]"
  "mStreams demo_served = [(1, 0)]" "mIncoming demo_served = [0]" "\<not> mDone demo_served"
  "mIncomingCap demo_served = 16" "mInitialWindow demo_served = 262144"
  "mCodec demo_served = \<lparr>MaxPayload = 0\<rparr>"
  "mConn demo_served = \<lparr>cnScript = [], cnOut = [], cnClosed = False\<rparr>"
  "mOutgoing demo_served =
     [mkFrame FrameAccept 1 ServiceTCP [], mkFrame FrameWindow 1 ServiceTCP (put_uint32 262144)]"
  by (simp_all add: demo_served_def demo_OPEN_def handleFrame_def handleOpen_def demo_mux_def
      ServiceID_Valid_def defaultServices_def peerOwns_def lookupStream_def addStream_def
      admitStream_def asyncReply_eq sendInitialWindow_def newStream_def initializeReceiveWindow_def
      encodeWindowCredit_def updStream_def markAccepted_def Let_def)

lemma demo_served_step: "mux_step (demo_mux RoleResponder) demo_served"
proof -
  have "frame_wf (mCodec (demo_mux RoleResponder)) demo_OPEN"
    by (simp add: frame_wf_def demo_OPEN_def demo_mux_def maxPayload_def FrameType_valid_def
        validateFramePayloadLength_def)
  then have "readStep (frameBytes demo_OPEN @ []) (demo_mux RoleResponder) = (Some [], demo_served)"
    by (simp only: readStep_def ReadFrame_frameBytes demo_handleOpen sum.case prod.case option.case)
  moreover have "\<not> mDone (demo_mux RoleResponder)" by (simp add: demo_mux_def)
  ultimately show ?thesis by (blast intro: mux_step.intros)
qed

lemma demo_served_reachable: "mux_reachable demo_served"
  by (rule mux_reachable.step [OF demo_reachable [of RoleResponder] demo_served_step]) simp

text \<open>The writer and a shutdown leave the send credit of every stream alone.\<close>

lemma updStream_credits: "(\<And>s. sSendCredit (g s) = sSendCredit s) \<Longrightarrow> map sSendCredit (mHeap (updStream r g m)) = map sSendCredit (mHeap m)"
  by (cases "r < length (mHeap m)") (auto simp: updStream_def nth_list_update intro: nth_equalityI)

lemma shutdown_credits: "map sSendCredit (mHeap (shutdown err m)) = map sSendCredit (mHeap m)"
proof -
  have "sSendCredit (shutdownStream e s) = sSendCredit s" for e s
    by (simp add: shutdownStream_def remoteClose_def signalAccepted_def Let_def split: option.split)
  then have "map sSendCredit (mHeap (fold (\<lambda>r. updStream r (shutdownStream e)) rs m)) = map sSendCredit (mHeap m)" for e rs m
    by (induction rs arbitrary: m) (simp_all add: updStream_credits)
  then show ?thesis by (simp add: shutdown_def Let_def)
qed

lemma writerStep_credits: "map sSendCredit (mHeap (writerStep m)) = map sSendCredit (mHeap m)"
  by (simp add: writerStep_def shutdown_credits split: list.splits prod.splits option.splits)

lemma send_credits: "map sSendCredit (mHeap (snd (send f m))) = map sSendCredit (mHeap m)"
proof -
  have "map sSendCredit (mHeap (writerLoop m)) = map sSendCredit (mHeap m)" for m
    unfolding writerLoop_def
    by (rule funpow_inv [of "\<lambda>x. map sSendCredit (mHeap x) = map sSendCredit (mHeap m)"]) (simp_all add: writerStep_credits)
  then show ?thesis by (auto simp: send_def Let_def sendAsync_def)
qed

lemma writeRound_credit:
  assumes r: "r < length (mHeap m)" and h: "Mux_writeRound r p m = ((WriteChunk c, err), m')"
  shows "unat (sSendCredit (mHeap m' ! r)) + length c = unat (sSendCredit (mHeap m ! r))"
proof -
  obtain s' where wc: "Stream_writeChunk (mHeap m ! r) p = (WriteChunk c, s')"
    and sd: "send (mkFrame FrameData (sID s') (sService s') c) (updStream r (\<lambda>_. s') m) = (err, m')"
    using h by (auto simp: Mux_writeRound_def split: prod.splits write_result.splits)
  have "map sSendCredit (mHeap m') = map sSendCredit (mHeap (updStream r (\<lambda>_. s') m))"
    using send_credits [of "mkFrame FrameData (sID s') (sService s') c" "updStream r (\<lambda>_. s') m"] sd by simp
  from arg_cong [OF this, of "\<lambda>xs. xs ! r"] arg_cong [OF this, of length] have "sSendCredit (mHeap m' ! r) = sSendCredit s'"
    using r by (simp add: updStream_def)
  then show ?thesis using writeChunk_credit(1,2) [OF wc] by simp
qed

text \<open>
  C2: Whatever bytes the peer sends and whatever the application does, in every state of a
  multiplexer every stream holds at most one initial window of unread bytes and receive credit
  together, its send credit is at most the window its peer advertised, which is at most 64 MiB, and the
  accept backlog keeps its bound. A DATA chunk that \<open>Write\<close> sends takes exactly its length off the send
  credit, so that no more is sent than the credit that was there.
\<close>

theorem session_bounded:
  assumes "mux_reachable m"
  shows "(\<forall>s \<in> set (mHeap m).
            length (sReadBuf s) + unat (sRecvCredit s) \<le> unat (mInitialWindow m)
            \<and> unat (sSendCredit s) \<le> unat (sPeerWindow s) \<and> unat (sPeerWindow s) \<le> 67108864)
         \<and> length (mIncoming m) \<le> mIncomingCap m
         \<and> (\<forall>r p c err m'. r < length (mHeap m) \<and> Mux_writeRound r p m = ((WriteChunk c, err), m') \<longrightarrow>
              unat (sSendCredit (mHeap m' ! r)) + length c = unat (sSendCredit (mHeap m ! r)))"
proof -
  have "mux_inv m" by (rule reachable_inv [OF assms])
  moreover have "length (sReadBuf s) + unat (sRecvCredit s) \<le> unat (mInitialWindow m)
      \<and> unat (sSendCredit s) \<le> unat (sPeerWindow s) \<and> unat (sPeerWindow s) \<le> 67108864"
    if "stream_fits m s" for s
    using that by (auto simp: stream_fits_def stream_inv_defs unat_ucast_32_64 split: if_splits)
  ultimately show ?thesis using writeRound_credit by (auto simp: mux_inv_def)
qed

subsection \<open>Stream IDs\<close>

lemma unat_local_id:
  assumes "k < 2 ^ 31 - 1"
  shows "unat (firstID m + 2 * of_nat k) = unat (firstID m) + 2 * k"
proof -
  have f: "unat (firstID m) \<le> 2" by (simp add: firstID_def)
  have e: "firstID m + 2 * of_nat k = of_nat (unat (firstID m) + 2 * k)" by simp
  show ?thesis
    unfolding e by (rule unat_of_nat_small) (use f assms in simp)
qed

text \<open>
  Until an end has opened 2^31 - 1 streams itself, the IDs it allocates are pairwise
  different, never 0, and the next one is not the ID of any stream of the session, opened by
  either end: the parities keep both ends' IDs apart without coordination.
\<close>

theorem stream_ids_unique:
  assumes "mux_reachable m" and few: "length (local_ids m) < 2 ^ 31 - 1"
  shows "distinct (local_ids m) \<and> 0 \<notin> set (local_ids m) \<and> mNextID m \<noteq> 0
         \<and> mNextID m \<notin> sID ` set (mHeap m)"
proof -
  let ?n = "length (local_ids m)"
  have inv: "mux_inv m" by (rule reachable_inv [OF assms(1)])
  then have l: "local_ids m = map (\<lambda>k. firstID m + 2 * of_nat k) [0..<?n]"
    and nx: "mNextID m = firstID m + 2 * of_nat ?n"
    and role: "mRole m = RoleInitiator \<or> mRole m = RoleResponder"
    by (simp_all add: mux_inv_def ids_ok_def static_ok_def)
  have pos: "0 < unat (firstID m)" by (simp add: firstID_def)
  have inj: "inj_on (\<lambda>k. firstID m + 2 * of_nat k) {0..<Suc ?n}"
  proof (rule inj_onI)
    fix i j assume ij: "i \<in> {0..<Suc ?n}" "j \<in> {0..<Suc ?n}"
      and eq: "firstID m + 2 * of_nat i = firstID m + 2 * of_nat j"
    show "i = j"
      using arg_cong [OF eq, of unat] ij few by (simp add: unat_local_id)
  qed
  have nz: "firstID m + 2 * of_nat k \<noteq> 0" if "k < Suc ?n" for k
    using unat_local_id [of k m] pos few that by (metis add_gr_0 less_Suc_eq_le order.strict_trans1 unat_0 less_numeral_extra(3))
  have d: "distinct (map (\<lambda>k. firstID m + 2 * of_nat k :: u32) [0..<Suc ?n])"
    unfolding distinct_map using inj by (simp del: upt_Suc)
  have fresh: "mNextID m \<notin> set (local_ids m)" and dl: "distinct (local_ids m)"
    using d l nx by simp_all
  have "0 \<notin> set (local_ids m)"
    by (subst l) (use nz in auto)
  moreover have "mNextID m \<notin> sID ` set (mHeap m)"
    using fresh not_peerOwns_local [OF role, of ?n] nx by (auto simp: local_ids_def)
  ultimately show ?thesis using nz [of ?n] dl nx by auto
qed

theorem stream_ids_unique_witness:
  "length (local_ids demo_served) < 2 ^ 31 - 1 \<and> mNextID demo_served \<notin> sID ` set (mHeap demo_served)"
proof -
  have "length (local_ids demo_served) \<le> length (mHeap demo_served)"
    unfolding local_ids_def by (rule order_trans [OF length_filter_le]) simp
  then have "length (local_ids demo_served) < 2 ^ 31 - 1"
    by (simp add: demo_served_eq)
  with stream_ids_unique [OF demo_served_reachable] show ?thesis by simp
qed

subsection \<open>Shutdown\<close>

definition woken :: "Stream \<Rightarrow> bool" where
  "woken s = (sRemoteClosed s \<and> sTerminalErr s \<noteq> None \<and> sAccepted s \<noteq> None)"

lemma woken_shutdownStream: "woken (shutdownStream e s)"
  by (simp add: woken_def shutdownStream_def remoteClose_def signalAccepted_def Let_def split: option.splits)

lemma woken_fold:
  "r < length (mHeap m) \<Longrightarrow> r \<in> set rs \<or> woken (mHeap m ! r) \<Longrightarrow>
     woken (mHeap (fold (\<lambda>r. updStream r (shutdownStream e)) rs m) ! r)"
proof (induction rs arbitrary: m)
  case (Cons a rs)
  have "r \<in> set rs \<or> woken (mHeap (updStream a (shutdownStream e) m) ! r)"
    using Cons.prems by (cases "r = a") (auto simp: woken_shutdownStream)
  then show ?case using Cons.IH [of "updStream a (shutdownStream e) m"] Cons.prems(1) by simp
qed simp

lemma woken_not_waiting:
  assumes "woken s"
  shows "fst (Stream_Read s n) \<noteq> ReadWait" "fst (Stream_writeChunk s p) \<noteq> WriteWait"
  using assms by (auto simp: woken_def Stream_Read_def Stream_writeChunk_def Let_def split: option.splits)

text \<open>
  Shutdown wakes everybody: the first \<open>shutdown\<close> records its error and empties the table, and
  on every stream that was in it no reader, writer or opener waits any longer; every later
  \<open>Open\<close> of a valid service fails with the recorded error, and a second shutdown changes nothing.
\<close>

theorem shutdown_wakes_all:
  assumes "mux_reachable m" "\<not> mDone m" and m'_def: "m' = shutdown (Some e) m"
  shows "mErr m' = Some e \<and> mStreams m' = [] \<and> shutdown e2 m' = m'
         \<and> (ServiceID_Valid svc \<longrightarrow> Mux_Open svc md m' = (Inl e, m'))
         \<and> (lookupStream sid m = Some r \<longrightarrow>
              fst (Stream_Read (mHeap m' ! r) n) \<noteq> ReadWait
              \<and> fst (Stream_writeChunk (mHeap m' ! r) p) \<noteq> WriteWait
              \<and> Open_wait CaseReady r m' \<noteq> None)"
proof -
  have inv: "mux_inv m" by (rule reachable_inv [OF assms(1)])
  have err: "mErr m' = Some e" "mStreams m' = []" "shutdown e2 m' = m'"
    using assms(2) by (simp_all add: m'_def shutdown_again) (simp_all add: shutdown_def Let_def)
  have "woken (mHeap m' ! r)" if "lookupStream sid m = Some r"
  proof -
    have "r \<in> snd ` set (mStreams m)"
      using that by (force simp: lookupStream_def dest: map_of_SomeD)
    moreover have "r < length (mHeap m)" by (rule lookupStream_ref(1) [OF inv that])
    ultimately show ?thesis
      using assms(2) unfolding m'_def shutdown_def Let_def by (simp add: woken_fold)
  qed
  moreover have "Open_wait CaseReady r m' \<noteq> None" if "woken (mHeap m' ! r)"
    using that by (auto simp: woken_def Open_wait_def Let_def split: prod.splits option.splits)
  ultimately show ?thesis
    using err by (auto simp: Mux_Open_def newLocalStream_def woken_not_waiting)
qed

theorem shutdown_wakes_all_witness:
  "lookupStream 1 demo_served = Some 0
   \<and> fst (Stream_Read (mHeap (shutdown (Some ErrEOF) demo_served) ! 0) 5) \<noteq> ReadWait"
  using shutdown_wakes_all [OF demo_served_reachable demo_served_eq(4) refl, of ErrEOF None ServiceTCP "[]" 1 0 5 "[]"]
  by (simp add: demo_served_eq lookupStream_def)

subsection \<open>Isolation of streams\<close>

lemma lookup_removeStream [simp]:
  "lookupStream sid (removeStream i m) = (if sid = i then None else lookupStream sid m)"
  by (simp add: lookupStream_def delete_conv')

lemma lookup_frame [simp]:
  "lookupStream sid (updStream r f m) = lookupStream sid m"
  "lookupStream sid (m\<lparr>mOutgoing := q\<rparr>) = lookupStream sid m"
  "lookupStream sid (m\<lparr>mIncoming := rs\<rparr>) = lookupStream sid m"
  "lookupStream sid (sendIgnore fr m) = lookupStream sid m"
  by (simp_all add: lookupStream_def sendIgnore_eq)

lemma lookup_addStream [simp]:
  "lookupStream sid (snd (addStream i svc md a m)) =
     (if sid = i then Some (length (mHeap m)) else lookupStream sid m)"
  by (simp add: lookupStream_def update_conv')

lemma sendIgnore_heap [simp]: "mHeap (sendIgnore f m) = mHeap m"
  by (simp add: sendIgnore_eq)

definition untouched :: "u32 \<Rightarrow> nat \<Rightarrow> Mux \<Rightarrow> Mux \<Rightarrow> bool" where
  "untouched sid r m m' =
     (lookupStream sid m' = lookupStream sid m \<and> mHeap m' ! r = mHeap m ! r)"

lemma untouched_trans: "untouched sid r a b \<Longrightarrow> untouched sid r b c \<Longrightarrow> untouched sid r a c"
  by (simp add: untouched_def)

lemma untouched_sendInitialWindow:
  "sendInitialWindow r' True m = (e, m') \<Longrightarrow> r \<noteq> r' \<Longrightarrow> untouched sid r m m'"
  by (auto simp: sendInitialWindow_def asyncReply_eq untouched_def Let_def split: sum.splits if_splits)

lemma untouched_admitStream:
  assumes h: "admitStream r' i svc m = (e, m')" and ne: "r \<noteq> r'" "sid \<noteq> i"
  shows "untouched sid r m m'"
proof (cases "mIncomingCap m \<le> length (mIncoming m) \<or> mDone m")
  case True
  with h ne show ?thesis
    by (auto simp: admitStream_def asyncReply_eq untouched_def dropStream_def split: if_splits)
next
  case False
  let ?m2 = "m\<lparr>mOutgoing := mOutgoing m @ [mkFrame FrameAccept i svc []]\<rparr>"
  obtain e3 m3 where w: "sendInitialWindow r' True ?m2 = (e3, m3)" by fastforce
  have "untouched sid r ?m2 m3" by (rule untouched_sendInitialWindow [OF w ne(1)])
  with h False w ne show ?thesis
    by (auto simp: admitStream_def asyncReply_eq untouched_def dropStream_def Let_def
        split: option.splits if_splits)
qed

lemma untouched_handleOpen:
  assumes h: "handleOpen f m = (e, m')" and ne: "r < length (mHeap m)" "sid \<noteq> fStreamID f"
  shows "untouched sid r m m'"
proof -
  let ?m1 = "snd (addStream (fStreamID f) (fService f) (fPayload f) True m)"
  have "untouched sid r m ?m1"
    using ne by (simp add: untouched_def nth_append)
  then have "untouched sid r m m'"
    if "admitStream (length (mHeap m)) (fStreamID f) (fService f) ?m1 = (e, m')"
    using untouched_admitStream [OF that _ ne(2), of r] ne(1) untouched_trans by blast
  with h show ?thesis
    by (auto simp: handleOpen_def Let_def split_beta asyncReply_eq untouched_def split: if_splits option.splits)
qed

lemma untouched_handleFrame:
  assumes inv: "mux_inv m" and h: "handleFrame f m = (e, m')"
    and l: "lookupStream sid m = Some r" and ne: "sid \<noteq> fStreamID f"
  shows "untouched sid r m m'"
proof (cases "fType f = FrameOpen")
  case True
  with h untouched_handleOpen [OF _ lookupStream_ref(1) [OF inv l] ne] show ?thesis
    by (simp add: handleFrame_def)
next
  case False
  have r: "r \<noteq> r' \<and> sID (mHeap m ! r') = fStreamID f \<and> r' < length (mHeap m)"
    if "lookupStream (fStreamID f) m = Some r'" for r'
    using lookupStream_ref [OF inv l] lookupStream_ref [OF inv that] ne by auto
  have sh: "sID (shutdownStream x s) = sID s" "sID (remoteClose y s) = sID s" for x y s
    using keeps_shutdownStream [of s x] keeps_remoteClose [of s y] by (simp_all add: stream_keeps_def)
  show ?thesis
  proof (cases "lookupStream (fStreamID f) m")
    case None
    with h False show ?thesis
      by (auto simp: handleFrame_def Let_def asyncReply_eq untouched_def split: if_splits)
  next
    case (Some r')
    note facts = r [OF Some]
    from Some h False facts ne show ?thesis
      by (auto simp: handleFrame_def Let_def asyncReply_eq untouched_def resetStream_def
          maybeRemove_def sh split: if_splits sum.splits)
  qed
qed

text \<open>
  C8: A frame only touches its own stream: handling a frame for another stream ID, of any type
  and in any reachable state, leaves a stream in the table and its whole state as it is. In
  particular resetting or closing one stream does not disturb the others.
\<close>

theorem frames_isolated:
  assumes "mux_reachable m" "handleFrame f m = (e, m')"
    and "lookupStream sid m = Some r" "sid \<noteq> fStreamID f"
  shows "lookupStream sid m' = Some r \<and> mHeap m' ! r = mHeap m ! r"
  using untouched_handleFrame [OF reachable_inv [OF assms(1)] assms(2-4)] assms(3)
  by (simp add: untouched_def)

theorem frames_isolated_witness:
  "lookupStream 1 (snd (handleFrame (mkFrame FrameData 3 ServiceTCP [1]) demo_served)) = Some 0"
proof -
  have "lookupStream 1 demo_served = Some 0" by (simp add: demo_served_eq lookupStream_def)
  then show ?thesis
    using frames_isolated [OF demo_served_reachable prod.collapse [symmetric], of 1 0
        "mkFrame FrameData 3 ServiceTCP [1]"] by simp
qed

subsection \<open>Accepting a stream\<close>

lemma handleOpen_served:
  assumes inv: "mux_inv m" and "\<not> mDone m" "ServiceID_Valid (fService f)" "mAllowed m (fService f)"
    and "peerOwns m (fStreamID f)" "lookupStream (fStreamID f) m = None"
    and "length (mIncoming m) < mIncomingCap m"
  shows "\<exists>m' s. handleOpen f m = (None, m') \<and> mHeap m' = mHeap m @ [s]
     \<and> lookupStream (fStreamID f) m' = Some (length (mHeap m))
     \<and> mIncoming m' = mIncoming m @ [length (mHeap m)]
     \<and> sID s = fStreamID f \<and> sService s = fService f \<and> sMetadata s = fPayload f \<and> sIsOpen s
     \<and> sWindowAdvertised s \<and> sRecvCredit s = ucast (mInitialWindow m)
     \<and> \<not> sLocalClosed s \<and> sTerminalErr s = None \<and> \<not> sPeerWindowSet s
     \<and> \<not> mDone m' \<and> mConn m' = mConn m \<and> mCodec m' = mCodec m
     \<and> mOutgoing m' = mOutgoing m @
         [mkFrame FrameAccept (fStreamID f) (fService f) [],
          mkFrame FrameWindow (fStreamID f) (fService f) (put_uint32 (mInitialWindow m))]"
proof -
  have err: "mErr m = None" using inv assms(2) by (simp add: mux_inv_def)
  have w: "mInitialWindow m \<noteq> 0"
    using inv by (auto simp: mux_inv_def static_ok_def limits_from_New_def)
  show ?thesis
    using assms(2-7) err w ucast_u32_u64 [of "mInitialWindow m"]
    by (simp add: handleOpen_def admitStream_def addStream_def asyncReply_eq sendInitialWindow_def
        initializeReceiveWindow_def newStream_def encodeWindowCredit_def updStream_def markAccepted_def
        lookupStream_def update_conv' Let_def)
qed

text \<open>
  An OPEN the multiplexer can serve is served: with an allowed service, an ID of the peer's
  parity that is not in use and room in the backlog, the stream appears in the table and in the
  backlog with the frame's service and metadata and one window of receive credit, and exactly an
  ACCEPT and a WINDOW announcing that credit are queued.
\<close>

theorem open_served:
  assumes "mux_reachable m" "\<not> mDone m" "ServiceID_Valid (fService f)" "mAllowed m (fService f)"
    and "peerOwns m (fStreamID f)" "lookupStream (fStreamID f) m = None"
    and "length (mIncoming m) < mIncomingCap m"
  shows "\<exists>m' s. handleOpen f m = (None, m') \<and> mHeap m' = mHeap m @ [s]
     \<and> lookupStream (fStreamID f) m' = Some (length (mHeap m))
     \<and> mIncoming m' = mIncoming m @ [length (mHeap m)]
     \<and> sID s = fStreamID f \<and> sService s = fService f \<and> sMetadata s = fPayload f \<and> sIsOpen s
     \<and> sWindowAdvertised s \<and> sRecvCredit s = ucast (mInitialWindow m)
     \<and> mOutgoing m' = mOutgoing m @
         [mkFrame FrameAccept (fStreamID f) (fService f) [],
          mkFrame FrameWindow (fStreamID f) (fService f) (put_uint32 (mInitialWindow m))]"
  using handleOpen_served [OF reachable_inv [OF assms(1)] assms(2-7)] by blast

theorem open_served_witness:
  "\<exists>m'. handleOpen (mkFrame FrameOpen 3 ServiceFS [9]) demo_served = (None, m')
     \<and> lookupStream 3 m' = Some 1 \<and> mIncoming m' = [0, 1]"
proof -
  have "mAllowed demo_served ServiceFS" "mRole demo_served = RoleResponder"
    by (simp_all add: demo_served_def demo_OPEN_def handleOpen_def demo_mux_def
      ServiceID_Valid_def defaultServices_def peerOwns_def lookupStream_def addStream_def
      admitStream_def asyncReply_eq sendInitialWindow_def newStream_def initializeReceiveWindow_def
      encodeWindowCredit_def updStream_def markAccepted_def Let_def)
  then show ?thesis
    using open_served [OF demo_served_reachable demo_served_eq(4), of "mkFrame FrameOpen 3 ServiceFS [9]"]
    by (force simp: demo_served_eq ServiceID_Valid_def peerOwns_def lookupStream_def)
qed

subsection \<open>The frames an end sends\<close>

definition wire_ok :: "Mux \<Rightarrow> bool" where
  "wire_ok m =
     (4 \<le> unat (maxPayload (mCodec m)) \<and> (\<forall>f \<in> set (mOutgoing m). checkWriteFrame (mCodec m) f = None)
      \<and> (\<forall>s \<in> set (mHeap m). sID s \<noteq> 0))"

lemma check_mkFrame:
  "sid \<noteq> 0 \<Longrightarrow> checkWriteFrame c (mkFrame FrameReset sid svc []) = None"
  "sid \<noteq> 0 \<Longrightarrow> checkWriteFrame c (mkFrame FrameAccept sid svc []) = None"
  "sid \<noteq> 0 \<Longrightarrow> checkWriteFrame c (mkFrame FrameClose sid svc []) = None"
  "sid \<noteq> 0 \<Longrightarrow> 4 \<le> unat (maxPayload c) \<Longrightarrow> length p = 4 \<Longrightarrow>
     checkWriteFrame c (mkFrame FrameWindow sid svc p) = None"
  "length p \<le> unat (maxPayload c) \<Longrightarrow> checkWriteFrame c (mkFrame FramePong sid svc p) = None"
  "sid \<noteq> 0 \<Longrightarrow> length p \<le> unat (maxPayload c) \<Longrightarrow> checkWriteFrame c (mkFrame FrameData sid svc p) = None"
  "sid \<noteq> 0 \<Longrightarrow> length p \<le> unat (maxPayload c) \<Longrightarrow> ServiceID_Valid svc \<Longrightarrow>
     checkWriteFrame c (mkFrame FrameOpen sid svc p) = None"
  by (simp_all add: checkWriteFrame_def FrameType_valid_def validateFramePayloadLength_def)

lemma wire_ok_updStream:
  "wire_ok m \<Longrightarrow> (r < length (mHeap m) \<Longrightarrow> stream_keeps (mHeap m ! r) (f (mHeap m ! r))) \<Longrightarrow>
     wire_ok (updStream r f m)"
  by (cases "r < length (mHeap m)")
     (auto simp: wire_ok_def updStream_def stream_keeps_def list_update_beyond
       dest!: set_update_subset_insert [THEN subsetD])

lemma wire_ok_removeStream [simp]: "wire_ok (removeStream i m) = wire_ok m"
  by (simp add: wire_ok_def)

lemma wire_ok_incoming [simp]: "wire_ok (m\<lparr>mIncoming := q\<rparr>) = wire_ok m"
  by (simp add: wire_ok_def)

lemma wire_ok_addStream: "wire_ok m \<Longrightarrow> sid \<noteq> 0 \<Longrightarrow> wire_ok (snd (addStream sid svc md a m))"
  by (simp add: wire_ok_def)

lemma wire_ok_enqueue:
  "wire_ok m \<Longrightarrow> checkWriteFrame (mCodec m) f = None \<Longrightarrow> wire_ok (m\<lparr>mOutgoing := mOutgoing m @ [f]\<rparr>)"
  by (simp add: wire_ok_def)

lemma wire_ok_fold_updStream:
  "wire_ok m \<Longrightarrow> (\<And>s. stream_keeps s (f s)) \<Longrightarrow> wire_ok (fold (\<lambda>r. updStream r f) rs m)"
  by (induction rs arbitrary: m) (simp_all add: wire_ok_updStream)

lemma wire_ok_shutdown: "wire_ok m \<Longrightarrow> wire_ok (shutdown e m)"
  by (auto simp: shutdown_def Let_def keeps intro!: wire_ok_fold_updStream) (simp_all add: wire_ok_def)

lemma wire_ok_writerStep: "wire_ok m \<Longrightarrow> wire_ok (writerStep m)"
proof -
  assume "wire_ok m"
  then have "wire_ok (m\<lparr>mConn := w, mOutgoing := fs\<rparr>)" if "mOutgoing m = f # fs" for w f fs
    using that by (simp add: wire_ok_def)
  then show ?thesis
    using \<open>wire_ok m\<close> by (auto simp: writerStep_def wire_ok_shutdown split: list.splits prod.splits option.splits)
qed

lemma wire_ok_asyncReply:
  "asyncReply f m = (e, m') \<Longrightarrow> wire_ok m \<Longrightarrow> checkWriteFrame (mCodec m) f = None \<Longrightarrow> wire_ok m'"
  by (auto simp: asyncReply_eq wire_ok_enqueue split: if_splits)

lemma wire_ok_sendIgnore:
  "wire_ok m \<Longrightarrow> checkWriteFrame (mCodec m) f = None \<Longrightarrow> wire_ok (sendIgnore f m)"
  by (simp add: sendIgnore_eq wire_ok_enqueue)

lemma wire_ok_send:
  assumes "send f m = (e, m')" "wire_ok m" "checkWriteFrame (mCodec m) f = None"
  shows "wire_ok m'"
proof -
  have "wire_ok (writerLoop (m\<lparr>mOutgoing := mOutgoing m @ [f]\<rparr>))"
    unfolding writerLoop_def
    by (rule funpow_inv [of wire_ok]) (simp_all add: wire_ok_enqueue assms wire_ok_writerStep)
  with assms show ?thesis by (auto simp: send_def sendAsync_def Let_def split: if_splits)
qed

lemma wire_ok_dropStream: "wire_ok m \<Longrightarrow> wire_ok (dropStream r e sid m)"
  by (simp add: dropStream_def wire_ok_updStream keeps)

lemma wire_ok_nth: "wire_ok m \<Longrightarrow> r < length (mHeap m) \<Longrightarrow> sID (mHeap m ! r) \<noteq> 0"
  by (simp add: wire_ok_def)

lemma wire_ok_resetStream:
  assumes "wire_ok m" "r < length (mHeap m)"
  shows "wire_ok (resetStream r e m)"
proof -
  have up: "wire_ok (updStream r (shutdownStream x) m)" for x
    using assms by (simp add: wire_ok_updStream keeps)
  then have "sID (shutdownStream x (mHeap m ! r)) \<noteq> 0" for x
    using wire_ok_nth [OF up, of r] assms(2) by simp
  then show ?thesis
    using up assms(2) by (simp add: resetStream_def Let_def wire_ok_sendIgnore check_mkFrame)
qed

lemma wire_ok_sendInitialWindow:
  assumes "wire_ok m" "r < length (mHeap m)" "sendInitialWindow r async m = (e, m')"
  shows "wire_ok m'"
proof (cases "initializeReceiveWindow (mHeap m ! r)")
  case (Inr p)
  obtain c s' where p: "p = (c, s')" by (cases p)
  let ?m1 = "updStream r (\<lambda>_. s') m"
  have m1: "wire_ok ?m1"
    using assms(1) keeps_initializeReceiveWindow [OF Inr [unfolded p]] by (simp add: wire_ok_updStream)
  have "checkWriteFrame (mCodec ?m1) (mkFrame FrameWindow (sID s') (sService s') b) = None"
    if "encodeWindowCredit c = Inr b" for b
    using wire_ok_nth [OF m1, of r] assms(1,2) encodeWindowCredit_length [OF that]
    by (intro check_mkFrame) (simp_all add: wire_ok_def)
  with assms(3) Inr p m1 show ?thesis
    by (auto simp: sendInitialWindow_def Let_def split: sum.splits if_splits
        dest!: wire_ok_asyncReply wire_ok_send)
qed (use assms in \<open>auto simp: sendInitialWindow_def\<close>)

lemma wire_ok_admitStream:
  assumes w: "wire_ok m" and r: "r < length (mHeap m)" and sid: "sid \<noteq> 0"
    and h: "admitStream r sid svc m = (e, m')"
  shows "wire_ok m'"
proof (cases "mIncomingCap m \<le> length (mIncoming m)")
  case True
  then have "asyncReply (mkFrame FrameReset sid svc []) (dropStream r ErrIncomingBacklog sid m) = (e, m')"
    using h by (simp add: admitStream_def)
  from wire_ok_asyncReply [OF this wire_ok_dropStream [OF w] check_mkFrame(1) [OF sid]] show ?thesis .
next
  case room: False
  obtain e2 m2 where acc: "asyncReply (mkFrame FrameAccept sid svc []) m = (e2, m2)" by fastforce
  have m2: "wire_ok m2" "length (mHeap m2) = length (mHeap m)"
    using wire_ok_asyncReply [OF acc w check_mkFrame(2) [OF sid]] acc
    by (auto simp: asyncReply_eq split: if_splits)
  obtain e3 m3 where win: "sendInitialWindow r True m2 = (e3, m3)" by fastforce
  have m3: "wire_ok m3"
    using wire_ok_sendInitialWindow [OF m2(1) _ win] r m2(2) by simp
  have m4: "wire_ok (updStream r markAccepted m3)"
    using m3 by (simp add: wire_ok_updStream keeps)
  show ?thesis
    using h room wire_ok_dropStream [OF m2(1)] wire_ok_dropStream [OF m3] wire_ok_dropStream [OF m4] m4
    by (auto simp: admitStream_def acc win Let_def split: option.splits if_splits)
qed

lemma wire_ok_handleOpen:
  assumes w: "wire_ok m" and sid: "fStreamID f \<noteq> 0" and h: "handleOpen f m = (e, m')"
  shows "wire_ok m'"
proof -
  let ?m1 = "snd (addStream (fStreamID f) (fService f) (fPayload f) True m)"
  have "wire_ok ?m1" by (rule wire_ok_addStream [OF w sid])
  then have "wire_ok m'" if "admitStream (length (mHeap m)) (fStreamID f) (fService f) ?m1 = (e, m')"
    using wire_ok_admitStream [OF _ _ sid that] by simp
  with h w sid show ?thesis
    by (auto simp: handleOpen_def Let_def split_beta check_mkFrame split: if_splits option.splits
        dest!: wire_ok_asyncReply)
qed

lemma wire_ok_handleFrame:
  assumes w: "wire_ok m" and inv: "mux_inv m" and f: "frame_wf (mCodec m) f" and h: "handleFrame f m = (e, m')"
  shows "wire_ok m'"
proof -
  have sid: "fStreamID f \<noteq> 0" if "fType f \<noteq> FramePing" "fType f \<noteq> FramePong"
    using f that by (auto simp: frame_wf_def)
  have len: "length (fPayload f) \<le> unat (maxPayload (mCodec m))"
    using f by (simp add: frame_wf_def)
  show ?thesis
  proof (cases "fType f = FrameOpen")
    case True
    with h sid wire_ok_handleOpen [OF w] show ?thesis by (simp add: handleFrame_def)
  next
    case False
    have rst: "wire_ok (resetStream r x m)" if "lookupStream (fStreamID f) m = Some r" for r x
      by (rule wire_ok_resetStream [OF w lookupStream_ref(1) [OF inv that]])
    have [simp]: "wire_ok (updStream r (\<lambda>_. s') m)" if "stream_keeps (mHeap m ! r) s'" for r s'
      using that w by (simp add: wire_ok_updStream)
    have [simp]: "wire_ok (updStream r (signalAccepted None) m)" "wire_ok (updStream r (remoteClose None) m)"
      "wire_ok (updStream r (shutdownStream x) m)" for r x
      using w by (simp_all add: wire_ok_updStream keeps)
    from h False w sid len show ?thesis
      by (auto simp: handleFrame_def Let_def rst keeps maybeRemove_def check_mkFrame wire_ok_sendIgnore
          dest!: wire_ok_asyncReply split: if_splits option.splits sum.splits)
  qed
qed

lemma wire_ok_readStep:
  "wire_ok m \<Longrightarrow> mux_inv m \<Longrightarrow> readStep bs m = (res, m') \<Longrightarrow> wire_ok m'"
  by (auto simp: readStep_def split: sum.splits prod.splits option.splits
      dest!: ReadFrame_wf(1) intro!: wire_ok_shutdown intro: wire_ok_handleFrame)

lemma wire_ok_Open_wait:
  assumes w: "wire_ok m" and r: "r < length (mHeap m)" and h: "Open_wait ev r m = Some (res, m')"
  shows "wire_ok m'"
proof -
  have acc: "wire_ok (updStream r markAccepted m)" using w by (simp add: wire_ok_updStream keeps)
  obtain e m2 where win: "sendInitialWindow r False (updStream r markAccepted m) = (e, m2)" by fastforce
  have "wire_ok m2" using wire_ok_sendInitialWindow [OF acc _ win] r by simp
  with w h win wire_ok_nth [OF w r] show ?thesis
    by (auto simp: Open_wait_def Let_def wire_ok_dropStream wire_ok_sendIgnore check_mkFrame
        split: select_case.splits option.splits if_splits)
qed

lemma wire_ok_Read:
  assumes w: "wire_ok m" and r: "r < length (mHeap m)" and h: "Mux_Read r n m = (res, m')"
  shows "wire_ok m'"
proof -
  obtain x s' where rd: "Stream_Read (mHeap m ! r) n = (x, s')" by fastforce
  have up: "wire_ok (updStream r (\<lambda>_. s') m)"
    using w keeps_Read [OF rd] by (simp add: wire_ok_updStream)
  have "checkWriteFrame (mCodec m) (mkFrame FrameWindow (sID s') (sService s') b) = None"
    if "encodeWindowCredit g = Inr b" for b g
    using wire_ok_nth [OF up, of r] w r encodeWindowCredit_length [OF that]
    by (intro check_mkFrame) (simp_all add: wire_ok_def)
  with w h rd up show ?thesis
    by (auto simp: Mux_Read_def Let_def split: read_result.splits if_splits sum.splits prod.splits
        dest!: wire_ok_asyncReply)
qed

lemma wire_ok_writeRound:
  assumes w: "wire_ok m" and inv: "mux_inv m" and r: "r < length (mHeap m)"
    and h: "Mux_writeRound r p m = (res, m')"
  shows "wire_ok m'"
proof -
  obtain x s' where wc: "Stream_writeChunk (mHeap m ! r) p = (x, s')" by fastforce
  have up: "wire_ok (updStream r (\<lambda>_. s') m)"
    using w keeps_writeChunk [OF wc] by (simp add: wire_ok_updStream)
  have "checkWriteFrame (mCodec m) (mkFrame FrameData (sID s') (sService s') c) = None" if "x = WriteChunk c" for c
  proof (rule check_mkFrame)
    have "length c \<le> unat (sMaxDataPayload (mHeap m ! r))"
      by (rule writeChunk_credit(3) [OF wc [unfolded that]])
    also have "\<dots> \<le> unat (maxPayload (mCodec m))"
      using inv r nth_mem [OF r]
      by (auto simp: mux_inv_def static_ok_def stream_fits_def word_le_nat_alt)
    finally show "length c \<le> unat (maxPayload (mCodec m))" .
    show "sID s' \<noteq> 0" using wire_ok_nth [OF up, of r] r by simp
  qed
  with w h wc up show ?thesis
    by (auto simp: Mux_writeRound_def split: write_result.splits prod.splits dest!: wire_ok_send)
qed

lemma wire_ok_CloseStream:
  assumes w: "wire_ok m" and r: "r < length (mHeap m)" and h: "Mux_CloseStream r m = (res, m')"
  shows "wire_ok m'"
proof (cases "Stream_closeLocal (mHeap m ! r)")
  case (Some s')
  have up: "wire_ok (updStream r (\<lambda>_. s') m)"
    using w keeps_closeLocal [OF Some] by (simp add: wire_ok_updStream)
  have "sID s' \<noteq> 0" using wire_ok_nth [OF up, of r] r by simp
  with up w h Some show ?thesis
    by (auto simp: Mux_CloseStream_def maybeRemove_def check_mkFrame split: prod.splits
        dest!: wire_ok_send)
qed (use w h in \<open>simp add: Mux_CloseStream_def\<close>)

lemma wire_ok_ResetStream:
  assumes w: "wire_ok m" and r: "r < length (mHeap m)" and h: "Mux_ResetStream r m = (res, m')"
  shows "wire_ok m'"
proof (cases "Stream_resetLocal (mHeap m ! r)")
  case (Some s')
  have up: "wire_ok (updStream r (\<lambda>_. s') m)"
    using w keeps_resetLocal [OF Some] by (simp add: wire_ok_updStream)
  have "sID s' \<noteq> 0" using wire_ok_nth [OF up, of r] r by simp
  with up w h Some show ?thesis
    by (auto simp: Mux_ResetStream_def check_mkFrame split: prod.splits dest!: wire_ok_asyncReply)
qed (use w h in \<open>simp add: Mux_ResetStream_def\<close>)

lemma wire_ok_Accept: "wire_ok m \<Longrightarrow> Mux_Accept ev m = Some (res, m') \<Longrightarrow> wire_ok m'"
  by (auto simp: Mux_Accept_def split: select_case.splits list.splits if_splits)

lemma wire_ok_step: "mux_step m m' \<Longrightarrow> mux_inv m \<Longrightarrow> wire_ok m \<Longrightarrow> wire_ok m'"
  by (induction rule: mux_step.induct)
     (auto simp: Mux_Close_def wire_ok_shutdown wire_ok_writerStep
       dest: wire_ok_readStep wire_ok_Open_wait wire_ok_Accept wire_ok_Read
         wire_ok_writeRound wire_ok_CloseStream wire_ok_ResetStream)

lemma wire_ok_Open:
  assumes w: "wire_ok m" and nz: "mNextID m \<noteq> 0" and md: "length md \<le> unat (maxPayload (mCodec m))"
    and h: "Mux_Open svc md m = (res, m')"
  shows "wire_ok m'"
proof (cases "newLocalStream svc m")
  case (Inr p)
  obtain r m1 where p: "p = (r, m1)" by (cases p)
  note n = newLocalStream_Inr [OF Inr [unfolded p]]
  have m1: "wire_ok m1"
    using wire_ok_addStream [of "m\<lparr>mNextID := mNextID m + 2\<rparr>"] w nz by (simp add: n(3) wire_ok_def)
  have sid: "sID (mHeap m1 ! r) = mNextID m" and c: "mCodec m1 = mCodec m"
    by (simp_all add: n)
  show ?thesis
    using h w m1 Inr p sid c nz md
    by (auto simp: Mux_Open_def check_mkFrame split: if_splits option.splits prod.splits
        dest!: wire_ok_send)
qed (use w h in \<open>auto simp: Mux_Open_def split: if_splits\<close>)

text \<open>
  Runs in which the codec can carry a WINDOW frame and \<open>Open\<close> is called only with metadata the
  codec can carry and before the IDs run out.
\<close>

inductive tidy_reachable :: "Mux \<Rightarrow> bool" where
  tidy_start: "New transport config = Inr m \<Longrightarrow> 4 \<le> unat (maxPayload (cCodec config)) \<Longrightarrow> tidy_reachable m"
| tidy_step: "tidy_reachable m \<Longrightarrow> mux_step m m' \<Longrightarrow> tidy_reachable m'"
| tidy_open: "tidy_reachable m \<Longrightarrow> mNextID m \<noteq> 0 \<Longrightarrow> length md \<le> unat (maxPayload (mCodec m)) \<Longrightarrow>
    Mux_Open svc md m = (res, m') \<Longrightarrow> tidy_reachable m'"

lemma tidy_inv: "tidy_reachable m \<Longrightarrow> mux_inv m \<and> wire_ok m"
proof (induction rule: tidy_reachable.induct)
  case (tidy_start transport config m)
  then show ?case
    using New_Inr [OF tidy_start(1)] mux_inv_New by (auto simp: wire_ok_def)
qed (auto dest: mux_inv_step wire_ok_step mux_inv_Open wire_ok_Open)

text \<open>A transport that takes every write.\<close>

lemma WriteFrame_healthy:
  "cnScript w = [] \<Longrightarrow> checkWriteFrame c f = None \<Longrightarrow>
     WriteFrame c w f = (None, w\<lparr>cnOut := cnOut w @ frameBytes f\<rparr>)"
  by (simp add: WriteFrame_def writeFull_empty_script frameBytes_def)

lemma writer_rounds:
  "mOutgoing m = q \<Longrightarrow> \<not> mDone m \<Longrightarrow> cnScript (mConn m) = [] \<Longrightarrow>
     \<forall>f \<in> set q. checkWriteFrame (mCodec m) f = None \<Longrightarrow>
     (writerStep ^^ length q) m =
       m\<lparr>mConn := (mConn m)\<lparr>cnOut := cnOut (mConn m) @ concat (map frameBytes q)\<rparr>, mOutgoing := []\<rparr>"
proof (induction q arbitrary: m)
  case (Cons f q)
  let ?m = "m\<lparr>mConn := (mConn m)\<lparr>cnOut := cnOut (mConn m) @ frameBytes f\<rparr>, mOutgoing := q\<rparr>"
  have "writerStep m = ?m"
    using Cons.prems by (simp add: writerStep_def WriteFrame_healthy)
  then have "(writerStep ^^ length (f # q)) m = (writerStep ^^ length q) ?m"
    by (simp add: funpow_Suc_right del: funpow.simps)
  with Cons.IH [of ?m] Cons.prems show ?case by simp
qed simp

text \<open>
  In such a run the writer never rejects a frame the multiplexer itself queued: as long as
  the transport takes the bytes, the writer loop empties the queue without shutting the session
  down, and the transport receives the encodings of exactly the queued frames in their order.
\<close>

theorem writer_sends_queue:
  assumes "tidy_reachable m" "\<not> mDone m" "cnScript (mConn m) = []"
  shows "\<not> mDone (writerLoop m) \<and> mOutgoing (writerLoop m) = []
         \<and> cnOut (mConn (writerLoop m)) = cnOut (mConn m) @ concat (map frameBytes (mOutgoing m))"
proof -
  have "\<forall>f \<in> set (mOutgoing m). checkWriteFrame (mCodec m) f = None"
    using tidy_inv [OF assms(1)] by (simp add: wire_ok_def)
  from writer_rounds [OF refl assms(2,3) this] show ?thesis
    using assms(2) by (simp add: writerLoop_def)
qed

lemma demo_served_tidy: "tidy_reachable demo_served"
proof (rule tidy_reachable.tidy_step)
  show "tidy_reachable (demo_mux RoleResponder)"
    by (rule tidy_reachable.tidy_start [OF demo_New]) (simp_all add: demo_config_def maxPayload_def)
  show "mux_step (demo_mux RoleResponder) demo_served" by (rule demo_served_step)
qed

theorem writer_sends_queue_witness:
  "cnOut (mConn (writerLoop demo_served)) =
     frameBytes (mkFrame FrameAccept 1 ServiceTCP [])
     @ frameBytes (mkFrame FrameWindow 1 ServiceTCP (put_uint32 262144))"
  using writer_sends_queue [OF demo_served_tidy demo_served_eq(4)] by (simp add: demo_served_eq)

subsection \<open>What an \<open>Open\<close> can break\<close>

definition healthy :: "Mux \<Rightarrow> bool" where
  "healthy m = (\<not> mDone m \<and> mOutgoing m = [] \<and> cnScript (mConn m) = [])"

lemma send_healthy:
  "healthy m \<Longrightarrow> checkWriteFrame (mCodec m) f = None \<Longrightarrow>
     send f m = (None, m\<lparr>mConn := (mConn m)\<lparr>cnOut := cnOut (mConn m) @ frameBytes f\<rparr>\<rparr>)"
  using writer_rounds [of "m\<lparr>mOutgoing := [f]\<rparr>" "[f]"]
  by (simp add: healthy_def send_def sendAsync_def writerLoop_def Let_def)

lemma send_rejected:
  "\<not> mDone m \<Longrightarrow> mOutgoing m = [] \<Longrightarrow> checkWriteFrame (mCodec m) f = Some e \<Longrightarrow>
     \<exists>m'. send f m = (Some e, m') \<and> mDone m' \<and> mErr m' = Some e"
  by (simp add: send_def sendAsync_def writerLoop_def writerStep_def WriteFrame_def Let_def closeErr_def
      shutdown_err)

lemma Open_healthy:
  assumes "healthy m" "mErr m = None" "mNextID m \<noteq> 0" "ServiceID_Valid svc"
  shows "healthy (snd (Mux_Open svc [] m))" "mErr (snd (Mux_Open svc [] m)) = None"
    "mNextID (snd (Mux_Open svc [] m)) = mNextID m + 2"
proof -
  let ?m1 = "snd (addStream (mNextID m) svc [] False (m\<lparr>mNextID := mNextID m + 2\<rparr>))"
  have n: "newLocalStream svc m = Inr (length (mHeap m), ?m1)"
    using assms(2) by (simp add: newLocalStream_def addStream_def Let_def)
  have h: "healthy ?m1" using assms(1) by (simp add: healthy_def)
  have "snd (Mux_Open svc [] m) = ?m1\<lparr>mConn := (mConn ?m1)\<lparr>cnOut := cnOut (mConn ?m1)
      @ frameBytes (mkFrame FrameOpen (mNextID m) svc [])\<rparr>\<rparr>"
    using assms(3,4) by (simp add: Mux_Open_def n send_healthy [OF h] check_mkFrame)
  then show "healthy (snd (Mux_Open svc [] m))" "mErr (snd (Mux_Open svc [] m)) = None"
    "mNextID (snd (Mux_Open svc [] m)) = mNextID m + 2"
    using h assms(2) by (simp_all add: healthy_def)
qed

lemma reachable_Open: "mux_reachable m \<Longrightarrow> mux_reachable (snd (Mux_Open svc md m))"
  by (rule mux_reachable.opened [of m svc md "fst (Mux_Open svc md m)"]) simp_all

lemma responder_opens:
  assumes "k \<le> 2 ^ 31 - 1"
  defines "mk \<equiv> ((\<lambda>m. snd (Mux_Open ServiceTCP [] m)) ^^ k) (demo_mux RoleResponder)"
  shows "mux_reachable mk" "healthy mk" "mErr mk = None" "mNextID mk = 2 + 2 * of_nat k"
proof -
  have "mux_reachable mk \<and> healthy mk \<and> mErr mk = None \<and> mNextID mk = 2 + 2 * of_nat k"
    using assms(1) unfolding mk_def
  proof (induction k)
    case 0
    show ?case using demo_reachable [of RoleResponder] by (simp add: healthy_def demo_mux_def)
  next
    case (Suc k)
    let ?m = "((\<lambda>m. snd (Mux_Open ServiceTCP [] m)) ^^ k) (demo_mux RoleResponder)"
    have ih: "mux_reachable ?m" "healthy ?m" "mErr ?m = None" "mNextID ?m = 2 + 2 * of_nat k"
      using Suc by auto
    have "unat (2 + 2 * of_nat k :: u32) = 2 + 2 * k"
      using unat_local_id [of k "demo_mux RoleResponder"] Suc.prems by (simp add: firstID_def demo_mux_def)
    then have "mNextID ?m \<noteq> 0" unfolding ih(4) by (metis add_gr_0 less_numeral_extra(3) unat_0 zero_less_numeral)
    from Open_healthy [OF ih(2,3) this, of ServiceTCP] reachable_Open [OF ih(1)] show ?case
      by (simp add: ServiceID_Valid_def ih(4))
  qed
  then show "mux_reachable mk" "healthy mk" "mErr mk = None" "mNextID mk = 2 + 2 * of_nat k"
    by auto
qed

text \<open>
  The IDs of a responder run out and take the session with them: a responder that has opened
  2^31 - 1 streams wraps its next ID to 0, and the next \<open>Open\<close>, instead of failing alone, makes the
  writer reject the OPEN frame for stream 0 and shuts down the whole session.
\<close>

theorem responder_ids_run_out:
  "\<exists>m m'. mux_reachable m \<and> \<not> mDone m \<and> mNextID m = 0
     \<and> Mux_Open ServiceTCP [] m = (Inl ErrStreamZero, m') \<and> mDone m' \<and> mErr m' = Some ErrStreamZero"
proof -
  define m where "m = ((\<lambda>m. snd (Mux_Open ServiceTCP [] m)) ^^ (2 ^ 31 - 1)) (demo_mux RoleResponder)"
  have r: "mux_reachable m" "healthy m" "mErr m = None" "mNextID m = 2 + 2 * of_nat (2 ^ 31 - 1)"
    using responder_opens [of "2 ^ 31 - 1"] unfolding m_def by auto
  have z: "mNextID m = 0" unfolding r(4) by (simp add: word_eq_iff_unsigned)
  let ?m1 = "snd (addStream 0 ServiceTCP [] False (m\<lparr>mNextID := 2\<rparr>))"
  have n: "newLocalStream ServiceTCP m = Inr (length (mHeap m), ?m1)"
    using r(3) z by (simp add: newLocalStream_def addStream_def Let_def)
  have "checkWriteFrame (mCodec ?m1) (mkFrame FrameOpen 0 ServiceTCP []) = Some ErrStreamZero"
    by (simp add: checkWriteFrame_def FrameType_valid_def validateFramePayloadLength_def)
  then obtain m2 where "send (mkFrame FrameOpen 0 ServiceTCP []) ?m1 = (Some ErrStreamZero, m2)"
    "mDone m2" "mErr m2 = Some ErrStreamZero"
    using send_rejected [of ?m1] r(2) by (auto simp: healthy_def)
  then have "Mux_Open ServiceTCP [] m = (Inl ErrStreamZero, removeStream 0 m2)"
    "mDone (removeStream 0 m2)" "mErr (removeStream 0 m2) = Some ErrStreamZero"
    by (simp_all add: Mux_Open_def n ServiceID_Valid_def)
  with r z show ?thesis unfolding healthy_def by blast
qed

text \<open>
  Metadata that the codec cannot carry closes the session: \<open>Open\<close> does not check its length,
  so the writer rejects the OPEN frame and every stream of the session is torn down.
\<close>

theorem oversized_metadata_closes_session:
  assumes "mux_reachable m" "healthy m" "ServiceID_Valid svc" "unat (maxPayload (mCodec m)) < length md"
  shows "\<exists>m'. Mux_Open svc md m = (Inl ErrPayloadTooLarge, m') \<and> mDone m' \<and> mStreams m' = []"
proof -
  let ?m1 = "snd (addStream (mNextID m) svc [] False (m\<lparr>mNextID := mNextID m + 2\<rparr>))"
  let ?f = "mkFrame FrameOpen (mNextID m) svc md"
  have inv: "mux_inv m" by (rule reachable_inv [OF assms(1)])
  have n: "newLocalStream svc m = Inr (length (mHeap m), ?m1)"
    using inv assms(2) by (simp add: newLocalStream_def addStream_def Let_def mux_inv_def healthy_def)
  have "checkWriteFrame (mCodec ?m1) ?f = Some ErrPayloadTooLarge"
    using assms(4) by (simp add: checkWriteFrame_def FrameType_valid_def)
  then obtain m2 where s: "send ?f ?m1 = (Some ErrPayloadTooLarge, m2)" "mDone m2"
    using send_rejected [of ?m1] assms(2) by (auto simp: healthy_def)
  have "Mux_Open svc md m = (Inl ErrPayloadTooLarge, removeStream (mNextID m) m2)"
    using assms(3) s by (simp add: Mux_Open_def n)
  moreover have "mux_inv (removeStream (mNextID m) m2)"
    using mux_inv_Open [OF inv calculation] .
  ultimately show ?thesis using s(2) by (auto simp: mux_inv_def)
qed

theorem oversized_metadata_closes_session_witness:
  "\<exists>m'. Mux_Open ServiceTCP (replicate 16777217 0) (demo_mux RoleInitiator) = (Inl ErrPayloadTooLarge, m')
     \<and> mDone m'"
  using oversized_metadata_closes_session [OF demo_reachable [of RoleInitiator], of ServiceTCP
      "replicate 16777217 0"]
  by (auto simp: healthy_def demo_mux_def ServiceID_Valid_def maxPayload_def)

subsection \<open>Writing\<close>

lemma writeRound_progress:
  assumes "mux_inv m" "r < length (mHeap m)" "p \<noteq> []" "Mux_writeRound r p m = ((WriteChunk c, e), m')"
  shows "0 < length c" "length c \<le> length p" "mux_inv m'" "length (mHeap m') = length (mHeap m)"
proof -
  obtain s' where wc: "Stream_writeChunk (mHeap m ! r) p = (WriteChunk c, s')"
    and sd: "send (mkFrame FrameData (sID s') (sService s') c) (updStream r (\<lambda>_. s') m) = (e, m')"
    using assms(4) by (auto simp: Mux_writeRound_def split: prod.splits write_result.splits)
  have "0 < unat (sMaxDataPayload (mHeap m ! r))"
    using assms(1) nth_mem [OF assms(2)] by (auto simp: mux_inv_def stream_fits_def stream_inv_def limits_ok_def)
  with writeChunk_cases(4) [OF wc] writeChunk_credit(4) [OF wc] assms(3)
  show "0 < length c" "length c \<le> length p"
    by (simp_all add: chunkSize_pos chunkSize_bounds)
  show "mux_inv m'" by (rule mux_inv_writeRound [OF assms(1,4)])
  show "length (mHeap m') = length (mHeap m)"
    using arg_cong [OF sd, of "\<lambda>x. length (mHeap (snd x))"] by simp
qed

text \<open>
  \<open>Write\<close> returns: in every reachable state the loop of \<open>Write\<close> ends, with a result or blocked
  for credit, because each round that goes on has sent at least one byte.
\<close>

theorem write_returns:
  assumes "mux_reachable m" "r < length (mHeap m)"
  shows "\<exists>out m'. Mux_Write r p sent m = Some (out, m')"
proof -
  have "mux_inv m" by (rule reachable_inv [OF assms(1)])
  with assms(2) show ?thesis
  proof (induction "length p - sent" arbitrary: sent m rule: less_induct)
    case less
    show ?case
    proof (cases "sent < length p")
      case True
      obtain w e m2 where round: "Mux_writeRound r (drop sent p) m = ((w, e), m2)"
        by (metis prod.exhaust)
      show ?thesis
      proof (cases "\<exists>c. w = WriteChunk c \<and> e = None")
        case True
        then obtain c where c: "w = WriteChunk c" "e = None" by blast
        note pr = writeRound_progress [OF less.prems(2,1) _ round [unfolded c]]
        have "drop sent p \<noteq> []" using \<open>sent < length p\<close> by simp
        note pr = pr [OF this]
        have "\<exists>out m'. Mux_Write r p (sent + length c) m2 = Some (out, m')"
          by (rule less.hyps, use pr(1) \<open>sent < length p\<close> in linarith) (use pr less.prems in simp_all)
        with \<open>sent < length p\<close> round c show ?thesis
          by (subst Mux_Write.simps) simp
      next
        case False
        with \<open>sent < length p\<close> round show ?thesis
          by (subst Mux_Write.simps) (cases w; cases e; simp)
      qed
    qed (subst Mux_Write.simps, simp)
  qed
qed

theorem write_returns_witness:
  "\<exists>out m'. Mux_Write 0 [1, 2, 3] 0 demo_served = Some (out, m')"
  by (rule write_returns [OF demo_served_reachable]) (simp add: demo_served_eq)

text \<open>A stream whose writer is not refused, over a transport that takes every write.\<close>

definition writable :: "nat \<Rightarrow> Mux \<Rightarrow> bool" where
  "writable r m =
     (healthy m \<and> r < length (mHeap m) \<and> sID (mHeap m ! r) \<noteq> 0 \<and> sIsOpen (mHeap m ! r)
      \<and> \<not> sLocalClosed (mHeap m ! r) \<and> sTerminalErr (mHeap m ! r) = None)"

definition dataFrame :: "Stream \<Rightarrow> bytes \<Rightarrow> Frame" where
  "dataFrame s c = mkFrame FrameData (sID s) (sService s) c"

lemma writeRound_writable:
  fixes p :: bytes
  assumes w: "writable r m" and inv: "mux_inv m" and cr: "0 < sSendCredit (mHeap m ! r)"
  defines "s \<equiv> mHeap m ! r"
  defines "c \<equiv> take (chunkSize s p) p"
  shows "\<exists>m'. Mux_writeRound r p m = ((WriteChunk c, None), m') \<and> writable r m' \<and> mux_inv m'
    \<and> unat (sSendCredit (mHeap m' ! r)) = unat (sSendCredit s) - length c
    \<and> (\<forall>d. dataFrame (mHeap m' ! r) d = dataFrame s d) \<and> mMaxDataPayload m' = mMaxDataPayload m
    \<and> cnOut (mConn m') = cnOut (mConn m) @ frameBytes (dataFrame s c)"
proof -
  let ?s = "s\<lparr>sSendCredit := sSendCredit s - of_nat (chunkSize s p)\<rparr>"
  have r: "r < length (mHeap m)" using w by (simp add: writable_def)
  have wc: "Stream_writeChunk (mHeap m ! r) p = (WriteChunk c, ?s)"
    using w cr by (simp add: Stream_writeChunk_def writable_def s_def c_def Let_def)
  have up: "healthy (updStream r (\<lambda>_. ?s) m)" using w by (simp add: writable_def healthy_def)
  have "length c \<le> unat (mMaxDataPayload m)"
    using writeChunk_credit(3) [OF wc] inv nth_mem [OF r] by (auto simp: mux_inv_def stream_fits_def)
  then have "checkWriteFrame (mCodec m) (mkFrame FrameData (sID ?s) (sService ?s) c) = None"
    using inv w by (intro check_mkFrame)
      (auto simp: mux_inv_def static_ok_def word_le_nat_alt writable_def s_def)
  then have rd: "Mux_writeRound r p m = ((WriteChunk c, None), (updStream r (\<lambda>_. ?s) m)\<lparr>mConn :=
      (mConn m)\<lparr>cnOut := cnOut (mConn m) @ frameBytes (dataFrame s c)\<rparr>\<rparr>)" (is "_ = (_, ?m')")
    by (simp add: Mux_writeRound_def wc send_healthy [OF up] dataFrame_def)
  moreover have "mux_inv ?m'" by (rule mux_inv_writeRound [OF inv rd])
  moreover have "writable r ?m'"
    using w r by (simp add: writable_def healthy_def s_def)
  moreover have "unat (sSendCredit (mHeap ?m' ! r)) = unat (sSendCredit s) - length c"
    using writeChunk_credit(1) [OF wc] r by (simp add: s_def)
  ultimately show ?thesis using r by (simp add: dataFrame_def)
qed

lemma writeRound_waits:
  "writable r m \<Longrightarrow> sSendCredit (mHeap m ! r) = 0 \<Longrightarrow> Mux_writeRound r p m = ((WriteWait, None), m)"
  by (simp add: Mux_writeRound_def Stream_writeChunk_def writable_def)

lemma write_sends_from:
  assumes "writable r m" "mux_inv m" "sent \<le> length p"
  shows "\<exists>cs m'. Mux_Write r p sent m =
       Some (if length p - sent \<le> unat (sSendCredit (mHeap m ! r)) then WDone (length p) None
             else WBlocked (sent + unat (sSendCredit (mHeap m ! r))), m')
     \<and> concat cs = take (unat (sSendCredit (mHeap m ! r))) (drop sent p)
     \<and> (\<forall>c \<in> set cs. c \<noteq> [] \<and> length c \<le> unat (mMaxDataPayload m))
     \<and> cnOut (mConn m') = cnOut (mConn m) @ concat (map (frameBytes \<circ> dataFrame (mHeap m ! r)) cs)"
  using assms
proof (induction "length p - sent" arbitrary: sent m rule: less_induct)
  case less
  let ?s = "mHeap m ! r" and ?n = "unat (sSendCredit (mHeap m ! r))" and ?q = "drop sent p"
  show ?case
  proof (cases "sent < length p \<and> 0 < sSendCredit ?s")
    case False
    then have "Mux_Write r p sent m = Some (if length p - sent \<le> ?n then WDone (length p) None
        else WBlocked (sent + ?n), m)" "take ?n ?q = []"
      using less.prems writeRound_waits [OF less.prems(1), of ?q]
      by (auto simp: Mux_Write.simps [of r p sent m] word_gt_0)
    then show ?thesis by (intro exI [of _ "[]"]) simp
  next
    case True
    let ?c = "take (chunkSize ?s ?q) ?q"
    obtain m2 where rd: "Mux_writeRound r ?q m = ((WriteChunk ?c, None), m2)"
      and m2: "writable r m2" "mux_inv m2" "unat (sSendCredit (mHeap m2 ! r)) = ?n - length ?c"
        "\<And>d. dataFrame (mHeap m2 ! r) d = dataFrame ?s d" "mMaxDataPayload m2 = mMaxDataPayload m"
        "cnOut (mConn m2) = cnOut (mConn m) @ frameBytes (dataFrame ?s ?c)"
      using writeRound_writable [OF less.prems(1,2), of ?q] True by blast
    have r: "r < length (mHeap m)" using less.prems(1) by (simp add: writable_def)
    have q: "?q \<noteq> []" using True by simp
    note pr = writeRound_progress [OF less.prems(2) r q rd]
    have lc: "length ?c \<le> ?n" "length ?c \<le> unat (mMaxDataPayload m)"
      using chunkSize_bounds [of ?s ?q] less.prems(2) nth_mem [OF r]
      by (auto simp: mux_inv_def stream_fits_def)
    have "length p - (sent + length ?c) < length p - sent" "sent + length ?c \<le> length p"
      using pr(1,2) True by auto
    from less.hyps [OF this(1) m2(1,2) this(2)] obtain cs m' where ih:
      "Mux_Write r p (sent + length ?c) m2 =
         Some (if length p - (sent + length ?c) \<le> ?n - length ?c then WDone (length p) None
               else WBlocked (sent + length ?c + (?n - length ?c)), m')"
      "concat cs = take (?n - length ?c) (drop (sent + length ?c) p)"
      "\<forall>c \<in> set cs. c \<noteq> [] \<and> length c \<le> unat (mMaxDataPayload m)"
      "cnOut (mConn m') = cnOut (mConn m2) @ concat (map (frameBytes \<circ> dataFrame (mHeap m2 ! r)) cs)"
      unfolding m2(3,5) by blast
    have w: "Mux_Write r p sent m = Mux_Write r p (sent + length ?c) m2"
      using True rd by (simp add: Mux_Write.simps [of r p sent m])
    have "length p - (sent + length ?c) \<le> ?n - length ?c \<longleftrightarrow> length p - sent \<le> ?n"
      "sent + length ?c + (?n - length ?c) = sent + ?n"
      using pr(2) lc(1) by auto
    note res = ih(1) [folded w, unfolded this]
    have df: "dataFrame (mHeap m2 ! r) = dataFrame ?s" by (rule ext) (rule m2(4))
    have cc: "concat (?c # cs) = take ?n ?q"
    proof -
      have "length ?c = chunkSize ?s ?q" using chunkSize_bounds(1) [of ?s ?q] by simp
      then have "take ?n ?q = ?c @ take (?n - length ?c) (drop (length ?c) ?q)"
        using take_add [of "chunkSize ?s ?q" "?n - length ?c" ?q] lc(1) by simp
      then show ?thesis using ih(2) by (simp add: add.commute)
    qed
    have "?c \<noteq> []" using pr(1) by (metis length_greater_0_conv)
    with res cc ih(3,4) lc(2) m2(6) show ?thesis
      by (intro exI [of _ "?c # cs"] exI [of _ m']) (simp add: df)
  qed
qed

text \<open>
  \<open>Write\<close> sends what it says it sends: on an open stream over a transport that takes every
  write, it sends exactly the first bytes of its argument that the credit allows, in order, cut
  into non-empty DATA frames of at most the DATA limit; it returns the full length when the
  credit covers it and otherwise blocks with the credit used up.
\<close>

theorem write_sends:
  assumes "mux_reachable m" "writable r m"
  shows "\<exists>cs m'. Mux_Write r p 0 m =
       Some (if length p \<le> unat (sSendCredit (mHeap m ! r)) then WDone (length p) None
             else WBlocked (unat (sSendCredit (mHeap m ! r))), m')
     \<and> concat cs = take (unat (sSendCredit (mHeap m ! r))) p
     \<and> (\<forall>c \<in> set cs. c \<noteq> [] \<and> length c \<le> unat (mMaxDataPayload m))
     \<and> cnOut (mConn m') = cnOut (mConn m) @ concat (map (frameBytes \<circ> dataFrame (mHeap m ! r)) cs)"
  using write_sends_from [OF assms(2) reachable_inv [OF assms(1)] le0, of p]
  by (simp only: drop_0 diff_zero add_0)

text \<open>The responder of the example after the peer's WINDOW arrived and the writer ran.\<close>

definition demo_WINDOW :: Frame where
  "demo_WINDOW = mkFrame FrameWindow 1 ServiceTCP (put_uint32 3)"

definition demo_credited :: Mux where
  "demo_credited = updStream 0 (\<lambda>s. s\<lparr>sPeerWindowSet := True, sPeerWindow := 3, sSendCredit := 3\<rparr>) demo_served"

lemma demo_credit: "handleFrame demo_WINDOW demo_served = (None, demo_credited)"
proof -
  have "lookupStream 1 demo_served = Some 0" by (simp add: lookupStream_def demo_served_eq)
  moreover have "decodeWindowCredit (put_uint32 3) = Inr 3"
    by (simp add: decode_encodeWindowCredit [unfolded encodeWindowCredit_def])
  ultimately show ?thesis
    by (simp add: handleFrame_def demo_WINDOW_def addSendCredit_def demo_served_eq markAccepted_def
        newStream_def updStream_def demo_credited_def)
qed

lemma demo_credited_tidy: "tidy_reachable demo_credited"
proof -
  have "frame_wf (mCodec demo_served) demo_WINDOW"
    by (simp add: demo_served_eq frame_wf_def demo_WINDOW_def maxPayload_def FrameType_valid_def
        validateFramePayloadLength_def)
  then have "readStep (frameBytes demo_WINDOW @ []) demo_served = (Some [], demo_credited)"
    by (simp only: readStep_def ReadFrame_frameBytes demo_credit sum.case prod.case option.case)
  then have "mux_step demo_served demo_credited"
    by (rule mux_step.st_receive [OF demo_served_eq(4)])
  from tidy_reachable.tidy_step [OF demo_served_tidy this] show ?thesis .
qed

definition demo_ready :: Mux where
  "demo_ready = writerStep (writerStep demo_credited)"

lemma demo_ready_reachable: "mux_reachable demo_ready"
proof -
  have "mux_reachable m" if "tidy_reachable m" for m
    using that by induction (auto intro: mux_reachable.intros)
  then show ?thesis
    unfolding demo_ready_def
    by (blast intro: demo_credited_tidy mux_reachable.step mux_step.st_write_out)
qed

lemma demo_ready_eq:
  "writable 0 demo_ready" "sSendCredit (mHeap demo_ready ! 0) = 3"
proof -
  have q: "mOutgoing demo_credited =
      [mkFrame FrameAccept 1 ServiceTCP [], mkFrame FrameWindow 1 ServiceTCP (put_uint32 262144)]"
    by (simp add: demo_credited_def demo_served_eq)
  have "demo_ready = (writerStep ^^ length (mOutgoing demo_credited)) demo_credited"
    by (simp add: demo_ready_def q)
  also have "\<dots> = demo_credited\<lparr>mConn := (mConn demo_credited)\<lparr>cnOut := cnOut (mConn demo_credited)
      @ concat (map frameBytes (mOutgoing demo_credited))\<rparr>, mOutgoing := []\<rparr>"
    by (rule writer_rounds)
       (use tidy_inv [OF demo_credited_tidy] in \<open>simp_all add: wire_ok_def demo_credited_def demo_served_eq\<close>)
  finally have e: "demo_ready = \<dots>" .
  show "writable 0 demo_ready" "sSendCredit (mHeap demo_ready ! 0) = 3"
    unfolding e
    by (simp_all add: writable_def healthy_def demo_credited_def demo_served_eq markAccepted_def newStream_def)
qed

theorem session_bounded_witness:
  "mux_reachable demo_ready \<and> mHeap demo_ready \<noteq> []
   \<and> length (sReadBuf (mHeap demo_ready ! 0)) + unat (sRecvCredit (mHeap demo_ready ! 0)) \<le> unat (mInitialWindow demo_ready)
   \<and> unat (sSendCredit (mHeap demo_ready ! 0)) \<le> unat (sPeerWindow (mHeap demo_ready ! 0))
   \<and> (\<exists>c m'. Mux_writeRound 0 [5, 6, 7, 8] demo_ready = ((WriteChunk c, None), m') \<and> c \<noteq> []
        \<and> unat (sSendCredit (mHeap m' ! 0)) + length c = 3)"
proof -
  have r: "0 < length (mHeap demo_ready)" using demo_ready_eq(1) by (simp add: writable_def)
  note inv = reachable_inv [OF demo_ready_reachable] and b = session_bounded [OF demo_ready_reachable]
  obtain c m' where w: "Mux_writeRound 0 [5, 6, 7, 8] demo_ready = ((WriteChunk c, None), m')"
    using writeRound_writable [OF demo_ready_eq(1) inv, of "[5, 6, 7, 8]"] unfolding demo_ready_eq(2) by force
  have "0 < length c" using writeRound_progress(1) [OF inv r _ w] by simp
  moreover have "unat (sSendCredit (mHeap m' ! 0)) + length c = 3"
    using b w r demo_ready_eq(2) by auto
  ultimately show ?thesis using w r bspec [OF conjunct1 [OF b] nth_mem [OF r]] demo_ready_reachable by blast
qed

theorem write_sends_witness:
  "\<exists>cs m'. Mux_Write 0 [5, 6, 7, 8] 0 demo_ready = Some (WBlocked 3, m') \<and> concat cs = [5, 6, 7]
     \<and> cnOut (mConn m') = cnOut (mConn demo_ready)
         @ concat (map (frameBytes \<circ> dataFrame (mHeap demo_ready ! 0)) cs)"
  using write_sends [OF demo_ready_reachable demo_ready_eq(1), of "[5, 6, 7, 8]"]
  by (auto simp: demo_ready_eq)

subsection \<open>The opening handshake\<close>

lemma Open_ok:
  assumes "healthy m" "mux_inv m" "mNextID m \<noteq> 0" "ServiceID_Valid svc"
    and "length md \<le> unat (maxPayload (mCodec m))"
  shows "\<exists>m'. Mux_Open svc md m = (Inr (length (mHeap m)), m')
     \<and> healthy m' \<and> mErr m' = None \<and> mCodec m' = mCodec m \<and> mInitialWindow m' = mInitialWindow m
     \<and> mWindowThreshold m' = mWindowThreshold m \<and> mMaxDataPayload m' = mMaxDataPayload m
     \<and> mHeap m' = mHeap m @ [newStream (mInitialWindow m) (mWindowThreshold m) (mMaxDataPayload m)
                               (mNextID m) svc [] False]
     \<and> lookupStream (mNextID m) m' = Some (length (mHeap m))
     \<and> cnOut (mConn m') = cnOut (mConn m) @ frameBytes (mkFrame FrameOpen (mNextID m) svc md)"
proof -
  let ?m1 = "snd (addStream (mNextID m) svc [] False (m\<lparr>mNextID := mNextID m + 2\<rparr>))"
  have e: "mErr m = None" using assms(1,2) by (simp add: healthy_def mux_inv_def)
  have n: "newLocalStream svc m = Inr (length (mHeap m), ?m1)"
    using e by (simp add: newLocalStream_def addStream_def Let_def)
  have h: "healthy ?m1" using assms(1) by (simp add: healthy_def)
  show ?thesis
    using assms(3,4,5) h e
    by (simp add: Mux_Open_def n send_healthy [OF h] check_mkFrame healthy_def lookupStream_def update_conv')
qed

lemma readStep_frame:
  assumes "frame_wf (mCodec m) f" "handleFrame f m = (None, m')"
  shows "readStep (frameBytes f @ rest) m = (Some rest, m')"
  using assms by (simp add: readStep_def ReadFrame_frameBytes)

lemma wf_control:
  "sid \<noteq> 0 \<Longrightarrow> frame_wf c (mkFrame FrameAccept sid svc [])"
  "sid \<noteq> 0 \<Longrightarrow> 4 \<le> unat (maxPayload c) \<Longrightarrow> frame_wf c (mkFrame FrameWindow sid svc (put_uint32 w))"
  "sid \<noteq> 0 \<Longrightarrow> length md \<le> unat (maxPayload c) \<Longrightarrow> frame_wf c (mkFrame FrameOpen sid svc md)"
  by (simp_all add: frame_wf_def FrameType_valid_def validateFramePayloadLength_def)

text \<open>The first WINDOW for a stream sets its send credit.\<close>

lemma first_window:
  assumes "lookupStream sid m = Some r" "sService (mHeap m ! r) = svc"
    and "\<not> sLocalClosed (mHeap m ! r)" "sTerminalErr (mHeap m ! r) = None" "\<not> sPeerWindowSet (mHeap m ! r)"
    and "w \<noteq> 0" "unat w \<le> 67108864"
  shows "handleFrame (mkFrame FrameWindow sid svc (put_uint32 w)) m =
    (None, updStream r (\<lambda>s. s\<lparr>sPeerWindowSet := True, sPeerWindow := ucast w, sSendCredit := ucast w\<rparr>) m)"
proof -
  have "\<not> maxInitialWindow < w" using assms(7) by (simp add: word_less_nat_alt)
  with assms show ?thesis
    by (simp add: handleFrame_def decodeWindowCredit_def addSendCredit_def updStream_def)
qed

lemma window_pos:
  assumes "mux_inv m"
  shows "mInitialWindow m \<noteq> 0" "unat (mInitialWindow m) \<le> 67108864"
  using assms by (auto simp: mux_inv_def static_ok_def limits_from_New_def)

lemma Open_wait_ready:
  assumes h: "healthy m" and r: "r < length (mHeap m)" and s: "s = mHeap m ! r"
    and acc: "sAccepted s = Some None" "\<not> sWindowAdvertised s" "sInitialWindow s = ucast (mInitialWindow m)"
    and w: "mInitialWindow m \<noteq> 0" "sID s \<noteq> 0" "4 \<le> unat (maxPayload (mCodec m))"
  shows "\<exists>m'. Open_wait CaseReady r m = Some (Inr r, m') \<and> mStreams m' = mStreams m
     \<and> mHeap m' ! r = s\<lparr>sIsOpen := True, sWindowAdvertised := True, sRecvCredit := ucast (mInitialWindow m)\<rparr>
     \<and> cnOut (mConn m') = cnOut (mConn m)
         @ frameBytes (mkFrame FrameWindow (sID s) (sService s) (put_uint32 (mInitialWindow m)))"
proof -
  let ?acc = "updStream r markAccepted m"
  let ?s' = "(markAccepted s)\<lparr>sWindowAdvertised := True, sRecvCredit := ucast (mInitialWindow m)\<rparr>"
  let ?f = "mkFrame FrameWindow (sID s) (sService s) (put_uint32 (mInitialWindow m))"
  let ?m' = "(updStream r (\<lambda>_. ?s') ?acc)\<lparr>mConn := (mConn m)\<lparr>cnOut := cnOut (mConn m) @ frameBytes ?f\<rparr>\<rparr>"
  have up: "healthy (updStream r (\<lambda>_. ?s') ?acc)" using h by (simp add: healthy_def)
  have i: "initializeReceiveWindow (mHeap ?acc ! r) = Inr (mInitialWindow m, ?s')"
    using r acc by (simp add: initializeReceiveWindow_def markAccepted_def s ucast_u32_u64)
  have id: "sID ?s' = sID s" "sService ?s' = sService s" by (simp_all add: markAccepted_def)
  have c: "checkWriteFrame (mCodec m) ?f = None" using w by (simp add: check_mkFrame)
  have "sendInitialWindow r False ?acc = (None, ?m')"
    unfolding sendInitialWindow_def i using w(1) c
    by (simp only: sum.case prod.case Let_def encodeWindowCredit_def if_False if_not_P id)
       (simp add: send_healthy [OF up])
  then have "Open_wait CaseReady r m = Some (Inr r, ?m')"
    using acc(1) by (simp add: Open_wait_def s [symmetric])
  then show ?thesis using r by (simp add: markAccepted_def)
qed

text \<open>The opener's side of the handshake, from the answer of the peer to the end of \<open>Open\<close>.\<close>

lemma opener_finishes:
  assumes m: "mux_inv m" "healthy m" "4 \<le> unat (maxPayload (mCodec m))" "sid \<noteq> 0"
    and l: "lookupStream sid m = Some r"
    and s: "mHeap m ! r = newStream (mInitialWindow m) (mWindowThreshold m) (mMaxDataPayload m) sid svc [] False"
    and w: "w \<noteq> 0" "unat w \<le> 67108864"
  shows "\<exists>m1 m2 m3. readStep (frameBytes (mkFrame FrameAccept sid svc [])
        @ frameBytes (mkFrame FrameWindow sid svc (put_uint32 w))) m
        = (Some (frameBytes (mkFrame FrameWindow sid svc (put_uint32 w))), m1)
    \<and> readStep (frameBytes (mkFrame FrameWindow sid svc (put_uint32 w))) m1 = (Some [], m2)
    \<and> Open_wait CaseReady r m2 = Some (Inr r, m3)
    \<and> cnOut (mConn m3) = cnOut (mConn m) @ frameBytes (mkFrame FrameWindow sid svc (put_uint32 (mInitialWindow m)))
    \<and> sIsOpen (mHeap m3 ! r) \<and> sSendCredit (mHeap m3 ! r) = ucast w
    \<and> sRecvCredit (mHeap m3 ! r) = ucast (mInitialWindow m) \<and> lookupStream sid m3 = Some r"
proof -
  have r: "r < length (mHeap m)" by (rule lookupStream_ref(1) [OF m(1) l])
  let ?m1 = "updStream r (signalAccepted None) m"
  let ?win = "\<lambda>s. s\<lparr>sPeerWindowSet := True, sPeerWindow := ucast w, sSendCredit := ucast w\<rparr>"
  let ?m2 = "updStream r ?win ?m1"
  have a: "handleFrame (mkFrame FrameAccept sid svc []) m = (None, ?m1)"
    using l s by (simp add: handleFrame_def)
  have s1: "mHeap ?m1 ! r = (mHeap m ! r)\<lparr>sAccepted := Some None\<rparr>"
    using r by (simp add: signalAccepted_def s)
  have b: "handleFrame (mkFrame FrameWindow sid svc (put_uint32 w)) ?m1 = (None, ?m2)"
    by (rule first_window) (use l s1 w in \<open>simp_all add: s newStream_def\<close>)
  have s2: "mHeap ?m2 ! r = ?win ((mHeap m ! r)\<lparr>sAccepted := Some None\<rparr>)"
    using r s1 by simp
  obtain m3 where m3: "Open_wait CaseReady r ?m2 = Some (Inr r, m3)" "mStreams m3 = mStreams m"
    "sIsOpen (mHeap m3 ! r)" "sSendCredit (mHeap m3 ! r) = ucast w"
    "sRecvCredit (mHeap m3 ! r) = ucast (mInitialWindow m)"
    "cnOut (mConn m3) = cnOut (mConn m) @ frameBytes (mkFrame FrameWindow sid svc (put_uint32 (mInitialWindow m)))"
    using Open_wait_ready [of ?m2 r, OF _ _ refl] m(2,3,4) r window_pos(1) [OF m(1)]
    unfolding s2 by (auto simp: healthy_def s newStream_def)
  have "lookupStream sid m3 = Some r" using l m3(2) by (simp add: lookupStream_def)
  moreover have "readStep (frameBytes (mkFrame FrameWindow sid svc (put_uint32 w))) ?m1 = (Some [], ?m2)"
    using readStep_frame [OF _ b, of "[]"] wf_control(2) [OF m(4)] m(3) by simp
  moreover have "readStep (frameBytes (mkFrame FrameAccept sid svc [])
      @ frameBytes (mkFrame FrameWindow sid svc (put_uint32 w))) m
      = (Some (frameBytes (mkFrame FrameWindow sid svc (put_uint32 w))), ?m1)"
    by (rule readStep_frame [OF wf_control(1) [OF m(4)] a])
  ultimately show ?thesis using m3 by blast
qed

lemma opposite_owns:
  assumes "mux_inv a" "mux_inv b" "mRole a \<noteq> mRole b" "mNextID a \<noteq> 0"
  shows "peerOwns b (mNextID a)"
proof -
  have "\<not> peerOwns a (mNextID a)"
    using assms(1) not_peerOwns_local [of a] by (auto simp: mux_inv_def ids_ok_def static_ok_def)
  with assms show ?thesis
    by (auto simp: peerOwns_def mux_inv_def static_ok_def mod_2_eq_odd split: if_splits)
qed

text \<open>The acceptor's side: it answers the OPEN, and takes the opener's WINDOW.\<close>

lemma acceptor_serves:
  assumes m: "mux_inv m" "healthy m" "4 \<le> unat (maxPayload (mCodec m))" "sid \<noteq> 0"
    and f: "ServiceID_Valid svc" "mAllowed m svc" "peerOwns m sid" "lookupStream sid m = None"
      "length (mIncoming m) < mIncomingCap m" "length md \<le> unat (maxPayload (mCodec m))"
    and w: "w \<noteq> 0" "unat w \<le> 67108864"
  shows "\<exists>m1 m2. readStep (frameBytes (mkFrame FrameOpen sid svc md)) m = (Some [], m1)
    \<and> cnOut (mConn (writerLoop m1)) = cnOut (mConn m) @ frameBytes (mkFrame FrameAccept sid svc [])
        @ frameBytes (mkFrame FrameWindow sid svc (put_uint32 (mInitialWindow m)))
    \<and> readStep (frameBytes (mkFrame FrameWindow sid svc (put_uint32 w))) (writerLoop m1) = (Some [], m2)
    \<and> mIncoming m2 = mIncoming m @ [length (mHeap m)]
    \<and> sIsOpen (mHeap m2 ! length (mHeap m)) \<and> sMetadata (mHeap m2 ! length (mHeap m)) = md
    \<and> sID (mHeap m2 ! length (mHeap m)) = sid \<and> sService (mHeap m2 ! length (mHeap m)) = svc
    \<and> sSendCredit (mHeap m2 ! length (mHeap m)) = ucast w
    \<and> sRecvCredit (mHeap m2 ! length (mHeap m)) = ucast (mInitialWindow m)"
proof -
  let ?r = "length (mHeap m)"
  obtain m1 s where o: "handleOpen (mkFrame FrameOpen sid svc md) m = (None, m1)" and h: "mHeap m1 = mHeap m @ [s]"
    and l: "lookupStream sid m1 = Some ?r" and i: "mIncoming m1 = mIncoming m @ [?r]"
    and s: "sID s = sid" "sService s = svc" "sMetadata s = md" "sIsOpen s" "sRecvCredit s = ucast (mInitialWindow m)"
      "\<not> sLocalClosed s" "sTerminalErr s = None" "\<not> sPeerWindowSet s"
    and d: "\<not> mDone m1" "mConn m1 = mConn m" "mCodec m1 = mCodec m"
    and q: "mOutgoing m1 = [mkFrame FrameAccept sid svc [], mkFrame FrameWindow sid svc (put_uint32 (mInitialWindow m))]"
    using handleOpen_served [OF m(1), of "mkFrame FrameOpen sid svc md"] m(2) f
    unfolding healthy_def by (auto simp del: append_assoc)
  have sc: "cnScript (mConn m) = []" using m(2) by (simp add: healthy_def)
  have wl: "writerLoop m1 = m1\<lparr>mConn := (mConn m1)\<lparr>cnOut := cnOut (mConn m1)
      @ concat (map frameBytes (mOutgoing m1))\<rparr>, mOutgoing := []\<rparr>"
    unfolding writerLoop_def
    by (rule writer_rounds) (use d q sc m(3,4) in \<open>simp_all add: check_mkFrame\<close>)
  have "handleFrame (mkFrame FrameOpen sid svc md) m = (None, m1)" using o by (simp add: handleFrame_def)
  from readStep_frame [OF _ this, of "[]"] wf_control(3) [OF m(4) f(6)]
  have r1: "readStep (frameBytes (mkFrame FrameOpen sid svc md)) m = (Some [], m1)" by simp
  let ?m2 = "updStream ?r (\<lambda>s. s\<lparr>sPeerWindowSet := True, sPeerWindow := ucast w, sSendCredit := ucast w\<rparr>) (writerLoop m1)"
  have "handleFrame (mkFrame FrameWindow sid svc (put_uint32 w)) (writerLoop m1) = (None, ?m2)"
    by (rule first_window) (use l h s w in \<open>simp_all add: wl lookupStream_def\<close>)
  from readStep_frame [OF _ this, of "[]"] wf_control(2) [OF m(4), of "mCodec m"] m(3)
  have r2: "readStep (frameBytes (mkFrame FrameWindow sid svc (put_uint32 w))) (writerLoop m1) = (Some [], ?m2)"
    by (simp add: wl d)
  have "mHeap ?m2 ! ?r = s\<lparr>sPeerWindowSet := True, sPeerWindow := ucast w, sSendCredit := ucast w\<rparr>"
    by (simp add: wl h)
  with r1 r2 wl d q i s show ?thesis
    by (intro exI [of _ m1] exI [of _ ?m2]) simp
qed

text \<open>
  C6: The opening handshake completes: between two reachable multiplexers of opposite roles with empty queues
  and transports that take every write, a stream with a valid service that the acceptor allows and metadata
  within both payload limits, which take at least the four bytes of a WINDOW, ends up open on both sides
  under one ID, with the opener's metadata at the acceptor, and each side's send credit is exactly the
  receive window the other side keeps. The opener's next ID is not 0 and unused at the acceptor, whose
  backlog has room. The two ends only exchange the bytes they wrote.
\<close>

theorem open_handshake:
  assumes "mux_reachable a" "mux_reachable b" "mRole a \<noteq> mRole b" "healthy a" "healthy b"
    and "mNextID a \<noteq> 0" "lookupStream (mNextID a) b = None" "length (mIncoming b) < mIncomingCap b"
    and "ServiceID_Valid svc" "mAllowed b svc"
    and "length md \<le> unat (maxPayload (mCodec a))" "length md \<le> unat (maxPayload (mCodec b))"
    and "4 \<le> unat (maxPayload (mCodec a))" "4 \<le> unat (maxPayload (mCodec b))"
  shows "\<exists>r k a1 a2 a3 a4 b1 b2 sent1 sent2 left sent3.
     Mux_Open svc md a = (Inr r, a1) \<and> cnOut (mConn a1) = cnOut (mConn a) @ sent1
     \<and> readStep sent1 b = (Some [], b1) \<and> cnOut (mConn (writerLoop b1)) = cnOut (mConn b) @ sent2
     \<and> readStep sent2 a1 = (Some left, a2) \<and> readStep left a2 = (Some [], a3)
     \<and> Open_wait CaseReady r a3 = Some (Inr r, a4) \<and> cnOut (mConn a4) = cnOut (mConn a1) @ sent3
     \<and> readStep sent3 (writerLoop b1) = (Some [], b2) \<and> mIncoming b2 = mIncoming b @ [k]
     \<and> sIsOpen (mHeap a4 ! r) \<and> sIsOpen (mHeap b2 ! k) \<and> sMetadata (mHeap b2 ! k) = md
     \<and> lookupStream (sID (mHeap b2 ! k)) a4 = Some r \<and> sService (mHeap b2 ! k) = svc
     \<and> sSendCredit (mHeap a4 ! r) = sRecvCredit (mHeap b2 ! k)
     \<and> sSendCredit (mHeap b2 ! k) = sRecvCredit (mHeap a4 ! r)"
proof -
  let ?sid = "mNextID a" and ?r = "length (mHeap a)"
  note ia = reachable_inv [OF assms(1)] and ib = reachable_inv [OF assms(2)]
  obtain a1 where o: "Mux_Open svc md a = (Inr ?r, a1)" "healthy a1" "mCodec a1 = mCodec a"
      "mInitialWindow a1 = mInitialWindow a"
      "lookupStream ?sid a1 = Some ?r"
      "cnOut (mConn a1) = cnOut (mConn a) @ frameBytes (mkFrame FrameOpen ?sid svc md)"
    and s: "mHeap a1 ! ?r = newStream (mInitialWindow a1) (mWindowThreshold a1) (mMaxDataPayload a1) ?sid svc [] False"
    using Open_ok [OF assms(4) ia assms(6,9,11)] by force
  have ia1: "mux_inv a1" by (rule mux_inv_Open [OF ia o(1)])
  have c: "4 \<le> unat (maxPayload (mCodec a1))" using assms(13) o(3) by simp
  from acceptor_serves [OF ib assms(5,14,6,9,10) opposite_owns [OF ia ib assms(3,6)] assms(7,8,12)
      window_pos [OF ia]]
  obtain b1 b2 where b: "readStep (frameBytes (mkFrame FrameOpen ?sid svc md)) b = (Some [], b1)"
      "cnOut (mConn (writerLoop b1)) = cnOut (mConn b) @ frameBytes (mkFrame FrameAccept ?sid svc [])
         @ frameBytes (mkFrame FrameWindow ?sid svc (put_uint32 (mInitialWindow b)))"
      "readStep (frameBytes (mkFrame FrameWindow ?sid svc (put_uint32 (mInitialWindow a)))) (writerLoop b1) = (Some [], b2)"
      "mIncoming b2 = mIncoming b @ [length (mHeap b)]"
      "sIsOpen (mHeap b2 ! length (mHeap b))" "sMetadata (mHeap b2 ! length (mHeap b)) = md"
      "sID (mHeap b2 ! length (mHeap b)) = ?sid" "sService (mHeap b2 ! length (mHeap b)) = svc"
      "sSendCredit (mHeap b2 ! length (mHeap b)) = ucast (mInitialWindow a)"
      "sRecvCredit (mHeap b2 ! length (mHeap b)) = ucast (mInitialWindow b)" by blast
  from opener_finishes [OF ia1 o(2) c assms(6) o(5) s window_pos [OF ib]] o(4)
  obtain a2 a3 a4 where a: "readStep (frameBytes (mkFrame FrameAccept ?sid svc [])
        @ frameBytes (mkFrame FrameWindow ?sid svc (put_uint32 (mInitialWindow b)))) a1
        = (Some (frameBytes (mkFrame FrameWindow ?sid svc (put_uint32 (mInitialWindow b)))), a2)"
      "readStep (frameBytes (mkFrame FrameWindow ?sid svc (put_uint32 (mInitialWindow b)))) a2 = (Some [], a3)"
      "Open_wait CaseReady ?r a3 = Some (Inr ?r, a4)"
      "cnOut (mConn a4) = cnOut (mConn a1) @ frameBytes (mkFrame FrameWindow ?sid svc (put_uint32 (mInitialWindow a)))"
      "sIsOpen (mHeap a4 ! ?r)" "sSendCredit (mHeap a4 ! ?r) = ucast (mInitialWindow b)"
      "sRecvCredit (mHeap a4 ! ?r) = ucast (mInitialWindow a)" "lookupStream ?sid a4 = Some ?r" by auto
  show ?thesis
    by (intro exI conjI, rule o(1), rule o(6), rule b(1), rule b(2), rule a(1), rule a(2), rule a(3),
        rule a(4), rule b(3), rule b(4), rule a(5), rule b(5), rule b(6))
       (simp_all add: a b)
qed

theorem open_handshake_witness:
  "\<exists>a1 a2 a3 a4 left sent2. Mux_Open ServiceTCP [7, 8] (demo_mux RoleInitiator) = (Inr 0, a1)
     \<and> readStep sent2 a1 = (Some left, a2) \<and> readStep left a2 = (Some [], a3) \<and> Open_wait CaseReady 0 a3 = Some (Inr 0, a4)
     \<and> sIsOpen (mHeap a4 ! 0)"
proof -
  let ?a = "demo_mux RoleInitiator" and ?b = "demo_mux RoleResponder"
  have "mRole ?a \<noteq> mRole ?b" "healthy ?a" "healthy ?b" "mNextID ?a \<noteq> 0" "lookupStream (mNextID ?a) ?b = None"
    "length (mIncoming ?b) < mIncomingCap ?b" "ServiceID_Valid ServiceTCP" "mAllowed ?b ServiceTCP"
    "length [7 :: byte, 8] \<le> unat (maxPayload (mCodec ?a))" "length [7 :: byte, 8] \<le> unat (maxPayload (mCodec ?b))"
    "4 \<le> unat (maxPayload (mCodec ?a))" "4 \<le> unat (maxPayload (mCodec ?b))"
    by (simp_all add: demo_mux_def healthy_def lookupStream_def ServiceID_Valid_def defaultServices_def maxPayload_def)
  from open_handshake [OF demo_reachable demo_reachable this]
  obtain r k a1 a2 a3 a4 b1 b2 sent1 sent2 left sent3 where
    "Mux_Open ServiceTCP [7, 8] ?a = (Inr r, a1)"
    "readStep sent2 a1 = (Some left, a2)" "readStep left a2 = (Some [], a3)"
    "Open_wait CaseReady r a3 = Some (Inr r, a4)" "sIsOpen (mHeap a4 ! r)" by auto
  moreover have "r = 0"
    using calculation(1) by (auto simp: Mux_Open_def newLocalStream_def addStream_def demo_mux_def Let_def
        split: if_splits option.splits prod.splits)
  ultimately show ?thesis by blast
qed

end
