(* ===== verification/Wv_Fencing.thy ===== *)
theory Wv_Fencing
  imports Wv_Prelude
begin

text \<open>
  Generation fencing as an interface. Several stores of the program hand out tokens that carry a
  generation number, raise the number of a key whenever a new owner takes it, and accept a token
  only while its number is the current one. The locale states the two laws such a store keeps and
  proves, once, what its clients rely on: a superseded token is never accepted again.
\<close>

locale fencing =
  fixes step :: "'s \<Rightarrow> 's \<Rightarrow> bool"
    and gen :: "'s \<Rightarrow> 'k \<Rightarrow> nat"
    and accepts :: "'s \<Rightarrow> 'k \<Rightarrow> nat \<Rightarrow> bool"
  assumes gen_mono: "step s s' \<Longrightarrow> gen s k \<le> gen s' k"
    and accepts_current: "accepts s k g \<Longrightarrow> g = gen s k"
begin

lemma gen_mono_run: "step\<^sup>*\<^sup>* s s' \<Longrightarrow> gen s k \<le> gen s' k"
  by (induction rule: rtranclp_induct) (auto dest: gen_mono intro: order_trans)

lemma superseded_refused: "step\<^sup>*\<^sup>* s s' \<Longrightarrow> g < gen s k \<Longrightarrow> \<not> accepts s' k g"
  using gen_mono_run accepts_current by (metis leD)

lemma one_owner: "accepts s k g \<Longrightarrow> accepts s k g' \<Longrightarrow> g = g'"
  using accepts_current by metis

end

end
