(* ===== verification/Session_Link.thy ===== *)
theory Session_Link
  imports Wv_Fencing
begin

text \<open>
  Logical links and their transport generations: \<open>src/sessionlink/types.go\<close> and
  \<open>src/sessionlink/manager.go\<close>. A link is named by a digest of its chain and its two adjacent
  nodes; a manager keeps, per link, the snapshot of its current transport generation and the
  value published for it. The digest (SHA-256 in hexadecimal) is the parameter \<open>hex256\<close> of
  \<open>DeriveID\<close>. Each operation takes the reading \<open>now\<close> of the manager's clock. The channel \<open>changed\<close>
  that is closed and replaced on every change is the counter \<open>slChanged\<close>; the value of type \<open>T\<close>
  is an option whose \<open>None\<close> is \<open>T\<close>'s zero value.

  Shown: both ends derive the same ID; equal IDs mean equal links or a collision of the digest;
  tokens of an older generation are refused by every operation, for ever; \<open>Current\<close> hands out only
  the value that was made ready under the latest generation, before its lease ends.
\<close>

section \<open>Types\<close>

datatype link_error =
    ErrInvalidDescriptor | ErrInvalidTransport | ErrInvalidLease | ErrNotReady
  | ErrGenerationMismatch | ErrLeaseExpired

datatype LinkState = StateEmpty | StateDisconnected | StateConnecting | StateReady | StateDraining

definition IDVersion :: string where
  "IDVersion = ''weaverssh.session-link.v1''"

abbreviation MaxLease :: go_duration where
  "MaxLease \<equiv> 24 * 3600 * go_second"

record Descriptor =
  dChainSHA256 :: string
  dTopology :: "string list"
  dLocalNode :: string
  dPeerNode :: string

record LinkToken =
  tLinkID :: string
  tTransportID :: string
  tGeneration :: u64

record LinkSnapshot =
  snVersion :: string
  snLinkID :: string
  snTransportID :: string
  snGeneration :: u64
  snLocalNode :: string
  snPeerNode :: string
  snState :: LinkState
  snLastError :: string
  snLeaseUntil :: go_time
  snUpdatedAt :: go_time

text \<open>\<open>Snapshot{}\<close>. \<open>StateEmpty\<close> is the empty string, the zero value of \<open>State\<close>.\<close>

definition zeroSnapshot :: LinkSnapshot where
  "zeroSnapshot = \<lparr>snVersion = [], snLinkID = [], snTransportID = [], snGeneration = 0, snLocalNode = [],
     snPeerNode = [], snState = StateEmpty, snLastError = [], snLeaseUntil = 0, snUpdatedAt = 0\<rparr>"

definition ReadyAt :: "LinkSnapshot \<Rightarrow> go_time \<Rightarrow> bool" where
  "ReadyAt s now = (snState s = StateReady \<and> snLeaseUntil s \<noteq> 0 \<and> now < snLeaseUntil s)"

section \<open>Identifiers\<close>

definition validNode :: "string \<Rightarrow> bool" where
  "validNode value =
     (if value = [] \<or> 256 < length value then False
      else \<not> (has_space value \<or> has_control value))"

definition hex_digit :: "char \<Rightarrow> bool" where
  "hex_digit c =
     (let n = (of_char c :: nat) in (48 \<le> n \<and> n \<le> 57) \<or> (97 \<le> n \<and> n \<le> 102) \<or> (65 \<le> n \<and> n \<le> 70))"

text \<open>\<open>hex.DecodeString\<close> succeeds.\<close>

definition hexDecodes :: "string \<Rightarrow> bool" where
  "hexDecodes s = (even (length s) \<and> list_all hex_digit s)"

text \<open>The loop of \<open>normalizeDescriptor\<close> over the topology, \<open>seen\<close> being the nodes met so far.\<close>

fun normTopology :: "string list \<Rightarrow> string list \<Rightarrow> string list option" where
  "normTopology seen [] = Some []"
| "normTopology seen (rawNode # rest) =
     (let node = TrimSpace rawNode in
      if \<not> validNode node \<or> node \<in> set seen then None
      else case normTopology (node # seen) rest of
        None \<Rightarrow> None
      | Some nodes \<Rightarrow> Some (node # nodes))"

text \<open>The index a loop \<open>if node == x { index = i }\<close> leaves behind, \<open>-1\<close> when none matches.\<close>

fun lastIndex :: "string \<Rightarrow> int \<Rightarrow> int \<Rightarrow> string list \<Rightarrow> int" where
  "lastIndex x found i [] = found"
| "lastIndex x found i (node # nodes) = lastIndex x (if node = x then i else found) (i + 1) nodes"

definition normalizeDescriptor :: "Descriptor \<Rightarrow> link_error + Descriptor \<times> string \<times> string" where
  "normalizeDescriptor raw =
     (let chain = ToLower (TrimSpace (dChainSHA256 raw));
          local = TrimSpace (dLocalNode raw);
          peer = TrimSpace (dPeerNode raw) in
      if length chain \<noteq> 64 then Inl ErrInvalidDescriptor
      else if \<not> hexDecodes chain then Inl ErrInvalidDescriptor
      else if \<not> validNode local \<or> \<not> validNode peer \<or> local = peer then Inl ErrInvalidDescriptor
      else if length (dTopology raw) < 2 \<or> 1024 < length (dTopology raw) then Inl ErrInvalidDescriptor
      else case normTopology [] (dTopology raw) of
        None \<Rightarrow> Inl ErrInvalidDescriptor
      | Some topology \<Rightarrow>
          let localIndex = lastIndex local (-1) 0 topology;
              peerIndex = lastIndex peer (-1) 0 topology in
          if localIndex < 0 \<or> peerIndex < 0 \<or> \<bar>localIndex - peerIndex\<bar> \<noteq> 1 then Inl ErrInvalidDescriptor
          else Inr (\<lparr>dChainSHA256 = chain, dTopology = topology, dLocalNode = local, dPeerNode = peer\<rparr>,
                    if peerIndex < localIndex then (peer, local) else (local, peer)))"

definition idMaterial :: "string \<Rightarrow> string \<Rightarrow> string \<Rightarrow> string" where
  "idMaterial chain lower upper =
     concat (map (\<lambda>value. value @ [CHR 0x00]) [IDVersion, chain, lower, upper])"

definition DeriveID :: "(string \<Rightarrow> string) \<Rightarrow> Descriptor \<Rightarrow> link_error + string" where
  "DeriveID hex256 raw =
     (case normalizeDescriptor raw of
        Inl e \<Rightarrow> Inl e
      | Inr (descriptor, lower, upper) \<Rightarrow> Inr (hex256 (idMaterial (dChainSHA256 descriptor) lower upper)))"

definition ValidateTransportID :: "string \<Rightarrow> link_error option" where
  "ValidateTransportID tid =
     (let value = TrimSpace tid in
      if length value < 8 \<or> 512 < length value then Some ErrInvalidTransport
      else if has_space value \<or> has_control value then Some ErrInvalidTransport
      else None)"

definition ValidateID :: "string \<Rightarrow> link_error option" where
  "ValidateID value =
     (if length value \<noteq> 64 then Some ErrInvalidDescriptor
      else if \<not> hexDecodes value \<or> value \<noteq> ToLower value then Some ErrInvalidDescriptor
      else None)"

definition validateLease :: "go_duration \<Rightarrow> link_error option" where
  "validateLease lease = (if lease \<le> 0 \<or> MaxLease < lease then Some ErrInvalidLease else None)"

section \<open>The manager\<close>

record 'v slot =
  slSnapshot :: LinkSnapshot
  slValue :: "'v option"
  slHasValue :: bool
  slChanged :: nat

type_synonym 'v manager = "(string \<times> 'v slot) list"

definition boundedError :: "string option \<Rightarrow> string" where
  "boundedError err = (case err of None \<Rightarrow> [] | Some text \<Rightarrow> take 4096 (TrimSpace text))"

definition leaseExpiredText :: string where
  "leaseExpiredText = ''sessionlink: transport lease expired''"

definition matches :: "LinkSnapshot \<Rightarrow> LinkToken \<Rightarrow> bool" where
  "matches sn t =
     (snLinkID sn = tLinkID t \<and> snTransportID sn = tTransportID t \<and> snGeneration sn = tGeneration t)"

definition signalLocked :: "'v slot \<Rightarrow> 'v slot" where
  "signalLocked s = s\<lparr>slChanged := slChanged s + 1\<rparr>"

definition disconnectLocked :: "go_time \<Rightarrow> string option \<Rightarrow> 'v slot \<Rightarrow> 'v slot" where
  "disconnectLocked now cause s =
     signalLocked (s\<lparr>slSnapshot := (slSnapshot s)\<lparr>snState := StateDisconnected, snUpdatedAt := now,
                        snLastError := (case cause of None \<Rightarrow> [] | Some _ \<Rightarrow> boundedError cause)\<rparr>,
                     slValue := None, slHasValue := False\<rparr>)"

definition expireLocked :: "go_time \<Rightarrow> 'v slot \<Rightarrow> 'v slot" where
  "expireLocked now s =
     (if snState (slSnapshot s) = StateDisconnected \<or> snLeaseUntil (slSnapshot s) = 0
         \<or> now < snLeaseUntil (slSnapshot s) then s
      else disconnectLocked now (Some leaseExpiredText) s)"

definition slotLocked :: "string \<Rightarrow> go_time \<Rightarrow> 'v manager \<Rightarrow> 'v slot" where
  "slotLocked lid now m =
     (case map_of m lid of
        Some s \<Rightarrow> s
      | None \<Rightarrow> \<lparr>slSnapshot = zeroSnapshot\<lparr>snVersion := IDVersion, snLinkID := lid,
                               snState := StateDisconnected, snUpdatedAt := now\<rparr>,
                 slValue = None, slHasValue = False, slChanged = 0\<rparr>)"

definition Begin ::
  "(string \<Rightarrow> string) \<Rightarrow> Descriptor \<Rightarrow> string \<Rightarrow> go_duration \<Rightarrow> go_time \<Rightarrow> 'v manager \<Rightarrow>
     (link_error + LinkToken \<times> LinkSnapshot) \<times> 'v manager" where
  "Begin hex256 descriptor transportID lease now m =
     (case DeriveID hex256 descriptor of
        Inl e \<Rightarrow> (Inl e, m)
      | Inr lid \<Rightarrow>
          (case ValidateTransportID transportID of
             Some e \<Rightarrow> (Inl e, m)
           | None \<Rightarrow>
               (case validateLease lease of
                  Some e \<Rightarrow> (Inl e, m)
                | None \<Rightarrow>
                    (case normalizeDescriptor descriptor of
                       Inl e \<Rightarrow> (Inl e, m)
                     | Inr (normalized, _, _) \<Rightarrow>
                         let s = expireLocked now (slotLocked lid now m);
                             generation = snGeneration (slSnapshot s) + 1;
                             snapshot = \<lparr>snVersion = IDVersion, snLinkID = lid,
                               snTransportID = TrimSpace transportID, snGeneration = generation,
                               snLocalNode = dLocalNode normalized, snPeerNode = dPeerNode normalized,
                               snState = StateConnecting, snLastError = [], snLeaseUntil = now + lease,
                               snUpdatedAt = now\<rparr>;
                             s' = signalLocked (s\<lparr>slSnapshot := snapshot, slValue := None,
                                                  slHasValue := False\<rparr>)
                         in (Inr (\<lparr>tLinkID = lid, tTransportID = snTransportID snapshot,
                                   tGeneration = generation\<rparr>, snapshot),
                             AList.update lid s' m)))))"

definition Ready ::
  "LinkToken \<Rightarrow> 'v \<Rightarrow> go_time \<Rightarrow> 'v manager \<Rightarrow> (LinkSnapshot \<times> link_error option) \<times> 'v manager" where
  "Ready token value now m =
     (case map_of m (tLinkID token) of
        None \<Rightarrow> ((zeroSnapshot, Some ErrGenerationMismatch), m)
      | Some s \<Rightarrow>
          if \<not> matches (slSnapshot s) token then ((zeroSnapshot, Some ErrGenerationMismatch), m)
          else if \<not> now < snLeaseUntil (slSnapshot s) then
            let s' = disconnectLocked now (Some leaseExpiredText) s in
            ((slSnapshot s', Some ErrLeaseExpired), AList.update (tLinkID token) s' m)
          else if snState (slSnapshot s) \<noteq> StateConnecting then
            ((slSnapshot s, Some ErrGenerationMismatch), m)
          else
            let s' = signalLocked (s\<lparr>slSnapshot := (slSnapshot s)\<lparr>snState := StateReady,
                                        snLastError := [], snUpdatedAt := now\<rparr>,
                                     slValue := Some value, slHasValue := True\<rparr>) in
            ((slSnapshot s', None), AList.update (tLinkID token) s' m))"

text \<open>\<open>Publish\<close> reads the clock once in \<open>Begin\<close> and once in \<open>Ready\<close>.\<close>

definition Publish ::
  "(string \<Rightarrow> string) \<Rightarrow> Descriptor \<Rightarrow> string \<Rightarrow> go_duration \<Rightarrow> 'v \<Rightarrow> go_time \<Rightarrow> go_time \<Rightarrow> 'v manager \<Rightarrow>
     (link_error + LinkToken \<times> LinkSnapshot) \<times> 'v manager" where
  "Publish hex256 descriptor transportID lease value now1 now2 m =
     (case Begin hex256 descriptor transportID lease now1 m of
        (Inl e, m1) \<Rightarrow> (Inl e, m1)
      | (Inr (token, _), m1) \<Rightarrow>
          (case Ready token value now2 m1 of
             ((_, Some e), m2) \<Rightarrow> (Inl e, m2)
           | ((snapshot, None), m2) \<Rightarrow> (Inr (token, snapshot), m2)))"

definition Renew ::
  "LinkToken \<Rightarrow> go_duration \<Rightarrow> go_time \<Rightarrow> 'v manager \<Rightarrow> (LinkSnapshot \<times> link_error option) \<times> 'v manager" where
  "Renew token lease now m =
     (case validateLease lease of
        Some e \<Rightarrow> ((zeroSnapshot, Some e), m)
      | None \<Rightarrow>
          (case map_of m (tLinkID token) of
             None \<Rightarrow> ((zeroSnapshot, Some ErrGenerationMismatch), m)
           | Some s \<Rightarrow>
               if \<not> matches (slSnapshot s) token then ((zeroSnapshot, Some ErrGenerationMismatch), m)
               else if \<not> now < snLeaseUntil (slSnapshot s) then
                 let s' = disconnectLocked now (Some leaseExpiredText) s in
                 ((slSnapshot s', Some ErrLeaseExpired), AList.update (tLinkID token) s' m)
               else if snState (slSnapshot s) = StateDisconnected then ((slSnapshot s, Some ErrNotReady), m)
               else
                 let s' = signalLocked (s\<lparr>slSnapshot := (slSnapshot s)\<lparr>snLeaseUntil := now + lease,
                                             snUpdatedAt := now\<rparr>\<rparr>) in
                 ((slSnapshot s', None), AList.update (tLinkID token) s' m)))"

definition Drain ::
  "LinkToken \<Rightarrow> go_time \<Rightarrow> 'v manager \<Rightarrow> (LinkSnapshot \<times> link_error option) \<times> 'v manager" where
  "Drain token now m =
     (case map_of m (tLinkID token) of
        None \<Rightarrow> ((zeroSnapshot, Some ErrGenerationMismatch), m)
      | Some s \<Rightarrow>
          if \<not> matches (slSnapshot s) token then ((zeroSnapshot, Some ErrGenerationMismatch), m)
          else
            let s1 = expireLocked now s in
            if snState (slSnapshot s1) \<noteq> StateReady then
              ((slSnapshot s1, Some ErrNotReady), AList.update (tLinkID token) s1 m)
            else
              let s2 = signalLocked (s1\<lparr>slSnapshot := (slSnapshot s1)\<lparr>snState := StateDraining,
                                           snUpdatedAt := now\<rparr>\<rparr>) in
              ((slSnapshot s2, None), AList.update (tLinkID token) s2 m))"

definition Withdraw :: "LinkToken \<Rightarrow> string option \<Rightarrow> go_time \<Rightarrow> 'v manager \<Rightarrow> bool \<times> 'v manager" where
  "Withdraw token cause now m =
     (case map_of m (tLinkID token) of
        None \<Rightarrow> (False, m)
      | Some s \<Rightarrow>
          if \<not> matches (slSnapshot s) token then (False, m)
          else (True, AList.update (tLinkID token) (disconnectLocked now cause s) m))"

text \<open>\<open>Current\<close>: the value is \<open>Some\<close> exactly when the Go function returns \<open>true\<close>.\<close>

definition Current :: "string \<Rightarrow> go_time \<Rightarrow> 'v manager \<Rightarrow> ('v option \<times> LinkSnapshot) \<times> 'v manager" where
  "Current lid now m =
     (if ValidateID lid \<noteq> None then ((None, zeroSnapshot), m)
      else case map_of m lid of
        None \<Rightarrow> ((None, zeroSnapshot), m)
      | Some s \<Rightarrow>
          let s1 = expireLocked now s; m1 = AList.update lid s1 m in
          if \<not> ReadyAt (slSnapshot s1) now \<or> \<not> slHasValue s1 then ((None, slSnapshot s1), m1)
          else ((slValue s1, slSnapshot s1), m1))"

text \<open>
  One round of the loop of \<open>Wait\<close> up to its \<open>select\<close>: a result, or \<open>None\<close> when it waits for a
  change, the lease's end or the context.
\<close>

definition Wait_round ::
  "string \<Rightarrow> go_time \<Rightarrow> 'v manager \<Rightarrow> (link_error + 'v option \<times> LinkSnapshot) option \<times> 'v manager" where
  "Wait_round lid now m =
     (if ValidateID lid \<noteq> None then (Some (Inl ErrInvalidDescriptor), m)
      else
        let s = expireLocked now (slotLocked lid now m); m1 = AList.update lid s m in
        if ReadyAt (slSnapshot s) now \<and> slHasValue s then (Some (Inr (slValue s, slSnapshot s)), m1)
        else (None, m1))"

definition Link_Snapshot :: "string \<Rightarrow> go_time \<Rightarrow> 'v manager \<Rightarrow> LinkSnapshot option \<times> 'v manager" where
  "Link_Snapshot lid now m =
     (if ValidateID lid \<noteq> None then (None, m)
      else case map_of m lid of
        None \<Rightarrow> (None, m)
      | Some s \<Rightarrow>
          let s1 = expireLocked now s in (Some (slSnapshot s1), AList.update lid s1 m))"

definition Link_List :: "go_time \<Rightarrow> 'v manager \<Rightarrow> LinkSnapshot list \<times> 'v manager" where
  "Link_List now m =
     (let m1 = map (\<lambda>(lid, s). (lid, expireLocked now s)) m in
      (sort_key snLinkID (map (\<lambda>(lid, s). slSnapshot s) m1), m1))"

section \<open>Identifiers agree on both ends\<close>

definition swapEnds :: "Descriptor \<Rightarrow> Descriptor" where
  "swapEnds d = d\<lparr>dLocalNode := dPeerNode d, dPeerNode := dLocalNode d\<rparr>"

lemma normalizeDescriptor_swap:
  assumes "normalizeDescriptor d = Inr (n, lower, upper)"
  shows "normalizeDescriptor (swapEnds d) = Inr (swapEnds n, lower, upper)"
  using assms
  by (auto simp: normalizeDescriptor_def swapEnds_def Let_def split: if_splits option.splits)

text \<open>
  Both ends of an adjacency derive the same link ID: exchanging the local and the peer node of
  a descriptor changes neither the ID nor whether there is one.
\<close>

theorem DeriveID_symmetric: "DeriveID hex256 (swapEnds d) = DeriveID hex256 d"
proof (cases "normalizeDescriptor d")
  case (Inr p)
  obtain n lower upper where "p = (n, lower, upper)" by (cases p)
  with Inr normalizeDescriptor_swap [of d n lower upper] show ?thesis
    by (simp add: DeriveID_def swapEnds_def)
next
  case (Inl e)
  have only: "e = ErrInvalidDescriptor" if "normalizeDescriptor x = Inl e" for x e
    using that by (auto simp: normalizeDescriptor_def Let_def split: if_splits option.splits)
  have "normalizeDescriptor (swapEnds d) = Inl ErrInvalidDescriptor"
  proof (cases "normalizeDescriptor (swapEnds d)")
    case (Inr p)
    obtain n lower upper where "p = (n, lower, upper)" by (cases p)
    with Inr normalizeDescriptor_swap [of "swapEnds d" n lower upper] Inl show ?thesis
      by (simp add: swapEnds_def)
  qed (use only in auto)
  with Inl only [OF Inl] show ?thesis by (simp add: DeriveID_def)
qed

lemma control_free_nul: "\<not> has_control s \<Longrightarrow> CHR 0x00 \<notin> set s"
  by (induction s) (auto simp: Let_def)

lemma hex_nul: "list_all hex_digit s \<Longrightarrow> CHR 0x00 \<notin> set s"
  by (auto simp: list_all_iff hex_digit_def)

lemma nul_separated:
  "a @ z # x = b @ z # y \<Longrightarrow> z \<notin> set a \<Longrightarrow> z \<notin> set b \<Longrightarrow> a = b \<and> x = y"
proof (induction a arbitrary: b)
  case Nil
  then show ?case by (cases b) auto
next
  case (Cons c a)
  then show ?case by (cases b) auto
qed

lemma idMaterial_inj:
  assumes "idMaterial c l u = idMaterial c' l' u'"
    and "CHR 0x00 \<notin> set c" "CHR 0x00 \<notin> set l" "CHR 0x00 \<notin> set u"
    and "CHR 0x00 \<notin> set c'" "CHR 0x00 \<notin> set l'" "CHR 0x00 \<notin> set u'"
  shows "c = c' \<and> l = l' \<and> u = u'"
  using assms by (auto simp: idMaterial_def dest!: nul_separated)

lemma normalizeDescriptor_nul:
  assumes "normalizeDescriptor d = Inr (n, lower, upper)"
  shows "CHR 0x00 \<notin> set (dChainSHA256 n)" "CHR 0x00 \<notin> set lower" "CHR 0x00 \<notin> set upper"
    "{lower, upper} = {dLocalNode n, dPeerNode n}"
  using assms control_free_nul [of "TrimSpace (dLocalNode d)"] control_free_nul [of "TrimSpace (dPeerNode d)"]
    hex_nul [of "ToLower (TrimSpace (dChainSHA256 d))"]
  by (auto simp: normalizeDescriptor_def validNode_def hexDecodes_def Let_def split: if_splits option.splits)

text \<open>
  Different links get different IDs, as far as the digest keeps the two inputs apart: two
  descriptors with the same ID name the same chain and the same pair of nodes, unless the digest
  collides on the two byte strings hashed for them, which are different exactly then.
\<close>

theorem DeriveID_unique:
  assumes "DeriveID hex256 d = Inr lid" "DeriveID hex256 d' = Inr lid"
  shows "\<exists>n n' lower upper lower' upper'.
    normalizeDescriptor d = Inr (n, lower, upper) \<and> normalizeDescriptor d' = Inr (n', lower', upper')
    \<and> (let x = idMaterial (dChainSHA256 n) lower upper; y = idMaterial (dChainSHA256 n') lower' upper' in
       if x = y then dChainSHA256 n = dChainSHA256 n' \<and> {dLocalNode n, dPeerNode n} = {dLocalNode n', dPeerNode n'}
       else hex256 x = hex256 y)"
proof -
  obtain n lower upper where n: "normalizeDescriptor d = Inr (n, lower, upper)"
    "lid = hex256 (idMaterial (dChainSHA256 n) lower upper)"
    using assms(1) by (auto simp: DeriveID_def split: sum.splits)
  obtain n' lower' upper' where n': "normalizeDescriptor d' = Inr (n', lower', upper')"
    "lid = hex256 (idMaterial (dChainSHA256 n') lower' upper')"
    using assms(2) by (auto simp: DeriveID_def split: sum.splits)
  note nul = normalizeDescriptor_nul [OF n(1)] normalizeDescriptor_nul [OF n'(1)]
  note inj = idMaterial_inj [OF _ nul(1-3) nul(5-7)]
  have "(let x = idMaterial (dChainSHA256 n) lower upper; y = idMaterial (dChainSHA256 n') lower' upper' in
       if x = y then dChainSHA256 n = dChainSHA256 n' \<and> {dLocalNode n, dPeerNode n} = {dLocalNode n', dPeerNode n'}
       else hex256 x = hex256 y)"
    using inj nul(4,8) n(2) n'(2) by (metis (no_types, lifting))
  with n(1) n'(1) show ?thesis by blast
qed

text \<open>A concrete link, with a stand-in for the digest.\<close>

definition demo_hex256 :: "string \<Rightarrow> string" where
  "demo_hex256 x = replicate 63 (CHR ''0'') @ (if x = [] then ''0'' else ''f'')"

definition demo_descriptor :: Descriptor where
  "demo_descriptor = \<lparr>dChainSHA256 = replicate 64 (CHR ''A''), dTopology = [''client'', '' gate '', ''host''],
     dLocalNode = ''gate'', dPeerNode = ''host ''\<rparr>"

definition demo_lid :: string where
  "demo_lid = replicate 63 (CHR ''0'') @ ''f''"

lemma demo_strings:
  "TrimSpace (replicate 64 (CHR ''A'')) = replicate 64 (CHR ''A'')"
  "ToLower (replicate 64 (CHR ''A'')) = replicate 64 (CHR ''a'')" "hexDecodes (replicate 64 (CHR ''a''))"
  "TrimSpace ''gate'' = ''gate''" "TrimSpace ''host '' = ''host''" "validNode ''gate''" "validNode ''host''"
  "normTopology [] [''client'', '' gate '', ''host''] = Some [''client'', ''gate'', ''host'']"
  by code_simp+

lemma demo_normalize:
  "normalizeDescriptor demo_descriptor =
     Inr (\<lparr>dChainSHA256 = replicate 64 (CHR ''a''), dTopology = [''client'', ''gate'', ''host''],
           dLocalNode = ''gate'', dPeerNode = ''host''\<rparr>, ''gate'', ''host'')"
  by (simp add: normalizeDescriptor_def demo_descriptor_def demo_strings Let_def del: normTopology.simps)

lemma demo_DeriveID: "DeriveID demo_hex256 demo_descriptor = Inr demo_lid"
  by (simp add: DeriveID_def demo_normalize demo_hex256_def demo_lid_def idMaterial_def IDVersion_def)

theorem DeriveID_unique_witness:
  "\<exists>n n' lower upper lower' upper'.
      normalizeDescriptor demo_descriptor = Inr (n, lower, upper)
      \<and> normalizeDescriptor (swapEnds demo_descriptor) = Inr (n', lower', upper')
      \<and> {dLocalNode n, dPeerNode n} = {dLocalNode n', dPeerNode n'}"
proof -
  have "DeriveID demo_hex256 (swapEnds demo_descriptor) = Inr demo_lid"
    using normalizeDescriptor_swap [OF demo_normalize] demo_DeriveID
    by (simp add: DeriveID_def demo_normalize swapEnds_def)
  from DeriveID_unique [OF demo_DeriveID this] demo_normalize normalizeDescriptor_swap [OF demo_normalize]
  show ?thesis by (fastforce simp: swapEnds_def)
qed

section \<open>Generations\<close>

definition slot_ok :: "string \<Rightarrow> 'v slot \<Rightarrow> bool" where
  "slot_ok lid s =
     (snLinkID (slSnapshot s) = lid \<and> (slHasValue s \<longleftrightarrow> slValue s \<noteq> None)
      \<and> (slHasValue s \<longleftrightarrow> snState (slSnapshot s) \<in> {StateReady, StateDraining}))"

definition link_gen :: "'v manager \<Rightarrow> string \<Rightarrow> nat" where
  "link_gen m lid = (case map_of m lid of None \<Rightarrow> 0 | Some s \<Rightarrow> unat (snGeneration (slSnapshot s)))"

text \<open>What every operation but \<open>Begin\<close> and \<open>Ready\<close> does to a slot: it keeps its generation or less.\<close>

definition slot_keeps :: "'v slot \<Rightarrow> 'v slot \<Rightarrow> bool" where
  "slot_keeps s s' =
     (snLinkID (slSnapshot s') = snLinkID (slSnapshot s)
      \<and> snTransportID (slSnapshot s') = snTransportID (slSnapshot s)
      \<and> snGeneration (slSnapshot s') = snGeneration (slSnapshot s)
      \<and> (slHasValue s' \<longrightarrow> slHasValue s \<and> slValue s' = slValue s)
      \<and> (slot_ok (snLinkID (slSnapshot s)) s \<longrightarrow> slot_ok (snLinkID (slSnapshot s)) s'))"

lemma slot_keeps_refl [simp]: "slot_keeps s s"
  by (simp add: slot_keeps_def)

lemma slot_keeps_trans: "slot_keeps a b \<Longrightarrow> slot_keeps b c \<Longrightarrow> slot_keeps a c"
  by (auto simp: slot_keeps_def)

lemma slot_keeps_disconnect [simp]: "slot_keeps s (disconnectLocked now cause s)"
  by (simp add: slot_keeps_def disconnectLocked_def signalLocked_def slot_ok_def)

lemma slot_keeps_expire [simp]: "slot_keeps s (expireLocked now s)"
  by (simp add: expireLocked_def)

lemma expire_generation [simp]:
  "snGeneration (slSnapshot (expireLocked now s)) = snGeneration (slSnapshot s)"
  using slot_keeps_expire [of s now] by (simp add: slot_keeps_def)

lemma slot_keeps_renew:
  "slot_keeps s (signalLocked (s\<lparr>slSnapshot := (slSnapshot s)\<lparr>snLeaseUntil := l, snUpdatedAt := now\<rparr>\<rparr>))"
  by (auto simp: slot_keeps_def signalLocked_def slot_ok_def)

lemma slot_keeps_drain:
  "snState (slSnapshot s) = StateReady \<Longrightarrow>
     slot_keeps s (signalLocked (s\<lparr>slSnapshot := (slSnapshot s)\<lparr>snState := StateDraining, snUpdatedAt := now\<rparr>\<rparr>))"
  by (auto simp: slot_keeps_def signalLocked_def slot_ok_def)

text \<open>
  A run of a manager together with its history: the tokens and values of the successful calls of
  \<open>Ready\<close>, latest first. \<open>Begin\<close> is taken while no generation has reached its largest value.
\<close>

type_synonym 'v mgr_run = "'v manager \<times> (LinkToken \<times> 'v) list"

inductive mgr_step :: "(string \<Rightarrow> string) \<Rightarrow> 'v mgr_run \<Rightarrow> 'v mgr_run \<Rightarrow> bool" for hex256 where
  ls_begin: "\<forall>lid. link_gen m lid < 2 ^ 64 - 1 \<Longrightarrow> Begin hex256 d tid lease now m = (res, m') \<Longrightarrow>
     mgr_step hex256 (m, log) (m', log)"
| ls_ready: "Ready token v now m = ((sn, None), m') \<Longrightarrow> mgr_step hex256 (m, log) (m', (token, v) # log)"
| ls_ready_fails: "Ready token v now m = ((sn, Some e), m') \<Longrightarrow> mgr_step hex256 (m, log) (m', log)"
| ls_renew: "Renew token lease now m = (res, m') \<Longrightarrow> mgr_step hex256 (m, log) (m', log)"
| ls_drain: "Drain token now m = (res, m') \<Longrightarrow> mgr_step hex256 (m, log) (m', log)"
| ls_withdraw: "Withdraw token cause now m = (res, m') \<Longrightarrow> mgr_step hex256 (m, log) (m', log)"
| ls_current: "Current lid now m = (res, m') \<Longrightarrow> mgr_step hex256 (m, log) (m', log)"
| ls_wait: "Wait_round lid now m = (res, m') \<Longrightarrow> mgr_step hex256 (m, log) (m', log)"
| ls_snapshot: "Link_Snapshot lid now m = (res, m') \<Longrightarrow> mgr_step hex256 (m, log) (m', log)"
| ls_list: "Link_List now m = (res, m') \<Longrightarrow> mgr_step hex256 (m, log) (m', log)"

definition mgr_reachable :: "(string \<Rightarrow> string) \<Rightarrow> 'v mgr_run \<Rightarrow> bool" where
  "mgr_reachable hex256 = (mgr_step hex256)\<^sup>*\<^sup>* ([], [])"

definition slot_hist :: "(LinkToken \<times> 'v) list \<Rightarrow> string \<Rightarrow> 'v slot \<Rightarrow> bool" where
  "slot_hist log lid s =
     (slot_ok lid s \<and>
      (slHasValue s \<longrightarrow>
         (\<lparr>tLinkID = lid, tTransportID = snTransportID (slSnapshot s),
           tGeneration = snGeneration (slSnapshot s)\<rparr>, the (slValue s)) \<in> set log))"

definition log_ok :: "'v manager \<Rightarrow> (LinkToken \<times> 'v) list \<Rightarrow> bool" where
  "log_ok m log = (\<forall>x \<in> set log. unat (tGeneration (fst x)) \<le> link_gen m (tLinkID (fst x)))"

definition mgr_inv :: "'v mgr_run \<Rightarrow> bool" where
  "mgr_inv run =
     (distinct (map fst (fst run)) \<and> (\<forall>x \<in> set (fst run). slot_hist (snd run) (fst x) (snd x))
      \<and> log_ok (fst run) (snd run))"

text \<open>Two shapes of change: one slot is replaced, or all slots change in place.\<close>

lemma link_gen_update:
  "link_gen (AList.update lid s m) l =
     (if l = lid then unat (snGeneration (slSnapshot s)) else link_gen m l)"
  by (simp add: link_gen_def update_conv')

lemma slot_hist_lookup: "mgr_inv (m, log) \<Longrightarrow> slot_hist log lid (slotLocked lid now m)"
  by (auto simp: mgr_inv_def slotLocked_def slot_hist_def slot_ok_def zeroSnapshot_def
      dest!: map_of_SomeD split: option.splits)

lemma link_gen_slotLocked: "link_gen m lid = unat (snGeneration (slSnapshot (slotLocked lid now m)))"
  by (simp add: link_gen_def slotLocked_def zeroSnapshot_def split: option.splits)

lemma slotLocked_Some: "map_of m lid = Some s \<Longrightarrow> slotLocked lid now m = s"
  by (simp add: slotLocked_def)

lemma slot_hist_keeps:
  assumes "slot_hist log lid s" "slot_keeps s s'"
  shows "slot_hist log lid s'"
  using assms by (cases "slHasValue s'") (auto simp: slot_hist_def slot_keeps_def slot_ok_def)

lemma log_ok_mono: "log_ok m log \<Longrightarrow> (\<And>l. link_gen m l \<le> link_gen m' l) \<Longrightarrow> log_ok m' log"
  by (auto simp: log_ok_def intro: order_trans)

lemma mgr_inv_update:
  assumes inv: "mgr_inv (m, log)" and s': "slot_hist log lid s'"
    and gen: "\<And>l. link_gen m l \<le> link_gen (AList.update lid s' m) l"
  shows "mgr_inv (AList.update lid s' m, log)"
proof -
  have "slot_hist log (fst x) (snd x)" if "x \<in> set (AList.update lid s' m)" for x
    using alist_update_mem [OF that] inv s' by (auto simp: mgr_inv_def)
  moreover have "log_ok (AList.update lid s' m) log"
    using inv log_ok_mono [OF _ gen] by (simp add: mgr_inv_def)
  ultimately show ?thesis
    using inv by (simp add: mgr_inv_def distinct_update)
qed

text \<open>What a step has to establish: the invariant, and that no generation goes down.\<close>

definition link_good :: "'v mgr_run \<Rightarrow> 'v mgr_run \<Rightarrow> bool" where
  "link_good run run' = (mgr_inv run' \<and> (\<forall>l. link_gen (fst run) l \<le> link_gen (fst run') l))"

lemma link_good_refl: "mgr_inv (m, log) \<Longrightarrow> link_good (m, log) (m, log)"
  by (simp add: link_good_def)

lemma link_good_slot:
  assumes inv: "mgr_inv (m, log)" and k: "slot_keeps (slotLocked lid now m) s'"
  shows "link_good (m, log) (AList.update lid s' m, log)"
proof -
  have gen: "link_gen (AList.update lid s' m) l = link_gen m l" for l
    using k link_gen_slotLocked [of m lid now] by (simp add: link_gen_update slot_keeps_def)
  from mgr_inv_update [OF inv slot_hist_keeps [OF slot_hist_lookup [OF inv] k]] gen show ?thesis
    by (simp add: link_good_def)
qed

lemma link_good_begin:
  assumes inv: "mgr_inv (m, log)" and few: "\<forall>lid. link_gen m lid < 2 ^ 64 - 1"
    and b: "Begin hex256 d tid lease now m = (res, m')"
  shows "link_good (m, log) (m', log)"
proof (cases res)
  case (Inl e)
  with b inv show ?thesis
    by (auto simp: Begin_def link_good_def Let_def split: sum.splits option.splits)
next
  case (Inr p)
  then obtain lid s' where m': "m' = AList.update lid s' m" and nv: "\<not> slHasValue s'" "slValue s' = None"
    and sn: "snLinkID (slSnapshot s') = lid" "snState (slSnapshot s') = StateConnecting"
      "snGeneration (slSnapshot s') = snGeneration (slSnapshot (expireLocked now (slotLocked lid now m))) + 1"
    using b by (auto simp: Begin_def Let_def signalLocked_def split: sum.splits option.splits)
  have "unat (snGeneration (slSnapshot s')) = link_gen m lid + 1"
    using sn(3) few [rule_format, of lid] link_gen_slotLocked [of m lid now] by (simp add: unat_add_no_wrap)
  then have gen: "link_gen m l \<le> link_gen (AList.update lid s' m) l" for l
    by (simp add: link_gen_update)
  moreover have "slot_hist log lid s'" using nv sn by (simp add: slot_hist_def slot_ok_def)
  ultimately show ?thesis
    using mgr_inv_update [OF inv] m' by (simp add: link_good_def)
qed

lemma Ready_ok:
  assumes "Ready token v now m = ((sn, None), m')"
  obtains s where "map_of m (tLinkID token) = Some s" "matches (slSnapshot s) token"
    "now < snLeaseUntil (slSnapshot s)" "snState (slSnapshot s) = StateConnecting"
    "m' = AList.update (tLinkID token) (signalLocked (s\<lparr>slSnapshot := (slSnapshot s)\<lparr>snState := StateReady,
       snLastError := [], snUpdatedAt := now\<rparr>, slValue := Some v, slHasValue := True\<rparr>)) m"
  using assms by (auto simp: Ready_def Let_def split: option.splits if_splits)

lemma link_good_ready:
  assumes inv: "mgr_inv (m, log)" and r: "Ready token v now m = ((sn, None), m')"
  shows "link_good (m, log) (m', (token, v) # log)"
proof (rule Ready_ok [OF r])
  fix s
  let ?s = "signalLocked (s\<lparr>slSnapshot := (slSnapshot s)\<lparr>snState := StateReady,
       snLastError := [], snUpdatedAt := now\<rparr>, slValue := Some v, slHasValue := True\<rparr>)"
  assume s: "map_of m (tLinkID token) = Some s" "matches (slSnapshot s) token"
    and m': "m' = AList.update (tLinkID token) ?s m"
  have "link_gen m (tLinkID token) = unat (snGeneration (slSnapshot s))"
    using s(1) by (simp add: link_gen_def)
  then have gen: "link_gen m' l = link_gen m l" for l
    by (simp add: m' link_gen_update signalLocked_def)
  have more: "slot_hist ((token, v) # log) l x" if "slot_hist log l x" for l x
    using that by (auto simp: slot_hist_def)
  have "slot_hist ((token, v) # log) (tLinkID token) ?s"
    using s(2) by (simp add: slot_hist_def slot_ok_def signalLocked_def matches_def)
  moreover have "mgr_inv (m, (token, v) # log)"
    using inv more s by (auto simp: mgr_inv_def log_ok_def link_gen_def matches_def)
  ultimately have "mgr_inv (m', (token, v) # log)"
    unfolding m' by (intro mgr_inv_update) (simp_all add: gen [unfolded m'])
  with gen show ?thesis by (simp add: link_good_def)
qed

lemma link_good_list:
  assumes inv: "mgr_inv (m, log)" and l: "Link_List now m = (res, m')"
  shows "link_good (m, log) (m', log)"
proof -
  have m': "m' = map (\<lambda>(lid, s). (lid, expireLocked now s)) m"
    using l by (simp add: Link_List_def Let_def)
  have mo: "map_of m' k = map_option (expireLocked now) (map_of m k)" for k
    unfolding m' by (induction m) auto
  have gen: "link_gen m' k = link_gen m k" for k
    by (simp add: link_gen_def mo split: option.splits)
  have "map fst m' = map fst m" unfolding m' by (induction m) auto
  moreover have "slot_hist log (fst x) (snd x)" if "x \<in> set m'" for x
    using that inv by (fastforce simp: m' mgr_inv_def intro: slot_hist_keeps [OF _ slot_keeps_expire])
  ultimately show ?thesis
    using inv gen by (simp add: link_good_def mgr_inv_def log_ok_def)
qed

lemma mgr_step_good:
  assumes "mgr_step hex256 run run'" "mgr_inv run"
  shows "link_good run run'"
  using assms
proof (cases rule: mgr_step.cases)
  case (ls_ready_fails token v now m sn e m' log)
  with assms(2) show ?thesis
    by (auto simp: Ready_def Let_def link_good_refl slotLocked_Some intro!: link_good_slot
        split: option.splits if_splits)
next
  case (ls_renew token lease now m res m' log)
  with assms(2) show ?thesis
    by (auto simp: Renew_def Let_def link_good_refl slotLocked_Some slot_keeps_renew intro!: link_good_slot
        split: option.splits if_splits)
next
  case (ls_drain token now m res m' log)
  have *: "slot_keeps s (signalLocked (expireLocked now s\<lparr>slSnapshot := (slSnapshot (expireLocked now s))
      \<lparr>snState := StateDraining, snUpdatedAt := now\<rparr>\<rparr>))"
    if "snState (slSnapshot (expireLocked now s)) = StateReady" for s :: "'a slot"
    by (rule slot_keeps_trans [OF slot_keeps_expire slot_keeps_drain [OF that]])
  from ls_drain assms(2) show ?thesis
    by (auto simp: Drain_def Let_def link_good_refl slotLocked_Some * intro!: link_good_slot
        split: option.splits if_splits)
next
  case (ls_withdraw token cause now m res m' log)
  with assms(2) show ?thesis
    by (auto simp: Withdraw_def link_good_refl slotLocked_Some intro!: link_good_slot
        split: option.splits if_splits)
next
  case (ls_current lid now m res m' log)
  with assms(2) show ?thesis
    by (auto simp: Current_def Let_def link_good_refl slotLocked_Some intro!: link_good_slot
        split: option.splits if_splits)
next
  case (ls_wait lid now m res m' log)
  with assms(2) show ?thesis
    by (auto simp: Wait_round_def Let_def link_good_refl intro!: link_good_slot [where now = now]
        split: if_splits)
next
  case (ls_snapshot lid now m res m' log)
  with assms(2) show ?thesis
    by (auto simp: Link_Snapshot_def Let_def link_good_refl slotLocked_Some intro!: link_good_slot
        split: option.splits if_splits)
next
  case (ls_begin m d tid lease now res m' log)
  with assms(2) link_good_begin [OF _ ls_begin(3,4), of log] show ?thesis by simp
next
  case (ls_ready token v now m sn m' log)
  with assms(2) link_good_ready [OF _ ls_ready(3), of log] show ?thesis by simp
next
  case (ls_list now m res m' log)
  with assms(2) link_good_list [OF _ ls_list(3), of log] show ?thesis by simp
qed

lemma mgr_reachable_inv:
  assumes "mgr_reachable hex256 run"
  shows "mgr_inv run"
  using assms unfolding mgr_reachable_def
proof (induction rule: rtranclp_induct)
  case base
  show ?case by (simp add: mgr_inv_def log_ok_def)
next
  case (step run run')
  then show ?case using mgr_step_good [of hex256 run run'] by (simp add: link_good_def)
qed

text \<open>
  The manager as a fencing store. Its states are the reachable ones; a token is accepted when its
  generation is the one its slot has.
\<close>

definition link_accepts :: "'v mgr_run \<Rightarrow> string \<Rightarrow> nat \<Rightarrow> bool" where
  "link_accepts run lid g =
     (\<exists>s token. map_of (fst run) lid = Some s \<and> tLinkID token = lid \<and> unat (tGeneration token) = g
        \<and> matches (slSnapshot s) token)"

interpretation links: fencing "\<lambda>run run'. mgr_inv run \<and> mgr_step hex256 run run'"
    "\<lambda>run. link_gen (fst run)" link_accepts for hex256
proof unfold_locales
  fix run run' :: "'v mgr_run" and k
  assume "mgr_inv run \<and> mgr_step hex256 run run'"
  then show "link_gen (fst run) k \<le> link_gen (fst run') k"
    using mgr_step_good [of hex256 run run'] by (simp add: link_good_def)
next
  fix run :: "'v mgr_run" and k g
  assume "link_accepts run k g"
  then show "g = link_gen (fst run) k"
    by (auto simp: link_accepts_def link_gen_def matches_def)
qed

lemma run_with_inv:
  assumes "(mgr_step hex256)\<^sup>*\<^sup>* run run'" "mgr_inv run"
  shows "(\<lambda>run run'. mgr_inv run \<and> mgr_step hex256 run run')\<^sup>*\<^sup>* run run' \<and> mgr_inv run'"
  using assms
proof (induction rule: rtranclp_induct)
  case (step y z)
  then show ?case
    using mgr_step_good [OF step(2)] by (auto simp: link_good_def intro: rtranclp.rtrancl_into_rtrancl)
qed simp

text \<open>
  C3: A superseded token is refused for ever: once the generation of its link has gone past it,
  every later \<open>Ready\<close>, \<open>Renew\<close> with a valid lease and \<open>Drain\<close> with the token fails with the
  generation error, \<open>Withdraw\<close> reports false, and none of them changes the manager, whatever
  operations ran in between.
\<close>

theorem stale_token_fenced:
  assumes "mgr_reachable hex256 (m, log)" "(mgr_step hex256)\<^sup>*\<^sup>* (m, log) (m', log')"
    and "unat (tGeneration token) < link_gen m (tLinkID token)" "validateLease lease = None"
  shows "Ready token v now m' = ((zeroSnapshot, Some ErrGenerationMismatch), m')
       \<and> Renew token lease now m' = ((zeroSnapshot, Some ErrGenerationMismatch), m')
       \<and> Drain token now m' = ((zeroSnapshot, Some ErrGenerationMismatch), m')
       \<and> Withdraw token cause now m' = (False, m')"
proof -
  have inv: "mgr_inv (m, log)" by (rule mgr_reachable_inv [OF assms(1)])
  have "\<not> link_accepts (m', log') (tLinkID token) (unat (tGeneration token))"
    using links.superseded_refused [OF run_with_inv [OF assms(2) inv, THEN conjunct1]] assms(3) by simp
  then have "\<not> matches (slSnapshot s) token" if "map_of m' (tLinkID token) = Some s" for s
    using that by (auto simp: link_accepts_def)
  with assms(4) show ?thesis
    by (cases "map_of m' (tLinkID token)") (simp_all add: Ready_def Renew_def Drain_def Withdraw_def)
qed

text \<open>
  C9: \<open>Current\<close> hands out only the newest generation: a value it returns was passed to a
  successful \<open>Ready\<close> under exactly the transport and generation of the returned snapshot, the
  lease has not ended, and no value was ever made ready under a later generation of that link.
\<close>

theorem Current_newest:
  assumes "mgr_reachable hex256 (m, log)" "Current lid now m = ((Some v, sn), m')"
  shows "now < snLeaseUntil sn \<and> snLinkID sn = lid
    \<and> (\<lparr>tLinkID = lid, tTransportID = snTransportID sn, tGeneration = snGeneration sn\<rparr>, v) \<in> set log
    \<and> (\<forall>(t, w) \<in> set log. tLinkID t = lid \<longrightarrow> tGeneration t \<le> snGeneration sn)"
proof -
  have inv: "mgr_inv (m, log)" by (rule mgr_reachable_inv [OF assms(1)])
  obtain s where s: "map_of m lid = Some s" "sn = slSnapshot (expireLocked now s)"
      "slValue (expireLocked now s) = Some v" "ReadyAt sn now" "slHasValue (expireLocked now s)"
    using assms(2) by (auto simp: Current_def Let_def split: if_splits option.splits)
  have h: "slot_hist log lid (expireLocked now s)"
    using inv map_of_SomeD [OF s(1)]
    by (fastforce simp: mgr_inv_def intro: slot_hist_keeps [OF _ slot_keeps_expire])
  have "link_gen m lid = unat (snGeneration sn)"
    using s by (simp add: link_gen_def)
  then have "tGeneration t \<le> snGeneration sn" if "(t, w) \<in> set log" "tLinkID t = lid" for t w
    using inv that by (force simp: mgr_inv_def log_ok_def word_le_nat_alt)
  with h s show ?thesis
    by (auto simp: slot_hist_def slot_ok_def ReadyAt_def)
qed

section \<open>Publishing\<close>

lemma map_of_update [simp]: "map_of (AList.update k v al) k = Some v"
  by (simp add: update_conv')

text \<open>The slot a successful \<open>Publish\<close> leaves.\<close>

lemma Publish_ok:
  assumes "DeriveID hex256 d = Inr lid" "ValidateTransportID tid = None" "validateLease lease = None"
    and "now2 < now1 + lease"
  shows "\<exists>token sn s m1. Publish hex256 d tid lease v now1 now2 m = (Inr (token, sn), m1)
     \<and> tLinkID token = lid \<and> map_of m1 lid = Some s \<and> slSnapshot s = sn \<and> slValue s = Some v \<and> slHasValue s
     \<and> snState sn = StateReady \<and> snLeaseUntil sn = now1 + lease"
proof -
  obtain n lo up where n: "normalizeDescriptor d = Inr (n, lo, up)"
    using assms(1) by (auto simp: DeriveID_def split: sum.splits)
  show ?thesis
    using assms(4)
    by (simp add: Publish_def Begin_def assms(1-3) n Ready_def matches_def signalLocked_def Let_def)
qed

text \<open>
  Publishing works and leases end: with a digest that produces IDs, a valid descriptor,
  transport and lease, \<open>Publish\<close> succeeds whatever the manager held before; until the lease ends
  \<open>Current\<close> returns exactly the published value, and from then on it returns none and the link is
  disconnected with the expiry recorded.
\<close>

theorem publish_until_lease_end:
  assumes ids: "\<forall>x. ValidateID (hex256 x) = None"
    and "DeriveID hex256 d = Inr lid" "ValidateTransportID tid = None" "validateLease lease = None"
    and "0 < now1" "now2 < now1 + lease"
  shows "\<exists>token sn m1. Publish hex256 d tid lease v now1 now2 m = (Inr (token, sn), m1)
     \<and> (now < now1 + lease \<longrightarrow> fst (Current lid now m1) = (Some v, sn))
     \<and> (now1 + lease \<le> now \<longrightarrow>
          (\<exists>sn'. fst (Current lid now m1) = (None, sn') \<and> snState sn' = StateDisconnected
                 \<and> snLastError sn' = leaseExpiredText \<and> snGeneration sn' = snGeneration sn))"
proof -
  obtain token sn s m1 where p: "Publish hex256 d tid lease v now1 now2 m = (Inr (token, sn), m1)"
    and s: "map_of m1 lid = Some s" "slSnapshot s = sn" "slValue s = Some v" "slHasValue s"
      "snState sn = StateReady" "snLeaseUntil sn = now1 + lease"
    using Publish_ok [OF assms(2,3,4,6), where v = v and m = m] by blast
  have v: "ValidateID lid = None"
    using assms(2) ids by (auto simp: DeriveID_def split: sum.splits)
  have pos: "now1 + lease \<noteq> 0"
    using assms(4,5) by (auto simp: validateLease_def split: if_splits)
  have "boundedError (Some leaseExpiredText) = leaseExpiredText" by code_simp
  with p v s pos show ?thesis
    by (auto simp: Current_def expireLocked_def disconnectLocked_def signalLocked_def ReadyAt_def Let_def)
qed

lemma demo_ids: "ValidateID (demo_hex256 x) = None"
proof -
  have "ValidateID (replicate 63 (CHR ''0'') @ ''0'') = None" "ValidateID (replicate 63 (CHR ''0'') @ ''f'') = None"
    by code_simp+
  then show ?thesis by (simp add: demo_hex256_def del: replicate_0)
qed

lemma demo_transport: "ValidateTransportID '' transport-1 '' = None"
  by code_simp

theorem publish_until_lease_end_witness:
  "\<exists>token sn m1. Publish demo_hex256 demo_descriptor '' transport-1 '' 1000 (42 :: nat) 100 200 [] = (Inr (token, sn), m1)
     \<and> fst (Current demo_lid 1099 m1) = (Some 42, sn)"
proof -
  have "validateLease 1000 = None" by (simp add: validateLease_def)
  from publish_until_lease_end [of demo_hex256 demo_descriptor demo_lid "'' transport-1 ''" 1000 100 200 42 "[]" 1099]
    demo_ids demo_DeriveID demo_transport this show ?thesis by auto
qed

text \<open>The same link taken over once: two generations, the first token superseded.\<close>

definition demo_first :: "nat mgr_run" where
  "demo_first = (snd (Begin demo_hex256 demo_descriptor ''transport-1'' 1000 100 []), [])"

definition demo_token :: "nat \<Rightarrow> LinkToken" where
  "demo_token g = \<lparr>tLinkID = demo_lid, tTransportID = ''transport-1'', tGeneration = of_nat g\<rparr>"

definition demo_second :: "nat mgr_run" where
  "demo_second = (snd (Ready (demo_token 2) 42 120
     (snd (Begin demo_hex256 demo_descriptor ''transport-1'' 1000 110 (fst demo_first)))), [(demo_token 2, 42)])"

lemma demo_valid: "ValidateTransportID ''transport-1'' = None" "TrimSpace ''transport-1'' = ''transport-1''"
  by code_simp+

lemma demo_Begin:
  "Begin demo_hex256 demo_descriptor ''transport-1'' 1000 now m =
     (let s = expireLocked now (slotLocked demo_lid now m);
          snapshot = \<lparr>snVersion = IDVersion, snLinkID = demo_lid, snTransportID = ''transport-1'',
             snGeneration = snGeneration (slSnapshot s) + 1, snLocalNode = ''gate'', snPeerNode = ''host'',
             snState = StateConnecting, snLastError = [], snLeaseUntil = now + 1000, snUpdatedAt = now\<rparr>
      in (Inr (\<lparr>tLinkID = demo_lid, tTransportID = ''transport-1'', tGeneration = snGeneration (slSnapshot s) + 1\<rparr>,
               snapshot),
          AList.update demo_lid (signalLocked (s\<lparr>slSnapshot := snapshot, slValue := None, slHasValue := False\<rparr>)) m))"
  by (simp add: Begin_def demo_DeriveID demo_valid demo_normalize validateLease_def Let_def)

lemma demo_second_slot:
  "\<exists>s. fst demo_second = [(demo_lid, s)] \<and> snGeneration (slSnapshot s) = 2 \<and> snTransportID (slSnapshot s) = ''transport-1''
     \<and> snState (slSnapshot s) = StateReady \<and> snLeaseUntil (slSnapshot s) = 1110 \<and> slHasValue s \<and> slValue s = Some 42
     \<and> snLinkID (slSnapshot s) = demo_lid"
  by (simp add: demo_second_def demo_first_def demo_Begin demo_token_def Ready_def matches_def slotLocked_def
      expireLocked_def signalLocked_def zeroSnapshot_def Let_def)

lemma demo_second_reachable: "mgr_reachable demo_hex256 demo_second"
proof -
  let ?m2 = "snd (Begin demo_hex256 demo_descriptor ''transport-1'' 1000 110 (fst demo_first))"
  have 1: "mgr_step demo_hex256 ([], []) demo_first"
    unfolding demo_first_def
    by (rule ls_begin [OF _ prod.collapse [symmetric]]) (simp add: link_gen_def)
  have g: "link_gen (fst demo_first) lid < 2 ^ 64 - 1" for lid
    by (simp add: demo_first_def demo_Begin link_gen_def slotLocked_def expireLocked_def signalLocked_def
        zeroSnapshot_def Let_def)
  have 2: "mgr_step demo_hex256 demo_first (?m2, [])"
  proof -
    have "mgr_step demo_hex256 (fst demo_first, []) (?m2, [])"
      by (rule ls_begin [OF _ prod.collapse [symmetric]]) (use g in simp)
    then show ?thesis by (simp add: demo_first_def)
  qed
  have "\<exists>sn. Ready (demo_token 2) 42 120 ?m2 = ((sn, None), fst demo_second)"
    by (simp add: demo_second_def demo_first_def demo_Begin demo_token_def Ready_def matches_def slotLocked_def
      expireLocked_def signalLocked_def zeroSnapshot_def Let_def)
  then have 3: "mgr_step demo_hex256 (?m2, []) demo_second"
    using ls_ready [of "demo_token 2" 42 120 ?m2] by (auto simp: demo_second_def)
  from 1 2 3 show ?thesis unfolding mgr_reachable_def by (meson rtranclp.rtrancl_into_rtrancl rtranclp.rtrancl_refl)
qed

theorem stale_token_fenced_witness:
  "Ready (demo_token 1) 7 130 (fst demo_second) = ((zeroSnapshot, Some ErrGenerationMismatch), fst demo_second)"
proof -
  have "mgr_reachable demo_hex256 (fst demo_second, [(demo_token 2, 42)])"
    using demo_second_reachable by (simp add: demo_second_def)
  moreover have "unat (tGeneration (demo_token 1)) < link_gen (fst demo_second) (tLinkID (demo_token 1))"
    using demo_second_slot by (auto simp: link_gen_def demo_token_def)
  moreover have "validateLease 5 = None" by (simp add: validateLease_def)
  ultimately show ?thesis
    using stale_token_fenced [of demo_hex256 "fst demo_second" "[(demo_token 2, 42)]" "fst demo_second"] by blast
qed

theorem Current_newest_witness:
  "\<exists>sn m'. Current demo_lid 1000 (fst demo_second) = ((Some 42, sn), m') \<and> 1000 < snLeaseUntil sn"
proof -
  have "ValidateID demo_lid = None" using demo_ids [of "''x''"] by (simp add: demo_hex256_def demo_lid_def)
  then obtain sn m' where c: "Current demo_lid 1000 (fst demo_second) = ((Some 42, sn), m')"
    using demo_second_slot by (auto simp: Current_def expireLocked_def ReadyAt_def Let_def)
  have "mgr_reachable demo_hex256 (fst demo_second, [(demo_token 2, 42)])"
    using demo_second_reachable by (simp add: demo_second_def)
  from Current_newest [OF this c] c show ?thesis by blast
qed

end
