(* ===== verification/Wv_Base64.thy ===== *)
theory Wv_Base64
  imports Wv_Prelude
begin

text \<open>
  \<open>base64.RawURLEncoding\<close> and \<open>base64.StdEncoding\<close> of Go's \<open>encoding/base64\<close>, and \<open>encoding/hex\<close>. The
  decoders skip carriage returns and line feeds, refuse every other byte outside the alphabet, and
  ignore the unused low bits of the last character, as Go's non-strict encodings do.

  Shown: decoding undoes encoding, and encoded text is free of white space.
\<close>

section \<open>Six-bit groups\<close>

fun sextets :: "bytes \<Rightarrow> nat list" where
  "sextets [] = []"
| "sextets [a] = [unat a div 4, unat a mod 4 * 16]"
| "sextets [a, b] = [unat a div 4, unat a mod 4 * 16 + unat b div 16, unat b mod 16 * 4]"
| "sextets (a # b # c # rest) =
     unat a div 4 # (unat a mod 4 * 16 + unat b div 16) # (unat b mod 16 * 4 + unat c div 64) # unat c mod 64 # sextets rest"

fun joinSextets :: "nat list \<Rightarrow> bytes option" where
  "joinSextets [] = Some []"
| "joinSextets [x] = None"
| "joinSextets [x, y] = Some [of_nat (x * 4 + y div 16)]"
| "joinSextets [x, y, z] = Some [of_nat (x * 4 + y div 16), of_nat (y mod 16 * 16 + z div 4)]"
| "joinSextets (x # y # z # w # rest) =
     map_option (\<lambda>bs. of_nat (x * 4 + y div 16) # of_nat (y mod 16 * 16 + z div 4) # of_nat (z mod 4 * 64 + w) # bs)
       (joinSextets rest)"

section \<open>Alphabets\<close>

text \<open>The two alphabets differ in the characters for 62 and 63.\<close>

definition b64Char :: "char \<Rightarrow> char \<Rightarrow> nat \<Rightarrow> char" where
  "b64Char c62 c63 k =
     (if k < 26 then char_of (65 + k) else if k < 52 then char_of (71 + k) else if k < 62 then char_of (k - 4)
      else if k = 62 then c62 else c63)"

definition b64Value :: "char \<Rightarrow> char \<Rightarrow> char \<Rightarrow> nat option" where
  "b64Value c62 c63 c =
     (let n = (of_char c :: nat) in
      if 65 \<le> n \<and> n \<le> 90 then Some (n - 65) else if 97 \<le> n \<and> n \<le> 122 then Some (n - 71)
      else if 48 \<le> n \<and> n \<le> 57 then Some (n + 4) else if c = c62 then Some 62 else if c = c63 then Some 63 else None)"

definition b64Line :: "string \<Rightarrow> string" where
  "b64Line s = filter (\<lambda>c. c \<noteq> CHR 0x0A \<and> c \<noteq> CHR 0x0D) s"

definition b64Encode :: "bytes \<Rightarrow> string" where
  "b64Encode bs = map (b64Char (CHR ''-'') (CHR ''_'')) (sextets bs)"

definition b64Decode :: "string \<Rightarrow> bytes option" where
  "b64Decode s =
     Option.bind (those (map (b64Value (CHR ''-'') (CHR ''_'')) (b64Line s))) joinSextets"

text \<open>
  \<open>StdEncoding\<close>: padded with \<open>=\<close> to a multiple of four characters. One or two pad characters must
  end the text, and only where the last group needs them.
\<close>

definition stdDecode :: "string \<Rightarrow> bytes option" where
  "stdDecode s =
     (let line = b64Line s; body = takeWhile (\<lambda>c. c \<noteq> CHR ''='') line;
          pad = length line - length body in
      if length line mod 4 \<noteq> 0 \<or> 2 < pad \<or> drop (length body) line \<noteq> replicate pad (CHR ''='') then None
      else Option.bind (those (map (b64Value (CHR ''+'') (CHR ''/'')) body)) joinSextets)"

section \<open>Hexadecimal\<close>

definition hexValue :: "char \<Rightarrow> nat option" where
  "hexValue c =
     (let n = (of_char c :: nat) in
      if 48 \<le> n \<and> n \<le> 57 then Some (n - 48) else if 97 \<le> n \<and> n \<le> 102 then Some (n - 87)
      else if 65 \<le> n \<and> n \<le> 70 then Some (n - 55) else None)"

fun joinNibbles :: "nat list \<Rightarrow> bytes option" where
  "joinNibbles [] = Some []"
| "joinNibbles [x] = None"
| "joinNibbles (x # y # rest) = map_option (\<lambda>bs. of_nat (x * 16 + y) # bs) (joinNibbles rest)"

definition hexDecode :: "string \<Rightarrow> bytes option" where
  "hexDecode s = Option.bind (those (map hexValue s)) joinNibbles"

definition hexDigit :: "nat \<Rightarrow> char" where
  "hexDigit k = (if k < 10 then char_of (48 + k) else char_of (87 + k))"

fun hexEncode :: "bytes \<Rightarrow> string" where
  "hexEncode [] = []"
| "hexEncode (b # bs) = hexDigit (unat b div 16) # hexDigit (unat b mod 16) # hexEncode bs"

section \<open>Round trips\<close>

lemma byte_lt: "unat (b :: byte) < 256"
  using unsigned_less [of b, where ?'a = nat] by simp

lemma byte_eq: "(of_nat (unat (b :: byte)) :: byte) = b"
  by simp

lemma sextets_lt: "k \<in> set (sextets bs) \<Longrightarrow> k < 64"
proof (induction bs rule: sextets.induct)
  case (2 a)
  then show ?case using byte_lt [of a] by auto
next
  case (3 a b)
  then show ?case using byte_lt [of a] byte_lt [of b] by auto
next
  case (4 a b c rest)
  then show ?case using byte_lt [of a] byte_lt [of b] byte_lt [of c] by auto
qed simp

lemma join_one: "n < 256 \<Longrightarrow> (of_nat (n div 4 * 4 + (n mod 4 * 16 + m) div 16) :: byte) = of_nat n" if "m < 16" for m n :: nat
proof -
  have "(n mod 4 * 16 + m) div 16 = n mod 4" using that by simp
  then show ?thesis by (metis div_mult_mod_eq)
qed

lemma join_two: "(of_nat ((h * 16 + n div 16) mod 16 * 16 + (n mod 16 * 4 + m) div 4) :: byte) = of_nat n"
  if "m < 4" "n < 256" for h m n :: nat
proof -
  have "(h * 16 + n div 16) mod 16 = n div 16" using that by simp
  moreover have "(n mod 16 * 4 + m) div 4 = n mod 16" using that by simp
  ultimately show ?thesis by (metis div_mult_mod_eq)
qed

lemma join_three: "(of_nat ((h * 4 + n div 64) mod 4 * 64 + n mod 64) :: byte) = of_nat n" if "n < 256" for h n :: nat
proof -
  have "(h * 4 + n div 64) mod 4 = n div 64" using that by simp
  then show ?thesis by (metis div_mult_mod_eq)
qed

lemma joinSextets_sextets: "joinSextets (sextets bs) = Some bs"
proof (induction bs rule: sextets.induct)
  case (2 a)
  show ?case using join_one [of 0 "unat a"] byte_lt [of a] byte_eq [of a] by simp
next
  case (3 a b)
  show ?case
    using join_one [of "unat b div 16" "unat a"] join_two [of 0 "unat b" "unat a mod 4"] byte_lt [of a] byte_lt [of b]
    by (simp add: less_mult_imp_div_less)
next
  case (4 a b c rest)
  show ?case
    using 4 join_one [of "unat b div 16" "unat a"] join_two [of "unat c div 64" "unat b" "unat a mod 4"]
      join_three [of "unat c" "unat b mod 16"] byte_lt [of a] byte_lt [of b] byte_lt [of c]
    by (simp add: less_mult_imp_div_less)
qed simp

lemma b64Char_code: "k < 64 \<Longrightarrow> 45 \<le> (of_char (b64Char (CHR ''-'') (CHR ''_'') k) :: nat)"
  "k < 64 \<Longrightarrow> (of_char (b64Char (CHR ''-'') (CHR ''_'') k) :: nat) \<le> 122"
  by (auto simp: b64Char_def)

lemma b64Value_Char:
  "k < 64 \<Longrightarrow> b64Value (CHR ''-'') (CHR ''_'') (b64Char (CHR ''-'') (CHR ''_'') k) = Some k"
  "k < 64 \<Longrightarrow> b64Char (CHR ''-'') (CHR ''_'') k \<noteq> CHR 0x0A \<and> b64Char (CHR ''-'') (CHR ''_'') k \<noteq> CHR 0x0D"
proof -
  show "b64Value (CHR ''-'') (CHR ''_'') (b64Char (CHR ''-'') (CHR ''_'') k) = Some k" if "k < 64"
    using that by (auto simp: b64Value_def b64Char_def Let_def)
  show "b64Char (CHR ''-'') (CHR ''_'') k \<noteq> CHR 0x0A \<and> b64Char (CHR ''-'') (CHR ''_'') k \<noteq> CHR 0x0D" if "k < 64"
    using b64Char_code(1) [OF that] by (intro conjI notI) simp_all
qed

lemma those_map_Some: "(\<And>x. x \<in> set xs \<Longrightarrow> f x = Some (g x)) \<Longrightarrow> those (map f xs) = Some (map g xs)"
  by (induction xs) auto

lemma b64_roundtrip [simp]: "b64Decode (b64Encode bs) = Some bs"
proof -
  have "b64Line (b64Encode bs) = b64Encode bs"
    unfolding b64Line_def b64Encode_def by (rule filter_True) (auto dest: sextets_lt b64Value_Char(2))
  moreover have "those (map (b64Value (CHR ''-'') (CHR ''_'')) (b64Encode bs)) = Some (sextets bs)"
    unfolding b64Encode_def map_map comp_def
    using those_map_Some [of "sextets bs" "\<lambda>k. b64Value (CHR ''-'') (CHR ''_'') (b64Char (CHR ''-'') (CHR ''_'') k)" "\<lambda>k. k"]
    by (simp add: b64Value_Char(1) sextets_lt)
  ultimately show ?thesis by (simp add: b64Decode_def joinSextets_sextets)
qed

lemma length_sextets: "length (sextets bs) = (4 * length bs + 2) div 3"
  by (induction bs rule: sextets.induct) auto

lemma length_b64Encode: "length (b64Encode bs) = (4 * length bs + 2) div 3"
  by (simp add: b64Encode_def length_sextets)

lemma trimmed_graphic:
  assumes "\<And>c. c \<in> set s \<Longrightarrow> 33 \<le> (of_char c :: nat) \<and> (of_char c :: nat) \<le> 126"
  shows "trimmed s"
proof -
  have "\<exists>c \<in> set p. \<not> (33 \<le> (of_char c :: nat) \<and> (of_char c :: nat) \<le> 126)" if "p \<in> set white_space" for p
    using that by (auto simp: white_space_def)
  then have "\<not> set p \<subseteq> set s" if "p \<in> set white_space" for p
    using that assms by blast
  then show ?thesis
    unfolding trimmed_def list_all_iff using set_mono_prefix set_mono_suffix by blast
qed

lemma TrimSpace_b64Encode [simp]: "TrimSpace (b64Encode bs) = b64Encode bs"
proof (rule TrimSpace_id, rule trimmed_graphic)
  fix c
  assume "c \<in> set (b64Encode bs)"
  then obtain k where "k < 64" "c = b64Char (CHR ''-'') (CHR ''_'') k" by (auto simp: b64Encode_def dest: sextets_lt)
  with b64Char_code [of k] show "33 \<le> (of_char c :: nat) \<and> (of_char c :: nat) \<le> 126" by auto
qed

lemma b64Encode_eq_Nil [simp]: "b64Encode bs = [] \<longleftrightarrow> bs = []"
  by (cases bs rule: sextets.cases) (auto simp: b64Encode_def)

end
