(* ===== verification/Auth_Grant.thy ===== *)
theory Auth_Grant
  imports Wv_Base64
begin

text \<open>
  Signed grants: \<open>src/authproof/proof.go\<close> and the security levels of
  \<open>src/authproof/authority.go\<close>. What the code takes from Go's \<open>crypto/ed25519\<close>, \<open>crypto/sha256\<close>
  and \<open>encoding/json\<close> is a parameter: the record \<open>crypto\<close> and the function \<open>marshal\<close>;
  \<open>encoding/base64\<close> is the theory \<open>Wv_Base64\<close>. Keys, signatures and canonical encodings are byte strings. An error is its sentinel;
  the text wrapped around it is left out. The pointer to a \<open>NonceCache\<close> is an option; its map is
  an association list.

  Shown: normalisation is idempotent; a signed grant verifies; a verified grant is signed, in its
  validity window and matches every option; a nonce is accepted once until its expiry; the
  authority decision is exactly the conjunction of the level's requirements.
\<close>

section \<open>Errors and parameters\<close>

datatype auth_error =
    ErrInvalidGrant | ErrInvalidSignature | ErrExpiredGrant | ErrNotYetValid | ErrWrongAudience
  | ErrWrongSubject | ErrMissingCapability | ErrWrongX11CookieHash | ErrWrongChainHash
  | ErrGrantTTLTooLong | ErrReplay | ErrWrongFrameType
  | ErrInvalidSecurityLevel | ErrInsufficientAuthority | ErrWrongSecurityLevel
  | ErrInvalidReconnectIdentity | ErrInvalidProofMode | ErrProofDisabled
  | ErrMarshal | ErrUnmarshal | ErrReadFile | ErrRandom
  | ErrUnexpectedEnd | ErrEndOfStream | ErrAgentDial | ErrAgentWrite
  | ErrInvalidNativeForwardingMode | ErrUnsafeNativeForwardingPolicy | ErrNativeForwardingProofRequired

record crypto =
  edVerify :: "bytes \<Rightarrow> bytes \<Rightarrow> bytes \<Rightarrow> bool"
  edSign :: "bytes \<Rightarrow> bytes \<Rightarrow> bytes"
  edSeedKey :: "bytes \<Rightarrow> bytes"
  sha256Sum :: "bytes \<Rightarrow> bytes"

text \<open>
  What Go documents of these functions: a signature made with a private key has 64 bytes and
  verifies under its public key.
\<close>

definition crypto_laws :: "crypto \<Rightarrow> bytes \<Rightarrow> bytes \<Rightarrow> bool" where
  "crypto_laws C priv pub =
     (\<forall>msg. edVerify C pub msg (edSign C priv msg) \<and> length (edSign C priv msg) = 64)"

section \<open>Capabilities and digests\<close>

definition SHA256Hex :: "crypto \<Rightarrow> bytes \<Rightarrow> string" where
  "SHA256Hex C data = hexEncode (sha256Sum C data)"

abbreviation CapabilityX11Relay :: string where "CapabilityX11Relay \<equiv> ''x11.relay''"
abbreviation CapabilityWebSocketUpgrade :: string where "CapabilityWebSocketUpgrade \<equiv> ''websocket.upgrade''"
abbreviation CapabilitySocksProxy :: string where "CapabilitySocksProxy \<equiv> ''socks.proxy''"
abbreviation CapabilityFileBackhaul :: string where "CapabilityFileBackhaul \<equiv> ''file.backhaul''"
abbreviation CapabilityVFSMesh :: string where "CapabilityVFSMesh \<equiv> ''vfs.mesh''"
abbreviation CapabilityNodeContext :: string where "CapabilityNodeContext \<equiv> ''node.context''"
abbreviation CapabilityMapReduce :: string where "CapabilityMapReduce \<equiv> ''compute.mapreduce''"

text \<open>The loop that trims, drops empty strings and drops repetitions, \<open>seen\<close> met before.\<close>

fun trimUnique :: "string list \<Rightarrow> string list \<Rightarrow> string list" where
  "trimUnique seen [] = []"
| "trimUnique seen (raw # rest) =
     (let s = TrimSpace raw in
      if s = [] then trimUnique seen rest
      else if s \<in> set seen then trimUnique seen rest
      else s # trimUnique (s # seen) rest)"

definition normalizeCapabilities :: "string list \<Rightarrow> string list" where
  "normalizeCapabilities caps = sort (trimUnique [] caps)"

definition hasCapability :: "string list \<Rightarrow> string \<Rightarrow> bool" where
  "hasCapability caps required = list_ex (\<lambda>cap. cap = TrimSpace required) caps"

definition knownCapability :: "string \<Rightarrow> bool" where
  "knownCapability cap =
     (cap \<in> {CapabilityX11Relay, CapabilityWebSocketUpgrade, CapabilitySocksProxy, CapabilityFileBackhaul,
             CapabilityVFSMesh, CapabilityNodeContext, CapabilityMapReduce})"

definition lower_hex_digit :: "char \<Rightarrow> bool" where
  "lower_hex_digit c = (let n = (of_char c :: nat) in (48 \<le> n \<and> n \<le> 57) \<or> (97 \<le> n \<and> n \<le> 102))"

definition isLowerHexSHA256 :: "string \<Rightarrow> bool" where
  "isLowerHexSHA256 s = (if length s \<noteq> 64 then False else list_all lower_hex_digit s)"

lemma length_hexEncode [simp]: "length (hexEncode bs) = 2 * length bs"
  by (induction bs) auto

lemma hexEncode_lower: "list_all lower_hex_digit (hexEncode bs)"
proof (induction bs)
  case (Cons b bs)
  have "lower_hex_digit (hexDigit k)" if "k < 16" for k
    using that by (auto simp: lower_hex_digit_def hexDigit_def Let_def)
  moreover have "unat b div 16 < 16" using byte_lt [of b] by simp
  ultimately show ?case using Cons by simp
qed simp

lemma SHA256Hex_lower: "length (sha256Sum C b) = 32 \<Longrightarrow> isLowerHexSHA256 (SHA256Hex C b)"
  by (simp add: isLowerHexSHA256_def SHA256Hex_def hexEncode_lower)

lemma lower_hex_normal: "isLowerHexSHA256 s \<Longrightarrow> ToLower (TrimSpace s) = s"
proof -
  assume s: "isLowerHexSHA256 s"
  then have d: "c \<in> set s \<Longrightarrow> lower_hex_digit c" for c by (auto simp: isLowerHexSHA256_def list_all_iff split: if_splits)
  have "trimmed s"
    by (rule trimmed_graphic) (use d in \<open>fastforce simp: lower_hex_digit_def Let_def\<close>)
  moreover have "ToLower s = s"
    unfolding ToLower_def by (rule map_idI) (use d in \<open>fastforce simp: lower_char_def lower_hex_digit_def Let_def\<close>)
  ultimately show ?thesis by (simp add: TrimSpace_id)
qed

section \<open>Security levels\<close>

abbreviation SecurityLevelCompat :: string where "SecurityLevelCompat \<equiv> ''compat''"
abbreviation SecurityLevelSameUID :: string where "SecurityLevelSameUID \<equiv> ''same_uid''"
abbreviation SecurityLevelX11Cookie :: string where "SecurityLevelX11Cookie \<equiv> ''x11_cookie''"
abbreviation SecurityLevelAgentProof :: string where "SecurityLevelAgentProof \<equiv> ''agent_proof''"
abbreviation SecurityLevelStrict :: string where "SecurityLevelStrict \<equiv> ''strict''"

abbreviation RequirementSameUID :: string where "RequirementSameUID \<equiv> ''same_uid''"
abbreviation RequirementX11Cookie :: string where "RequirementX11Cookie \<equiv> ''x11_cookie''"
abbreviation RequirementAgentKeyProof :: string where "RequirementAgentKeyProof \<equiv> ''agent_key_proof''"
abbreviation RequirementNoAdditionalCheck :: string where "RequirementNoAdditionalCheck \<equiv> ''no_additional_check''"

text \<open>\<open>strings.ReplaceAll\<close> of one character by another.\<close>

definition replaceChar :: "char \<Rightarrow> char \<Rightarrow> string \<Rightarrow> string" where
  "replaceChar a b s = map (\<lambda>c. if c = a then b else c) s"

definition NormalizeSecurityLevel :: "string \<Rightarrow> string" where
  "NormalizeSecurityLevel level =
     (let key = ToLower (TrimSpace (replaceChar (CHR ''-'') (CHR ''_'') level)) in
      if key \<in> {[], ''auto'', SecurityLevelCompat} then SecurityLevelCompat
      else if key \<in> {''sameuid'', ''same_uid'', ''uid''} then SecurityLevelSameUID
      else if key \<in> {''cookie'', ''x11'', ''x11_cookie'', ''mit_cookie'', ''mit_magic_cookie''} then
        SecurityLevelX11Cookie
      else if key \<in> {''agent'', ''agent_proof'', ''ssh_agent'', ''ssh_agent_proof'', ''key_proof'', ''private_key''}
        then SecurityLevelAgentProof
      else if key = SecurityLevelStrict then SecurityLevelStrict
      else ToLower (TrimSpace level))"

definition KnownSecurityLevel :: "string \<Rightarrow> bool" where
  "KnownSecurityLevel level =
     (NormalizeSecurityLevel level
      \<in> {SecurityLevelCompat, SecurityLevelSameUID, SecurityLevelX11Cookie, SecurityLevelAgentProof,
         SecurityLevelStrict})"

definition ValidateSecurityLevel :: "string \<Rightarrow> auth_error option" where
  "ValidateSecurityLevel level = (if \<not> KnownSecurityLevel level then Some ErrInvalidSecurityLevel else None)"

definition SecurityLevelRequiresSignedProof :: "string \<Rightarrow> bool" where
  "SecurityLevelRequiresSignedProof level =
     (NormalizeSecurityLevel level \<in> {SecurityLevelAgentProof, SecurityLevelStrict})"

definition SecurityLevelRequirements :: "string \<Rightarrow> string list" where
  "SecurityLevelRequirements level =
     (let n = NormalizeSecurityLevel level in
      if n = SecurityLevelCompat then [RequirementNoAdditionalCheck]
      else if n = SecurityLevelSameUID then [RequirementSameUID]
      else if n = SecurityLevelX11Cookie then [RequirementSameUID, RequirementX11Cookie]
      else if n = SecurityLevelAgentProof then [RequirementX11Cookie, RequirementAgentKeyProof]
      else if n = SecurityLevelStrict then [RequirementSameUID, RequirementX11Cookie, RequirementAgentKeyProof]
      else [])"

record AuthorityEvidence =
  evSameUID :: bool
  evX11CookieMatched :: bool
  evAgentSocketPresent :: bool
  evAgentKeyProofVerified :: bool
  evPrincipalUID :: string
  evComponentUID :: string

record AuthorityDecision =
  adLevel :: string
  adAllowed :: bool
  adRequired :: "string list"
  adMissing :: "string list"
  adNotes :: "string list"

text \<open>The \<open>switch\<close> in the loop of \<open>EvaluateAuthority\<close>: is the requirement unmet?\<close>

definition requirementMissing :: "AuthorityEvidence \<Rightarrow> string \<Rightarrow> bool" where
  "requirementMissing ev requirement =
     (if requirement = RequirementNoAdditionalCheck then False
      else if requirement = RequirementSameUID then \<not> evSameUID ev
      else if requirement = RequirementX11Cookie then \<not> evX11CookieMatched ev
      else if requirement = RequirementAgentKeyProof then \<not> evAgentKeyProofVerified ev
      else False)"

definition EvaluateAuthority ::
  "string \<Rightarrow> AuthorityEvidence \<Rightarrow> AuthorityDecision \<times> auth_error option" where
  "EvaluateAuthority level evidence =
     (let normalized = NormalizeSecurityLevel level in
      case ValidateSecurityLevel normalized of
        Some e \<Rightarrow>
          (\<lparr>adLevel = normalized, adAllowed = False, adRequired = [], adMissing = [], adNotes = []\<rparr>, Some e)
      | None \<Rightarrow>
          let required = SecurityLevelRequirements normalized;
              missing = filter (requirementMissing evidence) required;
              notes =
                (if evAgentSocketPresent evidence \<and> \<not> evAgentKeyProofVerified evidence
                 then [''agent_socket_present_without_verified_key_proof''] else [])
                @ (if evPrincipalUID evidence \<noteq> [] \<and> evComponentUID evidence \<noteq> []
                      \<and> evPrincipalUID evidence = evComponentUID evidence \<and> \<not> evSameUID evidence
                   then [''uid_fields_match_but_same_uid_flag_not_set''] else []);
              decision = \<lparr>adLevel = normalized, adAllowed = (missing = []), adRequired = required,
                          adMissing = missing, adNotes = notes\<rparr>
          in if \<not> adAllowed decision then (decision, Some ErrInsufficientAuthority) else (decision, None))"

section \<open>The replay cache\<close>

type_synonym NonceCache = "(string \<times> int) list"

definition CheckAndStore ::
  "string \<Rightarrow> int \<Rightarrow> go_time \<Rightarrow> NonceCache option \<Rightarrow> auth_error option \<times> NonceCache option" where
  "CheckAndStore nonce expiresAtUnix now cache =
     (case cache of
        None \<Rightarrow> (None, None)
      | Some seen \<Rightarrow>
          let nowUnix = go_unix now;
              live = filter (\<lambda>(n, exp). \<not> exp \<le> nowUnix) seen in
          if map_of live nonce \<noteq> None then (Some ErrReplay, Some live)
          else (None, Some (AList.update nonce expiresAtUnix live)))"

definition Accept :: "string \<Rightarrow> int \<Rightarrow> go_time \<Rightarrow> NonceCache option \<Rightarrow> bool \<times> NonceCache option" where
  "Accept nonce expiresAtUnix now cache =
     (case CheckAndStore nonce expiresAtUnix now cache of (err, cache') \<Rightarrow> (err = None, cache'))"

section \<open>Grants\<close>

definition Version :: string where "Version = ''weaverssh.auth.v1''"
definition Algorithm :: string where "Algorithm = ''Ed25519''"

record Grant =
  gVersion :: string
  gAlgorithm :: string
  gIssuerPeerID :: string
  gSubjectPeerID :: string
  gAudience :: string
  gSessionID :: string
  gCapabilities :: "string list"
  gSecurityLevel :: string
  gX11CookieSHA256 :: string
  gChainSHA256 :: string
  gNonce :: string
  gIssuedAtUnix :: int
  gExpiresAtUnix :: int

record SignedGrant =
  sgGrant :: Grant
  sgSignature :: string

record VerifyOptions =
  voNow :: go_time
  voAudience :: string
  voSubjectPeerID :: string
  voRequiredCapabilities :: "string list"
  voSecurityLevel :: string
  voX11CookieSHA256 :: string
  voChainSHA256 :: string
  voMaxTTL :: go_duration
  voReplayCache :: "NonceCache option"

definition Grant_Normalized :: "Grant \<Rightarrow> Grant" where
  "Grant_Normalized g =
     g\<lparr>gVersion := (if gVersion g = [] then Version else gVersion g),
       gAlgorithm := (if gAlgorithm g = [] then Algorithm else gAlgorithm g),
       gIssuerPeerID := TrimSpace (gIssuerPeerID g),
       gSubjectPeerID := TrimSpace (gSubjectPeerID g),
       gAudience := TrimSpace (gAudience g),
       gSessionID := TrimSpace (gSessionID g),
       gNonce := TrimSpace (gNonce g),
       gX11CookieSHA256 := ToLower (TrimSpace (gX11CookieSHA256 g)),
       gChainSHA256 := ToLower (TrimSpace (gChainSHA256 g)),
       gCapabilities := normalizeCapabilities (gCapabilities g),
       gSecurityLevel :=
         (if NormalizeSecurityLevel (gSecurityLevel g) = SecurityLevelCompat then []
          else NormalizeSecurityLevel (gSecurityLevel g))\<rparr>"

definition Grant_Validate :: "Grant \<Rightarrow> auth_error option" where
  "Grant_Validate raw =
     (let g = Grant_Normalized raw in
      if gVersion g \<noteq> Version then Some ErrInvalidGrant
      else if gAlgorithm g \<noteq> Algorithm then Some ErrInvalidGrant
      else if [] \<in> {gIssuerPeerID g, gSubjectPeerID g, gAudience g, gSessionID g, gNonce g,
                    gX11CookieSHA256 g, gChainSHA256 g} then Some ErrInvalidGrant
      else if gCapabilities g = [] then Some ErrInvalidGrant
      else if gSecurityLevel g \<noteq> [] \<and> \<not> KnownSecurityLevel (gSecurityLevel g) then Some ErrInvalidSecurityLevel
      else if \<not> isLowerHexSHA256 (gX11CookieSHA256 g) then Some ErrInvalidGrant
      else if \<not> isLowerHexSHA256 (gChainSHA256 g) then Some ErrInvalidGrant
      else if gIssuedAtUnix g \<le> 0 \<or> gExpiresAtUnix g \<le> 0 \<or> gExpiresAtUnix g \<le> gIssuedAtUnix g then
        Some ErrInvalidGrant
      else if \<not> list_all knownCapability (gCapabilities g) then Some ErrInvalidGrant
      else None)"

definition CanonicalBytes :: "(Grant \<Rightarrow> bytes option) \<Rightarrow> Grant \<Rightarrow> auth_error + bytes" where
  "CanonicalBytes marshal raw =
     (let g = Grant_Normalized raw in
      case Grant_Validate g of
        Some e \<Rightarrow> Inl e
      | None \<Rightarrow> (case marshal g of None \<Rightarrow> Inl ErrMarshal | Some b \<Rightarrow> Inr b))"

definition SignGrant :: "crypto \<Rightarrow> (Grant \<Rightarrow> bytes option) \<Rightarrow> Grant \<Rightarrow> bytes \<Rightarrow> auth_error + SignedGrant" where
  "SignGrant C marshal g privateKey =
     (if length privateKey \<noteq> 64 then Inl ErrInvalidGrant
      else case CanonicalBytes marshal g of
        Inl e \<Rightarrow> Inl e
      | Inr canonical \<Rightarrow>
          Inr \<lparr>sgGrant = Grant_Normalized g, sgSignature = b64Encode (edSign C privateKey canonical)\<rparr>)"

text \<open>
  \<open>time.Duration(expires-issued)*time.Second\<close>, with the wrap-around of its \<open>int64\<close> product.
\<close>

definition ttlDuration :: "int \<Rightarrow> int \<Rightarrow> go_duration" where
  "ttlDuration issued expires = go_int64 (go_int64 (expires - issued) * go_second)"

text \<open>
  The checks of \<open>VerifySignedGrant\<close> between the signature and the replay cache, in their order.
\<close>

definition grantOptionsError :: "VerifyOptions \<Rightarrow> go_time \<Rightarrow> Grant \<Rightarrow> auth_error option" where
  "grantOptionsError opts now grant =
     (let nowUnix = go_unix now in
      if nowUnix < gIssuedAtUnix grant then Some ErrNotYetValid
      else if gExpiresAtUnix grant \<le> nowUnix then Some ErrExpiredGrant
      else if 0 < voMaxTTL opts \<and> voMaxTTL opts < ttlDuration (gIssuedAtUnix grant) (gExpiresAtUnix grant) then
        Some ErrGrantTTLTooLong
      else if voAudience opts \<noteq> [] \<and> gAudience grant \<noteq> voAudience opts then Some ErrWrongAudience
      else if voSubjectPeerID opts \<noteq> [] \<and> gSubjectPeerID grant \<noteq> voSubjectPeerID opts then Some ErrWrongSubject
      else if \<not> list_all (hasCapability (gCapabilities grant)) (voRequiredCapabilities opts) then
        Some ErrMissingCapability
      else if voSecurityLevel opts \<noteq> []
           \<and> NormalizeSecurityLevel (gSecurityLevel grant) \<noteq> NormalizeSecurityLevel (voSecurityLevel opts) then
        Some ErrWrongSecurityLevel
      else if voX11CookieSHA256 opts \<noteq> []
           \<and> gX11CookieSHA256 grant \<noteq> ToLower (TrimSpace (voX11CookieSHA256 opts)) then
        Some ErrWrongX11CookieHash
      else if voChainSHA256 opts \<noteq> [] \<and> gChainSHA256 grant \<noteq> ToLower (TrimSpace (voChainSHA256 opts)) then
        Some ErrWrongChainHash
      else None)"

text \<open>
  \<open>VerifySignedGrant\<close>. \<open>clock\<close> is the reading of \<open>time.Now\<close>, used when the options leave \<open>Now\<close>
  zero. The second component of the result is the replay cache afterwards.
\<close>

definition VerifySignedGrant ::
  "crypto \<Rightarrow> (Grant \<Rightarrow> bytes option) \<Rightarrow> go_time \<Rightarrow> SignedGrant \<Rightarrow> bytes \<Rightarrow> VerifyOptions \<Rightarrow>
     (auth_error + Grant) \<times> NonceCache option" where
  "VerifySignedGrant C marshal clock sg publicKey opts =
     (let cache = voReplayCache opts; grant = Grant_Normalized (sgGrant sg) in
      if length publicKey \<noteq> 32 then (Inl ErrInvalidGrant, cache)
      else case Grant_Validate grant of
        Some e \<Rightarrow> (Inl e, cache)
      | None \<Rightarrow>
      case CanonicalBytes marshal grant of
        Inl e \<Rightarrow> (Inl e, cache)
      | Inr canonical \<Rightarrow>
      case b64Decode (sgSignature sg) of
        None \<Rightarrow> (Inl ErrInvalidSignature, cache)
      | Some sig \<Rightarrow>
      if length sig \<noteq> 64 then (Inl ErrInvalidSignature, cache)
      else if \<not> edVerify C publicKey canonical sig then (Inl ErrInvalidSignature, cache)
      else
        let now = (if voNow opts = 0 then clock else voNow opts) in
        case grantOptionsError opts now grant of
          Some e \<Rightarrow> (Inl e, cache)
        | None \<Rightarrow>
            (case CheckAndStore (gNonce grant) (gExpiresAtUnix grant) now cache of
               (Some e, cache') \<Rightarrow> (Inl e, cache')
             | (None, cache') \<Rightarrow> (Inr grant, cache')))"

text \<open>Control frames.\<close>

record ControlFrame =
  cfType :: string
  cfProof :: SignedGrant

definition NewControlFrame :: "SignedGrant \<Rightarrow> ControlFrame" where
  "NewControlFrame proof = \<lparr>cfType = Version, cfProof = proof\<rparr>"

definition MarshalControlFrame :: "(ControlFrame \<Rightarrow> bytes option) \<Rightarrow> SignedGrant \<Rightarrow> auth_error + bytes" where
  "MarshalControlFrame marshalFrame proof =
     (case marshalFrame (NewControlFrame proof) of None \<Rightarrow> Inl ErrMarshal | Some b \<Rightarrow> Inr b)"

definition ParseControlFrame :: "(bytes \<Rightarrow> ControlFrame option) \<Rightarrow> bytes \<Rightarrow> auth_error + SignedGrant" where
  "ParseControlFrame unmarshalFrame data =
     (case unmarshalFrame data of
        None \<Rightarrow> Inl ErrUnmarshal
      | Some frame \<Rightarrow> if cfType frame \<noteq> Version then Inl ErrWrongFrameType else Inr (cfProof frame))"

section \<open>Normal forms\<close>

text \<open>Trimming commutes with maps on characters that respect the white-space encodings.\<close>

lemma prefix_map_respect:
  assumes "\<And>q. map f q = p \<longleftrightarrow> q = p"
  shows "prefix p (map f s) \<longleftrightarrow> prefix p s"
proof
  assume "prefix p (map f s)"
  then obtain t where "map f s = p @ t" by (auto simp: prefix_def)
  then obtain a b where "s = a @ b" "map f a = p" by (metis append_eq_map_conv)
  with assms [of a] show "prefix p s" by (auto simp: prefix_def)
next
  assume "prefix p s"
  then show "prefix p (map f s)" using assms [of p] by (auto simp: prefix_def)
qed

lemma strip_map:
  assumes "\<And>p q. p \<in> set ps \<Longrightarrow> map f q = p \<longleftrightarrow> q = p"
  shows "strip ps (map f s) = map f (strip ps s)"
  using assms
proof (induction ps s rule: strip.induct)
  case (2 ps c cs)
  have "find (\<lambda>p. p \<noteq> [] \<and> prefix p (f c # map f cs)) ps = find (\<lambda>p. p \<noteq> [] \<and> prefix p (c # cs)) ps"
    using prefix_map_respect [where f = f and s = "c # cs"] "2.prems"
    by (intro find_cong) auto
  then show ?case
    using "2.IH" "2.prems" by (auto split: option.split simp: drop_map)
qed simp

lemma TrimSpace_map:
  assumes "\<And>p q. p \<in> set white_space \<Longrightarrow> map f q = p \<longleftrightarrow> q = p"
  shows "TrimSpace (map f s) = map f (TrimSpace s)"
proof -
  have "map f q = rev p \<longleftrightarrow> q = rev p" if "p \<in> set white_space" for p q
    using assms [OF that, of "rev q"] by (metis rev_map rev_rev_ident)
  then have "strip (map rev white_space) (map f t) = map f (strip (map rev white_space) t)" for t
    by (intro strip_map) auto
  moreover have "strip white_space (map f t) = map f (strip white_space t)" for t
    using assms by (rule strip_map)
  ultimately show ?thesis
    by (simp add: TrimSpace_def trimLeft_def trimRight_def rev_map)
qed

lemma TrimSpace_ToLower_commute: "TrimSpace (ToLower s) = ToLower (TrimSpace s)"
  unfolding ToLower_def
  by (rule TrimSpace_map) (simp add: map_lower_eq_caseless caseless_white_space)

lemma map_replace_eq:
  "a \<notin> set p \<Longrightarrow> b \<notin> set p \<Longrightarrow> map (\<lambda>c. if c = a then b else c) q = p \<longleftrightarrow> q = p"
proof (induction p arbitrary: q)
  case (Cons c p)
  then show ?case by (cases q) auto
qed simp

lemma TrimSpace_replaceChar: "TrimSpace (replaceChar (CHR ''-'') (CHR ''_'') s) = replaceChar (CHR ''-'') (CHR ''_'') (TrimSpace s)"
  unfolding replaceChar_def by (intro TrimSpace_map map_replace_eq) (auto simp: white_space_def)

lemma lower_replaceChar:
  "ToLower (replaceChar (CHR ''-'') (CHR ''_'') s) = replaceChar (CHR ''-'') (CHR ''_'') (ToLower s)"
proof -
  have "lower_char (if c = CHR ''-'' then CHR ''_'' else c) =
      (if lower_char c = CHR ''-'' then CHR ''_'' else lower_char c)" for c
    using lower_char_eq_caseless [of "CHR ''-''" c] by (auto simp: caseless_def lower_char_def)
  then show ?thesis by (simp add: ToLower_def replaceChar_def)
qed

text \<open>The key \<open>NormalizeSecurityLevel\<close> switches on does not change under trimming and lower-casing.\<close>

lemma level_key:
  "ToLower (TrimSpace (replaceChar (CHR ''-'') (CHR ''_'') (ToLower (TrimSpace level))))
   = ToLower (TrimSpace (replaceChar (CHR ''-'') (CHR ''_'') level))"
  by (simp add: TrimSpace_replaceChar lower_replaceChar TrimSpace_ToLower_commute)

lemma NormalizeSecurityLevel_known:
  "NormalizeSecurityLevel SecurityLevelCompat = SecurityLevelCompat"
  "NormalizeSecurityLevel SecurityLevelSameUID = SecurityLevelSameUID"
  "NormalizeSecurityLevel SecurityLevelX11Cookie = SecurityLevelX11Cookie"
  "NormalizeSecurityLevel SecurityLevelAgentProof = SecurityLevelAgentProof"
  "NormalizeSecurityLevel SecurityLevelStrict = SecurityLevelStrict"
  "NormalizeSecurityLevel [] = SecurityLevelCompat"
  by code_simp+

lemma five_cases:
  "(if a then x1 else if b then x2 else if c then x3 else if d then x4 else if e then x5 else y) \<noteq> y \<Longrightarrow>
   (if a then x1 else if b then x2 else if c then x3 else if d then x4 else if e then x5 else y)
     \<in> {x1, x2, x3, x4, x5}"
  by (simp split: if_splits)

lemma NormalizeSecurityLevel_idem [simp]:
  "NormalizeSecurityLevel (NormalizeSecurityLevel level) = NormalizeSecurityLevel level"
proof (cases "NormalizeSecurityLevel level = ToLower (TrimSpace level)")
  case True
  have "NormalizeSecurityLevel (ToLower (TrimSpace level)) =
      (if NormalizeSecurityLevel level = ToLower (TrimSpace level) then ToLower (TrimSpace level)
       else NormalizeSecurityLevel level)"
    unfolding NormalizeSecurityLevel_def [of "ToLower (TrimSpace level)"] level_key
    by (simp add: NormalizeSecurityLevel_def [of level] TrimSpace_ToLower_commute Let_def)
  with True show ?thesis by simp
next
  case False
  then have "NormalizeSecurityLevel level \<in> {SecurityLevelCompat, SecurityLevelSameUID, SecurityLevelX11Cookie,
      SecurityLevelAgentProof, SecurityLevelStrict}"
    unfolding NormalizeSecurityLevel_def Let_def by (rule five_cases)
  then show ?thesis
    by (elim insertE emptyE) (simp_all only: NormalizeSecurityLevel_known)
qed

lemma trimUnique_props:
  "list_all (\<lambda>s. s \<noteq> [] \<and> trimmed s \<and> s \<notin> set seen) (trimUnique seen xs) \<and> distinct (trimUnique seen xs)"
proof (induction seen xs rule: trimUnique.induct)
  case (2 seen raw rest)
  consider "TrimSpace raw = []" | "TrimSpace raw \<noteq> []" "TrimSpace raw \<in> set seen"
    | "TrimSpace raw \<noteq> []" "TrimSpace raw \<notin> set seen" by blast
  then show ?case
  proof cases
    case 3
    with "2.IH"(3) [OF refl 3] show ?thesis by (auto simp: Let_def list_all_iff)
  qed (use "2.IH"(1,2) in \<open>simp_all add: Let_def\<close>)
qed simp

lemma trimUnique_id:
  "list_all (\<lambda>s. s \<noteq> [] \<and> trimmed s \<and> s \<notin> set seen) xs \<Longrightarrow> distinct xs \<Longrightarrow> trimUnique seen xs = xs"
proof (induction xs arbitrary: seen)
  case (Cons x xs)
  have "trimUnique (x # seen) xs = xs"
    by (rule Cons.IH) (use Cons.prems in \<open>auto simp: list_all_iff\<close>)
  with Cons.prems show ?case by (simp add: TrimSpace_id Let_def)
qed simp

lemma trimUnique_idem [simp]: "trimUnique [] (trimUnique [] xs) = trimUnique [] xs"
  using trimUnique_props [of "[]" xs] by (intro trimUnique_id) simp_all

lemma normalizeCapabilities_idem [simp]:
  "normalizeCapabilities (normalizeCapabilities xs) = normalizeCapabilities xs"
proof -
  have "trimUnique [] (sort (trimUnique [] xs)) = sort (trimUnique [] xs)"
    using trimUnique_props [of "[]" xs] by (intro trimUnique_id) (auto simp: list_all_iff)
  then show ?thesis by (simp add: normalizeCapabilities_def sorted_sort_id)
qed

lemma Grant_Normalized_idem [simp]: "Grant_Normalized (Grant_Normalized g) = Grant_Normalized g"
  by (simp add: Grant_Normalized_def NormalizeSecurityLevel_known Version_def Algorithm_def)

lemma Grant_Validate_normalized [simp]: "Grant_Validate (Grant_Normalized g) = Grant_Validate g"
  by (simp add: Grant_Validate_def)

lemma CanonicalBytes_normalized [simp]: "CanonicalBytes marshal (Grant_Normalized g) = CanonicalBytes marshal g"
  by (simp add: CanonicalBytes_def)

section \<open>Replay protection\<close>

text \<open>
  What the verifiers rely on of a replay cache: an accepted nonce is on record until its expiry,
  a call before that expiry does not drop the record, and while it is there the nonce is refused.
\<close>

locale replay_guard =
  fixes check :: "string \<Rightarrow> int \<Rightarrow> go_time \<Rightarrow> 'c \<Rightarrow> bool \<times> 'c"
    and on_record :: "'c \<Rightarrow> string \<Rightarrow> int \<Rightarrow> bool"
  assumes stored: "check n e now c = (True, c') \<Longrightarrow> on_record c' n e"
    and kept: "on_record c n e \<Longrightarrow> go_unix now < e \<Longrightarrow> on_record (snd (check n' e' now c)) n e"
    and refused: "on_record c n e \<Longrightarrow> go_unix now < e \<Longrightarrow> \<not> fst (check n e' now c)"
begin

lemma kept_by_calls:
  "on_record c n e \<Longrightarrow> \<forall>(n', e', t) \<in> set calls. go_unix t < e \<Longrightarrow>
     on_record (fold (\<lambda>(n', e', t) c. snd (check n' e' t c)) calls c) n e"
  by (induction calls arbitrary: c) (auto simp: kept)

lemma accepted_once:
  assumes "check n e now c = (True, c')" "\<forall>(n', e', t) \<in> set calls. go_unix t < e" "go_unix later < e"
  shows "\<not> fst (check n e'' later (fold (\<lambda>(n', e', t) c. snd (check n' e' t c)) calls c'))"
  using refused [OF kept_by_calls [OF stored [OF assms(1)] assms(2)] assms(3)] .

end

definition cache_check :: "string \<Rightarrow> int \<Rightarrow> go_time \<Rightarrow> NonceCache \<Rightarrow> bool \<times> NonceCache" where
  "cache_check n e now seen = (case Accept n e now (Some seen) of (ok, c) \<Rightarrow> (ok, the c))"

lemma cache_check_eq:
  "cache_check n e now seen =
     (let live = filter (\<lambda>(n, exp). \<not> exp \<le> go_unix now) seen in
      if map_of live n \<noteq> None then (False, live) else (True, AList.update n e live))"
  by (simp add: cache_check_def Accept_def CheckAndStore_def Let_def)

lemma map_of_filter_live: "map_of seen n = Some e \<Longrightarrow> P (n, e) \<Longrightarrow> map_of (filter P seen) n = Some e"
  by (induction seen) (auto split: if_splits)

interpretation nonces: replay_guard cache_check "\<lambda>seen n e. map_of seen n = Some e"
proof unfold_locales
  fix n e now c c'
  assume "cache_check n e now c = (True, c')"
  then show "map_of c' n = Some e"
    by (auto simp: cache_check_eq Let_def update_conv' split: if_splits)
next
  fix c :: NonceCache and n e now n' e'
  assume a: "map_of c n = Some e" "go_unix now < e"
  then have "map_of (filter (\<lambda>(n, exp). \<not> exp \<le> go_unix now) c) n = Some e"
    by (intro map_of_filter_live) simp_all
  then show "map_of (snd (cache_check n' e' now c)) n = Some e" "\<not> fst (cache_check n e' now c)"
    by (auto simp: cache_check_eq Let_def update_conv')
qed

text \<open>
  C10: No nonce is accepted twice before it expires: after \<open>Accept\<close> took a nonce with an expiry, and
  any number of further calls made before that expiry, the cache refuses the nonce, whatever
  expiry the replay claims.
\<close>

theorem nonce_accepted_once:
  assumes "cache_check n e now seen = (True, seen')"
    and "\<forall>(n', e', t) \<in> set calls. go_unix t < e" "go_unix later < e"
  shows "fst (CheckAndStore n e'' later (Some (fold (\<lambda>(n', e', t) c. snd (cache_check n' e' t c)) calls seen')))
         = Some ErrReplay"
proof -
  let ?c = "fold (\<lambda>(n', e', t) c. snd (cache_check n' e' t c)) calls seen'"
  have "\<not> fst (cache_check n e'' later ?c)"
    by (rule nonces.accepted_once [OF assms])
  then show ?thesis by (auto simp: cache_check_def Accept_def CheckAndStore_def Let_def split: if_splits)
qed

theorem nonce_accepted_once_witness:
  "\<exists>seen'. cache_check ''n1'' 100 0 [] = (True, seen')
     \<and> fst (CheckAndStore ''n1'' 500 0 (Some (snd (cache_check ''n2'' 200 0 seen')))) = Some ErrReplay"
proof -
  have c: "cache_check ''n1'' 100 0 [] = (True, [(''n1'', 100)])" by (simp add: cache_check_eq)
  have t: "go_unix 0 < 100" by (simp add: go_unix_def)
  from nonce_accepted_once [OF c, of "[(''n2'', 200, 0)]" 0 500] c t show ?thesis by simp
qed

lemma CheckAndStore_fresh:
  assumes "CheckAndStore n e now (Some seen) = (None, cache')"
  shows "(\<forall>exp. (n, exp) \<in> set seen \<longrightarrow> exp \<le> go_unix now) \<and> (\<exists>seen'. cache' = Some seen' \<and> map_of seen' n = Some e)"
proof -
  let ?live = "filter (\<lambda>(n, exp). \<not> exp \<le> go_unix now) seen"
  have c: "map_of ?live n = None" "cache' = Some (AList.update n e ?live)"
    using assms by (auto simp: CheckAndStore_def Let_def split: if_splits)
  then show ?thesis by (force simp: map_of_eq_None_iff update_conv)
qed

section \<open>Verification of grants\<close>

text \<open>Everything \<open>VerifySignedGrant\<close> checks beyond the signature and the replay cache.\<close>

definition options_match :: "VerifyOptions \<Rightarrow> Grant \<Rightarrow> bool" where
  "options_match opts g =
     ((0 < voMaxTTL opts \<longrightarrow> ttlDuration (gIssuedAtUnix g) (gExpiresAtUnix g) \<le> voMaxTTL opts)
      \<and> (voAudience opts \<noteq> [] \<longrightarrow> gAudience g = voAudience opts)
      \<and> (voSubjectPeerID opts \<noteq> [] \<longrightarrow> gSubjectPeerID g = voSubjectPeerID opts)
      \<and> (\<forall>c \<in> set (voRequiredCapabilities opts). TrimSpace c \<in> set (gCapabilities g))
      \<and> (voSecurityLevel opts \<noteq> [] \<longrightarrow>
           NormalizeSecurityLevel (gSecurityLevel g) = NormalizeSecurityLevel (voSecurityLevel opts))
      \<and> (voX11CookieSHA256 opts \<noteq> [] \<longrightarrow> gX11CookieSHA256 g = ToLower (TrimSpace (voX11CookieSHA256 opts)))
      \<and> (voChainSHA256 opts \<noteq> [] \<longrightarrow> gChainSHA256 g = ToLower (TrimSpace (voChainSHA256 opts))))"

definition options_now :: "go_time \<Rightarrow> VerifyOptions \<Rightarrow> go_time" where
  "options_now clock opts = (if voNow opts = 0 then clock else voNow opts)"

lemma grantOptionsError_None:
  "grantOptionsError opts now g = None \<longleftrightarrow>
     gIssuedAtUnix g \<le> go_unix now \<and> go_unix now < gExpiresAtUnix g \<and> options_match opts g"
  by (auto simp: grantOptionsError_def options_match_def Let_def hasCapability_def list_ex_iff list_all_iff)

lemma VerifySignedGrant_Inr:
  "VerifySignedGrant C marshal clock sg pk opts = (Inr g, cache') \<longleftrightarrow>
     length pk = 32 \<and> g = Grant_Normalized (sgGrant sg) \<and> Grant_Validate g = None
     \<and> (\<exists>canonical sig. marshal g = Some canonical \<and> b64Decode (sgSignature sg) = Some sig
          \<and> length sig = 64 \<and> edVerify C pk canonical sig)
     \<and> grantOptionsError opts (options_now clock opts) g = None
     \<and> CheckAndStore (gNonce g) (gExpiresAtUnix g) (options_now clock opts) (voReplayCache opts) = (None, cache')"
  by (auto simp: VerifySignedGrant_def CanonicalBytes_def options_now_def Let_def
      split: if_splits option.splits sum.splits prod.splits)

lemma ttlDuration_exact:
  assumes "0 < i" "i < e" "e - i < 9223372037"
  shows "ttlDuration i e = (e - i) * go_second"
  using assms by (simp add: ttlDuration_def go_int64_id)

text \<open>
  C4: A grant that verifies is what it claims: the returned grant is the normalised one of the
  proof, it is valid, the signature verifies over exactly its canonical encoding under the given
  key, the current time lies in its validity window, and every option that is set matches: audience,
  subject, capabilities, security level, cookie and chain. Its lifetime is within \<open>MaxTTL\<close> if it is
  shorter than 292 years. With a replay cache, the cache held no unexpired entry for the nonce and
  holds it afterwards until the grant expires.
\<close>

theorem verified_grant_sound:
  assumes "VerifySignedGrant C marshal clock sg pk opts = (Inr g, cache')"
  shows "g = Grant_Normalized (sgGrant sg) \<and> Grant_Validate g = None
    \<and> (\<exists>canonical sig. marshal g = Some canonical \<and> b64Decode (sgSignature sg) = Some sig
         \<and> edVerify C pk canonical sig)
    \<and> gIssuedAtUnix g \<le> go_unix (options_now clock opts) \<and> go_unix (options_now clock opts) < gExpiresAtUnix g
    \<and> (voAudience opts \<noteq> [] \<longrightarrow> gAudience g = voAudience opts)
    \<and> (voSubjectPeerID opts \<noteq> [] \<longrightarrow> gSubjectPeerID g = voSubjectPeerID opts)
    \<and> (\<forall>c \<in> set (voRequiredCapabilities opts). TrimSpace c \<in> set (gCapabilities g))
    \<and> (voSecurityLevel opts \<noteq> [] \<longrightarrow>
         NormalizeSecurityLevel (gSecurityLevel g) = NormalizeSecurityLevel (voSecurityLevel opts))
    \<and> (voChainSHA256 opts \<noteq> [] \<longrightarrow> gChainSHA256 g = ToLower (TrimSpace (voChainSHA256 opts)))
    \<and> (voX11CookieSHA256 opts \<noteq> [] \<longrightarrow> gX11CookieSHA256 g = ToLower (TrimSpace (voX11CookieSHA256 opts)))
    \<and> (\<forall>seen. voReplayCache opts = Some seen \<longrightarrow>
         (\<forall>exp. (gNonce g, exp) \<in> set seen \<longrightarrow> exp \<le> go_unix (options_now clock opts))
         \<and> (\<exists>seen'. cache' = Some seen' \<and> map_of seen' (gNonce g) = Some (gExpiresAtUnix g)))
    \<and> (0 < voMaxTTL opts \<and> gExpiresAtUnix g - gIssuedAtUnix g < 9223372037 \<longrightarrow>
         (gExpiresAtUnix g - gIssuedAtUnix g) * go_second \<le> voMaxTTL opts)"
proof -
  have v: "Grant_Validate g = None" and n: "g = Grant_Normalized (sgGrant sg)"
    and sig: "\<exists>canonical sig. marshal g = Some canonical \<and> b64Decode (sgSignature sg) = Some sig
         \<and> edVerify C pk canonical sig"
    and o: "grantOptionsError opts (options_now clock opts) g = None"
    and cs: "CheckAndStore (gNonce g) (gExpiresAtUnix g) (options_now clock opts) (voReplayCache opts) = (None, cache')"
    using assms by (auto simp: VerifySignedGrant_Inr)
  have w: "0 < gIssuedAtUnix g \<and> gIssuedAtUnix g < gExpiresAtUnix g"
    using v unfolding n by (simp add: Grant_Validate_def Let_def not_le split: if_splits)
  note o' = o [unfolded grantOptionsError_None options_match_def]
  have "(gExpiresAtUnix g - gIssuedAtUnix g) * go_second \<le> voMaxTTL opts"
    if "0 < voMaxTTL opts" "gExpiresAtUnix g - gIssuedAtUnix g < 9223372037"
    using that o' w ttlDuration_exact [of "gIssuedAtUnix g" "gExpiresAtUnix g"] by simp
  moreover have "(\<forall>exp. (gNonce g, exp) \<in> set seen \<longrightarrow> exp \<le> go_unix (options_now clock opts))
      \<and> (\<exists>seen'. cache' = Some seen' \<and> map_of seen' (gNonce g) = Some (gExpiresAtUnix g))" if "voReplayCache opts = Some seen" for seen
    by (rule CheckAndStore_fresh [OF cs [unfolded that]])
  ultimately show ?thesis using n v sig o' by blast
qed

lemma SignGrant_verifies:
  assumes "crypto_laws C priv pub" "length pub = 32"
    and "SignGrant C marshal g priv = Inr sg"
    and "grantOptionsError opts (options_now clock opts) (Grant_Normalized g) = None"
    and "fst (CheckAndStore (TrimSpace (gNonce g)) (gExpiresAtUnix g) (options_now clock opts) (voReplayCache opts)) = None"
  shows "fst (VerifySignedGrant C marshal clock sg pub opts) = Inr (Grant_Normalized g)"
proof -
  obtain canonical where c: "Grant_Validate g = None" "marshal (Grant_Normalized g) = Some canonical"
    and sg: "sg = \<lparr>sgGrant = Grant_Normalized g, sgSignature = b64Encode (edSign C priv canonical)\<rparr>"
    using assms(3) by (auto simp: SignGrant_def CanonicalBytes_def Let_def split: if_splits sum.splits option.splits)
  have nonce: "gNonce (Grant_Normalized g) = TrimSpace (gNonce g)"
    "gExpiresAtUnix (Grant_Normalized g) = gExpiresAtUnix g"
    by (simp_all add: Grant_Normalized_def)
  obtain cache' where s: "CheckAndStore (gNonce (Grant_Normalized g)) (gExpiresAtUnix (Grant_Normalized g))
      (options_now clock opts) (voReplayCache opts) = (None, cache')"
    using assms(5) unfolding nonce by (metis prod.collapse)
  have "VerifySignedGrant C marshal clock sg pub opts = (Inr (Grant_Normalized g), cache')"
    unfolding VerifySignedGrant_Inr
    using assms(1,2,4) c s by (auto simp: sg crypto_laws_def)
  then show ?thesis by simp
qed

text \<open>
  What a peer signs, the other verifies: a grant that \<open>SignGrant\<close> signed with a private key is
  accepted under its public key, inside its validity window, by every verifier whose options
  match the grant and whose replay cache has not got its nonce.
\<close>

theorem signed_grant_verifies:
  assumes "crypto_laws C priv pub" "length pub = 32"
    and "SignGrant C marshal g priv = Inr sg"
    and "grantOptionsError opts (options_now clock opts) (Grant_Normalized g) = None"
    and "fst (CheckAndStore (TrimSpace (gNonce g)) (gExpiresAtUnix g) (options_now clock opts) (voReplayCache opts)) = None"
  shows "fst (VerifySignedGrant C marshal clock sg pub opts) = Inr (Grant_Normalized g)"
  using assms by (rule SignGrant_verifies)

text \<open>Stand-ins for the cryptographic functions, and a concrete grant, for the examples.\<close>

definition demo_crypto :: crypto where
  "demo_crypto =
     \<lparr>edVerify = (\<lambda>pub msg sig. sig = take 64 (msg @ replicate 64 0)),
      edSign = (\<lambda>priv msg. take 64 (msg @ replicate 64 0)),
      edSeedKey = (\<lambda>seed. seed @ seed),
      sha256Sum = (\<lambda>b. replicate 32 170)\<rparr>"

definition demo_marshal :: "Grant \<Rightarrow> bytes option" where
  "demo_marshal g = Some (map (\<lambda>c. of_nat (of_char c)) (gNonce g))"

definition demo_grant :: "int \<Rightarrow> Grant" where
  "demo_grant expires =
     \<lparr>gVersion = [], gAlgorithm = [], gIssuerPeerID = '' alice '', gSubjectPeerID = ''bob'',
      gAudience = ''wv-agent'', gSessionID = ''s1'', gCapabilities = [''x11.relay'', '' x11.relay''],
      gSecurityLevel = ''Same-UID'', gX11CookieSHA256 = replicate 64 (CHR ''A''),
      gChainSHA256 = replicate 64 (CHR ''b''), gNonce = ''n1 '', gIssuedAtUnix = 1000, gExpiresAtUnix = expires\<rparr>"

definition demo_options :: VerifyOptions where
  "demo_options =
     \<lparr>voNow = 62135597800 * go_second, voAudience = ''wv-agent'', voSubjectPeerID = ''bob'',
      voRequiredCapabilities = [''x11.relay''], voSecurityLevel = ''uid'', voX11CookieSHA256 = [],
      voChainSHA256 = [], voMaxTTL = 60 * go_second, voReplayCache = Some []\<rparr>"

lemma demo_crypto_laws: "crypto_laws demo_crypto priv pub"
proof -
  have "(of_nat (of_char (char_of (unat w :: nat) :: char)) :: byte) = w" for w :: byte
    using unsigned_less [of w, where ?'a = nat] by (simp add: of_char_mod_256)
  then show ?thesis by (simp add: crypto_laws_def demo_crypto_def map_idI min_def)
qed

definition demo_normal :: "int \<Rightarrow> Grant" where
  "demo_normal expires =
     \<lparr>gVersion = Version, gAlgorithm = Algorithm, gIssuerPeerID = ''alice'', gSubjectPeerID = ''bob'',
      gAudience = ''wv-agent'', gSessionID = ''s1'', gCapabilities = [''x11.relay''],
      gSecurityLevel = ''same_uid'', gX11CookieSHA256 = replicate 64 (CHR ''a''),
      gChainSHA256 = replicate 64 (CHR ''b''), gNonce = ''n1'', gIssuedAtUnix = 1000, gExpiresAtUnix = expires\<rparr>"

lemma demo_grant_strings:
  "TrimSpace '' alice '' = ''alice''" "TrimSpace ''bob'' = ''bob''" "TrimSpace ''wv-agent'' = ''wv-agent''"
  "TrimSpace ''s1'' = ''s1''" "TrimSpace ''n1 '' = ''n1''" "normalizeCapabilities [''x11.relay'', '' x11.relay''] = [''x11.relay'']"
  "NormalizeSecurityLevel ''Same-UID'' = ''same_uid''" "NormalizeSecurityLevel ''uid'' = ''same_uid''"
  "ToLower (TrimSpace (replicate 64 (CHR ''A''))) = replicate 64 (CHR ''a'')"
  "ToLower (TrimSpace (replicate 64 (CHR ''b''))) = replicate 64 (CHR ''b'')"
  "isLowerHexSHA256 (replicate 64 (CHR ''a''))" "isLowerHexSHA256 (replicate 64 (CHR ''b''))"
  "knownCapability ''x11.relay''" "TrimSpace ''x11.relay'' = ''x11.relay''"
  by code_simp+

lemma demo_Normalized: "Grant_Normalized (demo_grant expires) = demo_normal expires"
  by (simp add: Grant_Normalized_def demo_grant_def demo_normal_def demo_grant_strings del: replicate.simps)

lemma demo_Validate:
  assumes "1000 < expires"
  shows "Grant_Validate (demo_grant expires) = None"
  using assms
  by (simp add: Grant_Validate_def demo_Normalized demo_normal_def demo_grant_strings KnownSecurityLevel_def
      NormalizeSecurityLevel_known Let_def)

lemma demo_SignGrant:
  "1000 < expires \<Longrightarrow> SignGrant demo_crypto demo_marshal (demo_grant expires) (replicate 64 0) =
     Inr \<lparr>sgGrant = demo_normal expires, sgSignature = b64Encode
       (edSign demo_crypto (replicate 64 0) (the (demo_marshal (demo_normal expires))))\<rparr>"
  using demo_Validate [of expires]
  by (simp add: SignGrant_def CanonicalBytes_def demo_Normalized demo_marshal_def Let_def
      Grant_Validate_normalized [of "demo_grant expires", unfolded demo_Normalized])

lemma demo_options_ok:
  assumes "1000 < expires" "ttlDuration 1000 expires \<le> 60 * go_second"
  shows "grantOptionsError demo_options (options_now 0 demo_options) (demo_normal expires) = None"
  using assms
  by (simp add: grantOptionsError_None options_now_def demo_options_def demo_normal_def options_match_def
      go_unix_def demo_grant_strings NormalizeSecurityLevel_known)

lemma demo_verifies:
  assumes "1000 < expires" "ttlDuration 1000 expires \<le> 60 * go_second"
  shows "\<exists>sg cache. SignGrant demo_crypto demo_marshal (demo_grant expires) (replicate 64 0) = Inr sg
    \<and> VerifySignedGrant demo_crypto demo_marshal 0 sg (replicate 32 0) demo_options = (Inr (demo_normal expires), cache)"
proof -
  have v: "Grant_Validate (demo_normal expires) = None"
    using Grant_Validate_normalized [of "demo_grant expires"] demo_Validate [OF assms(1)] by (simp add: demo_Normalized)
  have n: "Grant_Normalized (demo_normal expires) = demo_normal expires"
    using Grant_Normalized_idem [of "demo_grant expires"] by (simp add: demo_Normalized)
  obtain cache where c: "CheckAndStore ''n1'' expires (options_now 0 demo_options) (Some []) = (None, cache)"
    by (simp add: CheckAndStore_def)
  show ?thesis
    using demo_SignGrant [OF assms(1)] demo_options_ok [OF assms] v n c demo_crypto_laws
    unfolding VerifySignedGrant_Inr
    by (auto simp: crypto_laws_def demo_marshal_def demo_normal_def demo_options_def)
qed

theorem verified_grant_sound_witness:
  "\<exists>g sg cache. VerifySignedGrant demo_crypto demo_marshal 0 sg (replicate 32 0) demo_options = (Inr g, cache)
     \<and> gAudience g = ''wv-agent'' \<and> (gExpiresAtUnix g - gIssuedAtUnix g) * go_second \<le> 60 * go_second"
proof -
  have "ttlDuration 1000 1060 \<le> 60 * go_second" by (simp add: ttlDuration_def go_int64_def)
  then obtain sg cache where v: "VerifySignedGrant demo_crypto demo_marshal 0 sg (replicate 32 0) demo_options
      = (Inr (demo_normal 1060), cache)"
    using demo_verifies [of 1060] by auto
  have "voAudience demo_options \<noteq> [] \<longrightarrow> gAudience (demo_normal 1060) = voAudience demo_options"
    "0 < voMaxTTL demo_options \<and> gExpiresAtUnix (demo_normal 1060) - gIssuedAtUnix (demo_normal 1060) < 9223372037 \<longrightarrow>
       (gExpiresAtUnix (demo_normal 1060) - gIssuedAtUnix (demo_normal 1060)) * go_second \<le> voMaxTTL demo_options"
    using verified_grant_sound [OF v] by blast+
  then have "gAudience (demo_normal 1060) = ''wv-agent''"
    "(gExpiresAtUnix (demo_normal 1060) - gIssuedAtUnix (demo_normal 1060)) * go_second \<le> 60 * go_second"
    by (simp_all add: demo_options_def demo_normal_def)
  with v show ?thesis by blast
qed

theorem signed_grant_verifies_witness:
  "\<exists>sg. SignGrant demo_crypto demo_marshal (demo_grant 1060) (replicate 64 0) = Inr sg
     \<and> fst (VerifySignedGrant demo_crypto demo_marshal 0 sg (replicate 32 0) demo_options) = Inr (demo_normal 1060)"
proof -
  have t: "ttlDuration 1000 1060 \<le> 60 * go_second" by (simp add: ttlDuration_def go_int64_def)
  obtain sg where sg: "SignGrant demo_crypto demo_marshal (demo_grant 1060) (replicate 64 0) = Inr sg"
    using demo_SignGrant [of 1060] by simp
  have "fst (VerifySignedGrant demo_crypto demo_marshal 0 sg (replicate 32 0) demo_options) = Inr (Grant_Normalized (demo_grant 1060))"
    by (rule signed_grant_verifies [OF demo_crypto_laws _ sg])
       (use demo_options_ok [OF _ t] in \<open>simp_all add: demo_Normalized CheckAndStore_def demo_options_def\<close>)
  with sg show ?thesis by (simp add: demo_Normalized)
qed

text \<open>
  The lifetime limit can be passed by overflow: the lifetime is turned into nanoseconds in 64
  bits, so a grant signed for 584 years is accepted by a verifier that allows one minute.
\<close>

theorem ttl_limit_overflows:
  "\<exists>g sg cache. SignGrant demo_crypto demo_marshal (demo_grant (1000 + 18446744074)) (replicate 64 0) = Inr sg
     \<and> VerifySignedGrant demo_crypto demo_marshal 0 sg (replicate 32 0) demo_options = (Inr g, cache)
     \<and> voMaxTTL demo_options = 60 * go_second \<and> gExpiresAtUnix g - gIssuedAtUnix g = 18446744074"
proof -
  have "ttlDuration 1000 (1000 + 18446744074) \<le> 60 * go_second" by (simp add: ttlDuration_def go_int64_def)
  from demo_verifies [OF _ this] show ?thesis
    by (auto simp: demo_options_def demo_normal_def)
qed

section \<open>Authority\<close>

text \<open>
  The authority decision is the level's requirement and nothing less: a known level is granted
  exactly when every piece of evidence it requires is present, an unknown level never, and a
  present agent socket alone never satisfies a level that asks for a verified key proof.
\<close>

theorem authority_exact:
  "snd (EvaluateAuthority level ev) = None \<longleftrightarrow>
     KnownSecurityLevel level
     \<and> (NormalizeSecurityLevel level \<in> {SecurityLevelSameUID, SecurityLevelX11Cookie, SecurityLevelStrict} \<longrightarrow> evSameUID ev)
     \<and> (NormalizeSecurityLevel level \<in> {SecurityLevelX11Cookie, SecurityLevelAgentProof, SecurityLevelStrict} \<longrightarrow>
          evX11CookieMatched ev)
     \<and> (SecurityLevelRequiresSignedProof level \<longrightarrow> evAgentKeyProofVerified ev)"
proof -
  have k: "ValidateSecurityLevel (NormalizeSecurityLevel level) = None \<longleftrightarrow> KnownSecurityLevel level"
    by (simp add: ValidateSecurityLevel_def KnownSecurityLevel_def)
  have r: "SecurityLevelRequirements (NormalizeSecurityLevel level) = SecurityLevelRequirements level"
    unfolding SecurityLevelRequirements_def NormalizeSecurityLevel_idem ..
  have d: "snd (EvaluateAuthority level ev) = None \<longleftrightarrow>
      KnownSecurityLevel level \<and> filter (requirementMissing ev) (SecurityLevelRequirements level) = []"
  proof (cases "ValidateSecurityLevel (NormalizeSecurityLevel level)")
    case None
    with k r show ?thesis
      by (cases "filter (requirementMissing ev) (SecurityLevelRequirements level) = []")
         (simp_all add: EvaluateAuthority_def Let_def)
  qed (use k in \<open>simp add: EvaluateAuthority_def Let_def\<close>)
  show ?thesis
  proof (cases "KnownSecurityLevel level")
    case True
    then show ?thesis
      unfolding d KnownSecurityLevel_def SecurityLevelRequirements_def SecurityLevelRequiresSignedProof_def Let_def
      by (elim insertE emptyE) (simp_all add: requirementMissing_def)
  qed (simp add: d)
qed

theorem authority_exact_witness:
  "snd (EvaluateAuthority SecurityLevelAgentProof
     \<lparr>evSameUID = False, evX11CookieMatched = True, evAgentSocketPresent = False, evAgentKeyProofVerified = True,
      evPrincipalUID = [], evComponentUID = []\<rparr>) = None
   \<and> snd (EvaluateAuthority SecurityLevelStrict
     \<lparr>evSameUID = False, evX11CookieMatched = True, evAgentSocketPresent = False, evAgentKeyProofVerified = True,
      evPrincipalUID = [], evComponentUID = []\<rparr>) \<noteq> None"
  unfolding authority_exact
  by (simp add: KnownSecurityLevel_def SecurityLevelRequiresSignedProof_def NormalizeSecurityLevel_known)

end
