(* ===== verification/Wv_Text.thy ===== *)
theory Wv_Text
  imports Wv_Base64
begin

text \<open>
  Text formats of Go's standard library the sources use beyond \<open>Wv_Base64\<close>: \<open>base64.StdEncoding\<close> and
  \<open>RawStdEncoding\<close>, conversions of strings and byte slices, \<open>strings.Fields\<close>, \<open>TrimPrefix\<close>, \<open>Trim\<close> and \<open>EqualFold\<close>, and \<open>net.ParseIP\<close> with
  \<open>IP.IsLoopback\<close>.

  Shown: decoding undoes encoding, and \<open>Fields\<close> finds the words of a line that is built from words
  and blanks.
\<close>

section \<open>Bytes and strings\<close>

definition toBytes :: "string \<Rightarrow> bytes" where
  "toBytes s = map (\<lambda>c. of_nat (of_char c)) s"

definition ofBytes :: "bytes \<Rightarrow> string" where
  "ofBytes b = map (\<lambda>w. char_of (unat w)) b"

lemma ofBytes_toBytes [simp]: "ofBytes (toBytes s) = s"
proof -
  have "unat (of_nat (of_char c) :: byte) = of_char c" for c :: char
    using of_char_mod_256 [of c, where ?'a = nat] by (simp add: unat_of_nat)
  then show ?thesis by (simp add: ofBytes_def toBytes_def comp_def)
qed

lemma length_toBytes [simp]: "length (toBytes s) = length s"
  by (simp add: toBytes_def)

section \<open>Padded base64\<close>

definition rawStdEncode :: "bytes \<Rightarrow> string" where
  "rawStdEncode bs = map (b64Char (CHR ''+'') (CHR ''/'')) (sextets bs)"

definition stdEncode :: "bytes \<Rightarrow> string" where
  "stdEncode bs = (let s = rawStdEncode bs in s @ replicate ((4 - length s mod 4) mod 4) (CHR ''=''))"

definition rawStdDecode :: "string \<Rightarrow> bytes option" where
  "rawStdDecode s = Option.bind (those (map (b64Value (CHR ''+'') (CHR ''/'')) (b64Line s))) joinSextets"

lemma stdChar_graphic:
  "k < 64 \<Longrightarrow> 43 \<le> (of_char (b64Char (CHR ''+'') (CHR ''/'') k) :: nat) \<and> (of_char (b64Char (CHR ''+'') (CHR ''/'') k) :: nat) \<le> 122
     \<and> b64Char (CHR ''+'') (CHR ''/'') k \<noteq> CHR ''=''"
proof -
  assume "k < 64"
  then have "43 \<le> (of_char (b64Char (CHR ''+'') (CHR ''/'') k) :: nat) \<and> (of_char (b64Char (CHR ''+'') (CHR ''/'') k) :: nat) \<le> 122
     \<and> (of_char (b64Char (CHR ''+'') (CHR ''/'') k) :: nat) \<noteq> of_char (CHR ''='')"
    by (auto simp: b64Char_def)
  then show ?thesis by metis
qed

lemma stdValue_Char: "k < 64 \<Longrightarrow> b64Value (CHR ''+'') (CHR ''/'') (b64Char (CHR ''+'') (CHR ''/'') k) = Some k"
  by (auto simp: b64Value_def b64Char_def Let_def)

lemma those_rawStd: "those (map (b64Value (CHR ''+'') (CHR ''/'')) (rawStdEncode bs)) = Some (sextets bs)"
  unfolding rawStdEncode_def map_map comp_def
  using those_map_Some [of "sextets bs" "\<lambda>k. b64Value (CHR ''+'') (CHR ''/'') (b64Char (CHR ''+'') (CHR ''/'') k)" "\<lambda>k. k"]
  by (simp add: stdValue_Char sextets_lt)

lemma length_rawStdEncode: "length (rawStdEncode bs) = (4 * length bs + 2) div 3"
  by (simp add: rawStdEncode_def length_sextets)

lemma rawStd_graphic:
  assumes "c \<in> set (rawStdEncode bs)"
  shows "33 \<le> (of_char c :: nat) \<and> (of_char c :: nat) \<le> 126" "c \<noteq> CHR ''=''"
proof -
  obtain k where "k < 64" "c = b64Char (CHR ''+'') (CHR ''/'') k"
    using assms by (auto simp: rawStdEncode_def dest: sextets_lt)
  with stdChar_graphic [of k] show "33 \<le> (of_char c :: nat) \<and> (of_char c :: nat) \<le> 126" "c \<noteq> CHR ''=''" by auto
qed

lemma stdEncode_graphic: "c \<in> set (stdEncode bs) \<Longrightarrow> 33 \<le> (of_char c :: nat) \<and> (of_char c :: nat) \<le> 126"
  by (auto simp: stdEncode_def Let_def dest: rawStd_graphic(1))

lemma b64Line_graphic: "(\<And>c. c \<in> set s \<Longrightarrow> 33 \<le> (of_char c :: nat)) \<Longrightarrow> b64Line s = s"
  unfolding b64Line_def by (rule filter_True) fastforce

lemma rawStd_roundtrip [simp]: "rawStdDecode (rawStdEncode bs) = Some bs"
  by (simp add: rawStdDecode_def b64Line_graphic rawStd_graphic(1) those_rawStd joinSextets_sextets)

lemma sextets_mod: "length (sextets bs) mod 4 = 0 \<or> length (sextets bs) mod 4 = 2 \<or> length (sextets bs) mod 4 = 3"
  by (induction bs rule: sextets.induct) auto

lemma std_roundtrip [simp]: "stdDecode (stdEncode bs) = Some bs"
proof -
  let ?r = "rawStdEncode bs" and ?s = "stdEncode bs"
  let ?pad = "(4 - length ?r mod 4) mod 4"
  have s: "?s = ?r @ replicate ?pad (CHR ''='')" by (simp add: stdEncode_def Let_def)
  have line: "b64Line ?s = ?s" by (rule b64Line_graphic) (simp add: stdEncode_graphic)
  have body: "takeWhile (\<lambda>c. c \<noteq> CHR ''='') ?s = ?r"
    unfolding s by (subst takeWhile_append2) (auto dest: rawStd_graphic(2))
  have m: "length ?r mod 4 = 0 \<or> length ?r mod 4 = 2 \<or> length ?r mod 4 = 3"
    by (simp add: rawStdEncode_def sextets_mod)
  have "length ?s mod 4 = (length ?r mod 4 + ?pad) mod 4" unfolding s by (simp add: mod_add_left_eq)
  also have "\<dots> = 0" using m by auto
  finally have "length ?s mod 4 = 0" .
  moreover have "?pad \<le> 2" using m by auto
  moreover have "drop (length ?r) ?s = replicate ?pad (CHR ''='')" "length ?s - length ?r = ?pad" unfolding s by simp_all
  ultimately show ?thesis
    by (simp add: stdDecode_def line body Let_def those_rawStd joinSextets_sextets)
qed

lemma stdEncode_eq_Nil [simp]: "stdEncode bs = [] \<longleftrightarrow> bs = []"
  by (cases bs rule: sextets.cases) (auto simp: stdEncode_def rawStdEncode_def Let_def)

section \<open>Words of a line\<close>

text \<open>\<open>strings.Fields\<close>; \<open>word\<close> is the field being collected.\<close>

function fieldsFrom :: "string \<Rightarrow> string \<Rightarrow> string list" where
  "fieldsFrom word [] = (if word = [] then [] else [word])"
| "fieldsFrom word (c # cs) =
     (case find (\<lambda>p. prefix p (c # cs)) white_space of
        None \<Rightarrow> fieldsFrom (word @ [c]) cs
      | Some p \<Rightarrow> (if word = [] then [] else [word]) @ fieldsFrom [] (drop (length p - 1) cs))"
  by pat_completeness auto
termination by (relation "measure (\<lambda>(w, s). length s)") auto

definition Fields :: "string \<Rightarrow> string list" where
  "Fields s = fieldsFrom [] s"

definition graphic :: "string \<Rightarrow> bool" where
  "graphic s = list_all (\<lambda>c. 33 \<le> (of_char c :: nat) \<and> (of_char c :: nat) \<le> 126) s"

lemma white_space_start: "p \<in> set white_space \<Longrightarrow> \<exists>c q. p = c # q \<and> \<not> (33 \<le> (of_char c :: nat) \<and> (of_char c :: nat) \<le> 126)"
proof -
  have "list_all (\<lambda>p. p \<noteq> [] \<and> \<not> (33 \<le> (of_char (hd p) :: nat) \<and> (of_char (hd p) :: nat) \<le> 126)) white_space"
    by (simp add: white_space_def)
  moreover assume "p \<in> set white_space"
  ultimately have "p \<noteq> []" "\<not> (33 \<le> (of_char (hd p) :: nat) \<and> (of_char (hd p) :: nat) \<le> 126)"
    by (auto simp: list_all_iff)
  then show "\<exists>c q. p = c # q \<and> \<not> (33 \<le> (of_char c :: nat) \<and> (of_char c :: nat) \<le> 126)" by (cases p) auto
qed

lemma find_graphic:
  assumes "33 \<le> (of_char c :: nat)" "(of_char c :: nat) \<le> 126"
  shows "find (\<lambda>p. prefix p (c # cs)) white_space = None"
proof -
  have "\<not> prefix p (c # cs)" if p: "p \<in> set white_space" for p
    using white_space_start [OF p] assms by auto
  then show ?thesis by (auto simp: find_None_iff)
qed

lemma fieldsFrom_word: "graphic w \<Longrightarrow> fieldsFrom word (w @ s) = fieldsFrom (word @ w) s"
  by (induction w arbitrary: word) (simp_all add: graphic_def find_graphic)

lemma fieldsFrom_blank: "fieldsFrom word (CHR '' '' # s) = (if word = [] then [] else [word]) @ fieldsFrom [] s"
proof -
  have "find (\<lambda>p. prefix p (CHR '' '' # s)) white_space = Some '' ''"
    by (simp add: white_space_def)
  then show ?thesis by simp
qed

declare fieldsFrom.simps(2) [simp del]

lemma Fields_two:
  assumes "graphic a" "graphic b" "a \<noteq> []" "b \<noteq> []"
  shows "\<exists>more. Fields (a @ CHR '' '' # b @ (if c = [] then [] else CHR '' '' # c)) = a # b # more"
  using assms by (simp add: Fields_def fieldsFrom_word fieldsFrom_blank)

lemma trimmed_line:
  assumes "graphic a" "a \<noteq> []" "graphic b" "b \<noteq> []" "trimmed c"
  shows "trimmed (a @ CHR '' '' # b @ (if c = [] then [] else CHR '' '' # c))"
  unfolding trimmed_def list_all_iff
proof (intro ballI conjI)
  let ?s = "a @ CHR '' '' # b @ (if c = [] then [] else CHR '' '' # c)"
  fix p
  assume p: "p \<in> set white_space"
  obtain x a' where a: "a = x # a'" using assms(2) by (cases a) auto
  show "\<not> prefix p ?s"
    using white_space_start [OF p] assms(1) unfolding a by (auto simp: graphic_def)
  have n: "\<not> suffix p (d @ q)" if "\<exists>y \<in> set q. y \<notin> set p" "\<not> suffix p q" for d q
    using that by (auto simp: suffix_append)
  have g: "y \<notin> set p" if "33 \<le> (of_char y :: nat)" "(of_char y :: nat) \<le> 126" for y
    using p that by (auto simp: white_space_def)
  have ws: "CHR '' '' \<in> set p \<Longrightarrow> p = '' ''" using p by (auto simp: white_space_def)
  have ne: "p \<noteq> []" using p by (auto simp: white_space_def)
  show "\<not> suffix p ?s"
  proof (cases "c = []")
    case True
    have l: "last b \<in> set b" "last b \<notin> set p"
      using assms(3,4) g [of "last b"] by (auto simp: graphic_def list_all_iff)
    have "\<not> suffix p b" using l(2) ne by (auto simp: suffix_def)
    with l have "\<exists>y \<in> set b. y \<notin> set p" "\<not> suffix p b" by auto
    then show ?thesis using n [of b "a @ '' ''"] True by simp
  next
    case False
    have "\<not> suffix p c" using assms(5) p by (simp add: trimmed_def list_all_iff)
    then have "\<not> suffix p (CHR '' '' # c)"
      using ws False by (auto simp: suffix_Cons)
    then have "\<not> suffix p (d @ CHR '' '' # c)" for d
      using ws False by (auto simp: suffix_append append_eq_Cons_conv)
    from this [of "a @ CHR '' '' # b"] False show ?thesis by simp
  qed
qed

section \<open>Prefixes, cutsets, case folding\<close>

definition TrimPrefix :: "string \<Rightarrow> string \<Rightarrow> string" where
  "TrimPrefix s p = (if prefix p s then drop (length p) s else s)"

text \<open>\<open>strings.Trim\<close> with a cutset of ASCII characters.\<close>

definition TrimCutset :: "string \<Rightarrow> string \<Rightarrow> string" where
  "TrimCutset s cutset = rev (dropWhile (\<lambda>c. c \<in> set cutset) (rev (dropWhile (\<lambda>c. c \<in> set cutset) s)))"

text \<open>
  \<open>strings.EqualFold\<close> against an ASCII string. The only other code points that fold to ASCII letters
  are the long s (to \<open>s\<close>) and the Kelvin sign (to \<open>k\<close>).
\<close>

fun foldText :: "string \<Rightarrow> string" where
  "foldText [] = []"
| "foldText (c # cs) =
     (if prefix [CHR 0xC5, CHR 0xBF] (c # cs) then CHR ''s'' # foldText (drop 1 cs)
      else if prefix [CHR 0xE2, CHR 0x84, CHR 0xAA] (c # cs) then CHR ''k'' # foldText (drop 2 cs)
      else lower_char c # foldText cs)"

definition EqualFold :: "string \<Rightarrow> string \<Rightarrow> bool" where
  "EqualFold s ascii = (foldText s = ToLower ascii)"

section \<open>IP addresses\<close>

text \<open>
  Dotted decimal: \<open>fields\<close> are the octets read, \<open>val\<close> the current one with \<open>digits\<close> digits. An octet has
  no leading zero and is at most 255.
\<close>

fun ipv4Fields :: "bytes \<Rightarrow> nat \<Rightarrow> nat \<Rightarrow> string \<Rightarrow> bytes option" where
  "ipv4Fields fields val digits [] =
     (if digits = 0 \<or> length fields < 3 then None else Some (fields @ [of_nat val]))"
| "ipv4Fields fields val digits (c # cs) =
     (let n = (of_char c :: nat) in
      if 48 \<le> n \<and> n \<le> 57 then
        (if digits = 1 \<and> val = 0 then None
         else if 255 < val * 10 + (n - 48) then None
         else ipv4Fields fields (val * 10 + (n - 48)) (digits + 1) cs)
      else if c = CHR ''.'' then
        (if digits = 0 \<or> length fields = 3 then None else ipv4Fields (fields @ [of_nat val]) 0 0 cs)
      else None)"

definition hexNumber :: "string \<Rightarrow> nat" where
  "hexNumber s = foldl (\<lambda>acc c. acc * 16 + the (hexValue c)) 0 s"

text \<open>
  Groups of up to four hexadecimal digits: \<open>ip\<close> are the bytes read, \<open>ellipsis\<close> the place of the double
  colon. A dotted-decimal address may stand in the last four bytes.
\<close>

function ipv6Groups :: "bytes \<Rightarrow> nat option \<Rightarrow> string \<Rightarrow> (bytes \<times> nat option) option" where
  "ipv6Groups ip ellipsis s =
     (if 16 \<le> length ip then (if s = [] then Some (ip, ellipsis) else None)
      else
      let digits = takeWhile (\<lambda>c. hexValue c \<noteq> None) s; rest = drop (length digits) s in
      if digits = [] \<or> 4 < length digits then None
      else if rest \<noteq> [] \<and> hd rest = CHR ''.'' then
        (if (ellipsis = None \<and> length ip \<noteq> 12) \<or> 16 < length ip + 4 then None
         else case ipv4Fields [] 0 0 s of None \<Rightarrow> None | Some f \<Rightarrow> Some (ip @ f, ellipsis))
      else
      let ip' = ip @ [of_nat (hexNumber digits div 256), of_nat (hexNumber digits)] in
      if rest = [] then Some (ip', ellipsis)
      else if hd rest \<noteq> CHR '':'' \<or> length rest = 1 then None
      else if hd (tl rest) = CHR '':'' then
        (if ellipsis \<noteq> None then None
         else if tl (tl rest) = [] then Some (ip', Some (length ip'))
         else ipv6Groups ip' (Some (length ip')) (tl (tl rest)))
      else ipv6Groups ip' ellipsis (tl rest))"
  by pat_completeness auto
termination by (relation "measure (\<lambda>(ip, e, s). length s)") (auto simp: Let_def)

declare ipv6Groups.simps [simp del]

definition parseIPv6 :: "string \<Rightarrow> bytes option" where
  "parseIPv6 s =
     (if s = ''::'' then Some (replicate 16 0)
      else case (if prefix ''::'' s then ipv6Groups [] (Some 0) (drop 2 s) else ipv6Groups [] None s) of
        None \<Rightarrow> None
      | Some (ip, ellipsis) \<Rightarrow>
          (case ellipsis of
             None \<Rightarrow> if length ip < 16 then None else Some ip
           | Some e \<Rightarrow> if length ip < 16 then Some (take e ip @ replicate (16 - length ip) 0 @ drop e ip) else None))"

text \<open>\<open>net.ParseIP\<close>: the 16-byte form; an address with a zone is refused.\<close>

definition ParseIP :: "string \<Rightarrow> bytes option" where
  "ParseIP s =
     (if CHR ''%'' \<in> set s then None
      else case find (\<lambda>c. c = CHR ''.'' \<or> c = CHR '':'') s of
        None \<Rightarrow> None
      | Some c \<Rightarrow>
          if c = CHR ''.'' then map_option (\<lambda>f. replicate 10 0 @ [255, 255] @ f) (ipv4Fields [] 0 0 s)
          else parseIPv6 s)"

definition IsLoopback :: "bytes \<Rightarrow> bool" where
  "IsLoopback ip =
     (if take 12 ip = replicate 10 0 @ [255, 255] then ip ! 12 = 127 else ip = replicate 15 0 @ [1])"

end
