(* ===== verification/Auth_Wire.thy ===== *)
theory Auth_Wire
  imports Auth_Grant Wv_Text
begin

text \<open>
  Keys and the signing agent: the key text formats of \<open>src/authproof/proof.go\<close>, and the SSH wire
  format, the OpenSSH key line and the agent client of \<open>src/authproof/ssh_agent.go\<close>.

  The agent is a parameter: whether a connection to its socket and a write succeed, and the bytes it
  sends back for the bytes it was sent. A connection that ends or passes its deadline is one that
  sends no more bytes.
\<close>

section \<open>The SSH wire format\<close>

definition appendUint32 :: "bytes \<Rightarrow> u32 \<Rightarrow> bytes" where
  "appendUint32 out value = out @ put_uint32 value"

definition appendSSHString :: "bytes \<Rightarrow> bytes \<Rightarrow> bytes" where
  "appendSSHString out value = appendUint32 out (of_nat (length value)) @ value"

text \<open>The reader's state is the data it has left; every method returns it.\<close>

definition sshWireReader_uint32 :: "bytes \<Rightarrow> auth_error + u32 \<times> bytes" where
  "sshWireReader_uint32 data =
     (if length data < 4 then Inl ErrUnexpectedEnd else Inr (get_uint32 (take 4 data), drop 4 data))"

definition sshWireReader_string :: "bytes \<Rightarrow> auth_error + bytes \<times> bytes" where
  "sshWireReader_string data =
     (case sshWireReader_uint32 data of
        Inl e \<Rightarrow> Inl e
      | Inr (len, rest) \<Rightarrow>
          if length rest < unat len then Inl ErrUnexpectedEnd
          else Inr (take (unat len) rest, drop (unat len) rest))"

section \<open>Ed25519 public keys\<close>

definition marshalSSHEd25519PublicKeyBlob :: "bytes \<Rightarrow> bytes" where
  "marshalSSHEd25519PublicKeyBlob publicKey =
     appendSSHString (appendSSHString [] (toBytes ''ssh-ed25519'')) publicKey"

definition parseSSHEd25519PublicKeyBlob :: "bytes \<Rightarrow> auth_error + string \<times> bytes" where
  "parseSSHEd25519PublicKeyBlob blob =
     (case sshWireReader_string blob of
        Inl e \<Rightarrow> Inl e
      | Inr (keyTypeBytes, rest) \<Rightarrow>
          let keyType = ofBytes keyTypeBytes in
          if keyType \<noteq> ''ssh-ed25519'' then Inl ErrInvalidGrant
          else case sshWireReader_string rest of
            Inl e \<Rightarrow> Inl e
          | Inr (publicKey, _) \<Rightarrow> if length publicKey \<noteq> 32 then Inl ErrInvalidGrant else Inr (keyType, publicKey))"

definition parseSSHSignatureBlob :: "bytes \<Rightarrow> auth_error + string \<times> bytes" where
  "parseSSHSignatureBlob blob =
     (case sshWireReader_string blob of
        Inl e \<Rightarrow> Inl e
      | Inr (formatBytes, rest) \<Rightarrow>
          (case sshWireReader_string rest of Inl e \<Rightarrow> Inl e | Inr (sig, _) \<Rightarrow> Inr (ofBytes formatBytes, sig)))"

text \<open>
  The result of \<open>DecodeOpenSSHEd25519PublicKey\<close>: \<open>None\<close> when the line is not of that format (\<open>ok\<close> is
  false), otherwise the error or the key and its blob.
\<close>

definition DecodeOpenSSHEd25519PublicKey :: "string \<Rightarrow> (auth_error + bytes \<times> bytes) option" where
  "DecodeOpenSSHEd25519PublicKey raw =
     (let fields = Fields (TrimSpace raw) in
      if length fields < 2 \<or> fields ! 0 \<noteq> ''ssh-ed25519'' then None
      else case (case stdDecode (fields ! 1) of Some blob \<Rightarrow> Some blob | None \<Rightarrow> rawStdDecode (fields ! 1)) of
        None \<Rightarrow> Some (Inl ErrInvalidGrant)
      | Some blob \<Rightarrow>
          (case parseSSHEd25519PublicKeyBlob blob of
             Inl e \<Rightarrow> Some (Inl e)
           | Inr (keyType, publicKey) \<Rightarrow>
               if keyType \<noteq> ''ssh-ed25519'' then Some (Inl ErrInvalidGrant) else Some (Inr (publicKey, blob))))"

definition MarshalOpenSSHEd25519PublicKey :: "bytes \<Rightarrow> string \<Rightarrow> auth_error + string" where
  "MarshalOpenSSHEd25519PublicKey publicKey comment =
     (if length publicKey \<noteq> 32 then Inl ErrInvalidGrant
      else
        let blob = marshalSSHEd25519PublicKeyBlob publicKey;
            out = ''ssh-ed25519 '' @ stdEncode blob in
        Inr (if TrimSpace comment \<noteq> [] then out @ '' '' @ TrimSpace comment else out))"

section \<open>Key text\<close>

definition isHexKeyCandidate :: "string \<Rightarrow> bool" where
  "isHexKeyCandidate raw =
     (if length raw \<noteq> 64 \<and> length raw \<noteq> 64 \<and> length raw \<noteq> 128 then False
      else list_all (\<lambda>c. hexValue c \<noteq> None) raw)"

definition decodeRawKey :: "string \<Rightarrow> auth_error + bytes" where
  "decodeRawKey text =
     (let raw = TrimSpace text in
      if raw = [] then Inl ErrInvalidGrant
      else case (if isHexKeyCandidate raw then hexDecode raw else None) of
        Some buf \<Rightarrow> Inr buf
      | None \<Rightarrow>
      case b64Decode raw of
        Some buf \<Rightarrow> Inr buf
      | None \<Rightarrow>
      case stdDecode raw of
        Some buf \<Rightarrow> Inr buf
      | None \<Rightarrow>
      case hexDecode raw of
        Some buf \<Rightarrow> Inr buf
      | None \<Rightarrow> Inl ErrInvalidGrant)"

definition EncodePublicKey :: "bytes \<Rightarrow> string" where
  "EncodePublicKey publicKey = b64Encode publicKey"

definition DecodePublicKey :: "string \<Rightarrow> auth_error + bytes" where
  "DecodePublicKey raw =
     (case DecodeOpenSSHEd25519PublicKey raw of
        Some (Inl e) \<Rightarrow> Inl e
      | Some (Inr (publicKey, _)) \<Rightarrow> Inr publicKey
      | None \<Rightarrow>
          (case decodeRawKey raw of
             Inl e \<Rightarrow> Inl e
           | Inr buf \<Rightarrow> if length buf \<noteq> 32 then Inl ErrInvalidGrant else Inr buf))"

definition EncodePrivateKey :: "bytes \<Rightarrow> string" where
  "EncodePrivateKey privateKey = b64Encode privateKey"

definition DecodePrivateKey :: "crypto \<Rightarrow> string \<Rightarrow> auth_error + bytes" where
  "DecodePrivateKey C raw =
     (case decodeRawKey raw of
        Inl e \<Rightarrow> Inl e
      | Inr buf \<Rightarrow>
          if length buf = 32 then Inr (edSeedKey C buf)
          else if length buf = 64 then Inr buf
          else Inl ErrInvalidGrant)"

section \<open>The agent client\<close>

record ssh_agent =
  agDial :: "string \<Rightarrow> bool"
  agWrite :: "bytes \<Rightarrow> bool"
  agReply :: "bytes \<Rightarrow> bytes"

record SSHAgentIdentity =
  aiBlob :: bytes
  aiType :: string
  aiPublicKey :: bytes
  aiComment :: string
  aiFingerprintSHA256 :: string

text \<open>\<open>writeAgentMessage\<close> makes two writes; \<open>Inr\<close> is what reached the agent.\<close>

definition writeAgentMessage :: "(bytes \<Rightarrow> bool) \<Rightarrow> bytes \<Rightarrow> auth_error + bytes" where
  "writeAgentMessage w payload =
     (let header = put_uint32 (of_nat (length payload)) in
      if \<not> w header then Inl ErrAgentWrite
      else if \<not> w payload then Inl ErrAgentWrite
      else Inr (header @ payload))"

definition readAgentMessage :: "bytes \<Rightarrow> auth_error + bytes" where
  "readAgentMessage r =
     (if length r < 4 then Inl (if r = [] then ErrEndOfStream else ErrUnexpectedEnd)
      else
        let len = get_uint32 (take 4 r); body = drop 4 r in
        if len = 0 \<or> 1048576 < len then Inl ErrInvalidGrant
        else if length body < unat len then Inl (if body = [] then ErrEndOfStream else ErrUnexpectedEnd)
        else Inr (take (unat len) body))"

definition agentCall :: "ssh_agent \<Rightarrow> string \<Rightarrow> bytes \<Rightarrow> auth_error + bytes" where
  "agentCall agent socketPath payload =
     (if TrimSpace socketPath = [] then Inl ErrInvalidGrant
      else if \<not> agDial agent socketPath then Inl ErrAgentDial
      else case writeAgentMessage (agWrite agent) payload of
        Inl e \<Rightarrow> Inl e
      | Inr sent \<Rightarrow> readAgentMessage (agReply agent sent))"

definition sshAgentFingerprintSHA256 :: "crypto \<Rightarrow> bytes \<Rightarrow> string" where
  "sshAgentFingerprintSHA256 C blob = ''SHA256:'' @ rawStdEncode (sha256Sum C blob)"

primrec readIdentities :: "crypto \<Rightarrow> nat \<Rightarrow> bytes \<Rightarrow> auth_error + SSHAgentIdentity list" where
  "readIdentities C 0 data = Inr []"
| "readIdentities C (Suc n) data =
     (case sshWireReader_string data of
        Inl e \<Rightarrow> Inl e
      | Inr (blob, data1) \<Rightarrow>
      case sshWireReader_string data1 of
        Inl e \<Rightarrow> Inl e
      | Inr (commentBytes, data2) \<Rightarrow>
      case readIdentities C n data2 of
        Inl e \<Rightarrow> Inl e
      | Inr identities \<Rightarrow>
      case parseSSHEd25519PublicKeyBlob blob of
        Inl e \<Rightarrow> Inr identities
      | Inr (keyType, publicKey) \<Rightarrow>
          Inr (\<lparr>aiBlob = blob, aiType = keyType, aiPublicKey = publicKey, aiComment = ofBytes commentBytes,
                aiFingerprintSHA256 = sshAgentFingerprintSHA256 C blob\<rparr> # identities))"

text \<open>
  The answer of \<open>Identities\<close> after its first byte. The first component is the capacity it asks
  \<open>make\<close> for, which happens before any identity is read.
\<close>

definition identitiesAnswer :: "crypto \<Rightarrow> bytes \<Rightarrow> nat \<times> (auth_error + SSHAgentIdentity list)" where
  "identitiesAnswer C payload =
     (if payload = [] \<or> payload ! 0 \<noteq> 12 then (0, Inl ErrInvalidGrant)
      else case sshWireReader_uint32 (drop 1 payload) of
        Inl e \<Rightarrow> (0, Inl e)
      | Inr (number, data) \<Rightarrow> (unat number, readIdentities C (unat number) data))"

definition Agent_Identities :: "crypto \<Rightarrow> ssh_agent \<Rightarrow> string \<Rightarrow> auth_error + SSHAgentIdentity list" where
  "Agent_Identities C agent socketPath =
     (case agentCall agent socketPath [11] of
        Inl e \<Rightarrow> Inl e
      | Inr payload \<Rightarrow> snd (identitiesAnswer C payload))"

definition signRequest :: "bytes \<Rightarrow> bytes \<Rightarrow> bytes" where
  "signRequest keyBlob data = appendUint32 (appendSSHString (appendSSHString [13] keyBlob) data) 0"

definition Agent_Sign :: "ssh_agent \<Rightarrow> string \<Rightarrow> bytes \<Rightarrow> bytes \<Rightarrow> auth_error + bytes" where
  "Agent_Sign agent socketPath keyBlob data =
     (case agentCall agent socketPath (signRequest keyBlob data) of
        Inl e \<Rightarrow> Inl e
      | Inr response \<Rightarrow>
          if response = [] \<or> response ! 0 = 5 then Inl ErrInvalidSignature
          else if response ! 0 \<noteq> 14 then Inl ErrInvalidSignature
          else case sshWireReader_string (drop 1 response) of
            Inl e \<Rightarrow> Inl e
          | Inr (sigBlob, _) \<Rightarrow>
              (case parseSSHSignatureBlob sigBlob of
                 Inl e \<Rightarrow> Inl e
               | Inr (format, sig) \<Rightarrow>
                   if format \<noteq> ''ssh-ed25519'' \<or> length sig \<noteq> 64 then Inl ErrInvalidSignature else Inr sig))"

definition VerifyMessage :: "crypto \<Rightarrow> bytes \<Rightarrow> bytes \<Rightarrow> bytes \<Rightarrow> auth_error option" where
  "VerifyMessage C publicKey message signature =
     (if length publicKey \<noteq> 32 \<or> length signature \<noteq> 64 \<or> \<not> edVerify C publicKey message signature
      then Some ErrInvalidSignature else None)"

section \<open>Round trips of the wire format\<close>

lemma wire_uint32 [simp]: "sshWireReader_uint32 (put_uint32 v @ rest) = Inr (v, rest)"
  by (simp add: sshWireReader_uint32_def)

lemma wire_string:
  assumes "length v < 4294967296"
  shows "sshWireReader_string (appendSSHString [] v @ rest) = Inr (v, rest)"
proof -
  have "unat (of_nat (length v) :: u32) = length v" using assms by (simp add: unat_of_nat_small)
  then show ?thesis by (simp add: sshWireReader_string_def appendSSHString_def appendUint32_def)
qed

lemma appendSSHString_acc: "appendSSHString out v = out @ appendSSHString [] v"
  by (simp add: appendSSHString_def appendUint32_def)

lemma length_appendSSHString: "length (appendSSHString out v) = length out + 4 + length v"
  by (simp add: appendSSHString_def appendUint32_def)

lemma wire_string_end: "length v < 4294967296 \<Longrightarrow> sshWireReader_string (appendSSHString [] v) = Inr (v, [])"
  using wire_string [of v "[]"] by simp

lemma key_blob_roundtrip:
  assumes "length pk = 32"
  shows "parseSSHEd25519PublicKeyBlob (marshalSSHEd25519PublicKeyBlob pk) = Inr (''ssh-ed25519'', pk)"
  using assms
  by (simp add: parseSSHEd25519PublicKeyBlob_def marshalSSHEd25519PublicKeyBlob_def appendSSHString_acc [of "appendSSHString [] _"]
      wire_string wire_string_end)

section \<open>Key text\<close>

lemma graphic_b64Encode: "graphic (b64Encode bs)"
  unfolding graphic_def list_all_iff
proof
  fix c
  assume "c \<in> set (b64Encode bs)"
  then obtain k where "k < 64" "c = b64Char (CHR ''-'') (CHR ''_'') k" by (auto simp: b64Encode_def dest: sextets_lt)
  with b64Char_code [of k] show "33 \<le> (of_char c :: nat) \<and> (of_char c :: nat) \<le> 126" by auto
qed

lemma graphic_stdEncode: "graphic (stdEncode bs)"
  unfolding graphic_def list_all_iff using stdEncode_graphic by blast

lemma Fields_word: "graphic s \<Longrightarrow> s \<noteq> [] \<Longrightarrow> Fields s = [s]"
  using fieldsFrom_word [of s "[]" "[]"] by (simp add: Fields_def)

lemma decodeRawKey_b64:
  assumes "length buf = 32 \<or> length buf = 64"
  shows "decodeRawKey (b64Encode buf) = Inr buf"
proof -
  have "\<not> isHexKeyCandidate (b64Encode buf)" using assms by (auto simp: isHexKeyCandidate_def length_b64Encode)
  moreover have "buf \<noteq> []" using assms by auto
  ultimately show ?thesis by (simp add: decodeRawKey_def Let_def)
qed

lemma DecodePublicKey_b64:
  assumes "length pk = 32"
  shows "DecodePublicKey (EncodePublicKey pk) = Inr pk"
proof -
  have "pk \<noteq> []" using assms by auto
  then have "Fields (b64Encode pk) = [b64Encode pk]" by (intro Fields_word graphic_b64Encode) simp
  then have "DecodeOpenSSHEd25519PublicKey (b64Encode pk) = None"
    by (simp add: DecodeOpenSSHEd25519PublicKey_def)
  then show ?thesis
    using assms by (simp add: DecodePublicKey_def EncodePublicKey_def decodeRawKey_b64)
qed

lemma DecodePublicKey_line:
  assumes "MarshalOpenSSHEd25519PublicKey pk comment = Inr line"
  shows "DecodePublicKey line = Inr pk"
proof -
  let ?b = "stdEncode (marshalSSHEd25519PublicKeyBlob pk)" and ?c = "TrimSpace comment"
  have len: "length pk = 32" and line: "line = ''ssh-ed25519'' @ CHR '' '' # ?b @ (if ?c = [] then [] else CHR '' '' # ?c)"
    using assms by (auto simp: MarshalOpenSSHEd25519PublicKey_def Let_def split: if_splits)
  have g: "graphic ''ssh-ed25519''" by (simp add: graphic_def)
  have "marshalSSHEd25519PublicKeyBlob pk \<noteq> []" by (simp add: marshalSSHEd25519PublicKeyBlob_def appendSSHString_def appendUint32_def put_uint32_def)
  then have ne: "?b \<noteq> []" by simp
  have "TrimSpace line = line"
    unfolding line by (rule TrimSpace_id, rule trimmed_line) (use g ne in \<open>simp_all add: graphic_stdEncode\<close>)
  moreover obtain more where "Fields line = ''ssh-ed25519'' # ?b # more"
    unfolding line using Fields_two [OF g graphic_stdEncode _ ne, of ?c] by blast
  ultimately have "DecodeOpenSSHEd25519PublicKey line = Some (Inr (pk, marshalSSHEd25519PublicKeyBlob pk))"
    by (simp add: DecodeOpenSSHEd25519PublicKey_def key_blob_roundtrip len)
  then show ?thesis by (simp add: DecodePublicKey_def)
qed

text \<open>
  Keys survive their text forms: the text of a public key and of a private key decode to that key,
  and so does an OpenSSH key line, with every comment.
\<close>

theorem key_text_roundtrip:
  assumes "length pk = 32" "length sk = 64"
  shows "DecodePublicKey (EncodePublicKey pk) = Inr pk \<and> DecodePrivateKey C (EncodePrivateKey sk) = Inr sk
    \<and> (\<exists>line. MarshalOpenSSHEd25519PublicKey pk comment = Inr line \<and> DecodePublicKey line = Inr pk)"
proof -
  obtain line where "MarshalOpenSSHEd25519PublicKey pk comment = Inr line"
    using assms(1) by (auto simp: MarshalOpenSSHEd25519PublicKey_def Let_def)
  with DecodePublicKey_line [OF this] DecodePublicKey_b64 [OF assms(1)] assms(2) show ?thesis
    by (simp add: DecodePrivateKey_def EncodePrivateKey_def decodeRawKey_b64)
qed

theorem key_text_roundtrip_witness:
  "\<exists>line. MarshalOpenSSHEd25519PublicKey (replicate 32 7) '' me@host '' = Inr line
     \<and> DecodePublicKey line = Inr (replicate 32 7)"
  using key_text_roundtrip [of "replicate 32 7" "replicate 64 9" demo_crypto "'' me@host ''"] by simp

section \<open>Conversations with an agent\<close>

text \<open>What a conforming agent sends: the frame of a message, and its two answers.\<close>

definition agentFrame :: "bytes \<Rightarrow> bytes" where
  "agentFrame payload = put_uint32 (of_nat (length payload)) @ payload"

definition agentIdentitiesReply :: "(bytes \<times> bytes) list \<Rightarrow> bytes" where
  "agentIdentitiesReply ids =
     12 # put_uint32 (of_nat (length ids)) @ concat (map (\<lambda>(blob, comment). appendSSHString (appendSSHString [] blob) comment) ids)"

definition agentSignReply :: "bytes \<Rightarrow> bytes" where
  "agentSignReply sig = 14 # appendSSHString [] (appendSSHString (appendSSHString [] (toBytes ''ssh-ed25519'')) sig)"

text \<open>The identity the client makes of one entry, if it is an Ed25519 key.\<close>

definition identityOf :: "crypto \<Rightarrow> bytes \<times> bytes \<Rightarrow> SSHAgentIdentity option" where
  "identityOf C entry =
     (case parseSSHEd25519PublicKeyBlob (fst entry) of
        Inl e \<Rightarrow> None
      | Inr (keyType, publicKey) \<Rightarrow>
          Some \<lparr>aiBlob = fst entry, aiType = keyType, aiPublicKey = publicKey, aiComment = ofBytes (snd entry),
                aiFingerprintSHA256 = sshAgentFingerprintSHA256 C (fst entry)\<rparr>)"

lemma readAgentMessage_frame:
  assumes "payload \<noteq> []" "length payload \<le> 1048576"
  shows "readAgentMessage (agentFrame payload) = Inr payload"
proof -
  have "unat (of_nat (length payload) :: u32) = length payload"
    using assms(2) by (simp add: unat_of_nat_small)
  moreover from this have "(of_nat (length payload) :: u32) \<noteq> 0" "\<not> 1048576 < (of_nat (length payload) :: u32)"
    using assms by (auto simp: word_less_nat_alt)
  ultimately show ?thesis by (simp add: readAgentMessage_def agentFrame_def Let_def)
qed

lemma agentCall_frame:
  assumes "TrimSpace socket \<noteq> []" "agDial agent socket" "\<forall>b. agWrite agent b"
    and "agReply agent (agentFrame request) = agentFrame answer" "answer \<noteq> []" "length answer \<le> 1048576"
  shows "agentCall agent socket request = Inr answer"
  using assms(1-4) readAgentMessage_frame [OF assms(5,6)]
  by (simp add: agentCall_def writeAgentMessage_def agentFrame_def)

lemma readIdentities_entries:
  assumes "\<forall>(blob, comment) \<in> set ids. length blob < 4294967296 \<and> length comment < 4294967296"
  shows "readIdentities C (length ids)
      (concat (map (\<lambda>(blob, comment). appendSSHString (appendSSHString [] blob) comment) ids))
    = Inr (List.map_filter (identityOf C) ids)"
  using assms
proof (induction ids)
  case (Cons x ids)
  obtain blob comment where x: "x = (blob, comment)" by fastforce
  with Cons show ?case
    by (simp add: appendSSHString_acc [of "appendSSHString [] _"] wire_string List.map_filter_simps identityOf_def
        split: sum.splits prod.splits)
qed (simp add: List.map_filter_simps)

text \<open>
  The client lists what the agent has: from the answer of a conforming agent it returns exactly
  the Ed25519 identities, in the agent's order, and skips entries of other key types.
\<close>

theorem agent_identities_listed:
  assumes "TrimSpace socket \<noteq> []" "agDial agent socket" "\<forall>b. agWrite agent b"
    and "agReply agent (agentFrame [11]) = agentFrame (agentIdentitiesReply ids)"
    and "length (agentIdentitiesReply ids) \<le> 1048576"
  shows "Agent_Identities C agent socket = Inr (List.map_filter (identityOf C) ids)"
proof -
  let ?entry = "\<lambda>(blob, comment). appendSSHString (appendSSHString [] blob) comment"
  have "length blob < 1048576 \<and> length comment < 1048576" if "(blob, comment) \<in> set ids" for blob comment
  proof -
    have "length (?entry (blob, comment)) \<le> length (concat (map ?entry ids))"
      using that by (induction ids) auto
    then show ?thesis using assms(5) by (simp add: agentIdentitiesReply_def length_appendSSHString)
  qed
  then have small: "\<forall>(blob, comment) \<in> set ids. length blob < 4294967296 \<and> length comment < 4294967296"
    by fastforce
  have "length ids \<le> length (concat (map ?entry ids))"
    by (induction ids) (auto simp: length_appendSSHString)
  then have n: "unat (of_nat (length ids) :: u32) = length ids"
    using assms(5) by (simp add: agentIdentitiesReply_def unat_of_nat_small)
  have "agentCall agent socket [11] = Inr (agentIdentitiesReply ids)"
    by (rule agentCall_frame) (use assms in \<open>simp_all add: agentIdentitiesReply_def\<close>)
  then show ?thesis
    by (simp add: Agent_Identities_def identitiesAnswer_def agentIdentitiesReply_def n readIdentities_entries [OF small])
qed

lemma Agent_Sign_reply:
  assumes "agentCall agent socket (signRequest keyBlob data) = Inr (agentSignReply sig)" "length sig = 64"
  shows "Agent_Sign agent socket keyBlob data = Inr sig"
proof -
  let ?blob = "appendSSHString (appendSSHString [] (toBytes ''ssh-ed25519'')) sig"
  have "length ?blob = 83" using assms(2) by (simp add: length_appendSSHString)
  then have "sshWireReader_string (appendSSHString [] ?blob) = Inr (?blob, [])" by (intro wire_string_end) simp
  moreover have "parseSSHSignatureBlob ?blob = Inr (''ssh-ed25519'', sig)"
    using assms(2)
    by (simp add: parseSSHSignatureBlob_def appendSSHString_acc [of "appendSSHString [] _"] wire_string wire_string_end)
  ultimately show ?thesis using assms by (simp add: Agent_Sign_def agentSignReply_def)
qed

text \<open>
  A signing request says what is to be signed: the agent reads from it the key blob, the data and
  no flags, and the Ed25519 signature of its answer is what the client returns.
\<close>

theorem agent_sign_exchange:
  assumes "TrimSpace socket \<noteq> []" "agDial agent socket" "\<forall>b. agWrite agent b"
    and "length keyBlob < 4294967296" "length data < 4294967296" "length sig = 64"
    and "agReply agent (agentFrame (signRequest keyBlob data)) = agentFrame (agentSignReply sig)"
  shows "(\<exists>rest rest'. hd (signRequest keyBlob data) = 13
        \<and> sshWireReader_string (tl (signRequest keyBlob data)) = Inr (keyBlob, rest)
        \<and> sshWireReader_string rest = Inr (data, rest') \<and> sshWireReader_uint32 rest' = Inr (0, []))
    \<and> Agent_Sign agent socket keyBlob data = Inr sig"
proof -
  have req: "signRequest keyBlob data = 13 # appendSSHString [] keyBlob @ appendSSHString [] data @ put_uint32 0"
    by (simp add: signRequest_def appendUint32_def appendSSHString_def)
  have "agentCall agent socket (signRequest keyBlob data) = Inr (agentSignReply sig)"
    by (rule agentCall_frame) (use assms in \<open>simp_all add: agentSignReply_def length_appendSSHString\<close>)
  from Agent_Sign_reply [OF this assms(6)] have "Agent_Sign agent socket keyBlob data = Inr sig" .
  moreover have "sshWireReader_uint32 (put_uint32 0) = Inr (0, [])" using wire_uint32 [of 0 "[]"] by simp
  ultimately show ?thesis using assms(4,5) by (simp add: req wire_string)
qed

text \<open>A concrete agent with one Ed25519 key and one key of another type.\<close>

definition demo_blob :: bytes where
  "demo_blob = marshalSSHEd25519PublicKeyBlob (replicate 32 7)"

definition demo_ids :: "(bytes \<times> bytes) list" where
  "demo_ids = [(appendSSHString [] (toBytes ''ssh-rsa''), toBytes ''old''), (demo_blob, toBytes ''me'')]"

definition demo_agent :: ssh_agent where
  "demo_agent =
     \<lparr>agDial = (\<lambda>path. path = ''/run/agent''), agWrite = (\<lambda>b. True),
      agReply = (\<lambda>sent. if sent = agentFrame [11] then agentFrame (agentIdentitiesReply demo_ids)
                        else agentFrame (agentSignReply (take 64 (drop 64 sent @ replicate 64 0))))\<rparr>"

lemma demo_socket: "TrimSpace ''/run/agent'' = ''/run/agent''"
  by code_simp

lemma demo_blob_key: "parseSSHEd25519PublicKeyBlob demo_blob = Inr (''ssh-ed25519'', replicate 32 7)"
  unfolding demo_blob_def by (rule key_blob_roundtrip) simp

lemma demo_rsa: "parseSSHEd25519PublicKeyBlob (appendSSHString [] (toBytes ''ssh-rsa'')) = Inl ErrInvalidGrant"
  by (simp add: parseSSHEd25519PublicKeyBlob_def wire_string_end)

lemma length_demo_blob: "length demo_blob = 51"
  by (simp add: demo_blob_def marshalSSHEd25519PublicKeyBlob_def length_appendSSHString)

theorem agent_identities_listed_witness:
  "\<exists>ids. Agent_Identities demo_crypto demo_agent ''/run/agent'' = Inr ids \<and> length ids = 1
     \<and> aiPublicKey (hd ids) = replicate 32 7 \<and> aiComment (hd ids) = ''me''"
proof -
  have "Agent_Identities demo_crypto demo_agent ''/run/agent'' = Inr (List.map_filter (identityOf demo_crypto) demo_ids)"
    by (rule agent_identities_listed)
       (simp_all add: demo_agent_def demo_socket agentIdentitiesReply_def demo_ids_def length_appendSSHString length_demo_blob)
  then show ?thesis
    by (simp add: demo_ids_def List.map_filter_simps identityOf_def demo_rsa demo_blob_key)
qed

theorem agent_sign_exchange_witness:
  "\<exists>sig. Agent_Sign demo_agent ''/run/agent'' demo_blob [1, 2] = Inr sig \<and> length sig = 64"
proof -
  let ?sent = "agentFrame (signRequest demo_blob [1, 2])"
  let ?sig = "take 64 (drop 64 ?sent @ replicate 64 0)"
  have "?sent \<noteq> agentFrame [11]"
    by (auto simp: agentFrame_def signRequest_def appendUint32_def appendSSHString_def length_demo_blob dest: arg_cong [where f = length])
  then have "Agent_Sign demo_agent ''/run/agent'' demo_blob [1, 2] = Inr ?sig"
    by (intro conjunct2 [OF agent_sign_exchange])
       (simp_all add: demo_agent_def demo_socket length_demo_blob)
  then show ?thesis by (auto simp: min_def)
qed

text \<open>
  The agent decides how much the client allocates: an answer of five bytes makes \<open>Identities\<close> ask
  for room for 4294967295 entries before it notices that there is not one.
\<close>

theorem identities_capacity_unchecked:
  "length (12 # replicate 4 (255 :: byte)) = 5
   \<and> identitiesAnswer C (12 # replicate 4 255) = (4294967295, Inl ErrUnexpectedEnd)"
proof -
  have "put_uint32 4294967295 = replicate 4 255" by code_simp
  with wire_uint32 [of 4294967295 "[]"] have r: "sshWireReader_uint32 (replicate 4 255) = Inr (4294967295, [])" by simp
  have "readIdentities C (Suc n) [] = Inl ErrUnexpectedEnd" for n
    by (simp add: sshWireReader_string_def sshWireReader_uint32_def)
  from this [of 4294967294] have "readIdentities C 4294967295 [] = Inl ErrUnexpectedEnd"
    by (simp only: Suc_numeral arith_simps)
  with r show ?thesis by (simp add: identitiesAnswer_def)
qed

end
