(* ===== verification/Auth_Config.thy ===== *)
theory Auth_Config
  imports Auth_Wire
begin

text \<open>
  The configuration that signs and verifies grants: \<open>src/authproof/runtime_config.go\<close>, with the
  choice of a signing agent's identity from \<open>src/authproof/ssh_agent.go\<close> and
  \<open>src/authproof/message_signer.go\<close>.

  Files, environment variables, \<open>gpgconf\<close>, the agent, the random source and the clock are the
  parameter record \<open>proof_env\<close>.
\<close>

section \<open>Configuration\<close>

abbreviation ProofModeOff :: string where "ProofModeOff \<equiv> ''off''"
abbreviation ProofModeRequired :: string where "ProofModeRequired \<equiv> ''required''"
abbreviation SignerProviderKeyMaterial :: string where "SignerProviderKeyMaterial \<equiv> ''key''"
abbreviation SignerProviderSSHAgent :: string where "SignerProviderSSHAgent \<equiv> ''ssh-agent''"
abbreviation SignerProviderGPGAgent :: string where "SignerProviderGPGAgent \<equiv> ''gpg-agent''"
abbreviation DefaultProofTTL :: go_duration where "DefaultProofTTL \<equiv> 60 * go_second"

record proof_env =
  peReadFile :: "string \<Rightarrow> string option"
  peGetenv :: "string \<Rightarrow> string"
  peGpgconf :: "string option"
  peAgent :: ssh_agent
  peRandom :: "nat \<Rightarrow> bytes option"
  peClock :: go_time

record RuntimeConfig =
  rcMode :: string
  rcSecurityLevel :: string
  rcIssuerPeerID :: string
  rcSubjectPeerID :: string
  rcAudience :: string
  rcPublicKey :: string
  rcPublicKeyFile :: string
  rcPrivateKey :: string
  rcPrivateKeyFile :: string
  rcSignerProvider :: string
  rcIdentity :: string
  rcIdentityFile :: string
  rcAgentSocket :: string
  rcSessionID :: string
  rcX11CookieSHA256 :: string
  rcChainSHA256 :: string
  rcTTL :: go_duration
  rcRequiredCapabilities :: "string list"
  rcReplayCache :: "NonceCache option"

definition NormalizeProofMode :: "string \<Rightarrow> string" where
  "NormalizeProofMode mode =
     (let m = ToLower (TrimSpace mode) in
      if m = [] \<or> m = ProofModeOff then ProofModeOff
      else if m = ProofModeRequired then ProofModeRequired
      else m)"

definition DefaultChainSHA256 :: "crypto \<Rightarrow> string" where
  "DefaultChainSHA256 C = SHA256Hex C (toBytes ''weaverssh-default-chain'')"

text \<open>\<open>strings.Join\<close> with the separator \<open>\x00\<close>.\<close>

fun joinParts :: "string list \<Rightarrow> string" where
  "joinParts [] = []"
| "joinParts [p] = p"
| "joinParts (p # q # rest) = p @ CHR 0x00 # joinParts (q # rest)"

definition ChainBindingSHA256 :: "crypto \<Rightarrow> string list \<Rightarrow> string" where
  "ChainBindingSHA256 C parts = SHA256Hex C (toBytes (joinParts (filter (\<lambda>p. p \<noteq> []) (map TrimSpace parts))))"

definition HashX11Cookie :: "crypto \<Rightarrow> string \<Rightarrow> string" where
  "HashX11Cookie C cookie = SHA256Hex C (toBytes (TrimSpace cookie))"

definition DefaultRelayCapabilities :: "string list" where
  "DefaultRelayCapabilities = [CapabilityWebSocketUpgrade, CapabilityX11Relay]"

definition Config_Normalized :: "RuntimeConfig \<Rightarrow> RuntimeConfig" where
  "Config_Normalized c =
     c\<lparr>rcMode := NormalizeProofMode (rcMode c),
       rcSecurityLevel := NormalizeSecurityLevel (rcSecurityLevel c),
       rcIssuerPeerID := TrimSpace (rcIssuerPeerID c),
       rcSubjectPeerID := TrimSpace (rcSubjectPeerID c),
       rcAudience := TrimSpace (rcAudience c),
       rcPublicKey := TrimSpace (rcPublicKey c),
       rcPublicKeyFile := TrimSpace (rcPublicKeyFile c),
       rcPrivateKey := TrimSpace (rcPrivateKey c),
       rcPrivateKeyFile := TrimSpace (rcPrivateKeyFile c),
       rcSignerProvider := TrimSpace (rcSignerProvider c),
       rcIdentity := TrimSpace (rcIdentity c),
       rcIdentityFile := TrimSpace (rcIdentityFile c),
       rcAgentSocket := TrimSpace (rcAgentSocket c),
       rcSessionID := TrimSpace (rcSessionID c),
       rcX11CookieSHA256 := ToLower (TrimSpace (rcX11CookieSHA256 c)),
       rcChainSHA256 := ToLower (TrimSpace (rcChainSHA256 c)),
       rcTTL := (if rcTTL c \<le> 0 then DefaultProofTTL else rcTTL c),
       rcRequiredCapabilities :=
         (if normalizeCapabilities (rcRequiredCapabilities c) = [] then DefaultRelayCapabilities
          else normalizeCapabilities (rcRequiredCapabilities c))\<rparr>"

definition Required :: "RuntimeConfig \<Rightarrow> bool" where
  "Required c =
     (let cfg = Config_Normalized c in
      rcMode cfg = ProofModeRequired \<or> SecurityLevelRequiresSignedProof (rcSecurityLevel cfg))"

definition ValidateMode :: "RuntimeConfig \<Rightarrow> auth_error option" where
  "ValidateMode c =
     (let mode = NormalizeProofMode (rcMode c) in
      if mode \<noteq> ProofModeOff \<and> mode \<noteq> ProofModeRequired then Some ErrInvalidProofMode
      else ValidateSecurityLevel (rcSecurityLevel c))"

section \<open>Key material\<close>

definition loadTextValue :: "proof_env \<Rightarrow> string \<Rightarrow> string \<Rightarrow> auth_error + string" where
  "loadTextValue E inlineValue filePath =
     (if TrimSpace inlineValue \<noteq> [] then Inr (TrimSpace inlineValue)
      else if TrimSpace filePath = [] then Inl ErrInvalidGrant
      else case peReadFile E (TrimSpace filePath) of
        None \<Rightarrow> Inl ErrReadFile
      | Some data \<Rightarrow> Inr (TrimSpace data))"

definition LoadPublicKey :: "proof_env \<Rightarrow> RuntimeConfig \<Rightarrow> auth_error + bytes" where
  "LoadPublicKey E c =
     (case loadTextValue E (rcPublicKey c) (rcPublicKeyFile c) of Inl e \<Rightarrow> Inl e | Inr raw \<Rightarrow> DecodePublicKey raw)"

definition LoadPrivateKey :: "crypto \<Rightarrow> proof_env \<Rightarrow> RuntimeConfig \<Rightarrow> auth_error + bytes" where
  "LoadPrivateKey C E c =
     (case loadTextValue E (rcPrivateKey c) (rcPrivateKeyFile c) of Inl e \<Rightarrow> Inl e | Inr raw \<Rightarrow> DecodePrivateKey C raw)"

section \<open>Signer providers\<close>

definition NormalizeSignerProvider :: "string \<Rightarrow> string" where
  "NormalizeSignerProvider provider =
     (let key = ToLower (TrimSpace (replaceChar (CHR ''_'') (CHR ''-'') provider)) in
      if key \<in> {[], ''key'', ''key-material'', ''inline'', ''file'', ''private-key'', ''ed25519''} then
        SignerProviderKeyMaterial
      else if key \<in> {''ssh'', ''ssh-agent'', ''sshagent'', ''openssh-agent'', ''pageant''} then SignerProviderSSHAgent
      else if key \<in> {''gpg'', ''gpg-agent'', ''gpgagent'', ''gnupg''} then SignerProviderGPGAgent
      else ToLower (TrimSpace provider))"

definition KnownSignerProvider :: "string \<Rightarrow> bool" where
  "KnownSignerProvider provider =
     (NormalizeSignerProvider provider \<in> {SignerProviderKeyMaterial, SignerProviderSSHAgent, SignerProviderGPGAgent})"

definition normalizedSignerProvider :: "RuntimeConfig \<Rightarrow> string" where
  "normalizedSignerProvider c =
     (let cfg = Config_Normalized c in
      if rcSignerProvider cfg \<noteq> [] then NormalizeSignerProvider (rcSignerProvider cfg)
      else if rcAgentSocket cfg \<noteq> [] then SignerProviderSSHAgent
      else SignerProviderKeyMaterial)"

text \<open>\<open>peGpgconf\<close> is the output of \<open>gpgconf\<close>, \<open>None\<close> when it is not there or fails.\<close>

definition gpgAgentSSHSockFromGPGConf :: "proof_env \<Rightarrow> string option" where
  "gpgAgentSSHSockFromGPGConf E = map_option TrimSpace (peGpgconf E)"

definition ResolveSignerAgentSocket :: "proof_env \<Rightarrow> RuntimeConfig \<Rightarrow> string \<Rightarrow> auth_error + string" where
  "ResolveSignerAgentSocket E c provider =
     (let cfg = Config_Normalized c; env = (\<lambda>name. TrimSpace (peGetenv E name)) in
      if rcAgentSocket cfg \<noteq> [] then Inr (rcAgentSocket cfg)
      else if NormalizeSignerProvider provider = SignerProviderSSHAgent then
        (if env ''SSH_AUTH_SOCK'' \<noteq> [] then Inr (env ''SSH_AUTH_SOCK'') else Inl ErrInvalidGrant)
      else if NormalizeSignerProvider provider = SignerProviderGPGAgent then
        (case find (\<lambda>sock. sock \<noteq> []) [env ''WEAVERSSH_GPG_AGENT_SSH_AUTH_SOCK'', env ''GPG_AGENT_SSH_AUTH_SOCK''] of
           Some sock \<Rightarrow> Inr sock
         | None \<Rightarrow>
             (case gpgAgentSSHSockFromGPGConf E of
                Some (c # cs) \<Rightarrow> Inr (c # cs)
              | _ \<Rightarrow> if env ''SSH_AUTH_SOCK'' \<noteq> [] then Inr (env ''SSH_AUTH_SOCK'') else Inl ErrInvalidGrant))
      else Inl ErrInvalidGrant)"

definition ValidateSignerProvider :: "crypto \<Rightarrow> proof_env \<Rightarrow> RuntimeConfig \<Rightarrow> auth_error option" where
  "ValidateSignerProvider C E c =
     (let provider = normalizedSignerProvider c in
      if \<not> KnownSignerProvider provider then Some ErrInvalidGrant
      else if provider = SignerProviderKeyMaterial then
        (case LoadPrivateKey C E c of Inl e \<Rightarrow> Some e | Inr _ \<Rightarrow> None)
      else if provider = SignerProviderSSHAgent \<or> provider = SignerProviderGPGAgent then
        (case ResolveSignerAgentSocket E c provider of Inl e \<Rightarrow> Some e | Inr _ \<Rightarrow> None)
      else Some ErrInvalidGrant)"

section \<open>Validation\<close>

definition ValidateVerifier :: "proof_env \<Rightarrow> RuntimeConfig \<Rightarrow> auth_error option" where
  "ValidateVerifier E c =
     (let cfg = Config_Normalized c in
      case ValidateMode cfg of
        Some e \<Rightarrow> Some e
      | None \<Rightarrow>
      if \<not> Required cfg then None
      else if rcSubjectPeerID cfg = [] then Some ErrInvalidGrant
      else if rcAudience cfg = [] then Some ErrInvalidGrant
      else if rcX11CookieSHA256 cfg = [] then Some ErrInvalidGrant
      else if \<not> isLowerHexSHA256 (rcX11CookieSHA256 cfg) then Some ErrInvalidGrant
      else if \<not> isLowerHexSHA256 (rcChainSHA256 cfg) then Some ErrInvalidGrant
      else case LoadPublicKey E cfg of Inl e \<Rightarrow> Some e | Inr _ \<Rightarrow> None)"

definition ValidateSignerKeyConfig :: "crypto \<Rightarrow> proof_env \<Rightarrow> RuntimeConfig \<Rightarrow> auth_error option" where
  "ValidateSignerKeyConfig C E c =
     (let cfg = Config_Normalized c in
      case ValidateMode cfg of
        Some e \<Rightarrow> Some e
      | None \<Rightarrow>
      if \<not> Required cfg then None
      else if rcIssuerPeerID cfg = [] then Some ErrInvalidGrant
      else if rcSubjectPeerID cfg = [] then Some ErrInvalidGrant
      else if rcAudience cfg = [] then Some ErrInvalidGrant
      else if \<not> isLowerHexSHA256 (rcChainSHA256 cfg) then Some ErrInvalidGrant
      else ValidateSignerProvider C E cfg)"

definition ValidateSigner :: "crypto \<Rightarrow> proof_env \<Rightarrow> RuntimeConfig \<Rightarrow> auth_error option" where
  "ValidateSigner C E c =
     (let cfg = Config_Normalized c in
      case ValidateMode cfg of
        Some e \<Rightarrow> Some e
      | None \<Rightarrow>
      if \<not> Required cfg then None
      else if rcIssuerPeerID cfg = [] then Some ErrInvalidGrant
      else if rcSubjectPeerID cfg = [] then Some ErrInvalidGrant
      else if rcAudience cfg = [] then Some ErrInvalidGrant
      else if rcX11CookieSHA256 cfg = [] then Some ErrInvalidGrant
      else if \<not> isLowerHexSHA256 (rcX11CookieSHA256 cfg) then Some ErrInvalidGrant
      else if \<not> isLowerHexSHA256 (rcChainSHA256 cfg) then Some ErrInvalidGrant
      else ValidateSignerProvider C E cfg)"

section \<open>Building and signing a grant\<close>

definition securityLevelForGrant :: "string \<Rightarrow> string" where
  "securityLevelForGrant level =
     (if NormalizeSecurityLevel level = SecurityLevelCompat then [] else NormalizeSecurityLevel level)"

definition securityLevelForVerify :: "string \<Rightarrow> string" where
  "securityLevelForVerify level =
     (if NormalizeSecurityLevel level = SecurityLevelCompat then [] else NormalizeSecurityLevel level)"

definition NewRandomNonce :: "proof_env \<Rightarrow> int \<Rightarrow> auth_error + string" where
  "NewRandomNonce E byteLen =
     (case peRandom E (nat (if byteLen \<le> 0 then 24 else byteLen)) of
        None \<Rightarrow> Inl ErrRandom
      | Some buf \<Rightarrow> Inr (b64Encode buf))"

text \<open>\<open>%d\<close> of an \<open>int64\<close>, and \<open>UnixNano\<close> with its wrap-around.\<close>

definition formatInt :: "int \<Rightarrow> string" where
  "formatInt n = (if n < 0 then CHR ''-'' # Itoa (nat (- n)) else Itoa (nat n))"

definition unixNano :: "go_time \<Rightarrow> int" where
  "unixNano t = go_int64 (t - 62135596800 * go_second)"

definition configGrant :: "RuntimeConfig \<Rightarrow> go_time \<Rightarrow> string \<Rightarrow> Grant" where
  "configGrant cfg now nonce =
     \<lparr>gVersion = Version, gAlgorithm = Algorithm, gIssuerPeerID = rcIssuerPeerID cfg,
      gSubjectPeerID = rcSubjectPeerID cfg, gAudience = rcAudience cfg,
      gSessionID = (if rcSessionID cfg = [] then rcSubjectPeerID cfg @ ''-'' @ formatInt (unixNano now)
                    else rcSessionID cfg),
      gCapabilities = rcRequiredCapabilities cfg, gSecurityLevel = securityLevelForGrant (rcSecurityLevel cfg),
      gX11CookieSHA256 = rcX11CookieSHA256 cfg, gChainSHA256 = rcChainSHA256 cfg, gNonce = nonce,
      gIssuedAtUnix = go_unix now, gExpiresAtUnix = go_unix (now + rcTTL cfg)\<rparr>"

definition BuildGrant :: "proof_env \<Rightarrow> RuntimeConfig \<Rightarrow> go_time \<Rightarrow> string \<Rightarrow> auth_error + Grant" where
  "BuildGrant E c rawNow rawNonce =
     (let cfg = Config_Normalized c in
      if \<not> Required cfg then Inl ErrProofDisabled
      else
      let now = (if rawNow = 0 then peClock E else rawNow) in
      case (if TrimSpace rawNonce = [] then NewRandomNonce E 24 else Inr rawNonce) of
        Inl e \<Rightarrow> Inl e
      | Inr nonce \<Rightarrow>
      let grant = configGrant cfg now nonce in
      case Grant_Validate grant of
        Some e \<Rightarrow> Inl e
      | None \<Rightarrow> Inr (Grant_Normalized grant))"

definition readOptionalTextFile :: "proof_env \<Rightarrow> string \<Rightarrow> string" where
  "readOptionalTextFile E path =
     (if TrimSpace path = [] then []
      else case peReadFile E (TrimSpace path) of None \<Rightarrow> [] | Some data \<Rightarrow> TrimSpace data)"

text \<open>The values that decode to a key, and the others, in the order of the configuration.\<close>

definition agentIdentitySelectors :: "proof_env \<Rightarrow> RuntimeConfig \<Rightarrow> string list \<times> bytes list" where
  "agentIdentitySelectors E c =
     (let cfg = Config_Normalized c;
          values = filter (\<lambda>v. v \<noteq> []) (map TrimSpace
            [rcIdentity cfg, readOptionalTextFile E (rcIdentityFile cfg), rcPublicKey cfg,
             readOptionalTextFile E (rcPublicKeyFile cfg)]) in
      (filter (\<lambda>v. case DecodePublicKey v of Inl _ \<Rightarrow> True | Inr _ \<Rightarrow> False) values,
       List.map_filter (\<lambda>v. case DecodePublicKey v of Inl _ \<Rightarrow> None | Inr key \<Rightarrow> Some key) values))"

definition sshAgentIdentityMatches :: "SSHAgentIdentity \<Rightarrow> string \<Rightarrow> bool" where
  "sshAgentIdentityMatches ident rawSelector =
     (let selector = TrimSpace rawSelector in
      if selector = [] then False
      else if selector = aiComment ident \<or> selector = aiFingerprintSHA256 ident
           \<or> TrimPrefix selector ''SHA256:'' = TrimPrefix (aiFingerprintSHA256 ident) ''SHA256:'' then True
      else case DecodePublicKey selector of Inl _ \<Rightarrow> False | Inr key \<Rightarrow> aiPublicKey ident = key)"

definition selectSSHAgentIdentity ::
  "proof_env \<Rightarrow> RuntimeConfig \<Rightarrow> SSHAgentIdentity list \<Rightarrow> auth_error + SSHAgentIdentity" where
  "selectSSHAgentIdentity E c identities =
     (if identities = [] then Inl ErrInvalidGrant
      else case agentIdentitySelectors E c of (selectors, publicKeys) \<Rightarrow>
        (case find (\<lambda>ident. list_ex (\<lambda>key. aiPublicKey ident = key) publicKeys
                            \<or> list_ex (sshAgentIdentityMatches ident) selectors) identities of
           Some ident \<Rightarrow> Inr ident
         | None \<Rightarrow>
             if selectors = [] \<and> publicKeys = [] \<and> length identities = 1 then Inr (identities ! 0)
             else Inl ErrInvalidGrant))"

definition SignWithAgent ::
  "crypto \<Rightarrow> (Grant \<Rightarrow> bytes option) \<Rightarrow> proof_env \<Rightarrow> RuntimeConfig \<Rightarrow> go_time \<Rightarrow> string \<Rightarrow> auth_error + SignedGrant" where
  "SignWithAgent C marshal E c now provider =
     (let cfg = Config_Normalized c in
      case ValidateSigner C E cfg of
        Some e \<Rightarrow> Inl e
      | None \<Rightarrow>
      case ResolveSignerAgentSocket E cfg provider of
        Inl e \<Rightarrow> Inl e
      | Inr socketPath \<Rightarrow>
      case BuildGrant E cfg now [] of
        Inl e \<Rightarrow> Inl e
      | Inr grant \<Rightarrow>
      case CanonicalBytes marshal grant of
        Inl e \<Rightarrow> Inl e
      | Inr canonical \<Rightarrow>
      case Agent_Identities C (peAgent E) socketPath of
        Inl e \<Rightarrow> Inl e
      | Inr identities \<Rightarrow>
      case selectSSHAgentIdentity E cfg identities of
        Inl e \<Rightarrow> Inl e
      | Inr ident \<Rightarrow>
      case Agent_Sign (peAgent E) socketPath (aiBlob ident) canonical of
        Inl e \<Rightarrow> Inl e
      | Inr sig \<Rightarrow> Inr \<lparr>sgGrant = Grant_Normalized grant, sgSignature = b64Encode sig\<rparr>)"

definition Config_Sign ::
  "crypto \<Rightarrow> (Grant \<Rightarrow> bytes option) \<Rightarrow> proof_env \<Rightarrow> RuntimeConfig \<Rightarrow> go_time \<Rightarrow> auth_error + SignedGrant" where
  "Config_Sign C marshal E c now =
     (let cfg = Config_Normalized c; provider = normalizedSignerProvider cfg in
      if provider = SignerProviderSSHAgent \<or> provider = SignerProviderGPGAgent then
        SignWithAgent C marshal E cfg now provider
      else case ValidateSigner C E cfg of
        Some e \<Rightarrow> Inl e
      | None \<Rightarrow>
      case LoadPrivateKey C E cfg of
        Inl e \<Rightarrow> Inl e
      | Inr privateKey \<Rightarrow>
      case BuildGrant E cfg now [] of
        Inl e \<Rightarrow> Inl e
      | Inr grant \<Rightarrow> SignGrant C marshal grant privateKey)"

definition configOptions :: "RuntimeConfig \<Rightarrow> go_time \<Rightarrow> VerifyOptions" where
  "configOptions cfg now =
     \<lparr>voNow = now, voAudience = rcAudience cfg, voSubjectPeerID = rcSubjectPeerID cfg,
      voRequiredCapabilities = rcRequiredCapabilities cfg,
      voSecurityLevel = securityLevelForVerify (rcSecurityLevel cfg),
      voX11CookieSHA256 = rcX11CookieSHA256 cfg, voChainSHA256 = rcChainSHA256 cfg,
      voMaxTTL = rcTTL cfg, voReplayCache = rcReplayCache cfg\<rparr>"

definition Config_Verify ::
  "crypto \<Rightarrow> (Grant \<Rightarrow> bytes option) \<Rightarrow> proof_env \<Rightarrow> RuntimeConfig \<Rightarrow> SignedGrant \<Rightarrow> go_time \<Rightarrow>
     (auth_error + Grant) \<times> NonceCache option" where
  "Config_Verify C marshal E c proof now =
     (let cfg = Config_Normalized c in
      case ValidateVerifier E cfg of
        Some e \<Rightarrow> (Inl e, rcReplayCache cfg)
      | None \<Rightarrow>
      case LoadPublicKey E cfg of
        Inl e \<Rightarrow> (Inl e, rcReplayCache cfg)
      | Inr publicKey \<Rightarrow> VerifySignedGrant C marshal (peClock E) proof publicKey (configOptions cfg now))"

section \<open>Signing messages with an agent\<close>

record AgentMessageSigner =
  amProvider :: string
  amSocket :: string
  amIdentity :: string
  amIdentityFile :: string
  amPublicKey :: string
  amPublicKeyFile :: string

definition signerConfig :: "AgentMessageSigner \<Rightarrow> string \<Rightarrow> RuntimeConfig" where
  "signerConfig s provider =
     \<lparr>rcMode = [], rcSecurityLevel = [], rcIssuerPeerID = [], rcSubjectPeerID = [], rcAudience = [],
      rcPublicKey = TrimSpace (amPublicKey s), rcPublicKeyFile = TrimSpace (amPublicKeyFile s),
      rcPrivateKey = [], rcPrivateKeyFile = [], rcSignerProvider = provider,
      rcIdentity = TrimSpace (amIdentity s), rcIdentityFile = TrimSpace (amIdentityFile s),
      rcAgentSocket = TrimSpace (amSocket s), rcSessionID = [], rcX11CookieSHA256 = [], rcChainSHA256 = [],
      rcTTL = 0, rcRequiredCapabilities = [], rcReplayCache = None\<rparr>"

definition AgentMessageSigner_Sign ::
  "crypto \<Rightarrow> proof_env \<Rightarrow> AgentMessageSigner \<Rightarrow> bytes \<Rightarrow> auth_error + bytes \<times> string \<times> bytes" where
  "AgentMessageSigner_Sign C E s message =
     (let normalized = NormalizeSignerProvider (amProvider s);
          provider = (if normalized = SignerProviderKeyMaterial then SignerProviderSSHAgent else normalized);
          cfg = signerConfig s provider in
      case ResolveSignerAgentSocket E cfg provider of
        Inl e \<Rightarrow> Inl e
      | Inr socket \<Rightarrow>
      case Agent_Identities C (peAgent E) socket of
        Inl e \<Rightarrow> Inl e
      | Inr identities \<Rightarrow>
      case selectSSHAgentIdentity E cfg identities of
        Inl e \<Rightarrow> Inl e
      | Inr ident \<Rightarrow>
      case Agent_Sign (peAgent E) socket (aiBlob ident) message of
        Inl e \<Rightarrow> Inl e
      | Inr signature \<Rightarrow>
          if length (aiPublicKey ident) \<noteq> 32 then Inl ErrInvalidGrant
          else Inr (aiPublicKey ident, aiFingerprintSHA256 ident, signature))"

section \<open>Normal forms\<close>

lemma NormalizeProofMode_idem [simp]: "NormalizeProofMode (NormalizeProofMode m) = NormalizeProofMode m"
proof -
  have "NormalizeProofMode ProofModeOff = ProofModeOff" "NormalizeProofMode ProofModeRequired = ProofModeRequired"
    by code_simp+
  then show ?thesis by (auto simp: NormalizeProofMode_def [of m] Let_def) (auto simp: NormalizeProofMode_def)
qed

lemma default_capabilities: "normalizeCapabilities DefaultRelayCapabilities = DefaultRelayCapabilities"
  by code_simp

lemma Config_Normalized_sel [simp]:
  "rcMode (Config_Normalized c) = NormalizeProofMode (rcMode c)"
  "rcSecurityLevel (Config_Normalized c) = NormalizeSecurityLevel (rcSecurityLevel c)"
  "rcIssuerPeerID (Config_Normalized c) = TrimSpace (rcIssuerPeerID c)"
  "rcSubjectPeerID (Config_Normalized c) = TrimSpace (rcSubjectPeerID c)"
  "rcAudience (Config_Normalized c) = TrimSpace (rcAudience c)"
  "rcPublicKey (Config_Normalized c) = TrimSpace (rcPublicKey c)"
  "rcPublicKeyFile (Config_Normalized c) = TrimSpace (rcPublicKeyFile c)"
  "rcPrivateKey (Config_Normalized c) = TrimSpace (rcPrivateKey c)"
  "rcPrivateKeyFile (Config_Normalized c) = TrimSpace (rcPrivateKeyFile c)"
  "rcSignerProvider (Config_Normalized c) = TrimSpace (rcSignerProvider c)"
  "rcIdentity (Config_Normalized c) = TrimSpace (rcIdentity c)"
  "rcIdentityFile (Config_Normalized c) = TrimSpace (rcIdentityFile c)"
  "rcAgentSocket (Config_Normalized c) = TrimSpace (rcAgentSocket c)"
  "rcSessionID (Config_Normalized c) = TrimSpace (rcSessionID c)"
  "rcX11CookieSHA256 (Config_Normalized c) = ToLower (TrimSpace (rcX11CookieSHA256 c))"
  "rcChainSHA256 (Config_Normalized c) = ToLower (TrimSpace (rcChainSHA256 c))"
  "rcTTL (Config_Normalized c) = (if rcTTL c \<le> 0 then DefaultProofTTL else rcTTL c)"
  "rcRequiredCapabilities (Config_Normalized c) =
     (if normalizeCapabilities (rcRequiredCapabilities c) = [] then DefaultRelayCapabilities
      else normalizeCapabilities (rcRequiredCapabilities c))"
  "rcReplayCache (Config_Normalized c) = rcReplayCache c"
  by (simp_all add: Config_Normalized_def)

lemma Config_Normalized_idem [simp]: "Config_Normalized (Config_Normalized c) = Config_Normalized c"
  by (rule RuntimeConfig.equality) (simp_all add: default_capabilities)

lemma Required_normalized [simp]: "Required (Config_Normalized c) = Required c"
  by (simp add: Required_def)

lemma LoadPublicKey_normalized [simp]: "LoadPublicKey E (Config_Normalized c) = LoadPublicKey E c"
  by (simp add: LoadPublicKey_def loadTextValue_def)

lemma LoadPrivateKey_normalized [simp]: "LoadPrivateKey C E (Config_Normalized c) = LoadPrivateKey C E c"
  by (simp add: LoadPrivateKey_def loadTextValue_def)

lemma ValidateVerifier_normalized [simp]: "ValidateVerifier E (Config_Normalized c) = ValidateVerifier E c"
  by (simp add: ValidateVerifier_def)

lemma BuildGrant_normalized [simp]: "BuildGrant E (Config_Normalized c) = BuildGrant E c"
  by (intro ext) (simp add: BuildGrant_def)

lemma config_capabilities [simp]:
  "normalizeCapabilities (rcRequiredCapabilities (Config_Normalized c)) = rcRequiredCapabilities (Config_Normalized c)"
  by (simp add: default_capabilities)

lemma capability_trimmed: "cap \<in> set (normalizeCapabilities caps) \<Longrightarrow> TrimSpace cap = cap"
  using trimUnique_props [of "[]" caps] by (auto simp: normalizeCapabilities_def list_all_iff TrimSpace_id)

lemma config_capability_trimmed: "cap \<in> set (rcRequiredCapabilities (Config_Normalized c)) \<Longrightarrow> TrimSpace cap = cap"
  using capability_trimmed [of cap "rcRequiredCapabilities (Config_Normalized c)"] by (simp only: config_capabilities)

lemma NormalizeSecurityLevel_ne: "NormalizeSecurityLevel level \<noteq> []"
proof
  assume "NormalizeSecurityLevel level = []"
  with NormalizeSecurityLevel_idem [of level] NormalizeSecurityLevel_known(6) show False by simp
qed

section \<open>What a verifying configuration enforces\<close>

lemma Config_Verify_Inr:
  "Config_Verify C marshal E c proof now = (Inr g, cache') \<longleftrightarrow>
     ValidateVerifier E c = None
     \<and> (\<exists>pk. LoadPublicKey E c = Inr pk
          \<and> VerifySignedGrant C marshal (peClock E) proof pk (configOptions (Config_Normalized c) now) = (Inr g, cache'))"
  by (auto simp: Config_Verify_def Let_def split: option.splits sum.splits)

lemma ValidateVerifier_required:
  assumes "ValidateVerifier E c = None" "Required c"
  shows "TrimSpace (rcSubjectPeerID c) \<noteq> []" "TrimSpace (rcAudience c) \<noteq> []"
    "isLowerHexSHA256 (ToLower (TrimSpace (rcX11CookieSHA256 c)))" "isLowerHexSHA256 (ToLower (TrimSpace (rcChainSHA256 c)))"
  using assms by (auto simp: ValidateVerifier_def Let_def split: if_splits option.splits)

lemma isLowerHexSHA256_ne: "isLowerHexSHA256 s \<Longrightarrow> s \<noteq> []"
  by (auto simp: isLowerHexSHA256_def)

text \<open>
  A configuration that requires proofs leaves no check out: a grant it accepts names exactly the
  configured subject, audience, X11 cookie and chain, has every required capability and the
  configured security level, and lives no longer than the configured lifetime.
\<close>

theorem config_verify_strict:
  assumes "Config_Verify C marshal E c proof now = (Inr g, cache')" "Required c"
  shows "gSubjectPeerID g = TrimSpace (rcSubjectPeerID c) \<and> gAudience g = TrimSpace (rcAudience c)
    \<and> gX11CookieSHA256 g = ToLower (TrimSpace (rcX11CookieSHA256 c))
    \<and> gChainSHA256 g = ToLower (TrimSpace (rcChainSHA256 c))
    \<and> set (rcRequiredCapabilities (Config_Normalized c)) \<subseteq> set (gCapabilities g)
    \<and> (NormalizeSecurityLevel (rcSecurityLevel c) = SecurityLevelCompat
       \<or> NormalizeSecurityLevel (gSecurityLevel g) = NormalizeSecurityLevel (rcSecurityLevel c))
    \<and> ttlDuration (gIssuedAtUnix g) (gExpiresAtUnix g) \<le> rcTTL (Config_Normalized c)"
proof -
  let ?o = "configOptions (Config_Normalized c) now"
  obtain pk where v: "ValidateVerifier E c = None"
    and g: "VerifySignedGrant C marshal (peClock E) proof pk ?o = (Inr g, cache')"
    using assms(1) by (auto simp: Config_Verify_Inr)
  have m: "options_match ?o g" using g by (auto simp: VerifySignedGrant_Inr grantOptionsError_None)
  note ne = ValidateVerifier_required [OF v assms(2)]
  note ne' = isLowerHexSHA256_ne [OF ne(3)] isLowerHexSHA256_ne [OF ne(4)]
  have "0 < rcTTL (Config_Normalized c)" by simp
  then have "ttlDuration (gIssuedAtUnix g) (gExpiresAtUnix g) \<le> rcTTL (Config_Normalized c)"
    using m unfolding options_match_def configOptions_def by (simp del: Config_Normalized_sel)
  moreover have "\<forall>cap \<in> set (voRequiredCapabilities ?o). TrimSpace cap \<in> set (gCapabilities g)"
    using m by (simp add: options_match_def del: Config_Normalized_sel)
  then have "set (rcRequiredCapabilities (Config_Normalized c)) \<subseteq> set (gCapabilities g)"
    using config_capability_trimmed [of _ c] by (simp add: configOptions_def subset_iff del: Config_Normalized_sel)
  moreover have "NormalizeSecurityLevel (rcSecurityLevel c) = SecurityLevelCompat
       \<or> NormalizeSecurityLevel (gSecurityLevel g) = NormalizeSecurityLevel (rcSecurityLevel c)"
  proof (rule disjCI)
    assume l: "NormalizeSecurityLevel (gSecurityLevel g) \<noteq> NormalizeSecurityLevel (rcSecurityLevel c)"
    have "voSecurityLevel ?o \<noteq> [] \<longrightarrow> NormalizeSecurityLevel (gSecurityLevel g) = NormalizeSecurityLevel (voSecurityLevel ?o)"
      using m by (simp add: options_match_def)
    with l show "NormalizeSecurityLevel (rcSecurityLevel c) = SecurityLevelCompat"
      using NormalizeSecurityLevel_ne [of "rcSecurityLevel c"]
      by (auto simp: configOptions_def securityLevelForVerify_def split: if_splits)
  qed
  moreover have "gSubjectPeerID g = TrimSpace (rcSubjectPeerID c) \<and> gAudience g = TrimSpace (rcAudience c)
    \<and> gX11CookieSHA256 g = ToLower (TrimSpace (rcX11CookieSHA256 c)) \<and> gChainSHA256 g = ToLower (TrimSpace (rcChainSHA256 c))"
    using m ne(1,2) ne' by (simp add: options_match_def configOptions_def)
  ultimately show ?thesis by blast
qed

section \<open>Signing and verifying with configurations\<close>

text \<open>A whole number of seconds added to an instant adds that number to its Unix time.\<close>

lemma go_unix_add: "go_unix (t + k * go_second) = go_unix t + k"
  by (simp add: go_unix_def)

lemma config_ttl:
  assumes "0 < k" "k * go_second < 2 ^ 63"
  shows "ttlDuration (go_unix t) (go_unix (t + k * go_second)) = k * go_second"
  using assms by (simp add: go_unix_add ttlDuration_def go_int64_id)

lemma BuildGrant_Inr:
  assumes "BuildGrant E c now [] = Inr grant"
  obtains nonce where "grant = Grant_Normalized (configGrant (Config_Normalized c) (if now = 0 then peClock E else now) nonce)"
    "Grant_Validate grant = None" "TrimSpace nonce = nonce"
  using assms
  by (auto simp: BuildGrant_def NewRandomNonce_def Let_def split: if_splits option.splits sum.splits)

lemma configGrant_matches:
  fixes s v :: RuntimeConfig
  defines "n \<equiv> Config_Normalized s" and "w \<equiv> Config_Normalized v"
  assumes "rcSubjectPeerID n = rcSubjectPeerID w" "rcAudience n = rcAudience w"
    and "rcX11CookieSHA256 n = rcX11CookieSHA256 w" "rcChainSHA256 n = rcChainSHA256 w"
    and "rcSecurityLevel n = rcSecurityLevel w"
    and "set (rcRequiredCapabilities w) \<subseteq> set (rcRequiredCapabilities n)"
    and ttl: "rcTTL n = k * go_second" "k * go_second < 2 ^ 63" "rcTTL n \<le> rcTTL w"
  shows "options_match (configOptions w now') (Grant_Normalized (configGrant n now nonce))"
proof -
  let ?g = "Grant_Normalized (configGrant n now nonce)"
  have f: "gSubjectPeerID ?g = rcSubjectPeerID n" "gAudience ?g = rcAudience n" "gX11CookieSHA256 ?g = rcX11CookieSHA256 n"
    "gChainSHA256 ?g = rcChainSHA256 n" "gCapabilities ?g = rcRequiredCapabilities n"
    "gIssuedAtUnix ?g = go_unix now" "gExpiresAtUnix ?g = go_unix (now + rcTTL n)"
    unfolding n_def by (simp_all add: Grant_Normalized_def configGrant_def default_capabilities)
  have idem: "NormalizeSecurityLevel (rcSecurityLevel n) = rcSecurityLevel n" unfolding n_def by simp
  have l: "gSecurityLevel ?g = securityLevelForVerify (rcSecurityLevel n)"
    by (simp add: Grant_Normalized_def configGrant_def securityLevelForGrant_def securityLevelForVerify_def idem
        NormalizeSecurityLevel_known)
  have "0 < rcTTL n" unfolding n_def by simp
  then have "0 < k" using ttl(1) by simp
  from config_ttl [OF this ttl(2)] have "ttlDuration (gIssuedAtUnix ?g) (gExpiresAtUnix ?g) = rcTTL n"
    unfolding f ttl(1) .
  moreover have "TrimSpace cap = cap" if "cap \<in> set (rcRequiredCapabilities w)" for cap
    using that unfolding w_def by (rule config_capability_trimmed)
  moreover have "NormalizeSecurityLevel (gSecurityLevel ?g) = NormalizeSecurityLevel (voSecurityLevel (configOptions w now'))"
    by (simp add: l configOptions_def assms(7))
  moreover have "ToLower (TrimSpace (rcX11CookieSHA256 w)) = rcX11CookieSHA256 w" "ToLower (TrimSpace (rcChainSHA256 w)) = rcChainSHA256 w"
    unfolding w_def by simp_all
  ultimately show ?thesis
    unfolding options_match_def using assms(3-8) ttl(3)
    by (simp add: configOptions_def f) (metis subsetD)
qed

text \<open>
  A signer and a verifier that are configured alike understand each other: a grant signed with the
  configured private key is accepted under the configured public key during its lifetime, if the
  lifetime is a whole number of seconds.
\<close>

theorem config_sign_verify:
  assumes "crypto_laws C sk pk" "length pk = 32"
    and "Config_Sign C marshal E s now = Inr proof" "normalizedSignerProvider s = SignerProviderKeyMaterial"
    and "LoadPrivateKey C E s = Inr sk" "LoadPublicKey E' v = Inr pk" "ValidateVerifier E' v = None"
    and "TrimSpace (rcSubjectPeerID s) = TrimSpace (rcSubjectPeerID v)" "TrimSpace (rcAudience s) = TrimSpace (rcAudience v)"
    and "ToLower (TrimSpace (rcX11CookieSHA256 s)) = ToLower (TrimSpace (rcX11CookieSHA256 v))"
    and "ToLower (TrimSpace (rcChainSHA256 s)) = ToLower (TrimSpace (rcChainSHA256 v))"
    and "NormalizeSecurityLevel (rcSecurityLevel s) = NormalizeSecurityLevel (rcSecurityLevel v)"
    and "set (rcRequiredCapabilities (Config_Normalized v)) \<subseteq> set (rcRequiredCapabilities (Config_Normalized s))"
    and "rcTTL (Config_Normalized s) = k * go_second" "k * go_second < 2 ^ 63"
    and "rcTTL (Config_Normalized s) \<le> rcTTL (Config_Normalized v)"
    and "gIssuedAtUnix (sgGrant proof) \<le> go_unix now'" "go_unix now' < gExpiresAtUnix (sgGrant proof)" "now' \<noteq> 0"
    and "fst (CheckAndStore (gNonce (sgGrant proof)) (gExpiresAtUnix (sgGrant proof)) now' (rcReplayCache v)) = None"
  shows "fst (Config_Verify C marshal E' v proof now') = Inr (sgGrant proof)"
proof -
  let ?o = "configOptions (Config_Normalized v) now'"
  have p: "normalizedSignerProvider (Config_Normalized s) = SignerProviderKeyMaterial"
    using assms(4) by (simp add: normalizedSignerProvider_def)
  obtain grant where b: "BuildGrant E s now [] = Inr grant" and sg: "SignGrant C marshal grant sk = Inr proof"
    using assms(3,5) p by (auto simp: Config_Sign_def Let_def split: option.splits sum.splits)
  from b obtain nonce where g: "grant = Grant_Normalized (configGrant (Config_Normalized s) (if now = 0 then peClock E else now) nonce)"
    by (rule BuildGrant_Inr)
  have n: "Grant_Normalized grant = grant" by (simp add: g)
  have gr: "sgGrant proof = grant"
    using sg n by (auto simp: SignGrant_def split: if_splits sum.splits)
  have "options_match ?o grant"
    unfolding g by (rule configGrant_matches [of s v k]) (use assms(8-16) in simp_all)
  moreover have "options_now (peClock E') ?o = now'" using assms(19) by (simp add: options_now_def configOptions_def)
  ultimately have "grantOptionsError ?o (options_now (peClock E') ?o) (Grant_Normalized grant) = None"
    using assms(17,18) by (simp add: grantOptionsError_None n gr)
  moreover have "TrimSpace (gNonce grant) = gNonce grant" using arg_cong [OF n, of gNonce] by (simp add: Grant_Normalized_def)
  then have "fst (CheckAndStore (TrimSpace (gNonce grant)) (gExpiresAtUnix grant) (options_now (peClock E') ?o) (voReplayCache ?o)) = None"
    using assms(19,20) by (simp add: options_now_def configOptions_def gr)
  ultimately have "fst (VerifySignedGrant C marshal (peClock E') proof pk ?o) = Inr (Grant_Normalized grant)"
    by (rule SignGrant_verifies [OF assms(1,2) sg])
  then show ?thesis using assms(6,7) n gr by (simp add: Config_Verify_def)
qed

text \<open>A concrete configuration with both keys, and its surroundings.\<close>

definition demo_runtime :: "go_duration \<Rightarrow> RuntimeConfig" where
  "demo_runtime ttl =
     \<lparr>rcMode = ''required'', rcSecurityLevel = ''uid'', rcIssuerPeerID = ''alice'', rcSubjectPeerID = ''bob'',
      rcAudience = ''wv-agent'', rcPublicKey = EncodePublicKey (replicate 32 7), rcPublicKeyFile = [],
      rcPrivateKey = EncodePrivateKey (replicate 64 9), rcPrivateKeyFile = [], rcSignerProvider = [], rcIdentity = [],
      rcIdentityFile = [], rcAgentSocket = [], rcSessionID = ''s1'', rcX11CookieSHA256 = replicate 64 (CHR ''A''),
      rcChainSHA256 = replicate 64 (CHR ''b''), rcTTL = ttl, rcRequiredCapabilities = [''x11.relay'', '' x11.relay''],
      rcReplayCache = Some []\<rparr>"

definition demo_proof_env :: proof_env where
  "demo_proof_env =
     \<lparr>peReadFile = (\<lambda>p. None), peGetenv = (\<lambda>n. []), peGpgconf = None, peAgent = demo_agent,
      peRandom = (\<lambda>n. Some [7]), peClock = 0\<rparr>"

definition demo_built :: "go_duration \<Rightarrow> go_time \<Rightarrow> Grant" where
  "demo_built ttl now =
     \<lparr>gVersion = Version, gAlgorithm = Algorithm, gIssuerPeerID = ''alice'', gSubjectPeerID = ''bob'',
      gAudience = ''wv-agent'', gSessionID = ''s1'', gCapabilities = [''x11.relay''],
      gSecurityLevel = ''same_uid'', gX11CookieSHA256 = replicate 64 (CHR ''a''),
      gChainSHA256 = replicate 64 (CHR ''b''), gNonce = b64Encode [7], gIssuedAtUnix = go_unix now,
      gExpiresAtUnix = go_unix (now + ttl)\<rparr>"

definition demo_proof :: "go_duration \<Rightarrow> go_time \<Rightarrow> SignedGrant" where
  "demo_proof ttl now =
     \<lparr>sgGrant = demo_built ttl now,
      sgSignature = b64Encode (edSign demo_crypto (replicate 64 9) (the (demo_marshal (demo_built ttl now))))\<rparr>"

lemma demo_runtime_strings:
  "NormalizeProofMode ''required'' = ''required''" "TrimSpace ''alice'' = ''alice''"
  "KnownSecurityLevel ''uid''" "KnownSecurityLevel ''same_uid''"
  by code_simp+

lemmas demo_runtime_facts = demo_grant_strings demo_grant_strings(11) [THEN lower_hex_normal] demo_runtime_strings NormalizeSecurityLevel_known

lemma demo_runtime_keys:
  "LoadPublicKey E (demo_runtime ttl) = Inr (replicate 32 7)"
  "LoadPrivateKey demo_crypto E (demo_runtime ttl) = Inr (replicate 64 9)"
proof -
  have "TrimSpace (EncodePublicKey (replicate 32 7)) = EncodePublicKey (replicate 32 7)" "EncodePublicKey (replicate 32 7) \<noteq> []"
    by (simp_all add: EncodePublicKey_def)
  then show "LoadPublicKey E (demo_runtime ttl) = Inr (replicate 32 7)"
    using DecodePublicKey_b64 [of "replicate 32 7"]
    by (simp add: LoadPublicKey_def loadTextValue_def demo_runtime_def)
  have "EncodePrivateKey (replicate 64 9) \<noteq> []" by (simp add: EncodePrivateKey_def)
  then show "LoadPrivateKey demo_crypto E (demo_runtime ttl) = Inr (replicate 64 9)"
    using decodeRawKey_b64 [of "replicate 64 9"]
    by (simp add: LoadPrivateKey_def loadTextValue_def demo_runtime_def EncodePrivateKey_def DecodePrivateKey_def)
qed

lemma demo_runtime_required: "Required (demo_runtime ttl)"
  by (simp add: Required_def demo_runtime_def demo_runtime_facts)

lemma demo_runtime_mode: "ValidateMode (Config_Normalized (demo_runtime ttl)) = None"
  by (simp add: ValidateMode_def ValidateSecurityLevel_def demo_runtime_def demo_runtime_facts)

lemma demo_runtime_sel:
  "rcIssuerPeerID (Config_Normalized (demo_runtime ttl)) = ''alice''" "rcSubjectPeerID (Config_Normalized (demo_runtime ttl)) = ''bob''"
  "rcAudience (Config_Normalized (demo_runtime ttl)) = ''wv-agent''" "rcSessionID (Config_Normalized (demo_runtime ttl)) = ''s1''"
  "rcX11CookieSHA256 (Config_Normalized (demo_runtime ttl)) = replicate 64 (CHR ''a'')"
  "rcChainSHA256 (Config_Normalized (demo_runtime ttl)) = replicate 64 (CHR ''b'')"
  "rcRequiredCapabilities (Config_Normalized (demo_runtime ttl)) = [''x11.relay'']"
  "rcSecurityLevel (Config_Normalized (demo_runtime ttl)) = ''same_uid''"
  "0 < ttl \<Longrightarrow> rcTTL (Config_Normalized (demo_runtime ttl)) = ttl"
  by (simp_all add: demo_runtime_def demo_runtime_facts del: replicate.simps)

lemma demo_runtime_valid:
  "ValidateVerifier demo_proof_env (demo_runtime ttl) = None"
  "normalizedSignerProvider (demo_runtime ttl) = SignerProviderKeyMaterial"
  "ValidateSigner demo_crypto demo_proof_env (Config_Normalized (demo_runtime ttl)) = None"
proof -
  show v: "ValidateVerifier demo_proof_env (demo_runtime ttl) = None"
    by (simp add: ValidateVerifier_def demo_runtime_mode demo_runtime_required demo_runtime_sel demo_runtime_keys demo_runtime_facts
        Let_def del: Config_Normalized_sel replicate.simps)
  show p: "normalizedSignerProvider (demo_runtime ttl) = SignerProviderKeyMaterial"
    by (simp add: normalizedSignerProvider_def) (simp add: demo_runtime_def)
  then have "normalizedSignerProvider (Config_Normalized (demo_runtime ttl)) = SignerProviderKeyMaterial"
    by (simp add: normalizedSignerProvider_def)
  moreover have "KnownSignerProvider SignerProviderKeyMaterial" by code_simp
  ultimately show "ValidateSigner demo_crypto demo_proof_env (Config_Normalized (demo_runtime ttl)) = None"
    by (simp add: ValidateSigner_def demo_runtime_mode demo_runtime_required demo_runtime_sel demo_runtime_keys demo_runtime_facts
        ValidateSignerProvider_def Let_def del: Config_Normalized_sel replicate.simps)
qed

lemma demo_built_config:
  "0 < ttl \<Longrightarrow> configGrant (Config_Normalized (demo_runtime ttl)) now (b64Encode [7]) = demo_built ttl now"
  unfolding configGrant_def demo_runtime_sel demo_runtime_sel(9)
  by (simp add: demo_built_def securityLevelForGrant_def NormalizeSecurityLevel_known demo_runtime_sel(9) del: Config_Normalized_sel)

lemma demo_built_normal: "Grant_Normalized (demo_built ttl now) = demo_built ttl now"
  by (rule Grant.equality)
     (simp_all add: Grant_Normalized_def demo_built_def demo_runtime_facts Version_def Algorithm_def
       normalizeCapabilities_def del: replicate.simps)

lemma demo_built_valid:
  assumes "0 < go_unix now" "go_unix now < go_unix (now + ttl)"
  shows "Grant_Validate (demo_built ttl now) = None"
proof -
  have "[] \<noteq> b64Encode [7]" by (metis b64Encode_eq_Nil list.distinct(1))
  then show ?thesis
    unfolding Grant_Validate_def demo_built_normal Let_def
    using assms by (simp add: demo_built_def demo_runtime_facts del: replicate.simps)
qed

lemma demo_runtime_signs:
  assumes "0 < ttl" "0 < go_unix now" "go_unix now < go_unix (now + ttl)" "now \<noteq> 0"
  shows "Config_Sign demo_crypto demo_marshal demo_proof_env (demo_runtime ttl) now = Inr (demo_proof ttl now)"
proof -
  note val = demo_built_valid [OF assms(2,3)] and n = demo_built_normal [of ttl now]
  have b: "BuildGrant demo_proof_env (demo_runtime ttl) now [] = Inr (demo_built ttl now)"
    using assms(4)
    by (simp add: BuildGrant_def demo_runtime_required NewRandomNonce_def demo_proof_env_def demo_built_config [OF assms(1)] val n
        del: Config_Normalized_sel)
  have "normalizedSignerProvider (Config_Normalized (demo_runtime ttl)) = SignerProviderKeyMaterial"
    using demo_runtime_valid(2) [of ttl] by (simp add: normalizedSignerProvider_def)
  then show ?thesis
    by (simp add: Config_Sign_def demo_runtime_valid demo_runtime_keys b SignGrant_def CanonicalBytes_def n val demo_marshal_def
        demo_proof_def del: Config_Normalized_sel)
qed

text \<open>Its verification comes down to the options.\<close>

lemma demo_proof_checked:
  assumes "0 < go_unix now" "go_unix now < go_unix (now + ttl)" "now' \<noteq> 0"
  shows "Config_Verify demo_crypto demo_marshal demo_proof_env (demo_runtime ttl) (demo_proof ttl now) now' =
    (case grantOptionsError (configOptions (Config_Normalized (demo_runtime ttl)) now') now' (demo_built ttl now) of
       Some e \<Rightarrow> (Inl e, Some [])
     | None \<Rightarrow> (Inr (demo_built ttl now), Some [(b64Encode [7], go_unix (now + ttl))]))"
proof -
  note val = demo_built_valid [OF assms(1,2)] and n = demo_built_normal [of ttl now]
  have f: "gNonce (demo_built ttl now) = b64Encode [7]" "gExpiresAtUnix (demo_built ttl now) = go_unix (now + ttl)"
    by (simp_all add: demo_built_def)
  have "voNow (configOptions (Config_Normalized (demo_runtime ttl)) now') = now'"
    "voReplayCache (configOptions (Config_Normalized (demo_runtime ttl)) now') = Some []"
    by (simp_all add: configOptions_def demo_runtime_def)
  then show ?thesis
    using assms(3) demo_crypto_laws [of "replicate 64 9" "replicate 32 7"]
    by (simp add: Config_Verify_def demo_runtime_valid demo_runtime_keys VerifySignedGrant_def demo_proof_def n val
        CanonicalBytes_def demo_marshal_def crypto_laws_def CheckAndStore_def f split: option.split
        del: Config_Normalized_sel)
qed

theorem config_sign_verify_witness:
  "\<exists>proof. Config_Sign demo_crypto demo_marshal demo_proof_env (demo_runtime (60 * go_second)) (62135597800 * go_second) = Inr proof
     \<and> fst (Config_Verify demo_crypto demo_marshal demo_proof_env (demo_runtime (60 * go_second)) proof (62135597830 * go_second))
       = Inr (sgGrant proof)"
proof -
  let ?now = "62135597800 * go_second" and ?later = "62135597830 * go_second"
  let ?c = "demo_runtime (60 * go_second)" and ?p = "demo_proof (60 * go_second) (62135597800 * go_second)"
  have u: "go_unix ?now = 1000" "go_unix (?now + 60 * go_second) = 1060" "go_unix ?later = 1030" by (simp_all add: go_unix_def)
  have s: "Config_Sign demo_crypto demo_marshal demo_proof_env ?c ?now = Inr ?p"
    by (rule demo_runtime_signs) (simp_all add: go_unix_def)
  have g: "gIssuedAtUnix (sgGrant ?p) = 1000" "gExpiresAtUnix (sgGrant ?p) = 1060"
    unfolding demo_proof_def demo_built_def by (simp_all only: u SignedGrant.simps Grant.simps)
  have t: "rcTTL (Config_Normalized ?c) = 60 * go_second" by (rule demo_runtime_sel(9)) simp
  have "fst (Config_Verify demo_crypto demo_marshal demo_proof_env ?c ?p ?later) = Inr (sgGrant ?p)"
  proof (rule config_sign_verify [OF demo_crypto_laws _ s demo_runtime_valid(2) demo_runtime_keys(2) demo_runtime_keys(1)
          demo_runtime_valid(1) refl refl refl refl refl subset_refl t])
    show "fst (CheckAndStore (gNonce (sgGrant ?p)) (gExpiresAtUnix (sgGrant ?p)) ?later (rcReplayCache ?c)) = None"
      by (simp add: demo_runtime_def CheckAndStore_def)
    show "gIssuedAtUnix (sgGrant ?p) \<le> go_unix ?later" "go_unix ?later < gExpiresAtUnix (sgGrant ?p)"
      unfolding g u by simp_all
  qed simp_all
  with s show ?thesis by blast
qed

theorem config_verify_strict_witness:
  "\<exists>proof g cache. Config_Verify demo_crypto demo_marshal demo_proof_env (demo_runtime (60 * go_second)) proof (62135597830 * go_second)
       = (Inr g, cache)
     \<and> gSubjectPeerID g = ''bob'' \<and> gChainSHA256 g = replicate 64 (CHR ''b'')"
proof -
  let ?now = "62135597800 * go_second" and ?later = "62135597830 * go_second"
  let ?c = "demo_runtime (60 * go_second)" and ?g = "demo_built (60 * go_second) (62135597800 * go_second)"
  have u: "go_unix ?now = 1000" "go_unix (?now + 60 * go_second) = 1060" "go_unix ?later = 1030" by (simp_all add: go_unix_def)
  have t: "rcTTL (Config_Normalized ?c) = 60 * go_second" by (rule demo_runtime_sel(9)) simp
  have "options_match (configOptions (Config_Normalized ?c) ?later) (Grant_Normalized (configGrant (Config_Normalized ?c) ?now (b64Encode [7])))"
    by (rule configGrant_matches [OF _ _ _ _ _ subset_refl t]) simp_all
  moreover have "gIssuedAtUnix ?g = 1000" "gExpiresAtUnix ?g = 1060"
    unfolding demo_built_def by (simp_all only: u Grant.simps)
  moreover have "configGrant (Config_Normalized ?c) ?now (b64Encode [7]) = ?g" by (rule demo_built_config) simp
  ultimately have "grantOptionsError (configOptions (Config_Normalized ?c) ?later) ?later ?g = None"
    by (simp only: grantOptionsError_None u demo_built_normal) simp
  then have v: "Config_Verify demo_crypto demo_marshal demo_proof_env ?c (demo_proof (60 * go_second) ?now) ?later
      = (Inr ?g, Some [(b64Encode [7], go_unix (?now + 60 * go_second))])"
    by (subst demo_proof_checked) (simp_all only: u, simp_all)
  from config_verify_strict [OF v demo_runtime_required] have "gSubjectPeerID ?g = rcSubjectPeerID (Config_Normalized ?c)"
    "gChainSHA256 ?g = rcChainSHA256 (Config_Normalized ?c)" by simp_all
  with v show ?thesis unfolding demo_runtime_sel by blast
qed

text \<open>
  A lifetime that is not a whole number of seconds can make a grant that its own configuration
  refuses: the two ends of the lifetime are cut to seconds, so a grant for one and a half seconds can
  say two, which is over the limit.
\<close>

theorem fractional_ttl_refused:
  "\<exists>now proof. Config_Sign demo_crypto demo_marshal demo_proof_env (demo_runtime 1500000000) now = Inr proof
     \<and> fst (Config_Verify demo_crypto demo_marshal demo_proof_env (demo_runtime 1500000000) proof now) = Inl ErrGrantTTLTooLong"
proof (intro exI conjI)
  let ?now = "62135597800600000000 :: go_time" and ?c = "demo_runtime 1500000000"
  have u: "go_unix ?now = 1000" "go_unix (?now + 1500000000) = 1002" by (simp_all add: go_unix_def)
  show "Config_Sign demo_crypto demo_marshal demo_proof_env ?c ?now = Inr (demo_proof 1500000000 ?now)"
    by (rule demo_runtime_signs) (simp_all add: go_unix_def)
  have "voMaxTTL (configOptions (Config_Normalized ?c) ?now) = 1500000000"
    by (simp add: configOptions_def demo_runtime_def)
  moreover have "ttlDuration 1000 1002 = 2000000000" by (simp add: ttlDuration_def go_int64_def)
  moreover have "gIssuedAtUnix (demo_built 1500000000 ?now) = 1000" "gExpiresAtUnix (demo_built 1500000000 ?now) = 1002"
    unfolding demo_built_def by (simp_all only: u Grant.simps)
  ultimately have "grantOptionsError (configOptions (Config_Normalized ?c) ?now) ?now (demo_built 1500000000 ?now) = Some ErrGrantTTLTooLong"
    by (simp add: grantOptionsError_def u Let_def)
  then show "fst (Config_Verify demo_crypto demo_marshal demo_proof_env ?c (demo_proof 1500000000 ?now) ?now) = Inl ErrGrantTTLTooLong"
    by (subst demo_proof_checked) (simp_all add: go_unix_def)
qed

section \<open>The signer's choice of identity\<close>

lemma selectSSHAgentIdentity_Inr:
  assumes "selectSSHAgentIdentity E c identities = Inr ident" "agentIdentitySelectors E c = (selectors, publicKeys)"
  shows "ident \<in> set identities"
    "aiPublicKey ident \<in> set publicKeys \<or> list_ex (sshAgentIdentityMatches ident) selectors
     \<or> selectors = [] \<and> publicKeys = [] \<and> identities = [ident]"
  using assms
  by (auto simp: selectSSHAgentIdentity_def list_ex_iff find_Some_iff in_set_conv_nth length_Suc_conv
      split: if_splits option.splits)

lemma AgentMessageSigner_Sign_Inr:
  assumes "AgentMessageSigner_Sign C E s message = Inr (pk, fp, sig)"
  obtains provider socket identities ident where
    "Agent_Identities C (peAgent E) socket = Inr identities"
    "selectSSHAgentIdentity E (signerConfig s provider) identities = Inr ident"
    "Agent_Sign (peAgent E) socket (aiBlob ident) message = Inr sig" "pk = aiPublicKey ident"
  using assms unfolding AgentMessageSigner_Sign_def Let_def by (auto split: sum.splits if_splits)

lemma Agent_Sign_length: "Agent_Sign agent socket blob data = Inr sig \<Longrightarrow> length sig = 64"
  by (auto simp: Agent_Sign_def split: sum.splits prod.splits if_splits)

lemma pinned_selectors:
  assumes "TrimSpace (amPublicKey s) = EncodePublicKey pk" "length pk = 32"
    and "TrimSpace (amIdentity s) = []" "TrimSpace (amIdentityFile s) = []" "TrimSpace (amPublicKeyFile s) = []"
  shows "agentIdentitySelectors E (signerConfig s provider) = ([], [pk])"
proof -
  have "EncodePublicKey pk \<noteq> []" using assms(2) by (auto simp: EncodePublicKey_def)
  moreover have "TrimSpace (EncodePublicKey pk) = EncodePublicKey pk" by (simp add: EncodePublicKey_def)
  ultimately show ?thesis
    using assms by (simp add: agentIdentitySelectors_def signerConfig_def readOptionalTextFile_def DecodePublicKey_b64
        List.map_filter_simps Let_def)
qed

text \<open>
  A message signer that is given a public key signs with that key only: whatever identities the
  agent offers, the key it returns is the configured one, it is one the agent listed, and the
  signature has the length of an Ed25519 signature.
\<close>

theorem agent_signer_pinned:
  assumes "AgentMessageSigner_Sign C E s message = Inr (pk', fp, sig)"
    and "TrimSpace (amPublicKey s) = EncodePublicKey pk" "length pk = 32"
    and "TrimSpace (amIdentity s) = []" "TrimSpace (amIdentityFile s) = []" "TrimSpace (amPublicKeyFile s) = []"
  shows "pk' = pk \<and> length sig = 64
    \<and> (\<exists>socket identities ident. Agent_Identities C (peAgent E) socket = Inr identities \<and> ident \<in> set identities
         \<and> aiPublicKey ident = pk \<and> Agent_Sign (peAgent E) socket (aiBlob ident) message = Inr sig)"
proof -
  obtain provider socket identities ident where l: "Agent_Identities C (peAgent E) socket = Inr identities"
    and sel: "selectSSHAgentIdentity E (signerConfig s provider) identities = Inr ident"
    and sg: "Agent_Sign (peAgent E) socket (aiBlob ident) message = Inr sig" and k: "pk' = aiPublicKey ident"
    using assms(1) by (rule AgentMessageSigner_Sign_Inr)
  have "ident \<in> set identities" "aiPublicKey ident = pk"
    using selectSSHAgentIdentity_Inr [OF sel pinned_selectors [OF assms(2-6)]] by auto
  with l sg k Agent_Sign_length [OF sg] show ?thesis by blast
qed

definition demo_signer :: AgentMessageSigner where
  "demo_signer =
     \<lparr>amProvider = [], amSocket = ''/run/agent'', amIdentity = [], amIdentityFile = [],
      amPublicKey = EncodePublicKey (replicate 32 7), amPublicKeyFile = []\<rparr>"

lemma demo_agent_lists:
  "Agent_Identities C demo_agent ''/run/agent'' = Inr
     [\<lparr>aiBlob = demo_blob, aiType = ''ssh-ed25519'', aiPublicKey = replicate 32 7, aiComment = ''me'',
       aiFingerprintSHA256 = sshAgentFingerprintSHA256 C demo_blob\<rparr>]"
proof -
  have "agentCall demo_agent ''/run/agent'' [11] = Inr (agentIdentitiesReply demo_ids)"
    by (rule agentCall_frame)
       (simp_all add: demo_agent_def demo_socket agentIdentitiesReply_def demo_ids_def length_appendSSHString length_demo_blob)
  moreover have "readIdentities C (length demo_ids)
      (concat (map (\<lambda>(blob, comment). appendSSHString (appendSSHString [] blob) comment) demo_ids))
    = Inr (List.map_filter (identityOf C) demo_ids)"
    by (rule readIdentities_entries) (simp add: demo_ids_def length_appendSSHString length_demo_blob)
  moreover have "unat (of_nat (length demo_ids) :: u32) = length demo_ids" by (simp add: demo_ids_def)
  ultimately have "Agent_Identities C demo_agent ''/run/agent'' = Inr (List.map_filter (identityOf C) demo_ids)"
    by (simp add: Agent_Identities_def identitiesAnswer_def agentIdentitiesReply_def)
  then show ?thesis by (simp add: demo_ids_def List.map_filter_simps identityOf_def demo_rsa demo_blob_key)
qed

theorem agent_signer_pinned_witness:
  "\<exists>pk fp sig. AgentMessageSigner_Sign demo_crypto demo_proof_env demo_signer [1, 2] = Inr (pk, fp, sig)
     \<and> pk = replicate 32 7 \<and> length sig = 64"
proof -
  let ?p = SignerProviderSSHAgent
  have pr: "NormalizeSignerProvider [] = SignerProviderKeyMaterial" by code_simp
  have sock: "ResolveSignerAgentSocket demo_proof_env (signerConfig demo_signer ?p) ?p = Inr ''/run/agent''"
    by (simp add: ResolveSignerAgentSocket_def signerConfig_def demo_signer_def demo_socket)
  have keys: "agentIdentitySelectors demo_proof_env (signerConfig demo_signer ?p) = ([], [replicate 32 7])"
    by (rule pinned_selectors) (simp_all add: demo_signer_def EncodePublicKey_def)
  let ?sig = "take 64 (drop 64 (agentFrame (signRequest demo_blob [1, 2])) @ replicate 64 0)"
  have "agentFrame (signRequest demo_blob [1, 2]) \<noteq> agentFrame [11]"
    by (auto simp: agentFrame_def signRequest_def appendUint32_def appendSSHString_def length_demo_blob dest: arg_cong [where f = length])
  then have "agentCall demo_agent ''/run/agent'' (signRequest demo_blob [1, 2]) = Inr (agentSignReply ?sig)"
    by (intro agentCall_frame) (simp_all add: demo_agent_def demo_socket agentSignReply_def length_appendSSHString min_def)
  then obtain sig where sg: "Agent_Sign demo_agent ''/run/agent'' demo_blob [1, 2] = Inr sig"
    using Agent_Sign_reply [of demo_agent "''/run/agent''" demo_blob "[1, 2]" ?sig] by simp
  have a: "peAgent demo_proof_env = demo_agent" "NormalizeSignerProvider (amProvider demo_signer) = SignerProviderKeyMaterial"
    by (simp_all add: demo_proof_env_def demo_signer_def pr)
  obtain ident where i: "Agent_Identities demo_crypto demo_agent ''/run/agent'' = Inr [ident]" "aiBlob ident = demo_blob"
    "aiPublicKey ident = replicate 32 7" using demo_agent_lists [of demo_crypto] by simp
  have sel: "selectSSHAgentIdentity demo_proof_env (signerConfig demo_signer ?p) [ident] = Inr ident"
    by (simp add: selectSSHAgentIdentity_def keys i)
  have v: "AgentMessageSigner_Sign demo_crypto demo_proof_env demo_signer [1, 2] = Inr (replicate 32 7, aiFingerprintSHA256 ident, sig)"
    by (simp add: AgentMessageSigner_Sign_def a sock i sel sg)
  from agent_signer_pinned [OF v, of "replicate 32 7"] v show ?thesis
    by (auto simp: demo_signer_def EncodePublicKey_def)
qed

end
