(* ===== verification/Auth_Node.thy ===== *)
theory Auth_Node
  imports Auth_Grant
begin

text \<open>
  Signed node contexts: \<open>src/authproof/node_context.go\<close>. A node context says where in a chain the
  local node stands; it is signed, verified and replay-checked like a grant, with the parameters
  of \<open>Auth_Grant\<close>.
\<close>

section \<open>Model\<close>

definition NodeContextVersion :: string where "NodeContextVersion = ''weaverssh.node-context.v1''"
definition AudienceNodeContext :: string where "AudienceNodeContext = ''wv-node-context''"

record NodeContext =
  ncVersion :: string
  ncAlgorithm :: string
  ncIssuerPeerID :: string
  ncAudience :: string
  ncChainID :: string
  ncChainSHA256 :: string
  ncNodes :: "string list"
  ncCurrentNode :: string
  ncOriginNode :: string
  ncEndpointNode :: string
  ncCapabilities :: "string list"
  ncNonce :: string
  ncIssuedAtUnix :: int
  ncExpiresAtUnix :: int

record SignedNodeContext =
  scContext :: NodeContext
  scSignature :: string

record NodeContextVerifyOptions =
  noNow :: go_time
  noAudience :: string
  noChainID :: string
  noChainSHA256 :: string
  noCurrentNode :: string
  noMaxTTL :: go_duration
  noReplayCache :: "NonceCache option"

definition normalizeNodeContextNodes :: "string list \<Rightarrow> string list" where
  "normalizeNodeContextNodes nodes = trimUnique [] nodes"

definition nodeInContext :: "string list \<Rightarrow> string \<Rightarrow> bool" where
  "nodeInContext nodes want = list_ex (\<lambda>node. node = TrimSpace want) nodes"

definition NodeContext_Normalized :: "NodeContext \<Rightarrow> NodeContext" where
  "NodeContext_Normalized c =
     (let nodes = normalizeNodeContextNodes (ncNodes c);
          origin = TrimSpace (ncOriginNode c);
          endpoint = TrimSpace (ncEndpointNode c);
          caps = normalizeCapabilities (ncCapabilities c) in
      c\<lparr>ncVersion := (if ncVersion c = [] then NodeContextVersion else ncVersion c),
        ncAlgorithm := (if ncAlgorithm c = [] then Algorithm else ncAlgorithm c),
        ncIssuerPeerID := TrimSpace (ncIssuerPeerID c),
        ncAudience := TrimSpace (if ncAudience c = [] then AudienceNodeContext else ncAudience c),
        ncChainID := TrimSpace (ncChainID c),
        ncChainSHA256 := ToLower (TrimSpace (ncChainSHA256 c)),
        ncNodes := nodes,
        ncCurrentNode := TrimSpace (ncCurrentNode c),
        ncOriginNode := (if origin = [] \<and> 0 < length nodes then hd nodes else origin),
        ncEndpointNode := (if endpoint = [] \<and> 0 < length nodes then last nodes else endpoint),
        ncCapabilities := (if caps = [] then [CapabilityNodeContext] else caps),
        ncNonce := TrimSpace (ncNonce c)\<rparr>)"

definition NodeContext_Validate :: "NodeContext \<Rightarrow> auth_error option" where
  "NodeContext_Validate raw =
     (let c = NodeContext_Normalized raw in
      if ncVersion c \<noteq> NodeContextVersion then Some ErrInvalidGrant
      else if ncAlgorithm c \<noteq> Algorithm then Some ErrInvalidGrant
      else if [] \<in> {ncIssuerPeerID c, ncAudience c, ncChainID c, ncChainSHA256 c, ncCurrentNode c,
                    ncOriginNode c, ncEndpointNode c, ncNonce c} then Some ErrInvalidGrant
      else if \<not> isLowerHexSHA256 (ncChainSHA256 c) then Some ErrInvalidGrant
      else if ncNodes c = [] then Some ErrInvalidGrant
      else if \<not> list_all (nodeInContext (ncNodes c)) [ncCurrentNode c, ncOriginNode c, ncEndpointNode c] then
        Some ErrInvalidGrant
      else if ncOriginNode c \<noteq> hd (ncNodes c) then Some ErrInvalidGrant
      else if ncEndpointNode c \<noteq> last (ncNodes c) then Some ErrInvalidGrant
      else if \<not> hasCapability (ncCapabilities c) CapabilityNodeContext then Some ErrMissingCapability
      else if \<not> list_all knownCapability (ncCapabilities c) then Some ErrInvalidGrant
      else if ncIssuedAtUnix c \<le> 0 \<or> ncExpiresAtUnix c \<le> 0 \<or> ncExpiresAtUnix c \<le> ncIssuedAtUnix c then
        Some ErrInvalidGrant
      else None)"

definition CanonicalNodeContextBytes :: "(NodeContext \<Rightarrow> bytes option) \<Rightarrow> NodeContext \<Rightarrow> auth_error + bytes" where
  "CanonicalNodeContextBytes marshal raw =
     (let c = NodeContext_Normalized raw in
      case NodeContext_Validate c of
        Some e \<Rightarrow> Inl e
      | None \<Rightarrow> (case marshal c of None \<Rightarrow> Inl ErrMarshal | Some b \<Rightarrow> Inr b))"

definition SignNodeContext ::
  "crypto \<Rightarrow> (NodeContext \<Rightarrow> bytes option) \<Rightarrow> NodeContext \<Rightarrow> bytes \<Rightarrow> auth_error + SignedNodeContext" where
  "SignNodeContext C marshal c privateKey =
     (if length privateKey \<noteq> 64 then Inl ErrInvalidGrant
      else case CanonicalNodeContextBytes marshal c of
        Inl e \<Rightarrow> Inl e
      | Inr canonical \<Rightarrow>
          Inr \<lparr>scContext = NodeContext_Normalized c, scSignature = b64Encode (edSign C privateKey canonical)\<rparr>)"

text \<open>The checks of \<open>VerifySignedNodeContext\<close> between the signature and the replay cache.\<close>

definition nodeOptionsError :: "NodeContextVerifyOptions \<Rightarrow> go_time \<Rightarrow> NodeContext \<Rightarrow> auth_error option" where
  "nodeOptionsError opts now c =
     (let nowUnix = go_unix now in
      if nowUnix < ncIssuedAtUnix c then Some ErrNotYetValid
      else if ncExpiresAtUnix c \<le> nowUnix then Some ErrExpiredGrant
      else if 0 < noMaxTTL opts \<and> noMaxTTL opts < ttlDuration (ncIssuedAtUnix c) (ncExpiresAtUnix c) then
        Some ErrGrantTTLTooLong
      else if noAudience opts \<noteq> [] \<and> ncAudience c \<noteq> noAudience opts then Some ErrWrongAudience
      else if noChainID opts \<noteq> [] \<and> ncChainID c \<noteq> noChainID opts then Some ErrWrongChainHash
      else if noChainSHA256 opts \<noteq> [] \<and> ncChainSHA256 c \<noteq> ToLower (TrimSpace (noChainSHA256 opts)) then
        Some ErrWrongChainHash
      else if noCurrentNode opts \<noteq> [] \<and> ncCurrentNode c \<noteq> TrimSpace (noCurrentNode opts) then
        Some ErrWrongSubject
      else None)"

definition VerifySignedNodeContext ::
  "crypto \<Rightarrow> (NodeContext \<Rightarrow> bytes option) \<Rightarrow> go_time \<Rightarrow> SignedNodeContext \<Rightarrow> bytes \<Rightarrow>
     NodeContextVerifyOptions \<Rightarrow> (auth_error + NodeContext) \<times> NonceCache option" where
  "VerifySignedNodeContext C marshal clock sc publicKey opts =
     (let cache = noReplayCache opts; ctx = NodeContext_Normalized (scContext sc) in
      if length publicKey \<noteq> 32 then (Inl ErrInvalidGrant, cache)
      else case NodeContext_Validate ctx of
        Some e \<Rightarrow> (Inl e, cache)
      | None \<Rightarrow>
      case CanonicalNodeContextBytes marshal ctx of
        Inl e \<Rightarrow> (Inl e, cache)
      | Inr canonical \<Rightarrow>
      case b64Decode (scSignature sc) of
        None \<Rightarrow> (Inl ErrInvalidSignature, cache)
      | Some sig \<Rightarrow>
      if length sig \<noteq> 64 then (Inl ErrInvalidSignature, cache)
      else if \<not> edVerify C publicKey canonical sig then (Inl ErrInvalidSignature, cache)
      else
        let now = (if noNow opts = 0 then clock else noNow opts) in
        case nodeOptionsError opts now ctx of
          Some e \<Rightarrow> (Inl e, cache)
        | None \<Rightarrow>
            (case CheckAndStore (ncNonce ctx) (ncExpiresAtUnix ctx) now cache of
               (Some e, cache') \<Rightarrow> (Inl e, cache')
             | (None, cache') \<Rightarrow> (Inr ctx, cache')))"

section \<open>Normal forms\<close>

text \<open>
  Normalising twice is normalising once, unless the audience consists of white space: then the
  first pass empties it and the second puts the default in its place.
\<close>

lemma trimUnique_hd_last:
  assumes "trimUnique [] xs \<noteq> []"
  shows "hd (trimUnique [] xs) \<noteq> []" "TrimSpace (hd (trimUnique [] xs)) = hd (trimUnique [] xs)"
    "last (trimUnique [] xs) \<noteq> []" "TrimSpace (last (trimUnique [] xs)) = last (trimUnique [] xs)"
  using trimUnique_props [of "[]" xs] assms hd_in_set [OF assms] last_in_set [OF assms]
  by (auto simp: list_all_iff TrimSpace_id)

lemma NodeContext_Normalized_sel:
  "ncVersion (NodeContext_Normalized c) = (if ncVersion c = [] then NodeContextVersion else ncVersion c)"
  "ncAlgorithm (NodeContext_Normalized c) = (if ncAlgorithm c = [] then Algorithm else ncAlgorithm c)"
  "ncIssuerPeerID (NodeContext_Normalized c) = TrimSpace (ncIssuerPeerID c)"
  "ncAudience (NodeContext_Normalized c) = TrimSpace (if ncAudience c = [] then AudienceNodeContext else ncAudience c)"
  "ncChainID (NodeContext_Normalized c) = TrimSpace (ncChainID c)"
  "ncChainSHA256 (NodeContext_Normalized c) = ToLower (TrimSpace (ncChainSHA256 c))"
  "ncNodes (NodeContext_Normalized c) = trimUnique [] (ncNodes c)"
  "ncCurrentNode (NodeContext_Normalized c) = TrimSpace (ncCurrentNode c)"
  "ncOriginNode (NodeContext_Normalized c) =
     (if TrimSpace (ncOriginNode c) = [] \<and> trimUnique [] (ncNodes c) \<noteq> [] then hd (trimUnique [] (ncNodes c))
      else TrimSpace (ncOriginNode c))"
  "ncEndpointNode (NodeContext_Normalized c) =
     (if TrimSpace (ncEndpointNode c) = [] \<and> trimUnique [] (ncNodes c) \<noteq> [] then last (trimUnique [] (ncNodes c))
      else TrimSpace (ncEndpointNode c))"
  "ncCapabilities (NodeContext_Normalized c) =
     (if normalizeCapabilities (ncCapabilities c) = [] then [CapabilityNodeContext]
      else normalizeCapabilities (ncCapabilities c))"
  "ncNonce (NodeContext_Normalized c) = TrimSpace (ncNonce c)"
  "ncIssuedAtUnix (NodeContext_Normalized c) = ncIssuedAtUnix c"
  "ncExpiresAtUnix (NodeContext_Normalized c) = ncExpiresAtUnix c"
  by (simp_all add: NodeContext_Normalized_def normalizeNodeContextNodes_def Let_def)

lemma audience_default: "TrimSpace AudienceNodeContext = AudienceNodeContext" "AudienceNodeContext \<noteq> []"
  by code_simp+

lemma NodeContext_Normalized_idem:
  assumes "ncAudience c = [] \<or> TrimSpace (ncAudience c) \<noteq> []"
  shows "NodeContext_Normalized (NodeContext_Normalized c) = NodeContext_Normalized c"
proof (rule NodeContext.equality)
  have caps: "normalizeCapabilities [CapabilityNodeContext] = [CapabilityNodeContext]" by code_simp
  let ?n = "NodeContext_Normalized c"
  show "ncAudience (NodeContext_Normalized ?n) = ncAudience ?n"
    using assms by (auto simp: NodeContext_Normalized_sel audience_default)
  show "ncVersion (NodeContext_Normalized ?n) = ncVersion ?n" "ncAlgorithm (NodeContext_Normalized ?n) = ncAlgorithm ?n"
    by (simp_all add: NodeContext_Normalized_sel NodeContextVersion_def Algorithm_def)
  show "ncOriginNode (NodeContext_Normalized ?n) = ncOriginNode ?n"
    "ncEndpointNode (NodeContext_Normalized ?n) = ncEndpointNode ?n"
    using trimUnique_hd_last [of "ncNodes c"] by (simp_all add: NodeContext_Normalized_sel)
  show "ncCapabilities (NodeContext_Normalized ?n) = ncCapabilities ?n"
    by (simp add: NodeContext_Normalized_sel caps)
qed (simp_all add: NodeContext_Normalized_sel)

section \<open>Verification\<close>

definition node_now :: "go_time \<Rightarrow> NodeContextVerifyOptions \<Rightarrow> go_time" where
  "node_now clock opts = (if noNow opts = 0 then clock else noNow opts)"

lemma VerifySignedNodeContext_Inr:
  "VerifySignedNodeContext C marshal clock sc pk opts = (Inr c, cache') \<longleftrightarrow>
     length pk = 32 \<and> c = NodeContext_Normalized (scContext sc) \<and> NodeContext_Validate c = None
     \<and> NodeContext_Validate (NodeContext_Normalized c) = None
     \<and> (\<exists>canonical sig. marshal (NodeContext_Normalized c) = Some canonical \<and> b64Decode (scSignature sc) = Some sig
          \<and> length sig = 64 \<and> edVerify C pk canonical sig)
     \<and> nodeOptionsError opts (node_now clock opts) c = None
     \<and> CheckAndStore (ncNonce c) (ncExpiresAtUnix c) (node_now clock opts) (noReplayCache opts) = (None, cache')"
  by (auto simp: VerifySignedNodeContext_def CanonicalNodeContextBytes_def node_now_def Let_def
      split: if_splits option.splits sum.splits prod.splits)

text \<open>What \<open>Validate\<close> says of a context whose fields other than the audience are normal.\<close>

lemma NodeContext_Validate_facts:
  assumes "NodeContext_Validate c = None" "c = NodeContext_Normalized c0"
  shows "ncCurrentNode c \<in> set (ncNodes c)" "ncNodes c \<noteq> []" "ncOriginNode c = hd (ncNodes c)"
    "ncEndpointNode c = last (ncNodes c)" "isLowerHexSHA256 (ncChainSHA256 c)" "distinct (ncNodes c)"
    "CapabilityNodeContext \<in> set (ncCapabilities c)" "0 < ncIssuedAtUnix c" "ncIssuedAtUnix c < ncExpiresAtUnix c"
    "ncNonce c \<noteq> []" "ncIssuerPeerID c \<noteq> []"
proof -
  let ?n = "NodeContext_Normalized c"
  have caps: "TrimSpace CapabilityNodeContext = CapabilityNodeContext"
    "normalizeCapabilities [CapabilityNodeContext] = [CapabilityNodeContext]" by code_simp+
  have same: "ncNodes ?n = ncNodes c" "ncCurrentNode ?n = ncCurrentNode c" "ncOriginNode ?n = ncOriginNode c"
    "ncEndpointNode ?n = ncEndpointNode c" "ncChainSHA256 ?n = ncChainSHA256 c" "ncCapabilities ?n = ncCapabilities c"
    "ncNonce ?n = ncNonce c" "ncIssuerPeerID ?n = ncIssuerPeerID c"
    using trimUnique_hd_last [of "ncNodes c0"] unfolding assms(2)
    by (simp_all add: NodeContext_Normalized_sel caps(2))
  have tr: "TrimSpace (ncCurrentNode c) = ncCurrentNode c" unfolding assms(2) by (simp add: NodeContext_Normalized_sel)
  have v: "[] \<notin> {ncIssuerPeerID ?n, ncAudience ?n, ncChainID ?n, ncChainSHA256 ?n, ncCurrentNode ?n,
                    ncOriginNode ?n, ncEndpointNode ?n, ncNonce ?n}"
    "isLowerHexSHA256 (ncChainSHA256 ?n)" "ncNodes ?n \<noteq> []"
    "list_all (nodeInContext (ncNodes ?n)) [ncCurrentNode ?n, ncOriginNode ?n, ncEndpointNode ?n]"
    "ncOriginNode ?n = hd (ncNodes ?n)" "ncEndpointNode ?n = last (ncNodes ?n)"
    "hasCapability (ncCapabilities ?n) CapabilityNodeContext"
    "\<not> (ncIssuedAtUnix ?n \<le> 0 \<or> ncExpiresAtUnix ?n \<le> 0 \<or> ncExpiresAtUnix ?n \<le> ncIssuedAtUnix ?n)"
    using assms(1) unfolding NodeContext_Validate_def Let_def by (metis option.distinct(1))+
  show "ncCurrentNode c \<in> set (ncNodes c)"
    using v(4) tr unfolding same by (simp add: nodeInContext_def list_ex_iff)
  show "ncNodes c \<noteq> []" "ncOriginNode c = hd (ncNodes c)" "ncEndpointNode c = last (ncNodes c)"
    "isLowerHexSHA256 (ncChainSHA256 c)" "ncNonce c \<noteq> []" "ncIssuerPeerID c \<noteq> []"
    using v unfolding same by auto
  show "CapabilityNodeContext \<in> set (ncCapabilities c)"
    using v(7) unfolding same by (simp add: hasCapability_def list_ex_iff caps)
  show "0 < ncIssuedAtUnix c" "ncIssuedAtUnix c < ncExpiresAtUnix c"
    using v(8) by (simp_all add: NodeContext_Normalized_sel)
  show "distinct (ncNodes c)"
    unfolding assms(2) by (simp add: NodeContext_Normalized_sel trimUnique_props)
qed

lemma nodeOptionsError_None:
  "nodeOptionsError opts now c = None \<Longrightarrow>
     ncIssuedAtUnix c \<le> go_unix now \<and> go_unix now < ncExpiresAtUnix c
     \<and> (0 < noMaxTTL opts \<longrightarrow> ttlDuration (ncIssuedAtUnix c) (ncExpiresAtUnix c) \<le> noMaxTTL opts)
     \<and> (noAudience opts \<noteq> [] \<longrightarrow> ncAudience c = noAudience opts) \<and> (noChainID opts \<noteq> [] \<longrightarrow> ncChainID c = noChainID opts)
     \<and> (noChainSHA256 opts \<noteq> [] \<longrightarrow> ncChainSHA256 c = ToLower (TrimSpace (noChainSHA256 opts)))
     \<and> (noCurrentNode opts \<noteq> [] \<longrightarrow> ncCurrentNode c = TrimSpace (noCurrentNode opts))"
  by (auto simp: nodeOptionsError_def Let_def split: if_splits)

text \<open>
  A node context verified for an expected audience is the one that was signed: the signature
  covers exactly the returned context, its current node is in its chain, origin and endpoint are
  the chain's first and last node, the time is in its validity window, and chain and node match
  what was asked for.
\<close>

theorem verified_context_sound:
  assumes "VerifySignedNodeContext C marshal clock sc pk opts = (Inr c, cache')" "noAudience opts \<noteq> []"
  shows "(\<exists>canonical sig. marshal c = Some canonical \<and> b64Decode (scSignature sc) = Some sig
            \<and> edVerify C pk canonical sig)
    \<and> ncAudience c = noAudience opts
    \<and> distinct (ncNodes c) \<and> ncCurrentNode c \<in> set (ncNodes c)
    \<and> ncOriginNode c = hd (ncNodes c) \<and> ncEndpointNode c = last (ncNodes c)
    \<and> ncIssuedAtUnix c \<le> go_unix (node_now clock opts) \<and> go_unix (node_now clock opts) < ncExpiresAtUnix c
    \<and> (noChainID opts \<noteq> [] \<longrightarrow> ncChainID c = noChainID opts)
    \<and> (noCurrentNode opts \<noteq> [] \<longrightarrow> ncCurrentNode c = TrimSpace (noCurrentNode opts))"
proof -
  have v: "NodeContext_Validate c = None" and n: "c = NodeContext_Normalized (scContext sc)"
    and sig: "\<exists>canonical sig. marshal (NodeContext_Normalized c) = Some canonical
      \<and> b64Decode (scSignature sc) = Some sig \<and> edVerify C pk canonical sig"
    and o: "nodeOptionsError opts (node_now clock opts) c = None"
    using assms(1) by (auto simp: VerifySignedNodeContext_Inr)
  note o' = nodeOptionsError_None [OF o]
  have "ncAudience c \<noteq> []" using o' assms(2) by auto
  then have "ncAudience (scContext sc) = [] \<or> TrimSpace (ncAudience (scContext sc)) \<noteq> []"
    unfolding n by (auto simp: NodeContext_Normalized_sel split: if_splits)
  from NodeContext_Normalized_idem [OF this] have "NodeContext_Normalized c = c" unfolding n .
  with sig o' assms(2) NodeContext_Validate_facts [OF v n] show ?thesis by metis
qed

text \<open>A concrete context in a chain of three nodes.\<close>

definition demo_context :: "string \<Rightarrow> NodeContext" where
  "demo_context audience =
     \<lparr>ncVersion = NodeContextVersion, ncAlgorithm = Algorithm, ncIssuerPeerID = ''alice'', ncAudience = audience,
      ncChainID = ''c1'', ncChainSHA256 = replicate 64 (CHR ''b''), ncNodes = [''client'', ''gate'', ''host''],
      ncCurrentNode = ''gate'', ncOriginNode = ''client'', ncEndpointNode = ''host'',
      ncCapabilities = [CapabilityNodeContext], ncNonce = ''n1'', ncIssuedAtUnix = 1000, ncExpiresAtUnix = 1060\<rparr>"

definition demo_node_options :: "string \<Rightarrow> NodeContextVerifyOptions" where
  "demo_node_options audience =
     \<lparr>noNow = 62135597800 * go_second, noAudience = audience, noChainID = ''c1'', noChainSHA256 = [],
      noCurrentNode = ''gate '', noMaxTTL = 60 * go_second, noReplayCache = None\<rparr>"

definition demo_node_marshal :: "NodeContext \<Rightarrow> bytes option" where
  "demo_node_marshal c = Some (map (\<lambda>c. of_nat (of_char c)) (ncAudience c))"

lemma demo_node_strings:
  "TrimSpace ''alice'' = ''alice''" "TrimSpace ''c1'' = ''c1''" "TrimSpace ''gate'' = ''gate''" "TrimSpace ''gate '' = ''gate''"
  "TrimSpace ''client'' = ''client''" "TrimSpace ''host'' = ''host''" "TrimSpace ''n1'' = ''n1''"
  "trimUnique [] [''client'', ''gate'', ''host''] = [''client'', ''gate'', ''host'']"
  "normalizeCapabilities [CapabilityNodeContext] = [CapabilityNodeContext]"
  "TrimSpace CapabilityNodeContext = CapabilityNodeContext" "knownCapability CapabilityNodeContext"
  "TrimSpace ''  '' = []"
  by code_simp+

lemma demo_context_normal: "NodeContext_Normalized (demo_context audience) =
    demo_context (TrimSpace (if audience = [] then AudienceNodeContext else audience))"
  by (rule NodeContext.equality)
     (simp_all add: NodeContext_Normalized_sel demo_context_def demo_node_strings demo_grant_strings
       NodeContextVersion_def Algorithm_def del: trimUnique.simps)

lemma demo_context_valid: "NodeContext_Validate (demo_context audience) = None"
  if "TrimSpace (if audience = [] then AudienceNodeContext else audience) \<noteq> []"
  using that
  unfolding NodeContext_Validate_def demo_context_normal Let_def
  by (simp add: demo_context_def demo_grant_strings nodeInContext_def hasCapability_def demo_node_strings)

definition demo_signed :: "string \<Rightarrow> SignedNodeContext" where
  "demo_signed audience =
     \<lparr>scContext = demo_context audience, scSignature = b64Encode
        (edSign demo_crypto [] (the (demo_node_marshal (demo_context AudienceNodeContext))))\<rparr>"

lemma demo_context_verifies:
  assumes n: "NodeContext_Normalized (demo_context audience) = demo_context a"
    "NodeContext_Normalized (demo_context a) = demo_context AudienceNodeContext"
    and e: "expected = [] \<or> expected = a"
  shows "VerifySignedNodeContext demo_crypto demo_node_marshal 0 (demo_signed audience)
      (replicate 32 0) (demo_node_options expected) = (Inr (demo_context a), None)"
proof -
  have "TrimSpace (if a = [] then AudienceNodeContext else a) \<noteq> []"
    using arg_cong [OF n(2), of ncAudience] audience_default(2)
    by (auto simp: NodeContext_Normalized_sel) (simp_all add: demo_context_def)
  then have v: "NodeContext_Validate (demo_context a) = None" "NodeContext_Validate (demo_context AudienceNodeContext) = None"
    by (simp_all add: demo_context_valid audience_default)
  have "ttlDuration 1000 1060 \<le> 60 * go_second" by (simp add: ttlDuration_def go_int64_def)
  then have o: "nodeOptionsError (demo_node_options expected) (node_now 0 (demo_node_options expected)) (demo_context a) = None"
    using e by (auto simp: nodeOptionsError_def node_now_def demo_node_options_def demo_context_def go_unix_def demo_node_strings)
  show ?thesis
    unfolding VerifySignedNodeContext_Inr
    using n v o demo_crypto_laws [of "[]" "replicate 32 0"]
    by (auto simp: demo_signed_def crypto_laws_def demo_node_marshal_def CheckAndStore_def demo_node_options_def)
qed

theorem verified_context_sound_witness:
  "\<exists>c cache. VerifySignedNodeContext demo_crypto demo_node_marshal 0 (demo_signed AudienceNodeContext)
       (replicate 32 0) (demo_node_options AudienceNodeContext) = (Inr c, cache)
     \<and> ncCurrentNode c \<in> set (ncNodes c) \<and> ncOriginNode c = hd (ncNodes c)"
proof -
  have v: "VerifySignedNodeContext demo_crypto demo_node_marshal 0 (demo_signed AudienceNodeContext)
       (replicate 32 0) (demo_node_options AudienceNodeContext) = (Inr (demo_context AudienceNodeContext), None)"
    by (rule demo_context_verifies) (simp_all add: demo_context_normal audience_default)
  have "noAudience (demo_node_options AudienceNodeContext) \<noteq> []" by (simp add: demo_node_options_def audience_default)
  from verified_context_sound [OF v this] v show ?thesis by blast
qed

text \<open>
  Without an expected audience the returned context need not be the signed one: a signature
  over a context with the default audience is also accepted after the audience was overwritten
  with blanks, and the context that is returned then has no audience.
\<close>

theorem context_audience_malleable:
  "\<exists>blank. TrimSpace blank = [] \<and> blank \<noteq> []
     \<and> VerifySignedNodeContext demo_crypto demo_node_marshal 0 (demo_signed blank) (replicate 32 0) (demo_node_options [])
       = (Inr (demo_context []), None)
     \<and> scSignature (demo_signed blank) = scSignature (demo_signed AudienceNodeContext)
     \<and> ncAudience (demo_context []) = [] \<and> demo_node_marshal (demo_context []) \<noteq> demo_node_marshal (demo_context AudienceNodeContext)"
proof (intro exI [of _ "''  ''"] conjI)
  show "VerifySignedNodeContext demo_crypto demo_node_marshal 0 (demo_signed ''  '') (replicate 32 0) (demo_node_options [])
       = (Inr (demo_context []), None)"
    by (rule demo_context_verifies) (simp_all add: demo_context_normal audience_default demo_node_strings)
qed (simp_all add: demo_node_strings demo_signed_def demo_context_def demo_node_marshal_def audience_default)

end
