(* ===== verification/Hop_Proof.thy ===== *)
theory Hop_Proof
  imports Auth_Node
begin

text \<open>
  Signed hops: \<open>src/hopproof/hop.go\<close>, \<open>src/hopproof/sshsig.go\<close> and the check a node makes of the
  chain it is attached with, \<open>src/internal/app/recursive_attach.go\<close>. Every node of a topology signs
  the transition to its successor; a record holds the digest of the one before it.

  The signer and the verifier are interfaces in the code and functions here; \<open>None\<close> is the nil
  interface. \<open>encoding/json\<close> and \<open>crypto/sha256\<close> are the parameter record \<open>hop_env\<close>, the random
  source a byte string or its failure, and \<open>ssh-keygen\<close> a function of its arguments and input.
\<close>

section \<open>Data\<close>

definition ChainVersion :: string where "ChainVersion = ''weaverssh.hop-chain.v1''"
definition HopVersion :: string where "HopVersion = ''weaverssh.hop.v1''"
definition SignatureDomain :: string where "SignatureDomain = ''weaverssh-hop@weaverssh''"
definition MaxHops :: nat where "MaxHops = 16"
definition MaxEncodedBytes :: nat where "MaxEncodedBytes = 49152"

datatype hop_error =
    HopContext auth_error
  | ErrInvalidChain | ErrWrongHop | ErrExpiredHop | ErrHopReplay | ErrSignature
  | ErrNoNextNode | ErrNoPreviousNode
  | ErrNilSigner | ErrNilVerifier | ErrHopMarshal | ErrHopRandom | ErrSigner
  | ErrHopRequired | ErrAllowedSigners | ErrOriginMismatch

record Hop =
  hVersion :: string
  hChainID :: string
  hChainSHA256 :: string
  hRootNode :: string
  hFromNode :: string
  hToNode :: string
  hHopIndex :: int
  hParentHopSHA256 :: string
  hParentSessionBinding :: string
  hNonce :: string
  hIssuedAtUnix :: int
  hExpiresAtUnix :: int

record SignedHop =
  shPrincipal :: string
  shHop :: Hop
  shSignature :: string

record Chain =
  chVersion :: string
  chHops :: "SignedHop list"

record HopVerifyOptions =
  hvNow :: go_time
  hvMaxTTL :: go_duration
  hvClockSkew :: go_duration
  hvReplayCache :: "NonceCache option"

record hop_env =
  marshalHop :: "Hop \<Rightarrow> bytes option"
  marshalSignedHop :: "SignedHop \<Rightarrow> bytes option"
  marshalChain :: "Chain \<Rightarrow> bytes option"
  unmarshalChain :: "bytes \<Rightarrow> Chain option"
  hopSHA256 :: "bytes \<Rightarrow> string"

type_synonym hop_signer = "string \<Rightarrow> bytes \<Rightarrow> bytes option"
type_synonym hop_verifier = "string \<Rightarrow> bytes \<Rightarrow> bytes \<Rightarrow> bool"

section \<open>Position in the topology\<close>

text \<open>The loop over the nodes, at position \<open>i\<close>.\<close>

fun nodeIndex :: "string \<Rightarrow> nat \<Rightarrow> string list \<Rightarrow> nat option" where
  "nodeIndex node i [] = None"
| "nodeIndex node i (x # xs) = (if x = node then Some i else nodeIndex node (i + 1) xs)"

definition CurrentIndex :: "NodeContext \<Rightarrow> hop_error + nat" where
  "CurrentIndex raw =
     (let ctx = NodeContext_Normalized raw in
      case NodeContext_Validate ctx of
        Some e \<Rightarrow> Inl (HopContext e)
      | None \<Rightarrow> (case nodeIndex (ncCurrentNode ctx) 0 (ncNodes ctx) of
                   Some index \<Rightarrow> Inr index
                 | None \<Rightarrow> Inl ErrInvalidChain))"

definition PreviousNode :: "NodeContext \<Rightarrow> hop_error + string" where
  "PreviousNode ctx =
     (case CurrentIndex ctx of
        Inl e \<Rightarrow> Inl e
      | Inr index \<Rightarrow>
          if index \<le> 0 then Inl ErrNoPreviousNode
          else Inr (ncNodes (NodeContext_Normalized ctx) ! (index - 1)))"

definition NextNode :: "NodeContext \<Rightarrow> hop_error + string" where
  "NextNode ctx =
     (case CurrentIndex ctx of
        Inl e \<Rightarrow> Inl e
      | Inr index \<Rightarrow>
          let normalized = NodeContext_Normalized ctx in
          if length (ncNodes normalized) \<le> index + 1 then Inl ErrNoNextNode
          else Inr (ncNodes normalized ! (index + 1)))"

section \<open>Canonical form and digests\<close>

definition normalizeHop :: "Hop \<Rightarrow> Hop" where
  "normalizeHop hop =
     hop\<lparr>hVersion := (if hVersion hop = [] then HopVersion else hVersion hop),
         hChainID := TrimSpace (hChainID hop),
         hChainSHA256 := ToLower (TrimSpace (hChainSHA256 hop)),
         hRootNode := TrimSpace (hRootNode hop),
         hFromNode := TrimSpace (hFromNode hop),
         hToNode := TrimSpace (hToNode hop),
         hParentHopSHA256 := ToLower (TrimSpace (hParentHopSHA256 hop)),
         hParentSessionBinding := TrimSpace (hParentSessionBinding hop),
         hNonce := TrimSpace (hNonce hop)\<rparr>"

definition validateHop :: "Hop \<Rightarrow> hop_error option" where
  "validateHop hop =
     (if hVersion hop \<noteq> HopVersion \<or> hChainID hop = [] \<or> hRootNode hop = [] \<or> hFromNode hop = []
         \<or> hToNode hop = [] \<or> hNonce hop = [] \<or> hHopIndex hop \<le> 0 then Some ErrInvalidChain
      else if length (hChainSHA256 hop) \<noteq> 64 then Some ErrInvalidChain
      else if hParentHopSHA256 hop \<noteq> [] \<and> length (hParentHopSHA256 hop) \<noteq> 64 then Some ErrInvalidChain
      else if hExpiresAtUnix hop \<le> hIssuedAtUnix hop then Some ErrInvalidChain
      else None)"

definition CanonicalHopBytes :: "hop_env \<Rightarrow> Hop \<Rightarrow> hop_error + bytes" where
  "CanonicalHopBytes E raw =
     (let hop = normalizeHop raw in
      case validateHop hop of
        Some e \<Rightarrow> Inl e
      | None \<Rightarrow> (case marshalHop E hop of None \<Rightarrow> Inl ErrHopMarshal | Some b \<Rightarrow> Inr b))"

definition SignedHopDigest :: "hop_env \<Rightarrow> SignedHop \<Rightarrow> hop_error + string" where
  "SignedHopDigest E raw =
     (let hop = raw\<lparr>shPrincipal := TrimSpace (shPrincipal raw), shHop := normalizeHop (shHop raw)\<rparr> in
      if shPrincipal hop = [] \<or> shSignature hop = [] then Inl ErrInvalidChain
      else case marshalSignedHop E hop of
        None \<Rightarrow> Inl ErrHopMarshal
      | Some payload \<Rightarrow> Inr (hopSHA256 E payload))"

definition randomNonce :: "bytes option \<Rightarrow> hop_error + string" where
  "randomNonce rand = (case rand of None \<Rightarrow> Inl ErrHopRandom | Some raw \<Rightarrow> Inr (b64Encode raw))"

section \<open>Appending\<close>

text \<open>
  \<open>Append\<close>; \<open>clock\<close> is the reading of \<open>time.Now\<close>, \<open>rand\<close> the outcome of \<open>rand.Read\<close>. The record that
  is signed is \<open>newHop\<close>, and \<open>signHop\<close> is the part of the function after the parent's digest.
\<close>

definition newHop ::
  "NodeContext \<Rightarrow> nat \<Rightarrow> string \<Rightarrow> string \<Rightarrow> string \<Rightarrow> go_duration \<Rightarrow> go_time \<Rightarrow> Hop" where
  "newHop nodeContext index parentDigest parentBinding nonce ttl now =
     \<lparr>hVersion = HopVersion, hChainID = ncChainID nodeContext, hChainSHA256 = ncChainSHA256 nodeContext,
      hRootNode = ncNodes nodeContext ! 0, hFromNode = ncCurrentNode nodeContext,
      hToNode = ncNodes nodeContext ! (index + 1), hHopIndex = int index + 1,
      hParentHopSHA256 = parentDigest, hParentSessionBinding = TrimSpace parentBinding, hNonce = nonce,
      hIssuedAtUnix = go_unix now, hExpiresAtUnix = go_unix (now + ttl)\<rparr>"

definition signHop ::
  "hop_env \<Rightarrow> bytes option \<Rightarrow> NodeContext \<Rightarrow> nat \<Rightarrow> SignedHop list \<Rightarrow> string \<Rightarrow> string \<Rightarrow> go_duration \<Rightarrow> go_time \<Rightarrow>
     hop_signer \<Rightarrow> hop_error + Chain" where
  "signHop E rand nodeContext index hops parentDigest parentBinding ttl now sign =
     (case randomNonce rand of
        Inl e \<Rightarrow> Inl e
      | Inr nonce \<Rightarrow>
      let hop = newHop nodeContext index parentDigest parentBinding nonce ttl now in
      case CanonicalHopBytes E hop of
        Inl e \<Rightarrow> Inl e
      | Inr message \<Rightarrow>
      case sign (hFromNode hop) message of
        None \<Rightarrow> Inl ErrSigner
      | Some signature \<Rightarrow>
      if signature = [] then Inl ErrSignature
      else
      let signed = \<lparr>shPrincipal = hFromNode hop, shHop = hop, shSignature = b64Encode signature\<rparr>;
          out = \<lparr>chVersion = ChainVersion, chHops = hops @ [signed]\<rparr> in
      if MaxHops < length (chHops out) then Inl ErrInvalidChain else Inr out)"

definition Append ::
  "hop_env \<Rightarrow> go_time \<Rightarrow> bytes option \<Rightarrow> NodeContext \<Rightarrow> Chain \<Rightarrow> string \<Rightarrow> go_duration \<Rightarrow> go_time \<Rightarrow>
     hop_signer option \<Rightarrow> hop_error + Chain" where
  "Append E clock rand rawContext rawParent rawBinding rawTTL rawNow signer =
     (case signer of
        None \<Rightarrow> Inl ErrNilSigner
      | Some sign \<Rightarrow>
      let nodeContext = NodeContext_Normalized rawContext in
      case CurrentIndex nodeContext of
        Inl e \<Rightarrow> Inl e
      | Inr index \<Rightarrow>
      if length (ncNodes nodeContext) \<le> index + 1 then Inl ErrNoNextNode
      else
      let ttl = (if rawTTL \<le> 0 then 300 * go_second else rawTTL);
          now = (if rawNow = 0 then clock else rawNow) in
      if length (chHops rawParent) \<noteq> index then Inl ErrInvalidChain
      else if 0 < index \<and> TrimSpace rawBinding = [] then Inl ErrInvalidChain
      else
      let parent = (if index = 0 then \<lparr>chVersion = ChainVersion, chHops = []\<rparr> else rawParent);
          parentBinding = (if index = 0 then [] else rawBinding) in
      case (if 0 < length (chHops parent) then SignedHopDigest E (last (chHops parent)) else Inr []) of
        Inl e \<Rightarrow> Inl e
      | Inr parentDigest \<Rightarrow>
      signHop E rand nodeContext index (chHops parent) parentDigest parentBinding ttl now sign)"

section \<open>Verification\<close>

text \<open>The checks of one record before its signature, in their order.\<close>

definition hopError ::
  "NodeContext \<Rightarrow> go_time \<Rightarrow> go_duration \<Rightarrow> go_duration \<Rightarrow> nat \<Rightarrow> string \<Rightarrow> string \<Rightarrow> Hop \<Rightarrow> hop_error option" where
  "hopError nodeContext now maxTTL skew hopIndex previousDigest who hop =
     (let expectedFrom = ncNodes nodeContext ! hopIndex;
          expectedTo = ncNodes nodeContext ! (hopIndex + 1) in
      if who \<noteq> expectedFrom \<or> hFromNode hop \<noteq> expectedFrom \<or> hToNode hop \<noteq> expectedTo
         \<or> hHopIndex hop \<noteq> int hopIndex + 1 \<or> hRootNode hop \<noteq> ncNodes nodeContext ! 0
         \<or> hChainID hop \<noteq> ncChainID nodeContext \<or> hChainSHA256 hop \<noteq> ncChainSHA256 nodeContext
         \<or> hParentHopSHA256 hop \<noteq> previousDigest then Some ErrWrongHop
      else if hopIndex = 0 \<and> hParentSessionBinding hop \<noteq> [] then Some ErrWrongHop
      else if 0 < hopIndex \<and> hParentSessionBinding hop = [] then Some ErrWrongHop
      else if hIssuedAtUnix hop \<le> 0 \<or> hExpiresAtUnix hop \<le> hIssuedAtUnix hop
           \<or> maxTTL < ttlDuration (hIssuedAtUnix hop) (hExpiresAtUnix hop) then Some ErrInvalidChain
      else if go_unix (now + skew) < hIssuedAtUnix hop then Some ErrInvalidChain
      else if hExpiresAtUnix hop \<le> go_unix (now - skew) then Some ErrExpiredHop
      else None)"

text \<open>
  The loop of \<open>Verify\<close> from record \<open>hopIndex\<close> on. The second component of the result is the replay
  cache: it keeps the nonces of the records that passed, also when a later one fails.
\<close>

fun verifyHops ::
  "hop_env \<Rightarrow> NodeContext \<Rightarrow> hop_verifier \<Rightarrow> go_time \<Rightarrow> go_duration \<Rightarrow> go_duration \<Rightarrow> nat \<Rightarrow> string \<Rightarrow>
     SignedHop list \<Rightarrow> NonceCache option \<Rightarrow> hop_error option \<times> NonceCache option" where
  "verifyHops E nodeContext verifier now maxTTL skew hopIndex previousDigest [] cache = (None, cache)"
| "verifyHops E nodeContext verifier now maxTTL skew hopIndex previousDigest (sh # rest) cache =
     (let hop = normalizeHop (shHop sh) in
      case hopError nodeContext now maxTTL skew hopIndex previousDigest (shPrincipal sh) hop of
        Some e \<Rightarrow> (Some e, cache)
      | None \<Rightarrow>
      case CanonicalHopBytes E hop of
        Inl e \<Rightarrow> (Some e, cache)
      | Inr message \<Rightarrow>
      case b64Decode (shSignature sh) of
        None \<Rightarrow> (Some ErrSignature, cache)
      | Some signature \<Rightarrow>
      if signature = [] then (Some ErrSignature, cache)
      else if \<not> verifier (shPrincipal sh) message signature then (Some ErrSignature, cache)
      else case CheckAndStore (hNonce hop) (hExpiresAtUnix hop) now cache of
        (Some e, cache') \<Rightarrow> (Some ErrHopReplay, cache')
      | (None, cache') \<Rightarrow>
      case SignedHopDigest E \<lparr>shPrincipal = shPrincipal sh, shHop = hop, shSignature = shSignature sh\<rparr> of
        Inl e \<Rightarrow> (Some e, cache')
      | Inr digest \<Rightarrow> verifyHops E nodeContext verifier now maxTTL skew (hopIndex + 1) digest rest cache')"

definition hop_now :: "go_time \<Rightarrow> HopVerifyOptions \<Rightarrow> go_time" where
  "hop_now clock options = (if hvNow options = 0 then clock else hvNow options)"

definition hop_maxTTL :: "HopVerifyOptions \<Rightarrow> go_duration" where
  "hop_maxTTL options = (if hvMaxTTL options \<le> 0 then 600 * go_second else hvMaxTTL options)"

definition hop_skew :: "HopVerifyOptions \<Rightarrow> go_duration" where
  "hop_skew options = (if hvClockSkew options < 0 then 0 else hvClockSkew options)"

definition Verify ::
  "hop_env \<Rightarrow> go_time \<Rightarrow> NodeContext \<Rightarrow> Chain \<Rightarrow> hop_verifier option \<Rightarrow> HopVerifyOptions \<Rightarrow>
     hop_error option \<times> NonceCache option" where
  "Verify E clock rawContext chain verifier options =
     (let cache = hvReplayCache options in
      case verifier of
        None \<Rightarrow> (Some ErrNilVerifier, cache)
      | Some verify \<Rightarrow>
      let nodeContext = NodeContext_Normalized rawContext in
      case CurrentIndex nodeContext of
        Inl e \<Rightarrow> (Some e, cache)
      | Inr index \<Rightarrow>
      if index \<le> 0 then (Some ErrNoPreviousNode, cache)
      else if chVersion chain \<noteq> ChainVersion \<or> length (chHops chain) \<noteq> index \<or> MaxHops < length (chHops chain)
        then (Some ErrInvalidChain, cache)
      else case verifyHops E nodeContext verify (hop_now clock options) (hop_maxTTL options) (hop_skew options)
                  0 [] (chHops chain) cache of
        (Some e, cache') \<Rightarrow> (Some e, cache')
      | (None, cache') \<Rightarrow>
          if hToNode (shHop (last (chHops chain))) \<noteq> ncCurrentNode nodeContext then (Some ErrWrongHop, cache')
          else (None, cache'))"

definition ImmediatePrevious :: "Chain \<Rightarrow> hop_error + string" where
  "ImmediatePrevious chain =
     (if chHops chain = [] then Inl ErrInvalidChain else Inr (hFromNode (shHop (last (chHops chain)))))"

section \<open>Transport form\<close>

definition Encode :: "hop_env \<Rightarrow> Chain \<Rightarrow> hop_error + string" where
  "Encode E chain =
     (if chVersion chain \<noteq> ChainVersion \<or> chHops chain = [] \<or> MaxHops < length (chHops chain) then Inl ErrInvalidChain
      else case marshalChain E chain of
        None \<Rightarrow> Inl ErrHopMarshal
      | Some payload \<Rightarrow>
          let encoded = b64Encode payload in
          if MaxEncodedBytes < length encoded then Inl ErrInvalidChain else Inr encoded)"

definition Decode :: "hop_env \<Rightarrow> string \<Rightarrow> hop_error + Chain" where
  "Decode E raw =
     (let encoded = TrimSpace raw in
      if encoded = [] \<or> MaxEncodedBytes < length encoded then Inl ErrInvalidChain
      else case b64Decode encoded of
        None \<Rightarrow> Inl ErrInvalidChain
      | Some payload \<Rightarrow>
      case unmarshalChain E payload of
        None \<Rightarrow> Inl ErrInvalidChain
      | Some chain \<Rightarrow>
          if chVersion chain \<noteq> ChainVersion \<or> chHops chain = [] \<or> MaxHops < length (chHops chain)
          then Inl ErrInvalidChain else Inr chain)"

section \<open>Signing with \<open>ssh-keygen\<close>\<close>

text \<open>
  \<open>keygen binary arguments temp stdin\<close> is the output of a run that ended with status 0; \<open>temp\<close> is the
  name and content of the file written for it. \<open>tempName\<close> is the outcome of creating that file.
\<close>

type_synonym keygen = "string \<Rightarrow> string list \<Rightarrow> (string \<times> bytes) option \<Rightarrow> bytes \<Rightarrow> bytes option"

definition trimBytes :: "bytes \<Rightarrow> bytes" where
  "trimBytes b = map (\<lambda>c. of_nat (of_char c)) (TrimSpace (map (\<lambda>w. char_of (unat w)) b))"

definition keygenBinary :: "string \<Rightarrow> string" where
  "keygenBinary binary = (if TrimSpace binary = [] then ''ssh-keygen'' else TrimSpace binary)"

definition SSHKeygenSigner_Sign :: "keygen \<Rightarrow> string \<Rightarrow> string \<Rightarrow> hop_signer" where
  "SSHKeygenSigner_Sign keygen binary rawKeyFile signatory message =
     (let keyFile = TrimSpace rawKeyFile in
      if keyFile = [] then None
      else if TrimSpace signatory = [] then None
      else case keygen (keygenBinary binary) [''-Y'', ''sign'', ''-f'', keyFile, ''-n'', SignatureDomain] None message of
        None \<Rightarrow> None
      | Some stdout \<Rightarrow>
          let signature = trimBytes stdout in
          if signature = [] then None else Some signature)"

definition SSHKeygenVerifier_Verify :: "keygen \<Rightarrow> string option \<Rightarrow> string \<Rightarrow> string \<Rightarrow> hop_verifier" where
  "SSHKeygenVerifier_Verify keygen tempName binary allowedSignersFile rawPrincipal message signature =
     (let allowed = TrimSpace allowedSignersFile; ident = TrimSpace rawPrincipal in
      if allowed = [] then False
      else if ident = [] then False
      else case tempName of
        None \<Rightarrow> False
      | Some name \<Rightarrow>
          keygen (keygenBinary binary)
            [''-Y'', ''verify'', ''-f'', allowed, ''-I'', ident, ''-n'', SignatureDomain, ''-s'', name]
            (Some (name, signature)) message \<noteq> None)"

section \<open>Attaching\<close>

record VerifiedRecursiveHop =
  vrChain :: Chain
  vrPreviousNode :: string
  vrDepth :: nat

definition attach_options :: "go_time \<Rightarrow> HopVerifyOptions" where
  "attach_options now = \<lparr>hvNow = now, hvMaxTTL = 600 * go_second, hvClockSkew = 0, hvReplayCache = Some []\<rparr>"

definition verifyIncomingRecursiveHop ::
  "hop_env \<Rightarrow> go_time \<Rightarrow> NodeContext \<Rightarrow> string \<Rightarrow> string \<Rightarrow> hop_verifier option \<Rightarrow> go_time \<Rightarrow>
     hop_error + VerifiedRecursiveHop" where
  "verifyIncomingRecursiveHop E clock nodeContext encoded wvOrigin verifier now =
     (case Decode E (TrimSpace encoded) of
        Inl e \<Rightarrow> Inl e
      | Inr chain \<Rightarrow>
      case fst (Verify E clock nodeContext chain verifier (attach_options now)) of
        Some e \<Rightarrow> Inl e
      | None \<Rightarrow>
      case ImmediatePrevious chain of
        Inl e \<Rightarrow> Inl e
      | Inr previous \<Rightarrow>
          if TrimSpace wvOrigin \<noteq> previous then Inl ErrOriginMismatch
          else Inr \<lparr>vrChain = chain, vrPreviousNode = previous, vrDepth = length (chHops chain)\<rparr>)"

definition VerifyIncomingRecursiveHop ::
  "hop_env \<Rightarrow> keygen \<Rightarrow> string option \<Rightarrow> go_time \<Rightarrow> NodeContext \<Rightarrow> string \<Rightarrow> string \<Rightarrow> string \<Rightarrow> string \<Rightarrow> bool \<Rightarrow>
     go_time \<Rightarrow> hop_error + VerifiedRecursiveHop" where
  "VerifyIncomingRecursiveHop E keygen tempName clock nodeContext rawEncoded wvOrigin allowedSignersFile
       sshKeygenBinary required now =
     (let encoded = TrimSpace rawEncoded in
      if encoded = [] then
        (if required then Inl ErrHopRequired
         else Inr \<lparr>vrChain = \<lparr>chVersion = [], chHops = []\<rparr>, vrPreviousNode = [], vrDepth = 0\<rparr>)
      else if TrimSpace allowedSignersFile = [] then Inl ErrAllowedSigners
      else verifyIncomingRecursiveHop E clock nodeContext encoded wvOrigin
        (Some (SSHKeygenVerifier_Verify keygen tempName sshKeygenBinary allowedSignersFile)) now)"

section \<open>The topology\<close>

lemma nodeIndex_Some:
  "nodeIndex node i xs = Some k \<Longrightarrow> i \<le> k \<and> k - i < length xs \<and> xs ! (k - i) = node"
proof (induction xs arbitrary: i)
  case (Cons x xs)
  show ?case
  proof (cases "x = node")
    case False
    with Cons have "i + 1 \<le> k" "k - (i + 1) < length xs" "xs ! (k - (i + 1)) = node" by auto
    then show ?thesis by (auto simp: nth_Cons')
  qed (use Cons in auto)
qed simp

lemma nodeIndex_nth:
  "distinct xs \<Longrightarrow> k < length xs \<Longrightarrow> nodeIndex (xs ! k) i xs = Some (i + k)"
proof (induction xs arbitrary: i k)
  case (Cons x xs)
  then show ?case by (cases k) (auto simp: in_set_conv_nth)
qed simp

lemma NodeContext_Normalized_twice [simp]:
  "NodeContext_Normalized (NodeContext_Normalized (NodeContext_Normalized c)) =
   NodeContext_Normalized (NodeContext_Normalized c)"
  by (rule NodeContext_Normalized_idem) (auto simp: NodeContext_Normalized_sel audience_default)

text \<open>A second normalisation changes nothing but, possibly, the audience.\<close>

lemma Normalized_again [simp]:
  "ncNodes (NodeContext_Normalized (NodeContext_Normalized c)) = ncNodes (NodeContext_Normalized c)"
  "ncCurrentNode (NodeContext_Normalized (NodeContext_Normalized c)) = ncCurrentNode (NodeContext_Normalized c)"
  "ncChainID (NodeContext_Normalized (NodeContext_Normalized c)) = ncChainID (NodeContext_Normalized c)"
  "ncChainSHA256 (NodeContext_Normalized (NodeContext_Normalized c)) = ncChainSHA256 (NodeContext_Normalized c)"
  by (simp_all add: NodeContext_Normalized_sel)

lemma NodeContext_Validate_twice [simp]:
  "NodeContext_Validate (NodeContext_Normalized (NodeContext_Normalized c)) = NodeContext_Validate (NodeContext_Normalized c)"
  by (simp add: NodeContext_Validate_def)

lemma CurrentIndex_normalized [simp]: "CurrentIndex (NodeContext_Normalized c) = CurrentIndex c"
  by (simp add: CurrentIndex_def Let_def split: option.split)

lemma CurrentIndex_Inr:
  assumes "CurrentIndex c = Inr k"
  shows "k < length (ncNodes (NodeContext_Normalized c))"
    "ncNodes (NodeContext_Normalized c) ! k = ncCurrentNode (NodeContext_Normalized c)"
    "NodeContext_Validate (NodeContext_Normalized c) = None"
    "distinct (ncNodes (NodeContext_Normalized c))"
proof -
  show v: "NodeContext_Validate (NodeContext_Normalized c) = None"
    using assms by (auto simp: CurrentIndex_def Let_def split: option.splits)
  then have "nodeIndex (ncCurrentNode (NodeContext_Normalized c)) 0 (ncNodes (NodeContext_Normalized c)) = Some k"
    using assms by (auto simp: CurrentIndex_def Let_def split: option.splits)
  from nodeIndex_Some [OF this] show "k < length (ncNodes (NodeContext_Normalized c))"
    "ncNodes (NodeContext_Normalized c) ! k = ncCurrentNode (NodeContext_Normalized c)" by simp_all
  show "distinct (ncNodes (NodeContext_Normalized c))" by (rule NodeContext_Validate_facts [OF v refl])
qed

lemma node_trimmed:
  assumes "k < length (ncNodes (NodeContext_Normalized c))"
  shows "TrimSpace (ncNodes (NodeContext_Normalized c) ! k) = ncNodes (NodeContext_Normalized c) ! k"
    "ncNodes (NodeContext_Normalized c) ! k \<noteq> []"
  using trimUnique_props [of "[]" "ncNodes c"] nth_mem [OF assms]
  by (auto simp: NodeContext_Normalized_sel list_all_iff TrimSpace_id)

section \<open>Normal form of a hop\<close>

lemma normalizeHop_sel [simp]:
  "hVersion (normalizeHop h) = (if hVersion h = [] then HopVersion else hVersion h)"
  "hChainID (normalizeHop h) = TrimSpace (hChainID h)"
  "hChainSHA256 (normalizeHop h) = ToLower (TrimSpace (hChainSHA256 h))"
  "hRootNode (normalizeHop h) = TrimSpace (hRootNode h)"
  "hFromNode (normalizeHop h) = TrimSpace (hFromNode h)"
  "hToNode (normalizeHop h) = TrimSpace (hToNode h)"
  "hHopIndex (normalizeHop h) = hHopIndex h"
  "hParentHopSHA256 (normalizeHop h) = ToLower (TrimSpace (hParentHopSHA256 h))"
  "hParentSessionBinding (normalizeHop h) = TrimSpace (hParentSessionBinding h)"
  "hNonce (normalizeHop h) = TrimSpace (hNonce h)"
  "hIssuedAtUnix (normalizeHop h) = hIssuedAtUnix h"
  "hExpiresAtUnix (normalizeHop h) = hExpiresAtUnix h"
  by (simp_all add: normalizeHop_def)

lemma normalizeHop_idem [simp]: "normalizeHop (normalizeHop h) = normalizeHop h"
  by (rule Hop.equality) (simp_all add: HopVersion_def)

lemma SignedHopDigest_normalized [simp]:
  "SignedHopDigest E \<lparr>shPrincipal = shPrincipal s, shHop = normalizeHop (shHop s), shSignature = shSignature s\<rparr>
   = SignedHopDigest E s"
  by (cases s) (simp add: SignedHopDigest_def Let_def)

lemma CanonicalHopBytes_normalized [simp]: "CanonicalHopBytes E (normalizeHop h) = CanonicalHopBytes E h"
  by (simp add: CanonicalHopBytes_def)

section \<open>What a verified chain shows\<close>

text \<open>One record has passed: its checks, its signature, the replay cache and its digest.\<close>

definition hop_passes ::
  "hop_env \<Rightarrow> NodeContext \<Rightarrow> hop_verifier \<Rightarrow> go_time \<Rightarrow> go_duration \<Rightarrow> go_duration \<Rightarrow> nat \<Rightarrow> string \<Rightarrow> SignedHop \<Rightarrow> bool" where
  "hop_passes E c V now maxTTL skew i d s =
     (hopError c now maxTTL skew i d (shPrincipal s) (normalizeHop (shHop s)) = None
      \<and> (\<exists>message signature. CanonicalHopBytes E (shHop s) = Inr message
           \<and> b64Decode (shSignature s) = Some signature \<and> signature \<noteq> [] \<and> V (shPrincipal s) message signature))"

lemma verifyHops_Cons:
  "verifyHops E c V now maxTTL skew i d (s # rest) cache = (None, cache') \<longleftrightarrow>
     hop_passes E c V now maxTTL skew i d s
     \<and> (\<exists>cache1 d'. CheckAndStore (TrimSpace (hNonce (shHop s))) (hExpiresAtUnix (shHop s)) now cache = (None, cache1)
          \<and> SignedHopDigest E s = Inr d'
          \<and> verifyHops E c V now maxTTL skew (i + 1) d' rest cache1 = (None, cache'))"
  by (auto simp: hop_passes_def Let_def split: option.splits sum.splits prod.splits if_splits)

declare verifyHops.simps(2) [simp del]

lemma verifyHops_nth:
  "verifyHops E c V now maxTTL skew i d hops cache = (None, cache') \<Longrightarrow> k < length hops \<Longrightarrow>
     \<exists>dk. hop_passes E c V now maxTTL skew (i + k) dk (hops ! k)
       \<and> (if k = 0 then dk = d else SignedHopDigest E (hops ! (k - 1)) = Inr dk)"
proof (induction hops arbitrary: i d cache k)
  case (Cons s rest)
  obtain cache1 d' where s: "hop_passes E c V now maxTTL skew i d s" "SignedHopDigest E s = Inr d'"
    and r: "verifyHops E c V now maxTTL skew (i + 1) d' rest cache1 = (None, cache')"
    using Cons.prems(1) by (auto simp: verifyHops_Cons)
  show ?case
  proof (cases k)
    case 0
    with s show ?thesis by simp
  next
    case (Suc j)
    with Cons.prems(2) have "j < length rest" by simp
    from Cons.IH [OF r this] obtain dk where "hop_passes E c V now maxTTL skew (i + k) dk (rest ! j)"
      "if j = 0 then dk = d' else SignedHopDigest E (rest ! (j - 1)) = Inr dk" using Suc by auto
    with Suc s(2) show ?thesis by (cases j) auto
  qed
qed simp

lemma Verify_None:
  "Verify E clock ctx chain (Some V) opts = (None, cache') \<longleftrightarrow>
     (\<exists>index. CurrentIndex ctx = Inr index \<and> 0 < index \<and> chVersion chain = ChainVersion
        \<and> length (chHops chain) = index \<and> index \<le> MaxHops
        \<and> verifyHops E (NodeContext_Normalized ctx) V (hop_now clock opts) (hop_maxTTL opts) (hop_skew opts) 0 []
            (chHops chain) (hvReplayCache opts) = (None, cache')
        \<and> hToNode (shHop (last (chHops chain))) = ncCurrentNode (NodeContext_Normalized ctx))"
  by (auto simp: Verify_def Let_def not_less split: sum.splits option.splits prod.splits if_splits)

lemma hopError_None:
  "hopError c now maxTTL skew i d p h = None \<longleftrightarrow>
     p = ncNodes c ! i \<and> hFromNode h = ncNodes c ! i \<and> hToNode h = ncNodes c ! (i + 1)
     \<and> hHopIndex h = int i + 1 \<and> hRootNode h = ncNodes c ! 0 \<and> hChainID h = ncChainID c
     \<and> hChainSHA256 h = ncChainSHA256 c \<and> hParentHopSHA256 h = d
     \<and> (i = 0 \<longleftrightarrow> hParentSessionBinding h = [])
     \<and> 0 < hIssuedAtUnix h \<and> hIssuedAtUnix h < hExpiresAtUnix h
     \<and> ttlDuration (hIssuedAtUnix h) (hExpiresAtUnix h) \<le> maxTTL
     \<and> hIssuedAtUnix h \<le> go_unix (now + skew) \<and> go_unix (now - skew) < hExpiresAtUnix h"
  by (auto simp: hopError_def Let_def not_le not_less)

lemma hop_passes_from:
  "hop_passes E c V now maxTTL skew i d s \<Longrightarrow> TrimSpace (hFromNode (shHop s)) = ncNodes c ! i"
  by (simp add: hop_passes_def hopError_None)

text \<open>
  C40: A chain that verifies is the path to the current node: it has one record per step from the
  root, record \<open>k\<close> is signed by node \<open>k\<close> over exactly its normalised content and leads to node
  \<open>k + 1\<close> of the same chain, it names the digest of the record before it, and the time is within its
  validity, up to the allowed skew.
\<close>

theorem verified_chain_sound:
  assumes "Verify E clock ctx chain (Some V) opts = (None, cache')"
  shows "CurrentIndex ctx = Inr (length (chHops chain)) \<and> chHops chain \<noteq> []
    \<and> (\<forall>k < length (chHops chain).
         shPrincipal (chHops chain ! k) = ncNodes (NodeContext_Normalized ctx) ! k
         \<and> TrimSpace (hFromNode (shHop (chHops chain ! k))) = ncNodes (NodeContext_Normalized ctx) ! k
         \<and> TrimSpace (hToNode (shHop (chHops chain ! k))) = ncNodes (NodeContext_Normalized ctx) ! (k + 1)
         \<and> TrimSpace (hChainID (shHop (chHops chain ! k))) = ncChainID (NodeContext_Normalized ctx)
         \<and> (\<exists>message signature. marshalHop E (normalizeHop (shHop (chHops chain ! k))) = Some message
              \<and> b64Decode (shSignature (chHops chain ! k)) = Some signature
              \<and> V (ncNodes (NodeContext_Normalized ctx) ! k) message signature)
         \<and> (0 < k \<longrightarrow> SignedHopDigest E (chHops chain ! (k - 1))
                       = Inr (ToLower (TrimSpace (hParentHopSHA256 (shHop (chHops chain ! k))))))
         \<and> hIssuedAtUnix (shHop (chHops chain ! k)) \<le> go_unix (hop_now clock opts + hop_skew opts)
         \<and> go_unix (hop_now clock opts - hop_skew opts) < hExpiresAtUnix (shHop (chHops chain ! k)))"
proof -
  from assms have i: "CurrentIndex ctx = Inr (length (chHops chain))" "0 < length (chHops chain)"
    and v: "verifyHops E (NodeContext_Normalized ctx) V (hop_now clock opts) (hop_maxTTL opts) (hop_skew opts) 0 []
            (chHops chain) (hvReplayCache opts) = (None, cache')"
    by (auto simp: Verify_None)
  show ?thesis
  proof (intro conjI allI impI)
    show "CurrentIndex ctx = Inr (length (chHops chain))" "chHops chain \<noteq> []" using i by simp_all
    fix k
    assume k: "k < length (chHops chain)"
    let ?s = "chHops chain ! k"
    from verifyHops_nth [OF v k] obtain d where
      p: "hop_passes E (NodeContext_Normalized ctx) V (hop_now clock opts) (hop_maxTTL opts) (hop_skew opts) k d ?s"
      and d: "if k = 0 then d = [] else SignedHopDigest E (chHops chain ! (k - 1)) = Inr d" by auto
    note h = conjunct1 [OF p [unfolded hop_passes_def], unfolded hopError_None, simplified]
    show "\<exists>message signature. marshalHop E (normalizeHop (shHop ?s)) = Some message
              \<and> b64Decode (shSignature ?s) = Some signature
              \<and> V (ncNodes (NodeContext_Normalized ctx) ! k) message signature"
      using conjunct2 [OF p [unfolded hop_passes_def]] h
      by (auto simp: CanonicalHopBytes_def Let_def split: option.splits)
    show "SignedHopDigest E (chHops chain ! (k - 1)) = Inr (ToLower (TrimSpace (hParentHopSHA256 (shHop ?s))))" if "0 < k"
      using that d h by simp
    from h show "shPrincipal ?s = ncNodes (NodeContext_Normalized ctx) ! k"
      "TrimSpace (hFromNode (shHop ?s)) = ncNodes (NodeContext_Normalized ctx) ! k"
      "TrimSpace (hToNode (shHop ?s)) = ncNodes (NodeContext_Normalized ctx) ! (k + 1)"
      "TrimSpace (hChainID (shHop ?s)) = ncChainID (NodeContext_Normalized ctx)"
      "hIssuedAtUnix (shHop ?s) \<le> go_unix (hop_now clock opts + hop_skew opts)"
      "go_unix (hop_now clock opts - hop_skew opts) < hExpiresAtUnix (shHop ?s)"
      by simp_all
  qed
qed

lemma verifyIncoming_Inr:
  "verifyIncomingRecursiveHop E clock ctx encoded wvOrigin verifier now = Inr v \<longleftrightarrow>
     (\<exists>chain cache'. Decode E encoded = Inr chain
        \<and> Verify E clock ctx chain verifier (attach_options now) = (None, cache')
        \<and> ImmediatePrevious chain = Inr (TrimSpace wvOrigin)
        \<and> v = \<lparr>vrChain = chain, vrPreviousNode = TrimSpace wvOrigin, vrDepth = length (chHops chain)\<rparr>)"
proof -
  have d: "Decode E (TrimSpace encoded) = Decode E encoded" by (simp add: Decode_def)
  show ?thesis
  proof (cases "Decode E encoded")
    case (Inr chain)
    obtain r c where v: "Verify E clock ctx chain verifier (attach_options now) = (r, c)" by fastforce
    show ?thesis
      by (cases r; cases "ImmediatePrevious chain") (auto simp: verifyIncomingRecursiveHop_def d Inr v)
  qed (simp add: verifyIncomingRecursiveHop_def d)
qed

text \<open>
  A node that accepts an incoming chain knows its predecessor: the previous node it records is
  the node before it in the signed topology, it is the value of \<open>WVORIGIN\<close>, and the depth is the
  node's own position.
\<close>

theorem attach_names_predecessor:
  assumes "verifyIncomingRecursiveHop E clock ctx encoded wvOrigin (Some V) now = Inr v"
  shows "PreviousNode ctx = Inr (vrPreviousNode v) \<and> TrimSpace wvOrigin = vrPreviousNode v
    \<and> CurrentIndex ctx = Inr (vrDepth v) \<and> Decode E encoded = Inr (vrChain v)"
proof -
  obtain chain cache' where d: "Decode E encoded = Inr chain"
    and v: "Verify E clock ctx chain (Some V) (attach_options now) = (None, cache')"
    and o: "ImmediatePrevious chain = Inr (TrimSpace wvOrigin)"
    and r: "v = \<lparr>vrChain = chain, vrPreviousNode = TrimSpace wvOrigin, vrDepth = length (chHops chain)\<rparr>"
    using assms unfolding verifyIncoming_Inr by blast
  let ?n = "length (chHops chain)"
  from v have i: "CurrentIndex ctx = Inr ?n" "0 < ?n"
    and w: "verifyHops E (NodeContext_Normalized ctx) V (hop_now clock (attach_options now))
      (hop_maxTTL (attach_options now))
      (hop_skew (attach_options now)) 0 []
            (chHops chain) (Some []) = (None, cache')"
    by (auto simp: Verify_None attach_options_def)
  have "?n - 1 < ?n" using i(2) by simp
  from verifyHops_nth [OF w this] obtain d where "hop_passes E (NodeContext_Normalized ctx) V (hop_now clock (attach_options now))
      (hop_maxTTL (attach_options now)) (hop_skew (attach_options now)) (?n - 1) d (chHops chain ! (?n - 1))" by auto
  from hop_passes_from [OF this] i(2)
  have "TrimSpace (hFromNode (shHop (last (chHops chain)))) = ncNodes (NodeContext_Normalized ctx) ! (?n - 1)"
    by (simp add: last_conv_nth)
  moreover have "hFromNode (shHop (last (chHops chain))) = TrimSpace wvOrigin"
    using o by (auto simp: ImmediatePrevious_def split: if_splits)
  ultimately have "TrimSpace wvOrigin = ncNodes (NodeContext_Normalized ctx) ! (?n - 1)" by simp
  then show ?thesis using i d r by (simp add: PreviousNode_def)
qed

section \<open>Signing the next hop\<close>

text \<open>
  The context of the next node, as \<open>PrepareRecursiveHop\<close> builds it to check what it has just signed.
\<close>

definition nextContext :: "NodeContext \<Rightarrow> string \<Rightarrow> NodeContext" where
  "nextContext ctx nextNode = (NodeContext_Normalized ctx)\<lparr>ncCurrentNode := nextNode\<rparr>"

lemma Normalized_current:
  "NodeContext_Normalized (c\<lparr>ncCurrentNode := x\<rparr>) = (NodeContext_Normalized c)\<lparr>ncCurrentNode := TrimSpace x\<rparr>"
  by (simp add: NodeContext_Normalized_def Let_def)

lemma Validate_current:
  assumes "NodeContext_Validate c = None" "TrimSpace x \<noteq> []" "TrimSpace x \<in> set (ncNodes (NodeContext_Normalized c))"
  shows "NodeContext_Validate (c\<lparr>ncCurrentNode := x\<rparr>) = None"
  using assms unfolding NodeContext_Validate_def Let_def guards
  by (elim conjE) (simp add: Normalized_current nodeInContext_def list_ex_iff)

lemma nextContext_index:
  assumes "CurrentIndex ctx = Inr i" "NextNode ctx = Inr node"
  shows "CurrentIndex (nextContext ctx node) = Inr (i + 1)"
    "ncNodes (NodeContext_Normalized (nextContext ctx node)) = ncNodes (NodeContext_Normalized ctx)"
    "ncCurrentNode (NodeContext_Normalized (nextContext ctx node)) = node"
    "ncChainID (NodeContext_Normalized (nextContext ctx node)) = ncChainID (NodeContext_Normalized ctx)"
    "ncChainSHA256 (NodeContext_Normalized (nextContext ctx node)) = ncChainSHA256 (NodeContext_Normalized ctx)"
    "node = ncNodes (NodeContext_Normalized ctx) ! (i + 1)" "i + 1 < length (ncNodes (NodeContext_Normalized ctx))"
proof -
  let ?n = "NodeContext_Normalized ctx"
  show n: "node = ncNodes ?n ! (i + 1)" "i + 1 < length (ncNodes ?n)"
    using assms by (simp_all add: NextNode_def Let_def split: if_splits)
  note t = node_trimmed [OF n(2), folded n(1)]
  have m: "node \<in> set (ncNodes ?n)" using n by simp
  have x: "NodeContext_Normalized (nextContext ctx node) = (NodeContext_Normalized ?n)\<lparr>ncCurrentNode := node\<rparr>"
    by (simp add: nextContext_def Normalized_current t)
  then show f: "ncNodes (NodeContext_Normalized (nextContext ctx node)) = ncNodes ?n"
    "ncCurrentNode (NodeContext_Normalized (nextContext ctx node)) = node"
    "ncChainID (NodeContext_Normalized (nextContext ctx node)) = ncChainID ?n"
    "ncChainSHA256 (NodeContext_Normalized (nextContext ctx node)) = ncChainSHA256 ?n" by simp_all
  have "NodeContext_Validate ((NodeContext_Normalized ?n)\<lparr>ncCurrentNode := node\<rparr>) = None"
    by (rule Validate_current) (use CurrentIndex_Inr(3) [OF assms(1)] t m in simp_all)
  moreover have "nodeIndex node 0 (ncNodes ?n) = Some (i + 1)"
    using nodeIndex_nth [OF CurrentIndex_Inr(4) [OF assms(1)] n(2), of 0] n(1) by simp
  ultimately show "CurrentIndex (nextContext ctx node) = Inr (i + 1)"
    unfolding CurrentIndex_def Let_def f by (simp add: x)
qed

text \<open>The loop reads only the nodes and the chain of its context, and it goes through a prefix first.\<close>

lemma verifyHops_context:
  assumes "ncNodes c = ncNodes c'" "ncChainID c = ncChainID c'" "ncChainSHA256 c = ncChainSHA256 c'"
    and "verifyHops E c V now maxTTL skew i d hops cache = (None, cache')"
  shows "verifyHops E c' V now maxTTL skew i d hops cache = (None, cache')"
proof -
  have h: "hopError c = hopError c'" unfolding hopError_def assms(1-3) by simp
  have "hop_passes E c = hop_passes E c'" by (intro ext) (simp add: hop_passes_def h)
  with assms(4) show ?thesis
    by (induction hops arbitrary: i d cache) (auto simp: verifyHops_Cons)
qed

lemma verifyHops_snoc:
  assumes "verifyHops E c V now maxTTL skew i d hops cache = (None, cache1)"
    and "if hops = [] then d' = d else SignedHopDigest E (last hops) = Inr d'"
    and "verifyHops E c V now maxTTL skew (i + length hops) d' [s] cache1 = (None, cache2)"
  shows "verifyHops E c V now maxTTL skew i d (hops @ [s]) cache = (None, cache2)"
  using assms
proof (induction hops arbitrary: i d cache)
  case (Cons x hops)
  from Cons.prems(1) obtain c1 d1 where x: "hop_passes E c V now maxTTL skew i d x"
    "CheckAndStore (TrimSpace (hNonce (shHop x))) (hExpiresAtUnix (shHop x)) now cache = (None, c1)"
    "SignedHopDigest E x = Inr d1" "verifyHops E c V now maxTTL skew (i + 1) d1 hops c1 = (None, cache1)"
    by (auto simp: verifyHops_Cons)
  have "verifyHops E c V now maxTTL skew (i + 1) d1 (hops @ [s]) c1 = (None, cache2)"
    by (rule Cons.IH [OF x(4)]) (use Cons.prems(2,3) x(3) in \<open>auto split: if_splits\<close>)
  with x show ?case by (auto simp: verifyHops_Cons)
qed simp

lemma SignedHopDigest_hex:
  assumes "\<And>b. isLowerHexSHA256 (hopSHA256 E b)" "SignedHopDigest E s = Inr d"
  shows "ToLower (TrimSpace d) = d"
  using assms by (auto simp: SignedHopDigest_def Let_def lower_hex_normal split: if_splits option.splits)

text \<open>What \<open>Append\<close> returns.\<close>

lemma signHop_Inr:
  "signHop E rand c i hops d binding ttl now sign = Inr chain \<longleftrightarrow>
     (\<exists>raw message signature. rand = Some raw \<and> length hops < MaxHops
        \<and> CanonicalHopBytes E (newHop c i d binding (b64Encode raw) ttl now) = Inr message
        \<and> sign (ncCurrentNode c) message = Some signature \<and> signature \<noteq> []
        \<and> chain = \<lparr>chVersion = ChainVersion, chHops = hops @
            [\<lparr>shPrincipal = ncCurrentNode c, shHop = newHop c i d binding (b64Encode raw) ttl now,
              shSignature = b64Encode signature\<rparr>]\<rparr>)"
proof -
  have f: "hFromNode (newHop c i d binding n ttl now) = ncCurrentNode c" for n by (simp add: newHop_def)
  show ?thesis
    by (auto simp: signHop_def randomNonce_def Let_def f not_less split: option.splits sum.splits if_splits)
qed

lemma Append_Inr:
  assumes "Append E clock rand ctx parent binding ttl now (Some sign) = Inr chain"
  obtains i node d binding' ttl' now' where
    "CurrentIndex ctx = Inr i" "NextNode ctx = Inr node" "length (chHops parent) = i"
    "i = 0 \<longleftrightarrow> TrimSpace binding' = []"
    "if chHops parent = [] then d = [] else SignedHopDigest E (last (chHops parent)) = Inr d"
    "signHop E rand (NodeContext_Normalized ctx) i (chHops parent) d binding' ttl' now' sign = Inr chain"
proof -
  obtain i where i: "CurrentIndex ctx = Inr i" using assms by (auto simp: Append_def Let_def split: sum.splits)
  have g: "i + 1 < length (ncNodes (NodeContext_Normalized ctx))" "length (chHops parent) = i"
    "\<not> (0 < i \<and> TrimSpace binding = [])"
    using assms by (auto simp: Append_def Let_def i not_le split: if_splits)
  have e: "chHops (if i = 0 then \<lparr>chVersion = ChainVersion, chHops = []\<rparr> else parent) = chHops parent"
    using g(2) by auto
  obtain d where d: "(if 0 < length (chHops parent) then SignedHopDigest E (last (chHops parent)) else Inr []) = Inr d"
    using assms g by (cases "if 0 < length (chHops parent) then SignedHopDigest E (last (chHops parent)) else Inr []")
      (auto simp: Append_def Let_def i e split: if_splits)
  have "signHop E rand (NodeContext_Normalized ctx) i (chHops parent) d (if i = 0 then [] else binding)
      (if ttl \<le> 0 then 300 * go_second else ttl) (if now = 0 then clock else now) sign = Inr chain"
    using assms g d by (cases "chHops parent = []") (auto simp: Append_def Let_def i split: if_splits)
  then show thesis
    by (rule that [rotated -1]) (use i g d in \<open>auto simp: NextNode_def\<close>)
qed

lemma new_hop_normal:
  assumes i: "CurrentIndex ctx = Inr i" and n: "NextNode ctx = Inr node" and d: "ToLower (TrimSpace d) = d"
  shows "normalizeHop (newHop (NodeContext_Normalized ctx) i d binding (b64Encode raw) ttl now)
    = newHop (NodeContext_Normalized ctx) i d binding (b64Encode raw) ttl now"
proof (rule Hop.equality)
  let ?h = "newHop (NodeContext_Normalized ctx) i d binding (b64Encode raw) ttl now"
  note k = nextContext_index(7) [OF i n]
  have t: "TrimSpace (ncNodes (NodeContext_Normalized ctx) ! j) = ncNodes (NodeContext_Normalized ctx) ! j" if "j \<le> i + 1" for j
    using node_trimmed(1) that k by simp
  show "hRootNode (normalizeHop ?h) = hRootNode ?h" "hToNode (normalizeHop ?h) = hToNode ?h"
    by (simp_all add: newHop_def t)
  show "hVersion (normalizeHop ?h) = hVersion ?h" by (simp add: newHop_def)
qed (simp_all add: newHop_def d NodeContext_Normalized_sel)

text \<open>
  What a node signs, its successor verifies: if a verifier accepts the parent chain at the
  current node, then the chain \<open>Append\<close> returns there is accepted at the next node, within the new
  record's validity and as long as its nonce is not in the replay cache.
\<close>

theorem appended_chain_verifies:
  assumes "\<forall>who message signature. sign who message = Some signature \<longrightarrow> V who message signature"
    and "\<forall>b. isLowerHexSHA256 (hopSHA256 E b)" "\<forall>s. marshalSignedHop E s \<noteq> None"
    and "Append E clock rand ctx parent binding ttl now (Some sign) = Inr chain" "NextNode ctx = Inr node"
    and "if chHops parent = [] then cache1 = hvReplayCache opts
         else Verify E clock' ctx parent (Some V) opts = (None, cache1)"
    and "h = shHop (last (chHops chain))" "0 < hIssuedAtUnix h"
    and "ttlDuration (hIssuedAtUnix h) (hExpiresAtUnix h) \<le> hop_maxTTL opts"
    and "hIssuedAtUnix h \<le> go_unix (hop_now clock' opts + hop_skew opts)"
    and "go_unix (hop_now clock' opts - hop_skew opts) < hExpiresAtUnix h"
    and "CheckAndStore (hNonce h) (hExpiresAtUnix h) (hop_now clock' opts) cache1 = (None, cache2)"
  shows "Verify E clock' (nextContext ctx node) chain (Some V) opts = (None, cache2)"
proof -
  from assms(4) obtain i d binding' ttl' now' where i: "CurrentIndex ctx = Inr i" "length (chHops parent) = i"
    and b: "i = 0 \<longleftrightarrow> TrimSpace binding' = []"
    and d: "if chHops parent = [] then d = [] else SignedHopDigest E (last (chHops parent)) = Inr d"
    and s: "signHop E rand (NodeContext_Normalized ctx) i (chHops parent) d binding' ttl' now' sign = Inr chain"
    by (rule Append_Inr)
  let ?n = "NodeContext_Normalized ctx"
  from s obtain raw message signature where m: "length (chHops parent) < MaxHops"
      "CanonicalHopBytes E (newHop ?n i d binding' (b64Encode raw) ttl' now') = Inr message"
      "sign (ncCurrentNode ?n) message = Some signature" "signature \<noteq> []"
    and chain: "chain = \<lparr>chVersion = ChainVersion, chHops = chHops parent @
       [\<lparr>shPrincipal = ncCurrentNode ?n, shHop = newHop ?n i d binding' (b64Encode raw) ttl' now',
         shSignature = b64Encode signature\<rparr>]\<rparr>"
    by (auto simp: signHop_Inr)
  let ?s = "\<lparr>shPrincipal = ncCurrentNode ?n, shHop = newHop ?n i d binding' (b64Encode raw) ttl' now', shSignature = b64Encode signature\<rparr>"
  have h: "h = newHop ?n i d binding' (b64Encode raw) ttl' now'" using assms(7) by (simp add: chain)
  note x = nextContext_index [OF i(1) assms(5)]
  have d': "ToLower (TrimSpace d) = d"
    using d SignedHopDigest_hex [of E] assms(2) by (auto simp: ToLower_def split: if_splits)
  note nf = new_hop_normal [OF i(1) assms(5) d', of binding' raw ttl' now', folded h]
  have cur: "ncNodes ?n ! i = ncCurrentNode ?n" "i < length (ncNodes ?n)" by (rule CurrentIndex_Inr [OF i(1)])+
  have val: "hIssuedAtUnix h < hExpiresAtUnix h"
    using m(2) unfolding h [symmetric] by (auto simp: CanonicalHopBytes_def nf validateHop_def Let_def split: if_splits)
  have "hop_passes E ?n V (hop_now clock' opts) (hop_maxTTL opts) (hop_skew opts) i d ?s"
    unfolding hop_passes_def hopError_None
    using assms(1,8-11) m(2-4) val b x(6) cur
    by (auto simp: nf h [symmetric]) (auto simp: h newHop_def)
  moreover have "\<exists>e. SignedHopDigest E ?s = Inr e"
    using assms(3) node_trimmed [OF cur(2)] m(4) by (auto simp: SignedHopDigest_def Let_def cur split: option.split)
  moreover have "CheckAndStore (TrimSpace (hNonce h)) (hExpiresAtUnix h) (hop_now clock' opts) cache1 = (None, cache2)"
    using assms(12) arg_cong [OF nf, of hNonce] by simp
  ultimately have last: "verifyHops E ?n V (hop_now clock' opts) (hop_maxTTL opts) (hop_skew opts) (0 + length (chHops parent)) d [?s] cache1
      = (None, cache2)"
    by (auto simp: verifyHops_Cons h i(2))
  have "verifyHops E ?n V (hop_now clock' opts) (hop_maxTTL opts) (hop_skew opts) 0 [] (chHops parent) (hvReplayCache opts)
      = (None, cache1)"
    using assms(6) by (auto simp: Verify_None split: if_splits)
  from verifyHops_snoc [OF this d last] have "verifyHops E (NodeContext_Normalized (nextContext ctx node)) V
      (hop_now clock' opts) (hop_maxTTL opts) (hop_skew opts) 0 [] (chHops chain) (hvReplayCache opts) = (None, cache2)"
    unfolding chain Chain.simps by (rule verifyHops_context [rotated -1]) (simp_all add: x(2-5))
  moreover have "hToNode h = node" by (simp add: h newHop_def x(6))
  ultimately show ?thesis
    using m(1) i(2) by (auto simp: Verify_None x(1-5) chain h)
qed

section \<open>Replay of hops\<close>

lemma CheckAndStore_Some:
  "CheckAndStore n e now (Some seen) =
     (if fst (cache_check n e now seen) then None else Some ErrReplay, Some (snd (cache_check n e now seen)))"
  by (simp add: cache_check_eq CheckAndStore_def Let_def)

text \<open>A nonce on record stays there during a verification, and stops a chain that has it.\<close>

lemma verifyHops_record:
  assumes "map_of seen n = Some e" "go_unix now < e"
    and "verifyHops E c V now maxTTL skew i d hops (Some seen) = (None, cache')"
  shows "(\<exists>seen'. cache' = Some seen' \<and> map_of seen' n = Some e)
    \<and> (\<forall>s \<in> set hops. TrimSpace (hNonce (shHop s)) \<noteq> n)"
  using assms(1,3)
proof (induction hops arbitrary: i d seen)
  case (Cons s hops)
  let ?n = "TrimSpace (hNonce (shHop s))" and ?e = "hExpiresAtUnix (shHop s)"
  from Cons.prems(2) obtain d' where f: "fst (cache_check ?n ?e now seen)"
    and r: "verifyHops E c V now maxTTL skew (i + 1) d' hops (Some (snd (cache_check ?n ?e now seen))) = (None, cache')"
    by (auto simp: verifyHops_Cons CheckAndStore_Some split: if_splits)
  have "?n \<noteq> n" using nonces.refused [OF Cons.prems(1) assms(2)] f by metis
  with Cons.IH [OF nonces.kept [OF Cons.prems(1) assms(2)] r] show ?case by simp
qed auto

lemma verifyHops_stores:
  assumes "verifyHops E c V now maxTTL skew i d hops (Some seen) = (None, cache')" "s \<in> set hops"
    and "go_unix now < hExpiresAtUnix (shHop s)"
  shows "\<exists>seen'. cache' = Some seen' \<and> map_of seen' (TrimSpace (hNonce (shHop s))) = Some (hExpiresAtUnix (shHop s))"
  using assms(1,2)
proof (induction hops arbitrary: i d seen)
  case (Cons x hops)
  let ?n = "TrimSpace (hNonce (shHop x))" and ?e = "hExpiresAtUnix (shHop x)"
  from Cons.prems(1) obtain d' where f: "fst (cache_check ?n ?e now seen)"
    and r: "verifyHops E c V now maxTTL skew (i + 1) d' hops (Some (snd (cache_check ?n ?e now seen))) = (None, cache')"
    by (auto simp: verifyHops_Cons CheckAndStore_Some split: if_splits)
  show ?case
  proof (cases "s = x")
    case True
    have "map_of (snd (cache_check ?n ?e now seen)) ?n = Some ?e"
      by (rule nonces.stored [of _ _ now seen]) (use f in \<open>simp add: prod_eq_iff\<close>)
    from verifyHops_record [OF this _ r] assms(3) True show ?thesis by simp
  qed (use Cons.IH [OF r] Cons.prems(2) in simp)
qed simp

text \<open>
  With a replay cache and no clock skew a signed hop is accepted once: after a chain was
  accepted, every chain with a record that has the nonce of one of its records is refused until
  that record expires, whoever verifies it with that cache.
\<close>

theorem hop_accepted_once:
  assumes "Verify E clock ctx chain (Some V) opts = (None, cache')" "hvReplayCache opts = Some seen"
    and "hvClockSkew opts \<le> 0" "s \<in> set (chHops chain)"
    and "hvReplayCache opts' = cache'" "go_unix (hop_now clock' opts') < hExpiresAtUnix (shHop s)"
    and "s' \<in> set (chHops chain')" "TrimSpace (hNonce (shHop s')) = TrimSpace (hNonce (shHop s))"
  shows "fst (Verify E' clock' ctx' chain' (Some V') opts') \<noteq> None"
proof
  assume "fst (Verify E' clock' ctx' chain' (Some V') opts') = None"
  then obtain c2 where second: "verifyHops E' (NodeContext_Normalized ctx') V' (hop_now clock' opts') (hop_maxTTL opts')
      (hop_skew opts') 0 [] (chHops chain') cache' = (None, c2)"
    using assms(5) by (metis Verify_None prod.collapse)
  have first: "verifyHops E (NodeContext_Normalized ctx) V (hop_now clock opts) (hop_maxTTL opts) (hop_skew opts) 0 []
      (chHops chain) (Some seen) = (None, cache')"
    using assms(1,2) by (auto simp: Verify_None)
  obtain k where k: "k < length (chHops chain)" "chHops chain ! k = s" using assms(4) by (auto simp: in_set_conv_nth)
  have "go_unix (hop_now clock opts) < hExpiresAtUnix (shHop s)"
    using verifyHops_nth [OF first k(1)] assms(3) k(2)
    by (auto simp: hop_passes_def hopError_None hop_skew_def split: if_splits)
  from verifyHops_stores [OF first assms(4) this] obtain seen' where
    "cache' = Some seen'" "map_of seen' (TrimSpace (hNonce (shHop s))) = Some (hExpiresAtUnix (shHop s))" by blast
  with verifyHops_record [OF this(2) assms(6)] second assms(7,8) show False by metis
qed

section \<open>The transport form\<close>

text \<open>
  A chain survives its environment variable: what \<open>Encode\<close> returns, \<open>Decode\<close> reads back as the
  same chain, also with white space around it, provided JSON reads back what it wrote.
\<close>

theorem hop_chain_roundtrip:
  assumes "Encode E chain = Inr encoded"
    and "\<forall>payload. marshalChain E chain = Some payload \<longrightarrow> payload \<noteq> [] \<and> unmarshalChain E payload = Some chain"
    and "TrimSpace received = encoded"
  shows "Decode E received = Inr chain"
proof -
  obtain payload where p: "marshalChain E chain = Some payload" "encoded = b64Encode payload"
      "length encoded \<le> MaxEncodedBytes"
    and c: "chVersion chain = ChainVersion" "chHops chain \<noteq> []" "length (chHops chain) \<le> MaxHops"
    using assms(1) by (auto simp: Encode_def Let_def not_less split: if_splits option.splits)
  then have "encoded \<noteq> []" "b64Decode encoded = Some payload" "unmarshalChain E payload = Some chain"
    using assms(2) by simp_all
  with p(3) c show ?thesis by (simp add: Decode_def Let_def assms(3) not_less)
qed

section \<open>A concrete chain\<close>

text \<open>The first hop of the topology \<open>client\<close>, \<open>gate\<close>, \<open>host\<close>, with stand-ins for the parameters.\<close>

definition demo_root :: NodeContext where
  "demo_root = (demo_context AudienceNodeContext)\<lparr>ncCurrentNode := ''client''\<rparr>"

definition demo_gate :: NodeContext where
  "demo_gate = demo_context AudienceNodeContext"

definition demo_sign :: hop_signer where
  "demo_sign who message = Some (1 # message)"

definition demo_verify :: hop_verifier where
  "demo_verify who message signature = (signature = 1 # message)"

definition demo_hop :: Hop where
  "demo_hop =
     \<lparr>hVersion = HopVersion, hChainID = ''c1'', hChainSHA256 = replicate 64 (CHR ''b''), hRootNode = ''client'',
      hFromNode = ''client'', hToNode = ''gate'', hHopIndex = 1, hParentHopSHA256 = [], hParentSessionBinding = [],
      hNonce = b64Encode [7], hIssuedAtUnix = 1000, hExpiresAtUnix = 1060\<rparr>"

definition demo_hop_chain :: Chain where
  "demo_hop_chain =
     \<lparr>chVersion = ChainVersion,
      chHops = [\<lparr>shPrincipal = ''client'', shHop = demo_hop, shSignature = b64Encode [1, 7]\<rparr>]\<rparr>"

definition demo_hop_env :: hop_env where
  "demo_hop_env =
     \<lparr>marshalHop = (\<lambda>h. b64Decode (hNonce h)), marshalSignedHop = (\<lambda>s. Some [2]), marshalChain = (\<lambda>c. Some [3]),
      unmarshalChain = (\<lambda>b. if b = [3] then Some demo_hop_chain else None), hopSHA256 = (\<lambda>b. replicate 64 (CHR ''a''))\<rparr>"

definition demo_hop_options :: "go_time \<Rightarrow> go_duration \<Rightarrow> NonceCache option \<Rightarrow> HopVerifyOptions" where
  "demo_hop_options unix skew cache =
     \<lparr>hvNow = (62135596800 + unix) * go_second, hvMaxTTL = 600 * go_second, hvClockSkew = skew * go_second,
      hvReplayCache = cache\<rparr>"

lemma demo_gate_normal: "NodeContext_Normalized demo_gate = demo_gate"
  by (simp add: demo_gate_def demo_context_normal audience_default)

lemma demo_root_normal: "NodeContext_Normalized demo_root = demo_root"
  by (simp add: demo_root_def Normalized_current demo_context_normal audience_default demo_node_strings)

lemma demo_nodes: "ncNodes demo_gate = [''client'', ''gate'', ''host'']" "ncNodes demo_root = [''client'', ''gate'', ''host'']"
  "ncCurrentNode demo_gate = ''gate''" "ncCurrentNode demo_root = ''client''"
  "ncChainID demo_gate = ''c1''" "ncChainID demo_root = ''c1''"
  "ncChainSHA256 demo_gate = replicate 64 (CHR ''b'')" "ncChainSHA256 demo_root = replicate 64 (CHR ''b'')"
  by (simp_all add: demo_gate_def demo_root_def demo_context_def)

lemma demo_gate_index: "CurrentIndex demo_gate = Inr 1"
proof -
  have "NodeContext_Validate demo_gate = None"
    by (simp add: demo_gate_def demo_context_valid audience_default)
  then show ?thesis by (simp add: CurrentIndex_def demo_gate_normal demo_nodes)
qed

lemma demo_root_index: "CurrentIndex demo_root = Inr 0" "NextNode demo_root = Inr ''gate''"
proof -
  have "NodeContext_Validate demo_root = None"
    unfolding demo_root_def
    by (rule Validate_current) (simp_all add: demo_context_valid audience_default demo_node_strings demo_context_normal,
        simp add: demo_context_def)
  then show "CurrentIndex demo_root = Inr 0" by (simp add: CurrentIndex_def demo_root_normal demo_nodes)
  then show "NextNode demo_root = Inr ''gate''" by (simp add: NextNode_def demo_root_normal demo_nodes)
qed

lemma demo_hop_normal: "normalizeHop demo_hop = demo_hop"
  by (rule Hop.equality)
     (simp_all add: demo_hop_def HopVersion_def demo_node_strings demo_grant_strings ToLower_def [of "[]"] del: replicate.simps)

lemma demo_hop_bytes: "CanonicalHopBytes demo_hop_env demo_hop = Inr [7]"
  by (simp add: CanonicalHopBytes_def demo_hop_normal)
     (simp add: validateHop_def demo_hop_def demo_hop_env_def)

lemma demo_append:
  "Append demo_hop_env 0 (Some [7]) demo_root \<lparr>chVersion = [], chHops = []\<rparr> [] (60 * go_second)
     (62135597800 * go_second) (Some demo_sign) = Inr demo_hop_chain"
proof -
  have h: "newHop demo_root 0 [] [] (b64Encode [7]) (60 * go_second) (62135597800 * go_second) = demo_hop"
    by (simp add: newHop_def demo_hop_def demo_nodes go_unix_def)
  have "signHop demo_hop_env (Some [7]) demo_root 0 [] [] [] (60 * go_second) (62135597800 * go_second) demo_sign
      = Inr demo_hop_chain"
    unfolding signHop_Inr
    by (simp add: h [simplified] demo_hop_bytes demo_nodes demo_sign_def demo_hop_chain_def MaxHops_def)
  then show ?thesis by (simp add: Append_def demo_root_normal demo_root_index demo_nodes)
qed

lemma demo_hop_verifies:
  assumes "1000 \<le> unix + skew" "unix - skew < 1060" "0 < unix" "0 \<le> skew"
    and "CheckAndStore (b64Encode [7]) 1060 ((62135596800 + unix) * go_second) cache = (None, cache')"
  shows "Verify demo_hop_env 0 demo_gate demo_hop_chain (Some demo_verify) (demo_hop_options unix skew cache) = (None, cache')"
proof -
  let ?o = "demo_hop_options unix skew cache"
  have t: "go_unix (hop_now 0 ?o + hop_skew ?o) = unix + skew" "go_unix (hop_now 0 ?o - hop_skew ?o) = unix - skew"
    "hop_now 0 ?o = (62135596800 + unix) * go_second" "hop_maxTTL ?o = 600 * go_second" "hvReplayCache ?o = cache"
    using assms(3,4) by (simp_all add: demo_hop_options_def hop_now_def hop_skew_def hop_maxTTL_def go_unix_def)
  have l: "ttlDuration 1000 1060 \<le> 600 * go_second" by (simp add: ttlDuration_def go_int64_def)
  let ?s = "\<lparr>shPrincipal = ''client'', shHop = demo_hop, shSignature = b64Encode [1, 7]\<rparr>"
  have "hop_passes demo_hop_env demo_gate demo_verify (hop_now 0 ?o) (hop_maxTTL ?o) (hop_skew ?o) 0 [] ?s"
    unfolding hop_passes_def hopError_None t(1,2,4)
    using assms l by (simp add: demo_hop_normal demo_hop_bytes demo_verify_def) (simp add: demo_hop_def demo_nodes)
  moreover have "\<exists>d. SignedHopDigest demo_hop_env ?s = Inr d"
    by (simp add: SignedHopDigest_def demo_hop_env_def demo_node_strings)
  ultimately have "verifyHops demo_hop_env demo_gate demo_verify (hop_now 0 ?o) (hop_maxTTL ?o) (hop_skew ?o) 0 [] [?s] cache
      = (None, cache')"
    using assms(5) by (simp add: verifyHops_Cons t) (simp add: demo_hop_def)
  then show ?thesis
    by (simp add: Verify_None demo_gate_index demo_gate_normal demo_hop_chain_def t MaxHops_def demo_nodes)
       (simp add: demo_hop_def)
qed

theorem verified_chain_sound_witness:
  "Verify demo_hop_env 0 demo_gate demo_hop_chain (Some demo_verify) (demo_hop_options 1030 0 None) = (None, None)
     \<and> CurrentIndex demo_gate = Inr 1 \<and> shPrincipal (chHops demo_hop_chain ! 0) = ''client''
     \<and> demo_verify ''client'' [7] [1, 7]"
proof -
  have v: "Verify demo_hop_env 0 demo_gate demo_hop_chain (Some demo_verify) (demo_hop_options 1030 0 None) = (None, None)"
    by (rule demo_hop_verifies) (simp_all add: CheckAndStore_def)
  have l: "length (chHops demo_hop_chain) = 1" by (simp add: demo_hop_chain_def)
  have "CurrentIndex demo_gate = Inr (length (chHops demo_hop_chain))"
    "shPrincipal (chHops demo_hop_chain ! 0) = ncNodes (NodeContext_Normalized demo_gate) ! 0"
    using verified_chain_sound [OF v] l by simp_all
  then show ?thesis using v l by (simp add: demo_gate_normal demo_nodes demo_verify_def)
qed

theorem appended_chain_verifies_witness:
  "Append demo_hop_env 0 (Some [7]) demo_root \<lparr>chVersion = [], chHops = []\<rparr> [] (60 * go_second)
     (62135597800 * go_second) (Some demo_sign) = Inr demo_hop_chain
   \<and> Verify demo_hop_env 0 (nextContext demo_root ''gate'') demo_hop_chain (Some demo_verify)
       (demo_hop_options 1030 0 (Some [])) = (None, Some [(b64Encode [7], 1060)])"
proof -
  let ?o = "demo_hop_options 1030 0 (Some [])"
  have t: "go_unix (hop_now 0 ?o + hop_skew ?o) = 1030" "go_unix (hop_now 0 ?o - hop_skew ?o) = 1030"
    "hop_maxTTL ?o = 600 * go_second"
    by (simp_all add: demo_hop_options_def hop_now_def hop_skew_def hop_maxTTL_def go_unix_def)
  have f: "hNonce demo_hop = b64Encode [7]" "hIssuedAtUnix demo_hop = 1000" "hExpiresAtUnix demo_hop = 1060"
    by (simp_all add: demo_hop_def)
  have "Verify demo_hop_env 0 (nextContext demo_root ''gate'') demo_hop_chain (Some demo_verify) ?o
      = (None, Some [(b64Encode [7], 1060)])"
  proof (rule appended_chain_verifies [OF _ _ _ demo_append demo_root_index(2), where h = demo_hop and ?cache1.0 = "Some []"])
    show "\<forall>b. isLowerHexSHA256 (hopSHA256 demo_hop_env b)"
      by (simp add: demo_hop_env_def demo_grant_strings del: replicate.simps)
    show "CheckAndStore (hNonce demo_hop) (hExpiresAtUnix demo_hop) (hop_now 0 ?o) (Some []) = (None, Some [(b64Encode [7], 1060)])"
      by (simp add: CheckAndStore_def f)
    show "ttlDuration (hIssuedAtUnix demo_hop) (hExpiresAtUnix demo_hop) \<le> hop_maxTTL ?o"
      by (simp add: f t ttlDuration_def go_int64_def)
  qed (simp_all add: demo_sign_def demo_verify_def demo_hop_env_def demo_hop_chain_def demo_hop_options_def f t
      [unfolded demo_hop_options_def, simplified])
  with demo_append show ?thesis by simp
qed

theorem hop_accepted_once_witness:
  "Verify demo_hop_env 0 demo_gate demo_hop_chain (Some demo_verify) (demo_hop_options 1030 0 (Some []))
     = (None, Some [(b64Encode [7], 1060)])
   \<and> fst (Verify demo_hop_env 0 demo_gate demo_hop_chain (Some demo_verify)
            (demo_hop_options 1059 30 (Some [(b64Encode [7], 1060)]))) \<noteq> None"
proof -
  have v: "Verify demo_hop_env 0 demo_gate demo_hop_chain (Some demo_verify) (demo_hop_options 1030 0 (Some []))
     = (None, Some [(b64Encode [7], 1060)])"
    by (rule demo_hop_verifies) (simp_all add: CheckAndStore_def)
  have "fst (Verify demo_hop_env 0 demo_gate demo_hop_chain (Some demo_verify)
            (demo_hop_options 1059 30 (Some [(b64Encode [7], 1060)]))) \<noteq> None"
    by (rule hop_accepted_once [OF v, where s = "hd (chHops demo_hop_chain)" and s' = "hd (chHops demo_hop_chain)"])
       (simp_all add: demo_hop_options_def demo_hop_chain_def demo_hop_def hop_now_def go_unix_def)
  with v show ?thesis by blast
qed

theorem hop_chain_roundtrip_witness:
  "Encode demo_hop_env demo_hop_chain = Inr (b64Encode [3]) \<and> Decode demo_hop_env (b64Encode [3]) = Inr demo_hop_chain"
proof -
  have e: "Encode demo_hop_env demo_hop_chain = Inr (b64Encode [3])"
    by (simp add: Encode_def demo_hop_env_def demo_hop_chain_def MaxHops_def MaxEncodedBytes_def length_b64Encode)
  have "Decode demo_hop_env (b64Encode [3]) = Inr demo_hop_chain"
    by (rule hop_chain_roundtrip [OF e]) (simp_all add: demo_hop_env_def)
  with e show ?thesis by blast
qed

theorem attach_names_predecessor_witness:
  "\<exists>v. verifyIncomingRecursiveHop demo_hop_env 0 demo_gate (b64Encode [3]) ''client'' (Some demo_verify)
         ((62135596800 + 1030) * go_second) = Inr v
     \<and> PreviousNode demo_gate = Inr (vrPreviousNode v) \<and> vrPreviousNode v = ''client''"
proof -
  have d: "Decode demo_hop_env (b64Encode [3]) = Inr demo_hop_chain"
    by (simp add: Decode_def demo_hop_env_def demo_hop_chain_def MaxHops_def MaxEncodedBytes_def length_b64Encode)
  have "Verify demo_hop_env 0 demo_gate demo_hop_chain (Some demo_verify) (demo_hop_options 1030 0 (Some []))
      = (None, Some [(b64Encode [7], 1060)])"
    by (rule demo_hop_verifies) (simp_all add: CheckAndStore_def)
  then have "Verify demo_hop_env 0 demo_gate demo_hop_chain (Some demo_verify) (attach_options ((62135596800 + 1030) * go_second))
      = (None, Some [(b64Encode [7], 1060)])"
    by (simp add: demo_hop_options_def attach_options_def)
  then obtain v where v: "verifyIncomingRecursiveHop demo_hop_env 0 demo_gate (b64Encode [3]) ''client'' (Some demo_verify)
         ((62135596800 + 1030) * go_second) = Inr v"
    using d by (auto simp: verifyIncoming_Inr ImmediatePrevious_def demo_hop_chain_def demo_hop_def demo_node_strings)
  from attach_names_predecessor [OF v] v show ?thesis by (auto simp: demo_node_strings)
qed

text \<open>
  A hop can be replayed in the skew: a record is accepted until its expiry plus the skew, but the
  replay cache forgets its nonce at its expiry, so in between the same chain is accepted again and
  again.
\<close>

theorem hop_replayed_in_skew:
  "\<exists>cache. Verify demo_hop_env 0 demo_gate demo_hop_chain (Some demo_verify) (demo_hop_options 1070 30 (Some [])) = (None, cache)
     \<and> Verify demo_hop_env 0 demo_gate demo_hop_chain (Some demo_verify) (demo_hop_options 1071 30 cache) = (None, cache)"
proof (intro exI conjI)
  show "Verify demo_hop_env 0 demo_gate demo_hop_chain (Some demo_verify) (demo_hop_options 1070 30 (Some []))
      = (None, Some [(b64Encode [7], 1060)])"
    by (rule demo_hop_verifies) (simp_all add: CheckAndStore_def)
  show "Verify demo_hop_env 0 demo_gate demo_hop_chain (Some demo_verify) (demo_hop_options 1071 30 (Some [(b64Encode [7], 1060)]))
      = (None, Some [(b64Encode [7], 1060)])"
    by (rule demo_hop_verifies) (simp_all add: CheckAndStore_def go_unix_def)
qed

end
