(* ===== verification/Wv_Sort.thy ===== *)
theory Wv_Sort
  imports Wv_Prelude "HOL-Library.Multiset"
begin

text \<open>
  \<open>sort.Slice\<close>. Go documents that it sorts the slice by the given order and that the result may
  place equal elements in any order. Code that sorts takes the sorting function as a parameter
  and relies on \<open>sort_slice\<close> of it, no more. \<open>insertionSort\<close> is what the library runs on slices
  of up to twelve elements; it has the documented property.
\<close>

definition weak_order :: "('a \<Rightarrow> 'a \<Rightarrow> bool) \<Rightarrow> bool" where
  "weak_order lt =
     ((\<forall>a b. lt a b \<longrightarrow> \<not> lt b a) \<and> (\<forall>a b c. \<not> lt b a \<longrightarrow> \<not> lt c b \<longrightarrow> \<not> lt c a))"

definition sort_slice :: "(('a \<Rightarrow> 'a \<Rightarrow> bool) \<Rightarrow> 'a list \<Rightarrow> 'a list) \<Rightarrow> bool" where
  "sort_slice sorter =
     (\<forall>lt xs. weak_order lt \<longrightarrow>
        mset (sorter lt xs) = mset xs \<and> sorted_wrt (\<lambda>a b. \<not> lt b a) (sorter lt xs))"

fun insertBack :: "('a \<Rightarrow> 'a \<Rightarrow> bool) \<Rightarrow> 'a \<Rightarrow> 'a list \<Rightarrow> 'a list" where
  "insertBack lt x [] = [x]"
| "insertBack lt x (y # ys) = (if lt x y then x # y # ys else y # insertBack lt x ys)"

definition insertionSort :: "('a \<Rightarrow> 'a \<Rightarrow> bool) \<Rightarrow> 'a list \<Rightarrow> 'a list" where
  "insertionSort lt xs = fold (insertBack lt) xs []"

lemma mset_insertBack [simp]: "mset (insertBack lt x xs) = add_mset x (mset xs)"
  by (induction xs) auto

lemma set_insertBack [simp]: "set (insertBack lt x xs) = insert x (set xs)"
  by (metis mset_insertBack set_mset_add_mset_insert set_mset_mset)

lemma weak_orderD:
  assumes "weak_order lt"
  shows "lt a b \<Longrightarrow> \<not> lt b a" "\<not> lt b a \<Longrightarrow> \<not> lt c b \<Longrightarrow> \<not> lt c a"
  using assms unfolding weak_order_def by blast+

lemma sort_sliceD:
  assumes "sort_slice sorter" "weak_order lt"
  shows "mset (sorter lt xs) = mset xs" "sorted_wrt (\<lambda>a b. \<not> lt b a) (sorter lt xs)"
  using assms unfolding sort_slice_def by blast+

lemma sorted_insertBack:
  "weak_order lt \<Longrightarrow> sorted_wrt (\<lambda>a b. \<not> lt b a) xs \<Longrightarrow> sorted_wrt (\<lambda>a b. \<not> lt b a) (insertBack lt x xs)"
proof (induction xs)
  case (Cons y ys)
  show ?case
  proof (cases "lt x y")
    case True
    have "\<not> lt z x" if "z \<in> set ys" for z
      using weak_orderD(2) [OF Cons.prems(1), of y x z] weak_orderD(1) [OF Cons.prems(1) True] Cons.prems(2) that
      by simp
    with True Cons.prems(2) weak_orderD(1) [OF Cons.prems(1) True] show ?thesis by simp
  qed (use Cons in auto)
qed simp

lemma sort_slice_insertionSort: "sort_slice insertionSort"
proof -
  have "mset (fold (insertBack lt) xs acc) = mset xs + mset acc" for lt :: "'a \<Rightarrow> 'a \<Rightarrow> bool" and xs acc
    by (induction xs arbitrary: acc) auto
  moreover have "sorted_wrt (\<lambda>a b. \<not> lt b a) (fold (insertBack lt) xs acc)"
    if "weak_order lt" "sorted_wrt (\<lambda>a b. \<not> lt b a) acc" for lt :: "'a \<Rightarrow> 'a \<Rightarrow> bool" and xs acc
    using that(2) by (induction xs arbitrary: acc) (auto intro: sorted_insertBack that(1))
  ultimately show ?thesis by (simp add: sort_slice_def insertionSort_def)
qed

lemma weak_order_key: "weak_order (\<lambda>a b. key a < (key b :: 'k :: linorder))"
  by (auto simp: weak_order_def)

lemma weak_order_key_desc: "weak_order (\<lambda>a b. key b < (key a :: 'k :: linorder))"
  by (auto simp: weak_order_def)

lemma sort_slice_set:
  assumes "sort_slice sorter" "weak_order lt"
  shows "set (sorter lt xs) = set xs" "length (sorter lt xs) = length xs"
  using mset_eq_setD [OF sort_sliceD(1) [OF assms]] mset_eq_length [OF sort_sliceD(1) [OF assms]] by blast+

text \<open>The first element after sorting is a least one.\<close>

lemma sort_slice_hd:
  assumes "sort_slice sorter" "weak_order lt" "xs \<noteq> []"
  shows "hd (sorter lt xs) \<in> set xs" "x \<in> set xs \<Longrightarrow> \<not> lt x (hd (sorter lt xs))"
proof -
  note s = sort_slice_set [OF assms(1,2), of xs]
  have ne: "sorter lt xs \<noteq> []" using s assms(3) by auto
  then obtain y ys where y: "sorter lt xs = y # ys" by (cases "sorter lt xs") auto
  then show "hd (sorter lt xs) \<in> set xs" using s by auto
  have "sorted_wrt (\<lambda>a b. \<not> lt b a) (y # ys)" using sort_sliceD(2) [OF assms(1,2), of xs] y by simp
  moreover have "\<not> lt y y" using weak_orderD(1) [OF assms(2), of y y] by blast
  ultimately show "\<not> lt x (hd (sorter lt xs))" if "x \<in> set xs"
    using that s y by auto
qed

lemma sort_slice_distinct:
  assumes "sort_slice sorter" "weak_order lt"
  shows "distinct (map f (sorter lt xs)) = distinct (map f xs)"
proof -
  have "mset (map f (sorter lt xs)) = mset (map f xs)" using sort_sliceD(1) [OF assms] by simp
  then show ?thesis by (rule mset_eq_imp_distinct_iff)
qed

end
