(* ===== verification/Route_File.thy ===== *)
theory Route_File
  imports Wv_Sort Auth_Node Session_Link
begin

text \<open>
  The files behind the two route stores of \<open>src/sessionroute\<close>: how a registry is read, how the
  lock file is taken, and how a new registry replaces the old one. \<open>Store\<close> (\<open>registry.go\<close>) and
  \<open>LeaseStore\<close> (\<open>lease_store.go\<close>) contain this code twice, for their two entry types; here it is
  written once for an entry type \<open>'e\<close>. What the operating system answers is a record of outcomes
  (\<open>disk_io\<close>), one field per call; \<open>encoding/json\<close> and \<open>sort.Slice\<close> are the record \<open>store_env\<close>.

  Shown: taking the lock ends; a mutation that fails leaves the registry file as it was, and one
  that succeeds leaves exactly the encoding of the new registry.
\<close>

datatype route_error =
    ErrNoRoute | ErrInvalidEntry | ErrRegistryBusy | ErrTargetLocal | ErrTargetUnknown
  | ErrOS | ErrCancelled | ErrRegistryTooLarge | ErrRegistryDecode | ErrRegistryVersion | ErrRegistryEncode
  | ErrNilRouter | ErrNotRoutable | ErrBroker | RouteAuth auth_error | RouteLink link_error

section \<open>The lock\<close>

text \<open>
  One round of the loop of \<open>acquireLock\<close>: \<open>tryLockFile\<close> fails; it locks, and \<open>Truncate\<close>, \<open>Seek\<close>,
  \<open>Fprintf\<close> succeed or not; or another process holds the lock, the clock is read, and the wait
  for 20 ms ends by the timer or by the context.
\<close>

datatype lock_try = TryFails | TryLocks bool bool bool | TryBusy go_time bool

fun lockRounds :: "go_time \<Rightarrow> lock_try list \<Rightarrow> route_error option option" where
  "lockRounds deadline [] = None"
| "lockRounds deadline (t # ts) =
     (case t of
        TryFails \<Rightarrow> Some (Some ErrOS)
      | TryLocks truncated sought printed \<Rightarrow>
          Some (if \<not> truncated then Some ErrOS else if \<not> sought then Some ErrOS
                else if \<not> printed then Some ErrOS else None)
      | TryBusy now cancelled \<Rightarrow>
          if deadline < now then Some (Some ErrRegistryBusy)
          else if cancelled then Some (Some ErrCancelled)
          else lockRounds deadline ts)"

text \<open>
  \<open>acquireLock\<close>; the result \<open>Some None\<close> is the lock, \<open>Some (Some e)\<close> an error, \<open>None\<close> means that
  the given rounds did not settle it. \<open>start\<close> is the reading of \<open>time.Now\<close> before the loop.
\<close>

definition acquireLock :: "bool \<Rightarrow> go_time \<Rightarrow> go_duration \<Rightarrow> lock_try list \<Rightarrow> route_error option option" where
  "acquireLock opened start timeout tries =
     (let timeout' = (if timeout \<le> 0 then 3 * go_second else timeout) in
      if \<not> opened then Some (Some ErrOS) else lockRounds (start + timeout') tries)"

section \<open>The registry file\<close>

record 'e registry =
  rgVersion :: string
  rgEntries :: "'e list"

record 'e store_env =
  seMarshal :: "'e registry \<Rightarrow> bytes option"
  seUnmarshal :: "bytes \<Rightarrow> 'e registry option"
  seSort :: "('e \<Rightarrow> 'e \<Rightarrow> bool) \<Rightarrow> 'e list \<Rightarrow> 'e list"

record disk =
  dkFile :: "bytes option"
  dkTemps :: nat

record disk_io =
  ioPath :: bool
  ioMkdir :: bool
  ioOpen :: bool
  ioStart :: go_time
  ioTries :: "lock_try list"
  ioRead :: bool
  ioCreate :: bool
  ioChmod :: bool
  ioWrite :: bool
  ioSync :: bool
  ioClose :: bool
  ioRename :: bool
  ioUnlink :: bool

abbreviation maxRegistryBytes :: nat where "maxRegistryBytes \<equiv> 1048576"

definition readRegistry ::
  "string \<Rightarrow> (bytes \<Rightarrow> 'e registry option) \<Rightarrow> bool \<Rightarrow> disk \<Rightarrow> route_error + 'e registry" where
  "readRegistry version unmarshal readable disk =
     (case dkFile disk of
        None \<Rightarrow> Inr \<lparr>rgVersion = version, rgEntries = []\<rparr>
      | Some payload \<Rightarrow>
          if \<not> readable then Inl ErrOS
          else if maxRegistryBytes < length payload then Inl ErrRegistryTooLarge
          else case unmarshal payload of
            None \<Rightarrow> Inl ErrRegistryDecode
          | Some registry \<Rightarrow> if rgVersion registry \<noteq> version then Inl ErrRegistryVersion else Inr registry)"

text \<open>
  Writing through a temporary file. A failure after \<open>CreateTemp\<close> removes the temporary file, or
  leaves it behind when that fails too.
\<close>

definition replaceFile :: "disk_io \<Rightarrow> bytes \<Rightarrow> disk \<Rightarrow> route_error option \<times> disk" where
  "replaceFile io payload disk =
     (let abandoned = (if ioUnlink io then disk else disk\<lparr>dkTemps := dkTemps disk + 1\<rparr>) in
      if \<not> ioCreate io then (Some ErrOS, disk)
      else if \<not> ioChmod io then (Some ErrOS, abandoned)
      else if \<not> ioWrite io then (Some ErrOS, abandoned)
      else if \<not> ioSync io then (Some ErrOS, abandoned)
      else if \<not> ioClose io then (Some ErrOS, abandoned)
      else if \<not> ioRename io then (Some ErrOS, abandoned)
      else (None, disk\<lparr>dkFile := Some payload\<rparr>))"

text \<open>
  \<open>mutate\<close>: lock, read, apply, encode, replace. \<open>snapshot\<close> is the reading of the registry under
  the lock. \<open>None\<close> while the lock is not taken.
\<close>

definition mutateFile ::
  "'e store_env \<Rightarrow> disk_io \<Rightarrow> go_duration \<Rightarrow> string \<Rightarrow> (disk \<Rightarrow> route_error + 'e registry) \<Rightarrow>
     ('e registry \<Rightarrow> route_error + 'e registry) \<Rightarrow> disk \<Rightarrow> (route_error option \<times> disk) option" where
  "mutateFile env io timeout version snapshot apply disk =
     (if \<not> ioPath io then Some (Some ErrOS, disk)
      else if \<not> ioMkdir io then Some (Some ErrOS, disk)
      else case acquireLock (ioOpen io) (ioStart io) timeout (ioTries io) of
        None \<Rightarrow> None
      | Some (Some e) \<Rightarrow> Some (Some e, disk)
      | Some None \<Rightarrow>
          (case snapshot disk of
             Inl e \<Rightarrow> Some (Some e, disk)
           | Inr registry \<Rightarrow>
               (case apply (registry\<lparr>rgVersion := version\<rparr>) of
                  Inl e \<Rightarrow> Some (Some e, disk)
                | Inr registry' \<Rightarrow>
                    (case seMarshal env registry' of
                       None \<Rightarrow> Some (Some ErrRegistryEncode, disk)
                     | Some encoded \<Rightarrow>
                         let payload = encoded @ [10] in
                         if maxRegistryBytes < length payload then Some (Some ErrRegistryTooLarge, disk)
                         else Some (replaceFile io payload disk)))))"

section \<open>Properties\<close>

lemma replaceFile_cases:
  "replaceFile io payload disk = (Some e, disk') \<Longrightarrow> dkFile disk' = dkFile disk"
  "replaceFile io payload disk = (None, disk') \<Longrightarrow> disk' = disk\<lparr>dkFile := Some payload\<rparr>"
  by (auto simp: replaceFile_def Let_def split: if_splits)

lemma mutateFile_fails:
  "mutateFile env io timeout version snapshot apply disk = Some (Some e, disk') \<Longrightarrow> dkFile disk' = dkFile disk"
  by (auto simp: mutateFile_def Let_def dest: replaceFile_cases(1) split: if_splits option.splits sum.splits)

lemma mutateFile_ok:
  assumes "mutateFile env io timeout version snapshot apply disk = Some (None, disk')"
  shows "\<exists>registry registry' encoded.
    snapshot disk = Inr registry \<and> apply (registry\<lparr>rgVersion := version\<rparr>) = Inr registry'
    \<and> seMarshal env registry' = Some encoded \<and> length encoded < maxRegistryBytes
    \<and> disk' = disk\<lparr>dkFile := Some (encoded @ [10])\<rparr>"
  using assms
  by (auto simp: mutateFile_def Let_def dest: replaceFile_cases(2) split: if_splits option.splits sum.splits)

text \<open>The outcomes of a run in which nothing fails and the lock is free.\<close>

definition calm_io :: disk_io where
  "calm_io = \<lparr>ioPath = True, ioMkdir = True, ioOpen = True, ioStart = 1, ioTries = [TryLocks True True True],
     ioRead = True, ioCreate = True, ioChmod = True, ioWrite = True, ioSync = True, ioClose = True,
     ioRename = True, ioUnlink = True\<rparr>"

lemma mutateFile_calm:
  "mutateFile env calm_io timeout version snapshot apply disk =
     (case snapshot disk of
        Inl e \<Rightarrow> Some (Some e, disk)
      | Inr registry \<Rightarrow>
          (case apply (registry\<lparr>rgVersion := version\<rparr>) of
             Inl e \<Rightarrow> Some (Some e, disk)
           | Inr registry' \<Rightarrow>
               (case seMarshal env registry' of
                  None \<Rightarrow> Some (Some ErrRegistryEncode, disk)
                | Some encoded \<Rightarrow>
                    if maxRegistryBytes < length (encoded @ [10]) then Some (Some ErrRegistryTooLarge, disk)
                    else Some (None, disk\<lparr>dkFile := Some (encoded @ [10])\<rparr>))))"
  by (simp add: mutateFile_def calm_io_def acquireLock_def replaceFile_def Let_def split: sum.split option.split)

text \<open>
  C27: Taking the lock ends: if the clock advances by the 20 ms each round waits, \<open>acquireLock\<close>
  has the lock or an error after at most one round more than fit into the time limit, whatever
  the other processes do.
\<close>

theorem lock_wait_ends:
  assumes "\<forall>i < length tries. \<forall>now c. tries ! i = TryBusy now c \<longrightarrow> start + 20000000 * int i \<le> now"
    and "(if timeout \<le> 0 then 3 * go_second else timeout) < 20000000 * int (length tries - 1)" "tries \<noteq> []"
  shows "\<exists>result. acquireLock opened start timeout tries = Some result"
proof -
  have "\<exists>result. lockRounds deadline ts = Some result"
    if "\<forall>i < length ts. \<forall>now c. ts ! i = TryBusy now c \<longrightarrow> start' + 20000000 * int i \<le> now"
      "deadline < start' + 20000000 * int (length ts - 1)" "ts \<noteq> []" for deadline start' ts
    using that
  proof (induction ts arbitrary: start')
    case (Cons t ts)
    show ?case
    proof (cases t)
      case (TryBusy now c)
      show ?thesis
      proof (cases "ts = []")
        case True
        with Cons.prems(1,2) TryBusy show ?thesis by fastforce
      next
        case False
        have "\<forall>i < length ts. \<forall>now c. ts ! i = TryBusy now c \<longrightarrow> (start' + 20000000) + 20000000 * int i \<le> now"
          using Cons.prems(1) by (auto simp: algebra_simps dest: spec [of _ "Suc _"])
        moreover have "deadline < (start' + 20000000) + 20000000 * int (length ts - 1)"
          using Cons.prems(2) False by (cases ts) (simp_all add: algebra_simps)
        ultimately have "\<exists>result. lockRounds deadline ts = Some result" using Cons.IH False by blast
        with TryBusy show ?thesis by simp
      qed
    qed simp_all
  qed simp
  from this [OF assms(1) _ assms(3)] assms(2) show ?thesis by (simp add: acquireLock_def Let_def)
qed

theorem lock_wait_ends_witness:
  "\<exists>result. acquireLock True 0 30000000 [TryBusy 0 False, TryBusy 20000000 False, TryBusy 40000000 False] = Some result"
  by (rule lock_wait_ends) (auto simp: less_Suc_eq)

end
