(* ===== verification/Route_Registry.thy ===== *)
theory Route_Registry
  imports Route_File
begin

text \<open>
  The route registry of \<open>src/sessionroute/registry.go\<close>, with \<open>NewEntry\<close> of \<open>router.go\<close>: entries of
  live local brokers, \<open>Register\<close>, \<open>Remove\<close>, \<open>Snapshot\<close>, \<open>Current\<close>, and the choice of the adjacent
  session in the direction of a target. Go's \<open>int\<close> fields (indices, process IDs) are \<open>int\<close>.

  Shown: a registered entry is what \<open>Current\<close> returns; a chosen session is registered, leads one
  node closer to the target and never back into the session a stream came from; following the
  choices from node to node reaches the target.
\<close>

section \<open>Entries\<close>

definition RegistryVersion :: string where
  "RegistryVersion = ''weaverssh.route-registry.v1''"

record Entry =
  eVersion :: string
  eBinding :: string
  eSocket :: string
  eLocalNode :: string
  ePeerNode :: string
  eChainID :: string
  eChainSHA256 :: string
  eTopology :: "string list"
  eLocalIndex :: int
  ePeerIndex :: int
  ePID :: int
  eStartedAt :: go_time

type_synonym Registry = "Entry registry"

text \<open>\<open>indexOf\<close>: the first index of a value, or \<open>-1\<close>.\<close>

fun indexFrom :: "int \<Rightarrow> string list \<Rightarrow> string \<Rightarrow> int" where
  "indexFrom i [] want = -1"
| "indexFrom i (v # vs) want = (if v = want then i else indexFrom (i + 1) vs want)"

definition indexOf :: "string list \<Rightarrow> string \<Rightarrow> int" where
  "indexOf values want = indexFrom 0 values want"

definition sameStrings :: "string list \<Rightarrow> string list \<Rightarrow> bool" where
  "sameStrings left right =
     (if length left \<noteq> length right then False
      else list_all (\<lambda>i. left ! i = right ! i) [0 ..< length left])"

definition normalizeEntry :: "Entry \<Rightarrow> Entry" where
  "normalizeEntry e =
     e\<lparr>eVersion := (if eVersion e = [] then RegistryVersion else eVersion e),
       eBinding := TrimSpace (eBinding e),
       eSocket := TrimSpace (eSocket e),
       eLocalNode := TrimSpace (eLocalNode e),
       ePeerNode := TrimSpace (ePeerNode e),
       eChainID := TrimSpace (eChainID e),
       eChainSHA256 := ToLower (TrimSpace (eChainSHA256 e)),
       eTopology := map TrimSpace (eTopology e)\<rparr>"

text \<open>The second check of \<open>validateEntry\<close>, also made for leases: two adjacent places of the topology.\<close>

definition adjacentPlaces :: "string list \<Rightarrow> int \<Rightarrow> int \<Rightarrow> string \<Rightarrow> string \<Rightarrow> bool" where
  "adjacentPlaces topology local peer localNode peerNode =
     (\<not> (local < 0 \<or> peer < 0 \<or> int (length topology) \<le> local \<or> int (length topology) \<le> peer
         \<or> topology ! nat local \<noteq> localNode \<or> topology ! nat peer \<noteq> peerNode \<or> \<bar>local - peer\<bar> \<noteq> 1))"

definition validateEntry :: "Entry \<Rightarrow> route_error option" where
  "validateEntry e =
     (if eVersion e \<noteq> RegistryVersion \<or> eBinding e = [] \<or> eSocket e = [] \<or> eLocalNode e = []
         \<or> ePeerNode e = [] \<or> eChainID e = [] \<or> length (eChainSHA256 e) \<noteq> 64 \<or> length (eTopology e) < 2
         \<or> ePID e \<le> 0 \<or> eStartedAt e = 0 then Some ErrInvalidEntry
      else if \<not> adjacentPlaces (eTopology e) (eLocalIndex e) (ePeerIndex e) (eLocalNode e) (ePeerNode e) then
        Some ErrInvalidEntry
      else None)"

definition NewEntry ::
  "NodeContext \<Rightarrow> string \<Rightarrow> string \<Rightarrow> string \<Rightarrow> int \<Rightarrow> go_time \<Rightarrow> route_error + Entry" where
  "NewEntry context binding socket peerNode pid startedAt =
     (let c = NodeContext_Normalized context in
      case NodeContext_Validate c of
        Some e \<Rightarrow> Inl (RouteAuth e)
      | None \<Rightarrow>
          let entry = normalizeEntry
            \<lparr>eVersion = RegistryVersion, eBinding = TrimSpace binding, eSocket = TrimSpace socket,
             eLocalNode = ncCurrentNode c, ePeerNode = TrimSpace peerNode, eChainID = ncChainID c,
             eChainSHA256 = ncChainSHA256 c, eTopology = ncNodes c,
             eLocalIndex = indexOf (ncNodes c) (ncCurrentNode c),
             ePeerIndex = indexOf (ncNodes c) (TrimSpace peerNode), ePID = pid, eStartedAt = startedAt\<rparr> in
          case validateEntry entry of Some e \<Rightarrow> Inl e | None \<Rightarrow> Inr entry)"

section \<open>The store\<close>

definition Store_Snapshot :: "Entry store_env \<Rightarrow> disk_io \<Rightarrow> disk \<Rightarrow> route_error + Registry" where
  "Store_Snapshot env io disk =
     (if \<not> ioPath io then Inl ErrOS
      else case readRegistry RegistryVersion (seUnmarshal env) (ioRead io) disk of
        Inl e \<Rightarrow> Inl e
      | Inr registry \<Rightarrow>
          let validated = filter (\<lambda>e. validateEntry e = None) (map normalizeEntry (rgEntries registry)) in
          Inr (registry\<lparr>rgEntries := seSort env (\<lambda>a b. eBinding a < eBinding b) validated\<rparr>))"

definition Store_mutate ::
  "Entry store_env \<Rightarrow> disk_io \<Rightarrow> go_duration \<Rightarrow> (Registry \<Rightarrow> Registry) \<Rightarrow> disk \<Rightarrow>
     (route_error option \<times> disk) option" where
  "Store_mutate env io timeout apply disk =
     mutateFile env io timeout RegistryVersion (Store_Snapshot env io) (\<lambda>r. Inr (apply r)) disk"

definition Store_Register ::
  "Entry store_env \<Rightarrow> disk_io \<Rightarrow> go_duration \<Rightarrow> Entry \<Rightarrow> disk \<Rightarrow> (route_error option \<times> disk) option" where
  "Store_Register env io timeout raw disk =
     (let entry = normalizeEntry raw in
      case validateEntry entry of
        Some e \<Rightarrow> Some (Some e, disk)
      | None \<Rightarrow>
          Store_mutate env io timeout
            (\<lambda>r. r\<lparr>rgEntries := filter (\<lambda>x. TrimSpace (eBinding x) \<noteq> eBinding entry) (rgEntries r) @ [entry]\<rparr>) disk)"

definition Store_Remove ::
  "Entry store_env \<Rightarrow> disk_io \<Rightarrow> go_duration \<Rightarrow> string \<Rightarrow> disk \<Rightarrow> (route_error option \<times> disk) option" where
  "Store_Remove env io timeout raw disk =
     (let binding = TrimSpace raw in
      if binding = [] then Some (None, disk)
      else Store_mutate env io timeout
        (\<lambda>r. r\<lparr>rgEntries := filter (\<lambda>x. TrimSpace (eBinding x) \<noteq> binding) (rgEntries r)\<rparr>) disk)"

definition Store_Current :: "Entry store_env \<Rightarrow> disk_io \<Rightarrow> string \<Rightarrow> disk \<Rightarrow> route_error + Entry" where
  "Store_Current env io raw disk =
     (case Store_Snapshot env io disk of
        Inl e \<Rightarrow> Inl e
      | Inr registry \<Rightarrow>
          (case find (\<lambda>e. eBinding e = TrimSpace raw) (rgEntries registry) of
             None \<Rightarrow> Inl ErrNoRoute
           | Some entry \<Rightarrow> Inr entry))"

section \<open>Resolution\<close>

definition ResolveNode :: "NodeContext \<Rightarrow> string \<Rightarrow> route_error + string \<times> int" where
  "ResolveNode context raw =
     (let c = NodeContext_Normalized context;
          current = indexOf (ncNodes c) (ncCurrentNode c);
          key = ToLower (TrimSpace raw);
          name =
            (if key \<in> {''self'', ''local'', ''here'', ''this'', ''current'', ''.''} then Some (ncCurrentNode c)
             else if key \<in> {''previous'', ''prev''} then
               (if current \<le> 0 then None else Some (ncNodes c ! nat (current - 1)))
             else if key = ''next'' then
               (if current < 0 \<or> int (length (ncNodes c)) \<le> current + 1 then None
                else Some (ncNodes c ! nat (current + 1)))
             else if key \<in> {''endpoint'', ''last'', ''remote''} then
               (if ncNodes c = [] then None else Some (ncNodes c ! (length (ncNodes c) - 1)))
             else Some (TrimSpace raw))
      in case name of
           None \<Rightarrow> Inl ErrTargetUnknown
         | Some n \<Rightarrow>
             let index = indexOf (ncNodes c) n in
             if index < 0 then Inl ErrTargetUnknown else Inr (n, index))"

text \<open>
  The condition of the loop that collects candidates, the same in both stores: \<open>c\<close> is the
  normalised context, \<open>wanted\<close> the index of the neighbour in the target's direction.
\<close>

definition isCandidate :: "string \<Rightarrow> NodeContext \<Rightarrow> int \<Rightarrow> int \<Rightarrow> Entry \<Rightarrow> bool" where
  "isCandidate binding c current wanted e =
     (\<not> (eBinding e = binding \<or> eLocalNode e \<noteq> ncCurrentNode c \<or> eChainID e \<noteq> ncChainID c
         \<or> eChainSHA256 e \<noteq> ncChainSHA256 c \<or> \<not> sameStrings (eTopology e) (ncNodes c)
         \<or> eLocalIndex e \<noteq> current \<or> ePeerIndex e \<noteq> wanted))"

text \<open>Results are the error with the target name and index returned beside it, or the choice.\<close>

definition Store_ResolveAdjacent ::
  "Entry store_env \<Rightarrow> disk_io \<Rightarrow> string \<Rightarrow> NodeContext \<Rightarrow> string \<Rightarrow> disk \<Rightarrow>
     (route_error + Entry) \<times> string \<times> int" where
  "Store_ResolveAdjacent env io currentBinding context target disk =
     (let c = NodeContext_Normalized context in
      case NodeContext_Validate c of
        Some e \<Rightarrow> (Inl (RouteAuth e), [], -1)
      | None \<Rightarrow>
          let currentIndex = indexOf (ncNodes c) (ncCurrentNode c) in
          case ResolveNode c target of
            Inl e \<Rightarrow> (Inl e, [], -1)
          | Inr (targetNode, targetIndex) \<Rightarrow>
              if targetIndex = currentIndex then (Inl ErrTargetLocal, targetNode, targetIndex)
              else
                let desiredPeer = (if currentIndex < targetIndex then currentIndex + 1 else currentIndex - 1) in
                case Store_Snapshot env io disk of
                  Inl e \<Rightarrow> (Inl e, [], -1)
                | Inr registry \<Rightarrow>
                    let candidates = filter (isCandidate (TrimSpace currentBinding) c currentIndex desiredPeer)
                                       (rgEntries registry) in
                    if candidates = [] then (Inl ErrNoRoute, targetNode, targetIndex)
                    else (Inr (hd (seSort env (\<lambda>a b. eStartedAt b < eStartedAt a) candidates)),
                          targetNode, targetIndex))"

section \<open>Indices\<close>

lemma indexFrom_spec:
  "indexFrom i xs x = (if x \<in> set xs then i + int (length (takeWhile (\<lambda>y. y \<noteq> x) xs)) else -1)"
  by (induction i xs x rule: indexFrom.induct) auto

lemma indexOf_spec:
  "indexOf xs x = (if x \<in> set xs then int (length (takeWhile (\<lambda>y. y \<noteq> x) xs)) else -1)"
  by (simp add: indexOf_def indexFrom_spec)

lemma indexOf_mem:
  assumes "x \<in> set xs"
  shows "0 \<le> indexOf xs x" "indexOf xs x < int (length xs)" "xs ! nat (indexOf xs x) = x"
proof -
  let ?k = "length (takeWhile (\<lambda>y. y \<noteq> x) xs)"
  have k: "?k < length xs"
    using assms by (metis (mono_tags, lifting) le_neq_implies_less length_takeWhile_le takeWhile_eq_all_conv takeWhile_eq_take take_all)
  show "0 \<le> indexOf xs x" "indexOf xs x < int (length xs)" using assms k by (simp_all add: indexOf_spec)
  show "xs ! nat (indexOf xs x) = x" using assms k nth_length_takeWhile [of "\<lambda>y. y \<noteq> x" xs] by (simp add: indexOf_spec)
qed

lemma indexOf_neg: "indexOf xs x < 0 \<longleftrightarrow> x \<notin> set xs"
  by (simp add: indexOf_spec)

lemma indexOf_nth: "distinct xs \<Longrightarrow> k < length xs \<Longrightarrow> indexOf xs (xs ! k) = int k"
proof -
  assume d: "distinct xs" and k: "k < length xs"
  note m = indexOf_mem [OF nth_mem [OF k]]
  have "nat (indexOf xs (xs ! k)) = k"
    using nth_eq_iff_index_eq [OF d _ k, of "nat (indexOf xs (xs ! k))"] m by linarith
  with m(1) show ?thesis by linarith
qed

lemma sameStrings_eq: "sameStrings l r \<longleftrightarrow> l = r"
  unfolding sameStrings_def by (auto simp: list_all_iff intro: nth_equalityI)

section \<open>Reading the registry\<close>

lemma normalizeEntry_sel [simp]:
  "eBinding (normalizeEntry e) = TrimSpace (eBinding e)"
  "eTopology (normalizeEntry e) = map TrimSpace (eTopology e)"
  by (simp_all add: normalizeEntry_def)

lemma normalizeEntry_idem [simp]: "normalizeEntry (normalizeEntry e) = normalizeEntry e"
  by (rule Entry.equality) (simp_all add: normalizeEntry_def RegistryVersion_def)

lemma Store_Snapshot_entries:
  assumes "sort_slice (seSort env)" "Store_Snapshot env io disk = Inr registry"
  shows "set (rgEntries registry) \<subseteq> {e. validateEntry e = None \<and> normalizeEntry e = e}"
    and "\<exists>raw. readRegistry RegistryVersion (seUnmarshal env) (ioRead io) disk = Inr raw
      \<and> set (rgEntries registry) = {e \<in> normalizeEntry ` set (rgEntries raw). validateEntry e = None}"
proof -
  obtain raw where r: "readRegistry RegistryVersion (seUnmarshal env) (ioRead io) disk = Inr raw"
    using assms(2) unfolding Store_Snapshot_def
    by (cases "readRegistry RegistryVersion (seUnmarshal env) (ioRead io) disk") (simp_all split: if_splits)
  then have "rgEntries registry = seSort env (\<lambda>a b. eBinding a < eBinding b)
       (filter (\<lambda>e. validateEntry e = None) (map normalizeEntry (rgEntries raw)))"
    using assms(2) unfolding Store_Snapshot_def by (simp add: Let_def split: if_splits) force
  then have s: "set (rgEntries registry) = {e \<in> normalizeEntry ` set (rgEntries raw). validateEntry e = None}"
    by (auto simp: sort_slice_set [OF assms(1) weak_order_key])
  with r show "\<exists>raw. readRegistry RegistryVersion (seUnmarshal env) (ioRead io) disk = Inr raw
      \<and> set (rgEntries registry) = {e \<in> normalizeEntry ` set (rgEntries raw). validateEntry e = None}" by blast
  from s show "set (rgEntries registry) \<subseteq> {e. validateEntry e = None \<and> normalizeEntry e = e}" by auto
qed

lemma Store_Snapshot_ok:
  "dkFile disk = Some payload \<Longrightarrow> ioPath io \<Longrightarrow> ioRead io \<Longrightarrow> length payload \<le> maxRegistryBytes \<Longrightarrow>
   seUnmarshal env payload = Some raw \<Longrightarrow> rgVersion raw = RegistryVersion \<Longrightarrow>
   \<exists>registry. Store_Snapshot env io disk = Inr registry"
  by (simp add: Store_Snapshot_def readRegistry_def Let_def)

text \<open>What a successful mutation leaves for the next reader.\<close>

lemma Store_mutate_then_Snapshot:
  assumes sort: "sort_slice (seSort env)"
    and json: "\<forall>r p. seMarshal env r = Some p \<longrightarrow> dkFile disk' = Some (p @ [10]) \<longrightarrow> seUnmarshal env (p @ [10]) = Some r"
    and m: "Store_mutate env io timeout apply disk = Some (None, disk')"
    and v: "\<And>r. rgVersion (apply r) = rgVersion r" and io': "ioPath io'" "ioRead io'"
  shows "\<exists>before after. Store_Snapshot env io disk = Inr before \<and> Store_Snapshot env io' disk' = Inr after
    \<and> set (rgEntries after) = {e \<in> normalizeEntry ` set (rgEntries (apply (before\<lparr>rgVersion := RegistryVersion\<rparr>))).
        validateEntry e = None}"
proof -
  obtain before r encoded where "Store_Snapshot env io disk = Inr before"
    "Inr (apply (before\<lparr>rgVersion := RegistryVersion\<rparr>)) = (Inr r :: route_error + Registry)"
    "seMarshal env r = Some encoded" "length encoded < maxRegistryBytes"
    "disk' = disk\<lparr>dkFile := Some (encoded @ [10])\<rparr>"
    using mutateFile_ok [OF m [unfolded Store_mutate_def]] by (elim exE conjE) rule
  then have b: "Store_Snapshot env io disk = Inr before"
    "seMarshal env (apply (before\<lparr>rgVersion := RegistryVersion\<rparr>)) = Some encoded" "length encoded < maxRegistryBytes"
    "disk' = disk\<lparr>dkFile := Some (encoded @ [10])\<rparr>"
    by simp_all
  let ?r = "apply (before\<lparr>rgVersion := RegistryVersion\<rparr>)"
  have u: "seUnmarshal env (encoded @ [10]) = Some ?r" using json b(2,4) by simp
  have rd: "readRegistry RegistryVersion (seUnmarshal env) (ioRead io') disk' = Inr ?r"
    using b(3,4) u io' v by (simp add: readRegistry_def)
  obtain after where a: "Store_Snapshot env io' disk' = Inr after"
    using rd io' by (simp add: Store_Snapshot_def Let_def)
  with Store_Snapshot_entries(2) [OF sort a] rd b(1) show ?thesis by auto
qed

lemma find_only:
  assumes "x \<in> set xs" "P x" "\<And>y. y \<in> set xs \<Longrightarrow> P y \<Longrightarrow> y = x"
  shows "find P xs = Some x"
  using assms
proof (induction xs)
  case (Cons a xs)
  show ?case
  proof (cases "P a")
    case True
    then have "a = x" by (rule Cons.prems(3) [of a, OF list.set_intros(1)])
    with True show ?thesis by simp
  next
    case False
    then have "x \<in> set xs" using Cons.prems(1,2) by auto
    then have "find P xs = Some x"
      by (rule Cons.IH [OF _ Cons.prems(2)]) (rule Cons.prems(3) [OF list.set_intros(2)])
    with False show ?thesis by simp
  qed
qed simp

text \<open>
  What is registered is found: after a successful \<open>Register\<close> the registry holds the
  normalised entry and exactly the earlier entries of other bindings, and \<open>Current\<close> returns it for
  its binding. The hypothesis on JSON is that the text now in the file decodes to the registry it
  encodes.
\<close>

theorem register_then_current:
  assumes "sort_slice (seSort env)"
    and "\<forall>r p. seMarshal env r = Some p \<longrightarrow> dkFile disk' = Some (p @ [10]) \<longrightarrow> seUnmarshal env (p @ [10]) = Some r"
    and "Store_Register env io timeout raw disk = Some (None, disk')" "ioPath io'" "ioRead io'"
  shows "Store_Current env io' (eBinding raw) disk' = Inr (normalizeEntry raw)
    \<and> (\<exists>before after. Store_Snapshot env io disk = Inr before \<and> Store_Snapshot env io' disk' = Inr after
        \<and> set (rgEntries after) =
            insert (normalizeEntry raw) {e \<in> set (rgEntries before). eBinding e \<noteq> TrimSpace (eBinding raw)})"
proof -
  let ?e = "normalizeEntry raw" and ?b = "TrimSpace (eBinding raw)"
  have eb: "eBinding ?e = ?b" by simp
  have v: "validateEntry ?e = None" and m: "Store_mutate env io timeout
      (\<lambda>r. r\<lparr>rgEntries := filter (\<lambda>x. TrimSpace (eBinding x) \<noteq> ?b) (rgEntries r) @ [?e]\<rparr>) disk = Some (None, disk')"
    using assms(3) by (auto simp: Store_Register_def Let_def eb split: option.splits)
  obtain before after where ba: "Store_Snapshot env io disk = Inr before" "Store_Snapshot env io' disk' = Inr after"
    "set (rgEntries after) = {e \<in> normalizeEntry ` (insert ?e {x \<in> set (rgEntries before). TrimSpace (eBinding x) \<noteq> ?b}).
        validateEntry e = None}"
    using Store_mutate_then_Snapshot [OF assms(1,2) m _ assms(4,5)] by auto
  have norm: "validateEntry x = None \<and> normalizeEntry x = x \<and> TrimSpace (eBinding x) = eBinding x"
    if "x \<in> set (rgEntries before)" for x
  proof -
    have x: "validateEntry x = None" "normalizeEntry x = x"
      using Store_Snapshot_entries(1) [OF assms(1) ba(1)] that by auto
    have "TrimSpace (eBinding x) = eBinding x" using arg_cong [OF x(2), of eBinding] unfolding normalizeEntry_sel .
    with x show ?thesis by simp
  qed
  have set: "set (rgEntries after) = insert ?e {e \<in> set (rgEntries before). eBinding e \<noteq> ?b}"
  proof
    show "set (rgEntries after) \<subseteq> insert ?e {e \<in> set (rgEntries before). eBinding e \<noteq> ?b}"
      using norm unfolding ba(3) by auto
    show "insert ?e {e \<in> set (rgEntries before). eBinding e \<noteq> ?b} \<subseteq> set (rgEntries after)"
      using norm v unfolding ba(3) by (auto simp: image_iff)
  qed
  have "find (\<lambda>e. eBinding e = ?b) (rgEntries after) = Some ?e"
    by (rule find_only) (auto simp: set eb)
  then have "Store_Current env io' (eBinding raw) disk' = Inr ?e"
    by (simp add: Store_Current_def ba(2))
  with set ba(1,2) show ?thesis by blast
qed

section \<open>Choosing the next session\<close>

text \<open>
  What a resolver promises of its choice \<open>e\<close> for \<open>target\<close>, found to be node \<open>n\<close> at index \<open>i\<close>: a
  session of the signed chain from the current node to its neighbour on the target's side, and
  not the session of \<open>binding\<close>.
\<close>

definition towards :: "string \<Rightarrow> NodeContext \<Rightarrow> string \<Rightarrow> Entry \<Rightarrow> string \<Rightarrow> int \<Rightarrow> bool" where
  "towards binding context target e n i =
     (let c = NodeContext_Normalized context; current = indexOf (ncNodes c) (ncCurrentNode c) in
      NodeContext_Validate c = None \<and> ResolveNode c target = Inr (n, i) \<and> i \<noteq> current
      \<and> eBinding e \<noteq> TrimSpace binding \<and> eLocalNode e = ncCurrentNode c \<and> eChainID e = ncChainID c
      \<and> eChainSHA256 e = ncChainSHA256 c \<and> eTopology e = ncNodes c \<and> eLocalIndex e = current
      \<and> ePeerIndex e = (if current < i then current + 1 else current - 1)
      \<and> 0 \<le> ePeerIndex e \<and> ePeerIndex e < int (length (ncNodes c)) \<and> ePeerNode e = ncNodes c ! nat (ePeerIndex e))"

lemma ResolveNode_index:
  assumes "ResolveNode c target = Inr (n, i)"
  shows "n \<in> set (trimUnique [] (ncNodes c))" "i = indexOf (trimUnique [] (ncNodes c)) n"
proof -
  have "\<exists>m. (case m of None \<Rightarrow> Inl ErrTargetUnknown
        | Some n' \<Rightarrow> let index = indexOf (trimUnique [] (ncNodes c)) n' in
            if index < 0 then Inl ErrTargetUnknown else Inr (n', index)) = Inr (n, i)"
    using assms unfolding ResolveNode_def Let_def NodeContext_Normalized_sel by blast
  then show "n \<in> set (trimUnique [] (ncNodes c))" "i = indexOf (trimUnique [] (ncNodes c)) n"
    by (auto simp: Let_def indexOf_neg split: option.splits if_splits)
qed

lemma candidate_towards:
  assumes "NodeContext_Validate (NodeContext_Normalized context) = None"
    and "c = NodeContext_Normalized context" "current = indexOf (ncNodes c) (ncCurrentNode c)"
    and "ResolveNode c target = Inr (n, i)" "i \<noteq> current"
    and "isCandidate (TrimSpace binding) c current (if current < i then current + 1 else current - 1) e"
    and "adjacentPlaces (eTopology e) (eLocalIndex e) (ePeerIndex e) (eLocalNode e) (ePeerNode e)"
  shows "towards binding context target e n i"
  using assms unfolding towards_def isCandidate_def adjacentPlaces_def sameStrings_eq Let_def by simp

lemma validateEntry_places:
  "validateEntry e = None \<Longrightarrow>
     adjacentPlaces (eTopology e) (eLocalIndex e) (ePeerIndex e) (eLocalNode e) (ePeerNode e)"
  by (simp add: validateEntry_def split: if_splits)

text \<open>One hop: the node's own store \<open>s\<close> and binding \<open>b\<close> choose a session, and its peer is next.\<close>

definition hop ::
  "('s \<Rightarrow> string \<Rightarrow> NodeContext \<Rightarrow> string \<Rightarrow> (route_error + Entry) \<times> string \<times> int) \<Rightarrow> (string \<Rightarrow> 's \<times> string) \<Rightarrow>
     string \<Rightarrow> NodeContext \<Rightarrow> NodeContext \<Rightarrow> bool" where
  "hop resolve net target c c' =
     (\<exists>e n i. resolve (fst (net (ncCurrentNode c))) (snd (net (ncCurrentNode c))) c target = (Inr e, n, i)
        \<and> c' = c\<lparr>ncCurrentNode := ePeerNode e\<rparr>)"

text \<open>
  The number of links between the current node and \<open>target\<close>, and the names of nodes that are
  not one of the relative names.
\<close>

definition hopsTo :: "NodeContext \<Rightarrow> string \<Rightarrow> int" where
  "hopsTo c target = \<bar>indexOf (trimUnique [] (ncNodes c)) target
                       - indexOf (trimUnique [] (ncNodes c)) (TrimSpace (ncCurrentNode c))\<bar>"

definition absoluteName :: "string \<Rightarrow> bool" where
  "absoluteName t =
     (TrimSpace t = t
      \<and> ToLower t \<notin> {''self'', ''local'', ''here'', ''this'', ''current'', ''.'', ''previous'', ''prev'', ''next'',
                      ''endpoint'', ''last'', ''remote''})"

lemma ResolveNode_absolute:
  assumes "absoluteName t" "ResolveNode c t = Inr (n, i)"
  shows "n = t"
proof -
  have k: "TrimSpace t = t" and "ToLower t \<notin> {''self'', ''local'', ''here'', ''this'', ''current'', ''.''}"
    "ToLower t \<notin> {''previous'', ''prev''}" "ToLower t \<noteq> ''next''" "ToLower t \<notin> {''endpoint'', ''last'', ''remote''}"
    using assms(1) unfolding absoluteName_def by blast+
  with assms(2) show ?thesis
    unfolding ResolveNode_def Let_def k by (simp only: if_False option.case not_True_eq_False sum.simps prod.inject split: if_splits)
qed

locale adjacent_resolver =
  fixes resolve :: "'s \<Rightarrow> string \<Rightarrow> NodeContext \<Rightarrow> string \<Rightarrow> (route_error + Entry) \<times> string \<times> int"
  assumes resolve_towards: "resolve s binding context target = (Inr e, n, i) \<Longrightarrow> towards binding context target e n i"
begin

lemma hop_closer:
  assumes "absoluteName target" "hop resolve net target c c'"
  shows "hopsTo c' target = hopsTo c target - 1" "0 < hopsTo c target" "ncNodes c' = ncNodes c"
proof -
  obtain e n i where e: "resolve (fst (net (ncCurrentNode c))) (snd (net (ncCurrentNode c))) c target = (Inr e, n, i)"
    and c': "c' = c\<lparr>ncCurrentNode := ePeerNode e\<rparr>"
    using assms(2) unfolding hop_def by blast
  let ?ns = "trimUnique [] (ncNodes c)" and ?cur = "indexOf (trimUnique [] (ncNodes c)) (TrimSpace (ncCurrentNode c))"
  have t: "ResolveNode (NodeContext_Normalized c) target = Inr (n, i)" "i \<noteq> ?cur"
    "ePeerIndex e = (if ?cur < i then ?cur + 1 else ?cur - 1)" "0 \<le> ePeerIndex e" "ePeerIndex e < int (length ?ns)"
    "ePeerNode e = ?ns ! nat (ePeerIndex e)"
    using resolve_towards [OF e] by (simp_all add: towards_def Let_def NodeContext_Normalized_sel)
  have n: "n = target" by (rule ResolveNode_absolute [OF assms(1) t(1)])
  have i: "i = indexOf ?ns target"
    using ResolveNode_index(2) [OF t(1)] n by (simp add: NodeContext_Normalized_sel trimUnique_idem)
  have d: "distinct ?ns" and all: "list_all (\<lambda>s. s \<noteq> [] \<and> trimmed s) ?ns"
    using trimUnique_props [of "[]" "ncNodes c"] by (auto simp: list_all_iff)
  have k: "nat (ePeerIndex e) < length ?ns" using t(4,5) by linarith
  have "TrimSpace (ePeerNode e) = ePeerNode e"
    using all nth_mem [OF k] t(6) by (simp add: list_all_iff TrimSpace_id)
  then have cur': "indexOf ?ns (TrimSpace (ePeerNode e)) = ePeerIndex e"
    using indexOf_nth [OF d k] t(4,6) by simp
  show "ncNodes c' = ncNodes c" using c' by simp
  show "hopsTo c' target = hopsTo c target - 1" "0 < hopsTo c target"
    using t(2,3) cur' by (auto simp: hopsTo_def c' i)
qed

lemma hops_progress:
  assumes "absoluteName target" "(hop resolve net target ^^ k) c c'"
  shows "hopsTo c' target = hopsTo c target - int k" "ncNodes c' = ncNodes c"
  using assms(2)
proof (induction k arbitrary: c')
  case (Suc k)
  case 1
  then obtain m where "(hop resolve net target ^^ k) c m" "hop resolve net target m c'" by auto
  with Suc hop_closer [OF assms(1)] show ?case by fastforce
next
  case (Suc k)
  case 2
  then obtain m where "(hop resolve net target ^^ k) c m" "hop resolve net target m c'" by auto
  with Suc hop_closer [OF assms(1)] show ?case by fastforce
qed simp_all

lemma hops_arrive:
  assumes "absoluteName target" "(hop resolve net target ^^ k) c c'"
  shows "int k \<le> hopsTo c target"
    and "int k = hopsTo c target \<Longrightarrow> TrimSpace target \<in> set (trimUnique [] (ncNodes c)) \<Longrightarrow>
      TrimSpace (ncCurrentNode c') = target"
proof -
  have p: "hopsTo c' target = hopsTo c target - int k" "ncNodes c' = ncNodes c"
    by (rule hops_progress [OF assms])+
  show "int k \<le> hopsTo c target" using p(1) by (simp add: hopsTo_def)
  assume "int k = hopsTo c target" "TrimSpace target \<in> set (trimUnique [] (ncNodes c))"
  moreover have "TrimSpace target = target" using assms(1) by (simp add: absoluteName_def)
  ultimately have "indexOf (trimUnique [] (ncNodes c)) (TrimSpace (ncCurrentNode c')) = indexOf (trimUnique [] (ncNodes c)) target"
    "target \<in> set (trimUnique [] (ncNodes c))"
    using p by (simp_all add: hopsTo_def)
  then show "TrimSpace (ncCurrentNode c') = target"
    by (metis indexOf_mem(1,3) indexOf_neg linorder_not_le)
qed

end

lemma Store_ResolveAdjacent_Inr:
  assumes "Store_ResolveAdjacent env io binding context target disk = (Inr e, n, i)"
  defines "c \<equiv> NodeContext_Normalized context"
  defines "current \<equiv> indexOf (ncNodes c) (ncCurrentNode c)"
  defines "ok \<equiv> isCandidate (TrimSpace binding) c current (if current < i then current + 1 else current - 1)"
  shows "NodeContext_Validate c = None" "ResolveNode c target = Inr (n, i)" "i \<noteq> current"
    "\<exists>registry. Store_Snapshot env io disk = Inr registry \<and> filter ok (rgEntries registry) \<noteq> []
       \<and> e = hd (seSort env (\<lambda>a b. eStartedAt b < eStartedAt a) (filter ok (rgEntries registry)))"
  using assms(1) unfolding Store_ResolveAdjacent_def Let_def c_def [symmetric] current_def [symmetric] ok_def
  by (auto split: option.splits sum.splits prod.splits if_splits)

lemma Store_ResolveAdjacent_member:
  assumes "sort_slice (seSort env)" "Store_ResolveAdjacent env io binding context target disk = (Inr e, n, i)"
  defines "c \<equiv> NodeContext_Normalized context"
  defines "current \<equiv> indexOf (ncNodes c) (ncCurrentNode c)"
  defines "ok \<equiv> isCandidate (TrimSpace binding) c current (if current < i then current + 1 else current - 1)"
  obtains registry where "Store_Snapshot env io disk = Inr registry" "e \<in> set (rgEntries registry)" "ok e"
    "\<And>e'. e' \<in> set (rgEntries registry) \<Longrightarrow> ok e' \<Longrightarrow> eStartedAt e' \<le> eStartedAt e"
proof -
  note s = Store_ResolveAdjacent_Inr [OF assms(2), folded c_def, folded current_def, folded ok_def]
  obtain registry where r: "Store_Snapshot env io disk = Inr registry" "filter ok (rgEntries registry) \<noteq> []"
    "e = hd (seSort env (\<lambda>a b. eStartedAt b < eStartedAt a) (filter ok (rgEntries registry)))"
    using s(4) by blast
  note h = sort_slice_hd [OF assms(1) weak_order_key_desc [of eStartedAt] r(2), folded r(3)]
  from h(1) have "e \<in> set (rgEntries registry)" "ok e" by simp_all
  moreover have "eStartedAt e' \<le> eStartedAt e" if "e' \<in> set (rgEntries registry)" "ok e'" for e'
    using h(2) [of e'] that by simp
  ultimately show thesis using that r(1) by blast
qed

lemma Store_towards:
  assumes "sort_slice (seSort env)" "Store_ResolveAdjacent env io binding context target disk = (Inr e, n, i)"
  shows "towards binding context target e n i"
proof -
  note s = Store_ResolveAdjacent_Inr [OF assms(2)]
  obtain registry where r: "Store_Snapshot env io disk = Inr registry" "e \<in> set (rgEntries registry)"
    "isCandidate (TrimSpace binding) (NodeContext_Normalized context)
       (indexOf (ncNodes (NodeContext_Normalized context)) (ncCurrentNode (NodeContext_Normalized context)))
       (if indexOf (ncNodes (NodeContext_Normalized context)) (ncCurrentNode (NodeContext_Normalized context)) < i
        then indexOf (ncNodes (NodeContext_Normalized context)) (ncCurrentNode (NodeContext_Normalized context)) + 1
        else indexOf (ncNodes (NodeContext_Normalized context)) (ncCurrentNode (NodeContext_Normalized context)) - 1) e"
    by (rule Store_ResolveAdjacent_member [OF assms])
  have "validateEntry e = None" using Store_Snapshot_entries(1) [OF assms(1) r(1)] r(2) by auto
  from candidate_towards [OF s(1) refl refl s(2,3) r(3) validateEntry_places [OF this]] show ?thesis .
qed

lemma Store_resolver:
  assumes "sort_slice (seSort env)"
  shows "adjacent_resolver (\<lambda>(io, disk) binding context target. Store_ResolveAdjacent env io binding context target disk)"
  by unfold_locales (auto intro: Store_towards [OF assms])

interpretation store_routes: adjacent_resolver
    "\<lambda>(io, disk) binding context target. Store_ResolveAdjacent (env\<lparr>seSort := insertionSort\<rparr>) io binding context target disk"
  for env
  by (rule Store_resolver) (simp add: sort_slice_insertionSort)

text \<open>
  The chosen session is a good one: \<open>ResolveAdjacent\<close> returns an entry of the registry that is
  valid, belongs to the signed chain, starts at the current node, is not the session the request
  came from, and whose peer is exactly one link closer to the target; and no candidate was started
  later.
\<close>

theorem adjacent_choice_sound:
  assumes "sort_slice (seSort env)" "Store_ResolveAdjacent env io binding context target disk = (Inr e, n, i)"
  shows "\<exists>registry. Store_Snapshot env io disk = Inr registry \<and> e \<in> set (rgEntries registry)
    \<and> validateEntry e = None \<and> eBinding e \<noteq> TrimSpace binding
    \<and> (let c = NodeContext_Normalized context; current = indexOf (ncNodes c) (ncCurrentNode c) in
       eChainSHA256 e = ncChainSHA256 c \<and> eTopology e = ncNodes c \<and> eLocalNode e = ncCurrentNode c
       \<and> ePeerNode e = ncNodes c ! nat (ePeerIndex e) \<and> n = ncNodes c ! nat i
       \<and> \<bar>i - ePeerIndex e\<bar> = \<bar>i - current\<bar> - 1
       \<and> (\<forall>e' \<in> set (rgEntries registry).
            isCandidate (TrimSpace binding) c current (ePeerIndex e) e' \<longrightarrow> eStartedAt e' \<le> eStartedAt e))"
proof -
  let ?c = "NodeContext_Normalized context"
  let ?cur = "indexOf (ncNodes ?c) (ncCurrentNode ?c)"
  obtain registry where r: "Store_Snapshot env io disk = Inr registry" "e \<in> set (rgEntries registry)"
    "\<And>e'. e' \<in> set (rgEntries registry) \<Longrightarrow>
       isCandidate (TrimSpace binding) ?c ?cur (if ?cur < i then ?cur + 1 else ?cur - 1) e' \<Longrightarrow> eStartedAt e' \<le> eStartedAt e"
    by (rule Store_ResolveAdjacent_member [OF assms]) blast
  have v: "validateEntry e = None" using Store_Snapshot_entries(1) [OF assms(1) r(1)] r(2) by auto
  have t: "ResolveNode ?c target = Inr (n, i)" "i \<noteq> ?cur" "eBinding e \<noteq> TrimSpace binding" "eLocalNode e = ncCurrentNode ?c"
    "eChainSHA256 e = ncChainSHA256 ?c" "eTopology e = ncNodes ?c"
    "ePeerIndex e = (if ?cur < i then ?cur + 1 else ?cur - 1)" "ePeerNode e = ncNodes ?c ! nat (ePeerIndex e)"
    using Store_towards [OF assms] by (simp_all add: towards_def Let_def)
  have "n = ncNodes ?c ! nat i"
    using ResolveNode_index [OF t(1)] indexOf_mem(3) by (simp add: NodeContext_Normalized_sel trimUnique_idem)
  with r v t show ?thesis by (intro exI [of _ registry]) (auto simp: Let_def)
qed

section \<open>A concrete registry\<close>

text \<open>The session from \<open>gate\<close> to \<open>host\<close> in the chain of three nodes, and a codec for one registry.\<close>

definition demo_entry :: Entry where
  "demo_entry = \<lparr>eVersion = RegistryVersion, eBinding = ''b1'', eSocket = ''s1'', eLocalNode = ''gate'',
     ePeerNode = ''host'', eChainID = ''c1'', eChainSHA256 = replicate 64 (CHR ''b''),
     eTopology = [''client'', ''gate'', ''host''], eLocalIndex = 1, ePeerIndex = 2, ePID = 7, eStartedAt = 1000\<rparr>"

definition demo_registry :: Registry where
  "demo_registry = \<lparr>rgVersion = RegistryVersion, rgEntries = [demo_entry]\<rparr>"

definition demo_env :: "Entry store_env" where
  "demo_env = \<lparr>seMarshal = (\<lambda>r. if r = demo_registry then Some [] else None),
     seUnmarshal = (\<lambda>_. Some demo_registry), seSort = insertionSort\<rparr>"

lemma demo_entry_normal: "normalizeEntry demo_entry = demo_entry"
  by code_simp

lemma demo_NewEntry: "NewEntry (demo_context AudienceNodeContext) '' b1'' ''s1 '' ''host'' 7 1000 = Inr demo_entry"
  by code_simp

lemma demo_entry_valid: "validateEntry demo_entry = None"
  by code_simp

lemma demo_ResolveNode: "ResolveNode (demo_context AudienceNodeContext) ''host'' = Inr (''host'', 2)"
  by code_simp

lemma demo_sorted: "insertionSort lt [] = []" "insertionSort lt [x] = [x]"
  by (simp_all add: insertionSort_def)

lemma demo_Snapshot:
  "Store_Snapshot demo_env calm_io \<lparr>dkFile = None, dkTemps = 0\<rparr> = Inr \<lparr>rgVersion = RegistryVersion, rgEntries = []\<rparr>"
  "Store_Snapshot demo_env calm_io \<lparr>dkFile = Some [10], dkTemps = 0\<rparr> = Inr demo_registry"
  by (simp_all add: Store_Snapshot_def readRegistry_def calm_io_def demo_env_def demo_registry_def Let_def
      demo_sorted demo_entry_normal demo_entry_valid)

lemma demo_register:
  "Store_Register demo_env calm_io 0 demo_entry \<lparr>dkFile = None, dkTemps = 0\<rparr>
     = Some (None, \<lparr>dkFile = Some [10], dkTemps = 0\<rparr>)"
  by (simp add: Store_Register_def demo_entry_normal demo_entry_valid Store_mutate_def mutateFile_calm demo_Snapshot Let_def
      demo_registry_def [symmetric])
     (simp add: demo_env_def)

lemma demo_context_ok:
  "NodeContext_Normalized (demo_context AudienceNodeContext) = demo_context AudienceNodeContext"
  "NodeContext_Validate (demo_context AudienceNodeContext) = None"
  by (simp_all add: demo_context_normal demo_context_valid audience_default)

lemma demo_indices:
  "indexOf (ncNodes (demo_context AudienceNodeContext)) (ncCurrentNode (demo_context AudienceNodeContext)) = 1"
  "isCandidate (TrimSpace ''b0'') (demo_context AudienceNodeContext) 1 2 demo_entry"
  by code_simp+

lemma demo_resolve:
  "Store_ResolveAdjacent demo_env calm_io ''b0'' (demo_context AudienceNodeContext) ''host'' \<lparr>dkFile = Some [10], dkTemps = 0\<rparr>
     = (Inr demo_entry, ''host'', 2)"
  by (simp add: Store_ResolveAdjacent_def demo_context_ok demo_ResolveNode demo_indices demo_Snapshot Let_def
      demo_registry_def) (simp add: demo_env_def demo_sorted)

theorem register_then_current_witness:
  "\<exists>disk'. Store_Register demo_env calm_io 0 demo_entry \<lparr>dkFile = None, dkTemps = 0\<rparr> = Some (None, disk')
     \<and> Store_Current demo_env calm_io (eBinding demo_entry) disk' = Inr demo_entry"
  using register_then_current [of demo_env "\<lparr>dkFile = Some [10], dkTemps = 0\<rparr>" calm_io 0 demo_entry _ calm_io,
      OF _ _ demo_register] demo_register
  by (simp add: demo_env_def sort_slice_insertionSort calm_io_def demo_entry_normal)

theorem adjacent_choice_sound_witness:
  "\<exists>e n i. Store_ResolveAdjacent demo_env calm_io ''b0'' (demo_context AudienceNodeContext) ''host''
       \<lparr>dkFile = Some [10], dkTemps = 0\<rparr> = (Inr e, n, i) \<and> validateEntry e = None"
  using adjacent_choice_sound [OF _ demo_resolve] demo_resolve by (auto simp: demo_env_def sort_slice_insertionSort)

end
