(* ===== verification/Route_Lease.thy ===== *)
theory Route_Lease
  imports Route_Registry
begin

text \<open>
  The generation-aware route registry of \<open>src/sessionroute/lease_store.go\<close>. Entries are keyed by
  link ID and carry the token of the transport that published them. Every operation reads the
  clock once (\<open>now\<close>) and drops expired and invalid entries when it rewrites the file. \<open>hex256\<close> is
  the digest of \<open>DeriveID\<close>.

  Shown: the file never holds two entries for one link; a live entry is only replaced by its own
  transport or a later generation, and cleanup with any other token leaves it alone; the session
  \<open>ResolveAdjacent\<close> chooses is live and has the latest generation.
\<close>

definition LeaseRegistryVersion :: string where
  "LeaseRegistryVersion = ''weaverssh.route-leases.v1''"

record LeaseEntry =
  leVersion :: string
  leLinkID :: string
  leTransportID :: string
  leGeneration :: u64
  leBinding :: string
  leSocket :: string
  leLocalNode :: string
  lePeerNode :: string
  leChainID :: string
  leChainSHA256 :: string
  leTopology :: "string list"
  leLocalIndex :: int
  lePeerIndex :: int
  lePID :: int
  leStartedAt :: go_time
  leUpdatedAt :: go_time
  leLeaseUntil :: go_time

type_synonym LeaseRegistry = "LeaseEntry registry"

definition LeaseEntry_Token :: "LeaseEntry \<Rightarrow> LinkToken" where
  "LeaseEntry_Token e = \<lparr>tLinkID = leLinkID e, tTransportID = leTransportID e, tGeneration = leGeneration e\<rparr>"

definition LegacyEntry :: "LeaseEntry \<Rightarrow> Entry" where
  "LegacyEntry e =
     \<lparr>eVersion = RegistryVersion, eBinding = leBinding e, eSocket = leSocket e, eLocalNode = leLocalNode e,
      ePeerNode = lePeerNode e, eChainID = leChainID e, eChainSHA256 = leChainSHA256 e, eTopology = leTopology e,
      eLocalIndex = leLocalIndex e, ePeerIndex = lePeerIndex e, ePID = lePID e, eStartedAt = leStartedAt e\<rparr>"

text \<open>The path of the lease file; \<open>defaultPath\<close> is the per-user default, which may be unavailable.\<close>

definition ResolveLeasePath :: "string option \<Rightarrow> string \<Rightarrow> string option" where
  "ResolveLeasePath defaultPath raw =
     (let path = TrimSpace raw in if path = [] then defaultPath else Some (path @ ''.leases''))"

definition normalizeLeaseEntry :: "LeaseEntry \<Rightarrow> LeaseEntry" where
  "normalizeLeaseEntry e =
     e\<lparr>leVersion := (if leVersion e = [] then LeaseRegistryVersion else leVersion e),
       leLinkID := TrimSpace (leLinkID e),
       leTransportID := TrimSpace (leTransportID e),
       leBinding := TrimSpace (leBinding e),
       leSocket := TrimSpace (leSocket e),
       leLocalNode := TrimSpace (leLocalNode e),
       lePeerNode := TrimSpace (lePeerNode e),
       leChainID := TrimSpace (leChainID e),
       leChainSHA256 := ToLower (TrimSpace (leChainSHA256 e)),
       leTopology := map TrimSpace (leTopology e)\<rparr>"

definition validateLeaseEntry :: "(string \<Rightarrow> string) \<Rightarrow> LeaseEntry \<Rightarrow> go_time \<Rightarrow> route_error option" where
  "validateLeaseEntry hex256 e now =
     (if leVersion e \<noteq> LeaseRegistryVersion \<or> ValidateID (leLinkID e) \<noteq> None
         \<or> ValidateTransportID (leTransportID e) \<noteq> None \<or> leGeneration e = 0
         \<or> leBinding e = [] \<or> leSocket e = [] \<or> leLocalNode e = [] \<or> lePeerNode e = []
         \<or> leChainID e = [] \<or> length (leChainSHA256 e) \<noteq> 64 \<or> length (leTopology e) < 2
         \<or> lePID e \<le> 0 \<or> leStartedAt e = 0 \<or> leUpdatedAt e = 0 \<or> leLeaseUntil e = 0 then Some ErrInvalidEntry
      else if \<not> now < leLeaseUntil e \<or> MaxLease < leLeaseUntil e - now then Some (RouteLink ErrInvalidLease)
      else if \<not> adjacentPlaces (leTopology e) (leLocalIndex e) (lePeerIndex e) (leLocalNode e) (lePeerNode e) then
        Some ErrInvalidEntry
      else if DeriveID hex256 \<lparr>dChainSHA256 = leChainSHA256 e, dTopology = leTopology e,
                dLocalNode = leLocalNode e, dPeerNode = lePeerNode e\<rparr> \<noteq> Inr (leLinkID e) then Some ErrInvalidEntry
      else None)"

definition expiredLease :: "LeaseEntry \<Rightarrow> go_time \<Rightarrow> bool" where
  "expiredLease e now = (leLeaseUntil e = 0 \<or> \<not> now < leLeaseUntil e)"

definition NewLeaseEntry ::
  "(string \<Rightarrow> string) \<Rightarrow> go_time \<Rightarrow> NodeContext \<Rightarrow> string \<Rightarrow> string \<Rightarrow> string \<Rightarrow> int \<Rightarrow> go_time \<Rightarrow> LinkToken \<Rightarrow>
     go_time \<Rightarrow> route_error + LeaseEntry" where
  "NewLeaseEntry hex256 clock context binding socket peerNode pid started token leaseUntil =
     (let c = NodeContext_Normalized context in
      case NodeContext_Validate c of
        Some e \<Rightarrow> Inl (RouteAuth e)
      | None \<Rightarrow>
          let startedAt = (if started = 0 then clock else started) in
          case DeriveID hex256 \<lparr>dChainSHA256 = ncChainSHA256 c, dTopology = ncNodes c,
                 dLocalNode = ncCurrentNode c, dPeerNode = TrimSpace peerNode\<rparr> of
            Inl e \<Rightarrow> Inl (RouteLink e)
          | Inr linkID \<Rightarrow>
              if tLinkID token \<noteq> linkID \<or> ValidateTransportID (tTransportID token) \<noteq> None \<or> tGeneration token = 0 then
                Inl (RouteLink ErrGenerationMismatch)
              else
                let entry = normalizeLeaseEntry
                  \<lparr>leVersion = LeaseRegistryVersion, leLinkID = tLinkID token, leTransportID = tTransportID token,
                   leGeneration = tGeneration token, leBinding = binding, leSocket = socket,
                   leLocalNode = ncCurrentNode c, lePeerNode = peerNode, leChainID = ncChainID c,
                   leChainSHA256 = ncChainSHA256 c, leTopology = ncNodes c,
                   leLocalIndex = indexOf (ncNodes c) (ncCurrentNode c),
                   lePeerIndex = indexOf (ncNodes c) (TrimSpace peerNode), lePID = pid, leStartedAt = startedAt,
                   leUpdatedAt = startedAt, leLeaseUntil = leaseUntil\<rparr> in
                case validateLeaseEntry hex256 entry startedAt of Some e \<Rightarrow> Inl e | None \<Rightarrow> Inr entry)"

section \<open>Operations\<close>

text \<open>The entries an operation at \<open>now\<close> keeps: normalised, not expired, valid.\<close>

definition liveEntries :: "(string \<Rightarrow> string) \<Rightarrow> go_time \<Rightarrow> LeaseEntry list \<Rightarrow> LeaseEntry list" where
  "liveEntries hex256 now es =
     filter (\<lambda>e. \<not> (expiredLease e now \<or> validateLeaseEntry hex256 e now \<noteq> None)) (map normalizeLeaseEntry es)"

definition snapshotUnlocked :: "LeaseEntry store_env \<Rightarrow> disk_io \<Rightarrow> disk \<Rightarrow> route_error + LeaseRegistry" where
  "snapshotUnlocked env io disk = readRegistry LeaseRegistryVersion (seUnmarshal env) (ioRead io) disk"

definition LeaseStore_mutate ::
  "LeaseEntry store_env \<Rightarrow> disk_io \<Rightarrow> go_duration \<Rightarrow> (LeaseRegistry \<Rightarrow> route_error + LeaseRegistry) \<Rightarrow> disk \<Rightarrow>
     (route_error option \<times> disk) option" where
  "LeaseStore_mutate env io timeout apply disk =
     mutateFile env io timeout LeaseRegistryVersion (snapshotUnlocked env io) apply disk"

text \<open>
  The loop of \<open>Register\<close>: other links are kept, an entry of the same link is dropped unless it
  forbids the registration.
\<close>

fun registerLoop :: "LeaseEntry \<Rightarrow> LeaseEntry list \<Rightarrow> route_error + LeaseEntry list" where
  "registerLoop entry [] = Inr []"
| "registerLoop entry (existing # rest) =
     (if leLinkID existing \<noteq> leLinkID entry then
        (case registerLoop entry rest of Inl e \<Rightarrow> Inl e | Inr es \<Rightarrow> Inr (existing # es))
      else if leGeneration entry < leGeneration existing then Inl (RouteLink ErrGenerationMismatch)
      else if leGeneration existing = leGeneration entry \<and> leTransportID existing \<noteq> leTransportID entry then
        Inl (RouteLink ErrGenerationMismatch)
      else registerLoop entry rest)"

definition Lease_Register ::
  "(string \<Rightarrow> string) \<Rightarrow> LeaseEntry store_env \<Rightarrow> disk_io \<Rightarrow> go_duration \<Rightarrow> go_time \<Rightarrow> LeaseEntry \<Rightarrow> disk \<Rightarrow>
     (route_error option \<times> disk) option" where
  "Lease_Register hex256 env io timeout now raw disk =
     (let entry = normalizeLeaseEntry raw in
      case validateLeaseEntry hex256 entry now of
        Some e \<Rightarrow> Some (Some e, disk)
      | None \<Rightarrow>
          LeaseStore_mutate env io timeout
            (\<lambda>r. case registerLoop entry (liveEntries hex256 now (rgEntries r)) of
                   Inl e \<Rightarrow> Inl e
                 | Inr es \<Rightarrow> Inr (r\<lparr>rgEntries := es @ [entry]\<rparr>)) disk)"

text \<open>The loop of \<open>Renew\<close>: the entries it keeps, and whether the token's entry was among them.\<close>

fun renewLoop :: "LinkToken \<Rightarrow> go_time \<Rightarrow> go_time \<Rightarrow> LeaseEntry list \<Rightarrow> route_error + LeaseEntry list \<times> bool" where
  "renewLoop token now leaseUntil [] = Inr ([], False)"
| "renewLoop token now leaseUntil (entry # rest) =
     (if leLinkID entry = tLinkID token then
        if leTransportID entry \<noteq> tTransportID token \<or> leGeneration entry \<noteq> tGeneration token then
          Inl (RouteLink ErrGenerationMismatch)
        else
          (case renewLoop token now leaseUntil rest of
             Inl e \<Rightarrow> Inl e
           | Inr (es, _) \<Rightarrow> Inr (entry\<lparr>leLeaseUntil := leaseUntil, leUpdatedAt := now\<rparr> # es, True))
      else
        (case renewLoop token now leaseUntil rest of
           Inl e \<Rightarrow> Inl e
         | Inr (es, found) \<Rightarrow> Inr (entry # es, found)))"

definition Lease_Renew ::
  "(string \<Rightarrow> string) \<Rightarrow> LeaseEntry store_env \<Rightarrow> disk_io \<Rightarrow> go_duration \<Rightarrow> go_time \<Rightarrow> LinkToken \<Rightarrow> go_time \<Rightarrow> disk \<Rightarrow>
     (route_error option \<times> disk) option" where
  "Lease_Renew hex256 env io timeout now token leaseUntil disk =
     (if leaseUntil = 0 \<or> \<not> now < leaseUntil \<or> MaxLease < leaseUntil - now then
        Some (Some (RouteLink ErrInvalidLease), disk)
      else LeaseStore_mutate env io timeout
        (\<lambda>r. case renewLoop token now leaseUntil (liveEntries hex256 now (rgEntries r)) of
               Inl e \<Rightarrow> Inl e
             | Inr (es, found) \<Rightarrow> if \<not> found then Inl ErrNoRoute else Inr (r\<lparr>rgEntries := es\<rparr>)) disk)"

definition Lease_Remove ::
  "(string \<Rightarrow> string) \<Rightarrow> LeaseEntry store_env \<Rightarrow> disk_io \<Rightarrow> go_duration \<Rightarrow> go_time \<Rightarrow> LinkToken \<Rightarrow> disk \<Rightarrow>
     (route_error option \<times> disk) option" where
  "Lease_Remove hex256 env io timeout now token disk =
     LeaseStore_mutate env io timeout
       (\<lambda>r. Inr (r\<lparr>rgEntries :=
          filter (\<lambda>e. \<not> (leLinkID e = tLinkID token \<and> leTransportID e = tTransportID token
                        \<and> leGeneration e = tGeneration token)) (liveEntries hex256 now (rgEntries r))\<rparr>)) disk"

definition Lease_ResetLink ::
  "(string \<Rightarrow> string) \<Rightarrow> LeaseEntry store_env \<Rightarrow> disk_io \<Rightarrow> go_duration \<Rightarrow> go_time \<Rightarrow> string \<Rightarrow> disk \<Rightarrow>
     (route_error option \<times> disk) option" where
  "Lease_ResetLink hex256 env io timeout now linkID disk =
     (if ValidateID linkID \<noteq> None then Some (Some (RouteLink ErrInvalidDescriptor), disk)
      else LeaseStore_mutate env io timeout
        (\<lambda>r. Inr (r\<lparr>rgEntries := filter (\<lambda>e. leLinkID e \<noteq> linkID) (liveEntries hex256 now (rgEntries r))\<rparr>)) disk)"

text \<open>The order of a snapshot, and the order in which \<open>ResolveAdjacent\<close> prefers leases.\<close>

definition leaseBefore :: "LeaseEntry \<Rightarrow> LeaseEntry \<Rightarrow> bool" where
  "leaseBefore a b =
     (if leLinkID a = leLinkID b then leGeneration b < leGeneration a else leLinkID a < leLinkID b)"

definition leaseNewer :: "LeaseEntry \<Rightarrow> LeaseEntry \<Rightarrow> bool" where
  "leaseNewer a b =
     (if leGeneration a = leGeneration b then leUpdatedAt b < leUpdatedAt a else leGeneration b < leGeneration a)"

definition Lease_Snapshot ::
  "(string \<Rightarrow> string) \<Rightarrow> LeaseEntry store_env \<Rightarrow> disk_io \<Rightarrow> go_time \<Rightarrow> disk \<Rightarrow> route_error + LeaseRegistry" where
  "Lease_Snapshot hex256 env io now disk =
     (if \<not> ioPath io then Inl ErrOS
      else case readRegistry LeaseRegistryVersion (seUnmarshal env) (ioRead io) disk of
        Inl e \<Rightarrow> Inl e
      | Inr registry \<Rightarrow>
          Inr (registry\<lparr>rgEntries :=
            seSort env leaseBefore (liveEntries hex256 now (rgEntries registry))\<rparr>))"

definition Lease_ResolveAdjacent ::
  "(string \<Rightarrow> string) \<Rightarrow> LeaseEntry store_env \<Rightarrow> disk_io \<Rightarrow> go_time \<Rightarrow> string \<Rightarrow> NodeContext \<Rightarrow> string \<Rightarrow> disk \<Rightarrow>
     (route_error + LeaseEntry) \<times> string \<times> int" where
  "Lease_ResolveAdjacent hex256 env io now currentBinding context target disk =
     (let c = NodeContext_Normalized context in
      case NodeContext_Validate c of
        Some e \<Rightarrow> (Inl (RouteAuth e), [], -1)
      | None \<Rightarrow>
          let currentIndex = indexOf (ncNodes c) (ncCurrentNode c) in
          case ResolveNode c target of
            Inl e \<Rightarrow> (Inl e, [], -1)
          | Inr (targetNode, targetIndex) \<Rightarrow>
              if targetIndex = currentIndex then (Inl ErrTargetLocal, targetNode, targetIndex)
              else
                let desiredPeer = (if currentIndex < targetIndex then currentIndex + 1 else currentIndex - 1) in
                case Lease_Snapshot hex256 env io now disk of
                  Inl e \<Rightarrow> (Inl e, [], -1)
                | Inr registry \<Rightarrow>
                    let candidates = filter (\<lambda>e. isCandidate (TrimSpace currentBinding) c currentIndex desiredPeer
                                                   (LegacyEntry e)) (rgEntries registry) in
                    if candidates = [] then (Inl ErrNoRoute, targetNode, targetIndex)
                    else (Inr (hd (seSort env leaseNewer candidates)), targetNode, targetIndex))"

section \<open>Live entries\<close>

lemma weak_order_lex:
  fixes k :: "'a \<Rightarrow> 'k :: linorder" and l :: "'a \<Rightarrow> 'l :: linorder"
  shows "weak_order (\<lambda>a b. if k a = k b then l b < l a else k a < k b)"
    "weak_order (\<lambda>a b. if l a = l b then k b < k a else l b < l a)"
proof -
  have "\<not> (if k c = k a then l a < l c else k c < k a)"
    if "\<not> (if k b = k a then l a < l b else k b < k a)" "\<not> (if k c = k b then l b < l c else k c < k b)" for a b c
    using that by (cases "k b = k a"; cases "k c = k b") (simp_all, (metis less_asym' linorder_less_linear order_less_trans)+)
  then show "weak_order (\<lambda>a b. if k a = k b then l b < l a else k a < k b)"
    unfolding weak_order_def by (metis less_asym')
  have "\<not> (if l c = l a then k a < k c else l a < l c)"
    if "\<not> (if l b = l a then k a < k b else l a < l b)" "\<not> (if l c = l b then k b < k c else l b < l c)" for a b c
    using that by (cases "l b = l a"; cases "l c = l b") (simp_all, (metis less_asym' linorder_less_linear order_less_trans)+)
  then show "weak_order (\<lambda>a b. if l a = l b then k b < k a else l b < l a)"
    unfolding weak_order_def by (metis less_asym')
qed

lemma leaseNewer_weak: "weak_order leaseNewer"
  unfolding leaseNewer_def by (rule weak_order_lex(2))

lemma normalizeLeaseEntry_sel [simp]:
  "leLinkID (normalizeLeaseEntry e) = TrimSpace (leLinkID e)"
  "leTransportID (normalizeLeaseEntry e) = TrimSpace (leTransportID e)"
  "leGeneration (normalizeLeaseEntry e) = leGeneration e"
  "leLeaseUntil (normalizeLeaseEntry e) = leLeaseUntil e"
  by (simp_all add: normalizeLeaseEntry_def)

lemma normalizeLeaseEntry_idem [simp]: "normalizeLeaseEntry (normalizeLeaseEntry e) = normalizeLeaseEntry e"
  by (rule LeaseEntry.equality) (simp_all add: normalizeLeaseEntry_def LeaseRegistryVersion_def)

lemma normalizeLeaseEntry_lease:
  "normalizeLeaseEntry e = e \<Longrightarrow> normalizeLeaseEntry (e\<lparr>leLeaseUntil := t, leUpdatedAt := u\<rparr>) = e\<lparr>leLeaseUntil := t, leUpdatedAt := u\<rparr>"
  by (cases e) (auto simp: normalizeLeaseEntry_def split: if_splits)

lemma set_liveEntries:
  "e \<in> set (liveEntries hex256 now es) \<longleftrightarrow>
     e \<in> normalizeLeaseEntry ` set es \<and> \<not> expiredLease e now \<and> validateLeaseEntry hex256 e now = None"
  by (auto simp: liveEntries_def)

lemma live_normal: "e \<in> set (liveEntries hex256 now es) \<Longrightarrow> normalizeLeaseEntry e = e"
  by (auto simp: set_liveEntries)

lemma liveEntries_normal:
  assumes "list_all (\<lambda>e. normalizeLeaseEntry e = e) es"
  shows "liveEntries hex256 now es = filter (\<lambda>e. \<not> expiredLease e now \<and> validateLeaseEntry hex256 e now = None) es"
proof -
  have "map normalizeLeaseEntry es = es" using assms by (simp add: list_all_iff map_idI)
  then show ?thesis by (simp add: liveEntries_def)
qed

lemma liveEntries_distinct:
  "distinct (map (\<lambda>e. TrimSpace (leLinkID e)) es) \<Longrightarrow> distinct (map leLinkID (liveEntries hex256 now es))"
  unfolding liveEntries_def by (induction es) auto

section \<open>The loops\<close>

lemma registerLoop_Inr:
  "registerLoop entry es = Inr es' \<Longrightarrow>
     es' = filter (\<lambda>e. leLinkID e \<noteq> leLinkID entry) es
     \<and> (\<forall>e \<in> set es. leLinkID e = leLinkID entry \<longrightarrow>
          leGeneration e < leGeneration entry
          \<or> leGeneration e = leGeneration entry \<and> leTransportID e = leTransportID entry)"
  by (induction entry es arbitrary: es' rule: registerLoop.induct) (auto split: if_splits sum.splits)

lemma renewLoop_Inr:
  "renewLoop token now leaseUntil es = Inr (es', found) \<Longrightarrow>
     es' = map (\<lambda>e. if leLinkID e = tLinkID token then e\<lparr>leLeaseUntil := leaseUntil, leUpdatedAt := now\<rparr> else e) es
     \<and> (\<forall>e \<in> set es. leLinkID e = tLinkID token \<longrightarrow>
          leTransportID e = tTransportID token \<and> leGeneration e = tGeneration token)
     \<and> found = (\<exists>e \<in> set es. leLinkID e = tLinkID token)"
proof (induction token now leaseUntil es arbitrary: es' found rule: renewLoop.induct)
  case (2 token now leaseUntil entry rest)
  obtain es1 f1 where r: "renewLoop token now leaseUntil rest = Inr (es1, f1)"
    using "2.prems" by (auto split: if_splits sum.splits)
  show ?case
  proof (cases "leLinkID entry = tLinkID token")
    case True
    have g: "\<not> (leTransportID entry \<noteq> tTransportID token \<or> leGeneration entry \<noteq> tGeneration token)"
      using "2.prems" True by (simp split: if_splits)
    have e: "es' = entry\<lparr>leLeaseUntil := leaseUntil, leUpdatedAt := now\<rparr> # es1" "found = True"
      using "2.prems" True g r by simp_all
    from "2.IH"(1) [OF True g r] True g show ?thesis unfolding e by simp
  next
    case False
    have e: "es' = entry # es1" "found = f1" using "2.prems" False r by simp_all
    from "2.IH"(2) [OF False r] False show ?thesis unfolding e by simp
  qed
qed simp

section \<open>One entry per link\<close>

text \<open>
  What the store relies on of JSON: a registry of the current version whose texts are ASCII is decoded as
  it was encoded. (Go's encoder replaces bytes that are not UTF-8.)
\<close>

definition ascii_text :: "string \<Rightarrow> bool" where
  "ascii_text s = list_all (\<lambda>c. (of_char c :: nat) < 128) s"

definition lease_ascii :: "LeaseEntry \<Rightarrow> bool" where
  "lease_ascii e = list_all ascii_text
     ([leVersion e, leLinkID e, leTransportID e, leBinding e, leSocket e, leLocalNode e, lePeerNode e, leChainID e, leChainSHA256 e]
      @ leTopology e)"

definition json_ok :: "LeaseEntry store_env \<Rightarrow> bool" where
  "json_ok env = (\<forall>r p. rgVersion r = LeaseRegistryVersion \<and> list_all lease_ascii (rgEntries r) \<and> seMarshal env r = Some p
     \<longrightarrow> seUnmarshal env (p @ [10]) = Some r)"

lemma ascii_TrimSpace: "ascii_text s \<Longrightarrow> ascii_text (TrimSpace s)"
proof -
  have "set (trimLeft s) \<subseteq> set s" by (simp add: trimLeft_def set_mono_suffix suffix_strip)
  then have "set (TrimSpace s) \<subseteq> set s"
    using set_mono_prefix [OF prefix_trimRight, of "trimLeft s"] unfolding TrimSpace_def by blast
  then show "ascii_text s \<Longrightarrow> ascii_text (TrimSpace s)" by (auto simp: ascii_text_def list_all_iff)
qed

lemma ascii_ToLower: "ascii_text s \<Longrightarrow> ascii_text (ToLower s)"
proof -
  have "(of_char (lower_char c) :: nat) < 128" if "(of_char c :: nat) < 128" for c
    using that by (simp add: lower_char_def Let_def)
  then show "ascii_text s \<Longrightarrow> ascii_text (ToLower s)" by (simp add: ascii_text_def ToLower_def list_all_iff)
qed

lemma lease_ascii_normal: "lease_ascii e \<Longrightarrow> lease_ascii (normalizeLeaseEntry e)"
proof -
  have "ascii_text LeaseRegistryVersion" by code_simp
  then show "lease_ascii e \<Longrightarrow> lease_ascii (normalizeLeaseEntry e)"
    by (simp add: lease_ascii_def normalizeLeaseEntry_def list_all_iff ascii_TrimSpace ascii_ToLower)
qed

lemma live_ascii: "list_all lease_ascii es \<Longrightarrow> list_all lease_ascii (liveEntries hex256 now es)"
  by (auto simp: list_all_iff set_liveEntries lease_ascii_normal)

text \<open>The steps of any number of processes on the file; what they register is in ASCII.\<close>

inductive lease_step :: "(string \<Rightarrow> string) \<Rightarrow> LeaseEntry store_env \<Rightarrow> disk \<Rightarrow> disk \<Rightarrow> bool" for hex256 env where
  ld_register: "lease_ascii raw \<Longrightarrow> Lease_Register hex256 env io timeout now raw d = Some (res, d') \<Longrightarrow> lease_step hex256 env d d'"
| ld_renew: "Lease_Renew hex256 env io timeout now token leaseUntil d = Some (res, d') \<Longrightarrow> lease_step hex256 env d d'"
| ld_remove: "Lease_Remove hex256 env io timeout now token d = Some (res, d') \<Longrightarrow> lease_step hex256 env d d'"
| ld_reset: "Lease_ResetLink hex256 env io timeout now linkID d = Some (res, d') \<Longrightarrow> lease_step hex256 env d d'"

definition link_ids :: "LeaseEntry list \<Rightarrow> string list" where
  "link_ids es = map (\<lambda>e. TrimSpace (leLinkID e)) es"

definition lease_inv :: "LeaseEntry store_env \<Rightarrow> disk \<Rightarrow> bool" where
  "lease_inv env d =
     (\<forall>payload r. dkFile d = Some payload \<longrightarrow> seUnmarshal env payload = Some r \<longrightarrow>
        distinct (link_ids (rgEntries r)) \<and> list_all lease_ascii (rgEntries r))"

lemma link_ids_normal:
  assumes "\<And>e. e \<in> set es \<Longrightarrow> normalizeLeaseEntry e = e"
  shows "link_ids es = map leLinkID es"
proof -
  have "TrimSpace (leLinkID e) = leLinkID e" if "normalizeLeaseEntry e = e" for e
    using arg_cong [OF that, of leLinkID] unfolding normalizeLeaseEntry_sel .
  then show ?thesis unfolding link_ids_def using assms by (intro map_cong) simp_all
qed

lemma link_ids_live: "link_ids (liveEntries hex256 now es) = map leLinkID (liveEntries hex256 now es)"
  by (rule link_ids_normal) (rule live_normal)

lemma live_link_ids: "distinct (link_ids es) \<Longrightarrow> distinct (link_ids (liveEntries hex256 now es))"
  unfolding link_ids_live by (rule liveEntries_distinct) (simp add: link_ids_def)

lemma read_inv:
  "lease_inv env d \<Longrightarrow> snapshotUnlocked env io d = Inr r \<Longrightarrow> distinct (link_ids (rgEntries r)) \<and> list_all lease_ascii (rgEntries r)"
  by (auto simp: lease_inv_def snapshotUnlocked_def readRegistry_def link_ids_def split: option.splits if_splits)

lemma LeaseStore_mutate_ok:
  assumes "LeaseStore_mutate env io timeout apply d = Some (None, d')"
  obtains r r' encoded where "snapshotUnlocked env io d = Inr r" "apply (r\<lparr>rgVersion := LeaseRegistryVersion\<rparr>) = Inr r'"
    "seMarshal env r' = Some encoded" "length encoded < maxRegistryBytes" "dkFile d' = Some (encoded @ [10])"
  using mutateFile_ok [OF assms [unfolded LeaseStore_mutate_def]] by auto

lemma LeaseStore_mutate_inv:
  assumes "json_ok env" "lease_inv env d" "LeaseStore_mutate env io timeout apply d = Some (res, d')"
    and keep: "\<And>r r'. distinct (link_ids (rgEntries r)) \<Longrightarrow> list_all lease_ascii (rgEntries r) \<Longrightarrow> apply r = Inr r' \<Longrightarrow>
      distinct (link_ids (rgEntries r')) \<and> list_all lease_ascii (rgEntries r') \<and> rgVersion r' = rgVersion r"
  shows "lease_inv env d'"
proof (cases res)
  case (Some e)
  then have "dkFile d' = dkFile d" using mutateFile_fails assms(3) unfolding LeaseStore_mutate_def by metis
  with assms(2) show ?thesis by (simp add: lease_inv_def)
next
  case None
  obtain r r' encoded where m: "snapshotUnlocked env io d = Inr r"
    "apply (r\<lparr>rgVersion := LeaseRegistryVersion\<rparr>) = Inr r'" "seMarshal env r' = Some encoded" "dkFile d' = Some (encoded @ [10])"
    using LeaseStore_mutate_ok [OF assms(3) [unfolded None]] by blast
  from keep [OF _ _ m(2)] read_inv [OF assms(2) m(1)]
  have "distinct (link_ids (rgEntries r'))" "list_all lease_ascii (rgEntries r')" "rgVersion r' = LeaseRegistryVersion" by simp_all
  moreover from this have "seUnmarshal env (encoded @ [10]) = Some r'" using assms(1) m(3) unfolding json_ok_def by blast
  ultimately show ?thesis using m(4) by (simp add: lease_inv_def)
qed

lemma link_ids_filter: "distinct (link_ids es) \<Longrightarrow> distinct (link_ids (filter P es))"
  by (simp add: link_ids_def distinct_map_filter)

lemma filter_ascii: "list_all lease_ascii es \<Longrightarrow> list_all lease_ascii (filter P es)"
  by (auto simp: list_all_iff)

lemma register_link_ids:
  assumes "distinct (link_ids es0)" "registerLoop (normalizeLeaseEntry raw) (liveEntries hex256 now es0) = Inr es"
  shows "distinct (link_ids (es @ [normalizeLeaseEntry raw]))"
proof -
  let ?e = "normalizeLeaseEntry raw"
  from registerLoop_Inr [OF assms(2)] have es: "es = filter (\<lambda>e. leLinkID e \<noteq> leLinkID ?e) (liveEntries hex256 now es0)"
    by blast
  have "link_ids es = map leLinkID es"
    unfolding es by (rule link_ids_normal) (auto dest: live_normal)
  then have "leLinkID ?e \<notin> set (link_ids es)" unfolding es by auto
  moreover have "distinct (link_ids es)" unfolding es by (intro link_ids_filter live_link_ids assms(1))
  ultimately show ?thesis by (simp add: link_ids_def)
qed

lemma register_ascii:
  assumes "list_all lease_ascii es0" "lease_ascii raw" "registerLoop (normalizeLeaseEntry raw) (liveEntries hex256 now es0) = Inr es"
  shows "list_all lease_ascii es \<and> lease_ascii (normalizeLeaseEntry raw)"
  using registerLoop_Inr [OF assms(3)] live_ascii [OF assms(1)] lease_ascii_normal [OF assms(2)] by (auto simp: list_all_iff)

lemma renew_ascii:
  assumes "list_all lease_ascii es0" "renewLoop token now leaseUntil (liveEntries hex256 now es0) = Inr (es, found)"
  shows "list_all lease_ascii es"
proof -
  have "lease_ascii (e\<lparr>leLeaseUntil := t, leUpdatedAt := u\<rparr>) = lease_ascii e" for e t u by (simp add: lease_ascii_def)
  then show ?thesis using renewLoop_Inr [OF assms(2)] live_ascii [OF assms(1)] by (auto simp: list_all_iff)
qed

lemma renew_link_ids:
  assumes "distinct (link_ids es0)" "renewLoop token now leaseUntil (liveEntries hex256 now es0) = Inr (es, found)"
  shows "distinct (link_ids es)"
proof -
  have "link_ids es = link_ids (liveEntries hex256 now es0)"
    using renewLoop_Inr [OF assms(2)] by (simp add: link_ids_def)
  with live_link_ids [OF assms(1)] show ?thesis by simp
qed

lemma lease_inv_step:
  assumes "lease_step hex256 env d d'" "json_ok env" "lease_inv env d"
  shows "lease_inv env d'"
  using assms(1)
proof cases
  case (ld_register raw io timeout now res)
  let ?e = "normalizeLeaseEntry raw"
  show ?thesis
  proof (cases "validateLeaseEntry hex256 ?e now")
    case None
    have "LeaseStore_mutate env io timeout
            (\<lambda>r. case registerLoop ?e (liveEntries hex256 now (rgEntries r)) of
                   Inl e \<Rightarrow> Inl e | Inr es \<Rightarrow> Inr (r\<lparr>rgEntries := es @ [?e]\<rparr>)) d = Some (res, d')"
      using ld_register None by (simp add: Lease_Register_def Let_def)
    then show ?thesis by (rule LeaseStore_mutate_inv [OF assms(2,3)]) (use ld_register(1) in \<open>auto split: sum.splits intro: register_link_ids dest: register_ascii\<close>)
  qed (use ld_register assms(3) in \<open>simp add: Lease_Register_def Let_def\<close>)
next
  case (ld_renew io timeout now token leaseUntil res)
  show ?thesis
  proof (cases "leaseUntil = 0 \<or> \<not> now < leaseUntil \<or> MaxLease < leaseUntil - now")
    case False
    have "LeaseStore_mutate env io timeout
        (\<lambda>r. case renewLoop token now leaseUntil (liveEntries hex256 now (rgEntries r)) of
               Inl e \<Rightarrow> Inl e
             | Inr (es, found) \<Rightarrow> if \<not> found then Inl ErrNoRoute else Inr (r\<lparr>rgEntries := es\<rparr>)) d = Some (res, d')"
      using ld_renew False by (simp add: Lease_Renew_def)
    then show ?thesis
      by (rule LeaseStore_mutate_inv [OF assms(2,3)]) (auto split: sum.splits prod.splits if_splits intro: renew_link_ids renew_ascii)
  qed (use ld_renew assms(3) in \<open>simp add: Lease_Renew_def\<close>)
next
  case (ld_remove io timeout now token res)
  then show ?thesis unfolding Lease_Remove_def
    by (rule LeaseStore_mutate_inv [OF assms(2,3)]) (auto simp: link_ids_filter live_link_ids filter_ascii live_ascii)
next
  case (ld_reset io timeout now linkID res)
  show ?thesis
  proof (cases "ValidateID linkID")
    case None
    show ?thesis
      by (rule LeaseStore_mutate_inv [OF assms(2,3) ld_reset [unfolded Lease_ResetLink_def None, simplified]])
         (auto simp: link_ids_filter live_link_ids filter_ascii live_ascii)
  qed (use ld_reset assms(3) in \<open>simp add: Lease_ResetLink_def\<close>)
qed

lemma Lease_Snapshot_entries:
  assumes "sort_slice (seSort env)" "Lease_Snapshot hex256 env io now d = Inr r"
  shows "\<exists>raw. snapshotUnlocked env io d = Inr raw
    \<and> set (rgEntries r) = set (liveEntries hex256 now (rgEntries raw))
    \<and> distinct (map leLinkID (rgEntries r)) = distinct (map leLinkID (liveEntries hex256 now (rgEntries raw)))"
proof -
  obtain raw where raw: "snapshotUnlocked env io d = Inr raw"
    using assms(2) unfolding Lease_Snapshot_def snapshotUnlocked_def
    by (cases "readRegistry LeaseRegistryVersion (seUnmarshal env) (ioRead io) d") (simp_all split: if_splits)
  have e: "rgEntries r = seSort env leaseBefore (liveEntries hex256 now (rgEntries raw))"
    using assms(2) raw unfolding Lease_Snapshot_def snapshotUnlocked_def by (auto split: if_splits)
  have "weak_order leaseBefore" unfolding leaseBefore_def by (rule weak_order_lex(1))
  note sort_slice_set [OF assms(1) this] sort_slice_distinct [OF assms(1) this, of leLinkID]
  with raw e show ?thesis by (intro exI [of _ raw]) simp
qed

text \<open>
  The lease file never holds two entries for one link: whatever sequence of \<open>Register\<close>,
  \<open>Renew\<close>, \<open>Remove\<close> and \<open>ResetLink\<close>, successful or not, produced the file, the entries a
  \<open>Snapshot\<close> at any time returns have pairwise different link IDs.
\<close>

theorem lease_unique:
  assumes "json_ok env" "sort_slice (seSort env)"
    and "(lease_step hex256 env)\<^sup>*\<^sup>* \<lparr>dkFile = None, dkTemps = 0\<rparr> d"
    and "Lease_Snapshot hex256 env io now d = Inr r"
  shows "distinct (map leLinkID (rgEntries r))"
proof -
  have "lease_inv env d"
    using assms(3)
  proof (induction rule: rtranclp_induct)
    case base
    show ?case by (simp add: lease_inv_def)
  next
    case (step d1 d2)
    then show ?case using lease_inv_step assms(1) by blast
  qed
  moreover obtain raw where raw: "snapshotUnlocked env io d = Inr raw"
    "distinct (map leLinkID (rgEntries r)) = distinct (map leLinkID (liveEntries hex256 now (rgEntries raw)))"
    using Lease_Snapshot_entries [OF assms(2,4)] by blast
  ultimately show ?thesis using live_link_ids [OF conjunct1 [OF read_inv]] link_ids_live by metis
qed

text \<open>What a successful mutation leaves for a snapshot at the same time.\<close>

lemma Lease_Snapshot_after:
  assumes "json_ok env" "sort_slice (seSort env)" "LeaseStore_mutate env io timeout apply d = Some (None, d')"
    and v: "\<And>r r'. apply r = Inr r' \<Longrightarrow> rgVersion r' = rgVersion r" and io: "ioPath io" "ioRead io"
    and a: "\<And>r r'. snapshotUnlocked env io d = Inr r \<Longrightarrow> apply (r\<lparr>rgVersion := LeaseRegistryVersion\<rparr>) = Inr r' \<Longrightarrow> list_all lease_ascii (rgEntries r')"
  shows "\<exists>raw r' after. snapshotUnlocked env io d = Inr raw \<and> apply (raw\<lparr>rgVersion := LeaseRegistryVersion\<rparr>) = Inr r'
    \<and> Lease_Snapshot hex256 env io now d' = Inr after
    \<and> set (rgEntries after) = set (liveEntries hex256 now (rgEntries r'))"
proof -
  obtain raw r' encoded where m: "snapshotUnlocked env io d = Inr raw"
    "apply (raw\<lparr>rgVersion := LeaseRegistryVersion\<rparr>) = Inr r'" "seMarshal env r' = Some encoded"
    "length encoded < maxRegistryBytes" "dkFile d' = Some (encoded @ [10])"
    using LeaseStore_mutate_ok [OF assms(3)] by blast
  have "seUnmarshal env (encoded @ [10]) = Some r'"
    using assms(1) m(3) a [OF m(1,2)] v [OF m(2)] by (simp add: json_ok_def)
  then have rd: "readRegistry LeaseRegistryVersion (seUnmarshal env) (ioRead io) d' = Inr r'"
    using m v [OF m(2)] io by (simp add: readRegistry_def)
  then obtain after where s: "Lease_Snapshot hex256 env io now d' = Inr after"
    using io by (simp add: Lease_Snapshot_def)
  from Lease_Snapshot_entries [OF assms(2) s] rd m(1,2) s show ?thesis by (auto simp: snapshotUnlocked_def)
qed

lemma snapshot_readable:
  "Lease_Snapshot hex256 env io now d = Inr r \<Longrightarrow> sort_slice (seSort env) \<Longrightarrow> e \<in> set (rgEntries r) \<Longrightarrow>
     ioPath io \<and> ioRead io"
proof -
  assume s: "Lease_Snapshot hex256 env io now d = Inr r" "sort_slice (seSort env)" "e \<in> set (rgEntries r)"
  obtain raw where "snapshotUnlocked env io d = Inr raw" "e \<in> set (liveEntries hex256 now (rgEntries raw))"
    using Lease_Snapshot_entries [OF s(2,1)] s(3) by blast
  then have "ioRead io"
    by (auto simp: snapshotUnlocked_def readRegistry_def liveEntries_def split: option.splits if_splits)
  with s(1) show ?thesis by (simp add: Lease_Snapshot_def split: if_splits)
qed

text \<open>A live entry \<open>e\<close> of the store and what each operation of another holder does about it.\<close>

lemma live_entry_read:
  assumes "sort_slice (seSort env)" "Lease_Snapshot hex256 env io now d = Inr r" "e \<in> set (rgEntries r)"
  obtains raw0 where "snapshotUnlocked env io d = Inr raw0" "e \<in> set (liveEntries hex256 now (rgEntries raw0))"
  using Lease_Snapshot_entries [OF assms(1,2)] assms(3) by blast

lemma LeaseStore_mutate_fails: "LeaseStore_mutate env io timeout f d = Some (res, d') \<Longrightarrow> res \<noteq> None \<Longrightarrow> dkFile d' = dkFile d"
  using mutateFile_fails unfolding LeaseStore_mutate_def by blast

lemma Lease_Register_refused:
  assumes "snapshotUnlocked env io d = Inr raw0" "e \<in> set (liveEntries hex256 now (rgEntries raw0))"
    and c: "TrimSpace (leLinkID raw) = leLinkID e"
      "leGeneration raw < leGeneration e \<or> leGeneration raw = leGeneration e \<and> TrimSpace (leTransportID raw) \<noteq> leTransportID e"
    and reg: "Lease_Register hex256 env io timeout now raw d = Some (res, d')"
  shows "res \<noteq> None \<and> dkFile d' = dkFile d"
proof (cases "validateLeaseEntry hex256 (normalizeLeaseEntry raw) now")
  case None
  let ?e = "normalizeLeaseEntry raw"
  let ?apply = "\<lambda>r. case registerLoop ?e (liveEntries hex256 now (rgEntries r)) of
                 Inl e \<Rightarrow> Inl e | Inr es \<Rightarrow> Inr (r\<lparr>rgEntries := es @ [?e]\<rparr>)"
  have m: "LeaseStore_mutate env io timeout ?apply d = Some (res, d')"
    using None reg by (simp add: Lease_Register_def Let_def)
  have "res \<noteq> None"
  proof
    assume "res = None"
    with m obtain es where "registerLoop ?e (liveEntries hex256 now (rgEntries raw0)) = Inr es"
      using assms(1) by (auto split: sum.splits elim!: LeaseStore_mutate_ok)
    from registerLoop_Inr [OF this] assms(2) c show False by fastforce
  qed
  with LeaseStore_mutate_fails [OF m] show ?thesis by simp
next
  case (Some err)
  with reg show ?thesis unfolding Lease_Register_def Let_def Some by auto
qed

lemma Lease_Renew_refused:
  assumes "snapshotUnlocked env io d = Inr raw0" "e \<in> set (liveEntries hex256 now (rgEntries raw0))"
    and c: "tLinkID token = leLinkID e" "token \<noteq> LeaseEntry_Token e"
    and ren: "Lease_Renew hex256 env io timeout now token leaseUntil d = Some (res, d')"
  shows "res \<noteq> None \<and> dkFile d' = dkFile d"
proof (cases "leaseUntil = 0 \<or> \<not> now < leaseUntil \<or> MaxLease < leaseUntil - now")
  case False
  let ?apply = "\<lambda>r. case renewLoop token now leaseUntil (liveEntries hex256 now (rgEntries r)) of
             Inl e \<Rightarrow> Inl e
           | Inr (es, found) \<Rightarrow> if \<not> found then Inl ErrNoRoute else Inr (r\<lparr>rgEntries := es\<rparr>)"
  have m: "LeaseStore_mutate env io timeout ?apply d = Some (res, d')"
    using False ren by (simp add: Lease_Renew_def)
  have "res \<noteq> None"
  proof
    assume "res = None"
    with m obtain es found where "renewLoop token now leaseUntil (liveEntries hex256 now (rgEntries raw0)) = Inr (es, found)"
      using assms(1) by (auto split: sum.splits prod.splits elim!: LeaseStore_mutate_ok)
    from renewLoop_Inr [OF this] assms(2) c show False by (cases token) (auto simp: LeaseEntry_Token_def)
  qed
  with LeaseStore_mutate_fails [OF m] show ?thesis by simp
qed (use ren in \<open>auto simp: Lease_Renew_def\<close>)

lemma Lease_Remove_keeps:
  assumes "json_ok env" "sort_slice (seSort env)" "snapshotUnlocked env io d = Inr raw0"
    and asc: "list_all lease_ascii (liveEntries hex256 now (rgEntries raw0))"
    and e: "e \<in> set (liveEntries hex256 now (rgEntries raw0))" and io: "ioPath io" "ioRead io"
    and c: "token \<noteq> LeaseEntry_Token e" and rm: "Lease_Remove hex256 env io timeout now token d = Some (None, d')"
  shows "\<exists>r'. Lease_Snapshot hex256 env io now d' = Inr r' \<and> e \<in> set (rgEntries r')"
proof -
  let ?kept = "filter (\<lambda>e. \<not> (leLinkID e = tLinkID token \<and> leTransportID e = tTransportID token
                        \<and> leGeneration e = tGeneration token)) (liveEntries hex256 now (rgEntries raw0))"
  have "list_all lease_ascii (rgEntries r')"
    if "snapshotUnlocked env io d = Inr r" "Inr (r\<lparr>rgVersion := LeaseRegistryVersion, rgEntries :=
        filter (\<lambda>e. \<not> (leLinkID e = tLinkID token \<and> leTransportID e = tTransportID token \<and> leGeneration e = tGeneration token))
          (liveEntries hex256 now (rgEntries r))\<rparr>) = (Inr r' :: route_error + LeaseRegistry)" for r r'
    using that assms(3) filter_ascii [OF asc] by auto
  from Lease_Snapshot_after [OF assms(1,2) rm [unfolded Lease_Remove_def] _ io, of hex256 now] this
  obtain after where a: "Lease_Snapshot hex256 env io now d' = Inr after"
    "set (rgEntries after) = set (liveEntries hex256 now ?kept)"
    using assms(3) by fastforce
  have "\<not> (leLinkID e = tLinkID token \<and> leTransportID e = tTransportID token \<and> leGeneration e = tGeneration token)"
    using c unfolding LeaseEntry_Token_def by (cases token) auto
  with e have "e \<in> set ?kept" unfolding set_filter by blast
  then have "e \<in> normalizeLeaseEntry ` set ?kept" by (rule image_eqI [where f = normalizeLeaseEntry and x = e, rotated]) (simp add: live_normal [OF e])
  with e have "e \<in> set (liveEntries hex256 now ?kept)" unfolding set_liveEntries by blast
  with a(1,2) show ?thesis by blast
qed

text \<open>
  C24: A live lease is fenced: as long as an entry is live, registering the same link with an
  older generation, or with its generation but another transport, fails and leaves the file as it
  was; so does renewing with any other token of that link; and removing with any other token
  leaves the entry where it is. (A later generation may replace it, whatever its transport. That the
  entry is read back after the removal relies on JSON, for live entries in ASCII.)
\<close>

theorem live_lease_fenced:
  assumes "json_ok env" "sort_slice (seSort env)"
    and "Lease_Snapshot hex256 env io now d = Inr r" "e \<in> set (rgEntries r)" "list_all lease_ascii (rgEntries r)"
  shows "(TrimSpace (leLinkID raw) = leLinkID e
          \<and> (leGeneration raw < leGeneration e
             \<or> leGeneration raw = leGeneration e \<and> TrimSpace (leTransportID raw) \<noteq> leTransportID e)
          \<longrightarrow> Lease_Register hex256 env io timeout now raw d = Some (res, d') \<longrightarrow> res \<noteq> None \<and> dkFile d' = dkFile d)
    \<and> (tLinkID token = leLinkID e \<and> token \<noteq> LeaseEntry_Token e
          \<longrightarrow> Lease_Renew hex256 env io timeout now token leaseUntil d = Some (res, d') \<longrightarrow> res \<noteq> None \<and> dkFile d' = dkFile d)
    \<and> (token \<noteq> LeaseEntry_Token e
          \<longrightarrow> Lease_Remove hex256 env io timeout now token d = Some (None, d')
          \<longrightarrow> (\<exists>r'. Lease_Snapshot hex256 env io now d' = Inr r' \<and> e \<in> set (rgEntries r')))"
proof -
  obtain raw0 where r: "snapshotUnlocked env io d = Inr raw0" "e \<in> set (liveEntries hex256 now (rgEntries raw0))"
    by (rule live_entry_read [OF assms(2-4)])
  have asc: "list_all lease_ascii (liveEntries hex256 now (rgEntries raw0))"
    using Lease_Snapshot_entries [OF assms(2,3)] r(1) assms(5) by (auto simp: list_all_iff)
  have io: "ioPath io" "ioRead io" using snapshot_readable [OF assms(3,2,4)] by simp_all
  show ?thesis
    using Lease_Register_refused [OF r] Lease_Renew_refused [OF r] Lease_Remove_keeps [OF assms(1,2) r(1) asc r(2) io]
    by (intro conjI impI) (elim conjE; blast)+
qed

section \<open>Choosing a live lease\<close>

lemma Lease_ResolveAdjacent_Inr:
  assumes "Lease_ResolveAdjacent hex256 env io now binding context target disk = (Inr e, n, i)"
  defines "c \<equiv> NodeContext_Normalized context"
  defines "current \<equiv> indexOf (ncNodes c) (ncCurrentNode c)"
  defines "ok \<equiv> \<lambda>e. isCandidate (TrimSpace binding) c current (if current < i then current + 1 else current - 1) (LegacyEntry e)"
  shows "NodeContext_Validate c = None" "ResolveNode c target = Inr (n, i)" "i \<noteq> current"
    "\<exists>registry. Lease_Snapshot hex256 env io now disk = Inr registry \<and> filter ok (rgEntries registry) \<noteq> []
       \<and> e = hd (seSort env leaseNewer (filter ok (rgEntries registry)))"
  using assms(1) unfolding Lease_ResolveAdjacent_def Let_def c_def [symmetric] current_def [symmetric] ok_def
  by (auto split: option.splits sum.splits prod.splits if_splits)

lemma validLease_facts:
  assumes "validateLeaseEntry hex256 e now = None"
  shows "now < leLeaseUntil e" "leLeaseUntil e - now \<le> MaxLease" "leGeneration e \<noteq> 0"
    "adjacentPlaces (leTopology e) (leLocalIndex e) (lePeerIndex e) (leLocalNode e) (lePeerNode e)"
    "DeriveID hex256 \<lparr>dChainSHA256 = leChainSHA256 e, dTopology = leTopology e,
       dLocalNode = leLocalNode e, dPeerNode = lePeerNode e\<rparr> = Inr (leLinkID e)"
  using assms unfolding validateLeaseEntry_def by (auto split: if_splits)

lemma Lease_ResolveAdjacent_member:
  assumes "sort_slice (seSort env)" "Lease_ResolveAdjacent hex256 env io now binding context target disk = (Inr e, n, i)"
  shows "\<exists>registry. Lease_Snapshot hex256 env io now disk = Inr registry \<and> e \<in> set (rgEntries registry)
    \<and> validateLeaseEntry hex256 e now = None \<and> towards binding context target (LegacyEntry e) n i
    \<and> (\<forall>e' \<in> set (rgEntries registry). towards binding context target (LegacyEntry e') n i \<longrightarrow>
         leGeneration e' \<le> leGeneration e)"
proof -
  let ?c = "NodeContext_Normalized context"
  let ?cur = "indexOf (ncNodes ?c) (ncCurrentNode ?c)"
  let ?ok = "\<lambda>e. isCandidate (TrimSpace binding) ?c ?cur (if ?cur < i then ?cur + 1 else ?cur - 1) (LegacyEntry e)"
  note s = Lease_ResolveAdjacent_Inr [OF assms(2)]
  obtain registry where r: "Lease_Snapshot hex256 env io now disk = Inr registry" "filter ?ok (rgEntries registry) \<noteq> []"
    "e = hd (seSort env leaseNewer (filter ?ok (rgEntries registry)))"
    using s(4) by blast
  note h = sort_slice_hd [OF assms(1) leaseNewer_weak r(2), folded r(3)]
  have m: "e \<in> set (rgEntries registry)" "?ok e" using h(1) by simp_all
  have v: "validateLeaseEntry hex256 e now = None"
    using Lease_Snapshot_entries [OF assms(1) r(1)] m(1) by (auto simp: set_liveEntries)
  have p: "adjacentPlaces (eTopology (LegacyEntry e)) (eLocalIndex (LegacyEntry e)) (ePeerIndex (LegacyEntry e))
      (eLocalNode (LegacyEntry e)) (ePeerNode (LegacyEntry e))"
    using validLease_facts(4) [OF v] by (simp add: LegacyEntry_def)
  have "towards binding context target (LegacyEntry e) n i"
    by (rule candidate_towards [OF s(1) refl refl s(2,3) m(2) p])
  moreover have "leGeneration e' \<le> leGeneration e"
    if "e' \<in> set (rgEntries registry)" "towards binding context target (LegacyEntry e') n i" for e'
  proof -
    have "?ok e'" using that(2) by (simp add: towards_def isCandidate_def sameStrings_eq Let_def)
    with that(1) h(2) [of e'] show ?thesis by (auto simp: leaseNewer_def split: if_splits)
  qed
  ultimately show ?thesis using r(1) m(1) v by blast
qed

text \<open>
  A route over leases is live and the newest: the entry \<open>ResolveAdjacent\<close> returns leads one
  link towards the target, its lease has not ended and ends within a day, its link ID is the
  digest of its chain and its two nodes, and no other session to that neighbour that the
  snapshot holds has a later generation.
\<close>

theorem lease_choice_sound:
  assumes "sort_slice (seSort env)" "Lease_ResolveAdjacent hex256 env io now binding context target disk = (Inr e, n, i)"
  shows "towards binding context target (LegacyEntry e) n i
    \<and> now < leLeaseUntil e \<and> leLeaseUntil e \<le> now + MaxLease
    \<and> DeriveID hex256 \<lparr>dChainSHA256 = leChainSHA256 e, dTopology = leTopology e,
        dLocalNode = leLocalNode e, dPeerNode = lePeerNode e\<rparr> = Inr (leLinkID e)
    \<and> (\<exists>registry. Lease_Snapshot hex256 env io now disk = Inr registry \<and> e \<in> set (rgEntries registry)
        \<and> (\<forall>e' \<in> set (rgEntries registry). towards binding context target (LegacyEntry e') n i \<longrightarrow>
             leGeneration e' \<le> leGeneration e))"
proof -
  obtain registry where r: "Lease_Snapshot hex256 env io now disk = Inr registry" "e \<in> set (rgEntries registry)"
    "validateLeaseEntry hex256 e now = None" "towards binding context target (LegacyEntry e) n i"
    "\<forall>e' \<in> set (rgEntries registry). towards binding context target (LegacyEntry e') n i \<longrightarrow> leGeneration e' \<le> leGeneration e"
    using Lease_ResolveAdjacent_member [OF assms] by blast
  from validLease_facts(1,2,5) [OF r(3)] r(1,2,4,5) show ?thesis by (simp add: algebra_simps)
qed

text \<open>The resolver over leases, for the routing laws proved of any resolver.\<close>

definition leaseRoute ::
  "(string \<Rightarrow> string) \<Rightarrow> LeaseEntry store_env \<Rightarrow> disk_io \<times> go_time \<times> disk \<Rightarrow> string \<Rightarrow> NodeContext \<Rightarrow> string \<Rightarrow>
     (route_error + Entry) \<times> string \<times> int" where
  "leaseRoute hex256 env s binding context target =
     (case s of (io, now, disk) \<Rightarrow>
       (case Lease_ResolveAdjacent hex256 env io now binding context target disk of
          (Inl e, r) \<Rightarrow> (Inl e, r) | (Inr e, r) \<Rightarrow> (Inr (LegacyEntry e), r)))"

lemma lease_resolver:
  assumes "sort_slice (seSort env)"
  shows "adjacent_resolver (leaseRoute hex256 env)"
proof unfold_locales
  fix s binding ctx target e n i
  assume r: "leaseRoute hex256 env s binding ctx target = (Inr e, n, i)"
  obtain io now disk where s: "s = (io, now, disk)" by (cases s)
  obtain l where "Lease_ResolveAdjacent hex256 env io now binding ctx target disk = (Inr l, n, i)" "e = LegacyEntry l"
    using r unfolding leaseRoute_def s by (auto split: prod.splits sum.splits)
  with Lease_ResolveAdjacent_member [OF assms] show "towards binding ctx target e n i" by blast
qed

interpretation lease_routes: adjacent_resolver "leaseRoute hex256 (env\<lparr>seSort := insertionSort\<rparr>)" for hex256 env
  by (rule lease_resolver) (simp add: sort_slice_insertionSort)

section \<open>A concrete lease\<close>

definition demo_lease :: LeaseEntry where
  "demo_lease = \<lparr>leVersion = LeaseRegistryVersion, leLinkID = demo_lid, leTransportID = ''transport-1'', leGeneration = 3,
     leBinding = ''b1'', leSocket = ''s1'', leLocalNode = ''gate'', lePeerNode = ''host'', leChainID = ''c1'',
     leChainSHA256 = replicate 64 (CHR ''b''), leTopology = [''client'', ''gate'', ''host''], leLocalIndex = 1,
     lePeerIndex = 2, lePID = 7, leStartedAt = 100, leUpdatedAt = 100, leLeaseUntil = 1000\<rparr>"

definition demo_leases :: LeaseRegistry where
  "demo_leases = \<lparr>rgVersion = LeaseRegistryVersion, rgEntries = [demo_lease]\<rparr>"

definition demo_lease_env :: "LeaseEntry store_env" where
  "demo_lease_env = \<lparr>seMarshal = (\<lambda>r. if r = demo_leases then Some [] else None),
     seUnmarshal = (\<lambda>_. Some demo_leases), seSort = insertionSort\<rparr>"

definition demo_stale :: LeaseEntry where
  "demo_stale = demo_lease\<lparr>leGeneration := 2\<rparr>"

lemma demo_lease_normal: "normalizeLeaseEntry demo_lease = demo_lease"
  by code_simp

lemma demo_lease_valid: "validateLeaseEntry demo_hex256 demo_lease 200 = None"
  by code_simp

lemma demo_stale_normal: "normalizeLeaseEntry demo_stale = demo_stale" "validateLeaseEntry demo_hex256 demo_stale 200 = None"
  by code_simp+

lemma demo_lease_env_ok: "json_ok demo_lease_env" "sort_slice (seSort demo_lease_env)"
  by (simp_all add: json_ok_def demo_lease_env_def sort_slice_insertionSort)

lemma demo_lease_ascii: "lease_ascii demo_lease"
  by code_simp

lemma demo_liveEntries: "liveEntries demo_hex256 200 [demo_lease] = [demo_lease]"
  unfolding liveEntries_def by (simp add: demo_lease_normal demo_lease_valid) (simp add: expiredLease_def demo_lease_def)

lemma demo_lease_Snapshot:
  "Lease_Snapshot demo_hex256 demo_lease_env calm_io 200 \<lparr>dkFile = Some [10], dkTemps = 0\<rparr> = Inr demo_leases"
  by (simp add: Lease_Snapshot_def readRegistry_def calm_io_def demo_lease_env_def demo_leases_def demo_liveEntries demo_sorted)

lemma demo_lease_register:
  "Lease_Register demo_hex256 demo_lease_env calm_io 0 200 demo_lease \<lparr>dkFile = None, dkTemps = 0\<rparr>
     = Some (None, \<lparr>dkFile = Some [10], dkTemps = 0\<rparr>)"
  by (simp add: Lease_Register_def demo_lease_normal demo_lease_valid LeaseStore_mutate_def mutateFile_calm
      snapshotUnlocked_def readRegistry_def liveEntries_def demo_leases_def [symmetric] Let_def)
     (simp add: demo_lease_env_def)

theorem lease_unique_witness:
  "\<exists>r. Lease_Snapshot demo_hex256 demo_lease_env calm_io 200 \<lparr>dkFile = Some [10], dkTemps = 0\<rparr> = Inr r
     \<and> rgEntries r \<noteq> [] \<and> distinct (map leLinkID (rgEntries r))"
proof -
  have "(lease_step demo_hex256 demo_lease_env)\<^sup>*\<^sup>* \<lparr>dkFile = None, dkTemps = 0\<rparr> \<lparr>dkFile = Some [10], dkTemps = 0\<rparr>"
    by (rule r_into_rtranclp) (rule ld_register [OF demo_lease_ascii demo_lease_register])
  from lease_unique [OF demo_lease_env_ok this demo_lease_Snapshot] demo_lease_Snapshot show ?thesis
    by (simp add: demo_leases_def)
qed

lemma demo_stale_refused:
  "Lease_Register demo_hex256 demo_lease_env calm_io 0 200 demo_stale \<lparr>dkFile = Some [10], dkTemps = 0\<rparr>
     = Some (Some (RouteLink ErrGenerationMismatch), \<lparr>dkFile = Some [10], dkTemps = 0\<rparr>)"
proof -
  have "registerLoop demo_stale [demo_lease] = Inl (RouteLink ErrGenerationMismatch)"
    by (simp add: demo_stale_def) (simp add: demo_lease_def)
  moreover have "snapshotUnlocked demo_lease_env calm_io \<lparr>dkFile = Some [10], dkTemps = 0\<rparr> = Inr demo_leases"
    by (simp add: snapshotUnlocked_def readRegistry_def demo_lease_env_def calm_io_def demo_leases_def)
  ultimately show ?thesis
    by (simp add: Lease_Register_def demo_stale_normal LeaseStore_mutate_def mutateFile_calm Let_def
      demo_leases_def demo_liveEntries)
qed

theorem live_lease_fenced_witness:
  "\<exists>res d'. Lease_Register demo_hex256 demo_lease_env calm_io 0 200 demo_stale \<lparr>dkFile = Some [10], dkTemps = 0\<rparr>
       = Some (res, d') \<and> res \<noteq> None \<and> dkFile d' = Some [10]"
proof -
  have "demo_lease \<in> set (rgEntries demo_leases)" "list_all lease_ascii (rgEntries demo_leases)"
    by (simp_all add: demo_leases_def demo_lease_ascii)
  note f = live_lease_fenced [OF demo_lease_env_ok demo_lease_Snapshot this, THEN conjunct1]
  have "TrimSpace (leLinkID demo_stale) = leLinkID demo_lease" by code_simp
  moreover have "leGeneration demo_stale < leGeneration demo_lease" by (simp add: demo_stale_def demo_lease_def)
  ultimately show ?thesis using f [of demo_stale 0] demo_stale_refused by fastforce
qed

lemma demo_lease_indices:
  "isCandidate (TrimSpace ''b0'') (demo_context AudienceNodeContext) 1 2 (LegacyEntry demo_lease)"
  by code_simp

theorem lease_choice_sound_witness:
  "\<exists>e n i. Lease_ResolveAdjacent demo_hex256 demo_lease_env calm_io 200 ''b0'' (demo_context AudienceNodeContext) ''host''
       \<lparr>dkFile = Some [10], dkTemps = 0\<rparr> = (Inr e, n, i) \<and> 200 < leLeaseUntil e"
proof -
  have "Lease_ResolveAdjacent demo_hex256 demo_lease_env calm_io 200 ''b0'' (demo_context AudienceNodeContext) ''host''
       \<lparr>dkFile = Some [10], dkTemps = 0\<rparr> = (Inr demo_lease, ''host'', 2)"
    by (simp add: Lease_ResolveAdjacent_def demo_context_ok demo_ResolveNode demo_indices demo_lease_Snapshot Let_def
      demo_leases_def demo_lease_indices) (simp add: demo_lease_env_def demo_sorted)
  from lease_choice_sound [OF demo_lease_env_ok(2) this] this show ?thesis by blast
qed

end
