(* ===== verification/Route_Router.thy ===== *)
theory Route_Router
  imports Route_Lease Mux_Frame
begin

text \<open>
  The router of \<open>src/sessionroute/router.go\<close>: planning a route, opening it through the current
  multiplexer or through a registered broker, forwarding a pending target, and bridging the two
  ends. \<open>Dial\<close> of the broker's socket and \<open>OpenTarget\<close> over the current multiplexer are outcomes
  given with each attempt; the two registry files are the state.

  Shown: a dialled session leads towards the target and each session is dialled at most once; a
  forwarded request never goes back to the neighbour it came from; following the routers from
  node to node reaches the target after as many hops as it is away.
\<close>

record Router =
  rtContext :: NodeContext
  rtCurrentBinding :: string
  rtHasMux :: bool
  rtPeerNode :: string
  rtHasLeases :: bool

record Plan =
  plTargetNode :: string
  plTargetIndex :: int
  plDirection :: string
  plNextHop :: string
  plNextBinding :: string
  plAvailable :: bool
  plUsesCurrent :: bool

definition zeroPlan :: Plan where
  "zeroPlan = \<lparr>plTargetNode = [], plTargetIndex = 0, plDirection = [], plNextHop = [], plNextBinding = [],
     plAvailable = False, plUsesCurrent = False\<rparr>"

record adjacentCandidate =
  acEntry :: Entry
  acLease :: "LeaseEntry option"

definition routableService :: "u16 \<Rightarrow> bool" where
  "routableService service =
     (service = ServiceFS \<or> service = ServiceTCP \<or> service = ServiceUDP \<or> service = ServiceExec \<or> service = ServiceEvents)"

section \<open>Resolution over both stores\<close>

text \<open>The two files, and what is fixed: the digest, the environment and the \<open>LockTimeout\<close> of each store.\<close>

record world =
  wdStore :: disk
  wdLeases :: disk

record route_env =
  reDigest :: "string \<Rightarrow> string"
  reStore :: "Entry store_env"
  reLeases :: "LeaseEntry store_env"
  reTimeout :: go_duration
  reLeaseTimeout :: go_duration

definition resolveAdjacent ::
  "route_env \<Rightarrow> bool \<Rightarrow> disk_io \<Rightarrow> go_time \<Rightarrow> string \<Rightarrow> NodeContext \<Rightarrow> string \<Rightarrow> world \<Rightarrow>
     (route_error + adjacentCandidate) \<times> string \<times> int" where
  "resolveAdjacent R hasLeases io now currentBinding nodeContext target w =
     (let legacy =
        (case Store_ResolveAdjacent (reStore R) io currentBinding nodeContext target (wdStore w) of
           (Inl e, r) \<Rightarrow> (Inl e, r)
         | (Inr entry, r) \<Rightarrow> (Inr \<lparr>acEntry = entry, acLease = None\<rparr>, r)) in
      if hasLeases then
        (case Lease_ResolveAdjacent (reDigest R) (reLeases R) io now currentBinding nodeContext target (wdLeases w) of
           (Inr leased, r) \<Rightarrow> (Inr \<lparr>acEntry = LegacyEntry leased, acLease = Some leased\<rparr>, r)
         | (Inl e, r) \<Rightarrow> if e \<noteq> ErrNoRoute then (Inl e, r) else legacy)
      else legacy)"

definition Prepare ::
  "route_env \<Rightarrow> disk_io \<Rightarrow> go_time \<Rightarrow> Router option \<Rightarrow> string \<Rightarrow> world \<Rightarrow> Plan \<times> route_error option" where
  "Prepare R io now router target w =
     (case router of
        None \<Rightarrow> (zeroPlan, Some ErrNilRouter)
      | Some r \<Rightarrow>
          let c = NodeContext_Normalized (rtContext r);
              currentIndex = indexOf (ncNodes c) (ncCurrentNode c) in
          case ResolveNode c target of
            Inl e \<Rightarrow> (zeroPlan, Some e)
          | Inr (targetNode, targetIndex) \<Rightarrow>
              let plan = zeroPlan\<lparr>plTargetNode := targetNode, plTargetIndex := targetIndex\<rparr> in
              if targetIndex = currentIndex then
                (plan\<lparr>plDirection := ''local'', plNextHop := ncCurrentNode c, plAvailable := True\<rparr>, None)
              else
                let wanted = (if currentIndex < targetIndex then currentIndex + 1 else currentIndex - 1);
                    plan1 = plan\<lparr>plDirection := (if currentIndex < targetIndex then ''next'' else ''previous'')\<rparr> in
                if wanted < 0 \<or> int (length (ncNodes c)) \<le> wanted then (plan1, Some ErrNoRoute)
                else
                  let plan2 = plan1\<lparr>plNextHop := ncNodes c ! nat wanted\<rparr> in
                  if TrimSpace (rtPeerNode r) = plNextHop plan2 \<and> rtHasMux r then
                    (plan2\<lparr>plNextBinding := TrimSpace (rtCurrentBinding r), plAvailable := True,
                           plUsesCurrent := True\<rparr>, None)
                  else
                    (case resolveAdjacent R (rtHasLeases r) io now (rtCurrentBinding r) c targetNode w of
                       (Inl e, _) \<Rightarrow> if e = ErrNoRoute then (plan2, None) else (plan2, Some e)
                     | (Inr candidate, _) \<Rightarrow>
                         (plan2\<lparr>plNextHop := ePeerNode (acEntry candidate),
                                plNextBinding := eBinding (acEntry candidate), plAvailable := True\<rparr>, None)))"

section \<open>Dialling\<close>

text \<open>
  An error of \<open>Dial\<close>: a \<open>net.OpError\<close> with its operation, or another one. One attempt of the
  loop: what the operating system answers, the clock, and what \<open>Dial\<close> returns for a socket and a
  request.
\<close>

datatype broker_error = OpError string | OtherError

definition brokerUnavailable :: "broker_error \<Rightarrow> bool" where
  "brokerUnavailable e = (case e of OpError op \<Rightarrow> op = ''dial'' | OtherError \<Rightarrow> False)"

record 'c attempt =
  atIO :: disk_io
  atNow :: go_time
  atDial :: "string \<Rightarrow> string \<Rightarrow> u16 \<Rightarrow> bytes \<Rightarrow> broker_error + 'c"

definition candidateKey :: "adjacentCandidate \<Rightarrow> string" where
  "candidateKey c =
     (case acLease c of
        None \<Rightarrow> eBinding (acEntry c)
      | Some l \<Rightarrow> leLinkID l @ ''/'' @ Itoa (unat (leGeneration l)))"

text \<open>
  Dropping the entry of an unavailable broker; the error of \<open>Remove\<close> is ignored. \<open>None\<close> while the
  lock of the registry is not settled.
\<close>

definition dropCandidate ::
  "route_env \<Rightarrow> bool \<Rightarrow> disk_io \<Rightarrow> go_time \<Rightarrow> adjacentCandidate \<Rightarrow> world \<Rightarrow> world option" where
  "dropCandidate R hasLeases io now c w =
     (case acLease c of
        Some l \<Rightarrow>
          if hasLeases then
            map_option (\<lambda>(_, d). w\<lparr>wdLeases := d\<rparr>)
              (Lease_Remove (reDigest R) (reLeases R) io (reLeaseTimeout R) now (LeaseEntry_Token l) (wdLeases w))
          else map_option (\<lambda>(_, d). w\<lparr>wdStore := d\<rparr>)
              (Store_Remove (reStore R) io (reTimeout R) (eBinding (acEntry c)) (wdStore w))
      | None \<Rightarrow>
          map_option (\<lambda>(_, d). w\<lparr>wdStore := d\<rparr>)
            (Store_Remove (reStore R) io (reTimeout R) (eBinding (acEntry c)) (wdStore w)))"

type_synonym 'c dialled = "(route_error + 'c) \<times> adjacentCandidate option \<times> world"

fun dialRounds ::
  "route_env \<Rightarrow> Router \<Rightarrow> string \<Rightarrow> u16 \<Rightarrow> bytes \<Rightarrow> string list \<Rightarrow> 'c attempt list \<Rightarrow> world \<Rightarrow>
     'c dialled option" where
  "dialRounds R r target service data seen [] w = Some (Inl ErrNoRoute, None, w)"
| "dialRounds R r target service data seen (a # as) w =
     (case resolveAdjacent R (rtHasLeases r) (atIO a) (atNow a) (rtCurrentBinding r) (rtContext r) target w of
        (Inl e, _) \<Rightarrow> Some (Inl e, None, w)
      | (Inr candidate, _) \<Rightarrow>
          if candidateKey candidate \<in> set seen then Some (Inl ErrNoRoute, None, w)
          else
            (case atDial a (eSocket (acEntry candidate)) target service data of
               Inr conn \<Rightarrow> Some (Inr conn, Some candidate, w)
             | Inl e \<Rightarrow>
                 if \<not> brokerUnavailable e then Some (Inl ErrBroker, Some candidate, w)
                 else
                   (case dropCandidate R (rtHasLeases r) (atIO a) (atNow a) candidate w of
                      None \<Rightarrow> None
                    | Some w' \<Rightarrow>
                        dialRounds R r target service data (candidateKey candidate # seen) as w')))"

text \<open>\<open>dialRegistered\<close>, with its sixteen attempts; \<open>attempt k\<close> is what happens in attempt \<open>k\<close>.\<close>

definition dialRegistered ::
  "route_env \<Rightarrow> Router \<Rightarrow> string \<Rightarrow> u16 \<Rightarrow> bytes \<Rightarrow> (nat \<Rightarrow> 'c attempt) \<Rightarrow> world \<Rightarrow>
     'c dialled option" where
  "dialRegistered R r target service data attempt w =
     dialRounds R r target service data [] (map attempt [0 ..< 16]) w"

definition OpenLocal ::
  "route_env \<Rightarrow> disk_io \<Rightarrow> go_time \<Rightarrow> (string \<Rightarrow> u16 \<Rightarrow> bytes \<Rightarrow> route_error + 'c) \<Rightarrow> (nat \<Rightarrow> 'c attempt) \<Rightarrow>
     Router option \<Rightarrow> string \<Rightarrow> u16 \<Rightarrow> bytes \<Rightarrow> world \<Rightarrow> ((route_error + 'c) \<times> world) option" where
  "OpenLocal R io now openTarget attempt router target service data w =
     (if \<not> routableService service then Some (Inl ErrNotRoutable, w)
      else case Prepare R io now router target w of
        (_, Some e) \<Rightarrow> Some (Inl e, w)
      | (plan, None) \<Rightarrow>
          if plDirection plan = ''local'' then Some (Inl ErrTargetLocal, w)
          else if \<not> plAvailable plan then Some (Inl ErrNoRoute, w)
          else if plUsesCurrent plan then Some (openTarget (plTargetNode plan) service data, w)
          else
            (case router of
               None \<Rightarrow> None
             | Some r \<Rightarrow>
                 map_option (\<lambda>(res, _, w'). (res, w'))
                   (dialRegistered R r (plTargetNode plan) service data attempt w)))"

text \<open>
  \<open>OpenForward\<close> of a pending target (its node reference, service and data). The zero candidate of
  a failed dial has empty strings in the plan.
\<close>

definition OpenForward ::
  "route_env \<Rightarrow> (nat \<Rightarrow> 'c attempt) \<Rightarrow> Router option \<Rightarrow> string \<Rightarrow> u16 \<Rightarrow> bytes \<Rightarrow> world \<Rightarrow>
     ((route_error + 'c) \<times> Plan \<times> world) option" where
  "OpenForward R attempt router nodeRef service data w =
     (case router of
        None \<Rightarrow> Some (Inl ErrNilRouter, zeroPlan, w)
      | Some r \<Rightarrow>
          if \<not> routableService service then Some (Inl ErrNotRoutable, zeroPlan, w)
          else
            let c = NodeContext_Normalized (rtContext r);
                currentIndex = indexOf (ncNodes c) (ncCurrentNode c);
                peerIndex = indexOf (ncNodes c) (TrimSpace (rtPeerNode r)) in
            case ResolveNode c nodeRef of
              Inl e \<Rightarrow> Some (Inl e, zeroPlan, w)
            | Inr (targetNode, targetIndex) \<Rightarrow>
                if targetIndex = currentIndex then Some (Inl ErrTargetLocal, zeroPlan, w)
                else if peerIndex < 0 \<or> 0 < (targetIndex - currentIndex) * (peerIndex - currentIndex) then
                  Some (Inl ErrNoRoute, zeroPlan, w)
                else
                  (case dialRegistered R r targetNode service data attempt w of
                     None \<Rightarrow> None
                   | Some (res, candidate, w') \<Rightarrow>
                       Some (res,
                         zeroPlan\<lparr>plTargetNode := targetNode, plTargetIndex := targetIndex,
                           plDirection := (if currentIndex < targetIndex then ''next'' else ''previous''),
                           plNextHop := (case candidate of None \<Rightarrow> [] | Some a \<Rightarrow> ePeerNode (acEntry a)),
                           plNextBinding := (case candidate of None \<Rightarrow> [] | Some a \<Rightarrow> eBinding (acEntry a)),
                           plAvailable := (case res of Inl _ \<Rightarrow> False | Inr _ \<Rightarrow> True)\<rparr>, w')))"

section \<open>Bridging\<close>

datatype relay_error = RelayEOF | RelayClosedPipe | RelayNetClosed | RelayOther

definition normalRelayError :: "relay_error option \<Rightarrow> bool" where
  "normalRelayError e =
     (case e of None \<Rightarrow> True | Some RelayEOF \<Rightarrow> True | Some RelayClosedPipe \<Rightarrow> True
      | Some RelayNetClosed \<Rightarrow> True | Some RelayOther \<Rightarrow> False)"

text \<open>
  The loop of \<open>Bridge\<close> over the events it selects: one of the two copies has ended, or the
  context is done (\<open>None\<close>). The result is the error and whether both ends were closed.
\<close>

fun bridgeLoop :: "nat \<Rightarrow> relay_error option \<Rightarrow> bool \<Rightarrow> relay_error option option list \<Rightarrow>
    ((relay_error option + route_error) \<times> bool) option" where
  "bridgeLoop 0 terminal closed events = Some (Inl terminal, closed)"
| "bridgeLoop (Suc pending) terminal closed [] = None"
| "bridgeLoop (Suc pending) terminal closed (ev # events) =
     (case ev of
        None \<Rightarrow> Some (Inr ErrCancelled, True)
      | Some err \<Rightarrow>
          if \<not> normalRelayError err \<and> terminal = None then bridgeLoop pending err True events
          else bridgeLoop pending terminal closed events)"

lemma bridgeLoop_code [code]:
  "bridgeLoop pending terminal closed events =
     (if pending = 0 then Some (Inl terminal, closed)
      else case events of
          [] \<Rightarrow> None
        | ev # events \<Rightarrow>
            (case ev of
               None \<Rightarrow> Some (Inr ErrCancelled, True)
             | Some err \<Rightarrow>
                 if \<not> normalRelayError err \<and> terminal = None then bridgeLoop (pending - 1) err True events
                 else bridgeLoop (pending - 1) terminal closed events))"
  by (cases pending; cases events) (auto split: option.split)

definition Bridge :: "relay_error option option list \<Rightarrow> ((relay_error option + route_error) \<times> bool) option" where
  "Bridge events = bridgeLoop 2 None False events"

section \<open>Routing\<close>

definition sorters_ok :: "route_env \<Rightarrow> bool" where
  "sorters_ok R = (sort_slice (seSort (reStore R)) \<and> sort_slice (seSort (reLeases R)))"

lemma resolveAdjacent_towards:
  assumes "sorters_ok R" "resolveAdjacent R hasLeases io now b c t w = (Inr a, n, i)"
  shows "towards b c t (acEntry a) n i"
proof -
  have s: "sort_slice (seSort (reStore R))" "sort_slice (seSort (reLeases R))" using assms(1) by (auto simp: sorters_ok_def)
  consider (legacy) e where "Store_ResolveAdjacent (reStore R) io b c t (wdStore w) = (Inr e, n, i)" "acEntry a = e"
    | (lease) l where "Lease_ResolveAdjacent (reDigest R) (reLeases R) io now b c t (wdLeases w) = (Inr l, n, i)"
        "acEntry a = LegacyEntry l"
    using assms(2) unfolding resolveAdjacent_def Let_def by (auto split: if_splits prod.splits sum.splits)
  then show ?thesis
  proof cases
    case legacy
    with Store_towards [OF s(1)] show ?thesis by simp
  next
    case lease
    with Lease_ResolveAdjacent_member [OF s(2)] show ?thesis by metis
  qed
qed

text \<open>The router's resolution as a resolver; the state is what it finds at a node.\<close>

definition routerRoute ::
  "route_env \<Rightarrow> bool \<times> disk_io \<times> go_time \<times> world \<Rightarrow> string \<Rightarrow> NodeContext \<Rightarrow> string \<Rightarrow>
     (route_error + Entry) \<times> string \<times> int" where
  "routerRoute R s b c t =
     (case s of (hasLeases, io, now, w) \<Rightarrow>
       (case resolveAdjacent R hasLeases io now b c t w of
          (Inl e, r) \<Rightarrow> (Inl e, r) | (Inr a, r) \<Rightarrow> (Inr (acEntry a), r)))"

lemma router_resolver: "sorters_ok R \<Longrightarrow> adjacent_resolver (routerRoute R)"
proof unfold_locales
  fix s b c t e n i
  assume ok: "sorters_ok R" and r: "routerRoute R s b c t = (Inr e, n, i)"
  obtain hasLeases io now w where s: "s = (hasLeases, io, now, w)" by (cases s)
  obtain a where "resolveAdjacent R hasLeases io now b c t w = (Inr a, n, i)" "e = acEntry a"
    using r unfolding routerRoute_def s by (auto split: prod.splits sum.splits)
  with resolveAdjacent_towards [OF ok] show "towards b c t e n i" by blast
qed

interpretation router_routes: adjacent_resolver
    "routerRoute (R\<lparr>reStore := (reStore R)\<lparr>seSort := insertionSort\<rparr>, reLeases := (reLeases R)\<lparr>seSort := insertionSort\<rparr>\<rparr>)"
  for R
  by (rule router_resolver) (simp add: sorters_ok_def sort_slice_insertionSort)

text \<open>
  C11: Routing arrives: when every node on the way hands a request for a node of the chain to the
  session its router chooses, whatever the registries of the nodes hold, each hop brings the
  request one link closer; it is at the target after exactly as many hops as the target was away,
  and no run of hops is longer. The name must not be one of the relative names.
\<close>

theorem route_reaches_target:
  assumes "sorters_ok R" "absoluteName target" "target \<in> set (trimUnique [] (ncNodes c))"
    and "(hop (routerRoute R) net target ^^ k) c c'"
  shows "int k \<le> hopsTo c target \<and> hopsTo c' target = hopsTo c target - int k
    \<and> (int k = hopsTo c target \<longrightarrow> TrimSpace (ncCurrentNode c') = target)"
proof -
  note A = router_resolver [OF assms(1)]
  have "TrimSpace target = target" using assms(2) by (simp add: absoluteName_def)
  with adjacent_resolver.hops_arrive [OF A assms(2,4)] adjacent_resolver.hops_progress(1) [OF A assms(2,4)] assms(3)
  show ?thesis by simp
qed

lemma dialRounds_ok:
  assumes "dialRounds R r target service data seen as w = Some (Inr conn, cand, w')"
  shows "\<exists>k < length as. \<exists>a n i w1. cand = Some a
    \<and> resolveAdjacent R (rtHasLeases r) (atIO (as ! k)) (atNow (as ! k)) (rtCurrentBinding r) (rtContext r) target w1 = (Inr a, n, i)
    \<and> candidateKey a \<notin> set seen
    \<and> atDial (as ! k) (eSocket (acEntry a)) target service data = Inr conn"
  using assms
proof (induction R r target service data seen as w rule: dialRounds.induct)
  case (2 R r target service data seen a as w)
  obtain c n i where c: "resolveAdjacent R (rtHasLeases r) (atIO a) (atNow a) (rtCurrentBinding r) (rtContext r) target w
      = (Inr c, n, i)" "candidateKey c \<notin> set seen"
    using "2.prems" by (auto split: prod.splits sum.splits if_splits)
  show ?case
  proof (cases "atDial a (eSocket (acEntry c)) target service data")
    case (Inr d)
    with "2.prems" c show ?thesis by (intro exI [of _ 0]) auto
  next
    case (Inl e)
    then obtain w2 where w2: "brokerUnavailable e" "dropCandidate R (rtHasLeases r) (atIO a) (atNow a) c w = Some w2"
      "dialRounds R r target service data (candidateKey c # seen) as w2 = Some (Inr conn, cand, w')"
      using "2.prems" c by (auto split: if_splits option.splits)
    have un: "\<not> \<not> brokerUnavailable e" using w2(1) by simp
    from "2.IH" [OF c(1) [symmetric] refl c(2) Inl un w2(2,3)] obtain k where "k < length as" "\<exists>a n i w1. cand = Some a
      \<and> resolveAdjacent R (rtHasLeases r) (atIO (as ! k)) (atNow (as ! k)) (rtCurrentBinding r) (rtContext r) target w1 = (Inr a, n, i)
      \<and> candidateKey a \<notin> set (candidateKey c # seen)
      \<and> atDial (as ! k) (eSocket (acEntry a)) target service data = Inr conn" by blast
    then show ?thesis by (intro exI [of _ "Suc k"]) auto
  qed
qed simp

text \<open>
  C25: Forwarding never turns back: when \<open>OpenForward\<close> opens a connection, it was dialled at one of
  the sixteen attempts at the socket of a session whose peer is one link closer to the target,
  and that peer is not the neighbour the request came from. The target's name must not be one of
  the relative names.
\<close>

theorem forward_not_back:
  assumes "sorters_ok R" "OpenForward R attempt (Some r) nodeRef service data w = Some (Inr conn, plan, w')"
    and "absoluteName (plTargetNode plan)"
  shows "\<exists>(e :: Entry) k. k < 16 \<and> atDial (attempt k) (eSocket e) (plTargetNode plan) service data = Inr conn
    \<and> plNextHop plan = ePeerNode e \<and> plNextBinding plan = eBinding e
    \<and> eBinding e \<noteq> TrimSpace (rtCurrentBinding r) \<and> plNextHop plan \<noteq> TrimSpace (rtPeerNode r)
    \<and> (let c = NodeContext_Normalized (rtContext r) in
       \<bar>plTargetIndex plan - indexOf (ncNodes c) (plNextHop plan)\<bar>
         = \<bar>plTargetIndex plan - indexOf (ncNodes c) (ncCurrentNode c)\<bar> - 1)"
proof -
  let ?c = "NodeContext_Normalized (rtContext r)"
  let ?cur = "indexOf (ncNodes ?c) (ncCurrentNode ?c)" and ?peer = "indexOf (ncNodes ?c) (TrimSpace (rtPeerNode r))"
  obtain t i cand where f: "ResolveNode ?c nodeRef = Inr (t, i)" "i \<noteq> ?cur"
    "\<not> (?peer < 0 \<or> 0 < (i - ?cur) * (?peer - ?cur))"
    "dialRegistered R r t service data attempt w = Some (Inr conn, cand, w')"
    and plan: "plTargetNode plan = t" "plTargetIndex plan = i"
      "plNextHop plan = (case cand of None \<Rightarrow> [] | Some a \<Rightarrow> ePeerNode (acEntry a))"
      "plNextBinding plan = (case cand of None \<Rightarrow> [] | Some a \<Rightarrow> eBinding (acEntry a))"
    using assms(2) unfolding OpenForward_def Let_def
    by (auto split: if_splits sum.splits prod.splits option.splits)
  obtain k a n j w1 where d: "k < 16" "cand = Some a"
    "resolveAdjacent R (rtHasLeases r) (atIO (attempt k)) (atNow (attempt k)) (rtCurrentBinding r) (rtContext r) t w1 = (Inr a, n, j)"
    "atDial (attempt k) (eSocket (acEntry a)) t service data = Inr conn"
    using dialRounds_ok [OF f(4) [unfolded dialRegistered_def]] by auto
  have tw: "towards (rtCurrentBinding r) (rtContext r) t (acEntry a) n j" by (rule resolveAdjacent_towards [OF assms(1) d(3)])
  then have t: "ResolveNode ?c t = Inr (n, j)" "j \<noteq> ?cur" "eBinding (acEntry a) \<noteq> TrimSpace (rtCurrentBinding r)"
    "ePeerIndex (acEntry a) = (if ?cur < j then ?cur + 1 else ?cur - 1)" "0 \<le> ePeerIndex (acEntry a)"
    "ePeerIndex (acEntry a) < int (length (ncNodes ?c))" "ePeerNode (acEntry a) = ncNodes ?c ! nat (ePeerIndex (acEntry a))"
    by (simp_all add: towards_def Let_def)
  have nodes: "trimUnique [] (ncNodes ?c) = ncNodes ?c" "distinct (ncNodes ?c)"
    using trimUnique_props [of "[]" "ncNodes (rtContext r)"] by (simp_all add: NodeContext_Normalized_sel trimUnique_idem)
  have "n = t" by (rule ResolveNode_absolute [OF assms(3) [unfolded plan(1)] t(1)])
  then have ij: "j = i" using ResolveNode_index(2) [OF t(1)] ResolveNode_index(2) [OF f(1)] by simp
  have hop: "indexOf (ncNodes ?c) (ePeerNode (acEntry a)) = ePeerIndex (acEntry a)"
    using indexOf_nth [OF nodes(2), of "nat (ePeerIndex (acEntry a))"] t(5-7) by simp
  have "ePeerNode (acEntry a) \<noteq> TrimSpace (rtPeerNode r)"
  proof
    assume "ePeerNode (acEntry a) = TrimSpace (rtPeerNode r)"
    then have "?peer = (if ?cur < i then ?cur + 1 else ?cur - 1)" using hop t(4) ij by simp
    with f(2,3) show False by (auto split: if_splits)
  qed
  moreover have "\<bar>i - ePeerIndex (acEntry a)\<bar> = \<bar>i - ?cur\<bar> - 1" using t(4) ij f(2) by (auto split: if_splits)
  moreover have "plNextHop plan = ePeerNode (acEntry a)" "plNextBinding plan = eBinding (acEntry a)"
    using plan(3,4) d(2) by simp_all
  ultimately have "k < 16 \<and> atDial (attempt k) (eSocket (acEntry a)) (plTargetNode plan) service data = Inr conn
    \<and> plNextHop plan = ePeerNode (acEntry a) \<and> plNextBinding plan = eBinding (acEntry a)
    \<and> eBinding (acEntry a) \<noteq> TrimSpace (rtCurrentBinding r) \<and> plNextHop plan \<noteq> TrimSpace (rtPeerNode r)
    \<and> \<bar>plTargetIndex plan - indexOf (ncNodes ?c) (plNextHop plan)\<bar> = \<bar>plTargetIndex plan - ?cur\<bar> - 1"
    using d(1,4) t(3) hop plan(1,2) by simp
  then show ?thesis unfolding Let_def by blast
qed

section \<open>Concrete routes\<close>

definition demo_route_env :: "Entry store_env \<Rightarrow> route_env" where
  "demo_route_env env = \<lparr>reDigest = demo_hex256, reStore = env, reLeases = demo_lease_env, reTimeout = 0, reLeaseTimeout = 0\<rparr>"

definition demo_world :: world where
  "demo_world = \<lparr>wdStore = \<lparr>dkFile = Some [10], dkTemps = 0\<rparr>, wdLeases = \<lparr>dkFile = None, dkTemps = 0\<rparr>\<rparr>"

definition demo_router :: "NodeContext \<Rightarrow> string \<Rightarrow> Router" where
  "demo_router c peer = \<lparr>rtContext = c, rtCurrentBinding = ''b0'', rtHasMux = True, rtPeerNode = peer, rtHasLeases = False\<rparr>"

definition demo_attempt :: "nat attempt" where
  "demo_attempt = \<lparr>atIO = calm_io, atNow = 200, atDial = (\<lambda>_ _ _ _. Inr 1)\<rparr>"

lemma demo_route_env_ok: "sort_slice (seSort env) \<Longrightarrow> sorters_ok (demo_route_env env)"
  by (simp add: sorters_ok_def demo_route_env_def demo_lease_env_ok)

lemma demo_dial:
  assumes "Store_ResolveAdjacent env calm_io ''b0'' c target (wdStore demo_world) = (Inr e, n, i)"
  shows "dialRegistered (demo_route_env env) (demo_router c peer) target service data (\<lambda>_. demo_attempt) demo_world
    = Some (Inr 1, Some \<lparr>acEntry = e, acLease = None\<rparr>, demo_world)"
proof -
  have "map (\<lambda>_ :: nat. demo_attempt) [0 ..< 16] = demo_attempt # map (\<lambda>_. demo_attempt) [1 ..< 16]"
    by (simp add: upt_conv_Cons)
  with assms show ?thesis
    by (simp add: dialRegistered_def resolveAdjacent_def demo_router_def demo_attempt_def demo_route_env_def Let_def
      del: upt_Suc)
qed

lemma demo_resolve_route:
  "Store_ResolveAdjacent demo_env calm_io ''b0'' (demo_context AudienceNodeContext) ''host'' (wdStore demo_world)
     = (Inr demo_entry, ''host'', 2)"
  using demo_resolve by (simp add: demo_world_def)

lemma demo_forward_strings:
  "absoluteName ''host''" "TrimSpace ''client'' = ''client''"
  "indexOf (ncNodes (demo_context AudienceNodeContext)) ''client'' = 0" "routableService ServiceTCP"
  "''host'' \<in> set (trimUnique [] (ncNodes (demo_context AudienceNodeContext)))"
  "hopsTo (demo_context AudienceNodeContext) ''host'' = 1"
  by code_simp+

theorem route_reaches_target_witness:
  "\<exists>c'. (hop (routerRoute (demo_route_env demo_env)) (\<lambda>_. ((False, calm_io, 200, demo_world), ''b0'')) ''host'' ^^ 1)
       (demo_context AudienceNodeContext) c' \<and> TrimSpace (ncCurrentNode c') = ''host''"
proof -
  have ok: "sorters_ok (demo_route_env demo_env)"
    by (rule demo_route_env_ok) (simp add: demo_env_def sort_slice_insertionSort)
  let ?c' = "(demo_context AudienceNodeContext)\<lparr>ncCurrentNode := ePeerNode demo_entry\<rparr>"
  have "hop (routerRoute (demo_route_env demo_env)) (\<lambda>_. ((False, calm_io, 200, demo_world), ''b0'')) ''host''
      (demo_context AudienceNodeContext) ?c'"
    by (simp add: hop_def routerRoute_def resolveAdjacent_def demo_resolve_route demo_route_env_def Let_def)
  then have h: "(hop (routerRoute (demo_route_env demo_env)) (\<lambda>_. ((False, calm_io, 200, demo_world), ''b0'')) ''host'' ^^ 1)
      (demo_context AudienceNodeContext) ?c'" by (simp add: eq_OO)
  from route_reaches_target [OF ok demo_forward_strings(1,5) h] h demo_forward_strings(6) show ?thesis by auto
qed

lemma demo_forward:
  assumes "NodeContext_Normalized c = c" "ResolveNode c ref = Inr (t, i)" "i \<noteq> indexOf (ncNodes c) (ncCurrentNode c)"
    and "\<not> (indexOf (ncNodes c) (TrimSpace peer) < 0 \<or> 0 < (i - indexOf (ncNodes c) (ncCurrentNode c))
            * (indexOf (ncNodes c) (TrimSpace peer) - indexOf (ncNodes c) (ncCurrentNode c)))"
    and "Store_ResolveAdjacent env calm_io ''b0'' c t (wdStore demo_world) = (Inr e, n, j)"
  shows "\<exists>plan. OpenForward (demo_route_env env) (\<lambda>_. demo_attempt) (Some (demo_router c peer)) ref ServiceTCP [] demo_world
      = Some (Inr 1, plan, demo_world) \<and> plTargetNode plan = t \<and> plNextHop plan = ePeerNode e"
proof -
  have r: "rtContext (demo_router c peer) = c" "rtPeerNode (demo_router c peer) = peer" by (simp_all add: demo_router_def)
  from assms(2-4) show ?thesis
    unfolding OpenForward_def by (simp add: r assms(1) demo_dial [OF assms(5)] demo_forward_strings)
qed

theorem forward_not_back_witness:
  "\<exists>plan w'. OpenForward (demo_route_env demo_env) (\<lambda>_. demo_attempt)
       (Some (demo_router (demo_context AudienceNodeContext) ''client'')) ''host'' ServiceTCP [] demo_world
       = Some (Inr 1, plan, w') \<and> plNextHop plan \<noteq> ''client''"
proof -
  have ok: "sorters_ok (demo_route_env demo_env)"
    by (rule demo_route_env_ok) (simp add: demo_env_def sort_slice_insertionSort)
  obtain plan where f: "OpenForward (demo_route_env demo_env) (\<lambda>_. demo_attempt)
      (Some (demo_router (demo_context AudienceNodeContext) ''client'')) ''host'' ServiceTCP [] demo_world
      = Some (Inr 1, plan, demo_world)" "plTargetNode plan = ''host''"
    using demo_forward [OF demo_context_ok(1) demo_ResolveNode _ _ demo_resolve_route, of "''client''"]
    by (auto simp: demo_indices demo_forward_strings)
  have "absoluteName (plTargetNode plan)" using f(2) demo_forward_strings(1) by simp
  from forward_not_back [OF ok f(1) this] f show ?thesis by (auto simp: demo_router_def demo_forward_strings)
qed

text \<open>A chain whose last node has the relative name \<open>prev\<close>, seen from its third node.\<close>

definition prev_context :: NodeContext where
  "prev_context = (demo_context AudienceNodeContext)\<lparr>ncNodes := [''a'', ''b'', ''c'', ''prev''], ncCurrentNode := ''c'',
     ncOriginNode := ''a'', ncEndpointNode := ''prev''\<rparr>"

definition prev_entry :: Entry where
  "prev_entry = demo_entry\<lparr>eLocalNode := ''c'', ePeerNode := ''b'', eTopology := [''a'', ''b'', ''c'', ''prev''],
     eLocalIndex := 2, ePeerIndex := 1\<rparr>"

definition prev_env :: "Entry store_env" where
  "prev_env = \<lparr>seMarshal = (\<lambda>_. None), seUnmarshal = (\<lambda>_. Some \<lparr>rgVersion = RegistryVersion, rgEntries = [prev_entry]\<rparr>),
     seSort = insertionSort\<rparr>"

lemma prev_facts:
  "NodeContext_Normalized prev_context = prev_context" "NodeContext_Validate prev_context = None"
  "ResolveNode prev_context ''last'' = Inr (''prev'', 3)" "ResolveNode prev_context ''prev'' = Inr (''b'', 1)"
  "indexOf (ncNodes prev_context) (ncCurrentNode prev_context) = 2" "indexOf (ncNodes prev_context) (TrimSpace ''b'') = 1"
  "normalizeEntry prev_entry = prev_entry" "validateEntry prev_entry = None"
  "isCandidate (TrimSpace ''b0'') prev_context 2 1 prev_entry" "ePeerNode prev_entry = ''b''"
  by code_simp+

lemma prev_resolve:
  "Store_ResolveAdjacent prev_env calm_io ''b0'' prev_context ''prev'' (wdStore demo_world) = (Inr prev_entry, ''b'', 1)"
proof -
  have "Store_Snapshot prev_env calm_io (wdStore demo_world) = Inr \<lparr>rgVersion = RegistryVersion, rgEntries = [prev_entry]\<rparr>"
    by (simp add: Store_Snapshot_def readRegistry_def calm_io_def prev_env_def demo_world_def Let_def demo_sorted prev_facts)
  then show ?thesis
    by (simp add: Store_ResolveAdjacent_def prev_facts Let_def) (simp add: prev_env_def demo_sorted)
qed

text \<open>
  A node whose name is one of the relative names is not reached: in a valid chain with a node
  called \<open>prev\<close>, a request for the last node, which is that node, arriving from the previous
  neighbour, is sent back to that neighbour, because the name found for \<open>last\<close> is resolved a
  second time.
\<close>

theorem relative_name_turns_back:
  "\<exists>c ref plan. NodeContext_Validate c = None \<and> ResolveNode c ref = Inr (''prev'', 3)
     \<and> OpenForward (demo_route_env prev_env) (\<lambda>_. demo_attempt) (Some (demo_router c ''b'')) ref ServiceTCP [] demo_world
       = Some (Inr 1, plan, demo_world)
     \<and> plTargetNode plan = ''prev'' \<and> plNextHop plan = ''b''"
proof -
  obtain plan where "OpenForward (demo_route_env prev_env) (\<lambda>_. demo_attempt) (Some (demo_router prev_context ''b'')) ''last''
      ServiceTCP [] demo_world = Some (Inr 1, plan, demo_world)" "plTargetNode plan = ''prev''" "plNextHop plan = ''b''"
    using demo_forward [OF prev_facts(1,3) _ _ prev_resolve, of "''b''"] by (auto simp: prev_facts)
  with prev_facts(2,3) show ?thesis by blast
qed

end
