(* ===== verification/Wv_Net.thy ===== *)
theory Wv_Net
  imports Wv_Text
begin

text \<open>
  Addresses as Go's standard library writes and reads them: \<open>net.SplitHostPort\<close>, \<open>JoinHostPort\<close>,
  \<open>IP.String\<close>, \<open>IP.To4\<close>, \<open>IP.IsUnspecified\<close>, \<open>strconv.Atoi\<close>, and the functions of \<open>strings\<close> the
  destination policies use.

  Shown: \<open>SplitHostPort\<close> undoes \<open>JoinHostPort\<close> on every host it can itself return, and \<open>Atoi\<close> undoes
  \<open>Itoa\<close>.
\<close>

section \<open>Strings\<close>

definition TrimSuffix :: "string \<Rightarrow> string \<Rightarrow> string" where
  "TrimSuffix s p = (if suffix p s then take (length s - length p) s else s)"

definition ContainsAny :: "string \<Rightarrow> string \<Rightarrow> bool" where
  "ContainsAny s chars = list_ex (\<lambda>c. c \<in> set chars) s"

definition LastIndexByte :: "string \<Rightarrow> char \<Rightarrow> nat option" where
  "LastIndexByte s c =
     (if c \<in> set s then Some (length s - 1 - length (takeWhile (\<lambda>d. d \<noteq> c) (rev s))) else None)"

definition IndexByte :: "string \<Rightarrow> char \<Rightarrow> nat option" where
  "IndexByte s c = (if c \<in> set s then Some (length (takeWhile (\<lambda>d. d \<noteq> c) s)) else None)"

text \<open>\<open>strings.Split\<close> with a separator of one character.\<close>

fun SplitByte :: "char \<Rightarrow> string \<Rightarrow> string list" where
  "SplitByte sep [] = [[]]"
| "SplitByte sep (c # cs) =
     (if c = sep then [] # SplitByte sep cs
      else case SplitByte sep cs of f # fs \<Rightarrow> (c # f) # fs | [] \<Rightarrow> [[c]])"

section \<open>Decimal numbers\<close>

definition isDigit :: "char \<Rightarrow> bool" where
  "isDigit c = (48 \<le> (of_char c :: nat) \<and> (of_char c :: nat) \<le> 57)"

definition decNumber :: "string \<Rightarrow> int" where
  "decNumber s = foldl (\<lambda>acc c. acc * 10 + (of_char c - 48)) 0 s"

text \<open>\<open>strconv.Atoi\<close> on a 64-bit platform: an optional sign, at least one digit, in the range of \<open>int\<close>.\<close>

definition Atoi :: "string \<Rightarrow> int option" where
  "Atoi s =
     (let neg = prefix ''-'' s;
          ds = (if neg \<or> prefix ''+'' s then drop 1 s else s);
          v = (if neg then - decNumber ds else decNumber ds) in
      if ds = [] \<or> \<not> list_all isDigit ds then None
      else if v < - (2 ^ 63) \<or> 2 ^ 63 \<le> v then None
      else Some v)"

section \<open>Hosts and ports\<close>

definition JoinHostPort :: "string \<Rightarrow> string \<Rightarrow> string" where
  "JoinHostPort host port =
     (if CHR '':'' \<in> set host then ''['' @ host @ '']:'' @ port else host @ '':'' @ port)"

definition SplitHostPort :: "string \<Rightarrow> (string \<times> string) option" where
  "SplitHostPort hostport =
     (case LastIndexByte hostport (CHR '':'') of
        None \<Rightarrow> None
      | Some i \<Rightarrow>
          if prefix ''['' hostport then
            (case IndexByte hostport (CHR '']'') of
               None \<Rightarrow> None
             | Some e \<Rightarrow>
                 if e + 1 \<noteq> i then None
                 else if CHR ''['' \<in> set (drop 1 hostport) then None
                 else if CHR '']'' \<in> set (drop (e + 1) hostport) then None
                 else Some (take (e - 1) (drop 1 hostport), drop (i + 1) hostport))
          else if CHR '':'' \<in> set (take i hostport) then None
          else if CHR ''['' \<in> set hostport \<or> CHR '']'' \<in> set hostport then None
          else Some (take i hostport, drop (i + 1) hostport))"

section \<open>IP addresses\<close>

text \<open>\<open>IP.To4\<close>: the four bytes of an IPv4 address in either form.\<close>

definition To4 :: "bytes \<Rightarrow> bytes option" where
  "To4 ip =
     (if length ip = 4 then Some ip
      else if length ip = 16 \<and> take 12 ip = replicate 10 0 @ [255, 255] then Some (drop 12 ip)
      else None)"

definition IsUnspecified :: "bytes \<Rightarrow> bool" where
  "IsUnspecified ip = (ip = replicate 16 0 \<or> ip = replicate 10 0 @ [255, 255] @ replicate 4 0)"

fun joinText :: "string \<Rightarrow> string list \<Rightarrow> string" where
  "joinText sep [] = []"
| "joinText sep [s] = s"
| "joinText sep (s # t # ts) = s @ sep @ joinText sep (t # ts)"

fun hexText :: "nat \<Rightarrow> string" where
  "hexText n = (if n < 16 then [hexDigit n] else hexText (n div 16) @ [hexDigit (n mod 16)])"

declare hexText.simps [simp del]

fun ipGroups :: "bytes \<Rightarrow> nat list" where
  "ipGroups (a # b # bs) = (unat a * 256 + unat b) # ipGroups bs"
| "ipGroups _ = []"

text \<open>The first longest run of at least two zero groups, as its start and end.\<close>

definition zeroRun :: "nat list \<Rightarrow> (nat \<times> nat) option" where
  "zeroRun gs =
     foldl (\<lambda>best i.
        let l = length (takeWhile (\<lambda>g. g = 0) (drop i gs)) in
        if 2 \<le> l \<and> (case best of None \<Rightarrow> True | Some (b, e) \<Rightarrow> e - b < l) then Some (i, i + l) else best)
       None [0..<length gs]"

definition ipv6Text :: "bytes \<Rightarrow> string" where
  "ipv6Text ip =
     (let gs = ipGroups ip in
      case zeroRun gs of
        None \<Rightarrow> joinText '':'' (map hexText gs)
      | Some (b, e) \<Rightarrow> joinText '':'' (map hexText (take b gs)) @ ''::'' @ joinText '':'' (map hexText (drop e gs)))"

text \<open>\<open>IP.String\<close> of a 4-byte or 16-byte address.\<close>

definition IPString :: "bytes \<Rightarrow> string" where
  "IPString ip =
     (case To4 ip of
        Some v4 \<Rightarrow> joinText ''.'' (map (\<lambda>b. Itoa (unat b)) v4)
      | None \<Rightarrow> ipv6Text ip)"

section \<open>What they give back\<close>

text \<open>A character that is in no white space stops the trimming.\<close>

lemma strip_snoc: "list_all (\<lambda>p. c \<notin> set p) ps \<Longrightarrow> strip ps (s @ [c]) = strip ps s @ [c]"
proof (induction ps s rule: strip.induct)
  case (1 ps)
  have "\<not> prefix p [c]" if "p \<in> set ps" "p \<noteq> []" for p
    using 1 that by (cases p) (auto simp: list_all_iff)
  then have "find (\<lambda>p. p \<noteq> [] \<and> prefix p [c]) ps = None" by (auto simp: find_None_iff)
  then show ?case by simp
next
  case (2 ps d cs)
  have same: "prefix p (d # cs @ [c]) \<longleftrightarrow> prefix p (d # cs)" if "p \<in> set ps" for p
    using 2(2) that prefix_snoc [of p "d # cs" c] by (auto simp: list_all_iff)
  then have f: "find (\<lambda>p. p \<noteq> [] \<and> prefix p (d # cs @ [c])) ps = find (\<lambda>p. p \<noteq> [] \<and> prefix p (d # cs)) ps"
    by (intro find_cong) auto
  show ?case
  proof (cases "find (\<lambda>p. p \<noteq> [] \<and> prefix p (d # cs)) ps")
    case None
    then show ?thesis using f by simp
  next
    case (Some p)
    then have "prefix p (d # cs)" "p \<noteq> []" by (auto simp: find_Some_iff)
    then have "length p - 1 \<le> length cs" by (auto dest: prefix_length_le)
    then show ?thesis using Some f 2 by simp
  qed
qed

definition solid :: "char \<Rightarrow> bool" where
  "solid c = (33 \<le> (of_char c :: nat) \<and> (of_char c :: nat) \<le> 126)"

lemma solid_white: "solid c \<Longrightarrow> list_all (\<lambda>p. c \<notin> set p) white_space" "solid c \<Longrightarrow> list_all (\<lambda>p. c \<notin> set p) (map rev white_space)"
  by (auto simp: solid_def white_space_def)

lemma trimLeft_snoc: "solid c \<Longrightarrow> trimLeft (s @ [c]) = trimLeft s @ [c]"
  unfolding trimLeft_def by (rule strip_snoc) (rule solid_white)

lemma trimRight_Cons: "solid c \<Longrightarrow> trimRight (c # s) = c # trimRight s"
  unfolding trimRight_def by (simp add: strip_snoc solid_white)

lemma trimRight_Nil [simp]: "trimRight [] = []"
  by (simp add: trimRight_def)

lemma trimLeft_solid: "solid c \<Longrightarrow> trimLeft (c # s) = c # s"
  using find_graphic [of c s] by (intro trimLeft_id) (auto simp: solid_def find_None_iff)

lemma TrimSpace_front: "solid c \<Longrightarrow> TrimSpace (c # s) = c # trimRight s"
  by (simp add: TrimSpace_def trimLeft_solid trimRight_Cons)

lemma TrimSuffix_dot: "TrimSuffix (s @ ''.'') ''.'' = s" "\<not> suffix ''.'' s \<Longrightarrow> TrimSuffix s ''.'' = s"
  by (simp_all add: TrimSuffix_def)

lemma takeWhile_neq: "c \<notin> set a \<Longrightarrow> takeWhile (\<lambda>d. d \<noteq> c) (a @ c # b) = a"
  by (induction a) auto

lemma LastIndexByte_append [simp]: "c \<notin> set b \<Longrightarrow> LastIndexByte (a @ c # b) c = Some (length a)"
proof -
  assume "c \<notin> set b"
  then have "takeWhile (\<lambda>d. d \<noteq> c) (rev (a @ c # b)) = rev b"
    using takeWhile_neq [of c "rev b" "rev a"] by simp
  then show ?thesis by (simp add: LastIndexByte_def)
qed

lemma LastIndexByte_Some:
  assumes "LastIndexByte s c = Some i"
  obtains a b where "s = a @ c # b" "c \<notin> set b" "i = length a"
proof -
  have "c \<in> set s" using assms by (auto simp: LastIndexByte_def split: if_splits)
  then obtain a b where "s = a @ c # b" "c \<notin> set b" by (metis split_list_last)
  then show thesis using assms that by auto
qed

lemma IndexByte_append [simp]: "c \<notin> set a \<Longrightarrow> IndexByte (a @ c # b) c = Some (length a)"
  by (simp add: IndexByte_def takeWhile_neq)

lemma IndexByte_Some:
  assumes "IndexByte s c = Some i"
  obtains a b where "s = a @ c # b" "c \<notin> set a" "i = length a"
proof -
  have "c \<in> set s" using assms by (auto simp: IndexByte_def split: if_splits)
  then obtain a b where "s = a @ c # b" "c \<notin> set a" by (metis split_list_first)
  then show thesis using assms that by auto
qed

definition host_text :: "string \<Rightarrow> bool" where
  "host_text h = (CHR ''['' \<notin> set h \<and> CHR '']'' \<notin> set h)"

definition port_text :: "string \<Rightarrow> bool" where
  "port_text p = (host_text p \<and> CHR '':'' \<notin> set p)"

lemma Split_Join [simp]:
  assumes "host_text h" "port_text p"
  shows "SplitHostPort (JoinHostPort h p) = Some (h, p)"
proof (cases "CHR '':'' \<in> set h")
  case True
  have "LastIndexByte (''['' @ h @ '']:'' @ p) (CHR '':'') = Some (length h + 2)"
    using LastIndexByte_append [of "CHR '':''" p "''['' @ h @ '']''"] assms(2) by (simp add: port_text_def)
  moreover have "IndexByte (''['' @ h @ '']:'' @ p) (CHR '']'') = Some (length h + 1)"
    using IndexByte_append [of "CHR '']''" "''['' @ h" "'':'' @ p"] assms(1) by (simp add: host_text_def)
  ultimately show ?thesis
    using True assms by (auto simp: SplitHostPort_def JoinHostPort_def host_text_def port_text_def)
next
  case False
  have "LastIndexByte (h @ '':'' @ p) (CHR '':'') = Some (length h)"
    using LastIndexByte_append [of "CHR '':''" p h] assms(2) by (simp add: port_text_def)
  moreover have "\<not> prefix ''['' (h @ '':'' @ p)"
    using assms(1) by (cases h) (auto simp: host_text_def)
  ultimately show ?thesis
    using False assms by (auto simp: SplitHostPort_def JoinHostPort_def host_text_def port_text_def)
qed

lemma Split_texts:
  assumes "SplitHostPort s = Some (h, p)"
  shows "host_text h" "port_text p" "s = ''['' @ h @ '']:'' @ p \<or> s = h @ '':'' @ p"
proof -
  obtain i where i: "LastIndexByte s (CHR '':'') = Some i"
    using assms by (auto simp: SplitHostPort_def split: option.splits)
  then obtain a b where s: "s = a @ CHR '':'' # b" and b: "CHR '':'' \<notin> set b" and ia: "i = length a"
    by (rule LastIndexByte_Some)
  have "host_text h \<and> port_text p \<and> (s = ''['' @ h @ '']:'' @ p \<or> s = h @ '':'' @ p)"
  proof (cases "prefix ''['' s")
    case True
    then obtain e where e: "IndexByte s (CHR '']'') = Some e" "e + 1 = i" "CHR ''['' \<notin> set (drop 1 s)"
        "CHR '']'' \<notin> set (drop i s)" and hp: "h = take (e - 1) (drop 1 s)" "p = drop (i + 1) s"
      using assms i by (auto simp: SplitHostPort_def split: option.splits if_splits)
    from e(1) obtain x y where x: "s = x @ CHR '']'' # y" "CHR '']'' \<notin> set x" "e = length x"
      by (rule IndexByte_Some)
    obtain t where t: "s = CHR ''['' # t" using True by (auto simp: prefix_def)
    with x obtain x' where x': "x = CHR ''['' # x'" by (cases x) auto
    have a: "a = x @ '']''" using s x(1,3) e(2) ia by (simp add: append_eq_append_conv2) (auto simp: Cons_eq_append_conv)
    have y: "y = CHR '':'' # b" using s x(1) a by simp
    show ?thesis using hp e(3,4) x x' y ia a b by (auto simp: host_text_def port_text_def)
  next
    case False
    then show ?thesis using assms i s ia b by (auto simp: SplitHostPort_def host_text_def port_text_def split: if_splits)
  qed
  then show "host_text h" "port_text p" "s = ''['' @ h @ '']:'' @ p \<or> s = h @ '':'' @ p" by auto
qed

lemma Itoa_digits: "list_all isDigit (Itoa n)" "Itoa n \<noteq> []"
proof -
  have "list_all isDigit (Itoa n) \<and> Itoa n \<noteq> []"
  proof (induction n rule: Itoa.induct)
    case (1 n)
    have d: "isDigit (char_of (48 + k))" if "k < 10" for k :: nat using that by (simp add: isDigit_def)
    show ?case using 1 d [of n] d [of "n mod 10"] by (cases "n < 10") (subst (1 2) Itoa.simps, simp)+
  qed
  then show "list_all isDigit (Itoa n)" "Itoa n \<noteq> []" by auto
qed

lemma of_char_digit: "n < 10 \<Longrightarrow> (of_char (char_of (48 + n) :: char) :: int) = 48 + int n"
proof -
  assume "n < 10"
  then have "int (of_char (char_of (48 + n) :: char)) = 48 + int n" by simp
  then show ?thesis by (simp only: of_nat_of_char)
qed

lemma decNumber_Itoa [simp]: "decNumber (Itoa n) = int n"
proof (induction n rule: Itoa.induct)
  case (1 n)
  show ?case
  proof (cases "n < 10")
    case True
    then show ?thesis by (subst Itoa.simps) (simp add: decNumber_def of_char_digit)
  next
    case False
    then have "decNumber (Itoa (n div 10)) = int (n div 10)" using 1 by simp
    moreover have "int (n div 10) * 10 + int (n mod 10) = int n"
      by (metis div_mult_mod_eq of_nat_add of_nat_mult of_nat_numeral)
    ultimately show ?thesis using False by (subst Itoa.simps) (simp add: decNumber_def of_char_digit)
  qed
qed

lemma port_text_digits: "list_all isDigit p \<Longrightarrow> port_text p"
  by (auto simp: port_text_def host_text_def list_all_iff isDigit_def)

lemma port_text_Itoa [simp]: "port_text (Itoa n)"
  by (rule port_text_digits, rule Itoa_digits)

lemma Atoi_Itoa [simp]: "n < 2 ^ 63 \<Longrightarrow> Atoi (Itoa n) = Some (int n)"
proof -
  assume n: "n < 2 ^ 63"
  obtain c cs where c: "Itoa n = c # cs" "isDigit c" using Itoa_digits [of n] by (cases "Itoa n") auto
  then have "\<not> prefix ''-'' (Itoa n)" "\<not> prefix ''+'' (Itoa n)" by (auto simp: isDigit_def)
  moreover have "int n < 2 ^ 63" using n by (metis of_nat_less_iff of_nat_numeral of_nat_power)
  ultimately show ?thesis using Itoa_digits [of n] by (simp add: Atoi_def Let_def)
qed

lemma trimLeft_append: "list_all solid t \<Longrightarrow> trimLeft (s @ t) = trimLeft s @ t"
proof (induction t rule: rev_induct)
  case (snoc c t)
  then show ?case using trimLeft_snoc [of c "s @ t"] by simp
qed simp

lemma trimRight_solid: "solid c \<Longrightarrow> trimRight (s @ [c]) = s @ [c]"
proof (rule trimRight_id)
  fix p
  assume c: "solid c" and p: "p \<in> set white_space"
  have "c \<notin> set p" using solid_white(1) [OF c] p by (simp add: list_all_iff)
  moreover have "p \<noteq> []" using white_space_start [OF p] by auto
  ultimately show "\<not> suffix p (s @ [c])" by (cases p rule: rev_cases) auto
qed

lemma trimLeft_idem [simp]: "trimLeft (trimLeft s) = trimLeft s"
  by (rule trimLeft_id) (rule trimLeft_no_prefix)

lemma TrimSpace_trimLeft [simp]: "TrimSpace (trimLeft s) = TrimSpace s"
  by (simp add: TrimSpace_def)

lemma set_trimLeft: "set (trimLeft s) \<subseteq> set s"
  by (simp add: trimLeft_def set_mono_suffix suffix_strip)

lemma digits_solid: "list_all isDigit p \<Longrightarrow> list_all solid p"
  by (auto simp: list_all_iff isDigit_def solid_def)

text \<open>Trimming a joined address takes away only what stands before a host without brackets.\<close>

lemma Split_TrimSpace_Join:
  assumes "host_text h" "list_all isDigit p" "p \<noteq> []"
  shows "SplitHostPort (TrimSpace (JoinHostPort h p)) = Some (if CHR '':'' \<in> set h then h else trimLeft h, p)"
proof -
  obtain q c where q: "p = q @ [c]" "solid c"
    using assms(2,3) by (cases p rule: rev_cases) (auto simp: isDigit_def solid_def)
  have p: "port_text p" using assms(2) by (rule port_text_digits)
  show ?thesis
  proof (cases "CHR '':'' \<in> set h")
    case True
    have "TrimSpace (JoinHostPort h p) = JoinHostPort h p"
      using trimRight_solid [OF q(2), of "CHR ''['' # h @ '']:'' @ q"] True q(1)
      by (simp add: JoinHostPort_def TrimSpace_def trimLeft_solid solid_def)
    then show ?thesis using True assms(1) p by simp
  next
    case False
    have "list_all solid ('':'' @ p)" using digits_solid [OF assms(2)] by (simp add: solid_def)
    then have "trimLeft (h @ '':'' @ p) = trimLeft h @ '':'' @ p" by (rule trimLeft_append)
    moreover have "trimRight (trimLeft h @ '':'' @ p) = trimLeft h @ '':'' @ p"
      using trimRight_solid [OF q(2), of "trimLeft h @ '':'' @ q"] q(1) by simp
    moreover have "CHR '':'' \<notin> set (trimLeft h)" "host_text (trimLeft h)"
      using False assms(1) set_trimLeft [of h] by (auto simp: host_text_def)
    ultimately have "TrimSpace (JoinHostPort h p) = JoinHostPort (trimLeft h) p"
      using False by (simp add: JoinHostPort_def TrimSpace_def)
    then show ?thesis using False p \<open>host_text (trimLeft h)\<close> by simp
  qed
qed

section \<open>A parsed address has sixteen bytes\<close>

lemma ipv4Fields_length: "ipv4Fields fs val digits s = Some f \<Longrightarrow> length fs \<le> 3 \<Longrightarrow> length f = 4"
  by (induction fs val digits s rule: ipv4Fields.induct) (auto simp: Let_def split: if_splits)

lemma ipv6Groups_length:
  assumes "ipv6Groups ip e s = Some (ip', e')" "even (length ip)" "length ip \<le> 16"
  shows "length ip' \<le> 16"
  using assms
proof (induction ip e s arbitrary: ip' e' rule: ipv6Groups.induct)
  case (1 ip e s)
  show ?case
  proof (cases "16 \<le> length ip")
    case True
    then show ?thesis using 1(3,5) by (subst (asm) ipv6Groups.simps) (auto split: if_splits)
  next
    case False
    then have ip: "length ip + 2 \<le> 16" using 1(4) by presburger
    define digits where "digits = takeWhile (\<lambda>c. hexValue c \<noteq> None) s"
    define rest where "rest = drop (length digits) s"
    define ip2 where "ip2 = ip @ [of_nat (hexNumber digits div 256), of_nat (hexNumber digits)]"
    have ip2: "even (length ip2)" "length ip2 \<le> 16" using ip 1(4) by (simp_all add: ip2_def)
    have "ipv6Groups ip e s =
       (if digits = [] \<or> 4 < length digits then None
        else if rest \<noteq> [] \<and> hd rest = CHR ''.'' then
          (if (e = None \<and> length ip \<noteq> 12) \<or> 16 < length ip + 4 then None
           else case ipv4Fields [] 0 0 s of None \<Rightarrow> None | Some f \<Rightarrow> Some (ip @ f, e))
        else if rest = [] then Some (ip2, e)
        else if hd rest \<noteq> CHR '':'' \<or> length rest = 1 then None
        else if hd (tl rest) = CHR '':'' then
          (if e \<noteq> None then None
           else if tl (tl rest) = [] then Some (ip2, Some (length ip2))
           else ipv6Groups ip2 (Some (length ip2)) (tl (tl rest)))
        else ipv6Groups ip2 e (tl rest))"
      using False by (subst ipv6Groups.simps) (simp only: Let_def digits_def rest_def ip2_def if_False)
    then consider (v4) f where "ipv4Fields [] 0 0 s = Some f" "ip' = ip @ f" "length ip + 4 \<le> 16"
      | (last) "ip' = ip2"
      | (gap) "ipv6Groups ip2 (Some (length ip2)) (tl (tl rest)) = Some (ip', e')" "digits \<noteq> []" "\<not> 4 < length digits"
          "\<not> (rest \<noteq> [] \<and> hd rest = CHR ''.'')" "rest \<noteq> []" "\<not> (hd rest \<noteq> CHR '':'' \<or> length rest = 1)"
          "hd (tl rest) = CHR '':''" "\<not> e \<noteq> None" "tl (tl rest) \<noteq> []"
      | (more) "ipv6Groups ip2 e (tl rest) = Some (ip', e')" "digits \<noteq> []" "\<not> 4 < length digits"
          "\<not> (rest \<noteq> [] \<and> hd rest = CHR ''.'')" "rest \<noteq> []" "\<not> (hd rest \<noteq> CHR '':'' \<or> length rest = 1)"
          "hd (tl rest) \<noteq> CHR '':''"
      using 1(3) by (auto split: if_splits option.splits)
    then show ?thesis
    proof cases
      case v4
      then show ?thesis using ipv4Fields_length [OF v4(1)] by simp
    next
      case last
      then show ?thesis using ip2 by simp
    next
      case gap
      show ?thesis
        by (rule 1(1) [OF False digits_def rest_def _ _ ip2_def _ _ _ _ _ gap(1) ip2]) (use gap in auto)
    next
      case more
      show ?thesis
        by (rule 1(2) [OF False digits_def rest_def _ _ ip2_def _ _ _ more(1) ip2]) (use more in auto)
    qed
  qed
qed

lemma ParseIP_length: "ParseIP s = Some ip \<Longrightarrow> length ip = 16"
proof -
  have g: "length ip \<le> 16" if "ipv6Groups [] e t = Some (ip, e')" for e t ip e'
    using ipv6Groups_length [OF that] by simp
  have "length ip = 16" if "parseIPv6 s = Some ip"
    using that g unfolding parseIPv6_def by (fastforce split: if_splits option.splits prod.splits)
  moreover assume "ParseIP s = Some ip"
  ultimately show ?thesis
    by (auto simp: ParseIP_def dest!: ipv4Fields_length split: if_splits option.splits)
qed

end
