(* ===== verification/Dest_Policy.thy ===== *)
theory Dest_Policy
  imports Wv_Net Mux_Frame
begin

text \<open>
  Destination allowlists of \<open>sessiontcp/policy.go\<close> and \<open>sessionudp/policy.go\<close>: rules \<open>host:port\<close>,
  \<open>*.domain:port\<close>, \<open>*:port\<close>, \<open>host:*\<close> and \<open>*:*\<close>, their normalisation, and the match of a normalised
  destination. The two packages hold the same code; the requests they check differ and are modelled
  in \<open>Session_Tcp\<close> and \<open>Session_Udp\<close>.

  Shown: every rule of a parsed list is well formed and stands for a field of the text, the list has no
  duplicates, and a rule matches exactly the hosts and ports it names. A rule \<open>*.\<close> without a domain is
  taken for the unrestricted \<open>*\<close>.
\<close>

section \<open>Rules\<close>

datatype dest_error =
    ErrAllowRule | ErrAllowHost | ErrAllowWildcard | ErrAllowPort | ErrAllowEmpty
  | ErrDestProtocol | ErrDestNetwork | ErrHostPort | ErrDestPort | ErrDestNul
  | ErrMetadataSize | ErrMetadata | ErrTrailing
  | ErrDestDenied | ErrNoPolicy | ErrNilDereference
  | ErrDialFailed string | ErrListen string | ErrSend string | ErrAccept string | ErrResolve string | ErrNoAddresses
  | ErrWildcardPeer | ErrDeniedBy dest_error | ErrCancelled
  | ErrResponseSize | ErrBadResult | ErrOversizedResult | ErrRemote string | ErrStreamIO mux_error

record allowRule =
  arHost :: string
  arPort :: string

type_synonym Allowlist = "allowRule list"

definition normalizeHost :: "string \<Rightarrow> string" where
  "normalizeHost host =
     (let h = TrimSpace (TrimSuffix host ''.'') in
      if prefix ''*.'' h then ''*.'' @ ToLower (TrimPrefix h ''*.'')
      else case ParseIP h of
        Some ip \<Rightarrow> IPString ip
      | None \<Rightarrow> ToLower h)"

definition allowPort :: "string \<Rightarrow> dest_error + string" where
  "allowPort port =
     (if port = ''*'' then Inr port
      else case Atoi port of
        None \<Rightarrow> Inl ErrAllowPort
      | Some v \<Rightarrow> if v < 1 \<or> 65535 < v then Inl ErrAllowPort else Inr (Itoa (nat v)))"

definition unbracket :: "string \<Rightarrow> string" where
  "unbracket host =
     (if prefix ''['' host \<and> suffix '']'' host then TrimSuffix (TrimPrefix host ''['') '']'' else host)"

text \<open>The checks of \<open>splitRule\<close> on the two halves of a rule.\<close>

definition checkRule :: "string \<Rightarrow> string \<Rightarrow> dest_error + string \<times> string" where
  "checkRule host port =
     (if host = [] \<or> ContainsAny host [CHR 0x00, CHR ''/'', CHR 0x5C] then Inl ErrAllowHost
      else if CHR ''*'' \<in> set host \<and> host \<noteq> ''*'' \<and> \<not> prefix ''*.'' host then Inl ErrAllowWildcard
      else case allowPort port of
        Inl e \<Rightarrow> Inl e
      | Inr port' \<Rightarrow>
          let host' = (if host \<noteq> ''*'' then normalizeHost host else host) in
          if host' = [] \<or> host' = ''*.'' then Inl ErrAllowEmpty else Inr (host', port'))"

definition splitRule :: "string \<Rightarrow> dest_error + string \<times> string" where
  "splitRule raw =
     (if raw = ''*:*'' then Inr (''*'', ''*'')
      else case LastIndexByte raw (CHR '':'') of
        None \<Rightarrow> Inl ErrAllowRule
      | Some i \<Rightarrow>
          if i = 0 \<or> i = length raw - 1 then Inl ErrAllowRule
          else checkRule (unbracket (TrimSpace (take i raw))) (TrimSpace (drop (i + 1) raw)))"

text \<open>The loop of \<open>ParseAllowlist\<close> over the fields, with the keys seen so far.\<close>

fun parseRules :: "string list \<Rightarrow> string list \<Rightarrow> Allowlist \<Rightarrow> dest_error + Allowlist" where
  "parseRules [] seen rules = Inr rules"
| "parseRules (raw # fs) seen rules =
     (let field = TrimSpace raw in
      if field = [] then parseRules fs seen rules
      else case splitRule field of
        Inl e \<Rightarrow> Inl e
      | Inr (host, port) \<Rightarrow>
          let key = host @ [CHR 0x00] @ port in
          if key \<in> set seen then parseRules fs seen rules
          else parseRules fs (key # seen) (rules @ [\<lparr>arHost = host, arPort = port\<rparr>]))"

definition ParseAllowlist :: "string \<Rightarrow> dest_error + Allowlist" where
  "ParseAllowlist raw = parseRules (SplitByte (CHR '','') raw) [] []"

definition Allowlist_Empty :: "Allowlist \<Rightarrow> bool" where
  "Allowlist_Empty a = (a = [])"

definition AllowsAny :: "Allowlist \<Rightarrow> bool" where
  "AllowsAny a = list_ex (\<lambda>r. arHost r = ''*'' \<and> arPort r = ''*'') a"

definition hostMatch :: "allowRule \<Rightarrow> string \<Rightarrow> bool" where
  "hostMatch rule host =
     (if prefix ''*.'' (arHost rule) then
        (let suf = TrimPrefix (arHost rule) ''*'' in
         suffix suf host \<and> host \<noteq> TrimPrefix suf ''.'')
      else arHost rule = ''*'' \<or> arHost rule = host)"

definition ruleMatches :: "allowRule \<Rightarrow> string \<Rightarrow> string \<Rightarrow> bool" where
  "ruleMatches rule host port = (hostMatch rule host \<and> (arPort rule = ''*'' \<or> arPort rule = port))"

definition allowed :: "Allowlist \<Rightarrow> string \<Rightarrow> string \<Rightarrow> bool" where
  "allowed a host port = list_ex (\<lambda>rule. ruleMatches rule host port) a"

section \<open>Hosts in normal form\<close>

text \<open>Reading an address does not depend on the case of its hexadecimal digits, and its text is in lower case.\<close>

lemma Itoa_mem: "c \<in> set (Itoa n) \<Longrightarrow> isDigit c"
  using Itoa_digits(1) [of n] by (simp add: list_all_iff)

lemma hexValue_lower [simp]: "hexValue (lower_char c) = hexValue c"
  by (auto simp: hexValue_def lower_char_def Let_def)

lemma ipv4Fields_lower: "ipv4Fields fs val digits (ToLower s) = ipv4Fields fs val digits s"
proof (induction fs val digits s rule: ipv4Fields.induct)
  case (1 fs val digits)
  then show ?case by (simp add: ToLower_def)
next
  case (2 fs val digits c cs)
  show ?case
  proof (cases "lower_char c = c")
    case True
    then show ?thesis using 2 by (auto simp: ToLower_def Let_def)
  next
    case False
    then have up: "65 \<le> (of_char c :: nat)" "(of_char c :: nat) \<le> 90" "97 \<le> (of_char (lower_char c) :: nat)"
      by (auto simp: lower_char_def Let_def split: if_splits)
    then have "c \<noteq> CHR ''.''" "lower_char c \<noteq> CHR ''.''" by auto
    with up show ?thesis by (simp add: ToLower_def Let_def)
  qed
qed

lemma hexNumber_lower: "hexNumber (ToLower s) = hexNumber s"
  by (simp add: hexNumber_def ToLower_def foldl_map)

lemma ToLower_basic:
  "ToLower s = [] \<longleftrightarrow> s = []" "length (ToLower s) = length s" "drop n (ToLower s) = ToLower (drop n s)"
  "tl (ToLower s) = ToLower (tl s)"
  "takeWhile (\<lambda>c. hexValue c \<noteq> None) (ToLower s) = ToLower (takeWhile (\<lambda>c. hexValue c \<noteq> None) s)"
  by (simp_all add: ToLower_def drop_map map_tl takeWhile_map o_def)

lemma ToLower_hd:
  "hd (ToLower s) = CHR ''.'' \<longleftrightarrow> hd s = CHR ''.''" "hd (ToLower s) = CHR '':'' \<longleftrightarrow> hd s = CHR '':''"
  by (cases s; simp add: ToLower_def lower_char_eq_caseless caseless_def)+

lemma ipv6Groups_lower: "ipv6Groups ip e (ToLower s) = ipv6Groups ip e s"
proof (induction ip e s rule: ipv6Groups.induct)
  case (1 ip e s)
  define ds where "ds = takeWhile (\<lambda>c. hexValue c \<noteq> None) s"
  define rest where "rest = drop (length ds) s"
  define ip' where "ip' = ip @ [word_of_nat (hexNumber ds div 256), word_of_nat (hexNumber ds)]"
  note eqs = ds_def [symmetric] rest_def [symmetric] ip'_def [symmetric]
  note conv = ToLower_basic ToLower_hd hexNumber_lower ipv4Fields_lower Let_def eqs
  show ?case
    apply (subst (1 2) ipv6Groups.simps)
    apply (simp only: conv)
    apply (intro if_cong refl)
    subgoal by (rule 1(1) [OF _ ds_def rest_def _ _ ip'_def]) simp_all
    subgoal by (rule 1(2) [OF _ ds_def rest_def _ _ ip'_def]) simp_all
    done
qed

lemma ToLower_eq_caseless: "list_all caseless p \<Longrightarrow> ToLower q = p \<longleftrightarrow> q = p"
  by (simp add: ToLower_def map_lower_eq_caseless)

lemma ToLower_prefix_caseless: "list_all caseless p \<Longrightarrow> prefix p (ToLower q) \<longleftrightarrow> prefix p q"
  using ToLower_eq_caseless [of p "take (length p) q"]
  by (metis ToLower_basic(2) ToLower_def append_eq_conv_conj prefix_def take_map)

lemma ToLower_mem_caseless: "caseless d \<Longrightarrow> d \<in> set (ToLower s) \<longleftrightarrow> d \<in> set s"
  unfolding ToLower_def set_map image_iff using lower_char_eq_caseless by metis

lemma find_lower:
  "find (\<lambda>c. c = CHR ''.'' \<or> c = CHR '':'') (ToLower s) = find (\<lambda>c. c = CHR ''.'' \<or> c = CHR '':'') s"
  by (induction s) (auto simp: ToLower_def lower_char_eq_caseless caseless_def)

lemma ParseIP_lower: "ParseIP (ToLower s) = ParseIP s"
proof -
  have c: "list_all caseless ''::''" "caseless (CHR ''%'')" by (simp_all add: caseless_def)
  have "parseIPv6 (ToLower s) = parseIPv6 s"
    by (simp only: parseIPv6_def ToLower_eq_caseless [OF c(1)] ToLower_prefix_caseless [OF c(1)] ToLower_basic(3) ipv6Groups_lower)
  then show ?thesis
    by (simp only: ParseIP_def ToLower_mem_caseless [OF c(2)] find_lower ipv4Fields_lower)
qed

lemma ToLower_id: "(\<And>c. c \<in> set s \<Longrightarrow> lower_char c = c) \<Longrightarrow> ToLower s = s"
  unfolding ToLower_def by (rule map_idI)

lemma hexText_lower: "ToLower (hexText n) = hexText n"
proof (induction n rule: hexText.induct)
  case (1 n)
  have d: "lower_char (hexDigit k) = hexDigit k" if "k < 16" for k
    using that by (auto simp: hexDigit_def lower_char_def Let_def)
  show ?case using 1 d [of n] d [of "n mod 16"]
    by (cases "n < 16") (subst (1 2) hexText.simps, simp add: ToLower_def)+
qed

lemma Itoa_lower: "ToLower (Itoa n) = Itoa n"
proof (rule ToLower_id)
  fix c assume "c \<in> set (Itoa n)"
  then have "isDigit c" by (rule Itoa_mem)
  then show "lower_char c = c" by (simp add: isDigit_def lower_char_def Let_def)
qed

lemma joinText_lower: "(\<And>t. t \<in> set ts \<Longrightarrow> ToLower t = t) \<Longrightarrow> ToLower (joinText sep ts) = joinText (ToLower sep) ts"
  by (induction sep ts rule: joinText.induct) (auto simp: ToLower_def)

lemma IPString_lower: "ToLower (IPString ip) = IPString ip"
proof -
  have sep: "ToLower ''.'' = ''.''" "ToLower '':'' = '':''" "ToLower ''::'' = ''::''"
    by (simp_all add: ToLower_def lower_char_def)
  have app: "ToLower (a @ b) = ToLower a @ ToLower b" for a b by (simp add: ToLower_def)
  have h: "ToLower (joinText '':'' (map hexText gs)) = joinText '':'' (map hexText gs)" for gs
    using joinText_lower [of "map hexText gs" "'':''"] hexText_lower sep by fastforce
  have d: "ToLower (joinText ''.'' (map (\<lambda>b. Itoa (unat b)) v)) = joinText ''.'' (map (\<lambda>b. Itoa (unat b)) v)" for v :: bytes
    using joinText_lower [of "map (\<lambda>b. Itoa (unat b)) v" "''.''"] Itoa_lower sep by fastforce
  show ?thesis
    unfolding IPString_def ipv6Text_def Let_def
    by (simp only: d app h sep split: option.split prod.split) simp
qed

lemma normalizeHost_normal:
  "ToLower (normalizeHost h) = normalizeHost h
   \<and> (ParseIP (normalizeHost h) = None \<or> (\<exists>t ip. ParseIP t = Some ip \<and> normalizeHost h = IPString ip))"
proof -
  define h' where "h' = TrimSpace (TrimSuffix h ''.'')"
  consider (wild) "prefix ''*.'' h'" | (ip) ip where "\<not> prefix ''*.'' h'" "ParseIP h' = Some ip"
    | (name) "\<not> prefix ''*.'' h'" "ParseIP h' = None" by fastforce
  then show ?thesis
  proof cases
    case wild
    then have n: "normalizeHost h = ''*.'' @ ToLower (TrimPrefix h' ''*.'')" by (simp add: normalizeHost_def h'_def Let_def)
    moreover have "ParseIP (''*.'' @ t) = None" for t by (simp add: ParseIP_def Let_def)
    moreover have "ToLower (''*.'' @ ToLower t) = ''*.'' @ ToLower t" for t
      by (simp add: ToLower_def lower_char_def Let_def)
    ultimately show ?thesis by simp
  next
    case ip
    then have "normalizeHost h = IPString ip" by (simp add: normalizeHost_def h'_def Let_def)
    then show ?thesis using ip IPString_lower by metis
  next
    case name
    then have "normalizeHost h = ToLower h'" by (simp add: normalizeHost_def h'_def Let_def)
    then show ?thesis using name by (simp add: ParseIP_lower)
  qed
qed

section \<open>What a parsed list holds\<close>

definition port_number :: "string \<Rightarrow> bool" where
  "port_number p = (\<exists>n \<in> {1..65535 :: nat}. p = Itoa n)"

definition rule_ok :: "allowRule \<Rightarrow> bool" where
  "rule_ok r =
     (arHost r \<noteq> [] \<and> arHost r \<noteq> ''*.''
      \<and> (CHR ''*'' \<in> set (arHost r) \<longrightarrow> arHost r = ''*'' \<or> prefix ''*.'' (arHost r))
      \<and> ToLower (arHost r) = arHost r
      \<and> (ParseIP (arHost r) = None \<or> (\<exists>t ip. ParseIP t = Some ip \<and> arHost r = IPString ip))
      \<and> (arPort r = ''*'' \<or> port_number (arPort r)))"

lemma allowPort_Inr: "allowPort p = Inr q \<Longrightarrow> q = ''*'' \<or> port_number q"
  by (force simp: allowPort_def port_number_def split: if_splits option.splits)

lemma set_joinText: "set (joinText sep ts) \<subseteq> set sep \<union> (\<Union>t \<in> set ts. set t)"
  by (induction sep ts rule: joinText.induct) auto

lemma hexText_star: "CHR ''*'' \<notin> set (hexText n)"
proof (induction n rule: hexText.induct)
  case (1 n)
  have d: "hexDigit k \<noteq> CHR ''*''" if "k < 16" for k
  proof -
    have "48 \<le> (of_char (hexDigit k) :: nat)" using that by (simp add: hexDigit_def)
    then show ?thesis by auto
  qed
  show ?case using 1 d [of n] d [of "n mod 16"] by (cases "n < 16") (subst hexText.simps, simp)+
qed

lemma Itoa_star: "CHR ''*'' \<notin> set (Itoa n)"
  using Itoa_digits(1) [of n] by (auto simp: list_all_iff isDigit_def)

lemma IPString_star: "CHR ''*'' \<notin> set (IPString ip)"
proof -
  have "CHR ''*'' \<notin> set (joinText ''.'' (map (\<lambda>b. Itoa (unat b)) v))" for v :: bytes
    using set_joinText [of "''.''" "map (\<lambda>b. Itoa (unat b)) v"] Itoa_star by fastforce
  moreover have "CHR ''*'' \<notin> set (joinText '':'' (map hexText gs))" for gs
    using set_joinText [of "'':''" "map hexText gs"] hexText_star by fastforce
  ultimately show ?thesis
    by (auto simp: IPString_def ipv6Text_def Let_def split: option.split prod.split)
qed

lemma set_TrimSpace: "set (TrimSpace s) \<subseteq> set s"
proof -
  have "set (trimRight s) \<subseteq> set s" for s by (simp add: prefix_trimRight set_mono_prefix)
  then show ?thesis unfolding TrimSpace_def using set_trimLeft by blast
qed

lemma set_TrimSuffix: "set (TrimSuffix s p) \<subseteq> set s"
  by (auto simp: TrimSuffix_def dest: in_set_takeD)

lemma ToLower_star: "CHR ''*'' \<in> set (ToLower s) \<longleftrightarrow> CHR ''*'' \<in> set s"
proof -
  have "lower_char c = CHR ''*'' \<longleftrightarrow> c = CHR ''*''" for c
    by (rule lower_char_eq_caseless) (simp add: caseless_def)
  then have "CHR ''*'' = lower_char c \<longleftrightarrow> CHR ''*'' = c" for c by (metis (full_types))
  then show ?thesis by (induction s) (simp_all add: ToLower_def)
qed

lemma normalizeHost_trimLeft: "normalizeHost (trimLeft h) = normalizeHost h"
proof -
  have "TrimSpace (TrimSuffix (trimLeft h) ''.'') = TrimSpace (TrimSuffix h ''.'')"
  proof (cases "suffix ''.'' h")
    case True
    then obtain g where g: "h = g @ ''.''" by (auto simp: suffix_def)
    have "trimLeft h = trimLeft g @ ''.''" unfolding g by (rule trimLeft_snoc) (simp add: solid_def)
    then show ?thesis unfolding g by (simp add: TrimSuffix_dot)
  next
    case False
    moreover have "suffix (trimLeft h) h" by (simp add: trimLeft_def suffix_strip)
    ultimately have "\<not> suffix ''.'' (trimLeft h)" by (metis suffix_order.trans)
    then show ?thesis using False by (simp add: TrimSuffix_dot(2))
  qed
  then show ?thesis unfolding normalizeHost_def by simp
qed

lemma normalizeHost_star:
  assumes "CHR ''*'' \<in> set (normalizeHost h)" "CHR ''*'' \<in> set h \<Longrightarrow> prefix ''*.'' h"
  shows "normalizeHost h = ''*'' \<or> prefix ''*.'' (normalizeHost h)"
proof -
  define h' where "h' = TrimSpace (TrimSuffix h ''.'')"
  show ?thesis
  proof (cases "prefix ''*.'' h' \<or> ParseIP h' \<noteq> None")
    case True
    then show ?thesis using assms(1) IPString_star
      by (auto simp: normalizeHost_def h'_def [symmetric] Let_def split: if_splits)
  next
    case False
    then have n: "normalizeHost h = ToLower h'" by (auto simp: normalizeHost_def h'_def [symmetric] Let_def)
    then have "CHR ''*'' \<in> set h'" using assms(1) by (simp add: ToLower_star)
    then have "CHR ''*'' \<in> set h" using set_TrimSpace set_TrimSuffix unfolding h'_def by blast
    then obtain t where h: "h = CHR ''*'' # CHR ''.'' # t" using assms(2) by (auto simp: prefix_def)
    have "TrimSuffix h ''.'' = ''*'' \<or> (\<exists>u. TrimSuffix h ''.'' = CHR ''*'' # CHR ''.'' # u)"
      unfolding h by (cases t rule: rev_cases) (auto simp: TrimSuffix_def)
    then have "h' = ''*''"
      using False unfolding h'_def by (auto simp: TrimSpace_front trimRight_Cons solid_def)
    then show ?thesis unfolding n by (simp add: ToLower_def lower_char_def)
  qed
qed

lemma star_normal: "ToLower ''*'' = ''*''" "ParseIP ''*'' = None"
  by (simp_all add: ToLower_def lower_char_def ParseIP_def)

lemma checkRule_ok:
  assumes "checkRule host port = Inr (h, p)"
  shows "rule_ok \<lparr>arHost = h, arPort = p\<rparr>"
proof -
  have star: "CHR ''*'' \<in> set host \<Longrightarrow> host \<noteq> ''*'' \<Longrightarrow> prefix ''*.'' host"
    and port: "allowPort port = Inr p"
    and h: "h = (if host \<noteq> ''*'' then normalizeHost host else host)" "h \<noteq> []" "h \<noteq> ''*.''"
    using assms unfolding checkRule_def Let_def by (auto split: if_splits sum.splits)
  have "CHR ''*'' \<in> set h \<Longrightarrow> h = ''*'' \<or> prefix ''*.'' h"
    using normalizeHost_star [of host] star unfolding h(1) by (cases "host = ''*''") simp_all
  moreover have "ToLower h = h \<and> (ParseIP h = None \<or> (\<exists>t ip. ParseIP t = Some ip \<and> h = IPString ip))"
    using normalizeHost_normal [of host] star_normal h(1) by (cases "host = ''*''") simp_all
  ultimately show ?thesis using h(2,3) allowPort_Inr [OF port] by (simp add: rule_ok_def)
qed

lemma splitRule_ok: "splitRule raw = Inr (h, p) \<Longrightarrow> rule_ok \<lparr>arHost = h, arPort = p\<rparr>"
  by (cases "raw = ''*:*''")
     (auto simp: splitRule_def star_normal rule_ok_def [of "\<lparr>arHost = ''*'', arPort = ''*''\<rparr>"] dest: checkRule_ok split: option.splits if_splits)

text \<open>The rule a field of the list stands for.\<close>

definition fieldRule :: "string \<Rightarrow> allowRule \<Rightarrow> bool" where
  "fieldRule field r = (TrimSpace field \<noteq> [] \<and> splitRule (TrimSpace field) = Inr (arHost r, arPort r))"

definition ruleKey :: "allowRule \<Rightarrow> string" where
  "ruleKey r = arHost r @ [CHR 0x00] @ arPort r"

lemma port_no_nul: "p = ''*'' \<or> port_number p \<Longrightarrow> CHR 0x00 \<notin> set p"
  using Itoa_mem [of "CHR 0x00"] by (auto simp: port_number_def isDigit_def)

lemma ruleKey_inj: "rule_ok r \<Longrightarrow> rule_ok s \<Longrightarrow> ruleKey r = ruleKey s \<Longrightarrow> r = s"
proof -
  assume ok: "rule_ok r" "rule_ok s" and key: "ruleKey r = ruleKey s"
  have "CHR 0x00 \<notin> set (arPort r)" "CHR 0x00 \<notin> set (arPort s)"
    using ok port_no_nul by (auto simp: rule_ok_def)
  moreover have "arHost r @ CHR 0x00 # arPort r = arHost s @ CHR 0x00 # arPort s"
    using key by (simp add: ruleKey_def)
  moreover from calculation have "length (arHost r) = length (arHost s)"
    using LastIndexByte_append [of "CHR 0x00" "arPort r" "arHost r"]
      LastIndexByte_append [of "CHR 0x00" "arPort s" "arHost s"] by simp
  ultimately have "arHost r = arHost s \<and> arPort r = arPort s" by simp
  then show "r = s" by simp
qed

lemma parseRules_Inr:
  assumes "parseRules fs seen rules = Inr a" "set seen = ruleKey ` set rules" "list_all rule_ok rules" "distinct rules"
  shows "list_all rule_ok a \<and> distinct a \<and> set a = set rules \<union> {r. \<exists>f \<in> set fs. fieldRule f r}"
  using assms
proof (induction fs seen rules rule: parseRules.induct)
  case (1 seen rules)
  then show ?case by simp
next
  case (2 raw fs seen rules)
  show ?case
  proof (cases "TrimSpace raw = []")
    case True
    then show ?thesis using 2 by (simp add: fieldRule_def)
  next
    case False
    then obtain host port where sr: "splitRule (TrimSpace raw) = Inr (host, port)"
      using 2(4) by (auto simp: Let_def split: sum.splits)
    define r where "r = \<lparr>arHost = host, arPort = port\<rparr>"
    have ok: "rule_ok r" unfolding r_def by (rule splitRule_ok) (rule sr)
    have fr: "fieldRule raw s \<longleftrightarrow> s = r" for s using False sr by (auto simp: fieldRule_def r_def)
    have key: "host @ [CHR 0x00] @ port = ruleKey r" by (simp add: ruleKey_def r_def)
    have seen: "ruleKey r \<in> set seen \<longleftrightarrow> r \<in> set rules"
      using 2(5,6) ok ruleKey_inj by (auto simp: list_all_iff)
    show ?thesis
    proof (cases "r \<in> set rules")
      case True
      then show ?thesis using 2(2) [OF refl False sr refl refl] 2(4-7) False sr seen key fr by auto
    next
      case new: False
      then show ?thesis using 2(3) [OF refl False sr refl refl] 2(4-7) False sr seen key fr ok
        by (auto simp: r_def [symmetric])
    qed
  qed
qed

text \<open>A domain rule matches the names below the domain, an exact rule one host, and \<open>*\<close> any.\<close>

lemma hostMatch_domain: "hostMatch \<lparr>arHost = ''*.'' @ d, arPort = p\<rparr> host \<longleftrightarrow> (\<exists>label. host = label @ ''.'' @ d)"
proof -
  have "suffix (CHR ''.'' # d) host \<longleftrightarrow> (\<exists>label. host = label @ ''.'' @ d)" by (simp add: suffix_def)
  then show ?thesis by (auto simp: hostMatch_def TrimPrefix_def suffix_def)
qed

lemma hostMatch_other: "\<not> prefix ''*.'' h \<Longrightarrow> hostMatch \<lparr>arHost = h, arPort = p\<rparr> host \<longleftrightarrow> h = ''*'' \<or> h = host"
  by (simp add: hostMatch_def)



text \<open>
  A rule with an empty domain, \<open>*.:*\<close>, is not refused: its host loses the final dot first and becomes
  the unrestricted \<open>*\<close>, so that the list allows any destination.
\<close>

theorem empty_wildcard_unrestricted:
  "ParseAllowlist ''*.:*'' = Inr [\<lparr>arHost = ''*'', arPort = ''*''\<rparr>]
   \<and> AllowsAny [\<lparr>arHost = ''*'', arPort = ''*''\<rparr>]
   \<and> allowed [\<lparr>arHost = ''*'', arPort = ''*''\<rparr>] host port
   \<and> splitRule ''*.:443'' = Inr (''*'', ''443'')"
  apply (intro conjI)
  subgoal by code_simp
  subgoal by code_simp
  subgoal by (simp add: allowed_def ruleMatches_def hostMatch_def)
  subgoal by code_simp
  done

end
