(* ===== verification/Session_Tcp.thy ===== *)
theory Session_Tcp
  imports Dest_Policy
begin

text \<open>
  TCP connections over logical streams: requests, the destination policy and the server of
  \<open>sessiontcp/tcp.go\<close> and \<open>sessiontcp/policy.go\<close>, and the BIND service of \<open>sessionbind/bind.go\<close> it
  hands typed metadata to. JSON is the parameter \<open>dest_json\<close>; dialling, listening, accepting and name
  resolution are \<open>net_env\<close>; \<open>errText\<close> is the text of an error. A server's run is the list of what it
  did on the network, its side of the stream, and how it ended; \<open>Running\<close> says that the given network
  events do not bring it to an end.

  Shown: the server dials only destinations its allowlist names, a BIND hands over only a connection
  from the expected peer, and the client's reading of the result is what the server wrote.
\<close>

section \<open>Requests\<close>

record tcp_request =
  tqProtocol :: string
  tqNetwork :: string
  tqAddress :: string

record bind_request =
  bqProtocol :: string
  bqNetwork :: string
  bqExpectedPeer :: string

record bind_response =
  brProtocol :: string
  brPhase :: string
  brNetwork :: string
  brAddress :: string
  brError :: string

text \<open>
  \<open>djProtocol\<close> reads the protocol field alone; \<open>djBind\<close> also says whether something follows the first
  value.
\<close>

record dest_json =
  djProtocol :: "bytes \<Rightarrow> string option"
  djTcp :: "bytes \<Rightarrow> tcp_request option"
  djTcpText :: "tcp_request \<Rightarrow> bytes"
  djBind :: "bytes \<Rightarrow> (bind_request \<times> bool) option"
  djBindText :: "bind_request \<Rightarrow> bytes"
  djResponse :: "bytes \<Rightarrow> bind_response option"
  djResponseText :: "bind_response \<Rightarrow> bytes"

definition TcpProtocol :: string where
  "TcpProtocol = ''weaverssh.tcp.v1''"

definition BindProtocol :: string where
  "BindProtocol = ''weaverssh.tcp-bind.v1''"

definition tcpNetwork :: "string \<Rightarrow> string" where
  "tcpNetwork network = (let n = ToLower (TrimSpace network) in if n = [] then ''tcp'' else n)"

definition Tcp_NormalizeRequest :: "tcp_request \<Rightarrow> dest_error + tcp_request" where
  "Tcp_NormalizeRequest req =
     (let protocol = (if tqProtocol req = [] then TcpProtocol else tqProtocol req);
          network = tcpNetwork (tqNetwork req) in
      if protocol \<noteq> TcpProtocol then Inl ErrDestProtocol
      else if network \<notin> {''tcp'', ''tcp4'', ''tcp6''} then Inl ErrDestNetwork
      else case SplitHostPort (TrimSpace (tqAddress req)) of
        None \<Rightarrow> Inl ErrHostPort
      | Some (host, portText) \<Rightarrow>
          if TrimSpace host = [] then Inl ErrHostPort
          else case Atoi portText of
            None \<Rightarrow> Inl ErrDestPort
          | Some port \<Rightarrow>
              if port < 1 \<or> 65535 < port then Inl ErrDestPort
              else if CHR 0x00 \<in> set host then Inl ErrDestNul
              else Inr \<lparr>tqProtocol = protocol, tqNetwork = network,
                     tqAddress = JoinHostPort host (Itoa (nat port))\<rparr>)"

definition Tcp_EncodeRequest :: "dest_json \<Rightarrow> string \<Rightarrow> string \<Rightarrow> dest_error + bytes" where
  "Tcp_EncodeRequest js network address =
     (case Tcp_NormalizeRequest \<lparr>tqProtocol = TcpProtocol, tqNetwork = network, tqAddress = address\<rparr> of
        Inl e \<Rightarrow> Inl e
      | Inr req \<Rightarrow> if 8192 < length (djTcpText js req) then Inl ErrMetadataSize else Inr (djTcpText js req))"

definition Tcp_DecodeRequest :: "dest_json \<Rightarrow> bytes \<Rightarrow> dest_error + tcp_request" where
  "Tcp_DecodeRequest js payload =
     (if payload = [] \<or> 8192 < length payload then Inl ErrMetadataSize
      else case djTcp js payload of
        None \<Rightarrow> Inl ErrMetadata
      | Some req \<Rightarrow> Tcp_NormalizeRequest req)"

definition Tcp_Authorize :: "Allowlist \<Rightarrow> tcp_request \<Rightarrow> dest_error option" where
  "Tcp_Authorize a req =
     (case Tcp_NormalizeRequest req of
        Inl e \<Rightarrow> Some e
      | Inr req' \<Rightarrow>
          (case (case SplitHostPort (tqAddress req') of None \<Rightarrow> ([], []) | Some hp \<Rightarrow> hp) of
             (host, port) \<Rightarrow> if allowed a (normalizeHost host) port then None else Some ErrDestDenied))"

section \<open>BIND requests\<close>

definition IsBindMetadata :: "dest_json \<Rightarrow> bytes \<Rightarrow> bool" where
  "IsBindMetadata js payload = (djProtocol js payload = Some BindProtocol)"

definition Bind_NormalizeRequest :: "bind_request \<Rightarrow> dest_error + bind_request" where
  "Bind_NormalizeRequest req =
     (let protocol = (if TrimSpace (bqProtocol req) = [] then BindProtocol else bqProtocol req);
          network = tcpNetwork (bqNetwork req) in
      if protocol \<noteq> BindProtocol then Inl ErrDestProtocol
      else if network \<notin> {''tcp'', ''tcp4'', ''tcp6''} then Inl ErrDestNetwork
      else case SplitHostPort (TrimSpace (bqExpectedPeer req)) of
        None \<Rightarrow> Inl ErrHostPort
      | Some (host, portText) \<Rightarrow>
          if TrimSpace host = [] then Inl ErrHostPort
          else case Atoi portText of
            None \<Rightarrow> Inl ErrDestPort
          | Some port \<Rightarrow>
              if port < 0 \<or> 65535 < port then Inl ErrDestPort
              else
              let host = TrimSuffix (TrimSpace host) ''.'' in
              if CHR 0x00 \<in> set host then Inl ErrDestNul
              else if port = 0 \<and> (case ParseIP host of None \<Rightarrow> True | Some ip \<Rightarrow> \<not> IsUnspecified ip) then Inl ErrWildcardPeer
              else Inr \<lparr>bqProtocol = protocol, bqNetwork = network,
                     bqExpectedPeer = JoinHostPort host (Itoa (nat port))\<rparr>)"

definition Bind_EncodeRequest :: "dest_json \<Rightarrow> string \<Rightarrow> string \<Rightarrow> dest_error + bytes" where
  "Bind_EncodeRequest js network expectedPeer =
     (case Bind_NormalizeRequest \<lparr>bqProtocol = BindProtocol, bqNetwork = network, bqExpectedPeer = expectedPeer\<rparr> of
        Inl e \<Rightarrow> Inl e
      | Inr req \<Rightarrow> Inr (djBindText js req))"

definition Bind_DecodeRequest :: "dest_json \<Rightarrow> bytes \<Rightarrow> dest_error + bind_request" where
  "Bind_DecodeRequest js payload =
     (if payload = [] \<or> 16384 < length payload then Inl ErrMetadataSize
      else case djBind js payload of
        None \<Rightarrow> Inl ErrMetadata
      | Some (req, atEnd) \<Rightarrow> if \<not> atEnd then Inl ErrTrailing else Bind_NormalizeRequest req)"

definition IsWildcardPeer :: "string \<Rightarrow> bool" where
  "IsWildcardPeer expected =
     (case SplitHostPort (TrimSpace expected) of
        None \<Rightarrow> False
      | Some (host, portText) \<Rightarrow>
          portText = ''0'' \<and> (case ParseIP (TrimSpace host) of None \<Rightarrow> False | Some ip \<Rightarrow> IsUnspecified ip))"

section \<open>Answers on the stream\<close>

definition writeAll :: "conn \<Rightarrow> bytes \<Rightarrow> mux_error option \<times> conn" where
  "writeAll w payload = writeFull w payload"

definition writeBoth :: "conn \<Rightarrow> bytes \<Rightarrow> bytes \<Rightarrow> mux_error option \<times> conn" where
  "writeBoth w header payload =
     (case writeAll w header of
        (Some e, w') \<Rightarrow> (Some e, w')
      | (None, w') \<Rightarrow> writeAll w' payload)"

text \<open>
  The service answer of \<open>sessiontcp\<close> and \<open>sessionudp\<close>, which differ in the last letter but one of the
  magic: \<open>msg\<close> is the text of the error, \<open>None\<close> without one.
\<close>

definition resultHeader :: "bytes \<Rightarrow> string option \<Rightarrow> bytes \<Rightarrow> bytes" where
  "resultHeader magic msg payload =
     magic @ [1, if msg = None then 0 else 1, 0] @ put_uint16 (of_nat (length payload))"

definition resultPayload :: "string option \<Rightarrow> bytes" where
  "resultPayload msg = take 4096 (toBytes (case msg of None \<Rightarrow> [] | Some m \<Rightarrow> m))"

definition writeResult :: "bytes \<Rightarrow> conn \<Rightarrow> string option \<Rightarrow> mux_error option \<times> conn" where
  "writeResult magic w msg = writeBoth w (resultHeader magic msg (resultPayload msg)) (resultPayload msg)"

text \<open>\<open>readResult\<close> on a reader that still delivers \<open>bs\<close>; the rest of the stream follows the answer.\<close>

definition readResult :: "bytes \<Rightarrow> bytes \<Rightarrow> dest_error option \<times> bytes" where
  "readResult magic bs =
     (case ReadFull 9 bs of
        Inl e \<Rightarrow> (Some (ErrStreamIO e), [])
      | Inr (header, rest) \<Rightarrow>
          if take 4 header \<noteq> magic \<or> header ! 4 \<noteq> 1 then (Some ErrBadResult, rest)
          else if 4096 < unat (get_uint16 (drop 7 header)) then (Some ErrOversizedResult, rest)
          else case ReadFull (unat (get_uint16 (drop 7 header))) rest of
            Inl e \<Rightarrow> (Some (ErrStreamIO e), [])
          | Inr (payload, rest') \<Rightarrow>
              ((if header ! 5 \<noteq> 0 then Some (ErrRemote (TrimSpace (ofBytes payload))) else None), rest'))"

section \<open>The network\<close>

text \<open>
  \<open>neDial\<close> and \<open>neListen\<close> give an error text or the peer's and the listener's address. \<open>neAccepts\<close> are
  the outcomes of the accept loop's \<open>select\<close>: the context ended, \<open>Accept\<close> failed, or a connection from
  the given remote address. \<open>neRelay\<close> are the outcomes of the relay's \<open>select\<close>: a pump ended with a
  harmless or another error, or the context ended.
\<close>

datatype accept_event = AcceptCancelled | AcceptFailed string | AcceptConn "string option"

datatype relay_event = PumpDone | PumpFailed dest_error | RelayCancelled

record net_env =
  neDial :: "string \<Rightarrow> string \<Rightarrow> string + string"
  neListen :: "string \<Rightarrow> string \<Rightarrow> string + string"
  neAccepts :: "accept_event list"
  neLookupIP :: "string \<Rightarrow> string + bytes list"
  neRelay :: "relay_event list"

datatype net_event = EvDial string string | EvListen string string | EvRefuse "string option" | EvAccept string string

datatype serve_end = Running | Returned "dest_error option"

text \<open>
  The two results of \<open>relay\<close>: \<open>sessiontcp\<close> keeps the first error and waits for the other pump,
  \<open>sessionbind\<close> returns at once.
\<close>

fun tcpRelay :: "nat \<Rightarrow> relay_event list \<Rightarrow> dest_error option \<Rightarrow> serve_end" where
  "tcpRelay 0 evs terminalErr = Returned terminalErr"
| "tcpRelay (Suc i) [] terminalErr = Running"
| "tcpRelay (Suc i) (PumpDone # evs) terminalErr = tcpRelay i evs terminalErr"
| "tcpRelay (Suc i) (PumpFailed e # evs) terminalErr = tcpRelay i evs (if terminalErr = None then Some e else terminalErr)"
| "tcpRelay (Suc i) (RelayCancelled # evs) terminalErr = Returned (Some ErrCancelled)"

fun bindRelay :: "nat \<Rightarrow> relay_event list \<Rightarrow> serve_end" where
  "bindRelay 0 evs = Returned None"
| "bindRelay (Suc i) [] = Running"
| "bindRelay (Suc i) (PumpDone # evs) = bindRelay i evs"
| "bindRelay (Suc i) (PumpFailed e # evs) = Returned (Some e)"
| "bindRelay (Suc i) (RelayCancelled # evs) = Returned (Some ErrCancelled)"

lemma tcpRelay_code [code]:
  "tcpRelay i evs terminalErr =
     (if i = 0 then Returned terminalErr
      else case evs of
          [] \<Rightarrow> Running
        | PumpDone # evs \<Rightarrow> tcpRelay (i - 1) evs terminalErr
        | PumpFailed e # evs \<Rightarrow> tcpRelay (i - 1) evs (if terminalErr = None then Some e else terminalErr)
        | RelayCancelled # evs \<Rightarrow> Returned (Some ErrCancelled))"
  by (cases "(i, evs, terminalErr)" rule: tcpRelay.cases) simp_all

lemma bindRelay_code [code]:
  "bindRelay i evs =
     (if i = 0 then Returned None
      else case evs of
          [] \<Rightarrow> Running
        | PumpDone # evs \<Rightarrow> bindRelay (i - 1) evs
        | PumpFailed e # evs \<Rightarrow> Returned (Some e)
        | RelayCancelled # evs \<Rightarrow> Returned (Some ErrCancelled))"
  by (cases "(i, evs)" rule: bindRelay.cases) simp_all

section \<open>The BIND server\<close>

record bind_server =
  bsAuthorize :: "(bind_request \<Rightarrow> dest_error option) option"
  bsResolvePeer :: "(string \<Rightarrow> string \<Rightarrow> string + bytes list) option"
  bsBindAddress :: string
  bsAllowAnyPeer :: bool

text \<open>\<open>IP.Equal\<close>: an IPv4 address equals its 16-byte form.\<close>

definition IPEqual :: "bytes \<Rightarrow> bytes \<Rightarrow> bool" where
  "IPEqual a b =
     (if length a = length b then a = b
      else case (To4 a, To4 b) of (Some x, Some y) \<Rightarrow> x = y | _ \<Rightarrow> False)"

definition defaultResolvePeer :: "net_env \<Rightarrow> string \<Rightarrow> string \<Rightarrow> string + bytes list" where
  "defaultResolvePeer env network host =
     map_sum id
       (filter (\<lambda>ip. if network = ''tcp4'' then To4 ip \<noteq> None
                  else if network = ''tcp6'' then (length ip = 4 \<or> length ip = 16) \<and> To4 ip = None
                  else True))
       (neLookupIP env (TrimSuffix (TrimSpace host) ''.''))"

definition peerMatchesResolved :: "string option \<Rightarrow> string \<Rightarrow> bytes list \<Rightarrow> bool" where
  "peerMatchesResolved address expectedPort expectedIPs =
     (case address of
        None \<Rightarrow> False
      | Some addr \<Rightarrow>
          (case SplitHostPort addr of
             None \<Rightarrow> False
           | Some (actualHost, actualPort) \<Rightarrow>
               actualPort = expectedPort
               \<and> (case ParseIP actualHost of
                    None \<Rightarrow> False
                  | Some ip \<Rightarrow> list_ex (IPEqual ip) expectedIPs)))"

definition expectedAddresses ::
  "net_env \<Rightarrow> string \<Rightarrow> string \<Rightarrow> (string \<Rightarrow> string \<Rightarrow> string + bytes list) option \<Rightarrow> dest_error + string \<times> bytes list" where
  "expectedAddresses env network expected resolve =
     (case SplitHostPort expected of
        None \<Rightarrow> Inl ErrHostPort
      | Some (host, port) \<Rightarrow>
          (case ParseIP host of
             Some ip \<Rightarrow> Inr (port, [ip])
           | None \<Rightarrow>
               (case (case resolve of Some f \<Rightarrow> f | None \<Rightarrow> defaultResolvePeer env) network host of
                  Inl m \<Rightarrow> Inl (ErrResolve m)
                | Inr ips \<Rightarrow> if ips = [] then Inl ErrNoAddresses else Inr (port, ips))))"

text \<open>The accept loop; \<open>None\<close> while it still waits.\<close>

fun acceptLoop :: "(string option \<Rightarrow> bool) \<Rightarrow> accept_event list \<Rightarrow> net_event list \<times> (dest_error + string option) option" where
  "acceptLoop good [] = ([], None)"
| "acceptLoop good (AcceptCancelled # evs) = ([], Some (Inl ErrCancelled))"
| "acceptLoop good (AcceptFailed m # evs) = ([], Some (Inl (ErrAccept m)))"
| "acceptLoop good (AcceptConn remote # evs) =
     (if good remote then ([], Some (Inr remote))
      else (case acceptLoop good evs of (ne, r) \<Rightarrow> (EvRefuse remote # ne, r)))"

definition acceptExpectedPeer ::
  "net_env \<Rightarrow> string \<Rightarrow> string \<Rightarrow> bool \<Rightarrow> (string \<Rightarrow> string \<Rightarrow> string + bytes list) option
    \<Rightarrow> net_event list \<times> (dest_error + string option) option" where
  "acceptExpectedPeer env network expected wildcard resolve =
     (if wildcard then acceptLoop (\<lambda>_. True) (neAccepts env)
      else case expectedAddresses env network expected resolve of
        Inl e \<Rightarrow> ([], Some (Inl e))
      | Inr (port, ips) \<Rightarrow> acceptLoop (\<lambda>remote. peerMatchesResolved remote port ips) (neAccepts env))"

definition bindMagic :: bytes where
  "bindMagic = toBytes ''WVB1''"

definition writeResponse :: "dest_json \<Rightarrow> conn \<Rightarrow> bind_response \<Rightarrow> dest_error option \<times> conn" where
  "writeResponse js w response =
     (let payload = djResponseText js response in
      if 16384 < length payload then (Some ErrResponseSize, w)
      else map_prod (map_option ErrStreamIO) id
             (writeBoth w (bindMagic @ put_uint32 (of_nat (length payload))) payload))"

definition readResponse :: "dest_json \<Rightarrow> bytes \<Rightarrow> dest_error + bind_response \<times> bytes" where
  "readResponse js bs =
     (case ReadFull 8 bs of
        Inl e \<Rightarrow> Inl (ErrStreamIO e)
      | Inr (header, rest) \<Rightarrow>
          if take 4 header \<noteq> bindMagic then Inl ErrBadResult
          else
          let n = unat (get_uint32 (drop 4 header)) in
          if n = 0 \<or> 16384 < n then Inl ErrOversizedResult
          else case ReadFull n rest of
            Inl e \<Rightarrow> Inl (ErrStreamIO e)
          | Inr (payload, rest') \<Rightarrow>
              (case djResponse js payload of
                 None \<Rightarrow> Inl ErrMetadata
               | Some response \<Rightarrow>
                   if brProtocol response \<noteq> BindProtocol then Inl ErrDestProtocol else Inr (response, rest')))"

definition bindFailure :: "(dest_error \<Rightarrow> string) \<Rightarrow> string \<Rightarrow> dest_error \<Rightarrow> bind_response" where
  "bindFailure errText phase e =
     \<lparr>brProtocol = BindProtocol, brPhase = phase, brNetwork = [], brAddress = [], brError = errText e\<rparr>"

text \<open>The end of a run: the stream is closed.\<close>

definition finish :: "conn \<Rightarrow> dest_error option \<Rightarrow> conn \<times> serve_end" where
  "finish w e = (w\<lparr>cnClosed := True\<rparr>, Returned e)"

definition bindRefuse :: "dest_json \<Rightarrow> (dest_error \<Rightarrow> string) \<Rightarrow> conn \<Rightarrow> string \<Rightarrow> dest_error \<Rightarrow> conn \<times> serve_end" where
  "bindRefuse js errText w phase e = finish (snd (writeResponse js w (bindFailure errText phase e))) (Some e)"

text \<open>Whether the server may wait for the expected peer.\<close>

definition bindDenied :: "bind_server \<Rightarrow> bind_request \<Rightarrow> dest_error option" where
  "bindDenied s req =
     (if IsWildcardPeer (bqExpectedPeer req) then (if bsAllowAnyPeer s then None else Some ErrWildcardPeer)
      else case bsAuthorize s of
        None \<Rightarrow> Some ErrNoPolicy
      | Some auth \<Rightarrow> map_option ErrDeniedBy (auth req))"

definition bindAddress :: "bind_server \<Rightarrow> string \<Rightarrow> string" where
  "bindAddress s network =
     (let addr = TrimSpace (bsBindAddress s) in
      if addr = [] then (if network = ''tcp6'' then ''[::1]:0'' else ''127.0.0.1:0'') else addr)"

definition bindAccepted ::
  "dest_json \<Rightarrow> net_env \<Rightarrow> (dest_error \<Rightarrow> string) \<Rightarrow> bind_server \<Rightarrow> bind_request \<Rightarrow> conn \<Rightarrow> net_event list \<times> conn \<times> serve_end" where
  "bindAccepted js env errText s req w =
     (case acceptExpectedPeer env (bqNetwork req) (bqExpectedPeer req) (IsWildcardPeer (bqExpectedPeer req)) (bsResolvePeer s) of
        (evs, None) \<Rightarrow> (evs, w, Running)
      | (evs, Some (Inl e)) \<Rightarrow> (evs, bindRefuse js errText w ''accepted'' e)
      | (evs, Some (Inr None)) \<Rightarrow> (evs, finish w (Some ErrNilDereference))
      | (evs, Some (Inr (Some remote))) \<Rightarrow>
          (case writeResponse js w \<lparr>brProtocol = BindProtocol, brPhase = ''accepted'', brNetwork = bqNetwork req,
                  brAddress = remote, brError = []\<rparr> of
             (Some e, w') \<Rightarrow> (evs, finish w' (Some e))
           | (None, w') \<Rightarrow>
               (evs @ [EvAccept (bqExpectedPeer req) remote],
                (case bindRelay 2 (neRelay env) of
                   Running \<Rightarrow> (w', Running)
                 | Returned e \<Rightarrow> finish w' e))))"

definition Bind_Serve ::
  "dest_json \<Rightarrow> net_env \<Rightarrow> (dest_error \<Rightarrow> string) \<Rightarrow> bind_server \<Rightarrow> conn \<Rightarrow> bytes \<Rightarrow> net_event list \<times> conn \<times> serve_end" where
  "Bind_Serve js env errText s w metadata =
     (case Bind_DecodeRequest js metadata of
        Inl e \<Rightarrow> ([], bindRefuse js errText w ''bound'' e)
      | Inr req \<Rightarrow>
          (case bindDenied s req of
             Some e \<Rightarrow> ([], bindRefuse js errText w ''bound'' e)
           | None \<Rightarrow>
               (let ev = EvListen (bqNetwork req) (bindAddress s (bqNetwork req)) in
                case neListen env (bqNetwork req) (bindAddress s (bqNetwork req)) of
                  Inl m \<Rightarrow> ([ev], bindRefuse js errText w ''bound'' (ErrListen m))
                | Inr bound \<Rightarrow>
                    (case writeResponse js w \<lparr>brProtocol = BindProtocol, brPhase = ''bound'', brNetwork = bqNetwork req,
                            brAddress = bound, brError = []\<rparr> of
                       (Some e, w') \<Rightarrow> ([ev], finish w' (Some e))
                     | (None, w') \<Rightarrow>
                         (case bindAccepted js env errText s req w' of
                            (evs, r) \<Rightarrow> (ev # evs, r))))))"

section \<open>The TCP server\<close>

record tcp_server =
  tsAuthorize :: "(tcp_request \<Rightarrow> dest_error option) option"
  tsBindAddress :: string
  tsBindResolvePeer :: "(string \<Rightarrow> string \<Rightarrow> string + bytes list) option"
  tsBindAllowAnyPeer :: bool

definition tcpMagic :: bytes where
  "tcpMagic = toBytes ''WVT1''"

text \<open>The BIND server \<open>Serve\<close> builds, with its authorisation through the TCP policy.\<close>

definition tcpBindAuthorize :: "tcp_server \<Rightarrow> bind_request \<Rightarrow> dest_error option" where
  "tcpBindAuthorize s bindRequest =
     (case tsAuthorize s of
        None \<Rightarrow> Some ErrNoPolicy
      | Some auth \<Rightarrow>
          (case Tcp_NormalizeRequest \<lparr>tqProtocol = TcpProtocol, tqNetwork = bqNetwork bindRequest,
                  tqAddress = bqExpectedPeer bindRequest\<rparr> of
             Inl e \<Rightarrow> Some e
           | Inr req \<Rightarrow> auth req))"

definition tcpBindServer :: "tcp_server \<Rightarrow> bind_server" where
  "tcpBindServer s =
     \<lparr>bsAuthorize = Some (tcpBindAuthorize s), bsResolvePeer = tsBindResolvePeer s,
      bsBindAddress = tsBindAddress s, bsAllowAnyPeer = tsBindAllowAnyPeer s\<rparr>"

definition tcpRefuse :: "(dest_error \<Rightarrow> string) \<Rightarrow> conn \<Rightarrow> dest_error \<Rightarrow> dest_error \<Rightarrow> conn \<times> serve_end" where
  "tcpRefuse errText w told e = finish (snd (writeResult tcpMagic w (Some (errText told)))) (Some e)"

definition tcpConnect :: "net_env \<Rightarrow> (dest_error \<Rightarrow> string) \<Rightarrow> tcp_request \<Rightarrow> conn \<Rightarrow> net_event list \<times> conn \<times> serve_end" where
  "tcpConnect env errText req w =
     ([EvDial (tqNetwork req) (tqAddress req)],
      (case neDial env (tqNetwork req) (tqAddress req) of
         Inl m \<Rightarrow> tcpRefuse errText w (ErrDialFailed m) (ErrDialFailed m)
       | Inr target \<Rightarrow>
           (case writeResult tcpMagic w None of
              (Some e, w') \<Rightarrow> finish w' (Some (ErrStreamIO e))
            | (None, w') \<Rightarrow>
                (case tcpRelay 2 (neRelay env) None of
                   Running \<Rightarrow> (w', Running)
                 | Returned e \<Rightarrow> finish w' e))))"

definition Tcp_Serve ::
  "dest_json \<Rightarrow> net_env \<Rightarrow> (dest_error \<Rightarrow> string) \<Rightarrow> tcp_server option \<Rightarrow> conn \<Rightarrow> bytes \<Rightarrow> net_event list \<times> conn \<times> serve_end" where
  "Tcp_Serve js env errText s w metadata =
     (if IsBindMetadata js metadata then
        (case s of
           None \<Rightarrow> ([], w, Returned (Some ErrNilDereference))
         | Some srv \<Rightarrow> Bind_Serve js env errText (tcpBindServer srv) w metadata)
      else case Tcp_DecodeRequest js metadata of
        Inl e \<Rightarrow> ([], tcpRefuse errText w e e)
      | Inr req \<Rightarrow>
          (case Option.bind s tsAuthorize of
             None \<Rightarrow> ([], tcpRefuse errText w ErrNoPolicy ErrNoPolicy)
           | Some auth \<Rightarrow>
               (case auth req of
                  Some e \<Rightarrow> ([], tcpRefuse errText w (ErrDeniedBy e) e)
                | None \<Rightarrow> tcpConnect env errText req w)))"

section \<open>Requests are normal\<close>

definition tcp_normal :: "tcp_request \<Rightarrow> string \<Rightarrow> nat \<Rightarrow> bool" where
  "tcp_normal req host port =
     (tqProtocol req = TcpProtocol \<and> tqNetwork req \<in> {''tcp'', ''tcp4'', ''tcp6''}
      \<and> tqAddress req = JoinHostPort host (Itoa port) \<and> host_text host \<and> TrimSpace host \<noteq> []
      \<and> CHR 0x00 \<notin> set host \<and> 1 \<le> port \<and> port \<le> 65535)"

lemma Tcp_NormalizeRequest_Inr:
  assumes "Tcp_NormalizeRequest req = Inr req'"
  obtains host portText port where "SplitHostPort (TrimSpace (tqAddress req)) = Some (host, portText)"
    "Atoi portText = Some (int port)" "tcp_normal req' host port"
proof -
  obtain host portText port where sp: "SplitHostPort (TrimSpace (tqAddress req)) = Some (host, portText)"
      and at: "Atoi portText = Some port" and p: "\<not> port < 1" "\<not> 65535 < port"
      and h: "TrimSpace host \<noteq> []" "CHR 0x00 \<notin> set host"
      and r: "req' = \<lparr>tqProtocol = TcpProtocol, tqNetwork = tcpNetwork (tqNetwork req),
                     tqAddress = JoinHostPort host (Itoa (nat port))\<rparr>"
      and n: "tcpNetwork (tqNetwork req) \<in> {''tcp'', ''tcp4'', ''tcp6''}"
    using assms unfolding Tcp_NormalizeRequest_def Let_def
    by (auto split: option.splits if_splits prod.splits)
  show thesis
  proof (rule that [OF sp])
    show "Atoi portText = Some (int (nat port))" using at p by simp
    show "tcp_normal req' host (nat port)"
      using r n h p Split_texts(1) [OF sp] by (auto simp: tcp_normal_def)
  qed
qed

lemma Tcp_NormalizeRequest_network: "Tcp_NormalizeRequest req = Inr req' \<Longrightarrow> tqNetwork req' = tcpNetwork (tqNetwork req)"
  unfolding Tcp_NormalizeRequest_def Let_def by (auto split: option.splits if_splits prod.splits)

lemma Tcp_Authorize_None:
  assumes "tcp_normal req host port" "Tcp_Authorize a req = None"
  shows "allowed a (normalizeHost host) (Itoa port)"
proof -
  obtain req' where n: "Tcp_NormalizeRequest req = Inr req'"
    using assms(2) by (auto simp: Tcp_Authorize_def split: sum.splits)
  then obtain h' pt port' where sp: "SplitHostPort (TrimSpace (tqAddress req)) = Some (h', pt)"
      and pt: "Atoi pt = Some (int port')" and n': "tcp_normal req' h' port'"
    by (rule Tcp_NormalizeRequest_Inr)
  have "tqAddress req = JoinHostPort host (Itoa port)" "host_text host" "port \<le> 65535"
    using assms(1) by (simp_all add: tcp_normal_def)
  then have "Some (h', pt) = Some (if CHR '':'' \<in> set host then host else trimLeft host, Itoa port)"
    using Split_TrimSpace_Join [of host "Itoa port"] Itoa_digits [of port] sp by simp
  then have h': "normalizeHost h' = normalizeHost host" and "port' = port"
    using pt \<open>port \<le> 65535\<close> by (auto simp: normalizeHost_trimLeft)
  moreover have "SplitHostPort (tqAddress req') = Some (h', Itoa port')"
    using n' by (simp add: tcp_normal_def)
  ultimately show ?thesis using assms(2) n by (auto simp: Tcp_Authorize_def split: if_splits)
qed

lemma allowed_field:
  assumes "ParseAllowlist raw = Inr a" "allowed a host port"
  shows "\<exists>f \<in> set (SplitByte (CHR '','') raw). \<exists>r. fieldRule f r \<and> ruleMatches r host port"
  using parseRules_Inr [of "SplitByte (CHR '','') raw" "[]" "[]" a] assms
  by (auto simp: ParseAllowlist_def allowed_def list_ex_iff)

lemma Tcp_DecodeRequest_Inr:
  assumes "Tcp_DecodeRequest js m = Inr req"
  obtains asked host portText port where "djTcp js m = Some asked" "tqNetwork req = tcpNetwork (tqNetwork asked)"
    "SplitHostPort (TrimSpace (tqAddress asked)) = Some (host, portText)" "Atoi portText = Some (int port)" "tcp_normal req host port"
proof -
  obtain asked where j: "djTcp js m = Some asked" and n: "Tcp_NormalizeRequest asked = Inr req"
    using assms by (auto simp: Tcp_DecodeRequest_def split: if_splits option.splits)
  obtain host portText port where h: "SplitHostPort (TrimSpace (tqAddress asked)) = Some (host, portText)"
      "Atoi portText = Some (int port)" "tcp_normal req host port"
    using Tcp_NormalizeRequest_Inr [OF n] by blast
  show thesis using that [OF j Tcp_NormalizeRequest_network [OF n] h] .
qed

lemma acceptLoop_events: "ev \<in> set (fst (acceptLoop good evs)) \<Longrightarrow> \<exists>r. ev = EvRefuse r"
  by (induction good evs rule: acceptLoop.induct) (auto split: prod.splits if_splits)

lemma bindAccepted_events:
  assumes "ev \<in> set (fst (bindAccepted js env errText s req w))"
  shows "(\<exists>r. ev = EvRefuse r) \<or> (\<exists>remote. ev = EvAccept (bqExpectedPeer req) remote
    \<and> snd (acceptExpectedPeer env (bqNetwork req) (bqExpectedPeer req) (IsWildcardPeer (bqExpectedPeer req)) (bsResolvePeer s)) = Some (Inr (Some remote)))"
proof -
  obtain evs r where run: "acceptExpectedPeer env (bqNetwork req) (bqExpectedPeer req) (IsWildcardPeer (bqExpectedPeer req)) (bsResolvePeer s) = (evs, r)"
    by fastforce
  have "\<exists>r. e = EvRefuse r" if "e \<in> set evs" for e
    using run that acceptLoop_events unfolding acceptExpectedPeer_def
    by (auto split: if_splits sum.splits prod.splits) (metis fst_conv)+
  then show ?thesis using assms run
    by (auto simp: bindAccepted_def split: option.splits sum.splits prod.splits)
qed

lemma Bind_Serve_events:
  assumes "ev \<in> set (fst (Bind_Serve js env errText s w metadata))"
  obtains req w' where "Bind_DecodeRequest js metadata = Inr req" "bindDenied s req = None"
    "ev = EvListen (bqNetwork req) (bindAddress s (bqNetwork req)) \<or> ev \<in> set (fst (bindAccepted js env errText s req w'))"
proof -
  obtain req where d: "Bind_DecodeRequest js metadata = Inr req" "bindDenied s req = None"
    using assms by (auto simp: Bind_Serve_def split: sum.splits option.splits)
  have "ev = EvListen (bqNetwork req) (bindAddress s (bqNetwork req)) \<or> (\<exists>w'. ev \<in> set (fst (bindAccepted js env errText s req w')))"
    using assms d
    by (auto simp: Bind_Serve_def Let_def split: sum.splits option.splits prod.splits) (metis fst_conv)+
  then show thesis using d that by blast
qed

lemma Bind_Serve_no_dial: "EvDial network address \<notin> set (fst (Bind_Serve js env errText s w metadata))"
  by (auto elim!: Bind_Serve_events dest!: bindAccepted_events)

text \<open>
  C14: A server whose policy is a parsed allowlist dials only what the request in the metadata asks for, and
  only where a field of the list allows it: the metadata decode to a request whose address splits into a
  host and a decimal port between 1 and 65535, the address dialled is that host joined with that port, the
  network is the requested one (tcp by default), and some comma-separated field of the list denotes a rule
  that matches the normalised host and the port.
\<close>

theorem tcp_dials_allowed:
  assumes "ParseAllowlist raw = Inr a" "tsAuthorize s = Some (Tcp_Authorize a)"
    "EvDial network address \<in> set (fst (Tcp_Serve js env errText (Some s) w metadata))"
  shows "\<exists>asked host portText port f r. djTcp js metadata = Some asked \<and> network = tcpNetwork (tqNetwork asked)
     \<and> SplitHostPort (TrimSpace (tqAddress asked)) = Some (host, portText) \<and> Atoi portText = Some (int port)
     \<and> address = JoinHostPort host (Itoa port) \<and> 1 \<le> port \<and> port \<le> 65535
     \<and> f \<in> set (SplitByte (CHR '','') raw) \<and> fieldRule f r \<and> ruleMatches r (normalizeHost host) (Itoa port)"
proof -
  have nodial: "EvDial network address \<notin> set (fst (Bind_Serve js env errText b w metadata))" for b
    by (rule Bind_Serve_no_dial)
  obtain req where dec: "Tcp_DecodeRequest js metadata = Inr req" and auth: "Tcp_Authorize a req = None"
      and addr: "address = tqAddress req" "network = tqNetwork req"
    using assms(2,3) nodial
    by (auto simp: Tcp_Serve_def tcpConnect_def tcpRefuse_def split: if_splits sum.splits option.splits)
  obtain asked host portText port where d: "djTcp js metadata = Some asked" "tqNetwork req = tcpNetwork (tqNetwork asked)"
      "SplitHostPort (TrimSpace (tqAddress asked)) = Some (host, portText)" "Atoi portText = Some (int port)"
      and n: "tcp_normal req host port"
    using Tcp_DecodeRequest_Inr [OF dec] by blast
  obtain f r where r: "f \<in> set (SplitByte (CHR '','') raw)" "fieldRule f r" "ruleMatches r (normalizeHost host) (Itoa port)"
    using allowed_field [OF assms(1) Tcp_Authorize_None [OF n auth]] by blast
  show ?thesis using d n r addr unfolding tcp_normal_def by metis
qed

section \<open>BIND\<close>

lemma Bind_NormalizeRequest_Inr:
  assumes "Bind_NormalizeRequest req = Inr req'"
  obtains host port where "bqExpectedPeer req' = JoinHostPort host (Itoa port)" "host_text host" "port \<le> 65535"
proof -
  obtain host portText port where sp: "SplitHostPort (TrimSpace (bqExpectedPeer req)) = Some (host, portText)"
      and p: "\<not> port < 0" "\<not> 65535 < port"
      and r: "bqExpectedPeer req' = JoinHostPort (TrimSuffix (TrimSpace host) ''.'') (Itoa (nat port))"
    using assms unfolding Bind_NormalizeRequest_def Let_def
    by (auto split: option.splits if_splits prod.splits)
  have "host_text (TrimSuffix (TrimSpace host) ''.'')"
    using Split_texts(1) [OF sp] set_TrimSuffix [of "TrimSpace host" "''.''"] set_TrimSpace [of host]
    by (auto simp: host_text_def)
  moreover have "nat port \<le> 65535" using p by simp
  ultimately show thesis using that r by blast
qed

lemma acceptLoop_good: "snd (acceptLoop good evs) = Some (Inr r) \<Longrightarrow> good r"
  by (induction good evs rule: acceptLoop.induct) (auto split: prod.splits if_splits)

lemma tcpBind_allowed:
  assumes "tsAuthorize s = Some (Tcp_Authorize a)" "tcpBindAuthorize s req = None"
    "bqExpectedPeer req = JoinHostPort host (Itoa port)" "host_text host" "port \<le> 65535"
  shows "allowed a (normalizeHost host) (Itoa port)"
proof -
  obtain q where q: "Tcp_NormalizeRequest \<lparr>tqProtocol = TcpProtocol, tqNetwork = bqNetwork req, tqAddress = bqExpectedPeer req\<rparr> = Inr q"
      and auth: "Tcp_Authorize a q = None"
    using assms(1,2) by (auto simp: tcpBindAuthorize_def split: sum.splits)
  from q obtain h pt p where sp: "SplitHostPort (TrimSpace (bqExpectedPeer req)) = Some (h, pt)"
      and pt: "Atoi pt = Some (int p)" and n: "tcp_normal q h p"
    by (rule Tcp_NormalizeRequest_Inr) simp
  have "Some (h, pt) = Some (if CHR '':'' \<in> set host then host else trimLeft host, Itoa port)"
    using Split_TrimSpace_Join [of host "Itoa port"] Itoa_digits [of port] sp assms(3,4) by simp
  then have "normalizeHost h = normalizeHost host" "p = port"
    using pt assms(5) by (auto simp: normalizeHost_trimLeft)
  with Tcp_Authorize_None [OF n auth] show ?thesis by simp
qed

text \<open>
  C16: A connection the server hands over after a BIND comes from the expected peer: either the peer is the
  wildcard and the list allows any destination, or a field of the list names the expected host and
  port, the connection comes from that port and from an address the expected host stands for.
\<close>

theorem bind_expected_peer:
  assumes "ParseAllowlist raw = Inr a" "tsAuthorize s = Some (Tcp_Authorize a)" "tsBindAllowAnyPeer s = AllowsAny a"
    "EvAccept expected remote \<in> set (fst (Tcp_Serve js env errText (Some s) w metadata))"
  shows "IsWildcardPeer expected \<and> AllowsAny a
     \<or> (\<exists>host port f r network ips actualHost ip. expected = JoinHostPort host (Itoa port)
          \<and> f \<in> set (SplitByte (CHR '','') raw) \<and> fieldRule f r \<and> ruleMatches r (normalizeHost host) (Itoa port)
          \<and> expectedAddresses env network expected (tsBindResolvePeer s) = Inr (Itoa port, ips)
          \<and> SplitHostPort remote = Some (actualHost, Itoa port) \<and> ParseIP actualHost = Some ip \<and> list_ex (IPEqual ip) ips)"
proof -
  let ?b = "tcpBindServer s"
  have "EvAccept expected remote \<in> set (fst (Bind_Serve js env errText ?b w metadata))"
    using assms(4) by (auto simp: Tcp_Serve_def tcpConnect_def split: if_splits sum.splits option.splits)
  then obtain req w' where d: "Bind_DecodeRequest js metadata = Inr req" "bindDenied ?b req = None"
      and ev: "EvAccept expected remote \<in> set (fst (bindAccepted js env errText ?b req w'))"
    by (rule Bind_Serve_events) auto
  from bindAccepted_events [OF ev] have e: "expected = bqExpectedPeer req"
      and acc: "snd (acceptExpectedPeer env (bqNetwork req) expected (IsWildcardPeer expected) (tsBindResolvePeer s)) = Some (Inr (Some remote))"
    by (auto simp: tcpBindServer_def)
  show ?thesis
  proof (cases "IsWildcardPeer expected")
    case True
    then show ?thesis using d(2) e assms(3) by (auto simp: bindDenied_def tcpBindServer_def split: if_splits)
  next
    case False
    obtain host port where h: "expected = JoinHostPort host (Itoa port)" "host_text host" "port \<le> 65535"
      using d(1) unfolding e
      by (auto simp: Bind_DecodeRequest_def elim!: Bind_NormalizeRequest_Inr split: if_splits option.splits)
    have "tcpBindAuthorize s req = None" using d(2) False e by (auto simp: bindDenied_def tcpBindServer_def)
    from allowed_field [OF assms(1) tcpBind_allowed [OF assms(2) this h [unfolded e]]]
    obtain f r where f: "f \<in> set (SplitByte (CHR '','') raw)" "fieldRule f r" "ruleMatches r (normalizeHost host) (Itoa port)"
      by blast
    obtain pt ips where ips: "expectedAddresses env (bqNetwork req) expected (tsBindResolvePeer s) = Inr (pt, ips)"
        and good: "peerMatchesResolved (Some remote) pt ips"
      using acc False by (auto simp: acceptExpectedPeer_def dest: acceptLoop_good split: sum.splits prod.splits)
    have "pt = Itoa port"
      using ips h by (auto simp: expectedAddresses_def split: option.splits sum.splits if_splits)
    then show ?thesis
      using f h(1) ips good by (auto simp: peerMatchesResolved_def split: option.splits)
  qed
qed

section \<open>Results\<close>

lemma ReadFull_exact: "length xs = n \<Longrightarrow> ReadFull n (xs @ ys) = Inr (xs, ys)"
  by (simp add: ReadFull_def)

lemma writeBoth_ok: "writeBoth w header payload = (None, w') \<Longrightarrow> cnOut w' = cnOut w @ header @ payload"
  by (auto simp: writeBoth_def writeAll_def dest!: writeFull_ok split: prod.splits option.splits)

lemma writeBoth_prefix: "writeBoth w header payload = (e, w') \<Longrightarrow> prefix (cnOut w) (cnOut w')"
  by (auto simp: writeBoth_def writeAll_def dest!: writeFull_prefix split: prod.splits option.splits)

lemma readResult_header:
  assumes "length magic = 4"
  shows "readResult magic (resultHeader magic msg (resultPayload msg) @ resultPayload msg @ rest)
    = (map_option (\<lambda>m. ErrRemote (TrimSpace (take 4096 m))) msg, rest)"
proof -
  let ?p = "resultPayload msg" and ?h = "resultHeader magic msg (resultPayload msg)"
  have len: "length ?p \<le> 4096" by (simp add: resultPayload_def)
  then have n: "unat (of_nat (length ?p) :: u16) = length ?p" by (simp add: unat_of_nat)
  have h: "length ?h = 9" "take 4 ?h = magic" "?h ! 4 = 1" "?h ! 5 = (if msg = None then 0 else 1)"
      "drop 7 ?h = put_uint16 (of_nat (length ?p))"
    using assms by (simp_all add: resultHeader_def nth_append)
  have "take 4096 (toBytes m) = toBytes (take 4096 m)" for m by (simp add: toBytes_def take_map)
  then have said: "ofBytes ?p = take 4096 (case msg of None \<Rightarrow> [] | Some m \<Rightarrow> m)"
    by (simp add: resultPayload_def)
  have "ReadFull 9 (?h @ ?p @ rest) = Inr (?h, ?p @ rest)" by (rule ReadFull_exact) (rule h)
  moreover have "ReadFull (length ?p) (?p @ rest) = Inr (?p, rest)" by (rule ReadFull_exact) simp
  ultimately show ?thesis
    unfolding readResult_def using h n len said by (cases msg) simp_all
qed

text \<open>
  What the client reads is what the server told: success, or the text of the error cut to 4096 bytes
  and trimmed; the bytes after the answer are the connection's.
\<close>

theorem tcp_result_roundtrip:
  assumes "writeResult tcpMagic w msg = (None, w')"
  shows "\<exists>out. cnOut w' = cnOut w @ out
    \<and> readResult tcpMagic (out @ rest) = (map_option (\<lambda>m. ErrRemote (TrimSpace (take 4096 m))) msg, rest)"
proof -
  have "length tcpMagic = 4" by (simp add: tcpMagic_def)
  moreover have "cnOut w' = cnOut w @ resultHeader tcpMagic msg (resultPayload msg) @ resultPayload msg"
    using assms unfolding writeResult_def by (rule writeBoth_ok)
  ultimately show ?thesis using readResult_header [of tcpMagic msg rest] by (metis append.assoc)
qed

theorem tcp_result_roundtrip_witness:
  "writeResult tcpMagic \<lparr>cnScript = [Wrote 3], cnOut = [7], cnClosed = False\<rparr> (Some '' no route '')
     = (None, \<lparr>cnScript = [], cnOut = 7 # tcpMagic @ [1, 1, 0, 0, 10] @ toBytes '' no route '', cnClosed = False\<rparr>)
   \<and> (\<exists>out. 7 # tcpMagic @ [1, 1, 0, 0, 10] @ toBytes '' no route '' = [7] @ out
        \<and> readResult tcpMagic (out @ [9]) = (Some (ErrRemote (TrimSpace (take 4096 '' no route ''))), [9]))"
proof -
  have e: "writeResult tcpMagic \<lparr>cnScript = [Wrote 3], cnOut = [7], cnClosed = False\<rparr> (Some '' no route '')
     = (None, \<lparr>cnScript = [], cnOut = 7 # tcpMagic @ [1, 1, 0, 0, 10] @ toBytes '' no route '', cnClosed = False\<rparr>)"
    by code_simp
  show ?thesis using e tcp_result_roundtrip [OF e, of "[9]"] by simp
qed

section \<open>A run\<close>

definition demo_json :: dest_json where
  "demo_json =
     \<lparr>djProtocol = (\<lambda>b. if b = [2] then Some BindProtocol else None),
      djTcp = (\<lambda>_. Some \<lparr>tqProtocol = [], tqNetwork = ''TCP'', tqAddress = ''Api.Example.com:0443''\<rparr>),
      djTcpText = (\<lambda>_. [1]),
      djBind = (\<lambda>_. Some (\<lparr>bqProtocol = [], bqNetwork = [], bqExpectedPeer = ''Peer:22''\<rparr>, True)),
      djBindText = (\<lambda>_. [2]), djResponse = (\<lambda>_. None), djResponseText = (\<lambda>_. [3])\<rparr>"

definition demo_net :: net_env where
  "demo_net =
     \<lparr>neDial = (\<lambda>_ a. Inr a), neListen = (\<lambda>_ a. Inr ''127.0.0.1:4000''),
      neAccepts = [AcceptConn (Some ''x:22''), AcceptConn (Some ''1.0.0.1:22'')],
      neLookupIP = (\<lambda>_. Inr [[1, 0, 0, 1]]), neRelay = [PumpDone, PumpDone]\<rparr>"

definition demo_rules :: Allowlist where
  "demo_rules = [\<lparr>arHost = ''*.example.com'', arPort = ''443''\<rparr>, \<lparr>arHost = ''peer'', arPort = ''22''\<rparr>]"

definition demo_tcp :: tcp_server where
  "demo_tcp = \<lparr>tsAuthorize = Some (Tcp_Authorize demo_rules), tsBindAddress = [], tsBindResolvePeer = None, tsBindAllowAnyPeer = AllowsAny demo_rules\<rparr>"

abbreviation demo_conn :: conn where
  "demo_conn \<equiv> \<lparr>cnScript = [], cnOut = [], cnClosed = False\<rparr>"

lemma demo_rules_parsed: "ParseAllowlist ''*.Example.com:443, peer:22'' = Inr demo_rules"
  by code_simp

theorem tcp_dials_allowed_witness:
  "EvDial ''tcp'' ''Api.Example.com:443'' \<in> set (fst (Tcp_Serve demo_json demo_net (\<lambda>_. []) (Some demo_tcp) demo_conn [1]))
   \<and> (\<exists>asked host portText port f r. djTcp demo_json [1] = Some asked \<and> ''tcp'' = tcpNetwork (tqNetwork asked)
     \<and> SplitHostPort (TrimSpace (tqAddress asked)) = Some (host, portText) \<and> Atoi portText = Some (int port)
     \<and> ''Api.Example.com:443'' = JoinHostPort host (Itoa port) \<and> 1 \<le> port \<and> port \<le> 65535
     \<and> f \<in> set (SplitByte (CHR '','') ''*.Example.com:443, peer:22'') \<and> fieldRule f r \<and> ruleMatches r (normalizeHost host) (Itoa port))"
proof -
  have s: "tsAuthorize demo_tcp = Some (Tcp_Authorize demo_rules)" by (simp add: demo_tcp_def)
  have d: "EvDial ''tcp'' ''Api.Example.com:443'' \<in> set (fst (Tcp_Serve demo_json demo_net (\<lambda>_. []) (Some demo_tcp) demo_conn [1]))"
    by code_simp
  show ?thesis using d tcp_dials_allowed [OF demo_rules_parsed s d] by blast
qed

lemma demo_bind_request: "Bind_DecodeRequest demo_json [2] = Inr \<lparr>bqProtocol = BindProtocol, bqNetwork = ''tcp'', bqExpectedPeer = ''Peer:22''\<rparr>"
proof -
  have "Bind_NormalizeRequest \<lparr>bqProtocol = [], bqNetwork = [], bqExpectedPeer = ''Peer:22''\<rparr>
     = Inr \<lparr>bqProtocol = BindProtocol, bqNetwork = ''tcp'', bqExpectedPeer = ''Peer:22''\<rparr>" by code_simp
  then show ?thesis by (simp add: Bind_DecodeRequest_def demo_json_def)
qed

lemma demo_bind_denied: "bindDenied (tcpBindServer demo_tcp) \<lparr>bqProtocol = BindProtocol, bqNetwork = ''tcp'', bqExpectedPeer = ''Peer:22''\<rparr> = None"
  by code_simp

lemma demo_bind_accept:
  "acceptExpectedPeer demo_net ''tcp'' ''Peer:22'' (IsWildcardPeer ''Peer:22'') None = ([EvRefuse (Some ''x:22'')], Some (Inr (Some ''1.0.0.1:22'')))"
  by code_simp

lemma demo_write: "cnScript w = [] \<Longrightarrow> \<exists>w'. writeResponse demo_json w r = (None, w') \<and> cnScript w' = []"
  by (simp add: writeResponse_def writeBoth_def writeAll_def writeFull_empty_script Let_def demo_json_def)

lemma demo_env: "IsBindMetadata demo_json [2]" "neListen demo_net n a = Inr ''127.0.0.1:4000''" "bsResolvePeer (tcpBindServer demo_tcp) = None"
  by (simp_all add: IsBindMetadata_def demo_json_def demo_net_def tcpBindServer_def demo_tcp_def)

lemma demo_bind_run:
  "EvAccept ''Peer:22'' ''1.0.0.1:22'' \<in> set (fst (Tcp_Serve demo_json demo_net (\<lambda>_. []) (Some demo_tcp) demo_conn [2]))"
proof -
  let ?r = "\<lambda>phase addr. \<lparr>brProtocol = BindProtocol, brPhase = phase, brNetwork = ''tcp'', brAddress = addr, brError = []\<rparr>"
  obtain w where w: "writeResponse demo_json demo_conn (?r ''bound'' ''127.0.0.1:4000'') = (None, w)" "cnScript w = []"
    using demo_write [of demo_conn] by auto
  obtain w' where w': "writeResponse demo_json w (?r ''accepted'' ''1.0.0.1:22'') = (None, w')"
    using demo_write [OF w(2)] by auto
  show ?thesis
    by (auto simp: Tcp_Serve_def Bind_Serve_def bindAccepted_def Let_def demo_env demo_bind_request demo_bind_denied demo_bind_accept w(1) w'
        split: prod.split)
qed

theorem bind_expected_peer_witness:
  "EvAccept ''Peer:22'' ''1.0.0.1:22'' \<in> set (fst (Tcp_Serve demo_json demo_net (\<lambda>_. []) (Some demo_tcp) demo_conn [2]))
   \<and> (\<exists>host port f r network ips actualHost ip. ''Peer:22'' = JoinHostPort host (Itoa port)
          \<and> f \<in> set (SplitByte (CHR '','') ''*.Example.com:443, peer:22'') \<and> fieldRule f r \<and> ruleMatches r (normalizeHost host) (Itoa port)
          \<and> expectedAddresses demo_net network ''Peer:22'' (tsBindResolvePeer demo_tcp) = Inr (Itoa port, ips)
          \<and> SplitHostPort ''1.0.0.1:22'' = Some (actualHost, Itoa port) \<and> ParseIP actualHost = Some ip \<and> list_ex (IPEqual ip) ips)"
proof -
  have s: "tsAuthorize demo_tcp = Some (Tcp_Authorize demo_rules)" "tsBindAllowAnyPeer demo_tcp = AllowsAny demo_rules"
    by (simp_all add: demo_tcp_def)
  have n: "\<not> AllowsAny demo_rules" by code_simp
  show ?thesis using demo_bind_run n bind_expected_peer [OF demo_rules_parsed s demo_bind_run] by blast
qed

end
