(* ===== verification/Session_Udp.thy ===== *)
theory Session_Udp
  imports Session_Tcp Socks_Udp
begin

text \<open>
  UDP associations of \<open>sessionudp/udp.go\<close> and \<open>sessionudp/policy.go\<close>: framed SOCKS5 datagrams come in
  on a logical stream, the final node checks, resolves and sends them from one socket, and sends back
  what its destinations answer. JSON is \<open>udp_json\<close>, listening and name resolution are \<open>udp_env\<close>.

  The server's two goroutines meet in the destination set and in the result channel. A run is a
  sequence of steps in any order: a frame is read and its destination added, the pending datagram is
  sent, a packet arrives on the socket, or reading the socket fails.

  Shown: in every run the destination set keeps its bound, datagrams go only to addresses that an
  authorised destination resolves to, answers are relayed only from such addresses, and the client
  reads the relayed answers in order.
\<close>

section \<open>Requests\<close>

record udp_request =
  uqProtocol :: string
  uqNetwork :: string

text \<open>\<open>ujDecode\<close> also says whether something follows the first value.\<close>

record udp_json =
  ujDecode :: "bytes \<Rightarrow> (udp_request \<times> bool) option"
  ujText :: "udp_request \<Rightarrow> bytes"

definition UdpProtocol :: string where
  "UdpProtocol = ''weaverssh.udp.v1''"

definition Udp_normalizeRequest :: "udp_request \<Rightarrow> dest_error + udp_request" where
  "Udp_normalizeRequest req =
     (let protocol = (if uqProtocol req = [] then UdpProtocol else uqProtocol req);
          n = ToLower (TrimSpace (uqNetwork req));
          network = (if n = [] then ''udp'' else n) in
      if protocol \<noteq> UdpProtocol then Inl ErrDestProtocol
      else if network \<notin> {''udp'', ''udp4'', ''udp6''} then Inl ErrDestNetwork
      else Inr \<lparr>uqProtocol = protocol, uqNetwork = network\<rparr>)"

definition Udp_EncodeRequest :: "udp_json \<Rightarrow> string \<Rightarrow> dest_error + bytes" where
  "Udp_EncodeRequest js network =
     (case Udp_normalizeRequest \<lparr>uqProtocol = UdpProtocol, uqNetwork = network\<rparr> of
        Inl e \<Rightarrow> Inl e
      | Inr req \<Rightarrow> if 4096 < length (ujText js req) then Inl ErrMetadataSize else Inr (ujText js req))"

definition Udp_DecodeRequest :: "udp_json \<Rightarrow> bytes \<Rightarrow> dest_error + udp_request" where
  "Udp_DecodeRequest js payload =
     (if payload = [] \<or> 4096 < length payload then Inl ErrMetadataSize
      else case ujDecode js payload of
        None \<Rightarrow> Inl ErrMetadata
      | Some (req, atEnd) \<Rightarrow> if \<not> atEnd then Inl ErrTrailing else Udp_normalizeRequest req)"

section \<open>The destination policy\<close>

definition normalizeAddress :: "string \<Rightarrow> dest_error + string \<times> string" where
  "normalizeAddress address =
     (case SplitHostPort (TrimSpace address) of
        None \<Rightarrow> Inl ErrHostPort
      | Some (host, portText) \<Rightarrow>
          if TrimSpace host = [] then Inl ErrHostPort
          else case Atoi portText of
            None \<Rightarrow> Inl ErrDestPort
          | Some port \<Rightarrow>
              if port < 1 \<or> 65535 < port then Inl ErrDestPort
              else Inr (normalizeHost host, Itoa (nat port)))"

definition Udp_Authorize :: "Allowlist \<Rightarrow> string \<Rightarrow> dest_error option" where
  "Udp_Authorize a address =
     (case normalizeAddress address of
        Inl e \<Rightarrow> Some e
      | Inr (host, port) \<Rightarrow> if allowed a host port then None else Some ErrDestDenied)"

section \<open>Frames\<close>

definition Udp_WriteFrame :: "conn \<Rightarrow> bytes \<Rightarrow> dest_error option \<times> conn" where
  "Udp_WriteFrame w packet =
     (if length packet = 0 \<or> MaxDatagramBytes < length packet then (Some ErrResponseSize, w)
      else map_prod (map_option ErrStreamIO) id (writeBoth w (put_uint32 (of_nat (length packet))) packet))"

definition Udp_ReadFrame :: "bytes \<Rightarrow> dest_error + bytes \<times> bytes" where
  "Udp_ReadFrame bs =
     (case ReadFull 4 bs of
        Inl e \<Rightarrow> Inl (ErrStreamIO e)
      | Inr (header, rest) \<Rightarrow>
          let n = unat (get_uint32 header) in
          if n < 1 \<or> MaxDatagramBytes < n then Inl ErrOversizedResult
          else case ReadFull n rest of
            Inl e \<Rightarrow> Inl (ErrStreamIO e)
          | Inr (packet, rest') \<Rightarrow> Inr (packet, rest'))"

section \<open>Destinations\<close>

record destinationSet =
  dsValues :: "string list"
  dsMaximum :: nat

definition destinationSet_Add :: "destinationSet \<Rightarrow> string \<Rightarrow> bool \<times> destinationSet" where
  "destinationSet_Add s address =
     (if address \<in> set (dsValues s) then (True, s)
      else if dsMaximum s \<le> length (dsValues s) then (False, s)
      else (True, s\<lparr>dsValues := address # dsValues s\<rparr>))"

definition destinationSet_Contains :: "destinationSet \<Rightarrow> string \<Rightarrow> bool" where
  "destinationSet_Contains s address = (address \<in> set (dsValues s))"

section \<open>The server\<close>

record udp_server =
  uvAuthorize :: "(string \<Rightarrow> dest_error option) option"
  uvMaxDestinations :: int

record udp_env =
  ueListen :: "string \<Rightarrow> string + string"
  ueResolve :: "string \<Rightarrow> string \<Rightarrow> string option"

text \<open>
  \<open>uaIn\<close> is what the client still sends, \<open>uaPending\<close> the datagram the serving goroutine is about to
  send, \<open>uaRelay\<close> the result the relaying goroutine has put into the channel, \<open>uaEnd\<close> the end of
  \<open>Serve\<close>, which closes the socket and so the relay.
\<close>

record udp_assoc =
  uaNetwork :: string
  uaDests :: destinationSet
  uaIn :: bytes
  uaPending :: "(string \<times> bytes) option"
  uaStream :: conn
  uaRelay :: serve_end
  uaEnd :: serve_end

datatype udp_event = UdpSend string bytes | UdpReply string bytes

definition normalError :: "dest_error \<Rightarrow> bool" where
  "normalError e = (e \<in> {ErrStreamIO ErrEOF, ErrStreamIO ErrClosedPipe, ErrCancelled})"

definition udpMagic :: bytes where
  "udpMagic = toBytes ''WVU1''"

definition udpRefuse :: "(dest_error \<Rightarrow> string) \<Rightarrow> conn \<Rightarrow> dest_error \<Rightarrow> conn \<times> dest_error" where
  "udpRefuse errText w e = ((snd (writeResult udpMagic w (Some (errText e))))\<lparr>cnClosed := True\<rparr>, e)"

text \<open>\<open>Serve\<close> up to its loop: the association, or the refusal written to the stream.\<close>

definition Udp_Start ::
  "udp_json \<Rightarrow> udp_env \<Rightarrow> (dest_error \<Rightarrow> string) \<Rightarrow> udp_server option \<Rightarrow> conn \<Rightarrow> bytes \<Rightarrow> bytes \<Rightarrow> conn \<times> dest_error + udp_assoc" where
  "Udp_Start js env errText s w input metadata =
     (case Udp_DecodeRequest js metadata of
        Inl e \<Rightarrow> Inl (udpRefuse errText w e)
      | Inr req \<Rightarrow>
          (case s of
             None \<Rightarrow> Inl (udpRefuse errText w ErrNoPolicy)
           | Some srv \<Rightarrow>
               if uvAuthorize srv = None then Inl (udpRefuse errText w ErrNoPolicy)
               else case ueListen env (uqNetwork req) of
                 Inl m \<Rightarrow> Inl (udpRefuse errText w (ErrListen m))
               | Inr _ \<Rightarrow>
                   (case writeResult udpMagic w None of
                      (Some e, w') \<Rightarrow> Inl (w'\<lparr>cnClosed := True\<rparr>, ErrStreamIO e)
                    | (None, w') \<Rightarrow>
                        Inr \<lparr>uaNetwork = uqNetwork req,
                             uaDests = \<lparr>dsValues = [], dsMaximum = (if uvMaxDestinations srv \<le> 0 then 256 else nat (uvMaxDestinations srv))\<rparr>,
                             uaIn = input, uaPending = None, uaStream = w', uaRelay = Running, uaEnd = Running\<rparr>)))"

text \<open>One round of \<open>Serve\<close>'s loop up to the socket.\<close>

definition udpFrameIn :: "udp_env \<Rightarrow> (string \<Rightarrow> dest_error option) \<Rightarrow> udp_assoc \<Rightarrow> udp_assoc" where
  "udpFrameIn env auth st =
     (case Udp_ReadFrame (uaIn st) of
        Inl e \<Rightarrow> st\<lparr>uaEnd := Returned (if normalError e then None else Some e)\<rparr>
      | Inr (packet, rest) \<Rightarrow>
          let st' = st\<lparr>uaIn := rest\<rparr> in
          (case Parse packet of
             Inl _ \<Rightarrow> st'
           | Inr datagram \<Rightarrow>
               if auth (dgAddress datagram) \<noteq> None then st'
               else case ueResolve env (uaNetwork st) (dgAddress datagram) of
                 None \<Rightarrow> st'
               | Some address \<Rightarrow>
                   (case destinationSet_Add (uaDests st) address of
                      (added, dests) \<Rightarrow>
                        if \<not> added then st'
                        else st'\<lparr>uaDests := dests, uaPending := Some (address, dgData datagram)\<rparr>)))"

text \<open>The rest of the round: \<open>WriteTo\<close> and the look into the result channel.\<close>

definition udpSendOut :: "udp_assoc \<Rightarrow> string \<times> bytes \<Rightarrow> string option \<Rightarrow> udp_assoc \<times> udp_event list" where
  "udpSendOut st datagram failure =
     (case failure of
        Some m \<Rightarrow> (st\<lparr>uaPending := None, uaEnd := Returned (Some (ErrSend m))\<rparr>, [])
      | None \<Rightarrow>
          (st\<lparr>uaPending := None,
              uaEnd := (case uaRelay st of
                          Running \<Rightarrow> Running
                        | Returned None \<Rightarrow> Returned None
                        | Returned (Some e) \<Rightarrow> Returned (if normalError e then None else Some e))\<rparr>,
           [UdpSend (fst datagram) (snd datagram)]))"

text \<open>One round of \<open>relayResponses\<close> with a packet of at most 65507 bytes.\<close>

definition udpPacketIn :: "udp_assoc \<Rightarrow> string \<Rightarrow> bytes \<Rightarrow> udp_assoc \<times> udp_event list" where
  "udpPacketIn st source payload =
     (if \<not> destinationSet_Contains (uaDests st) source then (st, [])
      else case Marshal source (take 65507 payload) of
        Inl _ \<Rightarrow> (st, [])
      | Inr packet \<Rightarrow>
          (case Udp_WriteFrame (uaStream st) packet of
             (Some e, w) \<Rightarrow> (st\<lparr>uaStream := w, uaRelay := Returned (Some e)\<rparr>, [])
           | (None, w) \<Rightarrow> (st\<lparr>uaStream := w\<rparr>, [UdpReply source packet])))"

datatype udp_input = FrameIn | SendOut "string option" | PacketIn string bytes | PacketFailed bool dest_error

text \<open>\<open>PacketFailed True\<close> is a timeout of the read deadline, which the relay ignores.\<close>

definition udpStep :: "udp_env \<Rightarrow> (string \<Rightarrow> dest_error option) \<Rightarrow> udp_assoc \<Rightarrow> udp_input \<Rightarrow> udp_assoc \<times> udp_event list" where
  "udpStep env auth st i =
     (if uaEnd st \<noteq> Running then (st, [])
      else case i of
        FrameIn \<Rightarrow> if uaPending st = None then (udpFrameIn env auth st, []) else (st, [])
      | SendOut failure \<Rightarrow>
          (case uaPending st of None \<Rightarrow> (st, []) | Some datagram \<Rightarrow> udpSendOut st datagram failure)
      | PacketIn source payload \<Rightarrow> if uaRelay st = Running then udpPacketIn st source payload else (st, [])
      | PacketFailed timeout e \<Rightarrow>
          if uaRelay st = Running \<and> \<not> timeout then (st\<lparr>uaRelay := Returned (Some e)\<rparr>, []) else (st, []))"

fun udpRun :: "udp_env \<Rightarrow> (string \<Rightarrow> dest_error option) \<Rightarrow> udp_assoc \<Rightarrow> udp_input list \<Rightarrow> udp_assoc \<times> udp_event list" where
  "udpRun env auth st [] = (st, [])"
| "udpRun env auth st (i # is) =
     (case udpStep env auth st i of
        (st', evs) \<Rightarrow> (case udpRun env auth st' is of (st'', evs') \<Rightarrow> (st'', evs @ evs')))"

section \<open>The client\<close>

definition Association_Send :: "conn \<Rightarrow> bytes \<Rightarrow> (udp_error + dest_error) option \<times> conn" where
  "Association_Send w packet =
     (case Parse packet of
        Inl e \<Rightarrow> (Some (Inl e), w)
      | Inr _ \<Rightarrow> map_prod (map_option Inr) id (Udp_WriteFrame w packet))"

definition Association_Receive :: "bytes \<Rightarrow> dest_error + bytes \<times> bytes" where
  "Association_Receive bs = Udp_ReadFrame bs"

fun receiveAll :: "nat \<Rightarrow> bytes \<Rightarrow> bytes list" where
  "receiveAll 0 bs = []"
| "receiveAll (Suc n) bs =
     (case Association_Receive bs of Inl _ \<Rightarrow> [] | Inr (packet, rest) \<Rightarrow> packet # receiveAll n rest)"

section \<open>Every run stays within the policy\<close>

text \<open>An address an authorised destination resolves to.\<close>

definition permitted :: "udp_env \<Rightarrow> (string \<Rightarrow> dest_error option) \<Rightarrow> string \<Rightarrow> string \<Rightarrow> bool" where
  "permitted env auth network a = (\<exists>address. auth address = None \<and> ueResolve env network address = Some a)"

definition udp_inv :: "udp_env \<Rightarrow> (string \<Rightarrow> dest_error option) \<Rightarrow> udp_assoc \<Rightarrow> bool" where
  "udp_inv env auth st =
     (distinct (dsValues (uaDests st)) \<and> length (dsValues (uaDests st)) \<le> dsMaximum (uaDests st)
      \<and> list_all (permitted env auth (uaNetwork st)) (dsValues (uaDests st))
      \<and> (\<forall>a d. uaPending st = Some (a, d) \<longrightarrow> a \<in> set (dsValues (uaDests st))))"

definition event_ok :: "udp_env \<Rightarrow> (string \<Rightarrow> dest_error option) \<Rightarrow> string \<Rightarrow> udp_event \<Rightarrow> bool" where
  "event_ok env auth network ev =
     (case ev of
        UdpSend a d \<Rightarrow> permitted env auth network a
      | UdpReply a p \<Rightarrow> permitted env auth network a \<and> (\<exists>payload. Marshal a payload = Inr p))"

lemma Add_props:
  assumes "destinationSet_Add s a = (ok, s')"
  shows "dsMaximum s' = dsMaximum s" "ok \<Longrightarrow> set (dsValues s') = insert a (set (dsValues s))"
    "distinct (dsValues s) \<Longrightarrow> distinct (dsValues s')"
    "length (dsValues s) \<le> dsMaximum s \<Longrightarrow> length (dsValues s') \<le> dsMaximum s"
  using assms by (auto simp: destinationSet_Add_def split: if_splits)

lemma udpFrameIn_inv:
  assumes "udp_inv env auth st"
  shows "udp_inv env auth (udpFrameIn env auth st)" "uaNetwork (udpFrameIn env auth st) = uaNetwork st"
    "dsMaximum (uaDests (udpFrameIn env auth st)) = dsMaximum (uaDests st)"
  using assms Add_props [of "uaDests st"]
  by (auto simp: udpFrameIn_def udp_inv_def Let_def list_all_iff permitted_def
        split: sum.splits option.splits prod.splits)

lemma udp_inv_other [simp]:
  "udp_inv env auth (st\<lparr>uaEnd := e\<rparr>) = udp_inv env auth st" "udp_inv env auth (st\<lparr>uaRelay := r\<rparr>) = udp_inv env auth st"
  "udp_inv env auth (st\<lparr>uaStream := w\<rparr>) = udp_inv env auth st"
  by (simp_all add: udp_inv_def)

lemma udp_inv_sent: "udp_inv env auth st \<Longrightarrow> udp_inv env auth (st\<lparr>uaPending := None\<rparr>)"
  by (simp add: udp_inv_def)

lemma udp_inv_permitted:
  "udp_inv env auth st \<Longrightarrow> a \<in> set (dsValues (uaDests st)) \<Longrightarrow> permitted env auth (uaNetwork st) a"
  "udp_inv env auth st \<Longrightarrow> uaPending st = Some (a, d) \<Longrightarrow> permitted env auth (uaNetwork st) a"
  by (auto simp: udp_inv_def list_all_iff)

definition udp_kept :: "udp_env \<Rightarrow> (string \<Rightarrow> dest_error option) \<Rightarrow> udp_assoc \<Rightarrow> udp_assoc \<times> udp_event list \<Rightarrow> bool" where
  "udp_kept env auth st r =
     (udp_inv env auth (fst r) \<and> uaNetwork (fst r) = uaNetwork st \<and> dsMaximum (uaDests (fst r)) = dsMaximum (uaDests st)
      \<and> list_all (event_ok env auth (uaNetwork st)) (snd r))"

lemma udp_kept_same: "udp_inv env auth st \<Longrightarrow> udp_kept env auth st (st, [])"
  by (simp add: udp_kept_def)

lemma udpSendOut_kept:
  assumes "udp_inv env auth st" "uaPending st = Some d"
  shows "udp_kept env auth st (udpSendOut st d f)"
proof (cases f)
  case None
  then show ?thesis using udp_inv_sent [OF assms(1)] udp_inv_permitted(2) [OF assms(1), of "fst d" "snd d"] assms(2)
    by (simp add: udp_kept_def udpSendOut_def event_ok_def)
next
  case (Some m)
  then show ?thesis using udp_inv_sent [OF assms(1)] by (simp add: udp_kept_def udpSendOut_def)
qed

lemma udpPacketIn_kept:
  assumes "udp_inv env auth st"
  shows "udp_kept env auth st (udpPacketIn st source payload)"
  using assms udp_inv_permitted(1) [OF assms, of source]
  by (auto simp: udp_kept_def udpPacketIn_def event_ok_def destinationSet_Contains_def
      split: option.splits prod.splits sum.splits)

lemma udpStep_kept:
  assumes "udp_inv env auth st"
  shows "udp_kept env auth st (udpStep env auth st i)"
proof (cases "uaEnd st = Running")
  case True
  then show ?thesis
    using assms udp_kept_same [OF assms] udpFrameIn_inv [OF assms] udpSendOut_kept [OF assms] udpPacketIn_kept [OF assms]
    by (cases i) (simp_all add: udpStep_def udp_kept_def split: option.split)
qed (simp add: udpStep_def udp_kept_same assms)

lemma udpRun_kept:
  assumes "udp_inv env auth st"
  shows "udp_kept env auth st (udpRun env auth st is)"
  using assms
proof (induction "is" arbitrary: st)
  case Nil
  then show ?case by (simp add: udp_kept_same)
next
  case (Cons i "is")
  obtain st' evs where st': "udpStep env auth st i = (st', evs)" by fastforce
  with udpStep_kept [OF Cons(2), of i] have k: "udp_kept env auth st (st', evs)" by simp
  then have "udp_kept env auth st' (udpRun env auth st' is)" using Cons(1) [of st'] by (simp add: udp_kept_def)
  then show ?case using k st' by (cases "udpRun env auth st' is") (simp add: udp_kept_def)
qed

lemma Udp_Start_inv:
  assumes "Udp_Start js env errText (Some s) w input metadata = Inr st"
  shows "udp_inv env auth st" "uaRelay st = Running"
    "dsMaximum (uaDests st) = (if uvMaxDestinations s \<le> 0 then 256 else nat (uvMaxDestinations s))"
  using assms by (auto simp: Udp_Start_def udp_inv_def split: sum.splits if_splits prod.splits option.splits)

lemma Udp_Authorize_None:
  assumes "Udp_Authorize a address = None"
  obtains host portText port where "SplitHostPort (TrimSpace address) = Some (host, portText)"
    "Atoi portText = Some (int port)" "1 \<le> port" "port \<le> 65535" "allowed a (normalizeHost host) (Itoa port)"
proof -
  obtain host portText port where n: "SplitHostPort (TrimSpace address) = Some (host, portText)"
    "Atoi portText = Some port" "\<not> port < 1" "\<not> 65535 < port" "allowed a (normalizeHost host) (Itoa (nat port))"
    using assms by (auto simp: Udp_Authorize_def normalizeAddress_def split: sum.splits option.splits prod.splits if_splits)
  then show thesis using that [of host portText "nat port"] by auto
qed

text \<open>A destination that a field of the allowlist names and that resolves to an address.\<close>

definition listed :: "string \<Rightarrow> udp_env \<Rightarrow> string \<Rightarrow> string \<Rightarrow> bool" where
  "listed raw env network a =
     (\<exists>address host portText port f r. ueResolve env network address = Some a
        \<and> SplitHostPort (TrimSpace address) = Some (host, portText) \<and> Atoi portText = Some (int port)
        \<and> 1 \<le> port \<and> port \<le> 65535 \<and> f \<in> set (SplitByte (CHR '','') raw) \<and> fieldRule f r
        \<and> ruleMatches r (normalizeHost host) (Itoa port))"

lemma permitted_listed:
  assumes "ParseAllowlist raw = Inr a" "permitted env (Udp_Authorize a) network x"
  shows "listed raw env network x"
proof -
  obtain address where auth: "Udp_Authorize a address = None" and r: "ueResolve env network address = Some x"
    using assms(2) by (auto simp: permitted_def)
  from auth obtain host portText port where n: "SplitHostPort (TrimSpace address) = Some (host, portText)"
    "Atoi portText = Some (int port)" "1 \<le> port" "port \<le> 65535" "allowed a (normalizeHost host) (Itoa port)"
    by (rule Udp_Authorize_None)
  from allowed_field [OF assms(1) n(5)] n r show ?thesis unfolding listed_def by blast
qed

text \<open>
  C15: Whatever the order of frames, sends and incoming packets: the association keeps at most the
  configured number of destinations, and every datagram it sends goes to, and every answer it relays
  comes from, an address that a destination named by the allowlist resolves to.
\<close>

theorem udp_within_policy:
  assumes "ParseAllowlist raw = Inr a" "uvAuthorize s = Some (Udp_Authorize a)"
    "Udp_Start js env errText (Some s) w input metadata = Inr st"
    "udpRun env (Udp_Authorize a) st inputs = (st', evs)"
  shows "length (dsValues (uaDests st')) \<le> (if uvMaxDestinations s \<le> 0 then 256 else nat (uvMaxDestinations s))
    \<and> (UdpSend x d \<in> set evs \<longrightarrow> listed raw env (uaNetwork st) x)
    \<and> (UdpReply x p \<in> set evs \<longrightarrow> listed raw env (uaNetwork st) x \<and> (\<exists>payload. Marshal x payload = Inr p))"
proof -
  have k: "udp_kept env (Udp_Authorize a) st (st', evs)"
    using udpRun_kept [OF Udp_Start_inv(1) [OF assms(3)]] assms(4) by metis
  then have "length (dsValues (uaDests st')) \<le> dsMaximum (uaDests st)"
    by (auto simp: udp_kept_def udp_inv_def)
  moreover have "event_ok env (Udp_Authorize a) (uaNetwork st) ev" if "ev \<in> set evs" for ev
    using k that by (auto simp: udp_kept_def list_all_iff)
  ultimately show ?thesis
    using Udp_Start_inv(3) [OF assms(3)] permitted_listed [OF assms(1)] by (fastforce simp: event_ok_def)
qed

section \<open>The client reads the relayed answers in order\<close>

definition udpFrame :: "bytes \<Rightarrow> bytes" where
  "udpFrame packet = put_uint32 (of_nat (length packet)) @ packet"

definition frame_size :: "bytes \<Rightarrow> bool" where
  "frame_size packet = (packet \<noteq> [] \<and> length packet \<le> MaxDatagramBytes)"

lemma Udp_WriteFrame_ok:
  "Udp_WriteFrame w packet = (None, w') \<Longrightarrow> frame_size packet \<and> cnOut w' = cnOut w @ udpFrame packet"
  by (cases "writeBoth w (put_uint32 (of_nat (length packet))) packet")
     (auto simp: Udp_WriteFrame_def frame_size_def udpFrame_def dest!: writeBoth_ok split: if_splits)

lemma WriteFrame_prefix: "Udp_WriteFrame w packet = (e, w') \<Longrightarrow> prefix (cnOut w) (cnOut w')"
  by (cases "writeBoth w (put_uint32 (of_nat (length packet))) packet")
     (auto simp: Udp_WriteFrame_def dest!: writeBoth_prefix split: if_splits)

lemma ReadFrame_udpFrame:
  assumes "frame_size packet"
  shows "Association_Receive (udpFrame packet @ rest) = Inr (packet, rest)"
proof -
  have "unat (of_nat (length packet) :: u32) = length packet" "1 \<le> length packet"
    using assms by (auto simp: frame_size_def unat_of_nat Suc_le_eq)
  moreover have "ReadFull 4 (udpFrame packet @ rest) = Inr (put_uint32 (of_nat (length packet)), packet @ rest)"
    unfolding udpFrame_def by (simp add: ReadFull_exact)
  moreover have "ReadFull (length packet) (packet @ rest) = Inr (packet, rest)" by (simp add: ReadFull_exact)
  ultimately show ?thesis
    using assms by (simp add: Association_Receive_def Udp_ReadFrame_def Let_def frame_size_def)
qed

lemma receiveAll_frames:
  "list_all frame_size ps \<Longrightarrow> receiveAll (length ps) (concat (map udpFrame ps) @ rest) = ps"
  by (induction ps) (simp_all add: ReadFrame_udpFrame)

definition replies :: "udp_event list \<Rightarrow> bytes list" where
  "replies evs = concat (map (\<lambda>ev. case ev of UdpReply a p \<Rightarrow> [p] | UdpSend a d \<Rightarrow> []) evs)"

lemma udpStep_stream:
  assumes "udpStep env auth st i = (st', evs)"
  shows "uaStream st' = uaStream st \<and> replies evs = [] \<and> (uaRelay st \<noteq> Running \<longrightarrow> uaRelay st' \<noteq> Running)
    \<or> (\<exists>p. replies evs = [p] \<and> frame_size p \<and> cnOut (uaStream st') = cnOut (uaStream st) @ udpFrame p \<and> uaRelay st = Running)
    \<or> (replies evs = [] \<and> prefix (cnOut (uaStream st)) (cnOut (uaStream st')) \<and> uaRelay st' \<noteq> Running \<and> uaRelay st = Running)"
proof (cases "uaEnd st = Running")
  case True
  show ?thesis
  proof (cases i)
    case FrameIn
    then show ?thesis using assms True
      by (auto simp: udpStep_def udpFrameIn_def replies_def Let_def split: if_splits sum.splits option.splits prod.splits)
  next
    case (SendOut f)
    then show ?thesis using assms True
      by (cases "uaPending st"; cases f) (auto simp: udpStep_def udpSendOut_def replies_def)
  next
    case (PacketIn source payload)
    then show ?thesis using assms True
      by (auto simp: udpStep_def udpPacketIn_def replies_def dest: Udp_WriteFrame_ok WriteFrame_prefix
          split: if_splits sum.splits option.splits prod.splits)
  next
    case (PacketFailed t e)
    then show ?thesis using assms True by (auto simp: udpStep_def replies_def split: if_splits)
  qed
qed (use assms in \<open>simp add: udpStep_def replies_def\<close>)

lemma replies_append [simp]: "replies (xs @ ys) = replies xs @ replies ys" "replies [] = []"
  by (simp_all add: replies_def)

lemma udpRun_stopped: "uaRelay st \<noteq> Running \<Longrightarrow> udpRun env auth st is = (st', evs) \<Longrightarrow> uaStream st' = uaStream st \<and> replies evs = []"
proof (induction "is" arbitrary: st evs)
  case (Cons i "is")
  then obtain st1 e1 e2 where r: "udpStep env auth st i = (st1, e1)" "udpRun env auth st1 is = (st', e2)" "evs = e1 @ e2"
    by (auto split: prod.splits)
  then show ?case using udpStep_stream [OF r(1)] Cons(1) [OF _ r(2)] Cons(2) by auto
qed simp

lemma udpRun_stream:
  "udpRun env auth st is = (st', evs) \<Longrightarrow>
     prefix (cnOut (uaStream st) @ concat (map udpFrame (replies evs))) (cnOut (uaStream st')) \<and> list_all frame_size (replies evs)"
proof (induction "is" arbitrary: st evs)
  case (Cons i "is")
  then obtain st1 e1 e2 where r: "udpStep env auth st i = (st1, e1)" "udpRun env auth st1 is = (st', e2)" "evs = e1 @ e2"
    by (auto split: prod.splits)
  note ih = Cons(1) [OF r(2)]
  from udpStep_stream [OF r(1)] show ?case
  proof (elim disjE exE conjE)
    assume "uaStream st1 = uaStream st" "replies e1 = []"
    then show ?thesis using ih r(3) by simp
  next
    fix p
    assume "replies e1 = [p]" "frame_size p" "cnOut (uaStream st1) = cnOut (uaStream st) @ udpFrame p"
    then show ?thesis using ih r(3) by simp
  next
    assume a: "replies e1 = []" "prefix (cnOut (uaStream st)) (cnOut (uaStream st1))" "uaRelay st1 \<noteq> Running"
    then show ?thesis using udpRun_stopped [OF a(3) r(2)] r(3) by simp
  qed
qed simp

text \<open>
  Reading its side of the stream after the result, the client receives exactly the answers the server
  relayed, complete and in order.
\<close>

theorem udp_replies_received:
  assumes "udpRun env auth st inputs = (st', evs)"
  shows "\<exists>sent. cnOut (uaStream st') = cnOut (uaStream st) @ sent \<and> receiveAll (length (replies evs)) sent = replies evs"
proof -
  obtain more where "cnOut (uaStream st') = cnOut (uaStream st) @ concat (map udpFrame (replies evs)) @ more"
    using udpRun_stream [OF assms] by (auto simp: prefix_def)
  moreover have "list_all frame_size (replies evs)" using udpRun_stream [OF assms] by simp
  ultimately show ?thesis using receiveAll_frames by blast
qed

section \<open>A run\<close>

definition udp_demo_env :: udp_env where
  "udp_demo_env = \<lparr>ueListen = (\<lambda>_. Inr '':0''), ueResolve = (\<lambda>_ a. if a = ''dns.test:53'' then Some ''1.1.1.1:53'' else None)\<rparr>"

definition udp_demo_json :: udp_json where
  "udp_demo_json = \<lparr>ujDecode = (\<lambda>_. Some (\<lparr>uqProtocol = [], uqNetwork = []\<rparr>, True)), ujText = (\<lambda>_. [1])\<rparr>"

definition udp_demo_rules :: Allowlist where
  "udp_demo_rules = [\<lparr>arHost = ''*.test'', arPort = ''53''\<rparr>]"

definition udp_demo_server :: udp_server where
  "udp_demo_server = \<lparr>uvAuthorize = Some (Udp_Authorize udp_demo_rules), uvMaxDestinations = 1\<rparr>"

definition udp_query :: bytes where
  "udp_query = [0, 0, 0, 3, 8] @ toBytes ''dns.test'' @ [0, 53, 7]"

abbreviation udp_answer :: bytes where
  "udp_answer \<equiv> [0, 0, 0, 1, 1, 1, 1, 1, 0, 53, 9]"

definition udp_demo_start :: udp_assoc where
  "udp_demo_start =
     \<lparr>uaNetwork = ''udp'', uaDests = \<lparr>dsValues = [], dsMaximum = 1\<rparr>, uaIn = udpFrame udp_query, uaPending = None,
      uaStream = demo_conn\<lparr>cnOut := resultHeader udpMagic None []\<rparr>, uaRelay = Running, uaEnd = Running\<rparr>"

lemma udp_demo_parse: "Parse udp_query = Inr \<lparr>dgAddress = ''dns.test:53'', dgData = [7]\<rparr>"
proof -
  have "parseHost udp_query = Inr (''dns.test'', 13)" by code_simp
  moreover have "JoinHostPort ''dns.test'' (Itoa 53) = ''dns.test:53''" by code_simp
  ultimately show ?thesis by (simp add: Parse_def udp_query_def toBytes_def get_uint16_def)
qed

lemma udp_demo_marshal: "Marshal ''1.1.1.1:53'' [9] = Inr udp_answer"
proof -
  have "SplitHostPort (TrimSpace ''1.1.1.1:53'') = Some (''1.1.1.1'', ''53'')" "Atoi ''53'' = Some 53"
      "TrimSpace ''1.1.1.1'' \<noteq> []" "marshalHost ''1.1.1.1'' = Inr [1, 1, 1, 1, 1]"
    by code_simp+
  then show ?thesis by (simp add: Marshal_def put_uint16_def)
qed

lemma udp_demo_started:
  "Udp_Start udp_demo_json udp_demo_env (\<lambda>_. []) (Some udp_demo_server) demo_conn (udpFrame udp_query) [1] = Inr udp_demo_start"
proof -
  have "Udp_normalizeRequest \<lparr>uqProtocol = [], uqNetwork = []\<rparr> = Inr \<lparr>uqProtocol = UdpProtocol, uqNetwork = ''udp''\<rparr>" by code_simp
  then show ?thesis
    by (simp add: Udp_Start_def Udp_DecodeRequest_def udp_demo_json_def udp_demo_server_def udp_demo_env_def udp_demo_start_def
        writeResult_def writeBoth_def writeAll_def writeFull_empty_script resultPayload_def toBytes_def)
qed

lemma udp_demo_run:
  "\<exists>st'. udpRun udp_demo_env (Udp_Authorize udp_demo_rules) udp_demo_start [FrameIn, SendOut None, PacketIn ''1.1.1.1:53'' [9]]
     = (st', [UdpSend ''1.1.1.1:53'' [7], UdpReply ''1.1.1.1:53'' udp_answer])"
proof -
  have auth: "Udp_Authorize udp_demo_rules ''dns.test:53'' = None" by code_simp
  have read: "Udp_ReadFrame (udpFrame udp_query) = Inr (udp_query, [])"
    using ReadFrame_udpFrame [of udp_query "[]"] by (simp add: Association_Receive_def frame_size_def udp_query_def)
  show ?thesis
    by (simp add: udpStep_def udpFrameIn_def udp_demo_start_def read udp_demo_parse auth udp_demo_env_def destinationSet_Add_def
        udpSendOut_def udpPacketIn_def destinationSet_Contains_def udp_demo_marshal Udp_WriteFrame_def writeBoth_def writeAll_def
        writeFull_empty_script)
qed

theorem udp_within_policy_witness:
  "\<exists>st'. udpRun udp_demo_env (Udp_Authorize udp_demo_rules) udp_demo_start [FrameIn, SendOut None, PacketIn ''1.1.1.1:53'' [9]]
     = (st', [UdpSend ''1.1.1.1:53'' [7], UdpReply ''1.1.1.1:53'' udp_answer])
   \<and> length (dsValues (uaDests st')) \<le> 1 \<and> listed ''*.test:53'' udp_demo_env ''udp'' ''1.1.1.1:53''"
proof -
  obtain st' where run: "udpRun udp_demo_env (Udp_Authorize udp_demo_rules) udp_demo_start [FrameIn, SendOut None, PacketIn ''1.1.1.1:53'' [9]]
     = (st', [UdpSend ''1.1.1.1:53'' [7], UdpReply ''1.1.1.1:53'' udp_answer])"
    using udp_demo_run by blast
  have p: "ParseAllowlist ''*.test:53'' = Inr udp_demo_rules" by code_simp
  have s: "uvAuthorize udp_demo_server = Some (Udp_Authorize udp_demo_rules)" by (simp add: udp_demo_server_def)
  show ?thesis
    using run udp_within_policy [OF p s udp_demo_started run, of "''1.1.1.1:53''" "[7]" udp_answer]
    by (auto simp: udp_demo_server_def udp_demo_start_def)
qed

theorem udp_replies_received_witness:
  "\<exists>st' sent. udpRun udp_demo_env (Udp_Authorize udp_demo_rules) udp_demo_start [FrameIn, SendOut None, PacketIn ''1.1.1.1:53'' [9]]
       = (st', [UdpSend ''1.1.1.1:53'' [7], UdpReply ''1.1.1.1:53'' udp_answer])
     \<and> cnOut (uaStream st') = cnOut (uaStream udp_demo_start) @ sent \<and> receiveAll 1 sent = [udp_answer]"
proof -
  obtain st' where run: "udpRun udp_demo_env (Udp_Authorize udp_demo_rules) udp_demo_start [FrameIn, SendOut None, PacketIn ''1.1.1.1:53'' [9]]
     = (st', [UdpSend ''1.1.1.1:53'' [7], UdpReply ''1.1.1.1:53'' udp_answer])"
    using udp_demo_run by blast
  have r: "replies [UdpSend ''1.1.1.1:53'' [7], UdpReply ''1.1.1.1:53'' udp_answer] = [udp_answer]" by (simp add: replies_def)
  obtain sent where "cnOut (uaStream st') = cnOut (uaStream udp_demo_start) @ sent" "receiveAll 1 sent = [udp_answer]"
    using udp_replies_received [OF run] unfolding r by auto
  then show ?thesis using run by blast
qed

end
