(* ===== verification/Proxy_Window.thy ===== *)
theory Proxy_Window
  imports Wv_Prelude
begin

text \<open>
  The replay window of proof-carrying UDP, \<open>sessionproxy/sequence_window.go\<close>: the highest sequence
  number accepted and a bit for each of the 64 latest.

  Its specification keeps the whole set of accepted numbers. Shown: the window answers every sequence
  of requests as the specification does, so a positive number is accepted at most once, and it is
  accepted at its first use unless a number at least 64 higher was accepted before.
\<close>

unbundle bit_operations_syntax

section \<open>The window\<close>

record sequenceWindow =
  swHighest :: u64
  swSeen :: u64

definition newWindow :: sequenceWindow where
  "newWindow = \<lparr>swHighest = 0, swSeen = 0\<rparr>"

definition Window_Accept :: "sequenceWindow \<Rightarrow> u64 \<Rightarrow> bool \<times> sequenceWindow" where
  "Window_Accept w s =
     (if s = 0 then (False, w)
      else if swHighest w = 0 then (True, \<lparr>swHighest = s, swSeen = 1\<rparr>)
      else if swHighest w < s then
        (let shift = s - swHighest w in
         (True, \<lparr>swHighest = s, swSeen = (if 64 \<le> shift then 1 else push_bit (unat shift) (swSeen w) OR 1)\<rparr>))
      else
        let delta = swHighest w - s in
        if 64 \<le> delta then (False, w)
        else
        let mask = push_bit (unat delta) 1 in
        if swSeen w AND mask \<noteq> 0 then (False, w)
        else (True, w\<lparr>swSeen := swSeen w OR mask\<rparr>))"

section \<open>The specification\<close>

definition spec_accepts :: "nat set \<Rightarrow> nat \<Rightarrow> bool" where
  "spec_accepts S s = (0 < s \<and> s \<notin> S \<and> (\<forall>t \<in> S. t < s + 64))"

definition spec_step :: "nat set \<Rightarrow> nat \<Rightarrow> bool \<times> nat set" where
  "spec_step S s = (spec_accepts S s, if spec_accepts S s then insert s S else S)"

text \<open>The answers to a sequence of requests, of the window and of the specification.\<close>

fun window_run :: "sequenceWindow \<Rightarrow> u64 list \<Rightarrow> bool list" where
  "window_run w [] = []"
| "window_run w (s # ss) = (case Window_Accept w s of (ok, w') \<Rightarrow> ok # window_run w' ss)"

fun spec_run :: "nat set \<Rightarrow> nat list \<Rightarrow> bool list" where
  "spec_run S [] = []"
| "spec_run S (s # ss) = (case spec_step S s of (ok, S') \<Rightarrow> ok # spec_run S' ss)"

section \<open>Refinement\<close>

definition window_abs :: "sequenceWindow \<Rightarrow> nat set \<Rightarrow> bool" where
  "window_abs w S =
     (0 \<notin> S \<and> (swHighest w = 0 \<longleftrightarrow> S = {}) \<and> (\<forall>t \<in> S. t \<le> unat (swHighest w))
      \<and> (S \<noteq> {} \<longrightarrow> unat (swHighest w) \<in> S)
      \<and> (\<forall>i < 64. bit (swSeen w) i \<longleftrightarrow> i < unat (swHighest w) \<and> unat (swHighest w) - i \<in> S))"

lemma window_abs_new: "window_abs newWindow {}"
  by (simp add: window_abs_def newWindow_def)

lemma bit_one64: "bit (1 :: u64) i \<longleftrightarrow> i = 0"
  by (simp add: bit_1_iff)

lemma bit_shift64: "i < 64 \<Longrightarrow> bit (push_bit n (v :: u64)) i \<longleftrightarrow> n \<le> i \<and> bit v (i - n)"
  by (auto simp: bit_push_bit_iff)

lemma bit_mask64: "i < 64 \<Longrightarrow> bit (push_bit n (1 :: u64)) i \<longleftrightarrow> i = n"
  by (auto simp: bit_exp_iff)

lemma accept_first:
  assumes "window_abs w S" "s \<noteq> 0" "swHighest w = 0"
  shows "spec_accepts S (unat s) \<and> window_abs \<lparr>swHighest = s, swSeen = 1\<rparr> {unat s} \<and> S = {}"
proof -
  have "0 < unat s" using assms(2) by (simp add: unat_gt_0)
  then show ?thesis using assms by (auto simp: window_abs_def spec_accepts_def bit_one64)
qed

lemma accept_above:
  assumes "window_abs w S" "swHighest w \<noteq> 0" "swHighest w < s"
  shows "spec_accepts S (unat s)
    \<and> window_abs \<lparr>swHighest = s, swSeen = (if 64 \<le> s - swHighest w then 1 else push_bit (unat (s - swHighest w)) (swSeen w) OR 1)\<rparr>
        (insert (unat s) S)"
proof -
  let ?h = "unat (swHighest w)" and ?n = "unat s"
  have lt: "?h < ?n" using assms(3) by (simp add: word_less_nat_alt)
  have d: "unat (s - swHighest w) = ?n - ?h" using lt by (simp add: unat_sub word_le_nat_alt)
  have big: "64 \<le> s - swHighest w \<longleftrightarrow> 64 \<le> ?n - ?h" using d by (simp add: word_le_nat_alt)
  have S: "0 \<notin> S" "\<forall>t \<in> S. t \<le> ?h" "?h \<in> S"
      "\<And>i. i < 64 \<Longrightarrow> bit (swSeen w) i \<longleftrightarrow> i < ?h \<and> ?h - i \<in> S"
    using assms(1,2) by (auto simp: window_abs_def)
  have "?n \<notin> S" using S(2) lt by auto
  then have "spec_accepts S ?n" using S(2) lt by (fastforce simp: spec_accepts_def)
  moreover have "bit (if 64 \<le> s - swHighest w then 1 else push_bit (unat (s - swHighest w)) (swSeen w) OR 1) i
      \<longleftrightarrow> i < ?n \<and> ?n - i \<in> insert ?n S" if "i < 64" for i
  proof (cases "64 \<le> ?n - ?h")
    case True
    then have "?n - i \<notin> S \<or> i = 0" using S(2) that by fastforce
    then show ?thesis using True big lt that \<open>?n \<notin> S\<close> by (auto simp: bit_one64)
  next
    case False
    have eq: "?h - (i - (?n - ?h)) = ?n - i" "i - (?n - ?h) < ?h \<longleftrightarrow> i < ?n" if "?n - ?h \<le> i" using that lt by auto
    have below: "?n - i \<notin> S" if "\<not> ?n - ?h \<le> i" using that S(2) lt by fastforce
    have "bit (push_bit (?n - ?h) (swSeen w) OR 1) i \<longleftrightarrow> ?n - ?h \<le> i \<and> i < ?n \<and> ?n - i \<in> S \<or> i = 0"
      using that S(4) [of "i - (?n - ?h)"] eq by (auto simp: bit_or_iff bit_one64 bit_shift64)
    then show ?thesis using False big d lt below \<open>?n \<notin> S\<close> by auto
  qed
  ultimately show ?thesis using S lt by (auto simp: window_abs_def)
qed

lemma accept_below:
  assumes "window_abs w S" "s \<noteq> 0" "swHighest w \<noteq> 0" "\<not> swHighest w < s"
  defines "m \<equiv> push_bit (unat (swHighest w - s)) 1"
  shows "spec_accepts S (unat s) \<longleftrightarrow> \<not> 64 \<le> swHighest w - s \<and> swSeen w AND m = 0"
    "\<not> 64 \<le> swHighest w - s \<Longrightarrow> window_abs (w\<lparr>swSeen := swSeen w OR m\<rparr>) (insert (unat s) S)"
proof -
  let ?h = "unat (swHighest w)" and ?n = "unat s"
  have le: "?n \<le> ?h" using assms(4) by (simp add: word_less_nat_alt)
  have d: "unat (swHighest w - s) = ?h - ?n" using le by (simp add: unat_sub word_le_nat_alt)
  have big: "64 \<le> swHighest w - s \<longleftrightarrow> 64 \<le> ?h - ?n" using d by (simp add: word_le_nat_alt)
  have n: "0 < ?n" using assms(2) by (simp add: unat_gt_0)
  have S: "0 \<notin> S" "\<forall>t \<in> S. t \<le> ?h" "?h \<in> S" "S \<noteq> {}"
      "\<And>i. i < 64 \<Longrightarrow> bit (swSeen w) i \<longleftrightarrow> i < ?h \<and> ?h - i \<in> S"
    using assms(1,3) by (auto simp: window_abs_def)
  have "swSeen w AND m = 0 \<longleftrightarrow> \<not> bit (swSeen w) (?h - ?n)"
    using bit_iff_and_push_bit_not_eq_0 [of "swSeen w" "?h - ?n"] by (simp only: m_def d) simp
  moreover have "(\<forall>t \<in> S. t < ?n + 64) \<longleftrightarrow> \<not> 64 \<le> ?h - ?n" using S(2,3) le by fastforce
  ultimately show "spec_accepts S ?n \<longleftrightarrow> \<not> 64 \<le> swHighest w - s \<and> swSeen w AND m = 0"
    using S(5) [of "?h - ?n"] le n big by (auto simp: spec_accepts_def)
  assume small: "\<not> 64 \<le> swHighest w - s"
  have "bit (swSeen w OR m) i \<longleftrightarrow> i < ?h \<and> ?h - i \<in> insert ?n S" if "i < 64" for i
    using S(5) [OF that] that le n by (auto simp: bit_or_iff m_def d bit_exp_iff)
  then show "window_abs (w\<lparr>swSeen := swSeen w OR m\<rparr>) (insert ?n S)"
    using S le n assms(3) by (auto simp: window_abs_def)
qed

lemma window_simulates:
  assumes "window_abs w S"
  shows "fst (Window_Accept w s) = fst (spec_step S (unat s)) \<and> window_abs (snd (Window_Accept w s)) (snd (spec_step S (unat s)))"
proof (cases "s = 0")
  case True
  then show ?thesis using assms by (simp add: Window_Accept_def spec_step_def spec_accepts_def)
next
  case False
  consider "swHighest w = 0" | "swHighest w \<noteq> 0" "swHighest w < s" | "swHighest w \<noteq> 0" "\<not> swHighest w < s" by blast
  then show ?thesis
  proof cases
    case 1
    then show ?thesis using False accept_first [OF assms False 1] by (auto simp: Window_Accept_def spec_step_def)
  next
    case 2
    then show ?thesis using False accept_above [OF assms 2] by (simp add: Window_Accept_def spec_step_def Let_def)
  next
    case 3
    then show ?thesis using False assms accept_below [OF assms False 3]
      by (auto simp: Window_Accept_def spec_step_def Let_def simp del: push_bit_of_1)
  qed
qed

lemma window_run_spec: "window_abs w S \<Longrightarrow> window_run w ss = spec_run S (map unat ss)"
proof (induction ss arbitrary: w S)
  case (Cons s ss)
  obtain ok w' where w': "Window_Accept w s = (ok, w')" by fastforce
  obtain ok' S' where S': "spec_step S (unat s) = (ok', S')" by fastforce
  have "ok' = ok" "window_abs w' S'" using window_simulates [OF Cons(2), of s] w' S' by simp_all
  then show ?case using Cons(1) w' S' by simp
qed simp

text \<open>The requests that were accepted.\<close>

definition accepted :: "'a list \<Rightarrow> bool list \<Rightarrow> 'a list" where
  "accepted ss oks = map fst (filter snd (zip ss oks))"

lemma spec_run_once: "distinct (accepted ns (spec_run S ns)) \<and> set (accepted ns (spec_run S ns)) \<inter> insert 0 S = {}"
proof (induction ns arbitrary: S)
  case (Cons n ns)
  show ?case using Cons [of S] Cons [of "insert n S"]
    by (auto simp: accepted_def spec_step_def spec_accepts_def)
qed (simp add: accepted_def)

lemma accepted_map: "map f (accepted ss oks) = accepted (map f ss) oks"
  by (induction ss arbitrary: oks) (auto simp: accepted_def zip_Cons1 split: list.split)

text \<open>
  C21: The window answers every sequence of requests as the specification that remembers all numbers: a
  number is accepted if it is positive, was not accepted before, and no accepted number is 64 or more
  above it. In particular no number is accepted twice.
\<close>

theorem window_refines:
  "window_run newWindow ss = spec_run {} (map unat ss) \<and> distinct (accepted ss (window_run newWindow ss))"
proof -
  have r: "window_run newWindow ss = spec_run {} (map unat ss)" by (rule window_run_spec) (rule window_abs_new)
  have "distinct (map unat (accepted ss (window_run newWindow ss)))"
    unfolding accepted_map r using spec_run_once [of "map unat ss" "{}"] by simp
  then show ?thesis using r by (simp add: distinct_map)
qed

end
