(* ===== verification/Pkt_Padding.thy ===== *)
theory Pkt_Padding
  imports Wv_Prelude
begin

text \<open>
  Packet padding of \<open>padding/padding.go\<close>: small IP packets are padded to 768 bytes with their length and
  a marker behind them, and the receiver cuts them back.

  Shown: a packet whose IP header tells its length survives padding and unpadding, padded or not, and
  every padded packet has 768 bytes.
\<close>

section \<open>Classifier\<close>

abbreviation OptimalPaddedSize :: nat where "OptimalPaddedSize \<equiv> 768"
abbreviation PaddingThreshold :: nat where "PaddingThreshold \<equiv> 256"
abbreviation PaddingMarker :: byte where "PaddingMarker \<equiv> 0xFF"

record PadStats =
  psICMP :: u64
  psDNS :: u64
  psTCPCtrl :: u64
  psTCPData :: u64
  psUDPSmall :: u64
  psUDPLarge :: u64
  psPadded :: u64

record Classifier =
  clEnabled :: bool
  clStats :: PadStats

definition NewClassifier :: "bool \<Rightarrow> Classifier" where
  "NewClassifier enabled =
     \<lparr>clEnabled = enabled,
      clStats = \<lparr>psICMP = 0, psDNS = 0, psTCPCtrl = 0, psTCPData = 0, psUDPSmall = 0, psUDPLarge = 0, psPadded = 0\<rparr>\<rparr>"

definition safePacketLength :: "bytes \<Rightarrow> int \<Rightarrow> nat \<times> bool" where
  "safePacketLength buf n =
     (if n < 0 then (0, False)
      else if int (length buf) < n then (length buf, False)
      else (nat n, True))"

definition be16 :: "bytes \<Rightarrow> nat \<Rightarrow> nat" where
  "be16 buf i = unat (buf ! i) * 256 + unat (buf ! (i + 1))"

definition ipVersion :: "bytes \<Rightarrow> nat" where
  "ipVersion buf = unat (drop_bit 4 (buf ! 0))"

text \<open>
  The length and the protocol in the header of the first \<open>n\<close> bytes; \<open>None\<close> when they are too short for
  a header or the version is neither 4 nor 6.
\<close>

definition ipHeader :: "bytes \<Rightarrow> nat \<Rightarrow> (nat \<times> byte) option" where
  "ipHeader buf n =
     (if ipVersion buf = 4 then (if n < 20 then None else Some (be16 buf 2, buf ! 9))
      else if ipVersion buf = 6 then (if n < 40 then None else Some (40 + be16 buf 4, buf ! 6))
      else None)"

text \<open>The \<open>switch\<close> on the protocol: whether to pad, and the counted statistics.\<close>

definition classify :: "bytes \<Rightarrow> nat \<Rightarrow> byte \<Rightarrow> PadStats \<Rightarrow> bool \<times> PadStats" where
  "classify buf n protocol st =
     (let off = (if ipVersion buf = 6 then 40 else 20) in
      if protocol = 1 \<or> protocol = 58 then (n < PaddingThreshold, st\<lparr>psICMP := psICMP st + 1\<rparr>)
      else if protocol = 6 then
        (if off + 14 \<le> n then
           (let flags = buf ! (off + 13) in
            if bit flags 1 \<or> bit flags 0 \<or> bit flags 2 then (n < PaddingThreshold, st\<lparr>psTCPCtrl := psTCPCtrl st + 1\<rparr>)
            else (n < PaddingThreshold, st\<lparr>psTCPData := psTCPData st + 1\<rparr>))
         else (False, st))
      else if protocol = 17 then
        (if off + 8 \<le> n then
           (if be16 buf off = 53 \<or> be16 buf (off + 2) = 53 then (True, st\<lparr>psDNS := psDNS st + 1\<rparr>)
            else if n < PaddingThreshold then (True, st\<lparr>psUDPSmall := psUDPSmall st + 1\<rparr>)
            else (False, st\<lparr>psUDPLarge := psUDPLarge st + 1\<rparr>))
         else (False, st))
      else (False, st))"

definition padPacket :: "bytes \<Rightarrow> nat \<Rightarrow> bytes" where
  "padPacket buf n =
     take n buf @ put_uint16 (of_nat n) @ [PaddingMarker] @ replicate (OptimalPaddedSize - (n + 3)) 0"

definition ClassifyAndPad :: "Classifier \<Rightarrow> bytes \<Rightarrow> int \<Rightarrow> Classifier \<times> bytes \<times> nat \<times> bool" where
  "ClassifyAndPad c buf n0 =
     (case safePacketLength buf n0 of
        (n, validLength) \<Rightarrow>
          if \<not> clEnabled c \<or> \<not> validLength \<or> n = 0 \<or> OptimalPaddedSize \<le> n \<or> OptimalPaddedSize \<le> n + 2 then (c, buf, n, False)
          else case ipHeader buf n of
            None \<Rightarrow> (c, buf, n, False)
          | Some (packetTotalLen, protocol) \<Rightarrow>
              if packetTotalLen \<noteq> n then (c, buf, n, False)
              else case classify buf n protocol (clStats c) of
                (needsPadding, st) \<Rightarrow>
                  if \<not> needsPadding then (c\<lparr>clStats := st\<rparr>, buf, n, False)
                  else (c\<lparr>clStats := st\<lparr>psPadded := psPadded st + 1\<rparr>\<rparr>, padPacket buf n, OptimalPaddedSize, True))"

definition Unpad :: "Classifier \<Rightarrow> bytes \<Rightarrow> bytes \<times> nat" where
  "Unpad c packet =
     (let n = length packet in
      if \<not> clEnabled c \<or> n \<noteq> OptimalPaddedSize \<or> n < 20 then (packet, n)
      else case ipHeader packet n of
        None \<Rightarrow> (packet, n)
      | Some (packetTotalLen, _) \<Rightarrow>
          let minSize = (if ipVersion packet = 6 then 40 else 20) in
          if minSize \<le> packetTotalLen \<and> packetTotalLen < OptimalPaddedSize - 2
             \<and> packet ! (packetTotalLen + 2) = PaddingMarker
             \<and> unat (get_uint16 (take 2 (drop packetTotalLen packet))) = packetTotalLen
          then (packet, packetTotalLen) else (packet, n))"

section \<open>Round trip\<close>

lemma length_padPacket: "n + 3 \<le> OptimalPaddedSize \<Longrightarrow> n \<le> length buf \<Longrightarrow> length (padPacket buf n) = OptimalPaddedSize"
  by (simp add: padPacket_def)

lemma ipHeader_prefix:
  assumes "take n a = take n b" "n \<le> length a" "n \<le> length b" "ipHeader a n = Some (l, p)"
  shows "ipHeader b n = Some (l, p)" "ipVersion b = ipVersion a"
proof -
  have nth: "a ! i = b ! i" if "i < n" for i
    using arg_cong [OF assms(1), of "\<lambda>x. x ! i"] that by simp
  have "20 \<le> n" using assms(4) by (auto simp: ipHeader_def split: if_splits)
  then show "ipVersion b = ipVersion a" using nth [of 0] by (simp add: ipVersion_def)
  then show "ipHeader b n = Some (l, p)" using assms(4) nth \<open>20 \<le> n\<close>
    by (auto simp: ipHeader_def be16_def split: if_splits)
qed

lemma ipHeader_longer: "ipHeader a n = Some (l, p) \<Longrightarrow> n \<le> m \<Longrightarrow> ipHeader a m = Some (l, p)"
  by (auto simp: ipHeader_def split: if_splits)

lemma ipHeader_min: "ipHeader a n = Some (l, p) \<Longrightarrow> l = n \<Longrightarrow> (if ipVersion a = 6 then 40 else 20) \<le> n"
  by (auto simp: ipHeader_def split: if_splits)

lemma Unpad_padPacket:
  assumes "clEnabled c" "n + 3 \<le> OptimalPaddedSize" "n \<le> length buf" "ipHeader buf n = Some (n, p)"
  shows "Unpad c (padPacket buf n) = (padPacket buf n, n)"
proof -
  let ?q = "padPacket buf n"
  have len: "length ?q = OptimalPaddedSize" using assms(2,3) by (rule length_padPacket)
  have tk: "take n buf = take n ?q" using assms(3) by (simp add: padPacket_def)
  have h: "ipHeader ?q n = Some (n, p)" "ipVersion ?q = ipVersion buf"
    using ipHeader_prefix [OF tk assms(3) _ assms(4)] len assms(2) by simp_all
  have "ipHeader ?q OptimalPaddedSize = Some (n, p)" using ipHeader_longer [OF h(1)] assms(2) by simp
  moreover have "?q ! (n + 2) = PaddingMarker" "take 2 (drop n ?q) = put_uint16 (of_nat n)"
    using assms(3) by (simp_all add: padPacket_def nth_append put_uint16_def)
  moreover have "unat (of_nat n :: u16) = n" using assms(2) by (simp add: unat_of_nat)
  moreover have "(if ipVersion ?q = 6 then 40 else 20) \<le> n" using ipHeader_min [OF h(1)] by simp
  ultimately show ?thesis using assms(1,2) len unfolding Unpad_def by (simp add: Let_def)
qed

lemma Unpad_whole:
  assumes "n \<le> length buf" "ipHeader buf n = Some (n, p)"
  shows "Unpad c (take n buf) = (take n buf, n)"
proof (cases "n = OptimalPaddedSize")
  case True
  have "ipHeader (take n buf) n = Some (n, p)"
    using ipHeader_prefix(1) [of n buf "take n buf", OF _ _ _ assms(2)] assms(1) by simp
  then show ?thesis using True assms(1) by (simp add: Unpad_def Let_def)
qed (use assms in \<open>simp add: Unpad_def Let_def\<close>)

text \<open>
  A packet of \<open>n\<close> bytes whose IP header says so comes back as it was: the receiver gets length \<open>n\<close> and
  the same bytes, whether the sender padded it or not; the sent packet has 768 bytes if it was padded.
\<close>

theorem padding_roundtrip:
  assumes "clEnabled c" "clEnabled d" "0 \<le> n" "n \<le> int (length buf)" "ipHeader buf (nat n) = Some (nat n, p)"
    "ClassifyAndPad c buf n = (c', out, m, padded)"
  shows "take (nat n) out = take (nat n) buf \<and> Unpad d (take m out) = (take m out, nat n)
    \<and> (if padded then m = OptimalPaddedSize \<and> length out = OptimalPaddedSize else m = nat n \<and> out = buf)"
proof -
  have len: "nat n \<le> length buf" using assms(3,4) by simp
  have "(out = buf \<and> m = nat n \<and> \<not> padded) \<or> (out = padPacket buf (nat n) \<and> m = OptimalPaddedSize \<and> padded \<and> nat n + 3 \<le> OptimalPaddedSize)"
    using assms(3-6) unfolding ClassifyAndPad_def safePacketLength_def by (auto split: if_splits prod.splits)
  then show ?thesis
  proof (elim disjE conjE)
    assume "out = buf" "m = nat n" "\<not> padded"
    then show ?thesis using Unpad_whole [OF len assms(5)] by simp
  next
    assume a: "out = padPacket buf (nat n)" "m = OptimalPaddedSize" "padded" "nat n + 3 \<le> OptimalPaddedSize"
    then show ?thesis
      using length_padPacket [OF a(4) len] Unpad_padPacket [OF assms(2) a(4) len assms(5)] len
      by (simp add: padPacket_def)
  qed
qed

definition demo_icmp :: bytes where
  "demo_icmp = [0x45, 0, 0, 20, 0, 0, 0, 0, 64, 1, 10, 0, 0, 1, 10, 0, 0, 2, 8, 0]"

lemma demo_icmp_padded:
  "ClassifyAndPad (NewClassifier True) demo_icmp 20 =
     ((NewClassifier True)\<lparr>clStats := (clStats (NewClassifier True))\<lparr>psICMP := 1, psPadded := 1\<rparr>\<rparr>, padPacket demo_icmp 20, OptimalPaddedSize, True)"
proof -
  have "ipHeader demo_icmp 20 = Some (20, 1)"
    by (simp add: ipHeader_def ipVersion_def be16_def demo_icmp_def drop_bit_eq_div)
  moreover have "length demo_icmp = 20" by (simp add: demo_icmp_def)
  ultimately show ?thesis
    by (simp add: ClassifyAndPad_def safePacketLength_def NewClassifier_def classify_def Let_def)
qed

theorem padding_roundtrip_witness:
  "take 20 (padPacket demo_icmp 20) = take 20 demo_icmp
   \<and> Unpad (NewClassifier True) (take OptimalPaddedSize (padPacket demo_icmp 20)) = (take OptimalPaddedSize (padPacket demo_icmp 20), 20)"
proof -
  have h: "ipHeader demo_icmp (nat 20) = Some (nat 20, 1)"
    by (simp add: ipHeader_def ipVersion_def be16_def demo_icmp_def drop_bit_eq_div)
  have e: "clEnabled (NewClassifier True)" by (simp add: NewClassifier_def)
  have l: "0 \<le> (20 :: int)" "20 \<le> int (length demo_icmp)" by (simp_all add: demo_icmp_def)
  show ?thesis using padding_roundtrip [OF e e l h demo_icmp_padded] by auto
qed

end
