(* ===== verification/Session_Resume.thy ===== *)
theory Session_Resume
  imports Wv_Prelude
begin

text \<open>
  The resumable copy of \<open>sessionresume/copy.go\<close>: bytes are read and written at offsets, both endpoints
  are reopened after a failure, and the copy goes on at the first byte that was not written.

  The endpoints, the context and the retry timer act on a world of any type \<open>'w\<close>; they are the
  parameter \<open>copy_env\<close>, a call each. What the callers must supply, and the package comment demands, is
  \<open>copy_laws\<close>: \<open>ReadAt\<close> and \<open>WriteAt\<close> keep the contracts of \<open>io.ReaderAt\<close> and \<open>io.WriterAt\<close> for a source
  that does not change, and nothing else touches the destination.

  Shown: the copy always ends; whenever it ends, by whatever failures in between, the bytes below its
  offset are copied, the result counts them, and without an error all bytes are copied.
\<close>

section \<open>The copy\<close>

datatype copy_error =
    ErrCopyConfig | ErrChunkTooLarge | ErrReadEOF | ErrEndpoint string | ErrCopyContext
  | ErrOpenReader copy_error | ErrOpenWriter copy_error | ErrWriteAt nat copy_error | ErrReadAt nat copy_error
  | ErrSourceEnded nat int | ErrNoProgress

record Checkpoint =
  ckOffset :: nat
  ckSize :: int
  ckAttempts :: nat
  ckGenerationOpens :: nat

record CopyConfig =
  ccSize :: int
  ccChunkBytes :: int
  ccMaxAttempts :: int
  ccMinRetryDelay :: go_duration
  ccMaxRetryDelay :: go_duration
  ccRetry :: "copy_error \<Rightarrow> bool"

record copy_result =
  rsBytes :: nat
  rsAttempts :: nat
  rsGenerationOpens :: nat

record 'w copy_env =
  ceOpenReader :: "'w \<Rightarrow> copy_error option \<times> 'w"
  ceOpenWriter :: "'w \<Rightarrow> copy_error option \<times> 'w"
  ceReadAt :: "nat \<Rightarrow> nat \<Rightarrow> 'w \<Rightarrow> (bytes \<times> copy_error option) \<times> 'w"
  ceWriteAt :: "bytes \<Rightarrow> nat \<Rightarrow> 'w \<Rightarrow> (nat \<times> copy_error option) \<times> 'w"
  ceClose :: "'w \<Rightarrow> 'w"
  ceCtxErr :: "'w \<Rightarrow> copy_error option \<times> 'w"
  ceWait :: "go_duration \<Rightarrow> 'w \<Rightarrow> copy_error option \<times> 'w"

text \<open>The variables of the loop; \<open>csOpen\<close> says that both endpoints are open.\<close>

record copy_state =
  csOffset :: nat
  csDelay :: go_duration
  csTries :: nat
  csOpen :: bool
  csResult :: copy_result
  csCheckpoints :: "Checkpoint list"

definition nextDelay :: "go_duration \<Rightarrow> go_duration \<Rightarrow> go_duration" where
  "nextDelay current maximum = (let n = go_int64 (current * 2) in if maximum < n then maximum else n)"

definition configDefaults :: "CopyConfig \<Rightarrow> CopyConfig" where
  "configDefaults c =
     c\<lparr>ccChunkBytes := (if ccChunkBytes c \<le> 0 then 262144 else ccChunkBytes c),
       ccMaxAttempts := (if ccMaxAttempts c \<le> 0 then 12 else ccMaxAttempts c),
       ccMinRetryDelay := (if ccMinRetryDelay c \<le> 0 then 100000000 else ccMinRetryDelay c),
       ccMaxRetryDelay := (if ccMaxRetryDelay c \<le> 0 then 3 * go_second else ccMaxRetryDelay c)\<rparr>"

text \<open>
  What every failure does: count it, and give up with \<open>e\<close>, or wait and double the delay. \<open>cause\<close> is the
  error \<open>Retry\<close> is asked about.
\<close>

definition countFailure :: "copy_state \<Rightarrow> copy_state" where
  "countFailure st =
     st\<lparr>csResult := (csResult st)\<lparr>rsAttempts := rsAttempts (csResult st) + 1\<rparr>, csTries := csTries st + 1\<rparr>"

definition retryOrStop ::
  "'w copy_env \<Rightarrow> CopyConfig \<Rightarrow> copy_error \<Rightarrow> copy_error \<Rightarrow> copy_state \<Rightarrow> 'w \<Rightarrow> copy_error option \<times> copy_state \<times> 'w" where
  "retryOrStop env c cause e st w =
     (if \<not> ccRetry c cause \<or> ccMaxAttempts c \<le> int (csTries st) then (Some e, st, w)
      else case ceWait env (csDelay st) w of
        (Some e', w') \<Rightarrow> (Some e', st, w')
      | (None, w') \<Rightarrow> (None, st\<lparr>csDelay := nextDelay (csDelay st) (ccMaxRetryDelay c)\<rparr>, w'))"

definition closeEndpoints :: "'w copy_env \<Rightarrow> copy_state \<Rightarrow> 'w \<Rightarrow> copy_state \<times> 'w" where
  "closeEndpoints env st w = (st\<lparr>csOpen := False\<rparr>, if csOpen st then ceClose env w else w)"

definition openEndpoints :: "'w copy_env \<Rightarrow> copy_state \<Rightarrow> 'w \<Rightarrow> copy_error option \<times> copy_state \<times> 'w" where
  "openEndpoints env st w =
     (case ceOpenReader env w of
        (Some e, w') \<Rightarrow> (Some (ErrOpenReader e), st, w')
      | (None, w') \<Rightarrow>
          (case ceOpenWriter env w' of
             (Some e, w'') \<Rightarrow> (Some (ErrOpenWriter e), st, ceClose env w'')
           | (None, w'') \<Rightarrow>
               (None, st\<lparr>csOpen := True, csResult := (csResult st)\<lparr>rsGenerationOpens := rsGenerationOpens (csResult st) + 1\<rparr>\<rparr>, w'')))"

text \<open>What \<open>WriteAt\<close> wrote is recorded at once.\<close>

definition recordWritten :: "CopyConfig \<Rightarrow> nat \<Rightarrow> nat \<Rightarrow> copy_state \<Rightarrow> copy_state" where
  "recordWritten c offset n st =
     (if n = 0 then st
      else
      let r = (csResult st)\<lparr>rsBytes := rsBytes (csResult st) + n\<rparr> in
      st\<lparr>csOffset := offset, csResult := r, csTries := 0, csDelay := ccMinRetryDelay c,
         csCheckpoints := csCheckpoints st @ [\<lparr>ckOffset = offset, ckSize = ccSize c, ckAttempts = rsAttempts r, ckGenerationOpens = rsGenerationOpens r\<rparr>]\<rparr>)"

text \<open>The inner loop: \<open>Inl e\<close> leaves \<open>Copy\<close>, \<open>Inr written\<close> goes on behind the loop.\<close>

function writeLoop ::
  "'w copy_env \<Rightarrow> CopyConfig \<Rightarrow> nat \<Rightarrow> bytes \<Rightarrow> nat \<Rightarrow> copy_state \<Rightarrow> 'w \<Rightarrow> (copy_error + nat) \<times> copy_state \<times> 'w" where
  "writeLoop env c base buf written st w =
     (if length buf \<le> written then (Inr written, st, w)
      else case ceWriteAt env (drop written buf) (base + written) w of
        ((n, writeErr), w1) \<Rightarrow>
          let written' = written + n;
              st1 = recordWritten c (base + written') n st in
          (case writeErr of
             Some e \<Rightarrow>
               (case closeEndpoints env (countFailure st1) w1 of
                  (st2, w2) \<Rightarrow>
                    (case retryOrStop env c e (ErrWriteAt (csOffset st2) e) st2 w2 of
                       (Some e', st3, w3) \<Rightarrow> (Inl e', st3, w3)
                     | (None, st3, w3) \<Rightarrow> (Inr written', st3, w3)))
           | None \<Rightarrow>
               if n = 0 then (Inl ErrNoProgress, st1, w1)
               else writeLoop env c base buf written' st1 w1))"
  by pat_completeness auto
termination by (relation "measure (\<lambda>(env, c, base, buf, written, st, w). length buf - written)") auto

declare writeLoop.simps [simp del]

text \<open>One round of the outer loop: \<open>Inl\<close> leaves \<open>Copy\<close>, \<open>Inr\<close> goes on with the next round.\<close>

definition afterRead ::
  "'w copy_env \<Rightarrow> CopyConfig \<Rightarrow> nat \<Rightarrow> copy_error option \<Rightarrow> copy_state \<Rightarrow> 'w \<Rightarrow> (copy_error + unit) \<times> copy_state \<times> 'w" where
  "afterRead env c n readErr st w =
     (case readErr of
        Some e \<Rightarrow>
          if e \<noteq> ErrReadEOF then
            (case closeEndpoints env (countFailure st) w of
               (st1, w1) \<Rightarrow>
                 (case retryOrStop env c e (ErrReadAt (csOffset st1) e) st1 w1 of
                    (Some e', st2, w2) \<Rightarrow> (Inl e', st2, w2)
                  | (None, st2, w2) \<Rightarrow> (Inr (), st2, w2)))
          else if n = 0 then (Inl (ErrSourceEnded (csOffset st) (ccSize c)), st, w)
          else (Inr (), st, w)
      | None \<Rightarrow> if n = 0 then (Inl ErrNoProgress, st, w) else (Inr (), st, w))"

definition transferChunk ::
  "'w copy_env \<Rightarrow> CopyConfig \<Rightarrow> copy_state \<Rightarrow> 'w \<Rightarrow> (copy_error + unit) \<times> copy_state \<times> 'w" where
  "transferChunk env c st w =
     (let base = csOffset st;
          want = min (nat (ccChunkBytes c)) (nat (ccSize c) - base) in
      case ceReadAt env want base w of
        ((buf, readErr), w1) \<Rightarrow>
          if buf = [] then afterRead env c 0 readErr st w1
          else case writeLoop env c base buf 0 st w1 of
            (Inl e, st2, w2) \<Rightarrow> (Inl e, st2, w2)
          | (Inr written, st2, w2) \<Rightarrow>
              if written < length buf then (Inr (), st2, w2)
              else afterRead env c (length buf) readErr st2 w2)"

definition copyRound ::
  "'w copy_env \<Rightarrow> CopyConfig \<Rightarrow> copy_state \<Rightarrow> 'w \<Rightarrow> (copy_error + unit) \<times> copy_state \<times> 'w" where
  "copyRound env c st w =
     (case ceCtxErr env w of
        (Some e, w1) \<Rightarrow> (Inl e, st, w1)
      | (None, w1) \<Rightarrow>
          if csOpen st then transferChunk env c st w1
          else case openEndpoints env st w1 of
            (None, st2, w2) \<Rightarrow> transferChunk env c st2 w2
          | (Some e, st2, w2) \<Rightarrow>
              (case retryOrStop env c e e (countFailure st2) w2 of
                 (Some e', st3, w3) \<Rightarrow> (Inl e', st3, w3)
               | (None, st3, w3) \<Rightarrow> (Inr (), st3, w3)))"

section \<open>The copy ends\<close>

text \<open>
  Every round that goes on has written something or has used up one of the attempts at its offset.
\<close>

definition progress :: "CopyConfig \<Rightarrow> copy_state \<Rightarrow> copy_state \<Rightarrow> bool" where
  "progress c st st' =
     (csOffset st < csOffset st' \<or> csOffset st' = csOffset st \<and> csTries st < csTries st' \<and> int (csTries st') < ccMaxAttempts c)"

lemma retryOrStop_None:
  "retryOrStop env c e x st w = (None, st', w') \<Longrightarrow>
     csOffset st' = csOffset st \<and> csTries st' = csTries st \<and> int (csTries st) < ccMaxAttempts c"
  by (auto simp: retryOrStop_def split: if_splits prod.splits option.splits)

lemma writeLoop_Inr:
  assumes "writeLoop env c base buf written st w = (Inr n, st', w')" "csOffset st = base + written" "0 < length buf"
  shows "csOffset st' = base + n \<and> written \<le> n \<and> (n = written \<and> written < length buf \<longrightarrow> csTries st' = csTries st + 1 \<and> int (csTries st') < ccMaxAttempts c)"
  using assms
proof (induction env c base buf written st w arbitrary: n st' w' rule: writeLoop.induct)
  case (1 env c base buf written st w)
  show ?case
  proof (cases "length buf \<le> written")
    case True
    then show ?thesis using 1(2,3) by (simp add: writeLoop.simps)
  next
    case False
    obtain k err w1 where wr: "ceWriteAt env (drop written buf) (base + written) w = ((k, err), w1)"
      by (metis prod.collapse)
    define st1 where "st1 = recordWritten c (base + (written + k)) k st"
    have st1: "csOffset st1 = base + (written + k)" "k = 0 \<Longrightarrow> st1 = st"
      using 1(3) by (auto simp: st1_def recordWritten_def Let_def)
    show ?thesis
    proof (cases err)
      case None
      then have k: "k \<noteq> 0" and r: "writeLoop env c base buf (written + k) st1 w1 = (Inr n, st', w')"
        using 1(2) wr False by (auto simp: writeLoop.simps [of env c base buf written] st1_def Let_def split: if_splits)
      have "csOffset st' = base + n \<and> written + k \<le> n"
        using 1(1) [OF False wr [symmetric] refl refl st1_def None k r st1(1) 1(4)] by simp
      then show ?thesis using k by simp
    next
      case (Some e)
      then obtain st3 w3 where r: "retryOrStop env c e (ErrWriteAt (csOffset (fst (closeEndpoints env (countFailure st1) w1))) e)
          (fst (closeEndpoints env (countFailure st1) w1)) (snd (closeEndpoints env (countFailure st1) w1)) = (None, st3, w3)"
          and n: "n = written + k" "st' = st3"
        using 1(2) wr False
        by (auto simp: writeLoop.simps [of env c base buf written] st1_def Let_def split: prod.splits option.splits)
      then show ?thesis using retryOrStop_None [OF r] st1
        by (auto simp: closeEndpoints_def countFailure_def)
    qed
  qed
qed

lemma afterRead_Inr:
  assumes "afterRead env c n readErr st w = (Inr (), st', w')"
  shows "csOffset st' = csOffset st \<and> (n = 0 \<longrightarrow> csTries st' = csTries st + 1 \<and> int (csTries st') < ccMaxAttempts c)"
proof (cases "\<exists>e. readErr = Some e \<and> e \<noteq> ErrReadEOF")
  case True
  then obtain e where e: "readErr = Some e" "e \<noteq> ErrReadEOF" by blast
  then obtain st2 w2 where r: "retryOrStop env c e (ErrReadAt (csOffset (fst (closeEndpoints env (countFailure st) w))) e)
      (fst (closeEndpoints env (countFailure st) w)) (snd (closeEndpoints env (countFailure st) w)) = (None, st2, w2)" "st' = st2"
    using assms by (auto simp: afterRead_def split: prod.splits option.splits)
  then show ?thesis using retryOrStop_None [OF r(1)] by (auto simp: closeEndpoints_def countFailure_def)
next
  case False
  then show ?thesis using assms by (auto simp: afterRead_def split: option.splits if_splits)
qed

lemma transferChunk_progress:
  assumes "transferChunk env c st w = (Inr (), st', w')"
  shows "progress c st st'"
proof -
  let ?want = "min (nat (ccChunkBytes c)) (nat (ccSize c) - csOffset st)"
  obtain buf readErr w1 where rd: "ceReadAt env ?want (csOffset st) w = ((buf, readErr), w1)"
    by (metis prod.collapse)
  show ?thesis
  proof (cases "buf = []")
    case True
    then have "afterRead env c 0 readErr st w1 = (Inr (), st', w')"
      using assms rd by (simp add: transferChunk_def Let_def)
    then show ?thesis using afterRead_Inr by (fastforce simp: progress_def)
  next
    case False
    then obtain n st2 w2 where wl: "writeLoop env c (csOffset st) buf 0 st w1 = (Inr n, st2, w2)"
        and r: "if n < length buf then st' = st2 else afterRead env c (length buf) readErr st2 w2 = (Inr (), st', w')"
      using assms rd by (auto simp: transferChunk_def Let_def split: prod.splits sum.splits if_splits)
    note p = writeLoop_Inr [OF wl]
    show ?thesis
    proof (cases "n < length buf")
      case True
      then show ?thesis using r p False by (auto simp: progress_def)
    next
      case nl: False
      then have "csOffset st' = csOffset st2" using r afterRead_Inr by fastforce
      moreover have "0 < n" using False nl by (cases n) auto
      moreover have "csOffset st2 = csOffset st + n" using p False by simp
      ultimately show ?thesis by (simp add: progress_def)
    qed
  qed
qed

lemma copyRound_progress:
  assumes "copyRound env c st w = (Inr (), st', w')"
  shows "progress c st st'"
proof -
  obtain w1 where ctx: "ceCtxErr env w = (None, w1)"
    using assms by (auto simp: copyRound_def split: prod.splits option.splits)
  show ?thesis
  proof (cases "csOpen st")
    case True
    then show ?thesis using assms ctx transferChunk_progress by (auto simp: copyRound_def)
  next
    case False
    obtain err st2 w2 where op: "openEndpoints env st w1 = (err, st2, w2)" by (metis prod.collapse)
    then have st2: "csOffset st2 = csOffset st" "csTries st2 = csTries st"
      by (auto simp: openEndpoints_def split: prod.splits option.splits)
    show ?thesis
    proof (cases err)
      case None
      then have "progress c st2 st'" using assms ctx False op transferChunk_progress by (auto simp: copyRound_def)
      then show ?thesis using st2 by (simp add: progress_def)
    next
      case (Some e)
      then obtain w3 where "retryOrStop env c e e (countFailure st2) w2 = (None, st', w3)"
        using assms ctx False op by (auto simp: copyRound_def split: prod.splits option.splits)
      then show ?thesis using retryOrStop_None st2 by (fastforce simp: progress_def countFailure_def)
    qed
  qed
qed

function copyLoop :: "'w copy_env \<Rightarrow> CopyConfig \<Rightarrow> copy_state \<Rightarrow> 'w \<Rightarrow> copy_error option \<times> copy_state \<times> 'w" where
  "copyLoop env c st w =
     (if int (csOffset st) < ccSize c then
        (case copyRound env c st w of
           (Inl e, st', w') \<Rightarrow> (Some e, st', w')
         | (Inr u, st', w') \<Rightarrow> copyLoop env c st' w')
      else (None, st, w))"
  by pat_completeness auto
termination
  by (relation "measures [\<lambda>(env, c, st, w). nat (ccSize c) - csOffset st, \<lambda>(env, c, st, w). nat (ccMaxAttempts c) - csTries st]")
     (auto simp: progress_def dest!: sym [THEN copyRound_progress [where st' = "fst q" and w' = "snd q" for q, simplified]])

declare copyLoop.simps [simp del]

definition startState :: "CopyConfig \<Rightarrow> copy_state" where
  "startState c =
     \<lparr>csOffset = 0, csDelay = ccMinRetryDelay c, csTries = 0, csOpen = False,
      csResult = \<lparr>rsBytes = 0, rsAttempts = 0, rsGenerationOpens = 0\<rparr>, csCheckpoints = []\<rparr>"

definition Copy :: "'w copy_env \<Rightarrow> CopyConfig \<Rightarrow> 'w \<Rightarrow> copy_error option \<times> copy_state \<times> 'w" where
  "Copy env c0 w =
     (if ccSize c0 < 0 then (Some ErrCopyConfig, startState c0, w)
      else
      let c = configDefaults c0 in
      if 4194304 < ccChunkBytes c then (Some ErrChunkTooLarge, startState c, w)
      else if ccSize c = 0 then (None, startState c, w)
      else case copyLoop env c (startState c) w of
        (e, st, w') \<Rightarrow> (case closeEndpoints env st w' of (st', w'') \<Rightarrow> (e, st', w'')))"

section \<open>What is below the offset is copied\<close>

text \<open>\<open>content w\<close> is the destination: the byte at each offset.\<close>

definition copy_laws :: "'w copy_env \<Rightarrow> ('w \<Rightarrow> nat \<Rightarrow> byte) \<Rightarrow> bytes \<Rightarrow> bool" where
  "copy_laws env content source =
     ((\<forall>want base w buf e w'. ceReadAt env want base w = ((buf, e), w') \<longrightarrow>
         length buf \<le> want \<and> buf = take (length buf) (drop base source) \<and> content w' = content w)
      \<and> (\<forall>buf off w n e w'. ceWriteAt env buf off w = ((n, e), w') \<longrightarrow>
         n \<le> length buf \<and> content w' = (\<lambda>i. if off \<le> i \<and> i < off + n then buf ! (i - off) else content w i))
      \<and> (\<forall>w. content (snd (ceOpenReader env w)) = content w) \<and> (\<forall>w. content (snd (ceOpenWriter env w)) = content w)
      \<and> (\<forall>w. content (ceClose env w) = content w) \<and> (\<forall>w. content (snd (ceCtxErr env w)) = content w)
      \<and> (\<forall>d w. content (snd (ceWait env d w)) = content w))"

lemma copy_laws_read:
  "copy_laws env content source \<Longrightarrow> ceReadAt env want base w = ((buf, e), w') \<Longrightarrow>
     length buf \<le> want \<and> buf = take (length buf) (drop base source) \<and> content w' = content w"
  unfolding copy_laws_def by blast

lemma copy_laws_write:
  "copy_laws env content source \<Longrightarrow> ceWriteAt env buf off w = ((n, e), w') \<Longrightarrow>
     n \<le> length buf \<and> content w' = (\<lambda>i. if off \<le> i \<and> i < off + n then buf ! (i - off) else content w i)"
  unfolding copy_laws_def by blast

definition copy_inv :: "CopyConfig \<Rightarrow> bytes \<Rightarrow> copy_state \<Rightarrow> (nat \<Rightarrow> byte) \<Rightarrow> bool" where
  "copy_inv c source st dest =
     (csOffset st \<le> length source \<and> int (csOffset st) \<le> ccSize c \<and> rsBytes (csResult st) = csOffset st
      \<and> (\<forall>i < csOffset st. dest i = source ! i)
      \<and> (if csCheckpoints st = [] then csOffset st = 0 else ckOffset (last (csCheckpoints st)) = csOffset st))"

lemma copy_inv_cong:
  "csOffset st' = csOffset st \<Longrightarrow> rsBytes (csResult st') = rsBytes (csResult st) \<Longrightarrow> csCheckpoints st' = csCheckpoints st
   \<Longrightarrow> copy_inv c source st' dest = copy_inv c source st dest"
  by (simp add: copy_inv_def)

lemma copy_inv_other [simp]:
  "copy_inv c source (countFailure st) dest = copy_inv c source st dest"
  "copy_inv c source (st\<lparr>csOpen := b\<rparr>) dest = copy_inv c source st dest"
  "copy_inv c source (st\<lparr>csDelay := d\<rparr>) dest = copy_inv c source st dest"
  by (rule copy_inv_cong; simp add: countFailure_def)+

lemma retryOrStop_inv:
  assumes "copy_laws env content source" "retryOrStop env c e x st w = (r, st', w')"
  shows "copy_inv k source st' (content w') = copy_inv k source st (content w)"
proof -
  have "content (snd (ceWait env (csDelay st) w)) = content w" using assms(1) by (simp add: copy_laws_def)
  then show ?thesis using assms(2) by (auto simp: retryOrStop_def split: if_splits prod.splits option.splits)
qed

lemma closeEndpoints_inv:
  assumes "copy_laws env content source"
  shows "copy_inv k source (fst (closeEndpoints env st w)) (content (snd (closeEndpoints env st w))) = copy_inv k source st (content w)"
  using assms by (simp add: closeEndpoints_def copy_laws_def)

lemma failed_inv:
  assumes "copy_laws env content source"
    "retryOrStop env c e x (fst (closeEndpoints env (countFailure st) w)) (snd (closeEndpoints env (countFailure st) w)) = (r, st', w')"
  shows "copy_inv k source st' (content w') = copy_inv k source st (content w)"
  using retryOrStop_inv [OF assms] closeEndpoints_inv [OF assms(1)] by simp

lemma openEndpoints_inv:
  assumes "copy_laws env content source" "openEndpoints env st w = (r, st', w')"
  shows "copy_inv k source st' (content w') = copy_inv k source st (content w)"
proof -
  have o: "content (snd (ceOpenReader env v)) = content v" "content (snd (ceOpenWriter env v)) = content v"
      "content (ceClose env v) = content v" for v
    using assms(1) by (simp_all add: copy_laws_def)
  have "content w' = content w"
    using assms(2) o(1) [of w] o(2) [of "snd (ceOpenReader env w)"] o(3)
    by (auto simp: openEndpoints_def split: prod.splits option.splits)
  moreover have "csOffset st' = csOffset st" "rsBytes (csResult st') = rsBytes (csResult st)" "csCheckpoints st' = csCheckpoints st"
    using assms(2) by (auto simp: openEndpoints_def split: prod.splits option.splits)
  then have "copy_inv k source st' d = copy_inv k source st d" for d by (rule copy_inv_cong)
  ultimately show ?thesis by simp
qed

lemma recordWritten_inv:
  assumes "copy_laws env content source" "ceWriteAt env (drop written buf) (base + written) w = ((n, e), w')"
    "buf = take (length buf) (drop base source)" "int (base + length buf) \<le> ccSize c" "base \<le> length source"
    "csOffset st = base + written" "written \<le> length buf" "copy_inv c source st (content w)"
  shows "copy_inv c source (recordWritten c (base + (written + n)) n st) (content w')" "n \<le> length buf - written"
proof -
  have w': "content w' = (\<lambda>i. if base + written \<le> i \<and> i < base + written + n then drop written buf ! (i - (base + written)) else content w i)"
      and n: "n \<le> length buf - written"
    using copy_laws_write [OF assms(1,2)] by simp_all
  show "n \<le> length buf - written" by (rule n)
  have len: "base + length buf \<le> length source"
    using arg_cong [OF assms(3), of length] assms(5) by simp
  have "drop written buf ! (i - (base + written)) = source ! i" if "base + written \<le> i" "i < base + written + n" for i
    by (subst assms(3)) (use that n assms(7) len in simp)
  then have "\<forall>i < base + (written + n). content w' i = source ! i"
    using assms(6,8) unfolding w' by (auto simp: copy_inv_def)
  then show "copy_inv c source (recordWritten c (base + (written + n)) n st) (content w')"
    using assms(4,6,7,8) n len by (cases "n = 0") (auto simp: copy_inv_def recordWritten_def Let_def)
qed

lemma writeLoop_inv:
  assumes "writeLoop env c base buf written st w = (r, st', w')" "copy_laws env content source"
    "buf = take (length buf) (drop base source)" "int (base + length buf) \<le> ccSize c" "base \<le> length source"
    "csOffset st = base + written" "written \<le> length buf" "copy_inv c source st (content w)"
  shows "copy_inv c source st' (content w')"
  using assms
proof (induction env c base buf written st w arbitrary: r st' w' rule: writeLoop.induct)
  case (1 env c base buf written st w)
  show ?case
  proof (cases "length buf \<le> written")
    case True
    then show ?thesis using 1(2,9) by (simp add: writeLoop.simps)
  next
    case False
    obtain k err w1 where wr: "ceWriteAt env (drop written buf) (base + written) w = ((k, err), w1)"
      by (metis prod.collapse)
    define st1 where "st1 = recordWritten c (base + (written + k)) k st"
    have inv1: "copy_inv c source st1 (content w1)" and k: "k \<le> length buf - written"
      using recordWritten_inv [OF 1(3) wr 1(4-9)] by (simp_all add: st1_def)
    have off: "csOffset st1 = base + (written + k)"
      using 1(7) by (auto simp: st1_def recordWritten_def Let_def)
    show ?thesis
    proof (cases err)
      case (Some e)
      then obtain q where "retryOrStop env c e (ErrWriteAt (csOffset (fst (closeEndpoints env (countFailure st1) w1))) e)
          (fst (closeEndpoints env (countFailure st1) w1)) (snd (closeEndpoints env (countFailure st1) w1)) = (q, st', w')"
        using 1(2) wr False
        by (auto simp: writeLoop.simps [of env c base buf written] st1_def Let_def split: prod.splits option.splits)
      from failed_inv [OF 1(3) this] inv1 show ?thesis by simp
    next
      case None
      show ?thesis
      proof (cases "k = 0")
        case True
        then show ?thesis using 1(2) wr False None inv1
          by (auto simp: writeLoop.simps [of env c base buf written] st1_def Let_def)
      next
        case nz: False
        have "writeLoop env c base buf (written + k) st1 w1 = (r, st', w')"
          using 1(2) wr False None nz by (simp add: writeLoop.simps [of env c base buf written] st1_def Let_def)
        then show ?thesis
          using 1(1) [OF False wr [symmetric] refl refl st1_def None nz _ 1(3-6) off _ inv1] k False by simp
      qed
    qed
  qed
qed

lemma afterRead_inv:
  assumes "copy_laws env content source" "afterRead env c n readErr st w = (r, st', w')" "copy_inv c source st (content w)"
  shows "copy_inv c source st' (content w')"
proof (cases "\<exists>e. readErr = Some e \<and> e \<noteq> ErrReadEOF")
  case True
  then obtain e where e: "readErr = Some e" "e \<noteq> ErrReadEOF" by blast
  then obtain q where "retryOrStop env c e (ErrReadAt (csOffset (fst (closeEndpoints env (countFailure st) w))) e)
      (fst (closeEndpoints env (countFailure st) w)) (snd (closeEndpoints env (countFailure st) w)) = (q, st', w')"
    using assms(2) by (auto simp: afterRead_def split: prod.splits option.splits)
  from failed_inv [OF assms(1) this] assms(3) show ?thesis by simp
next
  case False
  then show ?thesis using assms(2,3) by (auto simp: afterRead_def split: option.splits if_splits)
qed

lemma transferChunk_inv:
  assumes "copy_laws env content source" "transferChunk env c st w = (r, st', w')" "copy_inv c source st (content w)"
    "int (csOffset st) < ccSize c"
  shows "copy_inv c source st' (content w')"
proof -
  let ?want = "min (nat (ccChunkBytes c)) (nat (ccSize c) - csOffset st)"
  obtain buf readErr w1 where rd: "ceReadAt env ?want (csOffset st) w = ((buf, readErr), w1)"
    by (metis prod.collapse)
  have b: "length buf \<le> ?want" "buf = take (length buf) (drop (csOffset st) source)" "content w1 = content w"
    using copy_laws_read [OF assms(1) rd] by simp_all
  have sz: "int (csOffset st + length buf) \<le> ccSize c" "csOffset st \<le> length source"
    using b(1) assms(3,4) by (auto simp: copy_inv_def)
  have inv1: "copy_inv c source st (content w1)" using assms(3) b(3) by simp
  show ?thesis
  proof (cases "buf = []")
    case True
    then show ?thesis using assms(2) rd afterRead_inv [OF assms(1) _ inv1] by (simp add: transferChunk_def Let_def)
  next
    case False
    obtain x st2 w2 where wl: "writeLoop env c (csOffset st) buf 0 st w1 = (x, st2, w2)" by (metis prod.collapse)
    have inv2: "copy_inv c source st2 (content w2)"
      by (rule writeLoop_inv [OF wl assms(1) b(2) sz _ _ inv1]) simp_all
    show ?thesis using assms(2) rd wl False inv2 afterRead_inv [OF assms(1) _ inv2]
      by (auto simp: transferChunk_def Let_def split: sum.splits if_splits)
  qed
qed

lemma copyRound_inv:
  assumes "copy_laws env content source" "copyRound env c st w = (r, st', w')" "copy_inv c source st (content w)"
    "int (csOffset st) < ccSize c"
  shows "copy_inv c source st' (content w')"
proof -
  obtain x w1 where ctx: "ceCtxErr env w = (x, w1)" by fastforce
  have "content (snd (ceCtxErr env w)) = content w" using assms(1) by (simp add: copy_laws_def)
  then have "content w1 = content w" using ctx by simp
  then have inv1: "copy_inv c source st (content w1)" using assms(3) by simp
  obtain y st2 w2 where op: "openEndpoints env st w1 = (y, st2, w2)" by (metis prod.collapse)
  have inv2: "copy_inv c source st2 (content w2)" using openEndpoints_inv [OF assms(1) op] inv1 by simp
  have off: "int (csOffset st2) < ccSize c"
    using op assms(4) by (auto simp: openEndpoints_def split: prod.splits option.splits)
  consider e where "x = Some e" | "x = None" "csOpen st" | "x = None" "\<not> csOpen st" "y = None" | e where "x = None" "\<not> csOpen st" "y = Some e"
    by (cases x; cases y) auto
  then show ?thesis
  proof cases
    case 1
    then show ?thesis using assms(2) ctx inv1 by (auto simp: copyRound_def)
  next
    case 2
    then have "transferChunk env c st w1 = (r, st', w')" using assms(2) ctx by (simp add: copyRound_def)
    then show ?thesis by (rule transferChunk_inv [OF assms(1) _ inv1 assms(4)])
  next
    case 3
    then have "transferChunk env c st2 w2 = (r, st', w')" using assms(2) ctx op by (simp add: copyRound_def)
    then show ?thesis by (rule transferChunk_inv [OF assms(1) _ inv2 off])
  next
    case 4
    then obtain z where "retryOrStop env c e e (countFailure st2) w2 = (z, st', w')"
      using assms(2) ctx op by (auto simp: copyRound_def split: prod.splits option.splits)
    then show ?thesis using retryOrStop_inv [OF assms(1)] inv2 by simp
  qed
qed

lemma copyLoop_inv:
  assumes "copyLoop env c st w = (e, st', w')" "copy_laws env content source" "copy_inv c source st (content w)"
  shows "copy_inv c source st' (content w') \<and> (e = None \<longrightarrow> ccSize c \<le> int (csOffset st'))"
  using assms
proof (induction env c st w arbitrary: e st' w' rule: copyLoop.induct)
  case (1 env c st w)
  show ?case
  proof (cases "int (csOffset st) < ccSize c")
    case False
    then show ?thesis using 1(2,4) by (auto simp: copyLoop.simps [of env c st w])
  next
    case True
    obtain r st1 w1 where rd: "copyRound env c st w = (r, st1, w1)" by (metis prod.collapse)
    have inv1: "copy_inv c source st1 (content w1)" by (rule copyRound_inv [OF 1(3) rd 1(4) True])
    show ?thesis
    proof (cases r)
      case (Inl e')
      then show ?thesis using 1(2) True rd inv1 by (auto simp: copyLoop.simps [of env c st w])
    next
      case (Inr u)
      then have "copyLoop env c st1 w1 = (e, st', w')" using 1(2) True rd by (simp add: copyLoop.simps [of env c st w])
      then show ?thesis using 1(1) [OF True rd [symmetric] Inr refl _ 1(3) inv1] by simp
    qed
  qed
qed

text \<open>
  C35: However often endpoints fail and are reopened, \<open>Copy\<close> returns with the bytes below its offset copied to
  the destination, the number of bytes in the result and the last checkpoint at that offset; without an
  error the offset is the declared size.
\<close>

theorem copy_resumes:
  assumes "copy_laws env content source" "0 \<le> ccSize c" "Copy env c w = (e, st, w')"
  shows "take (csOffset st) (map (content w') [0..<csOffset st]) = take (csOffset st) source
    \<and> csOffset st \<le> length source \<and> rsBytes (csResult st) = csOffset st \<and> int (csOffset st) \<le> ccSize c
    \<and> (if csCheckpoints st = [] then csOffset st = 0 else ckOffset (last (csCheckpoints st)) = csOffset st)
    \<and> (e = None \<longrightarrow> int (csOffset st) = ccSize c)"
proof -
  let ?c = "configDefaults c"
  have size: "ccSize ?c = ccSize c" by (simp add: configDefaults_def)
  have start: "copy_inv ?c source (startState ?c) d" for d
    using assms(2) size by (simp add: copy_inv_def startState_def)
  have "copy_inv ?c source st (content w') \<and> (e = None \<longrightarrow> ccSize c \<le> int (csOffset st))"
  proof (cases "4194304 < ccChunkBytes ?c \<or> ccSize ?c = 0")
    case True
    then show ?thesis using assms(2,3) start size by (auto simp: Copy_def Let_def startState_def split: if_splits)
  next
    case False
    obtain e1 st1 w1 where run: "copyLoop env ?c (startState ?c) w = (e1, st1, w1)" by (metis prod.collapse)
    have r: "e = e1" "st = fst (closeEndpoints env st1 w1)" "w' = snd (closeEndpoints env st1 w1)"
      using assms(2,3) False run by (auto simp: Copy_def Let_def split: prod.splits)
    have "copy_inv ?c source st1 (content w1) \<and> (e1 = None \<longrightarrow> ccSize ?c \<le> int (csOffset st1))"
      by (rule copyLoop_inv [OF run assms(1) start])
    then show ?thesis using closeEndpoints_inv [OF assms(1)] size unfolding r
      by (auto simp: closeEndpoints_def)
  qed
  then show ?thesis using size by (auto simp: copy_inv_def intro!: nth_equalityI)
qed

section \<open>A run with failures\<close>

text \<open>
  The world is the destination and the outcomes of the next writes: at most that many bytes, then a
  failure if the flag is set.
\<close>

type_synonym demo_world = "bytes \<times> (nat \<times> bool) list"

definition demo_byte :: "bytes \<Rightarrow> nat \<Rightarrow> byte" where
  "demo_byte dest i = (if i < length dest then dest ! i else 0)"

definition demo_content :: "demo_world \<Rightarrow> nat \<Rightarrow> byte" where
  "demo_content w = demo_byte (fst w)"

definition demo_put :: "bytes \<Rightarrow> nat \<Rightarrow> bytes \<Rightarrow> bytes" where
  "demo_put buf off dest = map (\<lambda>i. if off \<le> i \<and> i < off + length buf then buf ! (i - off) else demo_byte dest i)
     [0..<max (length dest) (off + length buf)]"

definition demo_copy :: "bytes \<Rightarrow> demo_world copy_env" where
  "demo_copy source =
     \<lparr>ceOpenReader = (\<lambda>w. (None, w)), ceOpenWriter = (\<lambda>w. (None, w)),
      ceReadAt = (\<lambda>want base w. ((take want (drop base source), None), w)),
      ceWriteAt = (\<lambda>buf off w. case snd w of
          [] \<Rightarrow> ((length buf, None), (demo_put buf off (fst w), []))
        | (n, bad) # ws \<Rightarrow> ((min n (length buf), if bad then Some (ErrEndpoint []) else None), (demo_put (take n buf) off (fst w), ws))),
      ceClose = (\<lambda>w. w), ceCtxErr = (\<lambda>w. (None, w)), ceWait = (\<lambda>d w. (None, w))\<rparr>"

lemma demo_put_byte: "demo_byte (demo_put buf off dest) i = (if off \<le> i \<and> i < off + length buf then buf ! (i - off) else demo_byte dest i)"
  by (auto simp: demo_byte_def demo_put_def)

lemma demo_copy_laws: "copy_laws (demo_copy source) demo_content source"
  by (auto simp: copy_laws_def demo_copy_def demo_content_def demo_put_byte min_def fun_eq_iff split: list.splits)

definition demo_config :: CopyConfig where
  "demo_config = \<lparr>ccSize = 3, ccChunkBytes = 2, ccMaxAttempts = 3, ccMinRetryDelay = 1, ccMaxRetryDelay = 4, ccRetry = (\<lambda>_. True)\<rparr>"

definition demo_end :: copy_state where
  "demo_end =
     \<lparr>csOffset = 3, csDelay = 1, csTries = 0, csOpen = False, csResult = \<lparr>rsBytes = 3, rsAttempts = 2, rsGenerationOpens = 3\<rparr>,
      csCheckpoints = [\<lparr>ckOffset = 1, ckSize = 3, ckAttempts = 0, ckGenerationOpens = 1\<rparr>,
        \<lparr>ckOffset = 3, ckSize = 3, ckAttempts = 2, ckGenerationOpens = 3\<rparr>]\<rparr>"

theorem copy_resumes_witness:
  "Copy (demo_copy [7, 8, 9]) demo_config ([], [(1, True), (0, True)]) = (None, demo_end, ([7, 8, 9], []))
   \<and> take (csOffset demo_end) (map (demo_content ([7, 8, 9], [])) [0..<csOffset demo_end]) = take (csOffset demo_end) [7, 8, 9]
   \<and> int (csOffset demo_end) = ccSize demo_config"
proof -
  have run: "Copy (demo_copy [7, 8, 9]) demo_config ([], [(1, True), (0, True)]) = (None, demo_end, ([7, 8, 9], []))"
    by code_simp
  have size: "0 \<le> ccSize demo_config" by (simp add: demo_config_def)
  show ?thesis using run copy_resumes [OF demo_copy_laws size run] by simp
qed

end
