(* ===== verification/Auth_Forward.thy ===== *)
theory Auth_Forward
  imports Auth_Config Wv_Net
begin

text \<open>
  The policy for native SSH forwarding of \<open>authproof/native_forwarding.go\<close>: which \<open>-L\<close>, \<open>-R\<close> or \<open>-D\<close>
  adapter may be rendered, with loopback endpoints, hardened options and a signed-proof
  configuration.

  Shown: arguments are rendered only for loopback endpoints with valid ports under a required proof of
  sufficient level, provided the mode has no blanks around it. With blanks the mode is accepted but no
  endpoint is checked.
\<close>

section \<open>Modes and levels\<close>

abbreviation NativeForwardSSHLocal :: string where "NativeForwardSSHLocal \<equiv> ''sshL''"
abbreviation NativeForwardSSHRemote :: string where "NativeForwardSSHRemote \<equiv> ''sshR''"
abbreviation NativeForwardSSHDynamic :: string where "NativeForwardSSHDynamic \<equiv> ''sshD''"

record NativeForwardingPolicy =
  nfMode :: string
  nfRole :: string
  nfLocalBind :: string
  nfLocalPort :: int
  nfRemoteBind :: string
  nfRemotePort :: int
  nfTargetHost :: string
  nfTargetPort :: int
  nfExitOnForwardFailure :: bool
  nfClearAllForwardings :: bool
  nfGatewayPortsDisabled :: bool
  nfPermitLocalCommandNo :: bool
  nfForwardAgentDisabled :: bool
  nfForwardX11Disabled :: bool
  nfIdentitiesOnly :: bool
  nfStrictHostKey :: bool
  nfEndpointRestricted :: bool
  nfLifecycleAudited :: bool
  nfWeaversshEndpoint :: bool
  nfAuthorityMaterialOnRemoteHost :: bool
  nfProof :: RuntimeConfig

definition NativeForwardingRequiredCapabilities :: "string \<Rightarrow> string list" where
  "NativeForwardingRequiredCapabilities mode =
     (if TrimSpace mode \<in> {NativeForwardSSHLocal, NativeForwardSSHRemote} then [CapabilityWebSocketUpgrade, CapabilityX11Relay]
      else if TrimSpace mode = NativeForwardSSHDynamic then [CapabilitySocksProxy]
      else [])"

definition NativeForwardingRoleForMode :: "string \<Rightarrow> string" where
  "NativeForwardingRoleForMode mode =
     (if TrimSpace mode = NativeForwardSSHLocal then ''auxiliaryLoopbackBridge''
      else if TrimSpace mode = NativeForwardSSHRemote then ''managedBackhaul''
      else if TrimSpace mode = NativeForwardSSHDynamic then ''bootstrapProbe''
      else [])"

definition SecurityLevelRank :: "string \<Rightarrow> int" where
  "SecurityLevelRank level =
     (let l = NormalizeSecurityLevel level in
      if l = SecurityLevelCompat then 0
      else if l = SecurityLevelSameUID then 1
      else if l = SecurityLevelX11Cookie then 2
      else if l = SecurityLevelAgentProof then 3
      else if l = SecurityLevelStrict then 4
      else - 1)"

definition SecurityLevelAtLeast :: "string \<Rightarrow> string \<Rightarrow> bool" where
  "SecurityLevelAtLeast level minimum =
     (SecurityLevelRank minimum \<le> SecurityLevelRank level \<and> 0 \<le> SecurityLevelRank minimum)"

section \<open>Endpoints\<close>

definition isLoopbackHost :: "string \<Rightarrow> bool" where
  "isLoopbackHost host =
     (let h = TrimCutset (TrimSpace host) ''[]'' in
      EqualFold h ''localhost'' \<or> (case ParseIP h of None \<Rightarrow> False | Some ip \<Rightarrow> IsLoopback ip))"

definition requireLoopbackEndpoint :: "string \<Rightarrow> int \<Rightarrow> auth_error option" where
  "requireLoopbackEndpoint host port =
     (if port \<le> 0 \<or> 65535 < port then Some ErrUnsafeNativeForwardingPolicy
      else if \<not> isLoopbackHost host then Some ErrUnsafeNativeForwardingPolicy
      else None)"

definition validateNativeForwardingEndpoints :: "NativeForwardingPolicy \<Rightarrow> auth_error option" where
  "validateNativeForwardingEndpoints p =
     (if nfMode p = NativeForwardSSHLocal then
        (case requireLoopbackEndpoint (nfLocalBind p) (nfLocalPort p) of
           Some e \<Rightarrow> Some e
         | None \<Rightarrow> requireLoopbackEndpoint (nfTargetHost p) (nfTargetPort p))
      else if nfMode p = NativeForwardSSHRemote then
        (case requireLoopbackEndpoint (nfRemoteBind p) (nfRemotePort p) of
           Some e \<Rightarrow> Some e
         | None \<Rightarrow> requireLoopbackEndpoint (nfTargetHost p) (nfTargetPort p))
      else if nfMode p = NativeForwardSSHDynamic then requireLoopbackEndpoint (nfLocalBind p) (nfLocalPort p)
      else None)"

section \<open>Policies\<close>

definition ValidateNativeForwardingProof :: "crypto \<Rightarrow> proof_env \<Rightarrow> string \<Rightarrow> RuntimeConfig \<Rightarrow> auth_error option" where
  "ValidateNativeForwardingProof C E mode cfg =
     (let proof = Config_Normalized cfg in
      if NormalizeProofMode (rcMode proof) \<noteq> ProofModeRequired then Some ErrNativeForwardingProofRequired
      else if \<not> SecurityLevelAtLeast (rcSecurityLevel proof) SecurityLevelAgentProof then Some ErrNativeForwardingProofRequired
      else if rcSubjectPeerID proof = [] \<or> rcAudience proof = [] then Some ErrNativeForwardingProofRequired
      else if rcPublicKey proof = [] \<and> rcPublicKeyFile proof = [] then Some ErrNativeForwardingProofRequired
      else if (case LoadPublicKey E proof of Inl _ \<Rightarrow> True | Inr _ \<Rightarrow> False) then Some ErrNativeForwardingProofRequired
      else if rcChainSHA256 proof = [] \<or> rcChainSHA256 proof = DefaultChainSHA256 C then Some ErrNativeForwardingProofRequired
      else if rcX11CookieSHA256 proof = [] \<and> mode \<noteq> NativeForwardSSHDynamic then Some ErrNativeForwardingProofRequired
      else if \<not> list_all (hasCapability (rcRequiredCapabilities proof)) (NativeForwardingRequiredCapabilities mode)
        then Some ErrNativeForwardingProofRequired
      else None)"

definition hardened :: "NativeForwardingPolicy \<Rightarrow> bool" where
  "hardened p =
     (nfExitOnForwardFailure p \<and> nfClearAllForwardings p \<and> nfGatewayPortsDisabled p \<and> nfPermitLocalCommandNo p
      \<and> nfForwardAgentDisabled p \<and> nfForwardX11Disabled p \<and> nfIdentitiesOnly p \<and> nfStrictHostKey p
      \<and> nfEndpointRestricted p \<and> nfLifecycleAudited p \<and> nfWeaversshEndpoint p)"

definition ValidateNativeForwardingPolicy :: "crypto \<Rightarrow> proof_env \<Rightarrow> NativeForwardingPolicy \<Rightarrow> auth_error option" where
  "ValidateNativeForwardingPolicy C E p =
     (let mode = TrimSpace (nfMode p) in
      if mode \<noteq> NativeForwardSSHLocal \<and> mode \<noteq> NativeForwardSSHRemote \<and> mode \<noteq> NativeForwardSSHDynamic
        then Some ErrInvalidNativeForwardingMode
      else if TrimSpace (nfRole p) \<noteq> [] \<and> TrimSpace (nfRole p) \<noteq> NativeForwardingRoleForMode mode
        then Some ErrUnsafeNativeForwardingPolicy
      else case validateNativeForwardingEndpoints p of
        Some e \<Rightarrow> Some e
      | None \<Rightarrow>
          if \<not> hardened p then Some ErrUnsafeNativeForwardingPolicy
          else if nfAuthorityMaterialOnRemoteHost p then Some ErrUnsafeNativeForwardingPolicy
          else ValidateNativeForwardingProof C E mode (nfProof p))"

definition TargetPortString :: "NativeForwardingPolicy \<Rightarrow> string" where
  "TargetPortString p = formatInt (nfTargetPort p)"

definition fixedArgs :: "string list" where
  "fixedArgs =
     [''-N'', ''-T'', ''-o'', ''ExitOnForwardFailure=yes'', ''-o'', ''ClearAllForwardings=yes'', ''-o'', ''GatewayPorts=no'',
      ''-o'', ''PermitLocalCommand=no'', ''-o'', ''ForwardAgent=no'', ''-o'', ''ForwardX11=no'', ''-o'', ''IdentitiesOnly=yes'',
      ''-o'', ''StrictHostKeyChecking=yes'']"

definition forwardArgs :: "NativeForwardingPolicy \<Rightarrow> string list" where
  "forwardArgs p =
     (if nfMode p = NativeForwardSSHLocal then
        [''-L'', JoinHostPort (nfLocalBind p) (formatInt (nfLocalPort p)) @ '':'' @ JoinHostPort (nfTargetHost p) (TargetPortString p)]
      else if nfMode p = NativeForwardSSHRemote then
        [''-R'', JoinHostPort (nfRemoteBind p) (formatInt (nfRemotePort p)) @ '':'' @ JoinHostPort (nfTargetHost p) (TargetPortString p)]
      else if nfMode p = NativeForwardSSHDynamic then [''-D'', JoinHostPort (nfLocalBind p) (formatInt (nfLocalPort p))]
      else [])"

definition BuildNativeForwardingOpenSSHArgs ::
  "crypto \<Rightarrow> proof_env \<Rightarrow> string \<Rightarrow> NativeForwardingPolicy \<Rightarrow> auth_error + string list" where
  "BuildNativeForwardingOpenSSHArgs C E remote p =
     (case ValidateNativeForwardingPolicy C E p of
        Some e \<Rightarrow> Inl e
      | None \<Rightarrow>
          if TrimSpace remote = [] then Inl ErrUnsafeNativeForwardingPolicy
          else Inr (fixedArgs @ forwardArgs p @ [TrimSpace remote]))"

section \<open>What an accepted policy forwards\<close>

definition loopback_endpoint :: "string \<Rightarrow> int \<Rightarrow> bool" where
  "loopback_endpoint host port = (isLoopbackHost host \<and> 1 \<le> port \<and> port \<le> 65535)"

lemma requireLoopbackEndpoint_None: "requireLoopbackEndpoint h p = None \<longleftrightarrow> loopback_endpoint h p"
  by (auto simp: requireLoopbackEndpoint_def loopback_endpoint_def)

definition proof_bound :: "crypto \<Rightarrow> proof_env \<Rightarrow> string \<Rightarrow> RuntimeConfig \<Rightarrow> bool" where
  "proof_bound C E mode cfg =
     (Required cfg \<and> NormalizeSecurityLevel (rcSecurityLevel cfg) \<in> {SecurityLevelAgentProof, SecurityLevelStrict}
      \<and> TrimSpace (rcSubjectPeerID cfg) \<noteq> [] \<and> TrimSpace (rcAudience cfg) \<noteq> [] \<and> (\<exists>key. LoadPublicKey E cfg = Inr key)
      \<and> ToLower (TrimSpace (rcChainSHA256 cfg)) \<notin> {[], DefaultChainSHA256 C}
      \<and> (mode = NativeForwardSSHDynamic \<or> TrimSpace (rcX11CookieSHA256 cfg) \<noteq> [])
      \<and> set (NativeForwardingRequiredCapabilities mode) \<subseteq> set (rcRequiredCapabilities (Config_Normalized cfg)))"

lemma SecurityLevelAtLeast_agent:
  "SecurityLevelAtLeast level SecurityLevelAgentProof \<longleftrightarrow> NormalizeSecurityLevel level \<in> {SecurityLevelAgentProof, SecurityLevelStrict}"
proof -
  have "SecurityLevelRank SecurityLevelAgentProof = 3" by code_simp
  then show ?thesis by (auto simp: SecurityLevelAtLeast_def SecurityLevelRank_def Let_def split: if_splits)
qed

lemma capabilities_trimmed: "cap \<in> set (NativeForwardingRequiredCapabilities mode) \<Longrightarrow> TrimSpace cap = cap"
proof -
  have "TrimSpace CapabilityWebSocketUpgrade = CapabilityWebSocketUpgrade" "TrimSpace CapabilityX11Relay = CapabilityX11Relay"
      "TrimSpace CapabilitySocksProxy = CapabilitySocksProxy"
    by code_simp+
  then show "cap \<in> set (NativeForwardingRequiredCapabilities mode) \<Longrightarrow> TrimSpace cap = cap"
    by (auto simp: NativeForwardingRequiredCapabilities_def split: if_splits)
qed

lemma ValidateNativeForwardingProof_None:
  "ValidateNativeForwardingProof C E mode cfg = None \<Longrightarrow> proof_bound C E mode cfg"
proof -
  assume v: "ValidateNativeForwardingProof C E mode cfg = None"
  have caps: "list_all (hasCapability (rcRequiredCapabilities (Config_Normalized cfg))) (NativeForwardingRequiredCapabilities mode)"
    and lvl: "SecurityLevelAtLeast (rcSecurityLevel (Config_Normalized cfg)) SecurityLevelAgentProof"
    and rest: "rcSubjectPeerID (Config_Normalized cfg) \<noteq> []" "rcAudience (Config_Normalized cfg) \<noteq> []"
      "\<not> (case LoadPublicKey E (Config_Normalized cfg) of Inl _ \<Rightarrow> True | Inr _ \<Rightarrow> False)"
      "rcChainSHA256 (Config_Normalized cfg) \<noteq> []" "rcChainSHA256 (Config_Normalized cfg) \<noteq> DefaultChainSHA256 C"
      "rcX11CookieSHA256 (Config_Normalized cfg) \<noteq> [] \<or> mode = NativeForwardSSHDynamic"
      "NormalizeProofMode (rcMode (Config_Normalized cfg)) = ProofModeRequired"
    using v unfolding ValidateNativeForwardingProof_def Let_def by (auto split: if_splits)
  have "set (NativeForwardingRequiredCapabilities mode) \<subseteq> set (rcRequiredCapabilities (Config_Normalized cfg))"
    using caps capabilities_trimmed [of _ mode] by (auto simp: list_all_iff list_ex_iff hasCapability_def simp del: Config_Normalized_sel)
  then show ?thesis
    using lvl rest unfolding proof_bound_def SecurityLevelAtLeast_agent
    by (auto simp: Required_def split: sum.splits)
qed

lemma ValidateNativeForwardingPolicy_None:
  assumes "ValidateNativeForwardingPolicy C E p = None"
  shows "TrimSpace (nfMode p) \<in> {NativeForwardSSHLocal, NativeForwardSSHRemote, NativeForwardSSHDynamic}"
    "validateNativeForwardingEndpoints p = None" "hardened p" "\<not> nfAuthorityMaterialOnRemoteHost p"
    "ValidateNativeForwardingProof C E (TrimSpace (nfMode p)) (nfProof p) = None"
  using assms unfolding ValidateNativeForwardingPolicy_def Let_def by (auto split: if_splits option.splits)

lemma validateEndpoints_None:
  assumes "validateNativeForwardingEndpoints p = None"
  shows "nfMode p = NativeForwardSSHLocal \<Longrightarrow> loopback_endpoint (nfLocalBind p) (nfLocalPort p) \<and> loopback_endpoint (nfTargetHost p) (nfTargetPort p)"
    "nfMode p = NativeForwardSSHRemote \<Longrightarrow> loopback_endpoint (nfRemoteBind p) (nfRemotePort p) \<and> loopback_endpoint (nfTargetHost p) (nfTargetPort p)"
    "nfMode p = NativeForwardSSHDynamic \<Longrightarrow> loopback_endpoint (nfLocalBind p) (nfLocalPort p)"
  using assms by (auto simp: validateNativeForwardingEndpoints_def requireLoopbackEndpoint_None split: option.splits if_splits)

text \<open>An endpoint as OpenSSH reads it.\<close>

abbreviation endpoint_text :: "string \<Rightarrow> int \<Rightarrow> string" where
  "endpoint_text host port \<equiv> JoinHostPort host (formatInt port)"

text \<open>
  C36: Arguments rendered for a mode without blanks around it are the fixed options, one forwarding and the
  remote host. The forwarding is \<open>-L\<close> from the local bind to the target, \<open>-R\<close> from the remote bind to the
  target or \<open>-D\<close> on the local bind, as the mode says, and each endpoint in it is a loopback host with a
  port from 1 to 65535. The policy has every hardening switch set and keeps authority material off the
  remote host, and its proof configuration is required, of a signed level, and bound to peer, audience,
  key, chain and the capabilities of the mode, and except for \<open>-D\<close> also to a cookie.
\<close>

theorem forward_loopback_only:
  assumes "BuildNativeForwardingOpenSSHArgs C E remote p = Inr args" "TrimSpace (nfMode p) = nfMode p"
  shows "(nfMode p = NativeForwardSSHLocal
        \<and> loopback_endpoint (nfLocalBind p) (nfLocalPort p) \<and> loopback_endpoint (nfTargetHost p) (nfTargetPort p)
        \<and> args = fixedArgs @ [''-L'', endpoint_text (nfLocalBind p) (nfLocalPort p) @ '':'' @ endpoint_text (nfTargetHost p) (nfTargetPort p),
            TrimSpace remote]
      \<or> nfMode p = NativeForwardSSHRemote
        \<and> loopback_endpoint (nfRemoteBind p) (nfRemotePort p) \<and> loopback_endpoint (nfTargetHost p) (nfTargetPort p)
        \<and> args = fixedArgs @ [''-R'', endpoint_text (nfRemoteBind p) (nfRemotePort p) @ '':'' @ endpoint_text (nfTargetHost p) (nfTargetPort p),
            TrimSpace remote]
      \<or> nfMode p = NativeForwardSSHDynamic
        \<and> loopback_endpoint (nfLocalBind p) (nfLocalPort p)
        \<and> args = fixedArgs @ [''-D'', endpoint_text (nfLocalBind p) (nfLocalPort p), TrimSpace remote])
    \<and> hardened p \<and> \<not> nfAuthorityMaterialOnRemoteHost p \<and> proof_bound C E (nfMode p) (nfProof p)"
proof -
  have v: "ValidateNativeForwardingPolicy C E p = None" and a: "args = fixedArgs @ forwardArgs p @ [TrimSpace remote]"
    using assms(1) by (auto simp: BuildNativeForwardingOpenSSHArgs_def split: option.splits if_splits)
  note f = ValidateNativeForwardingPolicy_None [OF v, unfolded assms(2)]
  have "forwardArgs p =
      (if nfMode p = NativeForwardSSHLocal then [''-L'', endpoint_text (nfLocalBind p) (nfLocalPort p) @ '':'' @ endpoint_text (nfTargetHost p) (nfTargetPort p)]
       else if nfMode p = NativeForwardSSHRemote then [''-R'', endpoint_text (nfRemoteBind p) (nfRemotePort p) @ '':'' @ endpoint_text (nfTargetHost p) (nfTargetPort p)]
       else [''-D'', endpoint_text (nfLocalBind p) (nfLocalPort p)])"
    using f(1) by (auto simp: forwardArgs_def TargetPortString_def)
  moreover have "hardened p \<and> \<not> nfAuthorityMaterialOnRemoteHost p \<and> proof_bound C E (nfMode p) (nfProof p)"
    using f(3-5) ValidateNativeForwardingProof_None by blast
  ultimately show ?thesis using f(1) a validateEndpoints_None [OF f(2)] by auto
qed

definition padded_mode :: "NativeForwardingPolicy \<Rightarrow> string \<Rightarrow> int \<Rightarrow> string \<Rightarrow> int \<Rightarrow> NativeForwardingPolicy" where
  "padded_mode p b n h m =
     p\<lparr>nfMode := '' sshL'', nfLocalBind := b, nfLocalPort := n, nfTargetHost := h, nfTargetPort := m\<rparr>"

text \<open>
  With a blank in front of the mode every endpoint passes: a policy that is accepted for local
  forwarding stays accepted when its mode is written with the blank and its endpoints are replaced by
  any other, also ones that are not loopback, and no forwarding argument is rendered.
\<close>

theorem padded_mode_unchecked:
  assumes "ValidateNativeForwardingPolicy C E p = None" "nfMode p = NativeForwardSSHLocal"
  shows "ValidateNativeForwardingPolicy C E (padded_mode p b n h m) = None \<and> forwardArgs (padded_mode p b n h m) = []"
proof -
  define q where "q = padded_mode p b n h m"
  note q = q_def padded_mode_def
  have t: "TrimSpace '' sshL'' = NativeForwardSSHLocal" "TrimSpace NativeForwardSSHLocal = NativeForwardSSHLocal" by code_simp+
  note f = ValidateNativeForwardingPolicy_None [OF assms(1), unfolded assms(2) t(2)]
  have "hardened q = hardened p" by (simp add: hardened_def q)
  moreover have "validateNativeForwardingEndpoints q = None" by (simp add: validateNativeForwardingEndpoints_def q)
  moreover have "TrimSpace (nfRole p) = [] \<or> TrimSpace (nfRole p) = NativeForwardingRoleForMode NativeForwardSSHLocal"
    using assms(1,2) t(2) unfolding ValidateNativeForwardingPolicy_def Let_def by (auto split: if_splits)
  ultimately have "ValidateNativeForwardingPolicy C E q = None \<and> forwardArgs q = []" using f
    by (auto simp: ValidateNativeForwardingPolicy_def forwardArgs_def q t)
  then show ?thesis by (simp add: q_def)
qed

section \<open>An accepted policy\<close>

definition demo_forward_config :: RuntimeConfig where
  "demo_forward_config =
     (demo_runtime go_second)\<lparr>rcSecurityLevel := ''strict'', rcRequiredCapabilities := [''x11.relay'', ''websocket.upgrade'']\<rparr>"

definition demo_forward :: NativeForwardingPolicy where
  "demo_forward =
     \<lparr>nfMode = ''sshL'', nfRole = [], nfLocalBind = ''localhost'', nfLocalPort = 60, nfRemoteBind = [], nfRemotePort = 0,
      nfTargetHost = ''LocalHost'', nfTargetPort = 61, nfExitOnForwardFailure = True, nfClearAllForwardings = True,
      nfGatewayPortsDisabled = True, nfPermitLocalCommandNo = True, nfForwardAgentDisabled = True, nfForwardX11Disabled = True,
      nfIdentitiesOnly = True, nfStrictHostKey = True, nfEndpointRestricted = True, nfLifecycleAudited = True,
      nfWeaversshEndpoint = True, nfAuthorityMaterialOnRemoteHost = False, nfProof = demo_forward_config\<rparr>"

lemma demo_forward_sel:
  "rcMode demo_forward_config = ''required''" "rcSecurityLevel demo_forward_config = ''strict''"
  "rcSubjectPeerID demo_forward_config = ''bob''" "rcAudience demo_forward_config = ''wv-agent''"
  "rcPublicKey demo_forward_config = EncodePublicKey (replicate 32 7)" "rcChainSHA256 demo_forward_config = replicate 64 (CHR ''b'')"
  "rcX11CookieSHA256 demo_forward_config = replicate 64 (CHR ''A'')"
  "rcRequiredCapabilities demo_forward_config = [''x11.relay'', ''websocket.upgrade'']"
  by (simp_all add: demo_forward_config_def demo_runtime_def del: replicate.simps)

lemma demo_forward_texts:
  "NormalizeSecurityLevel ''strict'' = ''strict''" "SecurityLevelAtLeast ''strict'' SecurityLevelAgentProof"
  "normalizeCapabilities [''x11.relay'', ''websocket.upgrade''] \<noteq> []"
  "list_all (hasCapability (normalizeCapabilities [''x11.relay'', ''websocket.upgrade''])) (NativeForwardingRequiredCapabilities NativeForwardSSHLocal)"
  by code_simp+

lemma demo_forward_chain: "replicate 64 (CHR ''b'') \<noteq> DefaultChainSHA256 demo_crypto"
  by code_simp

lemma demo_forward_proof: "ValidateNativeForwardingProof demo_crypto E NativeForwardSSHLocal demo_forward_config = None"
proof -
  have "LoadPublicKey E demo_forward_config = LoadPublicKey E (demo_runtime go_second)"
    by (simp add: LoadPublicKey_def demo_forward_config_def)
  then have key: "LoadPublicKey E demo_forward_config = Inr (replicate 32 7)" by (simp only: demo_runtime_keys)
  have pub: "TrimSpace (EncodePublicKey (replicate 32 7)) \<noteq> []" by (simp add: EncodePublicKey_def)
  show ?thesis
    unfolding ValidateNativeForwardingProof_def Let_def LoadPublicKey_normalized key Config_Normalized_sel demo_forward_sel
    using pub demo_forward_chain by (simp add: demo_runtime_facts demo_forward_texts del: replicate.simps)
qed

lemma demo_forward_valid: "ValidateNativeForwardingPolicy demo_crypto E demo_forward = None"
proof -
  have "TrimSpace ''sshL'' = ''sshL''" "isLoopbackHost ''localhost''" "isLoopbackHost ''LocalHost''" by code_simp+
  then show ?thesis using demo_forward_proof [of E]
    by (simp add: ValidateNativeForwardingPolicy_def demo_forward_def validateNativeForwardingEndpoints_def requireLoopbackEndpoint_def hardened_def)
qed

theorem forward_loopback_only_witness:
  "BuildNativeForwardingOpenSSHArgs demo_crypto demo_proof_env ''user@host'' demo_forward
     = Inr (fixedArgs @ [''-L'', ''localhost:60:LocalHost:61'', ''user@host''])
   \<and> loopback_endpoint ''localhost'' 60 \<and> loopback_endpoint ''LocalHost'' 61"
proof -
  have t: "TrimSpace ''user@host'' = ''user@host''" "TrimSpace ''sshL'' = ''sshL''" "formatInt 60 = ''60''" "formatInt 61 = ''61''"
    by code_simp+
  have strs: "TrimSpace ''user@host'' = ''user@host''" "TrimSpace (nfMode demo_forward) = nfMode demo_forward"
      "forwardArgs demo_forward = [''-L'', ''localhost:60:LocalHost:61'']"
    by (simp_all add: t demo_forward_def forwardArgs_def JoinHostPort_def TargetPortString_def)
  have b: "BuildNativeForwardingOpenSSHArgs demo_crypto demo_proof_env ''user@host'' demo_forward
     = Inr (fixedArgs @ [''-L'', ''localhost:60:LocalHost:61'', ''user@host''])"
    by (simp add: BuildNativeForwardingOpenSSHArgs_def demo_forward_valid strs)
  show ?thesis using b forward_loopback_only [OF b strs(2)] by (simp add: demo_forward_def)
qed

theorem padded_mode_unchecked_witness:
  "ValidateNativeForwardingPolicy demo_crypto demo_proof_env (padded_mode demo_forward ''0.0.0.0'' 22 ''10.0.0.1'' 70000) = None
   \<and> forwardArgs (padded_mode demo_forward ''0.0.0.0'' 22 ''10.0.0.1'' 70000) = []"
proof -
  have m: "nfMode demo_forward = NativeForwardSSHLocal" by (simp add: demo_forward_def)
  show ?thesis by (rule padded_mode_unchecked [OF demo_forward_valid m])
qed

end
