(* ===== verification/Session_Registry.thy ===== *)
theory Session_Registry
  imports Route_Registry Mux_Frame Wv_Text
begin

text \<open>
  The registry of verified nodes and the opening of target streams: \<open>sessioncontrol/registry.go\<close>,
  \<open>snapshot.go\<close>, \<open>target.go\<close>, \<open>accepted_stream.go\<close>, \<open>local_target.go\<close> and \<open>deferred_target.go\<close>. Go maps are
  association lists and sets of services are lists of their keys. \<open>time.Now\<close>, JSON, the peer-local policy
  and the arrival of streams are parameters. A logical stream is its service, its metadata, what was
  written to it and whether it was reset. \<open>indexOf\<close> and \<open>sameStrings\<close> are the functions of \<open>sessionroute\<close>,
  which \<open>sessioncontrol\<close> repeats.

  Shown: a registry holds nodes of one chain only, each under its own name and position with services its
  signed capabilities permit, and never replaces a context by an older one; a target stream is
  acknowledged only for such a service, every refusal resets it, and the opener succeeds exactly when the
  acceptor authorised it.
\<close>

section \<open>Nodes and their services\<close>

datatype control_error =
    ErrWrongProtocol | ErrWrongBinding | ErrControlDenied auth_error | ErrUnexpectedType | ErrControlRemote string
  | ErrChainMismatch | ErrUnknownNode | ErrServiceUnavailable | ErrStaleRegistration
  | ErrControlAuth auth_error | ErrControlService | ErrLacksCapability
  | ErrTargetDenied control_error | ErrTargetAnswer | ErrInvalidTarget | ErrUnexpectedControl
  | ErrPolicy string | ErrControlCancelled | ErrControlIO mux_error | ErrControlJSON | ErrIncomplete
  | ErrReconnectProtocol | ErrReconnectChallenge | ErrReconnectProof

record Node =
  ndID :: string
  ndIndex :: int
  ndContext :: NodeContext
  ndServices :: "u16 list"

record NodeRegistry =
  nrChainID :: string
  nrChainSHA256 :: string
  nrOrder :: "string list"
  nrNodes :: "(string \<times> Node) list"

definition Supports :: "Node \<Rightarrow> u16 \<Rightarrow> bool" where
  "Supports n service = (service \<in> set (ndServices n))"

definition Services :: "Node \<Rightarrow> u16 list" where
  "Services n = sort (ndServices n)"

definition containsCapability :: "string list \<Rightarrow> string \<Rightarrow> bool" where
  "containsCapability capabilities want = list_ex (\<lambda>c. TrimSpace c = want) capabilities"

definition serviceAuthorizedByCapabilities :: "string list \<Rightarrow> u16 \<Rightarrow> bool" where
  "serviceAuthorizedByCapabilities capabilities service =
     (if service = ServiceControl then containsCapability capabilities CapabilityNodeContext
      else if service = ServiceFS then
        containsCapability capabilities CapabilityVFSMesh \<or> containsCapability capabilities CapabilityFileBackhaul
      else if service = ServiceTCP \<or> service = ServiceUDP then containsCapability capabilities CapabilitySocksProxy
      else if service = ServiceExec \<or> service = ServiceEvents then containsCapability capabilities CapabilityMapReduce
      else False)"

text \<open>The loop of \<open>normalizeServices\<close> over the requested services, \<open>out\<close> holding the keys of the map.\<close>

fun admitServices :: "string list \<Rightarrow> u16 list \<Rightarrow> u16 list \<Rightarrow> control_error + u16 list" where
  "admitServices capabilities out [] = Inr out"
| "admitServices capabilities out (service # requested) =
     (if \<not> ServiceID_Valid service then Inl ErrControlService
      else if \<not> serviceAuthorizedByCapabilities capabilities service then Inl ErrLacksCapability
      else admitServices capabilities (List.insert service out) requested)"

definition normalizeServices :: "NodeContext \<Rightarrow> u16 list \<Rightarrow> control_error + u16 list" where
  "normalizeServices ctx services = admitServices (ncCapabilities ctx) [] (ServiceControl # services)"

definition cloneNode :: "Node \<Rightarrow> Node" where
  "cloneNode n = n\<lparr>ndContext := NodeContext_Normalized (ndContext n)\<rparr>"

section \<open>The registry\<close>

definition NewRegistry :: NodeRegistry where
  "NewRegistry = \<lparr>nrChainID = [], nrChainSHA256 = [], nrOrder = [], nrNodes = []\<rparr>"

text \<open>The chain a registry takes over from the first context it sees; \<open>None\<close> for another chain.\<close>

definition adoptChain :: "NodeRegistry \<Rightarrow> NodeContext \<Rightarrow> NodeRegistry option" where
  "adoptChain r ctx =
     (if nrChainID r = [] then
        Some (r\<lparr>nrChainID := ncChainID ctx, nrChainSHA256 := ncChainSHA256 ctx, nrOrder := ncNodes ctx\<rparr>)
      else if nrChainID r \<noteq> ncChainID ctx \<or> nrChainSHA256 r \<noteq> ncChainSHA256 ctx
           \<or> \<not> sameStrings (nrOrder r) (ncNodes ctx) then None
      else Some r)"

definition RegisterVerified ::
  "go_time \<Rightarrow> NodeRegistry \<Rightarrow> NodeContext \<Rightarrow> u16 list \<Rightarrow> (control_error + Node) \<times> NodeRegistry" where
  "RegisterVerified clock r context services =
     (let ctx = NodeContext_Normalized context in
      case NodeContext_Validate ctx of
        Some e \<Rightarrow> (Inl (ErrControlAuth e), r)
      | None \<Rightarrow>
      if ncExpiresAtUnix ctx \<le> go_unix clock then (Inl (ErrControlAuth ErrExpiredGrant), r)
      else case normalizeServices ctx services of
        Inl e \<Rightarrow> (Inl e, r)
      | Inr normalizedServices \<Rightarrow>
      case adoptChain r ctx of
        None \<Rightarrow> (Inl ErrChainMismatch, r)
      | Some r1 \<Rightarrow>
      let index = indexOf (nrOrder r1) (ncCurrentNode ctx) in
      if index < 0 then (Inl ErrUnknownNode, r1)
      else if (case map_of (nrNodes r1) (ncCurrentNode ctx) of
                 None \<Rightarrow> False
               | Some existing \<Rightarrow> ncIssuedAtUnix ctx < ncIssuedAtUnix (ndContext existing)) then
        (Inl ErrStaleRegistration, r1)
      else
        let node = \<lparr>ndID = ncCurrentNode ctx, ndIndex = index, ndContext = ctx, ndServices = normalizedServices\<rparr> in
        (Inr (cloneNode node), r1\<lparr>nrNodes := AList.update (ndID node) node (nrNodes r1)\<rparr>))"

text \<open>The name a reference stands for, \<open>None\<close> where \<open>Resolve\<close> refuses it before the lookup.\<close>

definition targetName :: "NodeRegistry \<Rightarrow> string \<Rightarrow> string \<Rightarrow> string option" where
  "targetName r ref currentNode =
     (let name = TrimSpace ref; current = TrimSpace currentNode; key = ToLower name;
          index = indexOf (nrOrder r) current in
      if key \<in> {''endpoint'', ''target'', ''remote'', ''last''} then
        Some (if 0 < length (nrOrder r) then nrOrder r ! (length (nrOrder r) - 1) else name)
      else if key \<in> {''self'', ''local'', ''here'', ''this'', ''current'', ''.''} then Some current
      else if key \<in> {''previous'', ''prev''} then
        (if index \<le> 0 then None else Some (nrOrder r ! nat (index - 1)))
      else if key = ''next'' then
        (if index < 0 \<or> int (length (nrOrder r)) \<le> index + 1 then None else Some (nrOrder r ! nat (index + 1)))
      else Some name)"

definition Resolve :: "NodeRegistry \<Rightarrow> string \<Rightarrow> string \<Rightarrow> control_error + Node" where
  "Resolve r ref currentNode =
     (case targetName r ref currentNode of
        None \<Rightarrow> Inl ErrUnknownNode
      | Some name \<Rightarrow>
          if name = [] then Inl ErrUnknownNode
          else case map_of (nrNodes r) name of
            None \<Rightarrow> Inl ErrUnknownNode
          | Some node \<Rightarrow> Inr (cloneNode node))"

definition Registry_Authorize :: "NodeRegistry \<Rightarrow> string \<Rightarrow> string \<Rightarrow> u16 \<Rightarrow> control_error + Node" where
  "Registry_Authorize r nodeRef currentNode service =
     (case Resolve r nodeRef currentNode of
        Inl e \<Rightarrow> Inl e
      | Inr node \<Rightarrow> if \<not> Supports node service then Inl ErrServiceUnavailable else Inr node)"

definition Topology :: "NodeRegistry \<Rightarrow> string list" where
  "Topology r = nrOrder r"

text \<open>The indices of registered nodes differ, so that their order does not depend on the sort.\<close>

definition Registered :: "NodeRegistry \<Rightarrow> Node list" where
  "Registered r = sort_key ndIndex (map (\<lambda>(name, node). cloneNode node) (nrNodes r))"

definition Lookup :: "NodeRegistry \<Rightarrow> string \<Rightarrow> Node option" where
  "Lookup r nodeID = map_option cloneNode (map_of (nrNodes r) nodeID)"

text \<open>The registry after a sequence of registrations.\<close>

fun registerAll :: "NodeRegistry \<Rightarrow> (go_time \<times> NodeContext \<times> u16 list) list \<Rightarrow> NodeRegistry" where
  "registerAll r [] = r"
| "registerAll r ((clock, ctx, services) # ops) = registerAll (snd (RegisterVerified clock r ctx services)) ops"

section \<open>One chain, permitted services, no older context\<close>

text \<open>
  A node of the registry was registered by one of the operations \<open>L\<close>, stands in the registry's chain at its
  own place and has the services asked for, all of them permitted by its capabilities.
\<close>

definition reg_node :: "(go_time \<times> NodeContext \<times> u16 list) set \<Rightarrow> NodeRegistry \<Rightarrow> string \<Rightarrow> Node \<Rightarrow> bool" where
  "reg_node L r name n =
     (ndID n = name \<and> NodeContext_Validate (ndContext n) = None \<and> ncCurrentNode (ndContext n) = name
      \<and> ncChainID (ndContext n) = nrChainID r \<and> ncChainSHA256 (ndContext n) = nrChainSHA256 r
      \<and> ncNodes (ndContext n) = nrOrder r \<and> ndIndex n = indexOf (nrOrder r) name
      \<and> list_all (\<lambda>s. ServiceID_Valid s \<and> serviceAuthorizedByCapabilities (ncCapabilities (ndContext n)) s) (ndServices n)
      \<and> distinct (ndServices n)
      \<and> (\<exists>(clock, ctx, services) \<in> L. ndContext n = NodeContext_Normalized ctx
           \<and> set (ndServices n) = insert ServiceControl (set services) \<and> go_unix clock < ncExpiresAtUnix ctx))"

definition reg_inv :: "(go_time \<times> NodeContext \<times> u16 list) set \<Rightarrow> NodeRegistry \<Rightarrow> bool" where
  "reg_inv L r =
     ((nrChainID r = [] \<longrightarrow> nrNodes r = []) \<and> distinct (map fst (nrNodes r))
      \<and> (\<forall>name n. map_of (nrNodes r) name = Some n \<longrightarrow> reg_node L r name n))"

definition reg_keeps :: "NodeRegistry \<Rightarrow> NodeRegistry \<Rightarrow> bool" where
  "reg_keeps r r' =
     ((nrChainID r \<noteq> [] \<longrightarrow> nrChainID r' = nrChainID r \<and> nrChainSHA256 r' = nrChainSHA256 r \<and> nrOrder r' = nrOrder r)
      \<and> (\<forall>name n. map_of (nrNodes r) name = Some n \<longrightarrow>
           (\<exists>n'. map_of (nrNodes r') name = Some n' \<and> ncIssuedAtUnix (ndContext n) \<le> ncIssuedAtUnix (ndContext n'))))"

lemma admitServices_Inr:
  "admitServices caps out requested = Inr services \<Longrightarrow>
     set services = set out \<union> set requested
     \<and> list_all (\<lambda>s. ServiceID_Valid s \<and> serviceAuthorizedByCapabilities caps s) requested
     \<and> (distinct out \<longrightarrow> distinct services)"
  by (induction caps out requested rule: admitServices.induct) (auto split: if_splits)

lemma normalizeServices_Inr:
  assumes "normalizeServices ctx requested = Inr services"
  shows "set services = insert ServiceControl (set requested)" "distinct services"
    "list_all (\<lambda>s. ServiceID_Valid s \<and> serviceAuthorizedByCapabilities (ncCapabilities ctx) s) services"
  using admitServices_Inr [OF assms [unfolded normalizeServices_def]] by (auto simp: list_all_iff)

lemma reg_keeps_refl: "reg_keeps r r"
  by (auto simp: reg_keeps_def)

lemma reg_keeps_trans:
  assumes "reg_keeps r r'" "reg_keeps r' r''"
  shows "reg_keeps r r''"
proof -
  have "\<exists>n''. map_of (nrNodes r'') name = Some n'' \<and> ncIssuedAtUnix (ndContext n) \<le> ncIssuedAtUnix (ndContext n'')"
    if "map_of (nrNodes r) name = Some n" for name n
    using that assms unfolding reg_keeps_def by (meson order_trans)
  then show ?thesis using assms unfolding reg_keeps_def by metis
qed

lemma reg_inv_mono: "reg_inv L r \<Longrightarrow> L \<subseteq> M \<Longrightarrow> reg_inv M r"
  unfolding reg_inv_def reg_node_def by blast

lemma chain_id_nonempty:
  assumes "NodeContext_Validate (NodeContext_Normalized c) = None"
  shows "ncChainID (NodeContext_Normalized c) \<noteq> []"
proof -
  have e: "ncChainID (NodeContext_Normalized (NodeContext_Normalized c)) = ncChainID (NodeContext_Normalized c)"
    by (simp add: NodeContext_Normalized_sel)
  show ?thesis using assms unfolding NodeContext_Validate_def Let_def guards e by auto
qed

lemma adoptChain_Some:
  assumes "adoptChain r ctx = Some r1" "reg_inv L r" "ncChainID ctx \<noteq> []"
  shows "reg_inv L r1 \<and> reg_keeps r r1 \<and> nrNodes r1 = nrNodes r \<and> nrChainID r1 = ncChainID ctx
    \<and> nrChainSHA256 r1 = ncChainSHA256 ctx \<and> nrOrder r1 = ncNodes ctx"
proof (cases "nrChainID r = []")
  case True
  then have "nrNodes r = []" using assms(2) by (simp add: reg_inv_def)
  with True assms show ?thesis by (auto simp: adoptChain_def reg_inv_def reg_keeps_def)
next
  case False
  then have "r1 = r" "nrChainID r = ncChainID ctx" "nrChainSHA256 r = ncChainSHA256 ctx" "nrOrder r = ncNodes ctx"
    using assms(1) by (auto simp: adoptChain_def sameStrings_eq split: if_splits)
  with assms(2) show ?thesis by (simp add: reg_keeps_refl)
qed

text \<open>The three ways a registration ends.\<close>

lemma RegisterVerified_cases:
  assumes "RegisterVerified clock r c services = (res, r')"
  obtains (refused) "isl res" "r' = r"
  | (adopted) "isl res" "NodeContext_Validate (NodeContext_Normalized c) = None" "adoptChain r (NodeContext_Normalized c) = Some r'"
  | (stored) r1 ss node where "NodeContext_Validate (NodeContext_Normalized c) = None" "adoptChain r (NodeContext_Normalized c) = Some r1"
      "normalizeServices (NodeContext_Normalized c) services = Inr ss" "go_unix clock < ncExpiresAtUnix c"
      "\<forall>n. map_of (nrNodes r1) (ncCurrentNode (NodeContext_Normalized c)) = Some n \<longrightarrow> ncIssuedAtUnix (ndContext n) \<le> ncIssuedAtUnix c"
      "node = \<lparr>ndID = ncCurrentNode (NodeContext_Normalized c), ndIndex = indexOf (nrOrder r1) (ncCurrentNode (NodeContext_Normalized c)),
               ndContext = NodeContext_Normalized c, ndServices = ss\<rparr>"
      "res = Inr (cloneNode node)" "r' = r1\<lparr>nrNodes := AList.update (ndID node) node (nrNodes r1)\<rparr>"
proof -
  let ?c = "NodeContext_Normalized c"
  have times: "ncIssuedAtUnix ?c = ncIssuedAtUnix c" "ncExpiresAtUnix ?c = ncExpiresAtUnix c"
    by (simp_all add: NodeContext_Normalized_sel)
  show thesis
  proof (cases "NodeContext_Validate ?c = None \<and> \<not> ncExpiresAtUnix ?c \<le> go_unix clock
      \<and> (\<exists>ss r1. normalizeServices ?c services = Inr ss \<and> adoptChain r ?c = Some r1)")
    case False
    then show thesis using assms refused unfolding RegisterVerified_def
      by (auto simp: Let_def times split: option.splits sum.splits if_splits)
  next
    case True
    then obtain ss r1 where t: "normalizeServices ?c services = Inr ss" "adoptChain r ?c = Some r1" by blast
    show thesis
    proof (cases "indexOf (nrOrder r1) (ncCurrentNode ?c) < 0 \<or> (\<exists>n. map_of (nrNodes r1) (ncCurrentNode ?c) = Some n
        \<and> ncIssuedAtUnix c < ncIssuedAtUnix (ndContext n))")
      case True': True
      then have "isl res \<and> r' = r1" using assms True t unfolding RegisterVerified_def
        by (auto simp: Let_def times split: option.splits if_splits)
      then show thesis using adopted True t by simp
    next
      case False
      then show thesis using assms True t stored [of r1 ss] unfolding RegisterVerified_def
        by (auto simp: Let_def times split: option.splits if_splits)
    qed
  qed
qed

lemma RegisterVerified_step:
  assumes "reg_inv L r" "RegisterVerified clock r c services = (res, r')"
  shows "reg_inv (insert (clock, c, services) L) r' \<and> reg_keeps r r'"
  using assms(2)
proof (cases rule: RegisterVerified_cases)
  case refused
  then show ?thesis using assms(1) by (auto simp: reg_keeps_refl intro: reg_inv_mono)
next
  case adopted
  then show ?thesis using adoptChain_Some [OF adopted(3) assms(1) chain_id_nonempty [OF adopted(2)]] by (auto intro: reg_inv_mono)
next
  case (stored r1 ss node)
  let ?c = "NodeContext_Normalized c" and ?L = "insert (clock, c, services) L"
  have times: "ncIssuedAtUnix ?c = ncIssuedAtUnix c" by (simp add: NodeContext_Normalized_sel)
  note a = adoptChain_Some [OF stored(2) assms(1) chain_id_nonempty [OF stored(1)]]
  note ss = normalizeServices_Inr [OF stored(3)]
  have map: "map_of (nrNodes r') name = (if name = ndID node then Some node else map_of (nrNodes r1) name)" for name
    unfolding stored(8) by (simp add: update_conv')
  have "reg_node ?L r' (ndID node) node"
    using a ss stored(1,4) unfolding reg_node_def stored(6,8) by (auto intro: bexI [of _ "(clock, c, services)"])
  moreover have "reg_node ?L r' name n" if "map_of (nrNodes r1) name = Some n" for name n
    using a that unfolding reg_inv_def reg_node_def stored(8) by fastforce
  moreover have "distinct (map fst (nrNodes r1))" using a unfolding reg_inv_def by blast
  then have "distinct (map fst (nrNodes r'))" by (simp add: stored(8) distinct_update)
  moreover have "nrChainID r' \<noteq> []" using a chain_id_nonempty [OF stored(1)] by (simp add: stored(8))
  ultimately have "reg_inv ?L r'" unfolding reg_inv_def map by auto
  moreover have "reg_keeps r1 r'"
    unfolding reg_keeps_def map using stored(5) by (auto simp: stored(6,8) times)
  ultimately show ?thesis using a reg_keeps_trans by blast
qed

lemma registerAll_inv: "reg_inv L r \<Longrightarrow> reg_inv (set ops \<union> L) (registerAll r ops) \<and> reg_keeps r (registerAll r ops)"
proof (induction r ops arbitrary: L rule: registerAll.induct)
  case (2 r clock ctx services ops)
  obtain res r' where r: "RegisterVerified clock r ctx services = (res, r')" by fastforce
  note s = RegisterVerified_step [OF 2(2) r]
  have "reg_inv (set ops \<union> insert (clock, ctx, services) L) (registerAll r' ops) \<and> reg_keeps r' (registerAll r' ops)"
    using 2(1) [of "insert (clock, ctx, services) L"] s r by simp
  with s r show ?case by (auto intro: reg_keeps_trans)
qed (simp add: reg_keeps_refl)

lemma registerAll_new: "reg_inv (set ops) (registerAll NewRegistry ops)"
  using registerAll_inv [of "{}" NewRegistry ops] by (simp add: reg_inv_def NewRegistry_def)

lemma Registry_Authorize_Inr:
  "Registry_Authorize r ref current service = Inr n \<longleftrightarrow>
     (\<exists>name node. targetName r ref current = Some name \<and> name \<noteq> [] \<and> map_of (nrNodes r) name = Some node
        \<and> service \<in> set (ndServices node) \<and> n = cloneNode node)"
  by (auto simp: Registry_Authorize_def Resolve_def Supports_def cloneNode_def split: option.splits sum.splits if_splits)

text \<open>Normalising the context of a registered node again changes its audience at most.\<close>

lemma NodeContext_renormalized:
  assumes "c = NodeContext_Normalized c0"
  shows "ncNodes (NodeContext_Normalized c) = ncNodes c" "ncCurrentNode (NodeContext_Normalized c) = ncCurrentNode c"
    "ncCapabilities (NodeContext_Normalized c) = ncCapabilities c" "ncIssuedAtUnix (NodeContext_Normalized c) = ncIssuedAtUnix c"
    "ncChainID (NodeContext_Normalized c) = ncChainID c" "ncChainSHA256 (NodeContext_Normalized c) = ncChainSHA256 c"
proof -
  have caps: "normalizeCapabilities [CapabilityNodeContext] = [CapabilityNodeContext]" by code_simp
  show "ncNodes (NodeContext_Normalized c) = ncNodes c" "ncCurrentNode (NodeContext_Normalized c) = ncCurrentNode c"
    "ncCapabilities (NodeContext_Normalized c) = ncCapabilities c" "ncIssuedAtUnix (NodeContext_Normalized c) = ncIssuedAtUnix c"
    "ncChainID (NodeContext_Normalized c) = ncChainID c" "ncChainSHA256 (NodeContext_Normalized c) = ncChainSHA256 c"
    unfolding assms by (simp_all add: NodeContext_Normalized_sel caps)
qed

text \<open>
  C19: What \<open>Authorize\<close> hands out in any registry: a node registered under the context it shows, at its own
  place of the registry's chain, that asked for the service and whose capabilities permit it. Whatever is
  registered later, the node stays, the chain stays, and its context is never replaced by an older one.
\<close>

theorem registry_authorizes_registered:
  assumes "registerAll NewRegistry ops = r" "Registry_Authorize r ref current service = Inr n"
  shows "(\<exists>(clock, ctx, services) \<in> set ops. ndContext n = NodeContext_Normalized (NodeContext_Normalized ctx)
       \<and> service \<in> insert ServiceControl (set services) \<and> go_unix clock < ncExpiresAtUnix ctx)
    \<and> ncCurrentNode (ndContext n) = ndID n \<and> ncNodes (ndContext n) = Topology r
    \<and> 0 \<le> ndIndex n \<and> Topology r ! nat (ndIndex n) = ndID n
    \<and> ServiceID_Valid service \<and> serviceAuthorizedByCapabilities (ncCapabilities (ndContext n)) service
    \<and> Topology (registerAll r ops') = Topology r
    \<and> (\<exists>n'. Lookup (registerAll r ops') (ndID n) = Some n' \<and> ncIssuedAtUnix (ndContext n) \<le> ncIssuedAtUnix (ndContext n'))"
proof -
  have inv: "reg_inv (set ops) r" using registerAll_new assms(1) by blast
  obtain name node where t: "map_of (nrNodes r) name = Some node" "service \<in> set (ndServices node)" "n = cloneNode node"
    using assms(2) by (auto simp: Registry_Authorize_Inr)
  have g: "reg_node (set ops) r name node" using inv t(1) by (simp add: reg_inv_def)
  then obtain clock ctx services where op: "(clock, ctx, services) \<in> set ops" "ndContext node = NodeContext_Normalized ctx"
      "set (ndServices node) = insert ServiceControl (set services)" "go_unix clock < ncExpiresAtUnix ctx"
    by (auto simp: reg_node_def)
  note c = NodeContext_renormalized [OF op(2)]
  note v = NodeContext_Validate_facts [OF _ op(2)]
  have mem: "name \<in> set (nrOrder r)" using g v(1) by (simp add: reg_node_def)
  have keeps: "reg_keeps r (registerAll r ops')" using registerAll_inv [OF inv] by blast
  have "nrChainID r \<noteq> []" using inv t(1) by (auto simp: reg_inv_def)
  then have "Topology (registerAll r ops') = Topology r" using keeps by (simp add: reg_keeps_def Topology_def)
  moreover obtain n' where n': "map_of (nrNodes (registerAll r ops')) name = Some n'"
      "ncIssuedAtUnix (ndContext node) \<le> ncIssuedAtUnix (ndContext n')"
    using keeps t(1) unfolding reg_keeps_def by blast
  then have "\<exists>n'. Lookup (registerAll r ops') (ndID n) = Some n' \<and> ncIssuedAtUnix (ndContext n) \<le> ncIssuedAtUnix (ndContext n')"
    using g t(3) c(4) by (simp add: Lookup_def cloneNode_def reg_node_def NodeContext_Normalized_sel(13))
  moreover have "\<exists>(clock, ctx, services) \<in> set ops. ndContext n = NodeContext_Normalized (NodeContext_Normalized ctx)
       \<and> service \<in> insert ServiceControl (set services) \<and> go_unix clock < ncExpiresAtUnix ctx"
    using op t(2,3) by (intro bexI [of _ "(clock, ctx, services)"]) (simp_all add: cloneNode_def)
  ultimately show ?thesis
    using g t c indexOf_mem [OF mem] by (auto simp: reg_node_def cloneNode_def Topology_def list_all_iff)
qed

section \<open>Target streams\<close>

definition targetProtocol :: string where
  "targetProtocol = ''weaverssh.target-open.v1''"

definition targetAcceptedMessage :: bytes where
  "targetAcceptedMessage = [87, 86, 84, 65, 1]"

record OpenMetadata =
  omProtocol :: string
  omNode :: string
  omData :: bytes

record AcceptedTarget =
  atNode :: Node
  atData :: bytes

record PendingTarget =
  ptNodeRef :: string
  ptService :: u16
  ptData :: bytes

record target_json =
  tjText :: "OpenMetadata \<Rightarrow> bytes option"
  tjDecode :: "bytes \<Rightarrow> OpenMetadata option"

record target_stream =
  tgService :: u16
  tgMetadata :: bytes
  tgConn :: conn
  tgReset :: bool

type_synonym TargetPolicy = "Node \<Rightarrow> u16 \<Rightarrow> string option"

definition resetTarget :: "target_stream \<Rightarrow> target_stream" where
  "resetTarget st = st\<lparr>tgReset := True\<rparr>"

definition EncodeOpenMetadata :: "target_json \<Rightarrow> string \<Rightarrow> bytes \<Rightarrow> control_error + bytes" where
  "EncodeOpenMetadata js node data =
     (if TrimSpace node = [] then Inl ErrInvalidTarget
      else case tjText js \<lparr>omProtocol = targetProtocol, omNode = TrimSpace node, omData = data\<rparr> of
        None \<Rightarrow> Inl ErrControlJSON
      | Some payload \<Rightarrow> Inr payload)"

definition DecodeOpenMetadata :: "target_json \<Rightarrow> bytes \<Rightarrow> control_error + OpenMetadata" where
  "DecodeOpenMetadata js raw =
     (case tjDecode js raw of
        None \<Rightarrow> Inl ErrInvalidTarget
      | Some metadata \<Rightarrow>
          let node = TrimSpace (omNode metadata) in
          if omProtocol metadata \<noteq> targetProtocol \<or> node = [] then Inl ErrInvalidTarget
          else Inr (metadata\<lparr>omNode := node\<rparr>))"

text \<open>The checks before the acknowledgement, the same in \<open>AcceptTargetWithPolicy\<close> and \<open>AuthorizeAcceptedTarget\<close>.\<close>

definition authorizeTarget ::
  "target_json \<Rightarrow> NodeRegistry \<Rightarrow> string \<Rightarrow> TargetPolicy option \<Rightarrow> target_stream \<Rightarrow> control_error + AcceptedTarget" where
  "authorizeTarget js r currentNode policy st =
     (if tgService st = ServiceControl then Inl ErrUnexpectedControl
      else case DecodeOpenMetadata js (tgMetadata st) of
        Inl e \<Rightarrow> Inl e
      | Inr metadata \<Rightarrow>
          (case Registry_Authorize r (omNode metadata) currentNode (tgService st) of
             Inl e \<Rightarrow> Inl (ErrTargetDenied e)
           | Inr node \<Rightarrow>
               (case Option.bind policy (\<lambda>p. p node (tgService st)) of
                  Some m \<Rightarrow> Inl (ErrTargetDenied (ErrPolicy m))
                | None \<Rightarrow> Inr \<lparr>atNode = node, atData = omData metadata\<rparr>)))"

definition acknowledge :: "target_stream \<Rightarrow> control_error option \<times> target_stream" where
  "acknowledge st =
     (case writeFull (tgConn st) targetAcceptedMessage of
        (Some e, w) \<Rightarrow> (Some (ErrControlIO e), resetTarget (st\<lparr>tgConn := w\<rparr>))
      | (None, w) \<Rightarrow> (None, st\<lparr>tgConn := w\<rparr>))"

definition AcceptTargetWithPolicy ::
  "target_json \<Rightarrow> NodeRegistry \<Rightarrow> string \<Rightarrow> TargetPolicy option \<Rightarrow> control_error + target_stream
    \<Rightarrow> (control_error + AcceptedTarget) \<times> target_stream option" where
  "AcceptTargetWithPolicy js r currentNode policy arrived =
     (case arrived of
        Inl e \<Rightarrow> (Inl e, None)
      | Inr st \<Rightarrow>
          (case authorizeTarget js r currentNode policy st of
             Inl e \<Rightarrow> (Inl e, Some (resetTarget st))
           | Inr a \<Rightarrow>
               (case acknowledge st of
                  (Some e, st') \<Rightarrow> (Inl e, Some st')
                | (None, st') \<Rightarrow> (Inr a, Some st'))))"

definition AcceptTarget ::
  "target_json \<Rightarrow> NodeRegistry \<Rightarrow> string \<Rightarrow> control_error + target_stream \<Rightarrow> (control_error + AcceptedTarget) \<times> target_stream option" where
  "AcceptTarget js r currentNode arrived = AcceptTargetWithPolicy js r currentNode None arrived"

definition AcknowledgePendingTarget :: "bool \<Rightarrow> target_stream \<Rightarrow> control_error option \<times> target_stream" where
  "AcknowledgePendingTarget cancelled st =
     (if cancelled then (Some ErrControlCancelled, resetTarget st) else acknowledge st)"

definition AuthorizeAcceptedTarget ::
  "target_json \<Rightarrow> NodeRegistry \<Rightarrow> string \<Rightarrow> TargetPolicy option \<Rightarrow> bool \<Rightarrow> target_stream
    \<Rightarrow> (control_error + AcceptedTarget) \<times> target_stream" where
  "AuthorizeAcceptedTarget js r currentNode policy cancelled st =
     (case authorizeTarget js r currentNode policy st of
        Inl e \<Rightarrow> (Inl e, resetTarget st)
      | Inr a \<Rightarrow>
          (case AcknowledgePendingTarget cancelled st of
             (Some e, st') \<Rightarrow> (Inl e, st')
           | (None, st') \<Rightarrow> (Inr a, st')))"

definition InspectAcceptedTarget :: "target_json \<Rightarrow> target_stream \<Rightarrow> (control_error + PendingTarget) \<times> target_stream" where
  "InspectAcceptedTarget js st =
     (if tgService st = ServiceControl then (Inl ErrUnexpectedControl, resetTarget st)
      else case DecodeOpenMetadata js (tgMetadata st) of
        Inl e \<Rightarrow> (Inl e, resetTarget st)
      | Inr metadata \<Rightarrow>
          (Inr \<lparr>ptNodeRef = omNode metadata, ptService = tgService st, ptData = omData metadata\<rparr>, st))"

section \<open>Targets of the local node\<close>

definition referenceResolvesToLocal :: "string \<Rightarrow> NodeContext \<Rightarrow> bool" where
  "referenceResolvesToLocal ref local =
     (let name = TrimSpace ref; key = ToLower name in
      if key \<in> {''self'', ''local'', ''here'', ''this'', ''current'', ''.''} then True
      else if key \<in> {''endpoint'', ''target'', ''remote'', ''last''} then ncCurrentNode local = ncEndpointNode local
      else if key \<in> {''previous'', ''prev'', ''next''} then False
      else name = ncCurrentNode local)"

text \<open>The loop that fills \<open>allowed\<close>, whose keys are the advertised services when it ends without an error.\<close>

fun checkAdvertised :: "string list \<Rightarrow> u16 list \<Rightarrow> control_error option" where
  "checkAdvertised capabilities [] = None"
| "checkAdvertised capabilities (service # advertised) =
     (if \<not> ServiceID_Valid service \<or> service = ServiceControl then Some ErrControlService
      else if \<not> serviceAuthorizedByCapabilities capabilities service then Some ErrLacksCapability
      else checkAdvertised capabilities advertised)"

definition localNode :: "NodeContext \<Rightarrow> Node" where
  "localNode local =
     \<lparr>ndID = ncCurrentNode local, ndIndex = indexOf (ncNodes local) (ncCurrentNode local), ndContext = local, ndServices = []\<rparr>"

definition AuthorizePendingLocal ::
  "PendingTarget \<Rightarrow> NodeContext \<Rightarrow> u16 list \<Rightarrow> target_stream \<Rightarrow> (control_error + AcceptedTarget) \<times> target_stream" where
  "AuthorizePendingLocal pending context advertised st =
     (let local = NodeContext_Normalized context in
      if ptService pending \<noteq> tgService st \<or> ptService pending = ServiceControl then (Inl ErrControlService, resetTarget st)
      else case NodeContext_Validate local of
        Some e \<Rightarrow> (Inl (ErrControlAuth e), resetTarget st)
      | None \<Rightarrow>
      case checkAdvertised (ncCapabilities local) advertised of
        Some e \<Rightarrow> (Inl e, resetTarget st)
      | None \<Rightarrow>
      if \<not> referenceResolvesToLocal (ptNodeRef pending) local then (Inl (ErrTargetDenied ErrUnknownNode), resetTarget st)
      else if ptService pending \<notin> set advertised then (Inl ErrServiceUnavailable, resetTarget st)
      else (Inr \<lparr>atNode = localNode local, atData = ptData pending\<rparr>, st))"

definition AuthorizeAcceptedLocal ::
  "target_json \<Rightarrow> bool \<Rightarrow> NodeContext \<Rightarrow> u16 list \<Rightarrow> target_stream \<Rightarrow> (control_error + AcceptedTarget) \<times> target_stream" where
  "AuthorizeAcceptedLocal js cancelled context advertised st =
     (case InspectAcceptedTarget js st of
        (Inl e, st1) \<Rightarrow> (Inl e, st1)
      | (Inr pending, st1) \<Rightarrow>
          (case AuthorizePendingLocal pending context advertised st1 of
             (Inl e, st2) \<Rightarrow> (Inl e, st2)
           | (Inr a, st2) \<Rightarrow>
               (case AcknowledgePendingTarget cancelled st2 of
                  (Some e, st3) \<Rightarrow> (Inl e, st3)
                | (None, st3) \<Rightarrow> (Inr a, st3))))"

definition AcceptLocalTarget ::
  "target_json \<Rightarrow> NodeContext \<Rightarrow> u16 list \<Rightarrow> control_error + target_stream \<Rightarrow> (control_error + AcceptedTarget) \<times> target_stream option" where
  "AcceptLocalTarget js context advertised arrived =
     (let local = NodeContext_Normalized context in
      case NodeContext_Validate local of
        Some e \<Rightarrow> (Inl (ErrControlAuth e), None)
      | None \<Rightarrow>
      case checkAdvertised (ncCapabilities local) advertised of
        Some e \<Rightarrow> (Inl e, None)
      | None \<Rightarrow>
      case arrived of
        Inl e \<Rightarrow> (Inl e, None)
      | Inr st \<Rightarrow>
      if tgService st = ServiceControl then (Inl ErrUnexpectedControl, Some (resetTarget st))
      else case DecodeOpenMetadata js (tgMetadata st) of
        Inl e \<Rightarrow> (Inl e, Some (resetTarget st))
      | Inr metadata \<Rightarrow>
      if \<not> referenceResolvesToLocal (omNode metadata) local then (Inl (ErrTargetDenied ErrUnknownNode), Some (resetTarget st))
      else if tgService st \<notin> set advertised then (Inl ErrServiceUnavailable, Some (resetTarget st))
      else case acknowledge st of
        (Some e, st') \<Rightarrow> (Inl e, Some st')
      | (None, st') \<Rightarrow> (Inr \<lparr>atNode = localNode local, atData = omData metadata\<rparr>, Some st'))"

section \<open>The opener\<close>

text \<open>
  \<open>opened\<close> is the multiplexer: it gives the error of \<open>Open\<close>, or what the peer sends on the stream before it
  ends and whether it ends with a reset, which a reader sees as \<open>ErrStreamReset\<close>, or is closed. \<open>cancelled\<close> says that the context ends before the acknowledgement is read.
\<close>

definition OpenTarget ::
  "target_json \<Rightarrow> (u16 \<Rightarrow> bytes \<Rightarrow> control_error + bytes \<times> bool) \<Rightarrow> bool \<Rightarrow> string \<Rightarrow> u16 \<Rightarrow> bytes \<Rightarrow> control_error + bytes" where
  "OpenTarget js opened cancelled node service data =
     (if \<not> ServiceID_Valid service \<or> service = ServiceControl then Inl ErrControlService
      else case EncodeOpenMetadata js node data of
        Inl e \<Rightarrow> Inl e
      | Inr metadata \<Rightarrow>
      case opened service metadata of
        Inl e \<Rightarrow> Inl e
      | Inr (bs, reset) \<Rightarrow>
      if cancelled then Inl ErrControlCancelled
      else case ReadFull (length targetAcceptedMessage) bs of
        Inl e \<Rightarrow> Inl (ErrTargetDenied (ErrControlIO (if reset then ErrStreamReset else e)))
      | Inr (ack, rest) \<Rightarrow> if ack \<noteq> targetAcceptedMessage then Inl ErrTargetAnswer else Inr rest)"

section \<open>What an acceptor promises\<close>

definition freshStream :: "u16 \<Rightarrow> bytes \<Rightarrow> target_stream" where
  "freshStream service metadata =
     \<lparr>tgService = service, tgMetadata = metadata, tgConn = \<lparr>cnScript = [], cnOut = [], cnClosed = False\<rparr>, tgReset = False\<rparr>"

text \<open>What an opener reads of a stream that the acceptor handles, and whether the acceptor resets it.\<close>

definition peerAnswer :: "(target_stream \<Rightarrow> 'r \<times> target_stream) \<Rightarrow> u16 \<Rightarrow> bytes \<Rightarrow> bytes \<times> bool" where
  "peerAnswer accept service metadata =
     (let st = snd (accept (freshStream service metadata)) in (cnOut (tgConn st), tgReset st))"

locale target_acceptor =
  fixes accept :: "target_stream \<Rightarrow> (control_error + AcceptedTarget) \<times> target_stream"
    and permits :: "u16 \<Rightarrow> bytes \<Rightarrow> bool"
    and cancelled :: bool
  assumes refused: "accept st = (Inl e, st') \<Longrightarrow> tgReset st'"
    and accepted: "accept st = (Inr a, st') \<Longrightarrow> permits (tgService st) (tgMetadata st)
      \<and> cnOut (tgConn st') = cnOut (tgConn st) @ targetAcceptedMessage \<and> tgReset st' = tgReset st"
    and silent: "accept st = (res, st') \<Longrightarrow> \<not> permits (tgService st) (tgMetadata st) \<Longrightarrow> tgConn st' = tgConn st"
    and answers: "permits (tgService st) (tgMetadata st) \<Longrightarrow> \<not> cancelled \<Longrightarrow> cnScript (tgConn st) = []
      \<Longrightarrow> \<exists>a st'. accept st = (Inr a, st')"
begin

lemma answer_exact:
  assumes "\<not> cancelled"
  shows "peerAnswer accept service metadata = (if permits service metadata then (targetAcceptedMessage, False) else ([], True))"
proof (cases "permits service metadata")
  case True
  then obtain a st' where st': "accept (freshStream service metadata) = (Inr a, st')"
    using answers [of "freshStream service metadata"] assms by (auto simp: freshStream_def)
  from accepted [OF st'] True st' show ?thesis by (simp add: peerAnswer_def freshStream_def)
next
  case False
  obtain res st' where st': "accept (freshStream service metadata) = (res, st')" by fastforce
  have "tgReset st'"
    using False st' accepted [of "freshStream service metadata" _ st'] refused [of "freshStream service metadata" _ st']
    by (cases res) (auto simp: freshStream_def)
  then show ?thesis using False st' silent [OF st'] by (simp add: peerAnswer_def freshStream_def)
qed

lemma opener_exact:
  assumes "\<not> cancelled" "ServiceID_Valid service" "service \<noteq> ServiceControl" "EncodeOpenMetadata js node data = Inr metadata"
  shows "OpenTarget js (\<lambda>s m. Inr (peerAnswer accept s m)) False node service data =
    (if permits service metadata then Inr [] else Inl (ErrTargetDenied (ErrControlIO ErrStreamReset)))"
  using assms by (simp add: OpenTarget_def answer_exact ReadFull_def targetAcceptedMessage_def)

end

definition registry_permits :: "target_json \<Rightarrow> NodeRegistry \<Rightarrow> string \<Rightarrow> TargetPolicy option \<Rightarrow> u16 \<Rightarrow> bytes \<Rightarrow> bool" where
  "registry_permits js r currentNode policy service metadata =
     (service \<noteq> ServiceControl \<and> (\<exists>md n. DecodeOpenMetadata js metadata = Inr md
        \<and> Registry_Authorize r (omNode md) currentNode service = Inr n \<and> Option.bind policy (\<lambda>p. p n service) = None))"

definition local_permits :: "target_json \<Rightarrow> NodeContext \<Rightarrow> u16 list \<Rightarrow> u16 \<Rightarrow> bytes \<Rightarrow> bool" where
  "local_permits js context advertised service metadata =
     (service \<noteq> ServiceControl \<and> NodeContext_Validate (NodeContext_Normalized context) = None
      \<and> checkAdvertised (ncCapabilities (NodeContext_Normalized context)) advertised = None \<and> service \<in> set advertised
      \<and> (\<exists>md. DecodeOpenMetadata js metadata = Inr md \<and> referenceResolvesToLocal (omNode md) (NodeContext_Normalized context)))"

lemma authorizeTarget_permits:
  "(\<exists>a. authorizeTarget js r currentNode policy st = Inr a) \<longleftrightarrow> registry_permits js r currentNode policy (tgService st) (tgMetadata st)"
  by (auto simp: authorizeTarget_def registry_permits_def split: sum.splits option.splits)

lemma acknowledge_cases:
  assumes "AcknowledgePendingTarget cancelled st = (res, st')"
  shows "res \<noteq> None \<Longrightarrow> tgReset st'" "res = None \<Longrightarrow> cnOut (tgConn st') = cnOut (tgConn st) @ targetAcceptedMessage \<and> tgReset st' = tgReset st"
    "\<not> cancelled \<Longrightarrow> cnScript (tgConn st) = [] \<Longrightarrow> res = None"
  using assms
  by (auto simp: AcknowledgePendingTarget_def acknowledge_def resetTarget_def writeFull_empty_script
      split: if_splits prod.splits option.splits dest: writeFull_ok)

lemma AuthorizePendingLocal_cases:
  assumes "AuthorizePendingLocal pending context advertised st = (res, st')"
  shows "isl res \<Longrightarrow> st' = resetTarget st" "\<not> isl res \<Longrightarrow> st' = st"
  using assms by (auto simp: AuthorizePendingLocal_def Let_def split: if_splits option.splits)

lemma InspectAcceptedTarget_Inr:
  "InspectAcceptedTarget js st = (Inr pending, st') \<longleftrightarrow> st' = st \<and> tgService st \<noteq> ServiceControl
     \<and> (\<exists>md. DecodeOpenMetadata js (tgMetadata st) = Inr md
          \<and> pending = \<lparr>ptNodeRef = omNode md, ptService = tgService st, ptData = omData md\<rparr>)"
  by (auto simp: InspectAcceptedTarget_def split: sum.splits)

lemma AuthorizePendingLocal_Inr:
  "AuthorizePendingLocal pending context advertised st = (Inr a, st') \<longleftrightarrow>
     st' = st \<and> ptService pending = tgService st \<and> tgService st \<noteq> ServiceControl
     \<and> NodeContext_Validate (NodeContext_Normalized context) = None
     \<and> checkAdvertised (ncCapabilities (NodeContext_Normalized context)) advertised = None
     \<and> referenceResolvesToLocal (ptNodeRef pending) (NodeContext_Normalized context) \<and> tgService st \<in> set advertised
     \<and> a = \<lparr>atNode = localNode (NodeContext_Normalized context), atData = ptData pending\<rparr>"
  by (auto simp: AuthorizePendingLocal_def Let_def split: option.splits)

lemma local_pending:
  "(\<exists>pending a. InspectAcceptedTarget js st = (Inr pending, st) \<and> AuthorizePendingLocal pending context advertised st = (Inr a, st))
     \<longleftrightarrow> local_permits js context advertised (tgService st) (tgMetadata st)"
  by (auto simp: InspectAcceptedTarget_Inr AuthorizePendingLocal_Inr local_permits_def)

interpretation reg_target: target_acceptor "AuthorizeAcceptedTarget js r currentNode policy cancelled"
    "registry_permits js r currentNode policy" cancelled for js r currentNode policy cancelled
proof unfold_locales
  fix st st' res e a
  let ?A = "AuthorizeAcceptedTarget js r currentNode policy cancelled"
  show "?A st = (Inl e, st') \<Longrightarrow> tgReset st'"
    by (auto simp: AuthorizeAcceptedTarget_def resetTarget_def split: sum.splits prod.splits option.splits dest: acknowledge_cases)
  show "?A st = (Inr a, st') \<Longrightarrow> registry_permits js r currentNode policy (tgService st) (tgMetadata st)
      \<and> cnOut (tgConn st') = cnOut (tgConn st) @ targetAcceptedMessage \<and> tgReset st' = tgReset st"
    unfolding AuthorizeAcceptedTarget_def authorizeTarget_permits [symmetric]
    by (auto split: sum.splits prod.splits option.splits dest: acknowledge_cases)
  show "?A st = (res, st') \<Longrightarrow> \<not> registry_permits js r currentNode policy (tgService st) (tgMetadata st) \<Longrightarrow> tgConn st' = tgConn st"
    unfolding AuthorizeAcceptedTarget_def authorizeTarget_permits [symmetric]
    by (auto simp: resetTarget_def split: sum.splits)
  assume p: "registry_permits js r currentNode policy (tgService st) (tgMetadata st)" "\<not> cancelled" "cnScript (tgConn st) = []"
  obtain b st1 where k: "AcknowledgePendingTarget cancelled st = (b, st1)" by fastforce
  with acknowledge_cases(3) [OF k p(2,3)] p(1) show "\<exists>a st'. ?A st = (Inr a, st')"
    unfolding AuthorizeAcceptedTarget_def authorizeTarget_permits [symmetric] by auto
qed

interpretation local_target: target_acceptor "AuthorizeAcceptedLocal js cancelled lctx advertised"
    "local_permits js lctx advertised" cancelled for js cancelled lctx advertised
proof unfold_locales
  fix st st' res e a
  let ?A = "AuthorizeAcceptedLocal js cancelled lctx advertised"
  have insp: "InspectAcceptedTarget js st = (p, st1) \<Longrightarrow> st1 = (if isl p then resetTarget st else st)" for p st1
    by (auto simp: InspectAcceptedTarget_def split: if_splits sum.splits)
  show "?A st = (Inl e, st') \<Longrightarrow> tgReset st'"
    by (auto simp: AuthorizeAcceptedLocal_def resetTarget_def split: sum.splits prod.splits option.splits
        dest!: insp dest: acknowledge_cases AuthorizePendingLocal_cases)
  show "?A st = (Inr a, st') \<Longrightarrow> local_permits js lctx advertised (tgService st) (tgMetadata st)
      \<and> cnOut (tgConn st') = cnOut (tgConn st) @ targetAcceptedMessage \<and> tgReset st' = tgReset st"
    by (auto simp: AuthorizeAcceptedLocal_def InspectAcceptedTarget_Inr AuthorizePendingLocal_Inr local_permits_def
        split: sum.splits prod.splits option.splits dest: acknowledge_cases(2))
  have "tgConn (snd (?A st)) = tgConn st" if n: "\<not> local_permits js lctx advertised (tgService st) (tgMetadata st)"
  proof (cases "InspectAcceptedTarget js st")
    case (Pair p st1)
    show ?thesis
    proof (cases p)
      case (Inl e')
      then show ?thesis using Pair insp [OF Pair] by (simp add: AuthorizeAcceptedLocal_def resetTarget_def)
    next
      case (Inr pending)
      have st1: "st1 = st" using insp [OF Pair] Inr by simp
      obtain q st2 where q: "AuthorizePendingLocal pending lctx advertised st = (q, st2)" by fastforce
      have "isl q"
        using n q Inr Pair st1 AuthorizePendingLocal_cases(2) [OF q] unfolding local_pending [symmetric] by (cases q) auto
      with q Inr Pair st1 AuthorizePendingLocal_cases(1) [OF q] show ?thesis
        by (cases q) (simp_all add: AuthorizeAcceptedLocal_def resetTarget_def)
    qed
  qed
  then show "?A st = (res, st') \<Longrightarrow> \<not> local_permits js lctx advertised (tgService st) (tgMetadata st) \<Longrightarrow> tgConn st' = tgConn st"
    by force
  assume p: "local_permits js lctx advertised (tgService st) (tgMetadata st)" "\<not> cancelled" "cnScript (tgConn st) = []"
  obtain b st1 where k: "AcknowledgePendingTarget cancelled st = (b, st1)" by fastforce
  obtain pending c where q: "InspectAcceptedTarget js st = (Inr pending, st)" "AuthorizePendingLocal pending lctx advertised st = (Inr c, st)"
    using p(1) unfolding local_pending [symmetric] by blast
  with k acknowledge_cases(3) [OF k p(2,3)] show "\<exists>a st'. ?A st = (Inr a, st')" by (simp add: AuthorizeAcceptedLocal_def)
qed

lemma authorized_capability:
  assumes "registerAll NewRegistry ops = r" "Registry_Authorize r ref current service = Inr n"
  shows "serviceAuthorizedByCapabilities (ncCapabilities (ndContext n)) service"
proof -
  obtain name node where t: "map_of (nrNodes r) name = Some node" "service \<in> set (ndServices node)" "n = cloneNode node"
    using assms(2) by (auto simp: Registry_Authorize_Inr)
  have "reg_node (set ops) r name node" using registerAll_new [of ops] assms(1) t(1) by (auto simp: reg_inv_def)
  then show ?thesis using t(2,3) NodeContext_renormalized(3) by (auto simp: reg_node_def cloneNode_def list_all_iff)
qed

text \<open>
  C18: An acceptor writes to a stream only if its metadata names a registered node whose signed capabilities
  permit the stream's service and the policy agrees; when it accepts, exactly the acknowledgement was
  written; when it refuses, for whatever reason, the stream is reset.
\<close>

theorem target_acknowledged_authorized:
  assumes "registerAll NewRegistry ops = r" "AuthorizeAcceptedTarget js r currentNode policy cancelled st = (res, st')"
  shows "(isl res \<longrightarrow> tgReset st')
    \<and> (tgConn st' \<noteq> tgConn st \<longrightarrow> (\<exists>md n. DecodeOpenMetadata js (tgMetadata st) = Inr md
         \<and> Registry_Authorize r (omNode md) currentNode (tgService st) = Inr n
         \<and> serviceAuthorizedByCapabilities (ncCapabilities (ndContext n)) (tgService st)
         \<and> Option.bind policy (\<lambda>p. p n (tgService st)) = None))
    \<and> (res = Inr a \<longrightarrow> cnOut (tgConn st') = cnOut (tgConn st) @ targetAcceptedMessage \<and> tgReset st' = tgReset st)"
proof (intro conjI impI)
  show "tgReset st'" if "isl res" using that assms(2) reg_target.refused by (cases res) auto
  show "cnOut (tgConn st') = cnOut (tgConn st) @ targetAcceptedMessage" "tgReset st' = tgReset st" if "res = Inr a"
    using that assms(2) reg_target.accepted by blast+
  assume "tgConn st' \<noteq> tgConn st"
  then have "registry_permits js r currentNode policy (tgService st) (tgMetadata st)" using reg_target.silent assms(2) by blast
  then show "\<exists>md n. DecodeOpenMetadata js (tgMetadata st) = Inr md \<and> Registry_Authorize r (omNode md) currentNode (tgService st) = Inr n
       \<and> serviceAuthorizedByCapabilities (ncCapabilities (ndContext n)) (tgService st) \<and> Option.bind policy (\<lambda>p. p n (tgService st)) = None"
    using authorized_capability [OF assms(1)] unfolding registry_permits_def by blast
qed

text \<open>JSON gives back what was written, for texts in ASCII.\<close>

definition ascii :: "string \<Rightarrow> bool" where
  "ascii s = list_all (\<lambda>c. (of_char c :: nat) < 128) s"

definition json_faithful :: "target_json \<Rightarrow> bool" where
  "json_faithful js =
     (\<forall>m. ascii (omProtocol m) \<and> ascii (omNode m) \<longrightarrow> (\<exists>payload. tjText js m = Some payload \<and> tjDecode js payload = Some m))"

lemma Encode_Decode:
  assumes "json_faithful js" "ascii (TrimSpace node)" "TrimSpace node \<noteq> []"
  obtains payload where "EncodeOpenMetadata js node data = Inr payload"
    "DecodeOpenMetadata js payload = Inr \<lparr>omProtocol = targetProtocol, omNode = TrimSpace node, omData = data\<rparr>"
proof -
  let ?m = "\<lparr>omProtocol = targetProtocol, omNode = TrimSpace node, omData = data\<rparr>"
  have "ascii targetProtocol" by code_simp
  then obtain payload where "tjText js ?m = Some payload" "tjDecode js payload = Some ?m"
    using assms(1,2) unfolding json_faithful_def by (metis OpenMetadata.select_convs(1,2))
  then show thesis using that [of payload] assms(3) by (simp add: EncodeOpenMetadata_def DecodeOpenMetadata_def)
qed

text \<open>
  C30: An opener gets the stream exactly when the node at the other end authorises it: through its registry
  and policy, or, where it serves only itself, when the reference means that node and the service is one
  it advertises. In every other case the stream is reset and the opener is denied.
\<close>

theorem open_target_exact:
  assumes "json_faithful js" "ascii (TrimSpace node)" "TrimSpace node \<noteq> []" "ServiceID_Valid service" "service \<noteq> ServiceControl"
  shows "OpenTarget js (\<lambda>s m. Inr (peerAnswer (AuthorizeAcceptedTarget js r currentNode policy False) s m)) False node service data =
      (if \<exists>n. Registry_Authorize r (TrimSpace node) currentNode service = Inr n \<and> Option.bind policy (\<lambda>p. p n service) = None
       then Inr [] else Inl (ErrTargetDenied (ErrControlIO ErrStreamReset)))
    \<and> OpenTarget js (\<lambda>s m. Inr (peerAnswer (AuthorizeAcceptedLocal js False local advertised) s m)) False node service data =
      (if NodeContext_Validate (NodeContext_Normalized local) = None
          \<and> checkAdvertised (ncCapabilities (NodeContext_Normalized local)) advertised = None
          \<and> service \<in> set advertised \<and> referenceResolvesToLocal (TrimSpace node) (NodeContext_Normalized local)
       then Inr [] else Inl (ErrTargetDenied (ErrControlIO ErrStreamReset)))"
proof -
  obtain payload where p: "EncodeOpenMetadata js node data = Inr payload"
      "DecodeOpenMetadata js payload = Inr \<lparr>omProtocol = targetProtocol, omNode = TrimSpace node, omData = data\<rparr>"
    using assms(1-3) by (rule Encode_Decode)
  have live: "\<not> False" by simp
  show ?thesis
    unfolding reg_target.opener_exact [OF live assms(4,5) p(1)] local_target.opener_exact [OF live assms(4,5) p(1)]
    using assms(5) p(2) by (simp add: registry_permits_def local_permits_def)
qed

section \<open>A registered node\<close>

definition demo_proxy :: NodeContext where
  "demo_proxy = (demo_context AudienceNodeContext)\<lparr>ncCapabilities := [CapabilityNodeContext, CapabilitySocksProxy]\<rparr>"

definition demo_registry_ops :: "(go_time \<times> NodeContext \<times> u16 list) list" where
  "demo_registry_ops = [(0, demo_proxy, [ServiceTCP])]"

definition demo_target_json :: target_json where
  "demo_target_json =
     \<lparr>tjText = (\<lambda>m. Some (toBytes (omProtocol m) @ 255 # toBytes (omNode m) @ 255 # omData m)),
      tjDecode = (\<lambda>b. let p = takeWhile (\<lambda>x. x \<noteq> 255) b; r = drop (Suc (length p)) b;
                          n = takeWhile (\<lambda>x. x \<noteq> 255) r in
                      Some \<lparr>omProtocol = ofBytes p, omNode = ofBytes n, omData = drop (Suc (length n)) r\<rparr>)\<rparr>"

lemma demo_proxy_normal: "NodeContext_Normalized demo_proxy = demo_proxy"
proof -
  have "normalizeCapabilities [CapabilityNodeContext, CapabilitySocksProxy] = [CapabilityNodeContext, CapabilitySocksProxy]" by code_simp
  then show ?thesis
    by (intro NodeContext.equality)
       (simp_all add: NodeContext_Normalized_sel demo_proxy_def demo_context_def demo_node_strings demo_grant_strings
         audience_default NodeContextVersion_def Algorithm_def del: trimUnique.simps)
qed

lemma demo_proxy_valid: "NodeContext_Validate demo_proxy = None"
proof -
  have "knownCapability CapabilitySocksProxy" by code_simp
  then show ?thesis
    unfolding NodeContext_Validate_def demo_proxy_normal Let_def
    by (simp add: demo_proxy_def demo_context_def demo_grant_strings nodeInContext_def hasCapability_def demo_node_strings
        audience_default(1) not_sym [OF audience_default(2)])
qed

definition demo_gate_node :: Node where
  "demo_gate_node = \<lparr>ndID = ''gate'', ndIndex = 1, ndContext = demo_proxy, ndServices = [ServiceTCP, ServiceControl]\<rparr>"

definition demo_nodes :: NodeRegistry where
  "demo_nodes = \<lparr>nrChainID = ''c1'', nrChainSHA256 = replicate 64 (CHR ''b''), nrOrder = [''client'', ''gate'', ''host''],
     nrNodes = [(''gate'', demo_gate_node)]\<rparr>"

lemma demo_registry: "registerAll NewRegistry demo_registry_ops = demo_nodes"
proof -
  have "normalizeServices demo_proxy [ServiceTCP] = Inr [ServiceTCP, ServiceControl]"
    unfolding normalizeServices_def by (simp add: demo_proxy_def) code_simp
  then have "RegisterVerified 0 NewRegistry demo_proxy [ServiceTCP] = (Inr demo_gate_node, demo_nodes)"
    unfolding RegisterVerified_def demo_proxy_normal Let_def
    by (simp add: demo_proxy_valid adoptChain_def NewRegistry_def demo_gate_node_def demo_nodes_def cloneNode_def demo_proxy_normal)
       (simp add: demo_proxy_def demo_context_def go_unix_def indexOf_def)
  then show ?thesis by (simp add: demo_registry_ops_def)
qed

lemma demo_authorized: "Registry_Authorize demo_nodes ''self'' ''gate'' ServiceTCP = Inr demo_gate_node"
proof -
  have "targetName demo_nodes ''self'' ''gate'' = Some ''gate''" unfolding demo_nodes_def by code_simp
  then show ?thesis
    unfolding Registry_Authorize_Inr by (simp add: demo_nodes_def demo_gate_node_def cloneNode_def demo_proxy_normal)
qed

theorem registry_authorizes_registered_witness:
  "registerAll NewRegistry demo_registry_ops = demo_nodes \<and> Registry_Authorize demo_nodes ''self'' ''gate'' ServiceTCP = Inr demo_gate_node
   \<and> Topology demo_nodes ! nat (ndIndex demo_gate_node) = ndID demo_gate_node
   \<and> serviceAuthorizedByCapabilities (ncCapabilities (ndContext demo_gate_node)) ServiceTCP"
  using registry_authorizes_registered [OF demo_registry demo_authorized] demo_registry demo_authorized by simp

lemma demo_json_faithful: "json_faithful demo_target_json"
proof -
  have no: "x \<noteq> 255" if a: "ascii s" and x: "x \<in> set (toBytes s)" for s x
  proof -
    obtain c where c: "c \<in> set s" "x = of_nat (of_char c)" using x by (auto simp: toBytes_def)
    then have "(of_char c :: nat) < 128" using a by (auto simp: ascii_def list_all_iff)
    then have "unat x < 128" unfolding c(2) by (simp add: unat_of_nat)
    then show ?thesis by auto
  qed
  have tw: "takeWhile (\<lambda>x. x \<noteq> 255) (toBytes s @ 255 # bs) = toBytes s" if "ascii s" for s bs
    using no [OF that] by (subst takeWhile_append2) auto
  show ?thesis by (simp add: json_faithful_def demo_target_json_def Let_def tw)
qed

definition demo_target_stream :: target_stream where
  "demo_target_stream = freshStream ServiceTCP (the (tjText demo_target_json \<lparr>omProtocol = targetProtocol, omNode = ''self'', omData = [7]\<rparr>))"

lemma demo_target_decodes:
  "DecodeOpenMetadata demo_target_json (tgMetadata demo_target_stream) = Inr \<lparr>omProtocol = targetProtocol, omNode = ''self'', omData = [7]\<rparr>"
proof -
  have "TrimSpace ''self'' = ''self''" "ascii ''self''" by code_simp+
  then obtain payload where "EncodeOpenMetadata demo_target_json ''self'' [7] = Inr payload"
      "DecodeOpenMetadata demo_target_json payload = Inr \<lparr>omProtocol = targetProtocol, omNode = ''self'', omData = [7]\<rparr>"
    using Encode_Decode [OF demo_json_faithful, of "''self''" "[7]"] by auto
  then show ?thesis by (simp add: demo_target_stream_def freshStream_def EncodeOpenMetadata_def demo_target_json_def \<open>TrimSpace ''self'' = ''self''\<close>)
qed

theorem target_acknowledged_authorized_witness:
  "\<exists>a st'. AuthorizeAcceptedTarget demo_target_json demo_nodes ''gate'' None False demo_target_stream = (Inr a, st')
     \<and> cnOut (tgConn st') = [87, 86, 84, 65, 1] \<and> \<not> tgReset st'"
proof -
  have "registry_permits demo_target_json demo_nodes ''gate'' None (tgService demo_target_stream) (tgMetadata demo_target_stream)"
    using demo_target_decodes demo_authorized by (auto simp: registry_permits_def demo_target_stream_def freshStream_def)
  then obtain a st' where "AuthorizeAcceptedTarget demo_target_json demo_nodes ''gate'' None False demo_target_stream = (Inr a, st')"
    using reg_target.answers [of demo_target_json demo_nodes "''gate''" None demo_target_stream False]
    by (auto simp: demo_target_stream_def freshStream_def)
  with target_acknowledged_authorized [OF demo_registry this] show ?thesis
    by (auto simp: demo_target_stream_def freshStream_def targetAcceptedMessage_def)
qed

theorem open_target_exact_witness:
  "OpenTarget demo_target_json (\<lambda>s m. Inr (peerAnswer (AuthorizeAcceptedTarget demo_target_json demo_nodes ''gate'' None False) s m))
     False ''self'' ServiceTCP [7] = Inr []"
proof -
  have t: "TrimSpace ''self'' = ''self''" "ascii (TrimSpace ''self'')" "TrimSpace ''self'' \<noteq> []"
    "ServiceID_Valid ServiceTCP" "ServiceTCP \<noteq> ServiceControl" by code_simp+
  from open_target_exact [OF demo_json_faithful t(2-5), of demo_nodes "''gate''" None "[7]"] demo_authorized
  show ?thesis by (simp add: t(1))
qed

end
