(* ===== verification/Auth_Reconnect.thy ===== *)
theory Auth_Reconnect
  imports Auth_Node
begin

text \<open>
  Reconnect identities of \<open>authproof/reconnect_identity.go\<close>: an authority signs a node's key together with
  its node context, so that the node can prove who it is when its transport is replaced. Cryptography and
  JSON are parameters as in \<open>Auth_Node\<close>.

  Shown: a verified identity is exactly the signed one, binds a 32-byte key to its digest and a
  consistent context that is valid now and for the chain and node asked for; an identity that was signed
  verifies.
\<close>

section \<open>Identities\<close>

definition ReconnectIdentityVersion :: string where "ReconnectIdentityVersion = ''weaverssh.reconnect-identity.v1''"
definition AudienceReconnectIdentity :: string where "AudienceReconnectIdentity = ''wv-reconnect-identity''"

record ReconnectIdentity =
  riVersion :: string
  riAlgorithm :: string
  riAudience :: string
  riContext :: NodeContext
  riNodePublicKey :: string
  riNodeKeySHA256 :: string

record SignedReconnectIdentity =
  siIdentity :: ReconnectIdentity
  siSignature :: string

record ReconnectIdentityVerifyOptions =
  roNow :: go_time
  roAudience :: string
  roChainID :: string
  roChainSHA256 :: string
  roCurrentNode :: string
  roMaxTTL :: go_duration

definition decodeReconnectPublicKey :: "string \<Rightarrow> auth_error + bytes" where
  "decodeReconnectPublicKey raw =
     (case b64Decode (TrimSpace raw) of
        None \<Rightarrow> Inl ErrInvalidReconnectIdentity
      | Some decoded \<Rightarrow> if length decoded \<noteq> 32 then Inl ErrInvalidReconnectIdentity else Inr decoded)"

definition publicKeySHA256 :: "crypto \<Rightarrow> bytes \<Rightarrow> string" where
  "publicKeySHA256 C key = SHA256Hex C key"

definition Identity_Normalized :: "crypto \<Rightarrow> ReconnectIdentity \<Rightarrow> ReconnectIdentity" where
  "Identity_Normalized C i =
     (let pub = TrimSpace (riNodePublicKey i); sum = ToLower (TrimSpace (riNodeKeySHA256 i)) in
      \<lparr>riVersion = TrimSpace (if riVersion i = [] then ReconnectIdentityVersion else riVersion i),
       riAlgorithm = TrimSpace (if riAlgorithm i = [] then Algorithm else riAlgorithm i),
       riAudience = TrimSpace (if riAudience i = [] then AudienceReconnectIdentity else riAudience i),
       riContext = NodeContext_Normalized (riContext i),
       riNodePublicKey = (case decodeReconnectPublicKey pub of Inl _ \<Rightarrow> pub | Inr key \<Rightarrow> b64Encode key),
       riNodeKeySHA256 = (case decodeReconnectPublicKey pub of Inl _ \<Rightarrow> sum | Inr key \<Rightarrow> if sum = [] then publicKeySHA256 C key else sum)\<rparr>)"

definition Identity_Validate :: "crypto \<Rightarrow> ReconnectIdentity \<Rightarrow> auth_error option" where
  "Identity_Validate C raw =
     (let i = Identity_Normalized C raw in
      if riVersion i \<noteq> ReconnectIdentityVersion \<or> riAlgorithm i \<noteq> Algorithm \<or> riAudience i \<noteq> AudienceReconnectIdentity
        then Some ErrInvalidReconnectIdentity
      else if NodeContext_Validate (riContext i) \<noteq> None then Some ErrInvalidReconnectIdentity
      else if ncAudience (riContext i) \<noteq> AudienceNodeContext then Some ErrInvalidReconnectIdentity
      else case decodeReconnectPublicKey (riNodePublicKey i) of
        Inl e \<Rightarrow> Some e
      | Inr key \<Rightarrow> if riNodeKeySHA256 i \<noteq> publicKeySHA256 C key then Some ErrInvalidReconnectIdentity else None)"

definition NewReconnectIdentity :: "crypto \<Rightarrow> NodeContext \<Rightarrow> bytes \<Rightarrow> auth_error + ReconnectIdentity" where
  "NewReconnectIdentity C ctx nodePublicKey =
     (if length nodePublicKey \<noteq> 32 then Inl ErrInvalidReconnectIdentity
      else
      let identity = Identity_Normalized C
        \<lparr>riVersion = [], riAlgorithm = [], riAudience = [], riContext = ctx,
         riNodePublicKey = b64Encode nodePublicKey, riNodeKeySHA256 = publicKeySHA256 C nodePublicKey\<rparr> in
      case Identity_Validate C identity of
        Some e \<Rightarrow> Inl e
      | None \<Rightarrow> Inr identity)"

definition Identity_PublicKey :: "crypto \<Rightarrow> ReconnectIdentity \<Rightarrow> auth_error + bytes" where
  "Identity_PublicKey C raw =
     (let i = Identity_Normalized C raw in
      case Identity_Validate C i of
        Some e \<Rightarrow> Inl e
      | None \<Rightarrow> decodeReconnectPublicKey (riNodePublicKey i))"

definition canonicalReconnectIdentity ::
  "crypto \<Rightarrow> (ReconnectIdentity \<Rightarrow> bytes option) \<Rightarrow> ReconnectIdentity \<Rightarrow> auth_error + bytes \<times> ReconnectIdentity" where
  "canonicalReconnectIdentity C marshal identity =
     (let normalized = Identity_Normalized C identity in
      case Identity_Validate C normalized of
        Some e \<Rightarrow> Inl e
      | None \<Rightarrow> (case marshal normalized of None \<Rightarrow> Inl ErrMarshal | Some b \<Rightarrow> Inr (b, normalized)))"

definition SignReconnectIdentity ::
  "crypto \<Rightarrow> (ReconnectIdentity \<Rightarrow> bytes option) \<Rightarrow> ReconnectIdentity \<Rightarrow> bytes \<Rightarrow> auth_error + SignedReconnectIdentity" where
  "SignReconnectIdentity C marshal identity authorityPrivateKey =
     (if length authorityPrivateKey \<noteq> 64 then Inl ErrInvalidReconnectIdentity
      else case canonicalReconnectIdentity C marshal identity of
        Inl e \<Rightarrow> Inl e
      | Inr (canonical, normalized) \<Rightarrow>
          Inr \<lparr>siIdentity = normalized, siSignature = b64Encode (edSign C authorityPrivateKey canonical)\<rparr>)"

text \<open>The \<open>switch\<close> of \<open>VerifySignedReconnectIdentity\<close>.\<close>

definition reconnectOptionsError :: "ReconnectIdentityVerifyOptions \<Rightarrow> go_time \<Rightarrow> ReconnectIdentity \<Rightarrow> auth_error option" where
  "reconnectOptionsError opts now i =
     (let c = riContext i in
      if go_unix now < ncIssuedAtUnix c then Some ErrNotYetValid
      else if ncExpiresAtUnix c \<le> go_unix now then Some ErrExpiredGrant
      else if 0 < roMaxTTL opts \<and> roMaxTTL opts < ttlDuration (ncIssuedAtUnix c) (ncExpiresAtUnix c) then Some ErrGrantTTLTooLong
      else if TrimSpace (roAudience opts) \<noteq> [] \<and> riAudience i \<noteq> TrimSpace (roAudience opts) then Some ErrWrongAudience
      else if TrimSpace (roChainID opts) \<noteq> [] \<and> ncChainID c \<noteq> TrimSpace (roChainID opts) then Some ErrWrongChainHash
      else if TrimSpace (roChainSHA256 opts) \<noteq> [] \<and> ncChainSHA256 c \<noteq> ToLower (TrimSpace (roChainSHA256 opts)) then Some ErrWrongChainHash
      else if TrimSpace (roCurrentNode opts) \<noteq> [] \<and> ncCurrentNode c \<noteq> TrimSpace (roCurrentNode opts) then Some ErrWrongSubject
      else None)"

definition VerifySignedReconnectIdentity ::
  "crypto \<Rightarrow> (ReconnectIdentity \<Rightarrow> bytes option) \<Rightarrow> go_time \<Rightarrow> SignedReconnectIdentity \<Rightarrow> bytes
    \<Rightarrow> ReconnectIdentityVerifyOptions \<Rightarrow> auth_error + ReconnectIdentity" where
  "VerifySignedReconnectIdentity C marshal clock si authorityPublicKey opts =
     (if length authorityPublicKey \<noteq> 32 then Inl ErrInvalidSignature
      else case canonicalReconnectIdentity C marshal (siIdentity si) of
        Inl e \<Rightarrow> Inl e
      | Inr (canonical, identity) \<Rightarrow>
          (case b64Decode (TrimSpace (siSignature si)) of
             None \<Rightarrow> Inl ErrInvalidSignature
           | Some sig \<Rightarrow>
               if length sig \<noteq> 64 \<or> \<not> edVerify C authorityPublicKey canonical sig then Inl ErrInvalidSignature
               else case reconnectOptionsError opts (if roNow opts = 0 then clock else roNow opts) identity of
                 Some e \<Rightarrow> Inl e
               | None \<Rightarrow> Inr identity))"

definition ReconnectIdentitySHA256 ::
  "crypto \<Rightarrow> (ReconnectIdentity \<Rightarrow> bytes option) \<Rightarrow> (ReconnectIdentity \<Rightarrow> string \<Rightarrow> bytes option) \<Rightarrow> SignedReconnectIdentity \<Rightarrow> auth_error + string" where
  "ReconnectIdentitySHA256 C marshal marshalEnvelope si =
     (case canonicalReconnectIdentity C marshal (siIdentity si) of
        Inl e \<Rightarrow> Inl e
      | Inr (_, identity) \<Rightarrow>
          (case b64Decode (TrimSpace (siSignature si)) of
             None \<Rightarrow> Inl ErrInvalidSignature
           | Some decoded \<Rightarrow>
               if length decoded \<noteq> 64 then Inl ErrInvalidSignature
               else case marshalEnvelope identity (TrimSpace (siSignature si)) of
                 None \<Rightarrow> Inl ErrMarshal
               | Some envelope \<Rightarrow> Inr (SHA256Hex C envelope)))"

section \<open>Verification\<close>

definition reconnect_now :: "go_time \<Rightarrow> ReconnectIdentityVerifyOptions \<Rightarrow> go_time" where
  "reconnect_now clock opts = (if roNow opts = 0 then clock else roNow opts)"

lemma VerifySignedReconnectIdentity_Inr:
  "VerifySignedReconnectIdentity C marshal clock si pk opts = Inr i \<longleftrightarrow>
     length pk = 32 \<and> i = Identity_Normalized C (siIdentity si) \<and> Identity_Validate C i = None
     \<and> (\<exists>canonical sig. marshal i = Some canonical \<and> b64Decode (TrimSpace (siSignature si)) = Some sig
          \<and> length sig = 64 \<and> edVerify C pk canonical sig)
     \<and> reconnectOptionsError opts (reconnect_now clock opts) i = None"
  by (auto simp: VerifySignedReconnectIdentity_def canonicalReconnectIdentity_def reconnect_now_def Let_def
      split: if_splits option.splits sum.splits)

lemma hexEncode_normal: "ToLower (TrimSpace (hexEncode b)) = hexEncode b"
proof -
  have all: "c \<in> set (hexEncode b) \<Longrightarrow> lower_hex_digit c" for c
    using hexEncode_lower [of b] by (simp add: list_all_iff)
  have "trimmed (hexEncode b)"
    by (rule trimmed_graphic) (use all in \<open>fastforce simp: lower_hex_digit_def Let_def\<close>)
  moreover have "ToLower (hexEncode b) = hexEncode b"
    unfolding ToLower_def by (rule map_idI) (use all in \<open>fastforce simp: lower_char_def lower_hex_digit_def Let_def\<close>)
  ultimately show ?thesis by (simp add: TrimSpace_id)
qed

lemma publicKeySHA256_normal [simp]: "ToLower (TrimSpace (publicKeySHA256 C key)) = publicKeySHA256 C key"
  by (simp add: publicKeySHA256_def SHA256Hex_def hexEncode_normal)

lemma decode_b64 [simp]: "length key = 32 \<Longrightarrow> decodeReconnectPublicKey (b64Encode key) = Inr key"
  by (simp add: decodeReconnectPublicKey_def)

lemma decode_length: "decodeReconnectPublicKey raw = Inr key \<Longrightarrow> length key = 32"
  by (auto simp: decodeReconnectPublicKey_def split: option.splits if_splits)

lemma decode_trimmed [simp]: "decodeReconnectPublicKey (TrimSpace raw) = decodeReconnectPublicKey raw"
  by (simp add: decodeReconnectPublicKey_def)

lemma Identity_Normalized_context: "riContext (Identity_Normalized C i) = NodeContext_Normalized (riContext i)"
  by (simp add: Identity_Normalized_def Let_def)

lemma decode_normalized [simp]:
  "decodeReconnectPublicKey (riNodePublicKey (Identity_Normalized C i)) = decodeReconnectPublicKey (riNodePublicKey i)"
  by (cases "decodeReconnectPublicKey (riNodePublicKey i)") (simp_all add: Identity_Normalized_def Let_def decode_length)

text \<open>The key of a normal identity and its digest are normal.\<close>

lemma Identity_Normalized_key:
  assumes "i = Identity_Normalized C raw" "decodeReconnectPublicKey (riNodePublicKey i) = Inr key"
  shows "riNodePublicKey i = b64Encode key" "riNodePublicKey (Identity_Normalized C i) = riNodePublicKey i"
    "riNodeKeySHA256 (Identity_Normalized C i) = (if riNodeKeySHA256 i = [] then publicKeySHA256 C key else riNodeKeySHA256 i)"
    "riNodeKeySHA256 i = [] \<longrightarrow> publicKeySHA256 C key = []"
proof -
  have len: "length key = 32" by (rule decode_length [OF assms(2)])
  have raw: "decodeReconnectPublicKey (riNodePublicKey raw) = Inr key" using assms by simp
  show k: "riNodePublicKey i = b64Encode key"
    using raw unfolding assms(1) by (simp add: Identity_Normalized_def Let_def)
  then show "riNodePublicKey (Identity_Normalized C i) = riNodePublicKey i"
    using len by (simp add: Identity_Normalized_def Let_def)
  have sum: "ToLower (TrimSpace (riNodeKeySHA256 i)) = riNodeKeySHA256 i"
    using raw unfolding assms(1) by (simp add: Identity_Normalized_def Let_def)
  show "riNodeKeySHA256 (Identity_Normalized C i) = (if riNodeKeySHA256 i = [] then publicKeySHA256 C key else riNodeKeySHA256 i)"
    using len sum k by (simp add: Identity_Normalized_def [of C i] Let_def)
  show "riNodeKeySHA256 i = [] \<longrightarrow> publicKeySHA256 C key = []"
    using raw unfolding assms(1) by (simp add: Identity_Normalized_def Let_def)
qed

lemma Identity_Validate_facts:
  assumes "Identity_Validate C i = None" "i = Identity_Normalized C raw"
  shows "\<exists>key. length key = 32 \<and> riNodePublicKey i = b64Encode key \<and> riNodeKeySHA256 i = publicKeySHA256 C key"
    "NodeContext_Validate (riContext i) = None"
proof -
  let ?n = "Identity_Normalized C i"
  have v: "NodeContext_Validate (riContext ?n) = None"
    using assms(1) by (auto simp: Identity_Validate_def Let_def split: if_splits)
  obtain key where key: "decodeReconnectPublicKey (riNodePublicKey ?n) = Inr key" "riNodeKeySHA256 ?n = publicKeySHA256 C key"
    using assms(1) by (auto simp: Identity_Validate_def Let_def split: if_splits sum.splits)
  have "decodeReconnectPublicKey (riNodePublicKey i) = Inr key" using key(1) by simp
  note k = Identity_Normalized_key [OF assms(2) this]
  have "riNodeKeySHA256 i = publicKeySHA256 C key" using k(3,4) key(2) by (auto split: if_splits)
  then show "\<exists>key. length key = 32 \<and> riNodePublicKey i = b64Encode key \<and> riNodeKeySHA256 i = publicKeySHA256 C key"
    using k(1) decode_length [OF key(1)] by blast
  have "ncAudience (riContext i) = [] \<or> TrimSpace (ncAudience (riContext i)) \<noteq> []"
    unfolding assms(2) Identity_Normalized_context by (simp add: NodeContext_Normalized_sel)
  then have "NodeContext_Normalized (riContext ?n) = riContext ?n"
    unfolding Identity_Normalized_context by (rule NodeContext_Normalized_idem)
  then show "NodeContext_Validate (riContext i) = None"
    using v unfolding Identity_Normalized_context NodeContext_Validate_def by simp
qed

lemma reconnectOptionsError_None:
  "reconnectOptionsError opts now i = None \<Longrightarrow>
     ncIssuedAtUnix (riContext i) \<le> go_unix now \<and> go_unix now < ncExpiresAtUnix (riContext i)
     \<and> (TrimSpace (roAudience opts) \<noteq> [] \<longrightarrow> riAudience i = TrimSpace (roAudience opts))
     \<and> (TrimSpace (roChainID opts) \<noteq> [] \<longrightarrow> ncChainID (riContext i) = TrimSpace (roChainID opts))
     \<and> (TrimSpace (roChainSHA256 opts) \<noteq> [] \<longrightarrow> ncChainSHA256 (riContext i) = ToLower (TrimSpace (roChainSHA256 opts)))
     \<and> (TrimSpace (roCurrentNode opts) \<noteq> [] \<longrightarrow> ncCurrentNode (riContext i) = TrimSpace (roCurrentNode opts))"
  by (auto simp: reconnectOptionsError_def Let_def split: if_splits)

text \<open>
  A verified identity is the one the authority signed: the signature covers its encoding, it binds a
  32-byte node key to the key's digest, its context names the current node in a chain from origin to
  endpoint, the time is in the context's validity, and chain and node are the ones asked for.
\<close>

theorem reconnect_identity_sound:
  assumes "VerifySignedReconnectIdentity C marshal clock si pk opts = Inr i"
  shows "(\<exists>canonical sig. marshal i = Some canonical \<and> b64Decode (TrimSpace (siSignature si)) = Some sig \<and> edVerify C pk canonical sig)
    \<and> (\<exists>key. length key = 32 \<and> riNodePublicKey i = b64Encode key \<and> riNodeKeySHA256 i = publicKeySHA256 C key)
    \<and> ncCurrentNode (riContext i) \<in> set (ncNodes (riContext i)) \<and> ncOriginNode (riContext i) = hd (ncNodes (riContext i))
    \<and> ncEndpointNode (riContext i) = last (ncNodes (riContext i))
    \<and> ncIssuedAtUnix (riContext i) \<le> go_unix (reconnect_now clock opts) \<and> go_unix (reconnect_now clock opts) < ncExpiresAtUnix (riContext i)
    \<and> (TrimSpace (roChainID opts) \<noteq> [] \<longrightarrow> ncChainID (riContext i) = TrimSpace (roChainID opts))
    \<and> (TrimSpace (roChainSHA256 opts) \<noteq> [] \<longrightarrow> ncChainSHA256 (riContext i) = ToLower (TrimSpace (roChainSHA256 opts)))
    \<and> (TrimSpace (roCurrentNode opts) \<noteq> [] \<longrightarrow> ncCurrentNode (riContext i) = TrimSpace (roCurrentNode opts))"
proof -
  have v: "Identity_Validate C i = None" and n: "i = Identity_Normalized C (siIdentity si)"
    and sig: "\<exists>canonical sig. marshal i = Some canonical \<and> b64Decode (TrimSpace (siSignature si)) = Some sig \<and> edVerify C pk canonical sig"
    and o: "reconnectOptionsError opts (reconnect_now clock opts) i = None"
    using assms by (auto simp: VerifySignedReconnectIdentity_Inr)
  have c: "riContext i = NodeContext_Normalized (riContext (siIdentity si))" unfolding n by (rule Identity_Normalized_context)
  show ?thesis
    using sig Identity_Validate_facts(1) [OF v n] NodeContext_Validate_facts(1,3,4) [OF Identity_Validate_facts(2) [OF v n] c]
      reconnectOptionsError_None [OF o] by blast
qed

text \<open>
  Normalising twice is normalising once, unless version, algorithm or an audience consists of white
  space only.
\<close>

definition definite :: "string \<Rightarrow> bool" where
  "definite s = (s = [] \<or> TrimSpace s \<noteq> [])"

definition definite_identity :: "ReconnectIdentity \<Rightarrow> bool" where
  "definite_identity i =
     (definite (riVersion i) \<and> definite (riAlgorithm i) \<and> definite (riAudience i) \<and> definite (ncAudience (riContext i)))"

lemma reconnect_defaults:
  "TrimSpace ReconnectIdentityVersion = ReconnectIdentityVersion" "ReconnectIdentityVersion \<noteq> []"
  "TrimSpace Algorithm = Algorithm" "Algorithm \<noteq> []"
  "TrimSpace AudienceReconnectIdentity = AudienceReconnectIdentity" "AudienceReconnectIdentity \<noteq> []"
  by code_simp+

lemma Identity_Normalized_idem:
  assumes "definite_identity raw" "decodeReconnectPublicKey (riNodePublicKey raw) = Inr key"
  shows "Identity_Normalized C (Identity_Normalized C raw) = Identity_Normalized C raw"
proof (rule ReconnectIdentity.equality)
  let ?i = "Identity_Normalized C raw"
  have d: "decodeReconnectPublicKey (riNodePublicKey ?i) = Inr key" using assms(2) by simp
  note k = Identity_Normalized_key [OF refl d]
  show "riNodePublicKey (Identity_Normalized C ?i) = riNodePublicKey ?i" by (rule k(2))
  show "riNodeKeySHA256 (Identity_Normalized C ?i) = riNodeKeySHA256 ?i" using k(3,4) by simp
  show "riContext (Identity_Normalized C ?i) = riContext ?i"
    using assms(1) unfolding Identity_Normalized_context
    by (intro NodeContext_Normalized_idem) (simp add: definite_identity_def definite_def)
  show "riVersion (Identity_Normalized C ?i) = riVersion ?i" "riAlgorithm (Identity_Normalized C ?i) = riAlgorithm ?i"
    "riAudience (Identity_Normalized C ?i) = riAudience ?i"
    using assms(1) by (auto simp: Identity_Normalized_def Let_def definite_identity_def definite_def reconnect_defaults)
qed simp

text \<open>
  What the authority signs verifies: an identity without blank fields that was signed is accepted under
  the authority's key by every verifier whose options its context meets, and comes back normalised.
\<close>

theorem reconnect_signed_verifies:
  assumes "crypto_laws C priv pub" "length pub = 32" "definite_identity i"
    "SignReconnectIdentity C marshal i priv = Inr si"
    "reconnectOptionsError opts (reconnect_now clock opts) (Identity_Normalized C i) = None"
  shows "VerifySignedReconnectIdentity C marshal clock si pub opts = Inr (Identity_Normalized C i)"
proof -
  obtain canonical where v: "Identity_Validate C (Identity_Normalized C i) = None" and m: "marshal (Identity_Normalized C i) = Some canonical"
      and si: "si = \<lparr>siIdentity = Identity_Normalized C i, siSignature = b64Encode (edSign C priv canonical)\<rparr>"
    using assms(4) by (auto simp: SignReconnectIdentity_def canonicalReconnectIdentity_def Let_def split: if_splits sum.splits option.splits)
  obtain key where "length key = 32" "riNodePublicKey (Identity_Normalized C i) = b64Encode key"
    using Identity_Validate_facts(1) [OF v refl] by blast
  then have "decodeReconnectPublicKey (riNodePublicKey i) = Inr key" by (metis decode_b64 decode_normalized)
  from Identity_Normalized_idem [OF assms(3) this] show ?thesis
    unfolding VerifySignedReconnectIdentity_Inr using assms(1,2,5) v m by (auto simp: si crypto_laws_def)
qed

section \<open>A signed identity\<close>

definition demo_identity :: ReconnectIdentity where
  "demo_identity =
     \<lparr>riVersion = [], riAlgorithm = [], riAudience = [], riContext = demo_context [], riNodePublicKey = b64Encode (replicate 32 5), riNodeKeySHA256 = []\<rparr>"

definition demo_identity_marshal :: "ReconnectIdentity \<Rightarrow> bytes option" where
  "demo_identity_marshal i = Some (map (\<lambda>c. of_nat (of_char c)) (riNodeKeySHA256 i))"

definition demo_reconnect_options :: ReconnectIdentityVerifyOptions where
  "demo_reconnect_options =
     \<lparr>roNow = 62135597800 * go_second, roAudience = '' wv-reconnect-identity'', roChainID = ''c1'', roChainSHA256 = [],
      roCurrentNode = ''gate '', roMaxTTL = 60 * go_second\<rparr>"

lemma demo_identity_normal:
  "Identity_Normalized demo_crypto demo_identity =
     \<lparr>riVersion = ReconnectIdentityVersion, riAlgorithm = Algorithm, riAudience = AudienceReconnectIdentity,
      riContext = demo_context AudienceNodeContext, riNodePublicKey = b64Encode (replicate 32 5),
      riNodeKeySHA256 = publicKeySHA256 demo_crypto (replicate 32 5)\<rparr>"
  by (simp add: Identity_Normalized_def demo_identity_def demo_context_normal reconnect_defaults audience_default Let_def
      del: replicate.simps)

lemma demo_identity_valid: "Identity_Validate demo_crypto (Identity_Normalized demo_crypto demo_identity) = None"
proof -
  have d: "definite_identity demo_identity" "decodeReconnectPublicKey (riNodePublicKey demo_identity) = Inr (replicate 32 5)"
    by (simp_all add: definite_identity_def definite_def demo_identity_def demo_context_def del: replicate.simps)
  show ?thesis
    unfolding Identity_Validate_def Identity_Normalized_idem [OF d] unfolding demo_identity_normal Let_def
    by (simp add: demo_context_valid audience_default del: replicate.simps) (simp add: demo_context_def)
qed

lemma demo_identity_signs:
  "\<exists>si. SignReconnectIdentity demo_crypto demo_identity_marshal demo_identity (replicate 64 9) = Inr si"
  using demo_identity_valid
  by (simp add: SignReconnectIdentity_def canonicalReconnectIdentity_def demo_identity_marshal_def Let_def)

lemma demo_reconnect_ok:
  "reconnectOptionsError demo_reconnect_options (reconnect_now 0 demo_reconnect_options) (Identity_Normalized demo_crypto demo_identity) = None"
proof -
  have "TrimSpace '' wv-reconnect-identity'' = AudienceReconnectIdentity" by code_simp
  moreover have "ttlDuration 1000 1060 \<le> 60 * go_second" by (simp add: ttlDuration_def go_int64_def)
  ultimately show ?thesis
    unfolding demo_identity_normal
    by (simp add: reconnectOptionsError_def reconnect_now_def demo_reconnect_options_def demo_context_def go_unix_def demo_node_strings)
qed

theorem reconnect_signed_verifies_witness:
  "\<exists>si. SignReconnectIdentity demo_crypto demo_identity_marshal demo_identity (replicate 64 9) = Inr si
     \<and> VerifySignedReconnectIdentity demo_crypto demo_identity_marshal 0 si (replicate 32 7) demo_reconnect_options
         = Inr (Identity_Normalized demo_crypto demo_identity)"
proof -
  obtain si where si: "SignReconnectIdentity demo_crypto demo_identity_marshal demo_identity (replicate 64 9) = Inr si"
    using demo_identity_signs by blast
  have d: "definite_identity demo_identity" by (simp add: definite_identity_def definite_def demo_identity_def demo_context_def)
  have l: "length (replicate 32 (7 :: byte)) = 32" by simp
  show ?thesis using si reconnect_signed_verifies [OF demo_crypto_laws l d si demo_reconnect_ok] by blast
qed

lemma demo_identity_verifies:
  "\<exists>si. VerifySignedReconnectIdentity demo_crypto demo_identity_marshal 0 si (replicate 32 7) demo_reconnect_options
     = Inr (Identity_Normalized demo_crypto demo_identity)"
proof -
  have i: "Identity_Normalized demo_crypto (Identity_Normalized demo_crypto demo_identity) = Identity_Normalized demo_crypto demo_identity"
    by (rule Identity_Normalized_idem [where key = "replicate 32 5"])
       (simp_all add: definite_identity_def definite_def demo_identity_def demo_context_def del: replicate.simps)
  have "b64Decode (TrimSpace (b64Encode (edSign demo_crypto [] (the (demo_identity_marshal (Identity_Normalized demo_crypto demo_identity))))))
      = Some (edSign demo_crypto [] (the (demo_identity_marshal (Identity_Normalized demo_crypto demo_identity))))" by simp
  then show ?thesis
    unfolding VerifySignedReconnectIdentity_Inr
    using i demo_identity_valid demo_reconnect_ok demo_crypto_laws [of "[]" "replicate 32 7"]
    by (intro exI [of _ "\<lparr>siIdentity = Identity_Normalized demo_crypto demo_identity,
        siSignature = b64Encode (edSign demo_crypto [] (the (demo_identity_marshal (Identity_Normalized demo_crypto demo_identity))))\<rparr>"])
       (auto simp: crypto_laws_def demo_identity_marshal_def)
qed

theorem reconnect_identity_sound_witness:
  "\<exists>si i. VerifySignedReconnectIdentity demo_crypto demo_identity_marshal 0 si (replicate 32 7) demo_reconnect_options = Inr i
     \<and> (\<exists>key. length key = 32 \<and> riNodePublicKey i = b64Encode key \<and> riNodeKeySHA256 i = publicKeySHA256 demo_crypto key)"
  using demo_identity_verifies reconnect_identity_sound by blast

end
