(* ===== verification/Session_Reconnect.thy ===== *)
theory Session_Reconnect
  imports Session_Registry Auth_Reconnect
begin

text \<open>
  Registration of nodes on a control stream: \<open>sessioncontrol/control.go\<close>, \<open>registration_any.go\<close>,
  \<open>reconnect_types.go\<close>, \<open>reconnect_crypto.go\<close>, \<open>reconnect_stream.go\<close> and \<open>reconnect_mux.go\<close>. A node registers with a
  signed node context bound to the session, or answers a challenge of the acceptor with a statement
  signed by the key its reconnect identity certifies. Cryptography is the parameter of \<open>Auth_Grant\<close>; JSON,
  the random source, the clock and what the peer sends are parameters.

  Shown: a proof is accepted only from the node the challenge was made for, over exactly the challenge's
  link, transport and session, with a certified key, and a challenge is used once; what a node builds for a
  valid challenge is accepted; a registry changes only by a registration that was verified.
\<close>

section \<open>Messages\<close>

definition ProtocolVersion :: string where "ProtocolVersion = ''weaverssh.session-control.v1''"
definition messageRegister :: string where "messageRegister = ''node.register''"
definition messageAccepted :: string where "messageAccepted = ''node.registered''"
definition ReconnectProtocolVersion :: string where "ReconnectProtocolVersion = ''weaverssh.session-control.reconnect.v1''"
definition ReconnectChallengeVersion :: string where "ReconnectChallengeVersion = ''weaverssh.reconnect-challenge.v1''"
definition ReconnectStatementVersion :: string where "ReconnectStatementVersion = ''weaverssh.reconnect-statement.v1''"
definition reconnectChallengeType :: string where "reconnectChallengeType = ''node.reconnect.challenge''"
definition reconnectProofType :: string where "reconnectProofType = ''node.reconnect.prove''"
definition reconnectAcceptedType :: string where "reconnectAcceptedType = ''node.reconnected''"

abbreviation MaxReconnectChallengeTTL :: go_duration where "MaxReconnectChallengeTTL \<equiv> 120 * go_second"
abbreviation maxReconnectMessageBytes :: nat where "maxReconnectMessageBytes \<equiv> 131072"

record ReconnectChallenge =
  chVersion :: string
  chAlgorithm :: string
  chChallengeID :: string
  chLinkID :: string
  chTransportID :: string
  chSessionBinding :: string
  chChainSHA256 :: string
  chAcceptorNode :: string
  chProverNode :: string
  chIssuedAtUnix :: int
  chExpiresAtUnix :: int

record ReconnectStatement =
  smVersion :: string
  smAlgorithm :: string
  smChallengeSHA256 :: string
  smIdentitySHA256 :: string
  smLinkID :: string
  smTransportID :: string
  smSessionBinding :: string
  smChainSHA256 :: string
  smAcceptorNode :: string
  smProverNode :: string
  smServices :: "u16 list"

record ReconnectProof =
  rpStatement :: ReconnectStatement
  rpSignature :: string

record ReconnectChallengeEnvelope =
  cvType :: string
  cvProtocol :: string
  cvChallenge :: ReconnectChallenge

record ReconnectProofEnvelope =
  pvType :: string
  pvProtocol :: string
  pvIdentity :: SignedReconnectIdentity
  pvProof :: ReconnectProof

record RegisterRequest =
  rqType :: string
  rqProtocol :: string
  rqSessionBinding :: string
  rqSignedContext :: SignedNodeContext
  rqServices :: "u16 list"

record RegisterResponse =
  rrType :: string
  rrProtocol :: string
  rrNode :: string
  rrServices :: "u16 list"
  rrError :: string

text \<open>The JSON forms that are signed or hashed, and those of the messages. \<open>bool\<close> says that nothing follows the value.\<close>

record control_json =
  cjContext :: "NodeContext \<Rightarrow> bytes option"
  cjIdentity :: "ReconnectIdentity \<Rightarrow> bytes option"
  cjSignedIdentity :: "ReconnectIdentity \<Rightarrow> string \<Rightarrow> bytes option"
  cjChallenge :: "ReconnectChallenge \<Rightarrow> bytes option"
  cjStatement :: "ReconnectStatement \<Rightarrow> bytes option"
  cjChallengeText :: "ReconnectChallengeEnvelope \<Rightarrow> bytes option"
  cjChallengeDecode :: "bytes \<Rightarrow> (ReconnectChallengeEnvelope \<times> bool) option"
  cjProofText :: "ReconnectProofEnvelope \<Rightarrow> bytes option"
  cjProofDecode :: "bytes \<Rightarrow> (ReconnectProofEnvelope \<times> bool) option"
  cjResponseText :: "RegisterResponse \<Rightarrow> bytes option"
  cjResponseDecode :: "bytes \<Rightarrow> (RegisterResponse \<times> bool) option"

section \<open>Checks\<close>

definition validSHA256 :: "string \<Rightarrow> bool" where
  "validSHA256 value = (length value = 64 \<and> value = ToLower value \<and> hexDecodes value)"

definition validReconnectText :: "string \<Rightarrow> nat \<Rightarrow> bool" where
  "validReconnectText raw maximum =
     (let value = TrimSpace raw in
      if value = [] \<or> maximum < length value then False else \<not> (has_control value \<or> has_space value))"

fun reconnectServices :: "u16 list \<Rightarrow> u16 list \<Rightarrow> control_error + u16 list" where
  "reconnectServices out [] = Inr out"
| "reconnectServices out (service # raw) =
     (if \<not> ServiceID_Valid service \<or> service = ServiceControl then Inl ErrReconnectProof
      else reconnectServices (if service \<in> set out then out else out @ [service]) raw)"

definition normalizeReconnectServices :: "u16 list \<Rightarrow> control_error + u16 list" where
  "normalizeReconnectServices raw =
     (if 64 < length raw then Inl ErrReconnectProof else map_sum id sort (reconnectServices [] raw))"

definition Challenge_Normalized :: "ReconnectChallenge \<Rightarrow> ReconnectChallenge" where
  "Challenge_Normalized c =
     c\<lparr>chVersion := TrimSpace (if chVersion c = [] then ReconnectChallengeVersion else chVersion c),
       chAlgorithm := TrimSpace (if chAlgorithm c = [] then Algorithm else chAlgorithm c),
       chChallengeID := TrimSpace (chChallengeID c), chTransportID := TrimSpace (chTransportID c),
       chSessionBinding := TrimSpace (chSessionBinding c), chChainSHA256 := ToLower (TrimSpace (chChainSHA256 c)),
       chAcceptorNode := TrimSpace (chAcceptorNode c), chProverNode := TrimSpace (chProverNode c)\<rparr>"

definition Statement_Normalized :: "ReconnectStatement \<Rightarrow> ReconnectStatement" where
  "Statement_Normalized s =
     s\<lparr>smVersion := TrimSpace (if smVersion s = [] then ReconnectStatementVersion else smVersion s),
       smAlgorithm := TrimSpace (if smAlgorithm s = [] then Algorithm else smAlgorithm s),
       smChallengeSHA256 := ToLower (TrimSpace (smChallengeSHA256 s)), smIdentitySHA256 := ToLower (TrimSpace (smIdentitySHA256 s)),
       smTransportID := TrimSpace (smTransportID s), smSessionBinding := TrimSpace (smSessionBinding s),
       smChainSHA256 := ToLower (TrimSpace (smChainSHA256 s)), smAcceptorNode := TrimSpace (smAcceptorNode s),
       smProverNode := TrimSpace (smProverNode s),
       smServices := (case normalizeReconnectServices (smServices s) of Inl _ \<Rightarrow> [] | Inr services \<Rightarrow> services)\<rparr>"

definition challengeShape :: "ReconnectChallenge \<Rightarrow> bool" where
  "challengeShape c =
     (chVersion c = ReconnectChallengeVersion \<and> chAlgorithm c = Algorithm \<and> validReconnectText (chChallengeID c) 512
      \<and> ValidateID (chLinkID c) = None \<and> ValidateTransportID (chTransportID c) = None
      \<and> validReconnectText (chSessionBinding c) 512 \<and> validSHA256 (chChainSHA256 c)
      \<and> validReconnectText (chAcceptorNode c) 256 \<and> validReconnectText (chProverNode c) 256
      \<and> chAcceptorNode c \<noteq> chProverNode c \<and> 0 < chIssuedAtUnix c \<and> chIssuedAtUnix c < chExpiresAtUnix c
      \<and> ttlDuration (chIssuedAtUnix c) (chExpiresAtUnix c) \<le> MaxReconnectChallengeTTL)"

definition nowOrCurrent :: "go_time \<Rightarrow> go_time \<Rightarrow> go_time" where
  "nowOrCurrent clock now = (if now = 0 then clock else now)"

definition Challenge_Validate :: "go_time \<Rightarrow> go_time \<Rightarrow> ReconnectChallenge \<Rightarrow> control_error option" where
  "Challenge_Validate clock now raw =
     (let c = Challenge_Normalized raw; t = go_unix (nowOrCurrent clock now) in
      if \<not> challengeShape c then Some ErrReconnectChallenge
      else if t < chIssuedAtUnix c \<or> chExpiresAtUnix c \<le> t then Some ErrReconnectChallenge
      else None)"

text \<open>The digest \<open>DeriveID\<close> uses.\<close>

definition linkDigest :: "crypto \<Rightarrow> string \<Rightarrow> string" where
  "linkDigest C s = SHA256Hex C (toBytes s)"

definition randomReconnectNonce :: "(nat \<Rightarrow> bytes option) \<Rightarrow> int \<Rightarrow> string option" where
  "randomReconnectNonce rand byteLen = map_option b64Encode (rand (nat (if byteLen \<le> 0 then 24 else byteLen)))"

definition NewReconnectChallenge ::
  "crypto \<Rightarrow> (nat \<Rightarrow> bytes option) \<Rightarrow> go_time \<Rightarrow> NodeContext \<Rightarrow> string \<Rightarrow> string \<Rightarrow> string \<Rightarrow> go_duration \<Rightarrow> go_time
    \<Rightarrow> control_error + ReconnectChallenge" where
  "NewReconnectChallenge C rand clock rawContext rawPeer transportID sessionBinding ttl now =
     (let local = NodeContext_Normalized rawContext; peer = TrimSpace rawPeer in
      if NodeContext_Validate local \<noteq> None then Inl ErrReconnectChallenge
      else if ValidateTransportID transportID \<noteq> None \<or> \<not> validReconnectText sessionBinding 512 then Inl ErrReconnectChallenge
      else if ttl \<le> 0 \<or> MaxReconnectChallengeTTL < ttl then Inl ErrReconnectChallenge
      else case DeriveID (linkDigest C) \<lparr>dChainSHA256 = ncChainSHA256 local, dTopology = ncNodes local,
                  dLocalNode = ncCurrentNode local, dPeerNode = peer\<rparr> of
        Inl e \<Rightarrow> Inl ErrReconnectChallenge
      | Inr linkID \<Rightarrow>
      let t = nowOrCurrent clock now in
      case randomReconnectNonce rand 24 of
        None \<Rightarrow> Inl (ErrControlAuth ErrRandom)
      | Some challengeID \<Rightarrow>
      let challenge =
            \<lparr>chVersion = ReconnectChallengeVersion, chAlgorithm = Algorithm, chChallengeID = challengeID,
             chLinkID = linkID, chTransportID = transportID, chSessionBinding = TrimSpace sessionBinding,
             chChainSHA256 = ncChainSHA256 local, chAcceptorNode = ncCurrentNode local, chProverNode = peer,
             chIssuedAtUnix = go_unix t, chExpiresAtUnix = go_unix (t + ttl)\<rparr> in
      case Challenge_Validate clock t challenge of
        Some e \<Rightarrow> Inl e
      | None \<Rightarrow> Inr challenge)"

section \<open>Proofs\<close>

definition identityMatchesChallenge :: "crypto \<Rightarrow> ReconnectIdentity \<Rightarrow> ReconnectChallenge \<Rightarrow> control_error option" where
  "identityMatchesChallenge C identity challenge =
     (let c = NodeContext_Normalized (riContext identity) in
      if ncChainSHA256 c \<noteq> chChainSHA256 challenge \<or> ncCurrentNode c \<noteq> chProverNode challenge then Some ErrReconnectProof
      else if DeriveID (linkDigest C) \<lparr>dChainSHA256 = ncChainSHA256 c, dTopology = ncNodes c,
                dLocalNode = chAcceptorNode challenge, dPeerNode = ncCurrentNode c\<rparr> \<noteq> Inr (chLinkID challenge) then
        Some ErrReconnectProof
      else None)"

definition reconnectJSONSHA256 :: "crypto \<Rightarrow> bytes option \<Rightarrow> control_error + string" where
  "reconnectJSONSHA256 C marshalled = (case marshalled of None \<Rightarrow> Inl ErrControlJSON | Some payload \<Rightarrow> Inr (SHA256Hex C payload))"

definition challengeStatement :: "ReconnectChallenge \<Rightarrow> string \<Rightarrow> string \<Rightarrow> u16 list \<Rightarrow> ReconnectStatement" where
  "challengeStatement c challengeDigest identityDigest services =
     Statement_Normalized
       \<lparr>smVersion = ReconnectStatementVersion, smAlgorithm = Algorithm, smChallengeSHA256 = challengeDigest,
        smIdentitySHA256 = identityDigest, smLinkID = chLinkID c, smTransportID = chTransportID c,
        smSessionBinding = chSessionBinding c, smChainSHA256 = chChainSHA256 c, smAcceptorNode = chAcceptorNode c,
        smProverNode = chProverNode c, smServices = services\<rparr>"

definition expectedReconnectStatement ::
  "crypto \<Rightarrow> control_json \<Rightarrow> ReconnectChallenge \<Rightarrow> SignedReconnectIdentity \<Rightarrow> u16 list \<Rightarrow> control_error + ReconnectStatement" where
  "expectedReconnectStatement C js challenge identity services =
     (case reconnectJSONSHA256 C (cjChallenge js (Challenge_Normalized challenge)) of
        Inl e \<Rightarrow> Inl e
      | Inr challengeDigest \<Rightarrow>
          (case ReconnectIdentitySHA256 C (cjIdentity js) (cjSignedIdentity js) identity of
             Inl e \<Rightarrow> Inl (ErrControlAuth e)
           | Inr identityDigest \<Rightarrow> Inr (challengeStatement challenge challengeDigest identityDigest services)))"

definition statementShape :: "ReconnectStatement \<Rightarrow> bool" where
  "statementShape s =
     (smVersion s = ReconnectStatementVersion \<and> smAlgorithm s = Algorithm
      \<and> validSHA256 (smChallengeSHA256 s) \<and> validSHA256 (smIdentitySHA256 s)
      \<and> ValidateID (smLinkID s) = None \<and> ValidateTransportID (smTransportID s) = None
      \<and> validReconnectText (smSessionBinding s) 512 \<and> validSHA256 (smChainSHA256 s)
      \<and> validReconnectText (smAcceptorNode s) 256 \<and> validReconnectText (smProverNode s) 256
      \<and> smAcceptorNode s \<noteq> smProverNode s)"

definition canonicalReconnectStatement :: "control_json \<Rightarrow> ReconnectStatement \<Rightarrow> control_error + bytes" where
  "canonicalReconnectStatement js statement =
     (let s = Statement_Normalized statement in
      if \<not> statementShape s then Inl ErrReconnectProof
      else case normalizeReconnectServices (smServices s) of
        Inl e \<Rightarrow> Inl e
      | Inr _ \<Rightarrow> (case cjStatement js s of None \<Rightarrow> Inl ErrControlJSON | Some payload \<Rightarrow> Inr payload))"

definition equalReconnectStatement :: "control_json \<Rightarrow> ReconnectStatement \<Rightarrow> ReconnectStatement \<Rightarrow> bool" where
  "equalReconnectStatement js left right =
     (case (canonicalReconnectStatement js left, canonicalReconnectStatement js right) of
        (Inr a, Inr b) \<Rightarrow> a = b
      | _ \<Rightarrow> False)"

text \<open>\<open>ed25519.PrivateKey.Public\<close>: the second half of the key.\<close>

definition privatePublic :: "bytes \<Rightarrow> bytes" where
  "privatePublic key = drop 32 key"

definition BuildReconnectProof ::
  "crypto \<Rightarrow> control_json \<Rightarrow> go_time \<Rightarrow> ReconnectChallenge \<Rightarrow> SignedReconnectIdentity \<Rightarrow> bytes \<Rightarrow> u16 list \<Rightarrow> go_time
    \<Rightarrow> control_error + ReconnectProof" where
  "BuildReconnectProof C js clock rawChallenge identity nodePrivateKey services now =
     (let challenge = Challenge_Normalized rawChallenge in
      case Challenge_Validate clock now challenge of
        Some e \<Rightarrow> Inl e
      | None \<Rightarrow>
      if length nodePrivateKey \<noteq> 64 then Inl ErrReconnectProof
      else
      let normalizedIdentity = Identity_Normalized C (siIdentity identity) in
      case Identity_Validate C normalizedIdentity of
        Some e \<Rightarrow> Inl (ErrControlAuth e)
      | None \<Rightarrow>
      case identityMatchesChallenge C normalizedIdentity challenge of
        Some e \<Rightarrow> Inl e
      | None \<Rightarrow>
      if Identity_PublicKey C normalizedIdentity \<noteq> Inr (privatePublic nodePrivateKey) then Inl ErrReconnectProof
      else case normalizeReconnectServices services of
        Inl e \<Rightarrow> Inl e
      | Inr normalizedServices \<Rightarrow>
      case expectedReconnectStatement C js challenge identity normalizedServices of
        Inl e \<Rightarrow> Inl e
      | Inr statement \<Rightarrow>
      case canonicalReconnectStatement js statement of
        Inl e \<Rightarrow> Inl e
      | Inr canonical \<Rightarrow>
          Inr \<lparr>rpStatement = statement, rpSignature = b64Encode (edSign C nodePrivateKey canonical)\<rparr>)"

definition proofOptions :: "ReconnectChallenge \<Rightarrow> go_duration \<Rightarrow> go_time \<Rightarrow> ReconnectIdentityVerifyOptions" where
  "proofOptions challenge maxIdentityTTL now =
     \<lparr>roNow = now, roAudience = AudienceReconnectIdentity, roChainID = [], roChainSHA256 = chChainSHA256 challenge,
      roCurrentNode = chProverNode challenge, roMaxTTL = maxIdentityTTL\<rparr>"

definition proofSigned :: "crypto \<Rightarrow> ReconnectIdentity \<Rightarrow> bytes \<Rightarrow> string \<Rightarrow> bool" where
  "proofSigned C identity canonical sig =
     (case (b64Decode (TrimSpace sig), Identity_PublicKey C identity) of
        (Some decoded, Inr publicKey) \<Rightarrow> length decoded = 64 \<and> edVerify C publicKey canonical decoded
      | _ \<Rightarrow> False)"

definition VerifyReconnectProof ::
  "crypto \<Rightarrow> control_json \<Rightarrow> go_time \<Rightarrow> ReconnectChallenge \<Rightarrow> SignedReconnectIdentity \<Rightarrow> ReconnectProof \<Rightarrow> bytes \<Rightarrow> go_duration
    \<Rightarrow> NonceCache option \<Rightarrow> go_time \<Rightarrow> (control_error + ReconnectIdentity \<times> u16 list) \<times> NonceCache option" where
  "VerifyReconnectProof C js clock rawChallenge identity prf authorityPublicKey maxIdentityTTL replayCache now =
     (let challenge = Challenge_Normalized rawChallenge in
      case Challenge_Validate clock now challenge of
        Some e \<Rightarrow> (Inl e, replayCache)
      | None \<Rightarrow>
      case VerifySignedReconnectIdentity C (cjIdentity js) clock identity authorityPublicKey (proofOptions challenge maxIdentityTTL now) of
        Inl e \<Rightarrow> (Inl (ErrControlAuth e), replayCache)
      | Inr verifiedIdentity \<Rightarrow>
      case identityMatchesChallenge C verifiedIdentity challenge of
        Some e \<Rightarrow> (Inl e, replayCache)
      | None \<Rightarrow>
      case normalizeReconnectServices (smServices (rpStatement prf)) of
        Inl e \<Rightarrow> (Inl e, replayCache)
      | Inr normalizedServices \<Rightarrow>
      case expectedReconnectStatement C js challenge identity normalizedServices of
        Inl e \<Rightarrow> (Inl e, replayCache)
      | Inr expected \<Rightarrow>
      let statement = Statement_Normalized (rpStatement prf) in
      if \<not> equalReconnectStatement js statement expected then (Inl ErrReconnectProof, replayCache)
      else case canonicalReconnectStatement js statement of
        Inl e \<Rightarrow> (Inl e, replayCache)
      | Inr canonical \<Rightarrow>
      if \<not> proofSigned C verifiedIdentity canonical (rpSignature prf) then (Inl (ErrControlAuth ErrInvalidSignature), replayCache)
      else case Accept (chChallengeID challenge) (chExpiresAtUnix challenge) (nowOrCurrent clock now) replayCache of
        (False, cache') \<Rightarrow> (Inl (ErrControlAuth ErrReplay), cache')
      | (True, cache') \<Rightarrow> (Inr (verifiedIdentity, normalizedServices), cache'))"

section \<open>Frames\<close>

definition writeReconnectFrame :: "bytes option \<Rightarrow> conn \<Rightarrow> control_error option \<times> conn" where
  "writeReconnectFrame marshalled w =
     (case marshalled of
        None \<Rightarrow> (Some ErrControlJSON, w)
      | Some payload \<Rightarrow>
          if payload = [] \<or> maxReconnectMessageBytes < length payload then (Some ErrReconnectProtocol, w)
          else case writeFull w (put_uint32 (of_nat (length payload))) of
            (Some e, w') \<Rightarrow> (Some (ErrControlIO e), w')
          | (None, w') \<Rightarrow> map_prod (map_option ErrControlIO) id (writeFull w' payload))"

definition readReconnectFrame :: "(bytes \<Rightarrow> ('m \<times> bool) option) \<Rightarrow> bytes \<Rightarrow> control_error + 'm \<times> bytes" where
  "readReconnectFrame decode bs =
     (case ReadFull 4 bs of
        Inl e \<Rightarrow> Inl (ErrControlIO e)
      | Inr (header, rest) \<Rightarrow>
          let n = unat (get_uint32 header) in
          if n = 0 \<or> maxReconnectMessageBytes < n then Inl ErrReconnectProtocol
          else case ReadFull n rest of
            Inl e \<Rightarrow> Inl (ErrControlIO e)
          | Inr (payload, rest') \<Rightarrow>
              (case decode payload of
                 None \<Rightarrow> Inl ErrControlJSON
               | Some (m, atEnd) \<Rightarrow> if \<not> atEnd then Inl ErrReconnectProtocol else Inr (m, rest')))"

text \<open>\<open>cancelled\<close>: the context ends before the frame is read.\<close>

definition readReconnectFrameContext :: "bool \<Rightarrow> (bytes \<Rightarrow> ('m \<times> bool) option) \<Rightarrow> bytes \<Rightarrow> control_error + 'm \<times> bytes" where
  "readReconnectFrameContext cancelled decode bs =
     (if cancelled then Inl ErrControlCancelled else readReconnectFrame decode bs)"

section \<open>Reconnect registration\<close>

record ReconnectServerConfig =
  scAuthorityPublicKey :: bytes
  scLocalContext :: NodeContext
  scPeerNode :: string
  scSessionBinding :: string
  scTransportID :: string
  scChallengeTTL :: go_duration
  scMaxIdentityTTL :: go_duration

record ReconnectClientConfig =
  ccIdentity :: SignedReconnectIdentity
  ccNodePrivateKey :: bytes
  ccServices :: "u16 list"
  ccExpectedAcceptorNode :: string
  ccExpectedSessionBinding :: string
  ccExpectedTransportID :: string

record ReconnectAccepted =
  raNode :: Node
  raIdentity :: ReconnectIdentity
  raLinkID :: string
  raTransportID :: string
  raSessionBinding :: string
  raServices :: "u16 list"

text \<open>
  What registration takes from its surroundings: the clock \<open>time.Now\<close>, the two readings \<open>config.Now\<close> gives
  the acceptor, the random source and the texts of errors. \<open>reg_state\<close> is what it changes: the registry, the
  replay cache and the stream.
\<close>

record control_env =
  evCrypto :: crypto
  evJson :: control_json
  evRand :: "nat \<Rightarrow> bytes option"
  evClock :: go_time
  evFirst :: go_time
  evSecond :: go_time
  evErrText :: "control_error \<Rightarrow> string"

record reg_state =
  gsRegistry :: NodeRegistry
  gsCache :: "NonceCache option"
  gsStream :: target_stream

definition putConn :: "reg_state \<Rightarrow> conn \<Rightarrow> reg_state" where
  "putConn s w = s\<lparr>gsStream := (gsStream s)\<lparr>tgConn := w\<rparr>\<rparr>"

definition reconnectResponse :: RegisterResponse where
  "reconnectResponse =
     \<lparr>rrType = reconnectAcceptedType, rrProtocol = ReconnectProtocolVersion, rrNode = [], rrServices = [], rrError = []\<rparr>"

definition sendReconnect :: "control_env \<Rightarrow> RegisterResponse \<Rightarrow> reg_state \<Rightarrow> control_error option \<times> reg_state" where
  "sendReconnect env response s =
     map_prod id (putConn s) (writeReconnectFrame (cjResponseText (evJson env) response) (tgConn (gsStream s)))"

definition denyReconnect :: "control_env \<Rightarrow> control_error \<Rightarrow> reg_state \<Rightarrow> (control_error + 'a) \<times> reg_state" where
  "denyReconnect env e s = (Inl e, snd (sendReconnect env (reconnectResponse\<lparr>rrError := evErrText env e\<rparr>) s))"

text \<open>\<open>ServeReconnectStream\<close> from the request on.\<close>

definition serveProof ::
  "control_env \<Rightarrow> ReconnectServerConfig \<Rightarrow> ReconnectChallenge \<Rightarrow> ReconnectProofEnvelope \<Rightarrow> reg_state
    \<Rightarrow> (control_error + ReconnectAccepted) \<times> reg_state" where
  "serveProof env cfg challenge request s =
     (if pvType request \<noteq> reconnectProofType \<or> pvProtocol request \<noteq> ReconnectProtocolVersion then
        denyReconnect env ErrReconnectProtocol s
      else case VerifyReconnectProof (evCrypto env) (evJson env) (evClock env) challenge (pvIdentity request) (pvProof request)
                  (scAuthorityPublicKey cfg) (scMaxIdentityTTL cfg) (gsCache s) (evSecond env) of
        (Inl e, cache') \<Rightarrow> denyReconnect env e (s\<lparr>gsCache := cache'\<rparr>)
      | (Inr (identity, services), cache') \<Rightarrow>
          (case RegisterVerified (evClock env) (gsRegistry s) (riContext identity) services of
             (Inl e, r') \<Rightarrow> denyReconnect env e (s\<lparr>gsCache := cache', gsRegistry := r'\<rparr>)
           | (Inr node, r') \<Rightarrow>
               (case sendReconnect env (reconnectResponse\<lparr>rrNode := ndID node, rrServices := Services node\<rparr>)
                       (s\<lparr>gsCache := cache', gsRegistry := r'\<rparr>) of
                  (Some e, s') \<Rightarrow> (Inl e, s')
                | (None, s') \<Rightarrow>
                    (Inr \<lparr>raNode = node, raIdentity = identity, raLinkID = chLinkID challenge, raTransportID = chTransportID challenge,
                          raSessionBinding = chSessionBinding challenge, raServices = services\<rparr>, s'))))"

definition serverChallenge :: "control_env \<Rightarrow> ReconnectServerConfig \<Rightarrow> control_error + ReconnectChallenge" where
  "serverChallenge env cfg =
     NewReconnectChallenge (evCrypto env) (evRand env) (evClock env) (scLocalContext cfg) (scPeerNode cfg) (scTransportID cfg)
       (scSessionBinding cfg) (if scChallengeTTL cfg \<le> 0 then 30 * go_second else scChallengeTTL cfg) (evFirst env)"

definition ServeReconnectStream ::
  "control_env \<Rightarrow> ReconnectServerConfig \<Rightarrow> bool \<Rightarrow> bytes \<Rightarrow> reg_state \<Rightarrow> (control_error + ReconnectAccepted) \<times> reg_state" where
  "ServeReconnectStream env cfg cancelled input s =
     (if length (scAuthorityPublicKey cfg) \<noteq> 32 then (Inl ErrReconnectProtocol, s)
      else case serverChallenge env cfg of
        Inl e \<Rightarrow> (Inl e, s)
      | Inr challenge \<Rightarrow>
          (case writeReconnectFrame (cjChallengeText (evJson env)
                  \<lparr>cvType = reconnectChallengeType, cvProtocol = ReconnectProtocolVersion, cvChallenge = challenge\<rparr>) (tgConn (gsStream s)) of
             (Some e, w) \<Rightarrow> (Inl e, putConn s w)
           | (None, w) \<Rightarrow>
               (case readReconnectFrameContext cancelled (cjProofDecode (evJson env)) input of
                  Inl e \<Rightarrow> (Inl e, putConn s w)
                | Inr (request, rest) \<Rightarrow> serveProof env cfg challenge request (putConn s w))))"

text \<open>The deferred \<open>stream.Close\<close>.\<close>

definition closeStream :: "reg_state \<Rightarrow> reg_state" where
  "closeStream s = putConn s ((tgConn (gsStream s))\<lparr>cnClosed := True\<rparr>)"

definition resetStreamOf :: "reg_state \<Rightarrow> reg_state" where
  "resetStreamOf s = s\<lparr>gsStream := resetTarget (gsStream s)\<rparr>"

definition ServeReconnectRegistration ::
  "control_env \<Rightarrow> ReconnectServerConfig \<Rightarrow> bool \<Rightarrow> bytes \<Rightarrow> reg_state \<Rightarrow> (control_error + ReconnectAccepted) \<times> reg_state" where
  "ServeReconnectRegistration env cfg cancelled input s =
     map_prod id closeStream
       (if tgService (gsStream s) \<noteq> ServiceControl \<or> ofBytes (tgMetadata (gsStream s)) \<noteq> ReconnectProtocolVersion then
          (Inl ErrReconnectProtocol, resetStreamOf s)
        else ServeReconnectStream env cfg cancelled input s)"

text \<open>The client of the exchange. \<open>None\<close> stands for the zero challenge.\<close>

definition zeroResponse :: RegisterResponse where
  "zeroResponse = \<lparr>rrType = [], rrProtocol = [], rrNode = [], rrServices = [], rrError = []\<rparr>"

definition clientRefuses :: "crypto \<Rightarrow> ReconnectClientConfig \<Rightarrow> ReconnectChallenge \<Rightarrow> control_error option" where
  "clientRefuses C cfg challenge =
     (let identity = Identity_Normalized C (siIdentity (ccIdentity cfg)) in
      if TrimSpace (ccExpectedAcceptorNode cfg) \<noteq> [] \<and> chAcceptorNode challenge \<noteq> TrimSpace (ccExpectedAcceptorNode cfg) then
        Some ErrReconnectChallenge
      else if TrimSpace (ccExpectedSessionBinding cfg) \<noteq> [] \<and> chSessionBinding challenge \<noteq> TrimSpace (ccExpectedSessionBinding cfg) then
        Some ErrWrongBinding
      else if ccExpectedTransportID cfg \<noteq> [] \<and> chTransportID challenge \<noteq> ccExpectedTransportID cfg then Some ErrReconnectChallenge
      else if chProverNode challenge \<noteq> ncCurrentNode (riContext identity) \<or> chChainSHA256 challenge \<noteq> ncChainSHA256 (riContext identity) then
        Some ErrReconnectChallenge
      else None)"

definition clientAnswer ::
  "control_env \<Rightarrow> bool \<Rightarrow> bytes \<Rightarrow> RegisterResponse \<times> control_error option" where
  "clientAnswer env cancelled input =
     (case readReconnectFrameContext cancelled (cjResponseDecode (evJson env)) input of
        Inl e \<Rightarrow> (zeroResponse, Some e)
      | Inr (response, rest) \<Rightarrow>
          (response,
           if rrProtocol response \<noteq> ReconnectProtocolVersion \<or> rrType response \<noteq> reconnectAcceptedType then Some ErrReconnectProtocol
           else if rrError response \<noteq> [] then Some (ErrControlRemote (rrError response))
           else None))"

definition RegisterNodeReconnectStream ::
  "control_env \<Rightarrow> ReconnectClientConfig \<Rightarrow> bool \<Rightarrow> bool \<Rightarrow> bytes \<Rightarrow> conn
    \<Rightarrow> (RegisterResponse \<times> ReconnectChallenge option \<times> control_error option) \<times> conn" where
  "RegisterNodeReconnectStream env cfg cancelled1 cancelled2 input w =
     (case readReconnectFrameContext cancelled1 (cjChallengeDecode (evJson env)) input of
        Inl e \<Rightarrow> ((zeroResponse, None, Some e), w)
      | Inr (envelope, rest) \<Rightarrow>
          if cvType envelope \<noteq> reconnectChallengeType \<or> cvProtocol envelope \<noteq> ReconnectProtocolVersion then
            ((zeroResponse, None, Some ErrReconnectProtocol), w)
          else
          let challenge = Challenge_Normalized (cvChallenge envelope) in
          case Challenge_Validate (evClock env) (evFirst env) challenge of
            Some e \<Rightarrow> ((zeroResponse, Some challenge, Some e), w)
          | None \<Rightarrow>
          case clientRefuses (evCrypto env) cfg challenge of
            Some e \<Rightarrow> ((zeroResponse, Some challenge, Some e), w)
          | None \<Rightarrow>
          case BuildReconnectProof (evCrypto env) (evJson env) (evClock env) challenge (ccIdentity cfg) (ccNodePrivateKey cfg) (ccServices cfg) (evFirst env) of
            Inl e \<Rightarrow> ((zeroResponse, Some challenge, Some e), w)
          | Inr prf \<Rightarrow>
          case writeReconnectFrame (cjProofText (evJson env)
                 \<lparr>pvType = reconnectProofType, pvProtocol = ReconnectProtocolVersion, pvIdentity = ccIdentity cfg, pvProof = prf\<rparr>) w of
            (Some e, w') \<Rightarrow> ((zeroResponse, Some challenge, Some e), w')
          | (None, w') \<Rightarrow>
              (case clientAnswer env cancelled2 rest of (response, err) \<Rightarrow> ((response, Some challenge, err), w')))"

section \<open>One-shot registration\<close>

text \<open>
  A \<open>Verifier\<close> changes the replay cache it holds. \<open>decoded\<close> is the result of \<open>decodeRequest\<close>: the first JSON value on
  the stream, or an error of the decoder or the context.
\<close>

type_synonym Verifier = "SignedNodeContext \<Rightarrow> NonceCache option \<Rightarrow> (auth_error + NodeContext) \<times> NonceCache option"

definition NewAuthproofVerifier :: "control_env \<Rightarrow> bytes \<Rightarrow> NodeContextVerifyOptions \<Rightarrow> Verifier \<times> NonceCache option" where
  "NewAuthproofVerifier env publicKey options =
     ((\<lambda>sc cache. VerifySignedNodeContext (evCrypto env) (cjContext (evJson env)) (evClock env) sc publicKey (options\<lparr>noReplayCache := cache\<rparr>)),
      (case noReplayCache options of None \<Rightarrow> Some [] | Some cache \<Rightarrow> Some cache))"

definition acceptedResponse :: RegisterResponse where
  "acceptedResponse = \<lparr>rrType = messageAccepted, rrProtocol = ProtocolVersion, rrNode = [], rrServices = [], rrError = []\<rparr>"

definition encodeResponse :: "control_env \<Rightarrow> RegisterResponse \<Rightarrow> reg_state \<Rightarrow> control_error option \<times> reg_state" where
  "encodeResponse env response s =
     (case cjResponseText (evJson env) response of
        None \<Rightarrow> (Some ErrControlJSON, s)
      | Some payload \<Rightarrow> map_prod (map_option ErrControlIO) (putConn s) (writeFull (tgConn (gsStream s)) (payload @ [10])))"

definition denyRegistration :: "control_env \<Rightarrow> control_error \<Rightarrow> reg_state \<Rightarrow> (control_error + 'a) \<times> reg_state" where
  "denyRegistration env e s = (Inl e, snd (encodeResponse env (acceptedResponse\<lparr>rrError := evErrText env e\<rparr>) s))"

definition ServeRegistrationStream ::
  "control_env \<Rightarrow> Verifier \<Rightarrow> string \<Rightarrow> control_error + RegisterRequest \<Rightarrow> reg_state \<Rightarrow> (control_error + Node) \<times> reg_state" where
  "ServeRegistrationStream env verify expectedSessionBinding decoded s =
     (if tgService (gsStream s) \<noteq> ServiceControl \<or> ofBytes (tgMetadata (gsStream s)) \<noteq> ProtocolVersion then
        (Inl ErrWrongProtocol, resetStreamOf s)
      else case decoded of
        Inl e \<Rightarrow> (Inl e, resetStreamOf s)
      | Inr request \<Rightarrow>
          if rqType request \<noteq> messageRegister \<or> rqProtocol request \<noteq> ProtocolVersion then denyRegistration env ErrWrongProtocol s
          else if TrimSpace (rqSessionBinding request) = [] \<or> rqSessionBinding request \<noteq> TrimSpace expectedSessionBinding then
            denyRegistration env ErrWrongBinding s
          else case verify (rqSignedContext request) (gsCache s) of
            (Inl e, cache') \<Rightarrow> denyRegistration env (ErrControlDenied e) (s\<lparr>gsCache := cache'\<rparr>)
          | (Inr verified, cache') \<Rightarrow>
              (case RegisterVerified (evClock env) (gsRegistry s) verified (rqServices request) of
                 (Inl e, r') \<Rightarrow> denyRegistration env e (s\<lparr>gsCache := cache', gsRegistry := r'\<rparr>)
               | (Inr node, r') \<Rightarrow>
                   (case encodeResponse env (acceptedResponse\<lparr>rrNode := ndID node, rrServices := Services node\<rparr>)
                           (s\<lparr>gsCache := cache', gsRegistry := r'\<rparr>) of
                      (Some e, s') \<Rightarrow> (Inl e, s')
                    | (None, s') \<Rightarrow> (Inr node, s'))))"

definition ServeRegistration ::
  "control_env \<Rightarrow> Verifier \<Rightarrow> string \<Rightarrow> control_error + RegisterRequest \<Rightarrow> reg_state \<Rightarrow> (control_error + Node) \<times> reg_state" where
  "ServeRegistration env verify expectedSessionBinding decoded s =
     map_prod id closeStream (ServeRegistrationStream env verify expectedSessionBinding decoded s)"

text \<open>
  The client: \<open>openError\<close> is the error of \<open>mux.Open\<close>, and \<open>exchange\<close> writes the request to the stream and decodes
  the answer; an error of either resets the stream.
\<close>

definition registerRequest :: "SignedNodeContext \<Rightarrow> u16 list \<Rightarrow> string \<Rightarrow> RegisterRequest" where
  "registerRequest sc services sessionBinding =
     \<lparr>rqType = messageRegister, rqProtocol = ProtocolVersion, rqSessionBinding = sessionBinding,
      rqSignedContext = sc, rqServices = services\<rparr>"

definition RegisterNode ::
  "control_error option \<Rightarrow> (RegisterRequest \<Rightarrow> control_error + RegisterResponse) \<Rightarrow> SignedNodeContext \<Rightarrow> u16 list \<Rightarrow> string
    \<Rightarrow> RegisterResponse \<times> control_error option" where
  "RegisterNode openError exchange sc services sessionBinding =
     (let binding = TrimSpace sessionBinding in
      if binding = [] then (zeroResponse, Some ErrIncomplete)
      else case openError of
        Some e \<Rightarrow> (zeroResponse, Some e)
      | None \<Rightarrow>
      case exchange (registerRequest sc services binding) of
        Inl e \<Rightarrow> (zeroResponse, Some e)
      | Inr response \<Rightarrow>
          (response,
           if rrProtocol response \<noteq> ProtocolVersion then Some ErrWrongProtocol
           else if rrType response \<noteq> messageAccepted then Some ErrUnexpectedType
           else if rrError response \<noteq> [] then Some (ErrControlRemote (rrError response))
           else None))"

section \<open>Either registration\<close>

datatype RegistrationMode = RegistrationModeLegacy | RegistrationModeReconnect

record AcceptedRegistration =
  arMode :: RegistrationMode
  arNode :: Node
  arLinkID :: string
  arTransportID :: string
  arSessionBinding :: string
  arServices :: "u16 list"

record AnyRegistrationConfig =
  acLegacyVerifier :: "Verifier option"
  acExpectedSessionBinding :: string
  acReconnect :: "ReconnectServerConfig option"

definition legacyAccepted :: "string \<Rightarrow> Node \<Rightarrow> AcceptedRegistration" where
  "legacyAccepted binding node =
     \<lparr>arMode = RegistrationModeLegacy, arNode = node, arLinkID = [], arTransportID = [], arSessionBinding = TrimSpace binding,
      arServices = Services node\<rparr>"

definition reconnectAccepted :: "ReconnectAccepted \<Rightarrow> AcceptedRegistration" where
  "reconnectAccepted a =
     \<lparr>arMode = RegistrationModeReconnect, arNode = raNode a, arLinkID = raLinkID a, arTransportID = raTransportID a,
      arSessionBinding = raSessionBinding a, arServices = raServices a\<rparr>"

definition ServeAnyRegistration ::
  "control_env \<Rightarrow> AnyRegistrationConfig \<Rightarrow> control_error + RegisterRequest \<Rightarrow> bool \<Rightarrow> bytes \<Rightarrow> reg_state
    \<Rightarrow> (control_error + AcceptedRegistration) \<times> reg_state" where
  "ServeAnyRegistration env cfg decoded cancelled input s =
     map_prod id closeStream
       (if tgService (gsStream s) \<noteq> ServiceControl then (Inl ErrWrongProtocol, resetStreamOf s)
        else if ofBytes (tgMetadata (gsStream s)) = ProtocolVersion then
          (case acLegacyVerifier cfg of
             None \<Rightarrow> (Inl ErrWrongProtocol, resetStreamOf s)
           | Some verify \<Rightarrow>
               map_prod (map_sum id (legacyAccepted (acExpectedSessionBinding cfg))) id
                 (ServeRegistrationStream env verify (acExpectedSessionBinding cfg) decoded s))
        else if ofBytes (tgMetadata (gsStream s)) = ReconnectProtocolVersion then
          (case acReconnect cfg of
             None \<Rightarrow> (Inl ErrReconnectProtocol, resetStreamOf s)
           | Some rc \<Rightarrow> map_prod (map_sum id reconnectAccepted) id (ServeReconnectStream env rc cancelled input s))
        else (Inl ErrWrongProtocol, resetStreamOf s))"

section \<open>Normal forms\<close>

lemma reconnectServices_Inr:
  "reconnectServices out raw = Inr services \<Longrightarrow> distinct out \<Longrightarrow>
     distinct services \<and> set services = set out \<union> set raw \<and> length services \<le> length out + length raw
     \<and> list_all (\<lambda>s. ServiceID_Valid s \<and> s \<noteq> ServiceControl) raw"
  by (induction out raw rule: reconnectServices.induct) (auto split: if_splits)

lemma reconnectServices_distinct:
  "distinct (out @ raw) \<Longrightarrow> list_all (\<lambda>s. ServiceID_Valid s \<and> s \<noteq> ServiceControl) raw \<Longrightarrow> reconnectServices out raw = Inr (out @ raw)"
  by (induction out raw rule: reconnectServices.induct) auto

lemma normalizeReconnectServices_Inr:
  assumes "normalizeReconnectServices raw = Inr services"
  shows "sorted services" "distinct services" "set services = set raw" "list_all (\<lambda>s. ServiceID_Valid s \<and> s \<noteq> ServiceControl) services"
    "normalizeReconnectServices services = Inr services"
proof -
  obtain out where o: "reconnectServices [] raw = Inr out" "services = sort out" "length raw \<le> 64"
    using assms by (cases "reconnectServices [] raw") (auto simp: normalizeReconnectServices_def split: if_splits)
  note p = reconnectServices_Inr [OF o(1), simplified]
  show "sorted services" and d: "distinct services" and e: "set services = set raw"
    and v: "list_all (\<lambda>s. ServiceID_Valid s \<and> s \<noteq> ServiceControl) services"
    using p o(2) by (auto simp: list_all_iff)
  then show "normalizeReconnectServices services = Inr services"
    using reconnectServices_distinct [of "[]" services] p o by (simp add: normalizeReconnectServices_def sorted_sort_id)
qed

lemma reconnect_version_defaults:
  "TrimSpace ReconnectStatementVersion = ReconnectStatementVersion" "ReconnectStatementVersion \<noteq> []"
  "TrimSpace ReconnectChallengeVersion = ReconnectChallengeVersion" "ReconnectChallengeVersion \<noteq> []"
  by code_simp+

lemma challengeStatement_normal:
  assumes "normalizeReconnectServices services = Inr services"
  shows "Statement_Normalized (challengeStatement c d1 d2 services) = challengeStatement c d1 d2 services"
  by (rule ReconnectStatement.equality)
     (simp_all add: challengeStatement_def Statement_Normalized_def reconnect_version_defaults reconnect_defaults assms)

section \<open>Accepted proofs\<close>

text \<open>
  What an accepted proof establishes at the instant \<open>t\<close>: the identity is the authority's, belongs to the
  node the challenge names, which is a neighbour of the acceptor on the challenge's link, and its
  certified key signed the statement made of the challenge, its digest and the services.
\<close>

definition proven ::
  "crypto \<Rightarrow> control_json \<Rightarrow> bytes \<Rightarrow> ReconnectChallenge \<Rightarrow> go_time \<Rightarrow> ReconnectIdentity \<Rightarrow> u16 list \<Rightarrow> bool" where
  "proven C js authority challenge t identity services =
     ((\<exists>canonical sig. cjIdentity js identity = Some canonical \<and> edVerify C authority canonical sig)
      \<and> ncCurrentNode (riContext identity) = chProverNode challenge \<and> ncChainSHA256 (riContext identity) = chChainSHA256 challenge
      \<and> ncIssuedAtUnix (riContext identity) \<le> go_unix t \<and> go_unix t < ncExpiresAtUnix (riContext identity)
      \<and> DeriveID (linkDigest C) \<lparr>dChainSHA256 = chChainSHA256 challenge, dTopology = ncNodes (riContext identity),
           dLocalNode = chAcceptorNode challenge, dPeerNode = chProverNode challenge\<rparr> = Inr (chLinkID challenge)
      \<and> chIssuedAtUnix challenge \<le> go_unix t \<and> go_unix t < chExpiresAtUnix challenge
      \<and> sorted services \<and> distinct services \<and> list_all (\<lambda>s. ServiceID_Valid s \<and> s \<noteq> ServiceControl) services
      \<and> (\<exists>key sig canonical challengeBytes identityDigest. riNodePublicKey identity = b64Encode key \<and> length key = 32
           \<and> cjChallenge js (Challenge_Normalized challenge) = Some challengeBytes
           \<and> cjStatement js (challengeStatement challenge (SHA256Hex C challengeBytes) identityDigest services) = Some canonical
           \<and> edVerify C key canonical sig))"

lemma Challenge_Validate_None:
  assumes "Challenge_Validate clock now c = None"
  shows "challengeShape (Challenge_Normalized c)" "chIssuedAtUnix c \<le> go_unix (nowOrCurrent clock now)"
    "go_unix (nowOrCurrent clock now) < chExpiresAtUnix c"
  using assms by (auto simp: Challenge_Validate_def Let_def Challenge_Normalized_def split: if_splits)

lemma identityMatches_None:
  assumes "identityMatchesChallenge C i challenge = None" "riContext i = NodeContext_Normalized c0"
  shows "ncCurrentNode (riContext i) = chProverNode challenge" "ncChainSHA256 (riContext i) = chChainSHA256 challenge"
    "DeriveID (linkDigest C) \<lparr>dChainSHA256 = chChainSHA256 challenge, dTopology = ncNodes (riContext i),
       dLocalNode = chAcceptorNode challenge, dPeerNode = chProverNode challenge\<rparr> = Inr (chLinkID challenge)"
  using assms(1) unfolding identityMatchesChallenge_def Let_def NodeContext_renormalized [OF assms(2)] by (auto split: if_splits)

lemma proofSigned_key:
  assumes "proofSigned C i canonical sig" "Identity_Validate C i = None" "i = Identity_Normalized C raw"
  shows "\<exists>key decoded. riNodePublicKey i = b64Encode key \<and> length key = 32 \<and> edVerify C key canonical decoded"
proof -
  obtain key where key: "length key = 32" "riNodePublicKey i = b64Encode key"
    using Identity_Validate_facts(1) [OF assms(2,3)] by blast
  then have "Identity_PublicKey C i = Inr k \<Longrightarrow> k = key" for k
    by (auto simp: Identity_PublicKey_def Let_def split: option.splits)
  with assms(1) key show ?thesis by (auto simp: proofSigned_def split: option.splits sum.splits)
qed

lemma expectedReconnectStatement_Inr:
  "expectedReconnectStatement C js challenge identity services = Inr e \<longleftrightarrow>
     (\<exists>b d. cjChallenge js (Challenge_Normalized challenge) = Some b
        \<and> ReconnectIdentitySHA256 C (cjIdentity js) (cjSignedIdentity js) identity = Inr d
        \<and> e = challengeStatement challenge (SHA256Hex C b) d services)"
  by (auto simp: expectedReconnectStatement_def reconnectJSONSHA256_def split: sum.splits option.splits)

lemma canonical_Inr:
  "canonicalReconnectStatement js s = Inr b \<longleftrightarrow>
     statementShape (Statement_Normalized s) \<and> cjStatement js (Statement_Normalized s) = Some b
     \<and> (\<exists>ss. normalizeReconnectServices (smServices (Statement_Normalized s)) = Inr ss)"
  by (auto simp: canonicalReconnectStatement_def Let_def split: sum.splits option.splits)

lemma VerifyReconnectProof_Inr:
  assumes "VerifyReconnectProof C js clock raw identity prf authority maxTTL cache now = (Inr (i, services), cache')"
  obtains canonical expected where "Challenge_Validate clock now (Challenge_Normalized raw) = None"
    "VerifySignedReconnectIdentity C (cjIdentity js) clock identity authority (proofOptions (Challenge_Normalized raw) maxTTL now) = Inr i"
    "identityMatchesChallenge C i (Challenge_Normalized raw) = None"
    "normalizeReconnectServices (smServices (rpStatement prf)) = Inr services"
    "expectedReconnectStatement C js (Challenge_Normalized raw) identity services = Inr expected"
    "canonicalReconnectStatement js expected = Inr canonical" "proofSigned C i canonical (rpSignature prf)"
    "Accept (TrimSpace (chChallengeID raw)) (chExpiresAtUnix raw) (nowOrCurrent clock now) cache = (True, cache')"
proof -
  have sel: "chChallengeID (Challenge_Normalized raw) = TrimSpace (chChallengeID raw)"
    "chExpiresAtUnix (Challenge_Normalized raw) = chExpiresAtUnix raw" by (simp_all add: Challenge_Normalized_def)
  show thesis
    using assms that unfolding VerifyReconnectProof_def Let_def sel equalReconnectStatement_def
    by (auto split: option.splits sum.splits if_splits prod.splits bool.splits)
qed

lemma proof_proven:
  assumes "VerifyReconnectProof C js clock raw identity prf authority maxTTL cache now = (Inr (i, services), cache')"
  shows "proven C js authority (Challenge_Normalized raw) (nowOrCurrent clock now) i services"
  using assms
proof (rule VerifyReconnectProof_Inr)
  fix canonical expected
  let ?c = "Challenge_Normalized raw"
  assume a: "Challenge_Validate clock now ?c = None"
    "VerifySignedReconnectIdentity C (cjIdentity js) clock identity authority (proofOptions ?c maxTTL now) = Inr i"
    "identityMatchesChallenge C i ?c = None" "normalizeReconnectServices (smServices (rpStatement prf)) = Inr services"
    "expectedReconnectStatement C js ?c identity services = Inr expected"
    "canonicalReconnectStatement js expected = Inr canonical" "proofSigned C i canonical (rpSignature prf)"
  have v: "i = Identity_Normalized C (siIdentity identity)" "Identity_Validate C i = None"
    "\<exists>canonical sig. cjIdentity js i = Some canonical \<and> edVerify C authority canonical sig"
    "reconnectOptionsError (proofOptions ?c maxTTL now) (reconnect_now clock (proofOptions ?c maxTTL now)) i = None"
    using a(2) by (auto simp: VerifySignedReconnectIdentity_Inr)
  have t: "reconnect_now clock (proofOptions ?c maxTTL now) = nowOrCurrent clock now"
    by (simp add: reconnect_now_def proofOptions_def nowOrCurrent_def)
  have ctx: "riContext i = NodeContext_Normalized (riContext (siIdentity identity))" unfolding v(1) by (rule Identity_Normalized_context)
  note services = normalizeReconnectServices_Inr [OF a(4)]
  obtain b d where e: "cjChallenge js (Challenge_Normalized ?c) = Some b" "expected = challengeStatement ?c (SHA256Hex C b) d services"
    using a(5) by (auto simp: expectedReconnectStatement_Inr)
  have "cjStatement js expected = Some canonical"
    using a(6) unfolding canonical_Inr e(2) challengeStatement_normal [OF services(5)] by blast
  then have "\<exists>key sig canonical challengeBytes identityDigest. riNodePublicKey i = b64Encode key \<and> length key = 32
      \<and> cjChallenge js (Challenge_Normalized ?c) = Some challengeBytes
      \<and> cjStatement js (challengeStatement ?c (SHA256Hex C challengeBytes) identityDigest services) = Some canonical
      \<and> edVerify C key canonical sig"
    using proofSigned_key [OF a(7) v(2,1)] e by blast
  then show ?thesis
    unfolding proven_def using v(3) identityMatches_None [OF a(3) ctx] Challenge_Validate_None(2,3) [OF a(1)] services(1,2,4)
      reconnectOptionsError_None [OF v(4)] t by auto
qed

lemma Accept_once:
  assumes "Accept n e t (Some seen) = (True, cache')" "Accept n e t' cache' = (ok, cache'')" "go_unix t' < e"
  shows "\<not> ok"
proof -
  obtain seen' where s: "cache' = Some seen'" "map_of seen' n = Some e"
    using assms(1) by (auto simp: Accept_def CheckAndStore_def Let_def update_conv' split: if_splits)
  have "map_of (filter (\<lambda>(n, exp). \<not> exp \<le> go_unix t') seen') n = Some e"
    by (rule map_of_filter_live [OF s(2)]) (use assms(3) in simp)
  with assms(2) show ?thesis by (auto simp: s(1) Accept_def CheckAndStore_def Let_def)
qed


text \<open>
  What a node builds for a challenge is accepted: if its identity verifies for the acceptor and the key it
  signs with is the certified one, the acceptor returns the identity and the services in normal form, at
  any instant at which challenge and identity are valid and the challenge was not used.
\<close>

lemma built_proof_verifies:
  assumes "crypto_laws C priv (privatePublic priv)"
    "BuildReconnectProof C js clock challenge identity priv services now = Inr prf"
    "Challenge_Validate clock' later (Challenge_Normalized challenge) = None"
    "VerifySignedReconnectIdentity C (cjIdentity js) clock' identity authority
       (proofOptions (Challenge_Normalized challenge) maxTTL later) = Inr i"
    "Accept (TrimSpace (chChallengeID challenge)) (chExpiresAtUnix challenge) (nowOrCurrent clock' later) cache = (True, cache')"
  shows "\<exists>ss. normalizeReconnectServices services = Inr ss
    \<and> VerifyReconnectProof C js clock' challenge identity prf authority maxTTL cache later = (Inr (i, ss), cache')"
proof -
  let ?c = "Challenge_Normalized challenge"
  have i: "i = Identity_Normalized C (siIdentity identity)" using assms(4) by (simp add: VerifySignedReconnectIdentity_Inr)
  obtain ss statement canonical where b: "identityMatchesChallenge C i ?c = None" "Identity_PublicKey C i = Inr (privatePublic priv)"
      "normalizeReconnectServices services = Inr ss" "expectedReconnectStatement C js ?c identity ss = Inr statement"
      "canonicalReconnectStatement js statement = Inr canonical"
      and pr: "prf = \<lparr>rpStatement = statement, rpSignature = b64Encode (edSign C priv canonical)\<rparr>"
    using assms(2) unfolding BuildReconnectProof_def Let_def i [symmetric] by (auto split: option.splits if_splits sum.splits)
  note n = normalizeReconnectServices_Inr(5) [OF b(3)]
  obtain b1 d where st: "statement = challengeStatement ?c b1 d ss" using b(4) by (auto simp: expectedReconnectStatement_Inr)
  have norm: "Statement_Normalized statement = statement" unfolding st by (rule challengeStatement_normal [OF n])
  have services: "normalizeReconnectServices (smServices statement) = Inr ss"
    unfolding st by (simp add: challengeStatement_def Statement_Normalized_def n)
  have "proofSigned C i canonical (rpSignature prf)"
    using assms(1) b(2) by (simp add: proofSigned_def pr crypto_laws_def)
  moreover have "chChallengeID ?c = TrimSpace (chChallengeID challenge)" "chExpiresAtUnix ?c = chExpiresAtUnix challenge"
    by (simp_all add: Challenge_Normalized_def)
  ultimately have "VerifyReconnectProof C js clock' challenge identity prf authority maxTTL cache later = (Inr (i, ss), cache')"
    using assms(3-5) b services norm by (simp add: VerifyReconnectProof_def Let_def equalReconnectStatement_def pr)
  with b(3) show ?thesis by blast
qed

section \<open>A registry changes only by verified registrations\<close>

lemma putConn_sel [simp]:
  "gsRegistry (putConn s w) = gsRegistry s" "gsCache (putConn s w) = gsCache s" "gsStream (putConn s w) = (gsStream s)\<lparr>tgConn := w\<rparr>"
  by (simp_all add: putConn_def)

lemma keeps_registry [simp]:
  "gsRegistry (snd (sendReconnect env response s)) = gsRegistry s" "gsRegistry (snd (denyReconnect env e s)) = gsRegistry s"
  "gsRegistry (snd (encodeResponse env response s)) = gsRegistry s" "gsRegistry (snd (denyRegistration env e s)) = gsRegistry s"
  "gsRegistry (closeStream s) = gsRegistry s" "gsRegistry (resetStreamOf s) = gsRegistry s"
  by (simp_all add: sendReconnect_def denyReconnect_def encodeResponse_def denyRegistration_def closeStream_def resetStreamOf_def split: option.split)

lemma serveProof_registry:
  assumes "gsRegistry (snd (serveProof env cfg challenge request s)) \<noteq> gsRegistry s"
  obtains i services cache' where
    "VerifyReconnectProof (evCrypto env) (evJson env) (evClock env) challenge (pvIdentity request) (pvProof request)
       (scAuthorityPublicKey cfg) (scMaxIdentityTTL cfg) (gsCache s) (evSecond env) = (Inr (i, services), cache')"
    "gsRegistry (snd (serveProof env cfg challenge request s)) = snd (RegisterVerified (evClock env) (gsRegistry s) (riContext i) services)"
proof -
  obtain v cache' where v: "VerifyReconnectProof (evCrypto env) (evJson env) (evClock env) challenge (pvIdentity request) (pvProof request)
       (scAuthorityPublicKey cfg) (scMaxIdentityTTL cfg) (gsCache s) (evSecond env) = (v, cache')" by fastforce
  show thesis
  proof (cases v)
    case (Inl e)
    then show thesis using assms v by (simp add: serveProof_def split: if_splits)
  next
    case (Inr p)
    obtain i services where p: "p = (i, services)" by fastforce
    obtain n r' where r: "RegisterVerified (evClock env) (gsRegistry s) (riContext i) services = (n, r')" by fastforce
    have send: "sendReconnect env x s0 = (e, s1) \<Longrightarrow> gsRegistry s1 = gsRegistry s0" for x s0 e s1
      using keeps_registry(1) [of env x s0] by simp
    have "gsRegistry (snd (serveProof env cfg challenge request s)) = r'"
      using assms v Inr p r by (auto simp: serveProof_def dest!: send split: if_splits sum.splits prod.splits option.splits)
    then show thesis using that v Inr p r by simp
  qed
qed

lemma ServeReconnectStream_registry:
  assumes "gsRegistry (snd (ServeReconnectStream env cfg cancelled input s)) \<noteq> gsRegistry s"
  obtains challenge i services where "serverChallenge env cfg = Inr challenge"
    "proven (evCrypto env) (evJson env) (scAuthorityPublicKey cfg) (Challenge_Normalized challenge) (nowOrCurrent (evClock env) (evSecond env)) i services"
    "gsRegistry (snd (ServeReconnectStream env cfg cancelled input s)) = snd (RegisterVerified (evClock env) (gsRegistry s) (riContext i) services)"
proof -
  obtain challenge request w where c: "serverChallenge env cfg = Inr challenge"
      "ServeReconnectStream env cfg cancelled input s = serveProof env cfg challenge request (putConn s w)"
    using assms unfolding ServeReconnectStream_def by (auto split: if_splits sum.splits prod.splits option.splits)
  have "gsRegistry (snd (serveProof env cfg challenge request (putConn s w))) \<noteq> gsRegistry (putConn s w)" using assms c(2) by simp
  then show thesis
  proof (rule serveProof_registry)
    fix i services cache'
    assume "VerifyReconnectProof (evCrypto env) (evJson env) (evClock env) challenge (pvIdentity request) (pvProof request)
       (scAuthorityPublicKey cfg) (scMaxIdentityTTL cfg) (gsCache (putConn s w)) (evSecond env) = (Inr (i, services), cache')"
      "gsRegistry (snd (serveProof env cfg challenge request (putConn s w))) =
         snd (RegisterVerified (evClock env) (gsRegistry (putConn s w)) (riContext i) services)"
    then show thesis using that [OF c(1) proof_proven] c(2) by simp
  qed
qed

lemma ServeRegistrationStream_registry:
  assumes "gsRegistry (snd (ServeRegistrationStream env verify binding decoded s)) \<noteq> gsRegistry s"
  obtains request ctx cache' where "decoded = Inr request" "rqSessionBinding request = TrimSpace binding" "TrimSpace binding \<noteq> []"
    "verify (rqSignedContext request) (gsCache s) = (Inr ctx, cache')"
    "gsRegistry (snd (ServeRegistrationStream env verify binding decoded s)) =
       snd (RegisterVerified (evClock env) (gsRegistry s) ctx (rqServices request))"
proof -
  obtain request where d: "decoded = Inr request" "rqSessionBinding request = TrimSpace binding" "TrimSpace binding \<noteq> []"
    using assms unfolding ServeRegistrationStream_def by (auto split: if_splits sum.splits)
  obtain v cache' where v: "verify (rqSignedContext request) (gsCache s) = (v, cache')" by fastforce
  show thesis
  proof (cases v)
    case (Inl e)
    then show thesis using assms d v by (simp add: ServeRegistrationStream_def split: if_splits)
  next
    case (Inr ctx)
    obtain n r' where r: "RegisterVerified (evClock env) (gsRegistry s) ctx (rqServices request) = (n, r')" by fastforce
    have send: "encodeResponse env x s0 = (e, s1) \<Longrightarrow> gsRegistry s1 = gsRegistry s0" for x s0 e s1
      using keeps_registry(3) [of env x s0] by simp
    have "gsRegistry (snd (ServeRegistrationStream env verify binding decoded s)) = r'"
      using assms d v Inr r by (auto simp: ServeRegistrationStream_def dest!: send split: if_splits sum.splits prod.splits option.splits)
    then show thesis using that d v Inr r by simp
  qed
qed

lemma NewReconnectChallenge_Inr:
  assumes "NewReconnectChallenge C rand clock ctx peer tid binding ttl now = Inr ch"
  shows "chAcceptorNode ch = TrimSpace (ncCurrentNode ctx)" "chProverNode ch = TrimSpace peer" "chTransportID ch = tid"
    "chSessionBinding ch = TrimSpace binding" "chVersion ch = ReconnectChallengeVersion" "chAlgorithm ch = Algorithm"
  using assms by (auto simp: NewReconnectChallenge_def Let_def NodeContext_Normalized_sel split: if_splits sum.splits option.splits)

text \<open>
  C13: Whatever a peer sends on a control stream, the registry changes in one of two ways only: by a signed
  context that verifies under the configured key and names this session, or by a proof from the
  configured peer over a challenge this acceptor made for its own link, transport and session.
\<close>

theorem registration_verified:
  assumes "acLegacyVerifier cfg \<in> {None, Some (fst (NewAuthproofVerifier env pk options))}"
    "ServeAnyRegistration env cfg decoded cancelled input s = (res, s')" "gsRegistry s' \<noteq> gsRegistry s"
  shows "(\<exists>request ctx cache'. decoded = Inr request \<and> rqSessionBinding request = TrimSpace (acExpectedSessionBinding cfg)
        \<and> TrimSpace (acExpectedSessionBinding cfg) \<noteq> []
        \<and> VerifySignedNodeContext (evCrypto env) (cjContext (evJson env)) (evClock env) (rqSignedContext request) pk
             (options\<lparr>noReplayCache := gsCache s\<rparr>) = (Inr ctx, cache')
        \<and> gsRegistry s' = snd (RegisterVerified (evClock env) (gsRegistry s) ctx (rqServices request)))
    \<or> (\<exists>rc challenge i services. acReconnect cfg = Some rc \<and> serverChallenge env rc = Inr challenge
        \<and> chAcceptorNode challenge = TrimSpace (ncCurrentNode (scLocalContext rc)) \<and> chProverNode challenge = TrimSpace (scPeerNode rc)
        \<and> chTransportID challenge = scTransportID rc \<and> chSessionBinding challenge = TrimSpace (scSessionBinding rc)
        \<and> proven (evCrypto env) (evJson env) (scAuthorityPublicKey rc) (Challenge_Normalized challenge)
             (nowOrCurrent (evClock env) (evSecond env)) i services
        \<and> gsRegistry s' = snd (RegisterVerified (evClock env) (gsRegistry s) (riContext i) services))"
proof -
  have s': "s' = snd (ServeAnyRegistration env cfg decoded cancelled input s)" using assms(2) by simp
  consider (legacy) verify where "acLegacyVerifier cfg = Some verify"
      "gsRegistry s' = gsRegistry (snd (ServeRegistrationStream env verify (acExpectedSessionBinding cfg) decoded s))"
    | (reconnect) rc where "acReconnect cfg = Some rc" "gsRegistry s' = gsRegistry (snd (ServeReconnectStream env rc cancelled input s))"
    using assms(3) unfolding s' ServeAnyRegistration_def by (auto split: if_splits option.splits)
  then show ?thesis
  proof cases
    case legacy
    then have v: "verify = fst (NewAuthproofVerifier env pk options)" using assms(1) by simp
    have "gsRegistry (snd (ServeRegistrationStream env verify (acExpectedSessionBinding cfg) decoded s)) \<noteq> gsRegistry s"
      using assms(3) legacy(2) by simp
    then show ?thesis
      by (rule ServeRegistrationStream_registry) (use legacy(2) v in \<open>auto simp: NewAuthproofVerifier_def\<close>)
  next
    case reconnect
    then have "gsRegistry (snd (ServeReconnectStream env rc cancelled input s)) \<noteq> gsRegistry s" using assms(3) by simp
    then show ?thesis
    proof (rule ServeReconnectStream_registry)
      fix challenge i services
      assume a: "serverChallenge env rc = Inr challenge"
        "proven (evCrypto env) (evJson env) (scAuthorityPublicKey rc) (Challenge_Normalized challenge) (nowOrCurrent (evClock env) (evSecond env)) i services"
        "gsRegistry (snd (ServeReconnectStream env rc cancelled input s)) = snd (RegisterVerified (evClock env) (gsRegistry s) (riContext i) services)"
      from NewReconnectChallenge_Inr [OF a(1) [unfolded serverChallenge_def]] a reconnect show ?thesis by metis
    qed
  qed
qed

section \<open>The whole exchange\<close>

definition frameOf :: "bytes \<Rightarrow> bytes" where
  "frameOf payload = put_uint32 (of_nat (length payload)) @ payload"

text \<open>The JSON form of one message can be sent and is read back as the message.\<close>

definition message_ok :: "('m \<Rightarrow> bytes option) \<Rightarrow> (bytes \<Rightarrow> ('m \<times> bool) option) \<Rightarrow> 'm \<Rightarrow> bool" where
  "message_ok text decode m =
     (\<exists>payload. text m = Some payload \<and> payload \<noteq> [] \<and> length payload \<le> maxReconnectMessageBytes \<and> decode payload = Some (m, True))"

text \<open>On a working connection the frame of \<open>payload\<close> is written for the message and read back as the message.\<close>

definition carried :: "('m \<Rightarrow> bytes option) \<Rightarrow> (bytes \<Rightarrow> ('m \<times> bool) option) \<Rightarrow> 'm \<Rightarrow> bytes \<Rightarrow> bool" where
  "carried mtext decode m payload =
     ((\<forall>w. cnScript w = [] \<longrightarrow> writeReconnectFrame (mtext m) w = (None, w\<lparr>cnOut := cnOut w @ frameOf payload\<rparr>))
      \<and> readReconnectFrameContext False decode (frameOf payload) = Inr (m, [])
      \<and> (\<forall>rest. readReconnectFrameContext False decode (frameOf payload @ rest) = Inr (m, rest)))"

lemma message_carried:
  assumes "message_ok mtext decode m"
  shows "\<exists>payload. carried mtext decode m payload"
proof -
  obtain payload where p: "mtext m = Some payload" "payload \<noteq> []" "length payload \<le> maxReconnectMessageBytes" "decode payload = Some (m, True)"
    using assms unfolding message_ok_def by blast
  have n: "unat (of_nat (length payload) :: u32) = length payload"
    using p(3) by (intro unat_of_nat_small) simp
  have "writeReconnectFrame (mtext m) w = (None, w\<lparr>cnOut := cnOut w @ frameOf payload\<rparr>)" if "cnScript w = []" for w
    using p that by (simp add: writeReconnectFrame_def writeFull_empty_script frameOf_def)
  moreover have r: "readReconnectFrameContext False decode (frameOf payload @ rest) = Inr (m, rest)" for rest
    using p n by (simp add: readReconnectFrameContext_def readReconnectFrame_def ReadFull_def frameOf_def Let_def)
  ultimately show ?thesis using r [of "[]"] unfolding carried_def by auto
qed

lemma serverChallenge_normal:
  assumes "serverChallenge env cfg = Inr ch"
  shows "Challenge_Normalized (Challenge_Normalized ch) = Challenge_Normalized ch"
  by (rule ReconnectChallenge.equality)
     (simp_all add: Challenge_Normalized_def NewReconnectChallenge_Inr(5,6) [OF assms [unfolded serverChallenge_def]]
       reconnect_version_defaults reconnect_defaults)

text \<open>The messages of an exchange.\<close>

abbreviation challengeMessage :: "ReconnectChallenge \<Rightarrow> ReconnectChallengeEnvelope" where
  "challengeMessage ch \<equiv> \<lparr>cvType = reconnectChallengeType, cvProtocol = ReconnectProtocolVersion, cvChallenge = ch\<rparr>"

abbreviation proofMessage :: "SignedReconnectIdentity \<Rightarrow> ReconnectProof \<Rightarrow> ReconnectProofEnvelope" where
  "proofMessage si prf \<equiv> \<lparr>pvType = reconnectProofType, pvProtocol = ReconnectProtocolVersion, pvIdentity = si, pvProof = prf\<rparr>"

abbreviation acceptMessage :: "Node \<Rightarrow> RegisterResponse" where
  "acceptMessage node \<equiv> reconnectResponse\<lparr>rrNode := ndID node, rrServices := Services node\<rparr>"

lemma server_completes:
  assumes "length (scAuthorityPublicKey cfg) = 32" "serverChallenge env cfg = Inr ch"
    "VerifyReconnectProof (evCrypto env) (evJson env) (evClock env) ch si prf (scAuthorityPublicKey cfg)
      (scMaxIdentityTTL cfg) (gsCache s) (evSecond env) = (Inr (i, ss), cache')"
    "RegisterVerified (evClock env) (gsRegistry s) (riContext i) ss = (Inr node, r')"
    "carried (cjChallengeText (evJson env)) (cjChallengeDecode (evJson env)) (challengeMessage ch) p1"
    "carried (cjProofText (evJson env)) (cjProofDecode (evJson env)) (proofMessage si prf) p2"
    "carried (cjResponseText (evJson env)) (cjResponseDecode (evJson env)) (acceptMessage node) p3"
    "cnScript (tgConn (gsStream s)) = []" "cnOut (tgConn (gsStream s)) = []"
  shows "\<exists>s' acc. ServeReconnectStream env cfg False (frameOf p2) s = (Inr acc, s') \<and> gsRegistry s' = r'
    \<and> cnOut (tgConn (gsStream s')) = frameOf p1 @ frameOf p3
    \<and> raNode acc = node \<and> raServices acc = ss \<and> raLinkID acc = chLinkID ch"
proof -
  define w1 where "w1 = (tgConn (gsStream s))\<lparr>cnOut := frameOf p1\<rparr>"
  have "ServeReconnectStream env cfg False (frameOf p2) s = serveProof env cfg ch (proofMessage si prf) (putConn s w1)"
    using assms(1,2,5,6,8,9) by (simp add: ServeReconnectStream_def w1_def carried_def)
  with assms(3,4,7,8) show ?thesis by (simp add: serveProof_def sendReconnect_def putConn_def w1_def carried_def)
qed

lemma client_completes:
  assumes "serverChallenge env cfg = Inr ch"
    "Challenge_Validate (evClock cenv) (evFirst cenv) (Challenge_Normalized ch) = None"
    "clientRefuses (evCrypto cenv) ccfg (Challenge_Normalized ch) = None"
    "BuildReconnectProof (evCrypto cenv) (evJson cenv) (evClock cenv) (Challenge_Normalized ch) (ccIdentity ccfg) (ccNodePrivateKey ccfg)
       (ccServices ccfg) (evFirst cenv) = Inr prf"
    "carried (cjChallengeText (evJson cenv)) (cjChallengeDecode (evJson cenv)) (challengeMessage ch) p1"
    "carried (cjProofText (evJson cenv)) (cjProofDecode (evJson cenv)) (proofMessage (ccIdentity ccfg) prf) p2"
    "carried (cjResponseText (evJson cenv)) (cjResponseDecode (evJson cenv)) (acceptMessage node) p3"
    "cnScript w = []" "cnOut w = []"
  shows "RegisterNodeReconnectStream cenv ccfg False False (frameOf p1 @ frameOf p3) w =
    ((acceptMessage node, Some (Challenge_Normalized ch), None), w\<lparr>cnOut := frameOf p2\<rparr>)"
  using assms(2-) serverChallenge_normal [OF assms(1)]
  by (simp add: RegisterNodeReconnectStream_def clientAnswer_def Let_def reconnectResponse_def carried_def)

lemma exchange_completes:
  assumes env: "evCrypto cenv = evCrypto env" "evJson cenv = evJson env"
    and server: "length (scAuthorityPublicKey cfg) = 32" "serverChallenge env cfg = Inr ch"
    and client: "Challenge_Validate (evClock cenv) (evFirst cenv) (Challenge_Normalized ch) = None"
      "clientRefuses (evCrypto env) ccfg (Challenge_Normalized ch) = None"
      "BuildReconnectProof (evCrypto env) (evJson env) (evClock cenv) (Challenge_Normalized ch) (ccIdentity ccfg) (ccNodePrivateKey ccfg)
         (ccServices ccfg) (evFirst cenv) = Inr prf"
      "crypto_laws (evCrypto env) (ccNodePrivateKey ccfg) (privatePublic (ccNodePrivateKey ccfg))"
    and verify: "Challenge_Validate (evClock env) (evSecond env) (Challenge_Normalized ch) = None"
      "VerifySignedReconnectIdentity (evCrypto env) (cjIdentity (evJson env)) (evClock env) (ccIdentity ccfg) (scAuthorityPublicKey cfg)
         (proofOptions (Challenge_Normalized ch) (scMaxIdentityTTL cfg) (evSecond env)) = Inr i"
      "Accept (TrimSpace (chChallengeID ch)) (chExpiresAtUnix ch) (nowOrCurrent (evClock env) (evSecond env)) (gsCache s) = (True, cache')"
    and reg: "normalizeReconnectServices (ccServices ccfg) = Inr ss"
      "RegisterVerified (evClock env) (gsRegistry s) (riContext i) ss = (Inr node, r')"
    and json: "message_ok (cjChallengeText (evJson env)) (cjChallengeDecode (evJson env)) (challengeMessage ch)"
      "message_ok (cjProofText (evJson env)) (cjProofDecode (evJson env)) (proofMessage (ccIdentity ccfg) prf)"
      "message_ok (cjResponseText (evJson env)) (cjResponseDecode (evJson env)) (acceptMessage node)"
    and calm: "cnScript (tgConn (gsStream s)) = []" "cnOut (tgConn (gsStream s)) = []" "cnScript w = []" "cnOut w = []"
  shows "\<exists>s' w' acc. ServeReconnectStream env cfg False (cnOut w') s = (Inr acc, s')
    \<and> RegisterNodeReconnectStream cenv ccfg False False (cnOut (tgConn (gsStream s'))) w =
        ((acceptMessage node, Some (Challenge_Normalized ch), None), w')
    \<and> gsRegistry s' = r' \<and> raNode acc = node \<and> raServices acc = ss \<and> raLinkID acc = chLinkID ch"
proof -
  have "BuildReconnectProof (evCrypto env) (evJson env) (evClock cenv) ch (ccIdentity ccfg) (ccNodePrivateKey ccfg)
      (ccServices ccfg) (evFirst cenv) = Inr prf"
    using client(3) unfolding BuildReconnectProof_def serverChallenge_normal [OF server(2)] .
  from built_proof_verifies [OF client(4) this verify]
  have v: "VerifyReconnectProof (evCrypto env) (evJson env) (evClock env) ch (ccIdentity ccfg) prf (scAuthorityPublicKey cfg)
      (scMaxIdentityTTL cfg) (gsCache s) (evSecond env) = (Inr (i, ss), cache')"
    using reg(1) by simp
  obtain p1 p2 p3 where p: "carried (cjChallengeText (evJson env)) (cjChallengeDecode (evJson env)) (challengeMessage ch) p1"
      "carried (cjProofText (evJson env)) (cjProofDecode (evJson env)) (proofMessage (ccIdentity ccfg) prf) p2"
      "carried (cjResponseText (evJson env)) (cjResponseDecode (evJson env)) (acceptMessage node) p3"
    using json message_carried by metis
  from client_completes [OF server(2), of cenv ccfg "prf" p1 p2 node p3 w] client p calm(3,4)
  have "RegisterNodeReconnectStream cenv ccfg False False (frameOf p1 @ frameOf p3) w =
      ((acceptMessage node, Some (Challenge_Normalized ch), None), w\<lparr>cnOut := frameOf p2\<rparr>)" unfolding env by blast
  moreover obtain s' acc where "ServeReconnectStream env cfg False (frameOf p2) s = (Inr acc, s')" "gsRegistry s' = r'"
      "cnOut (tgConn (gsStream s')) = frameOf p1 @ frameOf p3" "raNode acc = node" "raServices acc = ss" "raLinkID acc = chLinkID ch"
    using server_completes [OF server v reg(2) p calm(1,2)] by blast
  ultimately show ?thesis by (intro exI [of _ s'] exI [of _ "w\<lparr>cnOut := frameOf p2\<rparr>"] exI [of _ acc]) simp
qed

text \<open>A challenge the acceptor made is valid for its whole lifetime.\<close>

lemma serverChallenge_shape:
  assumes "serverChallenge env cfg = Inr ch"
  shows "challengeShape (Challenge_Normalized ch)"
    "DeriveID (linkDigest (evCrypto env)) \<lparr>dChainSHA256 = chChainSHA256 (Challenge_Normalized ch),
       dTopology = ncNodes (NodeContext_Normalized (scLocalContext cfg)), dLocalNode = chAcceptorNode (Challenge_Normalized ch),
       dPeerNode = chProverNode (Challenge_Normalized ch)\<rparr> = Inr (chLinkID (Challenge_Normalized ch))"
  using assms unfolding serverChallenge_def NewReconnectChallenge_def Let_def
  by (auto simp: Challenge_Normalized_def NodeContext_Normalized_sel TrimSpace_ToLower dest!: Challenge_Validate_None(1)
      split: if_splits sum.splits option.splits)

lemma serverChallenge_valid:
  assumes "serverChallenge env cfg = Inr ch" "chIssuedAtUnix ch \<le> go_unix (nowOrCurrent clock now)"
    "go_unix (nowOrCurrent clock now) < chExpiresAtUnix ch"
  shows "Challenge_Validate clock now (Challenge_Normalized ch) = None"
  using serverChallenge_shape(1) [OF assms(1)] assms(2,3)
  by (simp add: Challenge_Validate_def serverChallenge_normal [OF assms(1)] Let_def) (simp add: Challenge_Normalized_def)

text \<open>An identity verified for a challenge is of its prover and its chain; in the same chain it has the link of the challenge.\<close>

lemma verified_identity_matches:
  assumes ch: "serverChallenge env cfg = Inr ch"
    and i: "VerifySignedReconnectIdentity (evCrypto env) marshal clock si pk (proofOptions (Challenge_Normalized ch) ttl now) = Inr i"
    and nodes: "ncNodes (riContext i) = ncNodes (NodeContext_Normalized (scLocalContext cfg))"
  shows "ncCurrentNode (riContext i) = chProverNode (Challenge_Normalized ch)"
    "ncChainSHA256 (riContext i) = chChainSHA256 (Challenge_Normalized ch)"
    "identityMatchesChallenge (evCrypto env) i (Challenge_Normalized ch) = None"
proof -
  let ?n = "Challenge_Normalized ch"
  note v = i [unfolded VerifySignedReconnectIdentity_Inr]
  have ctx: "riContext i = NodeContext_Normalized (riContext (siIdentity si))" using v by (simp add: Identity_Normalized_context)
  have ne: "TrimSpace (chChainSHA256 ?n) \<noteq> []" "TrimSpace (chProverNode ?n) \<noteq> []"
  proof -
    have "validSHA256 (chChainSHA256 ?n)" and p: "validReconnectText (chProverNode ?n) 256"
      using serverChallenge_shape(1) [OF ch] unfolding challengeShape_def by blast+
    then have "length (chChainSHA256 ?n) = 64" unfolding validSHA256_def by blast
    moreover have "TrimSpace (chChainSHA256 ?n) = chChainSHA256 ?n" by (simp add: Challenge_Normalized_def TrimSpace_ToLower)
    ultimately have "length (TrimSpace (chChainSHA256 ?n)) = 64" by (simp only:)
    then show "TrimSpace (chChainSHA256 ?n) \<noteq> []" by (intro notI) simp
    show "TrimSpace (chProverNode ?n) \<noteq> []" using p by (auto simp: validReconnectText_def Let_def)
  qed
  then show cur: "ncCurrentNode (riContext i) = chProverNode ?n" "ncChainSHA256 (riContext i) = chChainSHA256 ?n"
    using v reconnectOptionsError_None [of "proofOptions ?n ttl now" "reconnect_now clock (proofOptions ?n ttl now)" i]
    by (auto simp: proofOptions_def Challenge_Normalized_def TrimSpace_ToLower)
  show "identityMatchesChallenge (evCrypto env) i ?n = None"
    using serverChallenge_shape(2) [OF ch] cur nodes
    by (simp add: identityMatchesChallenge_def Let_def NodeContext_renormalized [OF ctx])
qed

text \<open>What the client expects of the challenge, where it expects anything.\<close>

definition client_expects :: "ReconnectClientConfig \<Rightarrow> ReconnectChallenge \<Rightarrow> bool" where
  "client_expects ccfg ch =
     (TrimSpace (ccExpectedAcceptorNode ccfg) \<in> {[], TrimSpace (chAcceptorNode ch)}
      \<and> TrimSpace (ccExpectedSessionBinding ccfg) \<in> {[], TrimSpace (chSessionBinding ch)}
      \<and> ccExpectedTransportID ccfg \<in> {[], TrimSpace (chTransportID ch)})"

text \<open>Encoding a struct of texts and numbers does not fail.\<close>

definition json_encodes :: "control_json \<Rightarrow> bool" where
  "json_encodes js = ((\<forall>c. cjChallenge js c \<noteq> None) \<and> (\<forall>i sig. cjSignedIdentity js i sig \<noteq> None) \<and> (\<forall>s. cjStatement js s \<noteq> None))"

lemma validSHA256_digest:
  assumes "length (sha256Sum C x) = 32"
  shows "validSHA256 (SHA256Hex C x)"
proof -
  have "list_all hex_digit (hexEncode bs)" for bs
    using hexEncode_lower [of bs] by (auto simp: list_all_iff lower_hex_digit_def hex_digit_def Let_def)
  moreover have "ToLower (hexEncode bs) = hexEncode bs" for bs
    using arg_cong [OF hexEncode_normal [of bs], of ToLower] hexEncode_normal [of bs] by (metis TrimSpace_ToLower TrimSpace_idem ToLower_idem)
  ultimately show ?thesis using assms by (simp add: validSHA256_def SHA256Hex_def hexDecodes_def)
qed

text \<open>The node with the certified key builds its proof.\<close>

lemma node_builds_proof:
  assumes ch: "serverChallenge env cfg = Inr ch"
    and i: "VerifySignedReconnectIdentity (evCrypto env) (cjIdentity (evJson env)) clock' si pk (proofOptions (Challenge_Normalized ch) ttl now') = Inr i"
    and nodes: "ncNodes (riContext i) = ncNodes (NodeContext_Normalized (scLocalContext cfg))"
    and time: "chIssuedAtUnix ch \<le> go_unix (nowOrCurrent clock now)" "go_unix (nowOrCurrent clock now) < chExpiresAtUnix ch"
    and key: "length key = 64" "Identity_PublicKey (evCrypto env) i = Inr (privatePublic key)"
    and services: "normalizeReconnectServices services = Inr ss"
    and enc: "json_encodes (evJson env)" "\<And>x. length (sha256Sum (evCrypto env) x) = 32"
  shows "\<exists>prf. BuildReconnectProof (evCrypto env) (evJson env) clock (Challenge_Normalized ch) si key services now = Inr prf"
proof -
  let ?n = "Challenge_Normalized ch" and ?C = "evCrypto env" and ?js = "evJson env"
  note v = i [unfolded VerifySignedReconnectIdentity_Inr]
  have in': "Identity_Normalized ?C (siIdentity si) = i" using v by simp
  obtain canonical sig where sg: "cjIdentity ?js i = Some canonical" "b64Decode (TrimSpace (siSignature si)) = Some sig" "length sig = 64"
    using v by blast
  have iv: "Identity_Validate ?C i = None" using v by blast
  obtain e1 e2 where e: "cjChallenge ?js ?n = Some e1" "cjSignedIdentity ?js i (TrimSpace (siSignature si)) = Some e2"
    using enc(1) unfolding json_encodes_def by blast
  have idn: "ReconnectIdentitySHA256 ?C (cjIdentity ?js) (cjSignedIdentity ?js) si = Inr (SHA256Hex ?C e2)"
    by (simp add: ReconnectIdentitySHA256_def canonicalReconnectIdentity_def in' Let_def iv sg e)
  let ?st = "challengeStatement ?n (SHA256Hex ?C e1) (SHA256Hex ?C e2) ss"
  have ex: "expectedReconnectStatement ?C ?js ?n si ss = Inr ?st"
    unfolding expectedReconnectStatement_Inr serverChallenge_normal [OF ch] using e(1) idn by blast
  note n = normalizeReconnectServices_Inr(5) [OF services]
  have norm: "Statement_Normalized ?st = ?st" by (rule challengeStatement_normal [OF n])
  have sh: "challengeShape ?n" by (rule serverChallenge_shape(1) [OF ch])
  have shape: "statementShape ?st"
    using sh validSHA256_digest [OF enc(2)]
    by (simp add: statementShape_def challengeShape_def challengeStatement_def Statement_Normalized_def SHA256Hex_def hexEncode_normal
        Challenge_Normalized_def reconnect_version_defaults reconnect_defaults)
  have "smServices ?st = ss" by (simp add: challengeStatement_def Statement_Normalized_def n)
  then obtain c where c: "canonicalReconnectStatement ?js ?st = Inr c"
    using enc(1) shape n unfolding canonical_Inr norm json_encodes_def by (metis not_None_eq)
  show ?thesis
    using serverChallenge_valid [OF ch time] verified_identity_matches(3) [OF ch i nodes] key services ex c iv
    by (simp add: BuildReconnectProof_def serverChallenge_normal [OF ch] in' Let_def)
qed

lemma client_agrees:
  assumes ch: "serverChallenge env cfg = Inr ch"
    and i: "VerifySignedReconnectIdentity (evCrypto env) marshal clock (ccIdentity ccfg) pk (proofOptions (Challenge_Normalized ch) ttl now) = Inr i"
    and nodes: "ncNodes (riContext i) = ncNodes (NodeContext_Normalized (scLocalContext cfg))"
    and e: "client_expects ccfg ch"
  shows "clientRefuses (evCrypto env) ccfg (Challenge_Normalized ch) = None"
proof -
  have eqs: "Identity_Normalized (evCrypto env) (siIdentity (ccIdentity ccfg)) = i"
    "chAcceptorNode (Challenge_Normalized ch) = TrimSpace (chAcceptorNode ch)"
    "chSessionBinding (Challenge_Normalized ch) = TrimSpace (chSessionBinding ch)"
    "chTransportID (Challenge_Normalized ch) = TrimSpace (chTransportID ch)"
    using i unfolding VerifySignedReconnectIdentity_Inr by (simp_all add: Challenge_Normalized_def)
  show ?thesis
    unfolding clientRefuses_def Let_def eqs verified_identity_matches(1,2) [OF ch i nodes]
    using e unfolding client_expects_def by auto
qed

lemma accept_fresh:
  assumes "\<And>seen. cache = Some seen \<Longrightarrow> nonce \<notin> fst ` set seen"
  shows "\<exists>cache'. Accept nonce expires now cache = (True, cache')"
proof (cases cache)
  case (Some seen)
  have "map_of (filter P seen) nonce = None" for P using assms [OF Some] by (auto simp: map_of_eq_None_iff)
  then show ?thesis by (simp add: Accept_def CheckAndStore_def Some Let_def)
qed (simp add: Accept_def CheckAndStore_def)

text \<open>A registry takes the node when it has no other chain and no newer registration of the node.\<close>

definition registry_open :: "NodeRegistry \<Rightarrow> NodeContext \<Rightarrow> bool" where
  "registry_open r ctx =
     ((nrChainID r = [] \<or> nrChainID r = ncChainID ctx \<and> nrChainSHA256 r = ncChainSHA256 ctx \<and> nrOrder r = ncNodes ctx)
      \<and> (\<forall>n. map_of (nrNodes r) (ncCurrentNode ctx) = Some n \<longrightarrow> ncIssuedAtUnix (ndContext n) \<le> ncIssuedAtUnix ctx))"

lemma registry_takes:
  assumes "NodeContext_Validate ctx = None" "ctx = NodeContext_Normalized c0" "go_unix clock < ncExpiresAtUnix ctx"
    "normalizeServices ctx ss = Inr ns" "registry_open r ctx"
  shows "\<exists>node r'. RegisterVerified clock r ctx ss = (Inr node, r') \<and> ndID node = ncCurrentNode ctx \<and> ndServices node = ns
    \<and> map_option ndServices (map_of (nrNodes r') (ncCurrentNode ctx)) = Some ns"
proof -
  note f = NodeContext_Validate_facts(1) [OF assms(1,2)]
  note s = NodeContext_renormalized [OF assms(2)]
  let ?c = "NodeContext_Normalized ctx"
  have "NodeContext_Normalized ?c = ?c"
    by (rule NodeContext_Normalized_idem) (simp add: assms(2) NodeContext_Normalized_sel)
  then have v: "NodeContext_Validate ?c = None" using assms(1) by (simp add: NodeContext_Validate_def)
  have ns: "normalizeServices ?c ss = Inr ns" using assms(4) by (simp add: normalizeServices_def s)
  have x: "\<not> ncExpiresAtUnix ?c \<le> go_unix clock" using assms(3) by (simp add: NodeContext_Normalized_sel)
  have "\<exists>r1. adoptChain r ?c = Some r1 \<and> nrOrder r1 = ncNodes ctx \<and> nrNodes r1 = nrNodes r"
    using assms(5) unfolding registry_open_def adoptChain_def s sameStrings_eq by auto
  then obtain r1 where r1: "adoptChain r ?c = Some r1" "nrOrder r1 = ncNodes ctx" "nrNodes r1 = nrNodes r" by blast
  have ix: "\<not> indexOf (nrOrder r1) (ncCurrentNode ?c) < 0" using f by (simp add: indexOf_neg r1 s)
  have st: "\<not> (case map_of (nrNodes r1) (ncCurrentNode ?c) of None \<Rightarrow> False | Some existing \<Rightarrow> ncIssuedAtUnix ?c < ncIssuedAtUnix (ndContext existing))"
    using assms(5) by (auto simp: registry_open_def r1 s split: option.splits)
  show ?thesis
    unfolding RegisterVerified_def Let_def using v x ns r1 ix st by (simp add: cloneNode_def s update_conv')
qed

text \<open>
  C20: The exchange completes. The acceptor trusts an authority key of 32 bytes and has issued a challenge; the
  node has an identity of the acceptor's chain that the authority signed and that the acceptor finds in its
  validity for the challenged prover, and the private key the identity certifies; it expects nothing else of the
  challenge and asks for at most 64 valid services that the capabilities of its context permit. Both clocks are
  in the challenge's lifetime, the challenge was not used before, and the registry has no other chain and no
  newer registration of the node. The connection takes every write, and the three messages fit their frames and
  are decoded as they were encoded. Then each side, reading exactly what the other writes, returns success, the
  registry has the node with its services, and the node is told its name and services.
\<close>

theorem reconnect_exchange:
  assumes env: "evCrypto cenv = evCrypto env" "evJson cenv = evJson env"
    and server: "length (scAuthorityPublicKey cfg) = 32" "serverChallenge env cfg = Inr ch"
    and times: "chIssuedAtUnix ch \<le> go_unix (nowOrCurrent (evClock cenv) (evFirst cenv))"
      "go_unix (nowOrCurrent (evClock cenv) (evFirst cenv)) < chExpiresAtUnix ch"
      "chIssuedAtUnix ch \<le> go_unix (nowOrCurrent (evClock env) (evSecond env))"
      "go_unix (nowOrCurrent (evClock env) (evSecond env)) < chExpiresAtUnix ch"
    and client: "client_expects ccfg ch" "length (ccNodePrivateKey ccfg) = 64" "normalizeReconnectServices (ccServices ccfg) = Inr ss"
    and identity: "VerifySignedReconnectIdentity (evCrypto env) (cjIdentity (evJson env)) (evClock env) (ccIdentity ccfg)
         (scAuthorityPublicKey cfg) (proofOptions (Challenge_Normalized ch) (scMaxIdentityTTL cfg) (evSecond env)) = Inr i"
      "Identity_PublicKey (evCrypto env) i = Inr (privatePublic (ccNodePrivateKey ccfg))"
      "ncNodes (riContext i) = ncNodes (NodeContext_Normalized (scLocalContext cfg))"
    and crypto: "crypto_laws (evCrypto env) (ccNodePrivateKey ccfg) (privatePublic (ccNodePrivateKey ccfg))"
      "\<And>x. length (sha256Sum (evCrypto env) x) = 32"
    and fresh: "\<And>seen. gsCache s = Some seen \<Longrightarrow> TrimSpace (chChallengeID ch) \<notin> fst ` set seen"
    and registry: "registry_open (gsRegistry s) (riContext i)" "go_unix (evClock env) < ncExpiresAtUnix (riContext i)"
      "normalizeServices (riContext i) ss = Inr ns"
    and json: "json_encodes (evJson env)"
      "message_ok (cjChallengeText (evJson env)) (cjChallengeDecode (evJson env)) (challengeMessage ch)"
      "\<And>prf. BuildReconnectProof (evCrypto env) (evJson env) (evClock cenv) (Challenge_Normalized ch) (ccIdentity ccfg)
          (ccNodePrivateKey ccfg) (ccServices ccfg) (evFirst cenv) = Inr prf \<Longrightarrow>
        message_ok (cjProofText (evJson env)) (cjProofDecode (evJson env)) (proofMessage (ccIdentity ccfg) prf)"
      "message_ok (cjResponseText (evJson env)) (cjResponseDecode (evJson env))
         (reconnectResponse\<lparr>rrNode := ncCurrentNode (riContext i), rrServices := sort ns\<rparr>)"
    and calm: "cnScript (tgConn (gsStream s)) = []" "cnOut (tgConn (gsStream s)) = []" "cnScript w = []" "cnOut w = []"
  shows "\<exists>s' w' acc. ServeReconnectStream env cfg False (cnOut w') s = (Inr acc, s')
    \<and> RegisterNodeReconnectStream cenv ccfg False False (cnOut (tgConn (gsStream s'))) w =
        ((reconnectResponse\<lparr>rrNode := ncCurrentNode (riContext i), rrServices := sort ns\<rparr>, Some (Challenge_Normalized ch), None), w')
    \<and> map_option ndServices (map_of (nrNodes (gsRegistry s')) (ncCurrentNode (riContext i))) = Some ns
    \<and> ndID (raNode acc) = ncCurrentNode (riContext i) \<and> raServices acc = ss \<and> raLinkID acc = chLinkID ch"
proof -
  obtain q where p: "BuildReconnectProof (evCrypto env) (evJson env) (evClock cenv) (Challenge_Normalized ch) (ccIdentity ccfg)
      (ccNodePrivateKey ccfg) (ccServices ccfg) (evFirst cenv) = Inr q"
    using node_builds_proof [OF server(2) identity(1,3) times(1,2) client(2) identity(2) client(3) json(1) crypto(2)] by blast
  have v: "Identity_Validate (evCrypto env) i = None" "i = Identity_Normalized (evCrypto env) (siIdentity (ccIdentity ccfg))"
    using identity(1) unfolding VerifySignedReconnectIdentity_Inr by blast+
  have ctx: "riContext i = NodeContext_Normalized (riContext (siIdentity (ccIdentity ccfg)))"
    using v(2) by (simp add: Identity_Normalized_context)
  obtain node r' where r: "RegisterVerified (evClock env) (gsRegistry s) (riContext i) ss = (Inr node, r')"
      "ndID node = ncCurrentNode (riContext i)" "ndServices node = ns"
      "map_option ndServices (map_of (nrNodes r') (ncCurrentNode (riContext i))) = Some ns"
    using registry_takes [OF Identity_Validate_facts(2) [OF v] ctx registry(2,3,1)] by blast
  obtain cache' where a: "Accept (TrimSpace (chChallengeID ch)) (chExpiresAtUnix ch) (nowOrCurrent (evClock env) (evSecond env)) (gsCache s)
      = (True, cache')"
    using accept_fresh [OF fresh] by blast
  have m: "acceptMessage node = reconnectResponse\<lparr>rrNode := ncCurrentNode (riContext i), rrServices := sort ns\<rparr>"
    by (simp add: r(2,3) Services_def)
  from exchange_completes [OF env server serverChallenge_valid [OF server(2) times(1,2)]
      client_agrees [OF server(2) identity(1,3) client(1)] p crypto(1) serverChallenge_valid [OF server(2) times(3,4)] identity(1) a client(3) r(1)
      json(2) json(3) [OF p] _ calm] json(4) r(2,4)
  show ?thesis unfolding m by blast
qed

section \<open>A node that reconnects\<close>

text \<open>The node \<open>gate\<close> of the demonstration chain proves itself to its neighbour \<open>host\<close>.\<close>

definition demo_host_context :: NodeContext where
  "demo_host_context = (demo_context AudienceNodeContext)\<lparr>ncCurrentNode := ''host''\<rparr>"

definition demo_time :: go_time where
  "demo_time = 62135597800 * go_second"

definition demo_key :: bytes where
  "demo_key = replicate 32 0 @ replicate 32 5"

definition demo_signed_identity :: SignedReconnectIdentity where
  "demo_signed_identity =
     \<lparr>siIdentity = Identity_Normalized demo_crypto demo_identity, siSignature = b64Encode (edSign demo_crypto [] (toBytes (publicKeySHA256 demo_crypto (replicate 32 5))))\<rparr>"

definition demo_link_id :: string where
  "demo_link_id = SHA256Hex demo_crypto []"

definition demo_challenge :: ReconnectChallenge where
  "demo_challenge =
     \<lparr>chVersion = ReconnectChallengeVersion, chAlgorithm = Algorithm, chChallengeID = ''AQ'', chLinkID = demo_link_id,
      chTransportID = ''transport-1'', chSessionBinding = ''bind'', chChainSHA256 = replicate 64 (CHR ''b''),
      chAcceptorNode = ''host'', chProverNode = ''gate'', chIssuedAtUnix = 1000, chExpiresAtUnix = 1030\<rparr>"

lemma demo_link_id_text: "demo_link_id = replicate 32 (CHR ''a'') @ replicate 32 (CHR ''a'')"
  unfolding demo_link_id_def by code_simp

lemma demo_reconnect_strings:
  "TrimSpace ''AQ'' = ''AQ''" "TrimSpace ''transport-1'' = ''transport-1''" "TrimSpace ''bind'' = ''bind''"
  "validReconnectText ''AQ'' 512" "validReconnectText ''bind'' 512" "validReconnectText ''host'' 256" "validReconnectText ''gate'' 256"
  "ValidateTransportID ''transport-1'' = None" "validSHA256 (replicate 64 (CHR ''b''))" "validSHA256 (SHA256Hex demo_crypto x)"
  "ValidateID demo_link_id = None" "b64Encode [1] = ''AQ''" "linkDigest demo_crypto y = demo_link_id"
proof -
  have d: "SHA256Hex demo_crypto x = demo_link_id" "linkDigest demo_crypto y = demo_link_id" for x y
    by (simp_all add: linkDigest_def SHA256Hex_def demo_link_id_def demo_crypto_def)
  show "validSHA256 (SHA256Hex demo_crypto x)" unfolding d(1) demo_link_id_text by code_simp
  show "ValidateID demo_link_id = None" unfolding demo_link_id_text by code_simp
  show "linkDigest demo_crypto y = demo_link_id" by (rule d(2))
  show "TrimSpace ''AQ'' = ''AQ''" "TrimSpace ''transport-1'' = ''transport-1''" "TrimSpace ''bind'' = ''bind''"
    "validReconnectText ''AQ'' 512" "validReconnectText ''bind'' 512" "validReconnectText ''host'' 256" "validReconnectText ''gate'' 256"
    "ValidateTransportID ''transport-1'' = None" "validSHA256 (replicate 64 (CHR ''b''))" "b64Encode [1] = ''AQ''"
    by code_simp+
qed

lemma demo_challenge_normal: "Challenge_Normalized demo_challenge = demo_challenge"
  by (rule ReconnectChallenge.equality)
     (simp_all add: Challenge_Normalized_def demo_challenge_def demo_reconnect_strings demo_node_strings demo_grant_strings
       reconnect_version_defaults reconnect_defaults)

lemma demo_challenge_valid: "Challenge_Validate clock demo_time demo_challenge = None"
proof -
  have "ttlDuration 1000 1030 \<le> MaxReconnectChallengeTTL" by (simp add: ttlDuration_def go_int64_def)
  then have "challengeShape demo_challenge"
    by (simp add: challengeShape_def demo_challenge_def demo_reconnect_strings)
  moreover have "go_unix (nowOrCurrent clock demo_time) = 1000" by (simp add: nowOrCurrent_def demo_time_def go_unix_def)
  ultimately show ?thesis unfolding Challenge_Validate_def demo_challenge_normal Let_def by (simp add: demo_challenge_def)
qed

lemma demo_derived: "DeriveID (linkDigest demo_crypto) \<lparr>dChainSHA256 = replicate 64 (CHR ''b''), dTopology = [''client'', ''gate'', ''host''],
    dLocalNode = ''host'', dPeerNode = ''gate''\<rparr> = Inr demo_link_id"
proof -
  have "validNode ''host''" "validNode ''gate''" "normTopology [] [''client'', ''gate'', ''host''] = Some [''client'', ''gate'', ''host'']"
    "hexDecodes (replicate 64 (CHR ''b''))" by code_simp+
  then show ?thesis
    by (simp add: DeriveID_def normalizeDescriptor_def Let_def demo_grant_strings demo_node_strings demo_reconnect_strings del: normTopology.simps)
qed

lemma demo_host_normal: "NodeContext_Normalized demo_host_context = demo_host_context"
  by (intro NodeContext.equality)
     (simp_all add: NodeContext_Normalized_sel demo_host_context_def demo_context_def demo_node_strings demo_grant_strings
       audience_default NodeContextVersion_def Algorithm_def del: trimUnique.simps)

lemma demo_host_valid: "NodeContext_Validate demo_host_context = None"
  unfolding NodeContext_Validate_def demo_host_normal Let_def
  by (simp add: demo_host_context_def demo_context_def demo_grant_strings nodeInContext_def hasCapability_def demo_node_strings
      audience_default(1) not_sym [OF audience_default(2)])

abbreviation demo_node_identity :: ReconnectIdentity where
  "demo_node_identity \<equiv> Identity_Normalized demo_crypto demo_identity"

lemma demo_node_identity_normal: "Identity_Normalized demo_crypto demo_node_identity = demo_node_identity"
  by (rule Identity_Normalized_idem [where key = "replicate 32 5"])
     (simp_all add: definite_identity_def definite_def demo_identity_def demo_context_def del: replicate.simps)

lemma demo_identity_accepted:
  "VerifySignedReconnectIdentity demo_crypto demo_identity_marshal clock demo_signed_identity (replicate 32 7)
     (proofOptions demo_challenge 0 demo_time) = Inr demo_node_identity"
proof -
  have "TrimSpace AudienceReconnectIdentity = AudienceReconnectIdentity" by (simp add: reconnect_defaults)
  then have o: "reconnectOptionsError (proofOptions demo_challenge 0 demo_time)
      (reconnect_now clock (proofOptions demo_challenge 0 demo_time)) demo_node_identity = None"
    unfolding demo_identity_normal
    by (simp add: reconnectOptionsError_def reconnect_now_def proofOptions_def demo_time_def demo_challenge_def demo_context_def go_unix_def
        demo_node_strings demo_grant_strings)
  have m: "demo_identity_marshal demo_node_identity = Some (toBytes (publicKeySHA256 demo_crypto (replicate 32 5)))"
    by (simp add: demo_identity_marshal_def demo_identity_normal toBytes_def)
  have l: "length (edSign demo_crypto [] x) = 64" "edVerify demo_crypto (replicate 32 7) x (edSign demo_crypto [] x)" for x
    using demo_crypto_laws [of "[]" "replicate 32 7"] by (simp_all add: crypto_laws_def)
  show ?thesis
    unfolding VerifySignedReconnectIdentity_Inr using o m l demo_identity_valid
    by (simp add: demo_signed_identity_def demo_node_identity_normal)
qed

lemma demo_public_key: "Identity_PublicKey demo_crypto demo_node_identity = Inr (replicate 32 5)"
proof -
  have "decodeReconnectPublicKey (riNodePublicKey demo_identity) = Inr (replicate 32 5)"
    by (simp add: demo_identity_def del: replicate.simps)
  then show ?thesis using demo_identity_valid by (simp add: Identity_PublicKey_def demo_node_identity_normal Let_def del: replicate.simps)
qed

lemma demo_identity_matches: "identityMatchesChallenge demo_crypto demo_node_identity demo_challenge = None"
  unfolding identityMatchesChallenge_def Let_def demo_identity_normal
  by (simp add: demo_context_normal audience_default) (simp add: demo_context_def demo_challenge_def demo_derived)

definition demo_statement :: ReconnectStatement where
  "demo_statement = challengeStatement demo_challenge (SHA256Hex demo_crypto []) (SHA256Hex demo_crypto []) []"

definition demo_proof_made :: ReconnectProof where
  "demo_proof_made = \<lparr>rpStatement = demo_statement, rpSignature = b64Encode (edSign demo_crypto demo_key [1])\<rparr>"

definition demo_gate_plain :: Node where
  "demo_gate_plain = \<lparr>ndID = ''gate'', ndIndex = 1, ndContext = demo_context AudienceNodeContext, ndServices = [ServiceControl]\<rparr>"

definition demo_control_json :: control_json where
  "demo_control_json =
     \<lparr>cjContext = demo_node_marshal, cjIdentity = demo_identity_marshal, cjSignedIdentity = (\<lambda>i sig. Some []), cjChallenge = (\<lambda>c. Some []), cjStatement = (\<lambda>s. Some [1]),
      cjChallengeText = (\<lambda>m. Some [1]), cjChallengeDecode = (\<lambda>b. Some (challengeMessage demo_challenge, True)),
      cjProofText = (\<lambda>m. Some [2]), cjProofDecode = (\<lambda>b. Some (proofMessage demo_signed_identity demo_proof_made, True)),
      cjResponseText = (\<lambda>m. Some [3]), cjResponseDecode = (\<lambda>b. Some (acceptMessage demo_gate_plain, True))\<rparr>"

lemma demo_statement_sel:
  "Statement_Normalized demo_statement = demo_statement" "statementShape demo_statement" "smServices demo_statement = []"
proof -
  have n: "normalizeReconnectServices [] = Inr []" by (simp add: normalizeReconnectServices_def)
  show "Statement_Normalized demo_statement = demo_statement" unfolding demo_statement_def by (rule challengeStatement_normal [OF n])
  have h: "ToLower (TrimSpace (SHA256Hex demo_crypto x)) = SHA256Hex demo_crypto x" for x by (simp add: SHA256Hex_def hexEncode_normal)
  show "statementShape demo_statement" "smServices demo_statement = []"
    by (simp_all add: demo_statement_def statementShape_def challengeStatement_def Statement_Normalized_def n h demo_challenge_def
        demo_reconnect_strings demo_node_strings demo_grant_strings reconnect_version_defaults reconnect_defaults)
qed

lemma demo_proof_built:
  "BuildReconnectProof demo_crypto demo_control_json clock demo_challenge demo_signed_identity demo_key [] demo_time = Inr demo_proof_made"
proof -
  have n: "normalizeReconnectServices [] = Inr []" by (simp add: normalizeReconnectServices_def)
  have si: "Identity_Normalized demo_crypto (siIdentity demo_signed_identity) = demo_node_identity"
    by (simp add: demo_signed_identity_def demo_node_identity_normal)
  have l: "length (edSign demo_crypto [] x) = 64" for x using demo_crypto_laws [of "[]" "[]"] by (simp add: crypto_laws_def)
  have "ReconnectIdentitySHA256 demo_crypto demo_identity_marshal (\<lambda>i sig. Some []) demo_signed_identity = Inr (SHA256Hex demo_crypto [])"
    using demo_identity_valid l
    by (simp add: ReconnectIdentitySHA256_def canonicalReconnectIdentity_def si Let_def demo_identity_marshal_def)
       (simp add: demo_signed_identity_def)
  then have e: "expectedReconnectStatement demo_crypto demo_control_json demo_challenge demo_signed_identity [] = Inr demo_statement"
    by (simp add: expectedReconnectStatement_Inr demo_control_json_def demo_statement_def)
  have c: "canonicalReconnectStatement demo_control_json demo_statement = Inr [1]"
    by (simp add: canonical_Inr demo_statement_sel n) (simp add: demo_control_json_def)
  show ?thesis
    using demo_identity_valid demo_identity_matches demo_public_key e c n
    by (simp add: BuildReconnectProof_def demo_challenge_normal demo_challenge_valid si Let_def demo_proof_made_def privatePublic_def demo_key_def)
qed

lemma demo_plain_registered:
  "RegisterVerified demo_time NewRegistry (demo_context AudienceNodeContext) [] =
     (Inr demo_gate_plain, \<lparr>nrChainID = ''c1'', nrChainSHA256 = replicate 64 (CHR ''b''), nrOrder = [''client'', ''gate'', ''host''],
        nrNodes = [(''gate'', demo_gate_plain)]\<rparr>)"
proof -
  have "normalizeServices (demo_context AudienceNodeContext) [] = Inr [ServiceControl]"
    unfolding normalizeServices_def by (simp add: demo_context_def) code_simp
  moreover have "NodeContext_Normalized (demo_context AudienceNodeContext) = demo_context AudienceNodeContext"
    by (simp add: demo_context_normal audience_default)
  moreover have "NodeContext_Validate (demo_context AudienceNodeContext) = None" by (simp add: demo_context_valid audience_default)
  ultimately show ?thesis
    unfolding RegisterVerified_def Let_def
    by (simp add: adoptChain_def NewRegistry_def demo_gate_plain_def cloneNode_def)
       (simp add: demo_context_def go_unix_def indexOf_def demo_time_def)
qed

lemma demo_key_laws: "crypto_laws demo_crypto demo_key (privatePublic demo_key)"
  by (rule demo_crypto_laws)

lemma demo_fresh: "Accept ''AQ'' 1030 t (Some []) = (True, Some [(''AQ'', 1030)])"
  by (simp add: Accept_def CheckAndStore_def)

lemma demo_proof_accepted:
  "VerifyReconnectProof demo_crypto demo_control_json clock demo_challenge demo_signed_identity demo_proof_made (replicate 32 7) 0 (Some []) demo_time
     = (Inr (demo_node_identity, []), Some [(''AQ'', 1030)])"
proof -
  have i: "VerifySignedReconnectIdentity demo_crypto (cjIdentity demo_control_json) clock demo_signed_identity (replicate 32 7)
      (proofOptions (Challenge_Normalized demo_challenge) 0 demo_time) = Inr demo_node_identity"
    unfolding demo_challenge_normal using demo_identity_accepted by (simp add: demo_control_json_def)
  have v: "Challenge_Validate clock demo_time (Challenge_Normalized demo_challenge) = None"
    unfolding demo_challenge_normal by (rule demo_challenge_valid)
  have f: "Accept (TrimSpace (chChallengeID demo_challenge)) (chExpiresAtUnix demo_challenge) (nowOrCurrent clock demo_time) (Some []) =
      (True, Some [(''AQ'', 1030)])"
    by (simp add: demo_challenge_def demo_reconnect_strings demo_fresh)
  from built_proof_verifies [OF demo_key_laws demo_proof_built v i f] show ?thesis by (simp add: normalizeReconnectServices_def)
qed


definition demo_control_env :: control_env where
  "demo_control_env =
     \<lparr>evCrypto = demo_crypto, evJson = demo_control_json, evRand = (\<lambda>n. Some [1]), evClock = demo_time, evFirst = demo_time,
      evSecond = demo_time, evErrText = (\<lambda>e. ''refused'')\<rparr>"

definition demo_server :: ReconnectServerConfig where
  "demo_server =
     \<lparr>scAuthorityPublicKey = replicate 32 7, scLocalContext = demo_host_context, scPeerNode = ''gate'', scSessionBinding = ''bind'',
      scTransportID = ''transport-1'', scChallengeTTL = 0, scMaxIdentityTTL = 0\<rparr>"

definition demo_client :: ReconnectClientConfig where
  "demo_client =
     \<lparr>ccIdentity = demo_signed_identity, ccNodePrivateKey = demo_key, ccServices = [], ccExpectedAcceptorNode = ''host '',
      ccExpectedSessionBinding = ''bind'', ccExpectedTransportID = ''transport-1''\<rparr>"

definition demo_reg_state :: "string \<Rightarrow> NonceCache option \<Rightarrow> reg_state" where
  "demo_reg_state protocol cache =
     \<lparr>gsRegistry = NewRegistry, gsCache = cache, gsStream = freshStream ServiceControl (toBytes protocol)\<rparr>"

lemma demo_serverChallenge: "serverChallenge demo_control_env demo_server = Inr demo_challenge"
proof -
  have n: "randomReconnectNonce (\<lambda>n. Some [1]) 24 = Some ''AQ''" by (simp add: randomReconnectNonce_def demo_reconnect_strings)
  have t: "nowOrCurrent demo_time demo_time = demo_time" "go_unix demo_time = 1000" "go_unix (demo_time + 30000000000) = 1030"
    by (simp_all add: nowOrCurrent_def demo_time_def go_unix_def)
  have h: "ncChainSHA256 demo_host_context = replicate 64 (CHR ''b'')" "ncNodes demo_host_context = [''client'', ''gate'', ''host'']"
    "ncCurrentNode demo_host_context = ''host''" by (simp_all add: demo_host_context_def demo_context_def)
  show ?thesis
    unfolding serverChallenge_def NewReconnectChallenge_def
    using demo_challenge_valid [of demo_time, unfolded demo_challenge_def]
    by (simp add: demo_control_env_def demo_server_def Let_def demo_host_normal demo_host_valid h t n demo_derived demo_reconnect_strings
        demo_node_strings demo_challenge_def)
qed

lemma demo_client_agrees: "clientRefuses demo_crypto demo_client demo_challenge = None"
proof -
  have "TrimSpace ''host '' = ''host''" "Identity_Normalized demo_crypto (siIdentity demo_signed_identity) = demo_node_identity"
    by (code_simp, simp add: demo_signed_identity_def demo_node_identity_normal)
  then show ?thesis
    by (simp add: clientRefuses_def demo_client_def Let_def demo_identity_normal) (simp add: demo_challenge_def demo_context_def demo_reconnect_strings)
qed

theorem reconnect_exchange_witness:
  "\<exists>s' w' acc. ServeReconnectStream demo_control_env demo_server False (cnOut w') (demo_reg_state ReconnectProtocolVersion (Some [])) = (Inr acc, s')
    \<and> RegisterNodeReconnectStream demo_control_env demo_client False False (cnOut (tgConn (gsStream s')))
        \<lparr>cnScript = [], cnOut = [], cnClosed = False\<rparr> =
        ((reconnectResponse\<lparr>rrNode := ''gate'', rrServices := [ServiceControl]\<rparr>, Some demo_challenge, None), w')
    \<and> map_option ndServices (map_of (nrNodes (gsRegistry s')) ''gate'') = Some [ServiceControl]"
proof -
  let ?s = "demo_reg_state ReconnectProtocolVersion (Some [])" and ?w = "\<lparr>cnScript = [], cnOut = [], cnClosed = False\<rparr>"
  note env = demo_control_env_def demo_server_def demo_client_def demo_reg_state_def freshStream_def
  have ctx: "riContext demo_node_identity = demo_context AudienceNodeContext" by (simp add: demo_identity_normal)
  have cur: "ncCurrentNode (riContext demo_node_identity) = ''gate''" by (simp add: ctx demo_context_def)
  have tr: "TrimSpace ''host '' = ''host''" by code_simp
  have srv: "normalizeServices (demo_context AudienceNodeContext) [] = Inr [ServiceControl]"
    unfolding normalizeServices_def by (simp add: demo_context_def) code_simp
  have t: "go_unix (nowOrCurrent demo_time demo_time) = 1000" "go_unix demo_time = 1000"
    by (simp_all add: nowOrCurrent_def demo_time_def go_unix_def)
  have "\<exists>s' w' acc. ServeReconnectStream demo_control_env demo_server False (cnOut w') ?s = (Inr acc, s')
    \<and> RegisterNodeReconnectStream demo_control_env demo_client False False (cnOut (tgConn (gsStream s'))) ?w =
        ((reconnectResponse\<lparr>rrNode := ncCurrentNode (riContext demo_node_identity), rrServices := sort [ServiceControl]\<rparr>,
          Some (Challenge_Normalized demo_challenge), None), w')
    \<and> map_option ndServices (map_of (nrNodes (gsRegistry s')) (ncCurrentNode (riContext demo_node_identity))) = Some [ServiceControl]
    \<and> ndID (raNode acc) = ncCurrentNode (riContext demo_node_identity) \<and> raServices acc = [] \<and> raLinkID acc = chLinkID demo_challenge"
  proof (rule reconnect_exchange)
    show "length (scAuthorityPublicKey demo_server) = 32" by (simp add: env)
    show "serverChallenge demo_control_env demo_server = Inr demo_challenge" by (rule demo_serverChallenge)
    show "client_expects demo_client demo_challenge"
      by (simp add: client_expects_def demo_client_def demo_challenge_def demo_reconnect_strings demo_node_strings tr)
    show "length (ccNodePrivateKey demo_client) = 64" by (simp add: env demo_key_def)
    show "normalizeReconnectServices (ccServices demo_client) = Inr []" by (simp add: env normalizeReconnectServices_def)
    show "VerifySignedReconnectIdentity (evCrypto demo_control_env) (cjIdentity (evJson demo_control_env)) (evClock demo_control_env)
        (ccIdentity demo_client) (scAuthorityPublicKey demo_server)
        (proofOptions (Challenge_Normalized demo_challenge) (scMaxIdentityTTL demo_server) (evSecond demo_control_env)) = Inr demo_node_identity"
      using demo_identity_accepted by (simp add: env demo_challenge_normal demo_control_json_def del: replicate.simps)
    show "Identity_PublicKey (evCrypto demo_control_env) demo_node_identity = Inr (privatePublic (ccNodePrivateKey demo_client))"
      using demo_public_key by (simp add: env privatePublic_def demo_key_def del: replicate.simps)
    show "ncNodes (riContext demo_node_identity) = ncNodes (NodeContext_Normalized (scLocalContext demo_server))"
      by (simp add: ctx demo_server_def demo_host_normal) (simp add: demo_host_context_def)
    show "crypto_laws (evCrypto demo_control_env) (ccNodePrivateKey demo_client) (privatePublic (ccNodePrivateKey demo_client))"
      by (simp add: env demo_key_laws)
    show "length (sha256Sum (evCrypto demo_control_env) x) = 32" for x by (simp add: demo_control_env_def demo_crypto_def)
    show "registry_open (gsRegistry ?s) (riContext demo_node_identity)" by (simp add: env registry_open_def NewRegistry_def)
    show "normalizeServices (riContext demo_node_identity) [] = Inr [ServiceControl]" unfolding ctx by (rule srv)
    show "go_unix (evClock demo_control_env) < ncExpiresAtUnix (riContext demo_node_identity)"
      by (simp add: ctx demo_control_env_def t) (simp add: demo_context_def)
    show "json_encodes (evJson demo_control_env)" by (simp add: json_encodes_def demo_control_env_def demo_control_json_def)
    show "message_ok (cjProofText (evJson demo_control_env)) (cjProofDecode (evJson demo_control_env)) (proofMessage (ccIdentity demo_client) q)"
      if "BuildReconnectProof (evCrypto demo_control_env) (evJson demo_control_env) (evClock demo_control_env) (Challenge_Normalized demo_challenge)
        (ccIdentity demo_client) (ccNodePrivateKey demo_client) (ccServices demo_client) (evFirst demo_control_env) = Inr q" for q
    proof -
      have "q = demo_proof_made" using that by (simp add: env demo_challenge_normal demo_proof_built)
      then show ?thesis by (simp add: env message_ok_def demo_control_json_def)
    qed
    show "message_ok (cjResponseText (evJson demo_control_env)) (cjResponseDecode (evJson demo_control_env))
        (reconnectResponse\<lparr>rrNode := ncCurrentNode (riContext demo_node_identity), rrServices := sort [ServiceControl]\<rparr>)"
      by (simp add: cur message_ok_def demo_control_env_def demo_control_json_def demo_gate_plain_def Services_def)
  qed (simp_all add: env t demo_challenge_def message_ok_def demo_control_json_def)
  then show ?thesis by (auto simp: cur demo_challenge_normal)
qed

definition demo_any :: AnyRegistrationConfig where
  "demo_any =
     \<lparr>acLegacyVerifier = Some (fst (NewAuthproofVerifier demo_control_env (replicate 32 0) (demo_node_options AudienceNodeContext))),
      acExpectedSessionBinding = '' bind'', acReconnect = None\<rparr>"

definition demo_request :: RegisterRequest where
  "demo_request = registerRequest (demo_signed AudienceNodeContext) [] ''bind''"

lemma demo_request_verifies:
  "VerifySignedNodeContext demo_crypto demo_node_marshal demo_time (demo_signed AudienceNodeContext) (replicate 32 0) (demo_node_options AudienceNodeContext)
     = (Inr (demo_context AudienceNodeContext), None)"
proof -
  have "VerifySignedNodeContext demo_crypto demo_node_marshal demo_time (demo_signed AudienceNodeContext) (replicate 32 0) (demo_node_options AudienceNodeContext)
     = VerifySignedNodeContext demo_crypto demo_node_marshal 0 (demo_signed AudienceNodeContext) (replicate 32 0) (demo_node_options AudienceNodeContext)"
    by (simp add: VerifySignedNodeContext_def demo_node_options_def del: replicate.simps)
  also have "\<dots> = (Inr (demo_context AudienceNodeContext), None)"
    by (rule demo_context_verifies) (simp_all add: demo_context_normal audience_default)
  finally show ?thesis .
qed

lemma demo_any_registers:
  "\<exists>s'. ServeAnyRegistration demo_control_env demo_any (Inr demo_request) False [] (demo_reg_state ProtocolVersion None)
      = (Inr (legacyAccepted '' bind'' demo_gate_plain), s') \<and> nrNodes (gsRegistry s') = [(''gate'', demo_gate_plain)]"
proof -
  have t: "TrimSpace '' bind'' = ''bind''" "TrimSpace ''bind'' = ''bind''" by code_simp+
  have o: "(demo_node_options AudienceNodeContext)\<lparr>noReplayCache := None\<rparr> = demo_node_options AudienceNodeContext"
    by (simp add: demo_node_options_def)
  show ?thesis
    using demo_request_verifies demo_plain_registered
    by (simp add: ServeAnyRegistration_def ServeRegistrationStream_def demo_any_def demo_reg_state_def freshStream_def demo_request_def
        registerRequest_def t o NewAuthproofVerifier_def demo_control_env_def demo_control_json_def encodeResponse_def writeFull_empty_script
        closeStream_def del: replicate.simps)
qed

theorem registration_verified_witness:
  "\<exists>s' ctx cache'. ServeAnyRegistration demo_control_env demo_any (Inr demo_request) False [] (demo_reg_state ProtocolVersion None)
       = (Inr (legacyAccepted '' bind'' demo_gate_plain), s')
     \<and> VerifySignedNodeContext demo_crypto demo_node_marshal demo_time (rqSignedContext demo_request) (replicate 32 0)
         ((demo_node_options AudienceNodeContext)\<lparr>noReplayCache := None\<rparr>) = (Inr ctx, cache')
     \<and> gsRegistry s' = snd (RegisterVerified demo_time NewRegistry ctx (rqServices demo_request))"
proof -
  obtain s' where s': "ServeAnyRegistration demo_control_env demo_any (Inr demo_request) False [] (demo_reg_state ProtocolVersion None)
      = (Inr (legacyAccepted '' bind'' demo_gate_plain), s')" "nrNodes (gsRegistry s') = [(''gate'', demo_gate_plain)]"
    using demo_any_registers by blast
  have "gsRegistry s' \<noteq> gsRegistry (demo_reg_state ProtocolVersion None)"
    using s'(2) by (auto simp: demo_reg_state_def NewRegistry_def)
  from registration_verified [OF _ s'(1) this, of "replicate 32 0" "demo_node_options AudienceNodeContext"] s'(1)
  show ?thesis by (auto simp: demo_any_def demo_control_env_def demo_control_json_def demo_reg_state_def)
qed

end
