(* ===== verification/Store_Config.thy ===== *)
theory Store_Config
  imports Wv_Net
begin

text \<open>
  Configuration of key-value stores and the registry of their engines: \<open>storageadapter/adapter.go\<close>,
  \<open>config.go\<close> and \<open>registry.go\<close>. A Go map is an association list, a slice that may be nil an
  optional byte string. The contents of \<open>errors.New\<close> and \<open>fmt.Errorf\<close> texts are kept, since the
  stores show them in their snapshots, without the quotes of \<open>%q\<close>. A runtime panic is the error \<open>StorePanic\<close>.
\<close>

subsection \<open>Errors and slices (\<open>adapter.go\<close>)\<close>

datatype store_error =
    ErrNotFound | ErrConflict | ErrReadOnly | ErrClosed | ErrUnsupported | ErrEngineUnavailable
  | ErrStore string
  | ErrStoreWrap store_error string
  | StorePanic

primrec storeErrorText :: "store_error \<Rightarrow> string" where
  "storeErrorText ErrNotFound = ''storageadapter: key not found''"
| "storeErrorText ErrConflict = ''storageadapter: compare-and-swap conflict''"
| "storeErrorText ErrReadOnly = ''storageadapter: store is read-only''"
| "storeErrorText ErrClosed = ''storageadapter: store is closed''"
| "storeErrorText ErrUnsupported = ''storageadapter: operation unsupported''"
| "storeErrorText ErrEngineUnavailable = ''storageadapter: engine unavailable''"
| "storeErrorText (ErrStore msg) = msg"
| "storeErrorText (ErrStoreWrap e msg) = storeErrorText e @ '': '' @ msg"
| "storeErrorText StorePanic = ''runtime error''"

text \<open>\<open>errors.Is\<close>.\<close>

primrec storeErrorIs :: "store_error \<Rightarrow> store_error \<Rightarrow> bool" where
  "storeErrorIs ErrNotFound target = (target = ErrNotFound)"
| "storeErrorIs ErrConflict target = (target = ErrConflict)"
| "storeErrorIs ErrReadOnly target = (target = ErrReadOnly)"
| "storeErrorIs ErrClosed target = (target = ErrClosed)"
| "storeErrorIs ErrUnsupported target = (target = ErrUnsupported)"
| "storeErrorIs ErrEngineUnavailable target = (target = ErrEngineUnavailable)"
| "storeErrorIs (ErrStore msg) target = (target = ErrStore msg)"
| "storeErrorIs (ErrStoreWrap e msg) target = (target = ErrStoreWrap e msg \<or> storeErrorIs e target)"
| "storeErrorIs StorePanic target = (target = StorePanic)"

type_synonym slice = "bytes option"

definition sliceBytes :: "slice \<Rightarrow> bytes" where
  "sliceBytes s = (case s of None \<Rightarrow> [] | Some b \<Rightarrow> b)"

text \<open>\<open>append([]byte(nil), value...)\<close>, which is nil for an empty value.\<close>

definition copySlice :: "bytes \<Rightarrow> slice" where
  "copySlice b = (if b = [] then None else Some b)"

lemma sliceBytes_simps [simp]: "sliceBytes None = []" "sliceBytes (Some b) = b"
  by (simp_all add: sliceBytes_def)

lemma sliceBytes_copySlice [simp]: "sliceBytes (copySlice b) = b"
  by (simp add: copySlice_def)

record Capabilities =
  cpTransactions :: bool
  cpAtomicBatch :: bool
  cpCompareAndSwap :: bool
  cpOrderedScan :: bool
  cpDurable :: bool
  cpReadOnly :: bool

record StoreSnapshot =
  ssEngine :: string
  ssNamespace :: string
  ssCapabilities :: Capabilities
  ssEntries :: u64
  ssBytes :: u64
  ssOpenedAt :: go_time
  ssLastError :: string

record StoreEntry =
  seKey :: bytes
  seValue :: slice

record ScanOptions =
  soPrefix :: bytes
  soAfter :: bytes
  soLimit :: int

subsection \<open>Configuration (\<open>config.go\<close>)\<close>

abbreviation ConfigVersion :: string where "ConfigVersion \<equiv> ''weaverssh.storage.v1''"
abbreviation defaultMaxKeyBytes :: int where "defaultMaxKeyBytes \<equiv> 4096"
abbreviation defaultMaxValueBytes :: int where "defaultMaxValueBytes \<equiv> 16777216"
abbreviation maximumKeyBytes :: int where "maximumKeyBytes \<equiv> 65536"
abbreviation maximumValueBytes :: int where "maximumValueBytes \<equiv> 134217728"

record StoreConfig =
  cfVersion :: string
  cfEngine :: string
  cfNamespace :: string
  cfPath :: string
  cfDSN :: string
  cfReadOnly :: bool
  cfMaxKeyBytes :: int
  cfMaxValueBytes :: int
  cfOptions :: "(string \<times> string) list"

definition tokenChar :: "char \<Rightarrow> bool" where
  "tokenChar r =
     (r = CHR ''-'' \<or> r = CHR ''_'' \<or> r = CHR ''.''
      \<or> (97 \<le> (of_char r :: nat) \<and> (of_char r :: nat) \<le> 122) \<or> (48 \<le> (of_char r :: nat) \<and> (of_char r :: nat) \<le> 57))"

definition validToken :: "string \<Rightarrow> int \<Rightarrow> bool" where
  "validToken v maximum = (v \<noteq> [] \<and> int (length v) \<le> maximum \<and> list_all tokenChar v)"

definition validNamespace :: "string \<Rightarrow> bool" where
  "validNamespace v =
     (int (length v) \<le> 512 \<and> \<not> contains ''//'' v \<and> list_all (\<lambda>part. validToken (ToLower part) 128) (SplitByte (CHR ''/'') v))"

abbreviation badTextChars :: string where
  "badTextChars \<equiv> [CHR 0x00, CHR 0x0D, CHR 0x0A]"

definition cleanOption :: "(string \<times> string) list \<Rightarrow> string \<Rightarrow> (string \<times> string) list \<Rightarrow> (string \<times> string) list" where
  "cleanOption input rawKey output =
     (let v = TrimSpace (the (map_of input rawKey)); key = ToLower (TrimSpace rawKey) in
      if validToken key 128 \<and> int (length v) \<le> 4096 \<and> \<not> ContainsAny v badTextChars then AList.update key v output else output)"

definition cleanOptions :: "(string \<times> string) list \<Rightarrow> (string \<times> string) list" where
  "cleanOptions input = fold (cleanOption input) (sort (map fst input)) []"

definition Config_Normalize :: "StoreConfig \<Rightarrow> store_error + StoreConfig" where
  "Config_Normalize config =
     (let version = (if TrimSpace (cfVersion config) = [] then ConfigVersion else TrimSpace (cfVersion config));
          engine = ToLower (TrimSpace (cfEngine config));
          namespace = TrimCutset (TrimSpace (cfNamespace config)) ''/'';
          path = TrimSpace (cfPath config);
          dsn = TrimSpace (cfDSN config);
          maxKey = (if cfMaxKeyBytes config = 0 then defaultMaxKeyBytes else cfMaxKeyBytes config);
          maxValue = (if cfMaxValueBytes config = 0 then defaultMaxValueBytes else cfMaxValueBytes config) in
      if version \<noteq> ConfigVersion then Inl (ErrStore (''storageadapter: unsupported version '' @ version))
      else if engine = [] then Inl (ErrStore ''storageadapter: engine is required'')
      else if \<not> validToken engine 64 then Inl (ErrStore (''storageadapter: invalid engine '' @ engine))
      else if namespace \<noteq> [] \<and> \<not> validNamespace namespace then Inl (ErrStore ''storageadapter: invalid namespace'')
      else if ContainsAny path badTextChars \<or> ContainsAny dsn badTextChars then Inl (ErrStore ''storageadapter: invalid path or DSN'')
      else if maxKey < 1 \<or> maxKey > maximumKeyBytes then Inl (ErrStore ''storageadapter: max_key_bytes must be 1..65536'')
      else if maxValue < 1 \<or> maxValue > maximumValueBytes then Inl (ErrStore ''storageadapter: max_value_bytes must be 1..134217728'')
      else Inr \<lparr>cfVersion = version, cfEngine = engine, cfNamespace = namespace, cfPath = path, cfDSN = dsn,
                cfReadOnly = cfReadOnly config, cfMaxKeyBytes = maxKey, cfMaxValueBytes = maxValue,
                cfOptions = cleanOptions (cfOptions config)\<rparr>)"

text \<open>
  \<open>LoadConfig\<close> after the limited reader: \<open>decode\<close> is the strict decoder's value and the rest of the
  input, and \<open>None\<close> its failure; what follows the value must be white space.
\<close>

definition LoadConfig :: "(bytes \<Rightarrow> (StoreConfig \<times> bool) option) \<Rightarrow> bytes \<Rightarrow> store_error + StoreConfig" where
  "LoadConfig decode reader =
     (case decode (take 1048576 reader) of
        None \<Rightarrow> Inl (ErrStore ''json'')
      | Some (config, atEnd) \<Rightarrow>
          if \<not> atEnd then Inl (ErrStore ''storageadapter: trailing configuration data'') else Config_Normalize config)"

end
