(* ===== verification/Store_Engine.thy ===== *)
theory Store_Engine
  imports Store_Config
begin

text \<open>
  Key-value stores of \<open>storageadapter\<close>: the interfaces \<open>Tx\<close> and \<open>Store\<close> (\<open>adapter.go\<close>), the
  memory engine (\<open>memory.go\<close>) and the bounding and namespacing wrappers (\<open>wrappers.go\<close>). An
  interface is a record of its methods. The callback of \<open>Update\<close> can touch the store only through the
  \<open>Tx\<close> it is given: a program is the tree of the calls it makes, and \<open>runTx\<close> runs it against any
  \<open>Tx\<close>. The first argument of \<open>Update\<close> is the error of a context that is done.

  The contract \<open>kv_store\<close> says that a store is a finite map whose transactions are atomic. It is
  interpreted by the memory engine, and each wrapper gives it from the contract of the store it wraps.
\<close>

subsection \<open>The interfaces (\<open>adapter.go\<close>)\<close>

type_synonym "values" = "(bytes \<times> bytes) list"

record 'm Tx =
  txGet :: "bytes \<Rightarrow> 'm \<Rightarrow> store_error + slice"
  txPut :: "bytes \<Rightarrow> slice \<Rightarrow> 'm \<Rightarrow> store_error option \<times> 'm"
  txDelete :: "bytes \<Rightarrow> 'm \<Rightarrow> store_error option \<times> 'm"
  txCompareAndSwap :: "bytes \<Rightarrow> slice \<Rightarrow> slice \<Rightarrow> 'm \<Rightarrow> store_error option \<times> 'm"

datatype tx_prog =
    TxReturn "store_error option"
  | TxGet bytes "store_error + slice \<Rightarrow> tx_prog"
  | TxPut bytes slice "store_error option \<Rightarrow> tx_prog"
  | TxDelete bytes "store_error option \<Rightarrow> tx_prog"
  | TxCompareAndSwap bytes slice slice "store_error option \<Rightarrow> tx_prog"

primrec runTx :: "tx_prog \<Rightarrow> 'm Tx \<Rightarrow> 'm \<Rightarrow> store_error option \<times> 'm" where
  "runTx (TxReturn e) tx m = (e, m)"
| "runTx (TxGet k f) tx m = runTx (f (txGet tx k m)) tx m"
| "runTx (TxPut k v f) tx m = (case txPut tx k v m of (r, m') \<Rightarrow> runTx (f r) tx m')"
| "runTx (TxDelete k f) tx m = (case txDelete tx k m of (r, m') \<Rightarrow> runTx (f r) tx m')"
| "runTx (TxCompareAndSwap k old new f) tx m = (case txCompareAndSwap tx k old new m of (r, m') \<Rightarrow> runTx (f r) tx m')"

type_synonym callback = "values Tx \<Rightarrow> values \<Rightarrow> store_error option \<times> values"

record 's Store =
  stName :: string
  stCapabilities :: Capabilities
  stGet :: "bytes \<Rightarrow> 's \<Rightarrow> store_error + slice"
  stScan :: "ScanOptions \<Rightarrow> 's \<Rightarrow> store_error + StoreEntry list"
  stUpdate :: "store_error option \<Rightarrow> callback option \<Rightarrow> 's \<Rightarrow> store_error option \<times> 's"
  stSnapshot :: "'s \<Rightarrow> StoreSnapshot"
  stClose :: "'s \<Rightarrow> store_error option \<times> 's"

subsection \<open>The memory engine (\<open>memory.go\<close>)\<close>

abbreviation errEmptyKey :: store_error where "errEmptyKey \<equiv> ErrStore ''storageadapter: empty key''"
abbreviation errCallback :: store_error where "errCallback \<equiv> ErrStore ''storageadapter: update callback is required''"

definition mapTx_Get :: "bytes \<Rightarrow> values \<Rightarrow> store_error + slice" where
  "mapTx_Get key m = (case map_of m key of None \<Rightarrow> Inl ErrNotFound | Some v \<Rightarrow> Inr (copySlice v))"

definition mapTx_Put :: "bytes \<Rightarrow> slice \<Rightarrow> values \<Rightarrow> store_error option \<times> values" where
  "mapTx_Put key v m = (if key = [] then (Some errEmptyKey, m) else (None, AList.update key (sliceBytes v) m))"

definition mapTx_Delete :: "bytes \<Rightarrow> values \<Rightarrow> store_error option \<times> values" where
  "mapTx_Delete key m = (if key = [] then (Some errEmptyKey, m) else (None, AList.delete key m))"

definition mapTx_CompareAndSwap :: "bytes \<Rightarrow> slice \<Rightarrow> slice \<Rightarrow> values \<Rightarrow> store_error option \<times> values" where
  "mapTx_CompareAndSwap key oldValue newValue m =
     (if (case oldValue of None \<Rightarrow> map_of m key \<noteq> None | Some old \<Rightarrow> map_of m key \<noteq> Some old) then (Some ErrConflict, m)
      else case newValue of
        None \<Rightarrow> (None, AList.delete key m)
      | Some new \<Rightarrow> (None, AList.update key new m))"

definition mapTx :: "values Tx" where
  "mapTx = \<lparr>txGet = mapTx_Get, txPut = mapTx_Put, txDelete = mapTx_Delete, txCompareAndSwap = mapTx_CompareAndSwap\<rparr>"

definition scanSelects :: "ScanOptions \<Rightarrow> bytes \<Rightarrow> bool" where
  "scanSelects options key =
     (\<not> (\<not> prefix (soPrefix options) key \<or> 0 < length (soAfter options) \<and> key \<le> soAfter options))"

text \<open>\<open>Get\<close>, \<open>Scan\<close> and the sums of \<open>Snapshot\<close> are the same code in the memory and the file engine.\<close>

definition scanValues :: "ScanOptions \<Rightarrow> values \<Rightarrow> store_error + StoreEntry list" where
  "scanValues options m =
     (let keys = sort (filter (scanSelects options) (map fst m)) in
      if soLimit options < int (length keys) \<and> soLimit options < 0 then Inl StorePanic
      else let page = (if soLimit options < int (length keys) then take (nat (soLimit options)) keys else keys) in
        Inr (map (\<lambda>key. \<lparr>seKey = key, seValue = copySlice (the (map_of m key))\<rparr>) page))"

definition valueBytes :: "values \<Rightarrow> u64" where
  "valueBytes m = (\<Sum>(key, v) \<leftarrow> m. of_nat (length key + length v))"

record memoryStore =
  msValues :: "values"
  msClosed :: bool
  msOpenedAt :: go_time
  msLastErr :: string

definition openMemory :: "go_time \<Rightarrow> memoryStore" where
  "openMemory now = \<lparr>msValues = [], msClosed = False, msOpenedAt = now, msLastErr = []\<rparr>"

abbreviation memoryCapabilities :: Capabilities where
  "memoryCapabilities \<equiv> \<lparr>cpTransactions = True, cpAtomicBatch = True, cpCompareAndSwap = True, cpOrderedScan = True,
     cpDurable = False, cpReadOnly = False\<rparr>"

definition memory_Get :: "bytes \<Rightarrow> memoryStore \<Rightarrow> store_error + slice" where
  "memory_Get key st = (if msClosed st then Inl ErrClosed else mapTx_Get key (msValues st))"

definition memory_Scan :: "ScanOptions \<Rightarrow> memoryStore \<Rightarrow> store_error + StoreEntry list" where
  "memory_Scan options st = (if msClosed st then Inl ErrClosed else scanValues options (msValues st))"

definition memory_Update :: "store_error option \<Rightarrow> callback option \<Rightarrow> memoryStore \<Rightarrow> store_error option \<times> memoryStore" where
  "memory_Update done fn st =
     (case fn of
        None \<Rightarrow> (Some errCallback, st)
      | Some f \<Rightarrow>
          if done \<noteq> None then (done, st)
          else if msClosed st then (Some ErrClosed, st)
          else case f mapTx (msValues st) of
              (Some e, working) \<Rightarrow> (Some e, st\<lparr>msLastErr := storeErrorText e\<rparr>)
            | (None, working) \<Rightarrow> (None, st\<lparr>msValues := working, msLastErr := []\<rparr>))"

definition memory_Snapshot :: "memoryStore \<Rightarrow> StoreSnapshot" where
  "memory_Snapshot st =
     \<lparr>ssEngine = ''memory'', ssNamespace = [], ssCapabilities = memoryCapabilities,
      ssEntries = of_nat (length (msValues st)), ssBytes = valueBytes (msValues st),
      ssOpenedAt = msOpenedAt st, ssLastError = msLastErr st\<rparr>"

definition memory_Close :: "memoryStore \<Rightarrow> store_error option \<times> memoryStore" where
  "memory_Close st = (if msClosed st then (None, st) else (None, st\<lparr>msClosed := True, msValues := []\<rparr>))"

definition memoryEngine :: "memoryStore Store" where
  "memoryEngine =
     \<lparr>stName = ''memory'', stCapabilities = memoryCapabilities, stGet = memory_Get, stScan = memory_Scan,
      stUpdate = memory_Update, stSnapshot = memory_Snapshot, stClose = memory_Close\<rparr>"

subsection \<open>The bounding wrapper (\<open>wrappers.go\<close>)\<close>

abbreviation errKeyBound :: store_error where
  "errKeyBound \<equiv> ErrStore ''storageadapter: key exceeds configured bound or is empty''"

definition validateKey :: "StoreConfig \<Rightarrow> bytes \<Rightarrow> store_error option" where
  "validateKey config key =
     (if length key = 0 \<or> int (length key) > cfMaxKeyBytes config then Some errKeyBound else None)"

definition boundedTx_Get :: "StoreConfig \<Rightarrow> 'm Tx \<Rightarrow> bytes \<Rightarrow> 'm \<Rightarrow> store_error + slice" where
  "boundedTx_Get config tx key m =
     (if length key = 0 \<or> int (length key) > cfMaxKeyBytes config then Inl errKeyBound
      else case txGet tx key m of
        Inl e \<Rightarrow> Inl e
      | Inr v \<Rightarrow>
          if int (length (sliceBytes v)) > cfMaxValueBytes config then Inl (ErrStore ''storageadapter: value exceeds configured bound'')
          else Inr (copySlice (sliceBytes v)))"

definition boundedTx_Put :: "StoreConfig \<Rightarrow> 'm Tx \<Rightarrow> bytes \<Rightarrow> slice \<Rightarrow> 'm \<Rightarrow> store_error option \<times> 'm" where
  "boundedTx_Put config tx key v m =
     (if length key = 0 \<or> int (length key) > cfMaxKeyBytes config \<or> int (length (sliceBytes v)) > cfMaxValueBytes config then
        (Some (ErrStore ''storageadapter: key or value exceeds configured bound''), m)
      else txPut tx key v m)"

definition boundedTx_Delete :: "StoreConfig \<Rightarrow> 'm Tx \<Rightarrow> bytes \<Rightarrow> 'm \<Rightarrow> store_error option \<times> 'm" where
  "boundedTx_Delete config tx key m =
     (if length key = 0 \<or> int (length key) > cfMaxKeyBytes config then (Some errKeyBound, m) else txDelete tx key m)"

definition boundedTx_CompareAndSwap :: "StoreConfig \<Rightarrow> 'm Tx \<Rightarrow> bytes \<Rightarrow> slice \<Rightarrow> slice \<Rightarrow> 'm \<Rightarrow> store_error option \<times> 'm" where
  "boundedTx_CompareAndSwap config tx key oldValue newValue m =
     (if length key = 0 \<or> int (length key) > cfMaxKeyBytes config \<or> int (length (sliceBytes oldValue)) > cfMaxValueBytes config
         \<or> int (length (sliceBytes newValue)) > cfMaxValueBytes config then
        (Some (ErrStore ''storageadapter: compare-and-swap input exceeds configured bound''), m)
      else txCompareAndSwap tx key oldValue newValue m)"

definition boundedTx :: "StoreConfig \<Rightarrow> 'm Tx \<Rightarrow> 'm Tx" where
  "boundedTx config tx =
     \<lparr>txGet = boundedTx_Get config tx, txPut = boundedTx_Put config tx, txDelete = boundedTx_Delete config tx,
      txCompareAndSwap = boundedTx_CompareAndSwap config tx\<rparr>"

definition bounded_Get :: "StoreConfig \<Rightarrow> 's Store \<Rightarrow> bytes \<Rightarrow> 's \<Rightarrow> store_error + slice" where
  "bounded_Get config S key s =
     (case validateKey config key of
        Some e \<Rightarrow> Inl e
      | None \<Rightarrow>
          (case stGet S key s of
             Inl e \<Rightarrow> Inl e
           | Inr v \<Rightarrow>
               if int (length (sliceBytes v)) > cfMaxValueBytes config then Inl (ErrStore ''storageadapter: stored value exceeds configured bound'')
               else Inr (copySlice (sliceBytes v))))"

fun checkEntries :: "StoreConfig \<Rightarrow> StoreEntry list \<Rightarrow> store_error option" where
  "checkEntries config [] = None"
| "checkEntries config (e # es) =
     (case validateKey config (seKey e) of
        Some err \<Rightarrow> Some err
      | None \<Rightarrow>
          if int (length (sliceBytes (seValue e))) > cfMaxValueBytes config then
            Some (ErrStore ''storageadapter: scanned value exceeds configured bound'')
          else checkEntries config es)"

definition bounded_Scan :: "StoreConfig \<Rightarrow> 's Store \<Rightarrow> ScanOptions \<Rightarrow> 's \<Rightarrow> store_error + StoreEntry list" where
  "bounded_Scan config S options s =
     (if int (length (soPrefix options)) > cfMaxKeyBytes config \<or> int (length (soAfter options)) > cfMaxKeyBytes config then
        Inl (ErrStore ''storageadapter: scan key exceeds configured bound'')
      else if soLimit options \<le> 0 \<or> soLimit options > 10000 then Inl (ErrStore ''storageadapter: scan limit must be 1..10000'')
      else case stScan S options s of
        Inl e \<Rightarrow> Inl e
      | Inr entries \<Rightarrow>
          (case checkEntries config entries of
             Some e \<Rightarrow> Inl e
           | None \<Rightarrow> Inr (map (\<lambda>e. e\<lparr>seValue := copySlice (sliceBytes (seValue e))\<rparr>) entries)))"

definition bounded_Update :: "StoreConfig \<Rightarrow> 's Store \<Rightarrow> store_error option \<Rightarrow> callback option \<Rightarrow> 's \<Rightarrow> store_error option \<times> 's" where
  "bounded_Update config S done fn s =
     (case fn of
        None \<Rightarrow> (Some errCallback, s)
      | Some f \<Rightarrow>
          if cfReadOnly config then (Some ErrReadOnly, s)
          else stUpdate S done (Some (\<lambda>tx. f (boundedTx config tx))) s)"

definition bounded_Snapshot :: "StoreConfig \<Rightarrow> 's Store \<Rightarrow> 's \<Rightarrow> StoreSnapshot" where
  "bounded_Snapshot config S s =
     (let snapshot = (stSnapshot S s)\<lparr>ssNamespace := cfNamespace config\<rparr> in
      if cfReadOnly config then snapshot\<lparr>ssCapabilities := (ssCapabilities snapshot)\<lparr>cpReadOnly := True\<rparr>\<rparr> else snapshot)"

definition boundedStore :: "StoreConfig \<Rightarrow> 's Store \<Rightarrow> 's Store" where
  "boundedStore config S =
     S\<lparr>stGet := bounded_Get config S, stScan := bounded_Scan config S, stUpdate := bounded_Update config S,
       stSnapshot := bounded_Snapshot config S\<rparr>"

subsection \<open>The namespacing wrapper (\<open>wrappers.go\<close>)\<close>

definition validateLogicalKey :: "bytes \<Rightarrow> store_error option" where
  "validateLogicalKey key = (if length key = 0 then Some (ErrStore ''storageadapter: logical key is empty'') else None)"

definition namespaceTx :: "bytes \<Rightarrow> 'm Tx \<Rightarrow> 'm Tx" where
  "namespaceTx namespace tx =
     \<lparr>txGet = (\<lambda>key m. case validateLogicalKey key of Some e \<Rightarrow> Inl e | None \<Rightarrow> txGet tx (namespace @ key) m),
      txPut = (\<lambda>key v m. case validateLogicalKey key of Some e \<Rightarrow> (Some e, m) | None \<Rightarrow> txPut tx (namespace @ key) v m),
      txDelete = (\<lambda>key m. case validateLogicalKey key of Some e \<Rightarrow> (Some e, m) | None \<Rightarrow> txDelete tx (namespace @ key) m),
      txCompareAndSwap = (\<lambda>key oldValue newValue m.
        case validateLogicalKey key of Some e \<Rightarrow> (Some e, m) | None \<Rightarrow> txCompareAndSwap tx (namespace @ key) oldValue newValue m)\<rparr>"

definition namespace_Get :: "bytes \<Rightarrow> 's Store \<Rightarrow> bytes \<Rightarrow> 's \<Rightarrow> store_error + slice" where
  "namespace_Get namespace S key s =
     (case validateLogicalKey key of Some e \<Rightarrow> Inl e | None \<Rightarrow> stGet S (namespace @ key) s)"

fun logicalEntries :: "bytes \<Rightarrow> StoreEntry list \<Rightarrow> store_error + StoreEntry list" where
  "logicalEntries namespace [] = Inr []"
| "logicalEntries namespace (e # es) =
     (if \<not> prefix namespace (seKey e) then logicalEntries namespace es
      else let logical = drop (length namespace) (seKey e) in
        if length logical = 0 then Inl (ErrStore ''storageadapter: provider returned empty namespaced key'')
        else case logicalEntries namespace es of Inl err \<Rightarrow> Inl err | Inr out \<Rightarrow> Inr (e\<lparr>seKey := logical\<rparr> # out))"

definition namespaceOptions :: "bytes \<Rightarrow> ScanOptions \<Rightarrow> ScanOptions" where
  "namespaceOptions namespace options =
     \<lparr>soPrefix = namespace @ soPrefix options,
      soAfter = (if 0 < length (soAfter options) then namespace @ soAfter options else []), soLimit = soLimit options\<rparr>"

definition namespace_Scan :: "bytes \<Rightarrow> 's Store \<Rightarrow> ScanOptions \<Rightarrow> 's \<Rightarrow> store_error + StoreEntry list" where
  "namespace_Scan namespace S options s =
     (case stScan S (namespaceOptions namespace options) s of Inl e \<Rightarrow> Inl e | Inr entries \<Rightarrow> logicalEntries namespace entries)"

definition namespace_Update :: "bytes \<Rightarrow> 's Store \<Rightarrow> store_error option \<Rightarrow> callback option \<Rightarrow> 's \<Rightarrow> store_error option \<times> 's" where
  "namespace_Update namespace S done fn s =
     (case fn of
        None \<Rightarrow> (Some errCallback, s)
      | Some f \<Rightarrow> stUpdate S done (Some (\<lambda>tx. f (namespaceTx namespace tx))) s)"

definition namespace_Snapshot :: "bytes \<Rightarrow> 's Store \<Rightarrow> 's \<Rightarrow> StoreSnapshot" where
  "namespace_Snapshot namespace S s = (stSnapshot S s)\<lparr>ssNamespace := TrimSuffix (ofBytes namespace) ''/''\<rparr>"

definition namespaceStore :: "bytes \<Rightarrow> 's Store \<Rightarrow> 's Store" where
  "namespaceStore namespace S =
     S\<lparr>stGet := namespace_Get namespace S, stScan := namespace_Scan namespace S, stUpdate := namespace_Update namespace S,
       stSnapshot := namespace_Snapshot namespace S\<rparr>"

end
