(* ===== verification/Store_Contract.thy ===== *)
theory Store_Contract
  imports Store_Engine
begin

text \<open>
  What a store of \<open>Store_Engine\<close> promises. \<open>specTx\<close> is a transaction on a finite map; the tests a
  store makes before an operation are the record \<open>tx_checks\<close>, which each wrapper extends. The locale
  \<open>kv_store\<close> is the contract: reading and scanning see one finite map, a successful update replaces it
  by what the program makes of it, and a failed one leaves it as it is. The memory engine keeps the
  contract; \<open>kv_bounded\<close> and \<open>kv_namespace\<close> show that wrapping a store that keeps it gives another.
\<close>

subsection \<open>The specification\<close>

type_synonym kv_map = "bytes \<Rightarrow> bytes option"

record tx_checks =
  ckGet :: "bytes \<Rightarrow> store_error option"
  ckPut :: "bytes \<Rightarrow> slice \<Rightarrow> store_error option"
  ckDelete :: "bytes \<Rightarrow> store_error option"
  ckCas :: "bytes \<Rightarrow> slice \<Rightarrow> slice \<Rightarrow> store_error option"
  ckScan :: "ScanOptions \<Rightarrow> store_error option"

definition lookupResult :: "kv_map \<Rightarrow> bytes \<Rightarrow> store_error + slice" where
  "lookupResult m key = (case m key of None \<Rightarrow> Inl ErrNotFound | Some v \<Rightarrow> Inr (copySlice v))"

definition specTx :: "tx_checks \<Rightarrow> kv_map Tx" where
  "specTx C =
     \<lparr>txGet = (\<lambda>key m. case ckGet C key of Some e \<Rightarrow> Inl e | None \<Rightarrow> lookupResult m key),
      txPut = (\<lambda>key v m. case ckPut C key v of Some e \<Rightarrow> (Some e, m) | None \<Rightarrow> (None, m(key \<mapsto> sliceBytes v))),
      txDelete = (\<lambda>key m. case ckDelete C key of Some e \<Rightarrow> (Some e, m) | None \<Rightarrow> (None, m(key := None))),
      txCompareAndSwap = (\<lambda>key oldValue newValue m.
        case ckCas C key oldValue newValue of
          Some e \<Rightarrow> (Some e, m)
        | None \<Rightarrow> if m key \<noteq> oldValue then (Some ErrConflict, m) else (None, m(key := newValue)))\<rparr>"

definition scanKeys :: "ScanOptions \<Rightarrow> kv_map \<Rightarrow> bytes set" where
  "scanKeys options m = {key \<in> dom m. scanSelects options key}"

definition scanSpec :: "ScanOptions \<Rightarrow> kv_map \<Rightarrow> StoreEntry list" where
  "scanSpec options m =
     map (\<lambda>key. \<lparr>seKey = key, seValue = copySlice (the (m key))\<rparr>)
       (take (nat (soLimit options)) (sorted_list_of_set (scanKeys options m)))"

definition memoryChecks :: tx_checks where
  "memoryChecks =
     \<lparr>ckGet = (\<lambda>_. None), ckPut = (\<lambda>key _. if key = [] then Some errEmptyKey else None),
      ckDelete = (\<lambda>key. if key = [] then Some errEmptyKey else None), ckCas = (\<lambda>_ _ _. None),
      ckScan = (\<lambda>options. if soLimit options < 0 then Some StorePanic else None)\<rparr>"

definition orElse :: "'a option \<Rightarrow> 'a option \<Rightarrow> 'a option" where
  "orElse a b = (case a of None \<Rightarrow> b | Some x \<Rightarrow> Some x)"

lemma orElse_simps [simp]: "orElse None b = b" "orElse (Some x) b = Some x"
  by (simp_all add: orElse_def)

definition boundedChecks :: "StoreConfig \<Rightarrow> tx_checks \<Rightarrow> tx_checks" where
  "boundedChecks config C =
     \<lparr>ckGet = (\<lambda>key. orElse (validateKey config key) (ckGet C key)),
      ckPut = (\<lambda>key v. if length key = 0 \<or> int (length key) > cfMaxKeyBytes config \<or> int (length (sliceBytes v)) > cfMaxValueBytes config
         then Some (ErrStore ''storageadapter: key or value exceeds configured bound'') else ckPut C key v),
      ckDelete = (\<lambda>key. orElse (validateKey config key) (ckDelete C key)),
      ckCas = (\<lambda>key oldValue newValue. if length key = 0 \<or> int (length key) > cfMaxKeyBytes config
           \<or> int (length (sliceBytes oldValue)) > cfMaxValueBytes config \<or> int (length (sliceBytes newValue)) > cfMaxValueBytes config
         then Some (ErrStore ''storageadapter: compare-and-swap input exceeds configured bound'') else ckCas C key oldValue newValue),
      ckScan = (\<lambda>options.
         if int (length (soPrefix options)) > cfMaxKeyBytes config \<or> int (length (soAfter options)) > cfMaxKeyBytes config
         then Some (ErrStore ''storageadapter: scan key exceeds configured bound'')
         else if soLimit options \<le> 0 \<or> soLimit options > 10000 then Some (ErrStore ''storageadapter: scan limit must be 1..10000'')
         else ckScan C options)\<rparr>"

definition namespaceChecks :: "bytes \<Rightarrow> tx_checks \<Rightarrow> tx_checks" where
  "namespaceChecks namespace C =
     \<lparr>ckGet = (\<lambda>key. orElse (validateLogicalKey key) (ckGet C (namespace @ key))),
      ckPut = (\<lambda>key v. orElse (validateLogicalKey key) (ckPut C (namespace @ key) v)),
      ckDelete = (\<lambda>key. orElse (validateLogicalKey key) (ckDelete C (namespace @ key))),
      ckCas = (\<lambda>key oldValue newValue. orElse (validateLogicalKey key) (ckCas C (namespace @ key) oldValue newValue)),
      ckScan = (\<lambda>options. ckScan C (namespaceOptions namespace options))\<rparr>"

text \<open>All keys and values within the configured bounds.\<close>

definition fits :: "StoreConfig \<Rightarrow> kv_map \<Rightarrow> bool" where
  "fits config m = (\<forall>key v. m key = Some v \<longrightarrow>
     0 < length key \<and> int (length key) \<le> cfMaxKeyBytes config \<and> int (length v) \<le> cfMaxValueBytes config)"

text \<open>The part of a map below a namespace.\<close>

definition namespaceView :: "bytes \<Rightarrow> kv_map \<Rightarrow> kv_map" where
  "namespaceView namespace m key = (if key = [] then None else m (namespace @ key))"

subsection \<open>Programs under the wrappers\<close>

text \<open>Wrapping the transaction of a program is the same as rewriting the program.\<close>

primrec boundedProg :: "StoreConfig \<Rightarrow> tx_prog \<Rightarrow> tx_prog" where
  "boundedProg config (TxReturn e) = TxReturn e"
| "boundedProg config (TxGet key f) =
     (case validateKey config key of
        Some e \<Rightarrow> boundedProg config (f (Inl e))
      | None \<Rightarrow> TxGet key (\<lambda>r. boundedProg config (f
          (case r of Inl e \<Rightarrow> Inl e
           | Inr v \<Rightarrow> if int (length (sliceBytes v)) > cfMaxValueBytes config then Inl (ErrStore ''storageadapter: value exceeds configured bound'')
                      else Inr (copySlice (sliceBytes v))))))"
| "boundedProg config (TxPut key v f) =
     (if length key = 0 \<or> int (length key) > cfMaxKeyBytes config \<or> int (length (sliceBytes v)) > cfMaxValueBytes config
      then boundedProg config (f (Some (ErrStore ''storageadapter: key or value exceeds configured bound'')))
      else TxPut key v (\<lambda>r. boundedProg config (f r)))"
| "boundedProg config (TxDelete key f) =
     (case validateKey config key of
        Some e \<Rightarrow> boundedProg config (f (Some e))
      | None \<Rightarrow> TxDelete key (\<lambda>r. boundedProg config (f r)))"
| "boundedProg config (TxCompareAndSwap key oldValue newValue f) =
     (if length key = 0 \<or> int (length key) > cfMaxKeyBytes config \<or> int (length (sliceBytes oldValue)) > cfMaxValueBytes config
         \<or> int (length (sliceBytes newValue)) > cfMaxValueBytes config
      then boundedProg config (f (Some (ErrStore ''storageadapter: compare-and-swap input exceeds configured bound'')))
      else TxCompareAndSwap key oldValue newValue (\<lambda>r. boundedProg config (f r)))"

primrec namespaceProg :: "bytes \<Rightarrow> tx_prog \<Rightarrow> tx_prog" where
  "namespaceProg ns (TxReturn e) = TxReturn e"
| "namespaceProg ns (TxGet key f) =
     (case validateLogicalKey key of Some e \<Rightarrow> namespaceProg ns (f (Inl e)) | None \<Rightarrow> TxGet (ns @ key) (\<lambda>r. namespaceProg ns (f r)))"
| "namespaceProg ns (TxPut key v f) =
     (case validateLogicalKey key of Some e \<Rightarrow> namespaceProg ns (f (Some e)) | None \<Rightarrow> TxPut (ns @ key) v (\<lambda>r. namespaceProg ns (f r)))"
| "namespaceProg ns (TxDelete key f) =
     (case validateLogicalKey key of Some e \<Rightarrow> namespaceProg ns (f (Some e)) | None \<Rightarrow> TxDelete (ns @ key) (\<lambda>r. namespaceProg ns (f r)))"
| "namespaceProg ns (TxCompareAndSwap key oldValue newValue f) =
     (case validateLogicalKey key of
        Some e \<Rightarrow> namespaceProg ns (f (Some e))
      | None \<Rightarrow> TxCompareAndSwap (ns @ key) oldValue newValue (\<lambda>r. namespaceProg ns (f r)))"

lemma runTx_boundedTx: "runTx p (boundedTx config tx) m = runTx (boundedProg config p) tx m"
  by (induction p arbitrary: m)
    (auto simp: boundedTx_def boundedTx_Get_def boundedTx_Put_def boundedTx_Delete_def boundedTx_CompareAndSwap_def
       validateKey_def split: prod.split sum.split)

lemma runTx_namespaceTx: "runTx p (namespaceTx ns tx) m = runTx (namespaceProg ns p) tx m"
  by (induction p arbitrary: m) (auto simp: namespaceTx_def split: prod.split option.split)

text \<open>On a map within the bounds the bounded transaction is the specification with the extended tests.\<close>

lemma fits_update:
  "fits config m \<Longrightarrow> 0 < length key \<Longrightarrow> int (length key) \<le> cfMaxKeyBytes config \<Longrightarrow>
    int (length (sliceBytes v)) \<le> cfMaxValueBytes config \<Longrightarrow> fits config (m(key := v))"
  by (auto simp: fits_def sliceBytes_def split: if_splits)

lemma fits_delete: "fits config m \<Longrightarrow> fits config (m(key := None))"
  by (auto simp: fits_def split: if_splits)

lemma fitsD:
  assumes "fits config m" "m key = Some v"
  shows "key \<noteq> []" "int (length key) \<le> cfMaxKeyBytes config" "int (length v) \<le> cfMaxValueBytes config"
  using assms by (auto simp: fits_def)

lemma bounded_spec_get:
  assumes "fits config m"
  shows "txGet (boundedTx config (specTx C)) key m = txGet (specTx (boundedChecks config C)) key m"
  using assms by (cases "m key") (auto simp: boundedTx_def boundedTx_Get_def boundedChecks_def specTx_def validateKey_def lookupResult_def
      dest: fitsD split: option.split)

lemma bounded_spec_put:
  assumes "fits config m"
  shows "txPut (boundedTx config (specTx C)) key v m = txPut (specTx (boundedChecks config C)) key v m"
    "fits config (snd (txPut (specTx (boundedChecks config C)) key v m))"
  using assms fits_update [OF assms, of key "Some (sliceBytes v)"]
  by (auto simp: boundedTx_def boundedTx_Put_def boundedChecks_def specTx_def split: option.split)

lemma bounded_spec_delete:
  assumes "fits config m"
  shows "txDelete (boundedTx config (specTx C)) key m = txDelete (specTx (boundedChecks config C)) key m"
    "fits config (snd (txDelete (specTx (boundedChecks config C)) key m))"
  using assms fits_delete [OF assms]
  by (auto simp: boundedTx_def boundedTx_Delete_def boundedChecks_def specTx_def validateKey_def split: option.split)

lemma bounded_spec_cas:
  assumes "fits config m"
  shows "txCompareAndSwap (boundedTx config (specTx C)) key oldValue newValue m =
       txCompareAndSwap (specTx (boundedChecks config C)) key oldValue newValue m"
    "fits config (snd (txCompareAndSwap (specTx (boundedChecks config C)) key oldValue newValue m))"
  using assms fits_update [OF assms, of key newValue]
  by (auto simp: boundedTx_def boundedTx_CompareAndSwap_def boundedChecks_def specTx_def split: option.split)

lemma runTx_bounded_spec:
  "fits config m \<Longrightarrow> runTx p (boundedTx config (specTx C)) m = runTx p (specTx (boundedChecks config C)) m
     \<and> fits config (snd (runTx p (specTx (boundedChecks config C)) m))"
proof (induction p arbitrary: m)
  case (TxReturn e)
  then show ?case by simp
next
  case (TxGet key f)
  then show ?case by (simp add: bounded_spec_get)
next
  case (TxPut key v f)
  then show ?case using bounded_spec_put [OF TxPut.prems] by (auto simp: split_beta)
next
  case (TxDelete key f)
  then show ?case using bounded_spec_delete [OF TxDelete.prems] by (auto simp: split_beta)
next
  case (TxCompareAndSwap key old new f)
  then show ?case using bounded_spec_cas [OF TxCompareAndSwap.prems] by (auto simp: split_beta)
qed

text \<open>Below a namespace the specification sees its part of the map and leaves the rest as it is.\<close>

lemma namespace_spec_get:
  "txGet (namespaceTx ns (specTx C)) key m = txGet (specTx (namespaceChecks ns C)) key (namespaceView ns m)"
  by (auto simp: namespaceTx_def namespaceChecks_def specTx_def lookupResult_def namespaceView_def validateLogicalKey_def split: option.split)

definition elsewhere :: "bytes \<Rightarrow> kv_map \<Rightarrow> kv_map \<Rightarrow> bool" where
  "elsewhere ns m m' = (\<forall>key. \<not> prefix ns key \<or> key = ns \<longrightarrow> m' key = m key)"

lemma elsewhere_refl [simp]: "elsewhere ns m m"
  by (simp add: elsewhere_def)

lemma elsewhere_trans: "elsewhere ns m m' \<Longrightarrow> elsewhere ns m' m'' \<Longrightarrow> elsewhere ns m m''"
  by (simp add: elsewhere_def)

lemma elsewhere_update: "key \<noteq> [] \<Longrightarrow> elsewhere ns m (m(ns @ key := v))"
  by (auto simp: elsewhere_def)

lemma namespaceView_update: "key \<noteq> [] \<Longrightarrow> namespaceView ns (m(ns @ key := v)) = (namespaceView ns m)(key := v)"
  by (auto simp: namespaceView_def)

lemma namespace_spec_put:
  assumes "txPut (namespaceTx ns (specTx C)) key v m = (r, m')"
  shows "txPut (specTx (namespaceChecks ns C)) key v (namespaceView ns m) = (r, namespaceView ns m') \<and> elsewhere ns m m'"
  using assms by (cases "key = []") (auto simp: namespaceTx_def namespaceChecks_def specTx_def validateLogicalKey_def namespaceView_update
      elsewhere_update split: option.splits)

lemma namespace_spec_delete:
  assumes "txDelete (namespaceTx ns (specTx C)) key m = (r, m')"
  shows "txDelete (specTx (namespaceChecks ns C)) key (namespaceView ns m) = (r, namespaceView ns m') \<and> elsewhere ns m m'"
  using assms by (cases "key = []") (auto simp: namespaceTx_def namespaceChecks_def specTx_def validateLogicalKey_def namespaceView_update
      elsewhere_update split: option.splits)

lemma namespaceView_key: "key \<noteq> [] \<Longrightarrow> namespaceView ns m key = m (ns @ key)"
  by (simp add: namespaceView_def)

lemma namespace_spec_cas:
  assumes "txCompareAndSwap (namespaceTx ns (specTx C)) key old new m = (r, m')"
  shows "txCompareAndSwap (specTx (namespaceChecks ns C)) key old new (namespaceView ns m) = (r, namespaceView ns m') \<and> elsewhere ns m m'"
  using assms by (cases "key = []") (auto simp: namespaceTx_def namespaceChecks_def specTx_def validateLogicalKey_def namespaceView_update
      namespaceView_key elsewhere_update split: option.splits if_splits)

lemma runTx_namespace_spec:
  "runTx p (namespaceTx ns (specTx C)) m = (r, m') \<Longrightarrow>
     runTx p (specTx (namespaceChecks ns C)) (namespaceView ns m) = (r, namespaceView ns m') \<and> elsewhere ns m m'"
proof (induction p arbitrary: m)
  case (TxReturn e)
  then show ?case by simp
next
  case (TxGet key f)
  show ?case using TxGet.IH [OF rangeI] TxGet.prems by (auto simp: namespace_spec_get)
next
  case (TxPut key v f)
  obtain q m1 where q: "txPut (namespaceTx ns (specTx C)) key v m = (q, m1)" by force
  with TxPut have "runTx (f q) (specTx (namespaceChecks ns C)) (namespaceView ns m1) = (r, namespaceView ns m') \<and> elsewhere ns m1 m'" by auto
  then show ?case using namespace_spec_put [OF q] by (auto intro: elsewhere_trans)
next
  case (TxDelete key f)
  obtain q m1 where q: "txDelete (namespaceTx ns (specTx C)) key m = (q, m1)" by force
  with TxDelete have "runTx (f q) (specTx (namespaceChecks ns C)) (namespaceView ns m1) = (r, namespaceView ns m') \<and> elsewhere ns m1 m'" by auto
  then show ?case using namespace_spec_delete [OF q] by (auto intro: elsewhere_trans)
next
  case (TxCompareAndSwap key old new f)
  obtain q m1 where q: "txCompareAndSwap (namespaceTx ns (specTx C)) key old new m = (q, m1)" by force
  with TxCompareAndSwap have "runTx (f q) (specTx (namespaceChecks ns C)) (namespaceView ns m1) = (r, namespaceView ns m') \<and> elsewhere ns m1 m'" by auto
  then show ?case using namespace_spec_cas [OF q] by (auto intro: elsewhere_trans)
qed

subsection \<open>The contract\<close>

text \<open>A sequence of updates, each with the state of its context.\<close>

primrec storeUpdates :: "'s Store \<Rightarrow> (store_error option \<times> tx_prog) list \<Rightarrow> 's \<Rightarrow> 's" where
  "storeUpdates S [] s = s"
| "storeUpdates S (u # us) s = storeUpdates S us (snd (stUpdate S (fst u) (Some (runTx (snd u))) s))"

locale kv_store =
  fixes S :: "'s Store" and C :: tx_checks and live :: "'s \<Rightarrow> bool" and view :: "'s \<Rightarrow> kv_map"
  assumes finite_view: "live s \<Longrightarrow> finite (dom (view s))"
    and get_law: "live s \<Longrightarrow> stGet S key s = txGet (specTx C) key (view s)"
    and scan_law: "live s \<Longrightarrow> ckScan C options = None \<Longrightarrow> stScan S options s = Inr (scanSpec options (view s))"
    and update_law: "live s \<Longrightarrow> stUpdate S done (Some (runTx p)) s = (res, s') \<Longrightarrow>
      live s' \<and> (case res of None \<Rightarrow> runTx p (specTx C) (view s) = (None, view s') | Some e \<Rightarrow> view s' = view s)"
begin

lemma update_atomic:
  assumes "live s" "stUpdate S done (Some (runTx p)) s = (Some e, s')"
  shows "live s'" "stGet S key s' = stGet S key s"
  using update_law [OF assms] assms(1) by (auto simp: get_law)

lemma update_live: "live s \<Longrightarrow> live (snd (stUpdate S done (Some (runTx p)) s))"
  using update_law by (metis prod.collapse)

lemma put_get:
  assumes "live s" "stUpdate S done (Some (runTx (TxPut key v TxReturn))) s = (None, s')" "ckGet C key' = None"
  shows "stGet S key' s' = (if key' = key then Inr (copySlice (sliceBytes v)) else stGet S key' s)"
proof -
  have "view s' = (view s)(key \<mapsto> sliceBytes v)" "live s'"
    using update_law [OF assms(1,2)] by (auto simp: specTx_def split: option.splits)
  then show ?thesis using assms(1,3) by (simp add: get_law specTx_def lookupResult_def)
qed

text \<open>Of two updates that swap the same value for another, the second one fails.\<close>

lemma cas_once:
  assumes "live s" "stUpdate S d (Some (runTx (TxCompareAndSwap key old new TxReturn))) s = (None, s1)" "new \<noteq> old"
    "stUpdate S d' (Some (runTx (TxCompareAndSwap key old new' TxReturn))) s1 = (res, s2)"
  shows "res \<noteq> None \<and> view s2 = view s1"
proof -
  have "view s1 = (view s)(key := new)" and l: "live s1"
    using update_law [OF assms(1,2)] by (auto simp: specTx_def split: option.splits if_splits)
  then have "view s1 key = new" by simp
  then show ?thesis using update_law [OF l assms(4)] assms(3) by (auto simp: specTx_def split: option.splits if_splits)
qed

lemma updates_live: "live s \<Longrightarrow> live (storeUpdates S us s)"
  by (induction us arbitrary: s) (auto simp: update_live)

end

text \<open>The memory engine: an association list without repeated keys.\<close>

definition memory_live :: "memoryStore \<Rightarrow> bool" where
  "memory_live st = (\<not> msClosed st \<and> distinct (map fst (msValues st)))"

definition memory_view :: "memoryStore \<Rightarrow> kv_map" where
  "memory_view st = map_of (msValues st)"

lemma mapTx_spec:
  "mapTx_Get key m = txGet (specTx memoryChecks) key (map_of m)"
  "mapTx_Put key v m = (r, m') \<Longrightarrow> txPut (specTx memoryChecks) key v (map_of m) = (r, map_of m') \<and> (distinct (map fst m) \<longrightarrow> distinct (map fst m'))"
  "mapTx_Delete key m = (r, m') \<Longrightarrow> txDelete (specTx memoryChecks) key (map_of m) = (r, map_of m') \<and> (distinct (map fst m) \<longrightarrow> distinct (map fst m'))"
  by (auto simp: mapTx_Get_def mapTx_Put_def mapTx_Delete_def specTx_def memoryChecks_def lookupResult_def update_conv' AList.delete_conv'
      distinct_update distinct_delete split: if_splits)

lemma mapTx_spec_cas:
  "mapTx_CompareAndSwap key old new m = (r, m') \<Longrightarrow>
     txCompareAndSwap (specTx memoryChecks) key old new (map_of m) = (r, map_of m') \<and> (distinct (map fst m) \<longrightarrow> distinct (map fst m'))"
  by (auto simp: mapTx_CompareAndSwap_def specTx_def memoryChecks_def update_conv' AList.delete_conv' distinct_update distinct_delete
      split: if_splits option.splits)

lemma runTx_mapTx:
  "runTx p mapTx m = (r, m') \<Longrightarrow> distinct (map fst m) \<Longrightarrow>
     runTx p (specTx memoryChecks) (map_of m) = (r, map_of m') \<and> distinct (map fst m')"
proof (induction p arbitrary: m)
  case (TxReturn e)
  then show ?case by simp
next
  case (TxGet key f)
  show ?case using TxGet.IH [OF rangeI] TxGet.prems by (auto simp: mapTx_def mapTx_spec(1))
next
  case (TxPut key v f)
  obtain q m1 where q: "mapTx_Put key v m = (q, m1)" by force
  with TxPut.prems TxPut.IH [OF rangeI, of q m1] show ?case using mapTx_spec(2) [OF q] by (auto simp: mapTx_def)
next
  case (TxDelete key f)
  obtain q m1 where q: "mapTx_Delete key m = (q, m1)" by force
  with TxDelete.prems TxDelete.IH [OF rangeI, of q m1] show ?case using mapTx_spec(3) [OF q] by (auto simp: mapTx_def)
next
  case (TxCompareAndSwap key old new f)
  obtain q m1 where q: "mapTx_CompareAndSwap key old new m = (q, m1)" by force
  with TxCompareAndSwap.prems TxCompareAndSwap.IH [OF rangeI, of q m1] show ?case using mapTx_spec_cas [OF q] by (auto simp: mapTx_def)
qed

lemma scanValues_spec:
  assumes "distinct (map fst m)" "0 \<le> soLimit options"
  shows "scanValues options m = Inr (scanSpec options (map_of m))"
proof -
  have "set (filter (scanSelects options) (map fst m)) = scanKeys options (map_of m)"
    by (auto simp: scanKeys_def dom_map_of_conv_image_fst)
  then have k: "sort (filter (scanSelects options) (map fst m)) = sorted_list_of_set (scanKeys options (map_of m))"
    using assms(1) by (metis distinct_filter sorted_list_of_set_sort_remdups distinct_remdups_id)
  show ?thesis unfolding scanValues_def k scanSpec_def Let_def using assms(2) by auto
qed

interpretation mem: kv_store memoryEngine memoryChecks memory_live memory_view
proof
  fix st key
  assume l: "memory_live st"
  then show "finite (dom (memory_view st))" by (simp add: memory_view_def finite_dom_map_of)
  show "stGet memoryEngine key st = txGet (specTx memoryChecks) key (memory_view st)"
    using l by (simp add: memoryEngine_def memory_Get_def memory_live_def memory_view_def mapTx_spec(1))
next
  fix st options
  assume "memory_live st" "ckScan memoryChecks options = None"
  then show "stScan memoryEngine options st = Inr (scanSpec options (memory_view st))"
    by (simp add: memoryEngine_def memory_Scan_def memory_live_def memory_view_def memoryChecks_def scanValues_spec split: if_splits)
next
  fix st st' "done" p res
  assume l: "memory_live st" and u: "stUpdate memoryEngine done (Some (runTx p)) st = (res, st')"
  obtain r m where m: "runTx p mapTx (msValues st) = (r, m)" by force
  then have "runTx p (specTx memoryChecks) (map_of (msValues st)) = (r, map_of m) \<and> distinct (map fst m)"
    using l by (simp add: runTx_mapTx memory_live_def)
  then show "memory_live st' \<and> (case res of None \<Rightarrow> runTx p (specTx memoryChecks) (memory_view st) = (None, memory_view st')
      | Some e \<Rightarrow> memory_view st' = memory_view st)"
    using l u m by (auto simp: memoryEngine_def memory_Update_def memory_live_def memory_view_def split: if_splits option.splits)
qed

subsection \<open>The wrappers keep the contract\<close>

lemma checkEntries_fits:
  "fits config m \<Longrightarrow> set ks \<subseteq> dom m \<Longrightarrow>
     checkEntries config (map (\<lambda>key. \<lparr>seKey = key, seValue = copySlice (the (m key))\<rparr>) ks) = None"
  by (induction ks) (auto simp: validateKey_def not_le dest: fitsD)

lemma set_scanned: "finite (dom m) \<Longrightarrow> set (take n (sorted_list_of_set (scanKeys options m))) \<subseteq> scanKeys options m"
  using set_take_subset by (fastforce simp: scanKeys_def)

lemma boundedStore_sel [simp]:
  "stGet (boundedStore config S) = bounded_Get config S" "stScan (boundedStore config S) = bounded_Scan config S"
  "stUpdate (boundedStore config S) = bounded_Update config S"
  by (simp_all add: boundedStore_def)

lemma namespaceStore_sel [simp]:
  "stGet (namespaceStore ns S) = namespace_Get ns S" "stScan (namespaceStore ns S) = namespace_Scan ns S"
  "stUpdate (namespaceStore ns S) = namespace_Update ns S"
  by (simp_all add: namespaceStore_def)

locale kv_bounded = kv_store +
  fixes config :: StoreConfig

sublocale kv_bounded \<subseteq> bd: kv_store "boundedStore config S" "boundedChecks config C" "\<lambda>s. live s \<and> fits config (view s)" view
proof
  fix s key
  assume l: "live s \<and> fits config (view s)"
  then show "finite (dom (view s))" by (simp add: finite_view)
  show "stGet (boundedStore config S) key s = txGet (specTx (boundedChecks config C)) key (view s)"
    using l by (cases "view s key") (auto simp: bounded_Get_def get_law specTx_def boundedChecks_def validateKey_def lookupResult_def
      dest: fitsD split: option.splits)
next
  fix s options
  assume l: "live s \<and> fits config (view s)" and c: "ckScan (boundedChecks config C) options = None"
  have sub: "set (take (nat (soLimit options)) (sorted_list_of_set (scanKeys options (view s)))) \<subseteq> dom (view s)"
    using set_scanned [OF finite_view] l by (fastforce simp: scanKeys_def)
  show "stScan (boundedStore config S) options s = Inr (scanSpec options (view s))"
    using c l checkEntries_fits [OF _ sub]
    by (auto simp: bounded_Scan_def boundedChecks_def scan_law scanSpec_def split: if_splits)
next
  fix s s' "done" p res
  assume l: "live s \<and> fits config (view s)" and u: "stUpdate (boundedStore config S) done (Some (runTx p)) s = (res, s')"
  show "(live s' \<and> fits config (view s')) \<and> (case res of None \<Rightarrow> runTx p (specTx (boundedChecks config C)) (view s) = (None, view s')
      | Some e \<Rightarrow> view s' = view s)"
  proof (cases "cfReadOnly config")
    case True
    with l u show ?thesis by (auto simp: bounded_Update_def)
  next
    case False
    with u have "stUpdate S done (Some (runTx (boundedProg config p))) s = (res, s')"
      by (simp add: bounded_Update_def runTx_boundedTx [abs_def])
    from update_law [OF conjunct1 [OF l] this] show ?thesis using l runTx_bounded_spec [of config "view s" p C]
      by (cases res) (auto simp: runTx_boundedTx, metis snd_conv)
  qed
qed

text \<open>Order and prefixes below a namespace.\<close>

lemma append_le_iff: "(ns @ a :: bytes) \<le> ns @ b \<longleftrightarrow> a \<le> b"
  by (induction ns) auto

lemma append_less_iff: "(ns @ a :: bytes) < ns @ b \<longleftrightarrow> a < b"
  by (induction ns) auto

lemma sorted_list_of_set_append:
  assumes "finite A"
  shows "sorted_list_of_set ((@) ns ` A) = map ((@) (ns :: bytes)) (sorted_list_of_set A)"
proof (rule sorted_distinct_set_unique)
  show "sorted (map ((@) ns) (sorted_list_of_set A))"
    using sorted_sorted_list_of_set [of A] by (simp add: sorted_wrt_map append_le_iff)
  show "distinct (map ((@) ns) (sorted_list_of_set A))" by (simp add: distinct_map inj_on_def)
qed (simp_all add: assms)

lemma soLimit_namespaceOptions [simp]: "soLimit (namespaceOptions ns options) = soLimit options"
  by (simp add: namespaceOptions_def)

lemma scanKeys_namespace:
  assumes "m ns = None"
  shows "scanKeys (namespaceOptions ns options) m = (@) ns ` scanKeys options (namespaceView ns m)"
proof -
  have "key \<in> (@) ns ` scanKeys options (namespaceView ns m)" if k: "key \<in> scanKeys (namespaceOptions ns options) m" for key
  proof -
    have "prefix (ns @ soPrefix options) key" "key \<in> dom m" using k by (auto simp: scanKeys_def scanSelects_def namespaceOptions_def)
    then obtain r where r: "key = ns @ r" by (auto simp: prefix_def)
    then have "r \<in> scanKeys options (namespaceView ns m)"
      using k assms by (auto simp: scanKeys_def scanSelects_def namespaceOptions_def namespaceView_def append_le_iff split: if_splits)
    then show ?thesis using r by simp
  qed
  moreover have "(@) ns ` scanKeys options (namespaceView ns m) \<subseteq> scanKeys (namespaceOptions ns options) m"
    by (auto simp: scanKeys_def scanSelects_def namespaceOptions_def namespaceView_def append_le_iff split: if_splits)
  ultimately show ?thesis by blast
qed

lemma logicalEntries_map:
  "[] \<notin> set ks \<Longrightarrow> logicalEntries ns (map (\<lambda>key. \<lparr>seKey = ns @ key, seValue = f key\<rparr>) ks) = Inr (map (\<lambda>key. \<lparr>seKey = key, seValue = f key\<rparr>) ks)"
  by (induction ks) auto

lemma finite_namespaceView: "finite (dom m) \<Longrightarrow> finite (dom (namespaceView ns m))"
  by (rule finite_subset [of _ "drop (length ns) ` dom m"]) (force simp: namespaceView_def image_iff split: if_splits)+

locale kv_namespace = kv_store +
  fixes ns :: bytes

sublocale kv_namespace \<subseteq> nsd: kv_store "namespaceStore ns S" "namespaceChecks ns C" "\<lambda>s. live s \<and> view s ns = None"
    "\<lambda>s. namespaceView ns (view s)"
proof
  fix s key
  assume l: "live s \<and> view s ns = None"
  then show "finite (dom (namespaceView ns (view s)))" by (simp add: finite_view finite_namespaceView)
  show "stGet (namespaceStore ns S) key s = txGet (specTx (namespaceChecks ns C)) key (namespaceView ns (view s))"
    using l namespace_spec_get [of ns C key "view s"]
    by (cases "validateLogicalKey key") (simp_all add: namespace_Get_def namespaceTx_def get_law)
next
  fix s options
  assume l: "live s \<and> view s ns = None" and c: "ckScan (namespaceChecks ns C) options = None"
  let ?A = "scanKeys options (namespaceView ns (view s))"
  have fin: "finite ?A" using l finite_view finite_namespaceView by (simp add: scanKeys_def)
  have ne: "[] \<notin> set (take (nat (soLimit options)) (sorted_list_of_set ?A))"
    using set_take_subset fin by (fastforce simp: scanKeys_def namespaceView_def)
  have "stScan S (namespaceOptions ns options) s = Inr (scanSpec (namespaceOptions ns options) (view s))"
    using l c by (simp add: scan_law namespaceChecks_def)
  moreover have "scanSpec (namespaceOptions ns options) (view s) =
      map (\<lambda>key. \<lparr>seKey = ns @ key, seValue = copySlice (the (view s (ns @ key)))\<rparr>) (take (nat (soLimit options)) (sorted_list_of_set ?A))"
    using l by (simp add: scanSpec_def scanKeys_namespace sorted_list_of_set_append [OF fin] take_map)
  ultimately show "stScan (namespaceStore ns S) options s = Inr (scanSpec options (namespaceView ns (view s)))"
    using ne by (auto simp: namespace_Scan_def logicalEntries_map scanSpec_def namespaceView_def)
next
  fix s s' "done" p res
  assume l: "live s \<and> view s ns = None" and "stUpdate (namespaceStore ns S) done (Some (runTx p)) s = (res, s')"
  then have "stUpdate S done (Some (runTx (namespaceProg ns p))) s = (res, s')"
    by (simp add: namespace_Update_def runTx_namespaceTx [abs_def])
  from update_law [OF conjunct1 [OF l] this] show "(live s' \<and> view s' ns = None) \<and> (case res of
        None \<Rightarrow> runTx p (specTx (namespaceChecks ns C)) (namespaceView ns (view s)) = (None, namespaceView ns (view s'))
      | Some e \<Rightarrow> namespaceView ns (view s') = namespaceView ns (view s))"
    using l runTx_namespace_spec [of p ns C "view s"] by (cases res) (auto simp: runTx_namespaceTx elsewhere_def)
qed

context kv_namespace
begin

text \<open>Whatever is done below a namespace, the rest of the store stays as it is.\<close>

lemma isolated:
  assumes "live s" "stUpdate (namespaceStore ns S) done (Some (runTx p)) s = (res, s')"
  shows "elsewhere ns (view s) (view s')"
proof -
  have "stUpdate S done (Some (runTx (namespaceProg ns p))) s = (res, s')"
    using assms(2) by (simp add: namespace_Update_def runTx_namespaceTx [abs_def])
  from update_law [OF assms(1) this] show ?thesis using runTx_namespace_spec [of p ns C "view s"]
    by (cases res) (auto simp: runTx_namespaceTx)
qed

end

subsection \<open>Stores whose updates fail only for a reason of the caller\<close>

text \<open>
  \<open>refuse\<close> is the error a store answers every update with. Where the law \<open>outcome\<close> holds a sequence of
  updates is exactly the sequence of its transactions on the map.
\<close>

locale kv_exact = kv_store +
  fixes refuse :: "store_error option"
  assumes outcome: "live s \<Longrightarrow>
    fst (stUpdate S done (Some (runTx p)) s) = orElse refuse (orElse done (fst (runTx p (specTx C) (view s))))"

primrec specUpdates :: "tx_checks \<Rightarrow> store_error option \<Rightarrow> (store_error option \<times> tx_prog) list \<Rightarrow> kv_map \<Rightarrow> kv_map" where
  "specUpdates C refuse [] m = m"
| "specUpdates C refuse (u # us) m =
     specUpdates C refuse us
       (case orElse refuse (orElse (fst u) (fst (runTx (snd u) (specTx C) m))) of
          None \<Rightarrow> snd (runTx (snd u) (specTx C) m)
        | Some e \<Rightarrow> m)"

context kv_exact
begin

lemma updates_refine: "live s \<Longrightarrow> view (storeUpdates S us s) = specUpdates C refuse us (view s)"
proof (induction us arbitrary: s)
  case (Cons u us)
  obtain res s' where u: "stUpdate S (fst u) (Some (runTx (snd u))) s = (res, s')" by force
  have o: "res = orElse refuse (orElse (fst u) (fst (runTx (snd u) (specTx C) (view s))))"
    using outcome [OF Cons.prems, of "fst u" "snd u"] u by simp
  show ?case unfolding storeUpdates.simps specUpdates.simps o [symmetric] u snd_conv
    using update_law [OF Cons.prems u] Cons.IH [of s'] by (cases res) auto
qed simp

end

locale kv_exact_bounded = kv_exact +
  fixes config :: StoreConfig

sublocale kv_exact_bounded \<subseteq> kv_bounded S C live view config
  by unfold_locales

sublocale kv_exact_bounded \<subseteq> bde: kv_exact "boundedStore config S" "boundedChecks config C" "\<lambda>s. live s \<and> fits config (view s)" view
    "if cfReadOnly config then Some ErrReadOnly else refuse"
proof
  fix s "done" p
  assume "live s \<and> fits config (view s)"
  then show "fst (stUpdate (boundedStore config S) done (Some (runTx p)) s) =
      orElse (if cfReadOnly config then Some ErrReadOnly else refuse) (orElse done (fst (runTx p (specTx (boundedChecks config C)) (view s))))"
    using outcome [of s "done" "boundedProg config p"] runTx_bounded_spec [of config "view s" p C]
    by (simp add: bounded_Update_def runTx_boundedTx [abs_def])
qed

locale kv_exact_namespace = kv_exact +
  fixes ns :: bytes

sublocale kv_exact_namespace \<subseteq> kv_namespace S C live view ns
  by unfold_locales

sublocale kv_exact_namespace \<subseteq> nse: kv_exact "namespaceStore ns S" "namespaceChecks ns C" "\<lambda>s. live s \<and> view s ns = None"
    "\<lambda>s. namespaceView ns (view s)" refuse
proof
  fix s "done" p
  assume l: "live s \<and> view s ns = None"
  obtain r m where "runTx p (namespaceTx ns (specTx C)) (view s) = (r, m)" by force
  then show "fst (stUpdate (namespaceStore ns S) done (Some (runTx p)) s) =
      orElse refuse (orElse done (fst (runTx p (specTx (namespaceChecks ns C)) (namespaceView ns (view s)))))"
    using outcome [of s "done" "namespaceProg ns p"] l runTx_namespace_spec [of p ns C "view s" r m]
    by (simp add: namespace_Update_def runTx_namespaceTx [abs_def])
qed

interpretation meme: kv_exact memoryEngine memoryChecks memory_live memory_view None
proof
  fix st "done" p
  assume "memory_live st"
  then show "fst (stUpdate memoryEngine done (Some (runTx p)) st) =
      orElse None (orElse done (fst (runTx p (specTx memoryChecks) (memory_view st))))"
    using runTx_mapTx [of p "msValues st" "fst (runTx p mapTx (msValues st))" "snd (runTx p mapTx (msValues st))"]
    by (auto simp: memoryEngine_def memory_Update_def memory_live_def memory_view_def split: option.splits prod.splits)
qed

interpretation memb: kv_exact_bounded memoryEngine memoryChecks memory_live memory_view None config for config
  by unfold_locales

interpretation memn: kv_exact_namespace "boundedStore config memoryEngine" "boundedChecks config memoryChecks"
    "\<lambda>st. memory_live st \<and> fits config (memory_view st)" memory_view "if cfReadOnly config then Some ErrReadOnly else None" ns for config ns
  by unfold_locales

subsection \<open>The registry of engines (\<open>registry.go\<close>)\<close>

text \<open>
  A factory makes a store and its first state, or fails; \<open>Inr None\<close> is a nil store. Go's maps of
  factories are association lists.
\<close>

type_synonym 's factory = "StoreConfig \<Rightarrow> store_error + ('s Store \<times> 's) option"

type_synonym 's engines = "(string \<times> 's factory) list"

definition Registry_Register :: "string \<Rightarrow> 's factory option \<Rightarrow> 's engines \<Rightarrow> store_error option \<times> 's engines" where
  "Registry_Register rawName factory registry =
     (let name = ToLower (TrimSpace rawName) in
      case factory of
        None \<Rightarrow> (Some (ErrStore ''storageadapter: invalid engine registration''), registry)
      | Some f \<Rightarrow>
          if \<not> validToken name 64 then (Some (ErrStore ''storageadapter: invalid engine registration''), registry)
          else if map_of registry name \<noteq> None then (Some (ErrStore (''storageadapter: engine already registered: '' @ name)), registry)
          else (None, AList.update name f registry))"

definition Registry_Open :: "'s engines \<Rightarrow> StoreConfig \<Rightarrow> store_error + 's Store \<times> 's" where
  "Registry_Open registry config =
     (case Config_Normalize config of
        Inl e \<Rightarrow> Inl e
      | Inr normalized \<Rightarrow>
      case map_of registry (cfEngine normalized) of
        None \<Rightarrow> Inl (ErrStoreWrap ErrEngineUnavailable (cfEngine normalized))
      | Some factory \<Rightarrow>
      case factory normalized of
        Inl e \<Rightarrow> Inl e
      | Inr None \<Rightarrow> Inl (ErrStore (''storageadapter: engine returned nil store: '' @ cfEngine normalized))
      | Inr (Some (store, s)) \<Rightarrow>
          (let bounded = boundedStore normalized store in
           if cfNamespace normalized = [] then Inr (bounded, s)
           else Inr (namespaceStore (toBytes (cfNamespace normalized @ ''/'')) bounded, s)))"

definition Registry_Engines :: "'s engines \<Rightarrow> string list" where
  "Registry_Engines registry = sort (map fst registry)"

end
