(* ===== verification/Store_Open.thy ===== *)
theory Store_Open
  imports Store_Contract
begin

text \<open>
  Stores as \<open>storageadapter.Open\<close> hands them out: an engine behind the bounding wrapper and, with a
  namespace, the namespacing one. Shown for the memory engine: any sequence of updates is exactly the
  sequence of its transactions on a finite map, keys and values keep the configured bounds, and of
  several swaps of one value only the first succeeds. For every store of the contract, reads in a
  namespace do not see a change elsewhere.
\<close>

definition memoryFactory :: "go_time \<Rightarrow> memoryStore factory" where
  "memoryFactory now config = Inr (Some (memoryEngine, openMemory now))"

definition namespaceKey :: "StoreConfig \<Rightarrow> bytes" where
  "namespaceKey config = toBytes (cfNamespace config @ ''/'')"

definition openChecks :: "StoreConfig \<Rightarrow> tx_checks" where
  "openChecks config =
     (if cfNamespace config = [] then boundedChecks config memoryChecks
      else namespaceChecks (namespaceKey config) (boundedChecks config memoryChecks))"

definition openRefuse :: "StoreConfig \<Rightarrow> store_error option" where
  "openRefuse config = (if cfReadOnly config then Some ErrReadOnly else None)"

lemma openMemory_live: "memory_live (openMemory now)" "memory_view (openMemory now) = Map.empty"
  by (simp_all add: memory_live_def openMemory_def memory_view_def)

lemma empty_map_facts [simp]: "fits config Map.empty" "namespaceView ns Map.empty = Map.empty"
  by (auto simp: fits_def namespaceView_def)

lemma Registry_Open_memory:
  assumes "Config_Normalize config = Inr cfg" "map_of registry (cfEngine cfg) = Some (memoryFactory now)"
  shows "Registry_Open registry config = Inr
    (if cfNamespace cfg = [] then boundedStore cfg memoryEngine else namespaceStore (namespaceKey cfg) (boundedStore cfg memoryEngine),
     openMemory now)"
  using assms by (simp add: Registry_Open_def memoryFactory_def namespaceKey_def Let_def)

lemma Config_Normalize_bounds:
  assumes "Config_Normalize config = Inr cfg"
  shows "1 \<le> cfMaxKeyBytes cfg" "cfMaxKeyBytes cfg \<le> maximumKeyBytes" "1 \<le> cfMaxValueBytes cfg" "cfMaxValueBytes cfg \<le> maximumValueBytes"
  using assms unfolding Config_Normalize_def Let_def guards by auto

lemma bounded_scan_checked:
  assumes "bounded_Scan cfg memoryEngine options st = Inr es"
  shows "ckScan (boundedChecks cfg memoryChecks) options = None" "soLimit options \<le> 10000" "0 < soLimit options"
  using assms by (auto simp: bounded_Scan_def boundedChecks_def memoryChecks_def split: if_splits)

lemma length_scanSpec: "0 < soLimit options \<Longrightarrow> soLimit options \<le> 10000 \<Longrightarrow> length (scanSpec options m) \<le> 10000"
  by (simp add: scanSpec_def min_le_iff_disj nat_le_iff)

text \<open>
  C22: A store opened on the memory engine answers every read after any sequence of updates as the map on which
  the transactions of those updates ran in turn, those of a failed or refused update having left no trace.
\<close>

theorem store_refines:
  assumes "Config_Normalize config = Inr cfg" "map_of registry (cfEngine cfg) = Some (memoryFactory now)"
    "Registry_Open registry config = Inr (S, s)"
  shows "stGet S key (storeUpdates S us s) = txGet (specTx (openChecks cfg)) key (specUpdates (openChecks cfg) (openRefuse cfg) us Map.empty)
    \<and> (ckScan (openChecks cfg) options = None \<longrightarrow>
         stScan S options (storeUpdates S us s) = Inr (scanSpec options (specUpdates (openChecks cfg) (openRefuse cfg) us Map.empty)))"
proof (cases "cfNamespace cfg = []")
  case True
  then have S: "S = boundedStore cfg memoryEngine" "s = openMemory now" using assms Registry_Open_memory [OF assms(1,2)] by simp_all
  have l: "memory_live s \<and> fits cfg (memory_view s)" using openMemory_live by (simp add: S)
  show ?thesis
    using memb.bde.updates_refine [OF l, of us] memb.bd.updates_live [OF l, of us] memb.bd.get_law memb.bd.scan_law openMemory_live
    by (simp add: S True openChecks_def openRefuse_def del: boundedStore_sel)
next
  case False
  let ?n = "namespaceKey cfg"
  have S: "S = namespaceStore ?n (boundedStore cfg memoryEngine)" "s = openMemory now"
    using False assms Registry_Open_memory [OF assms(1,2)] by simp_all
  have l: "(memory_live s \<and> fits cfg (memory_view s)) \<and> memory_view s ?n = None" using openMemory_live by (simp add: S)
  show ?thesis
    using memn.nse.updates_refine [OF l, of us] memn.nsd.updates_live [OF l, of us] memn.nsd.get_law memn.nsd.scan_law openMemory_live
    by (simp add: S False openChecks_def openRefuse_def del: boundedStore_sel namespaceStore_sel)
qed

lemma opened_live:
  assumes "Config_Normalize config = Inr cfg" "map_of registry (cfEngine cfg) = Some (memoryFactory now)"
    "Registry_Open registry config = Inr (S, s)"
  shows "memory_live (storeUpdates S us s) \<and> fits cfg (memory_view (storeUpdates S us s))"
proof (cases "cfNamespace cfg = []")
  case True
  then have S: "S = boundedStore cfg memoryEngine" "s = openMemory now" using assms Registry_Open_memory [OF assms(1,2)] by simp_all
  show ?thesis using memb.bd.updates_live [of s cfg us] openMemory_live by (simp add: S)
next
  case False
  then have S: "S = namespaceStore (namespaceKey cfg) (boundedStore cfg memoryEngine)" "s = openMemory now"
    using assms Registry_Open_memory [OF assms(1,2)] by simp_all
  show ?thesis using memn.nsd.updates_live [of s cfg "namespaceKey cfg" us] openMemory_live by (simp add: S)
qed

lemma logicalEntries_length: "logicalEntries ns es = Inr out \<Longrightarrow> length out \<le> length es"
proof (induction ns es arbitrary: out rule: logicalEntries.induct)
  case (2 ns e es)
  then show ?case by (fastforce simp: Let_def split: if_splits sum.splits)
qed simp

lemma bounded_scan_length:
  assumes "bounded_Scan cfg memoryEngine options st = Inr es" "memory_live st" "fits cfg (memory_view st)"
  shows "length es \<le> 10000"
  using memb.bd.scan_law [of st cfg options] assms bounded_scan_checked [OF assms(1)] length_scanSpec [of options] by auto

text \<open>
  C29: However a store on the memory engine, opened through the registry, is used, every key it holds has at least one and at most \<open>max_key_bytes\<close>
  bytes, every value at most \<open>max_value_bytes\<close>, these limits are themselves at most 64 KiB and 128 MiB,
  and a scan returns at most 10000 entries.
\<close>

theorem store_bounds:
  assumes "Config_Normalize config = Inr cfg" "map_of registry (cfEngine cfg) = Some (memoryFactory now)"
    "Registry_Open registry config = Inr (S, s)" "storeUpdates S us s = st"
  shows "(\<forall>key v. memory_view st key = Some v \<longrightarrow>
        1 \<le> length key \<and> int (length key) \<le> cfMaxKeyBytes cfg \<and> int (length v) \<le> cfMaxValueBytes cfg)
    \<and> cfMaxKeyBytes cfg \<le> 65536 \<and> cfMaxValueBytes cfg \<le> 134217728
    \<and> (\<forall>options es. stScan S options st = Inr es \<longrightarrow> length es \<le> 10000)"
proof -
  have l: "memory_live st" "fits cfg (memory_view st)" using opened_live [OF assms(1-3)] assms(4) by blast+
  have "length es \<le> 10000" if sc: "stScan S options st = Inr es" for options es
  proof (cases "cfNamespace cfg = []")
    case True
    then show ?thesis using sc bounded_scan_length [OF _ l] assms(3) Registry_Open_memory [OF assms(1,2)] by auto
  next
    case False
    then have "namespace_Scan (namespaceKey cfg) (boundedStore cfg memoryEngine) options st = Inr es"
      using sc assms(3) Registry_Open_memory [OF assms(1,2)] by auto
    then obtain raw where "bounded_Scan cfg memoryEngine (namespaceOptions (namespaceKey cfg) options) st = Inr raw"
        "logicalEntries (namespaceKey cfg) raw = Inr es"
      by (auto simp: namespace_Scan_def split: sum.splits)
    then show ?thesis using logicalEntries_length bounded_scan_length [OF _ l] by (meson le_trans)
  qed
  then show ?thesis using l(2) Config_Normalize_bounds [OF assms(1)] by (auto simp: fits_def Suc_le_eq)
qed

text \<open>
  Reads below a namespace depend only on the keys below it: two states of a store that differ at most below
  another namespace, neither extending the other, answer alike, in \<open>Get\<close> and in \<open>Scan\<close>.
\<close>

lemma elsewhere_below:
  assumes "elsewhere n m m'" "\<not> prefix n n'" "\<not> prefix n' n" "prefix n' key"
  shows "m' key = m key"
  using assms prefix_same_cases [of n key n'] by (auto simp: elsewhere_def)

lemma elsewhere_scan:
  assumes e: "elsewhere n m m'" "\<not> prefix n n'" "\<not> prefix n' n" and p: "prefix n' (soPrefix options)"
  shows "scanSpec options m' = scanSpec options m"
proof -
  have at: "m' key = m key" if "scanSelects options key" for key
    using elsewhere_below [OF e] that p prefix_order.order_trans unfolding scanSelects_def by blast
  then have k: "scanKeys options m' = scanKeys options m" by (auto simp: scanKeys_def domIff)
  have "m' key = m key" if "key \<in> set (take (nat (soLimit options)) (sorted_list_of_set (scanKeys options m)))" for key
  proof -
    have "key \<in> scanKeys options m"
      using set_take_subset that by (cases "finite (scanKeys options m)") fastforce+
    then show ?thesis using at by (simp add: scanKeys_def)
  qed
  then show ?thesis by (simp add: scanSpec_def k)
qed

context kv_store
begin

lemma reads_apart:
  assumes "live s" "live s'" "elsewhere n (view s) (view s')" "\<not> prefix n n'" "\<not> prefix n' n"
    "\<And>options. 0 < soLimit options \<Longrightarrow> ckScan C options = None"
  shows "stGet (namespaceStore n' (boundedStore c S)) key s' = stGet (namespaceStore n' (boundedStore c S)) key s
    \<and> stScan (namespaceStore n' (boundedStore c S)) options s' = stScan (namespaceStore n' (boundedStore c S)) options s"
proof -
  have "view s' (n' @ key) = view s (n' @ key)" by (rule elsewhere_below [OF assms(3-5)]) simp
  then have g: "stGet S (n' @ key) s' = stGet S (n' @ key) s"
    by (simp add: get_law assms(1,2) specTx_def lookupResult_def split: option.split)
  have "stScan S (namespaceOptions n' options) s' = stScan S (namespaceOptions n' options) s" if "0 < soLimit options"
    using that elsewhere_scan [OF assms(3-5), of "namespaceOptions n' options"]
    by (simp add: scan_law assms(1,2,6) namespaceOptions_def)
  then have "bounded_Scan c S (namespaceOptions n' options) s' = bounded_Scan c S (namespaceOptions n' options) s"
    by (simp add: bounded_Scan_def namespaceOptions_def)
  then show ?thesis using g by (simp add: namespace_Get_def bounded_Get_def namespace_Scan_def split: option.split)
qed

end

text \<open>Several clients that each try to swap the same value of a key for their own.\<close>

primrec contend :: "'s Store \<Rightarrow> bytes \<Rightarrow> slice \<Rightarrow> slice list \<Rightarrow> 's \<Rightarrow> store_error option list \<times> 's" where
  "contend S key old [] s = ([], s)"
| "contend S key old (new # news) s =
     (case stUpdate S None (Some (runTx (TxCompareAndSwap key old new TxReturn))) s of
        (r, s1) \<Rightarrow> (case contend S key old news s1 of (rs, s2) \<Rightarrow> (r # rs, s2)))"

lemma cas_update:
  assumes "memory_live st \<and> fits cfg (memory_view st)"
    "stUpdate (boundedStore cfg memoryEngine) d (Some (runTx (TxCompareAndSwap key old new TxReturn))) st = (r, st')"
  shows "memory_live st' \<and> fits cfg (memory_view st')" "r = None \<Longrightarrow> memory_view st key = old \<and> memory_view st' key = new"
    "r \<noteq> None \<Longrightarrow> memory_view st' = memory_view st"
proof -
  note u = memb.bd.update_law [OF assms]
  show "memory_live st' \<and> fits cfg (memory_view st')" using u by simp
  show "memory_view st' = memory_view st" if "r \<noteq> None" using u that by auto
  assume "r = None"
  then have "memory_view st key = old \<and> memory_view st' = (memory_view st)(key := new)"
    using u by (auto simp: specTx_def split: option.splits if_splits)
  then show "memory_view st key = old \<and> memory_view st' key = new" by simp
qed

lemma contend_lost:
  assumes "memory_live st \<and> fits cfg (memory_view st)" "memory_view st key \<noteq> old"
    "contend (boundedStore cfg memoryEngine) key old news st = (rs, st')"
  shows "None \<notin> set rs \<and> memory_view st' = memory_view st"
  using assms
proof (induction news arbitrary: st rs)
  case (Cons n news)
  obtain r st1 where u: "stUpdate (boundedStore cfg memoryEngine) None (Some (runTx (TxCompareAndSwap key old n TxReturn))) st = (r, st1)"
    by force
  have "r \<noteq> None" using cas_update(2) [OF Cons.prems(1) u] Cons.prems(2) by blast
  with cas_update(1,3) [OF Cons.prems(1) u] Cons.prems(2,3) Cons.IH [of st1] u show ?case by (auto split: prod.splits)
qed simp

text \<open>
  Compare-and-swap elects one winner: of any number of updates that swap the same value of a key for
  another one at most one succeeds, and then the key has the winner's value.
\<close>

theorem cas_exclusive:
  assumes "memory_live st" "fits cfg (memory_view st)" "old \<notin> set news"
    "contend (boundedStore cfg memoryEngine) key old news st = (rs, st')"
  shows "(None \<notin> set rs \<and> memory_view st' = memory_view st)
    \<or> (\<exists>i < length rs. rs ! i = None \<and> memory_view st' key = news ! i \<and> (\<forall>j < length rs. rs ! j = None \<longrightarrow> j = i))"
  using assms
proof (induction news arbitrary: st rs)
  case (Cons n news)
  have l: "memory_live st \<and> fits cfg (memory_view st)" using Cons.prems by simp
  obtain r st1 where u: "stUpdate (boundedStore cfg memoryEngine) None (Some (runTx (TxCompareAndSwap key old n TxReturn))) st = (r, st1)"
    by force
  obtain rs1 where rs: "contend (boundedStore cfg memoryEngine) key old news st1 = (rs1, st')" "rs = r # rs1"
    using Cons.prems(4) u by (auto split: prod.splits)
  note c = cas_update [OF l u]
  show ?case
  proof (cases r)
    case None
    then have w: "memory_view st1 key = n" using c(2) by simp
    then have "None \<notin> set rs1 \<and> memory_view st' = memory_view st1" using contend_lost [OF c(1) _ rs(1)] Cons.prems(3) by auto
    then have f: "None \<notin> set rs1" "memory_view st' key = n" using w by simp_all
    have only: "\<forall>j < length rs. rs ! j = None \<longrightarrow> j = 0" 
    proof (intro allI impI)
      fix j assume "j < length rs" "rs ! j = None"
      then show "j = 0" using f(1) rs(2) nth_mem by (cases j) fastforce+
    qed
    show ?thesis by (intro disjI2 exI [of _ 0] conjI only) (simp_all add: None f(2) rs(2))
  next
    case (Some e)
    then have v: "memory_view st1 = memory_view st" using c(3) by simp
    have "old \<notin> set news" using Cons.prems(3) by simp
    from Cons.IH [OF conjunct1 [OF c(1)] conjunct2 [OF c(1)] this rs(1)]
    consider (lost) "None \<notin> set rs1" "memory_view st' = memory_view st1"
      | (won) i where "i < length rs1" "rs1 ! i = None" "memory_view st' key = news ! i" "\<forall>j < length rs1. rs1 ! j = None \<longrightarrow> j = i"
      by blast
    then show ?thesis
    proof cases
      case lost
      then show ?thesis using rs(2) Some v by simp
    next
      case won
      have only: "\<forall>j < length rs. rs ! j = None \<longrightarrow> j = Suc i"
      proof (intro allI impI)
        fix j assume "j < length rs" "rs ! j = None"
        then show "j = Suc i" using won(4) rs(2) Some by (cases j) simp_all
      qed
      show ?thesis by (intro disjI2 exI [of _ "Suc i"] conjI only) (simp_all add: rs(2) won(1-3))
    qed
  qed
qed simp

subsection \<open>Two corners of the interface\<close>

text \<open>
  A nil value stands for an absent key in \<open>CompareAndSwap\<close>, but \<open>Get\<close> answers nil for a key with an
  empty value. A client that swaps from what it has just read never succeeds on such a key.
\<close>

theorem empty_value_conflicts:
  "runTx (TxPut [1] (Some []) (\<lambda>_. TxGet [1] (\<lambda>r. case r of
        Inl e \<Rightarrow> TxReturn (Some e)
      | Inr v \<Rightarrow> TxCompareAndSwap [1] v (Some [2]) TxReturn))) mapTx [] = (Some ErrConflict, [([1], [])])"
  by code_simp

text \<open>
  A key that ends with a slash and is written through an outer namespace is the empty key of the
  namespace of that name: every scan there that reaches it fails, although no operation of the
  namespace can write or remove that key.
\<close>

definition demo_store_config :: StoreConfig where
  "demo_store_config = \<lparr>cfVersion = [], cfEngine = ''Memory '', cfNamespace = [], cfPath = [], cfDSN = [], cfReadOnly = False,
     cfMaxKeyBytes = 0, cfMaxValueBytes = 0, cfOptions = []\<rparr>"

definition demo_store_normal :: StoreConfig where
  "demo_store_normal = demo_store_config\<lparr>cfVersion := ConfigVersion, cfEngine := ''memory'', cfMaxKeyBytes := 4096, cfMaxValueBytes := 16777216\<rparr>"

theorem foreign_key_blocks_scan:
  "stScan (namespaceStore (toBytes ''a/'') (boundedStore demo_store_normal memoryEngine)) \<lparr>soPrefix = [], soAfter = [], soLimit = 100\<rparr>
     (snd (stUpdate (boundedStore demo_store_normal memoryEngine) None (Some (runTx (TxPut (toBytes ''a/'') (Some [1]) TxReturn))) (openMemory 0)))
   = Inl (ErrStore ''storageadapter: provider returned empty namespaced key'')"
  by code_simp

subsection \<open>Instances\<close>

definition demo_store_engines :: "memoryStore engines" where
  "demo_store_engines = snd (Registry_Register '' memory '' (Some (memoryFactory 0)) [])"

lemma demo_store_normalized: "Config_Normalize demo_store_config = Inr demo_store_normal"
  by code_simp

lemma demo_store_engine: "map_of demo_store_engines (cfEngine demo_store_normal) = Some (memoryFactory 0)"
proof -
  have "ToLower (TrimSpace '' memory '') = ''memory''" "validToken ''memory'' 64" by code_simp+
  then show ?thesis by (simp add: demo_store_engines_def Registry_Register_def Let_def demo_store_normal_def demo_store_config_def)
qed

abbreviation demo_store :: "memoryStore Store" where
  "demo_store \<equiv> boundedStore demo_store_normal memoryEngine"

lemma demo_store_opened: "Registry_Open demo_store_engines demo_store_config = Inr (demo_store, openMemory 0)"
  using Registry_Open_memory [OF demo_store_normalized demo_store_engine] by (simp add: demo_store_normal_def demo_store_config_def)

definition demo_store_updates :: "(store_error option \<times> tx_prog) list" where
  "demo_store_updates = [(None, TxPut [1] (Some [2]) TxReturn), (None, TxPut [3] (Some [4]) (\<lambda>_. TxReturn (Some ErrConflict)))]"

theorem store_refines_witness:
  "stGet demo_store [1] (storeUpdates demo_store demo_store_updates (openMemory 0)) = Inr (Some [2])
   \<and> stGet demo_store [3] (storeUpdates demo_store demo_store_updates (openMemory 0)) = Inl ErrNotFound"
proof -
  have "cfNamespace demo_store_normal = []" "cfMaxKeyBytes demo_store_normal = 4096" "cfMaxValueBytes demo_store_normal = 16777216" "cfReadOnly demo_store_normal = False"
    by (simp_all add: demo_store_normal_def demo_store_config_def)
  then show ?thesis
    using store_refines [OF demo_store_normalized demo_store_engine demo_store_opened, of "[1]" demo_store_updates]
      store_refines [OF demo_store_normalized demo_store_engine demo_store_opened, of "[3]" demo_store_updates]
    by (simp add: demo_store_updates_def openChecks_def openRefuse_def boundedChecks_def memoryChecks_def specTx_def validateKey_def lookupResult_def
        copySlice_def)
qed

theorem store_bounds_witness:
  "memory_view (storeUpdates demo_store demo_store_updates (openMemory 0)) [1] = Some [2] \<and> cfMaxKeyBytes demo_store_normal \<le> 65536"
proof -
  have "memory_view (storeUpdates demo_store demo_store_updates (openMemory 0)) [1] = Some [2]" by code_simp
  then show ?thesis using store_bounds [OF demo_store_normalized demo_store_engine demo_store_opened refl] by blast
qed

lemma demo_store_live: "memory_live (openMemory 0)" "fits demo_store_normal (memory_view (openMemory 0))"
  using openMemory_live by simp_all

theorem cas_exclusive_witness:
  "\<exists>st'. contend demo_store [1] None [Some [7], Some [8]] (openMemory 0) = ([None, Some ErrConflict], st') \<and> memory_view st' [1] = Some [7]"
proof -
  obtain rs st' where c: "contend demo_store [1] None [Some [7], Some [8]] (openMemory 0) = (rs, st')" by force
  have "fst (contend demo_store [1] None [Some [7], Some [8]] (openMemory 0)) = [None, Some ErrConflict]" by code_simp
  then have rs: "rs = [None, Some ErrConflict]" using c by simp
  from cas_exclusive [OF demo_store_live _ c] have "memory_view st' [1] = Some [7]" by (auto simp: rs less_Suc_eq)
  then show ?thesis using c rs by blast
qed

end
