(* ===== verification/Store_File.thy ===== *)
theory Store_File
  imports Store_Open
begin

text \<open>
  The file engine of \<open>storageadapter/file.go\<close>: the same map as the memory engine, written to a JSON
  document with every update. What \<open>encoding/json\<close> does is the parameter \<open>file_json\<close>. The state
  carries the content of the store's path on disk and the outcomes of the operating-system calls of
  the coming writes, one \<open>persist_io\<close> for each; when the script has run out every call succeeds.
  \<open>MkdirAll\<close> and \<open>filepath.Abs\<close> at opening are left out.

  Shown: the engine keeps the contract of \<open>Store_Contract\<close>; on it and on the memory engine a
  transaction in one namespace does not show in another; what it holds is what a later opening of
  the file reads, whatever call fails, as long as the two renames of \<open>replaceFile\<close> do not fail one
  after the other; and in that case the file is gone.
\<close>

record fileDocument =
  fdVersion :: string
  fdValues :: "(string \<times> string) list"

record file_json =
  fjMarshal :: "fileDocument \<Rightarrow> bytes option"
  fjDecode :: "bytes \<Rightarrow> fileDocument option"

record persist_io =
  ioCreateTemp :: "store_error option"
  ioChmod :: "store_error option"
  ioWrite :: "store_error option"
  ioSync :: "store_error option"
  ioCloseTemp :: "store_error option"
  ioRename :: "store_error option"
  ioRemove :: "store_error option"
  ioRemoveMissing :: bool
  ioRenameAgain :: "store_error option"

definition io_fine :: persist_io where
  "io_fine = \<lparr>ioCreateTemp = None, ioChmod = None, ioWrite = None, ioSync = None, ioCloseTemp = None, ioRename = None,
     ioRemove = None, ioRemoveMissing = False, ioRenameAgain = None\<rparr>"

record fileStore =
  fsValues :: "values"
  fsClosed :: bool
  fsOpenedAt :: go_time
  fsLastErr :: string
  fsDisk :: "bytes option"
  fsScript :: "persist_io list"

abbreviation fileStoreVersion :: string where "fileStoreVersion \<equiv> ''weaverssh.storage-file.v1''"

abbreviation maxFileBytes :: int where "maxFileBytes \<equiv> 268435456"

definition encodeValues :: "values \<Rightarrow> (string \<times> string) list" where
  "encodeValues m = fold (\<lambda>(key, v). AList.update (rawStdEncode key) (rawStdEncode v)) m []"

definition fileDocumentOf :: "values \<Rightarrow> fileDocument" where
  "fileDocumentOf m = \<lparr>fdVersion = fileStoreVersion, fdValues = encodeValues m\<rparr>"

text \<open>\<open>replaceFile\<close>: the error and what is at the destination afterwards.\<close>

definition replaceFile :: "persist_io \<Rightarrow> bytes \<Rightarrow> bytes option \<Rightarrow> store_error option \<times> bytes option" where
  "replaceFile io source destination =
     (if ioRename io = None then (None, Some source)
      else if ioRemove io \<noteq> None \<and> \<not> ioRemoveMissing io then (ioRemove io, destination)
      else if ioRenameAgain io = None then (None, Some source)
      else (ioRenameAgain io, None))"

definition firstError :: "store_error option list \<Rightarrow> store_error option" where
  "firstError es = fold (\<lambda>e acc. orElse acc e) es None"

definition persist :: "file_json \<Rightarrow> values \<Rightarrow> fileStore \<Rightarrow> store_error option \<times> fileStore" where
  "persist js m st =
     (case fjMarshal js (fileDocumentOf m) of
        None \<Rightarrow> (Some (ErrStore ''json''), st)
      | Some payload \<Rightarrow>
          if maxFileBytes < int (length payload) then (Some (ErrStore ''storageadapter: file-store exceeds 256 MiB''), st)
          else
            let io = (case fsScript st of [] \<Rightarrow> io_fine | io # _ \<Rightarrow> io); st1 = st\<lparr>fsScript := tl (fsScript st)\<rparr> in
            (case firstError [ioCreateTemp io, ioChmod io, ioWrite io, ioSync io, ioCloseTemp io] of
               Some e \<Rightarrow> (Some e, st1)
             | None \<Rightarrow> (case replaceFile io payload (fsDisk st) of (e, disk) \<Rightarrow> (e, st1\<lparr>fsDisk := disk\<rparr>))))"

fun decodeValues :: "(string \<times> string) list \<Rightarrow> values \<Rightarrow> store_error + values" where
  "decodeValues [] m = Inr m"
| "decodeValues ((k, v) # rest) m =
     (case rawStdDecode k of
        None \<Rightarrow> Inl (ErrStore ''storageadapter: corrupt file-store key'')
      | Some key \<Rightarrow>
          if length key = 0 then Inl (ErrStore ''storageadapter: corrupt file-store key'')
          else case rawStdDecode v of
            None \<Rightarrow> Inl (ErrStore ''storageadapter: corrupt file-store value'')
          | Some w \<Rightarrow> decodeValues rest (AList.update key w m))"

text \<open>\<open>load\<close> of a file that exists; the other failures of \<open>os.ReadFile\<close> end the opening.\<close>

definition loadPayload :: "file_json \<Rightarrow> bytes \<Rightarrow> store_error + values" where
  "loadPayload js payload =
     (if length payload = 0 \<or> maxFileBytes < int (length payload) then Inl (ErrStore ''storageadapter: invalid file-store size'')
      else case fjDecode js payload of
        None \<Rightarrow> Inl (ErrStore ''json'')
      | Some document \<Rightarrow>
          if fdVersion document \<noteq> fileStoreVersion then Inl (ErrStore (''storageadapter: unsupported file-store version '' @ fdVersion document))
          else decodeValues (fdValues document) [])"

definition openFile :: "file_json \<Rightarrow> go_time \<Rightarrow> StoreConfig \<Rightarrow> bytes option \<Rightarrow> persist_io list \<Rightarrow> store_error + fileStore" where
  "openFile js now config disk script =
     (if TrimSpace (cfPath config) = [] then Inl (ErrStore ''storageadapter: file engine requires path'')
      else let st = \<lparr>fsValues = [], fsClosed = False, fsOpenedAt = now, fsLastErr = [], fsDisk = disk, fsScript = script\<rparr> in
        case disk of
          None \<Rightarrow> (case persist js [] st of (Some e, _) \<Rightarrow> Inl e | (None, st1) \<Rightarrow> Inr st1)
        | Some payload \<Rightarrow> (case loadPayload js payload of Inl e \<Rightarrow> Inl e | Inr m \<Rightarrow> Inr (st\<lparr>fsValues := m\<rparr>)))"

abbreviation fileCapabilities :: Capabilities where
  "fileCapabilities \<equiv> memoryCapabilities\<lparr>cpDurable := True\<rparr>"

definition file_Get :: "bytes \<Rightarrow> fileStore \<Rightarrow> store_error + slice" where
  "file_Get key st = (if fsClosed st then Inl ErrClosed else mapTx_Get key (fsValues st))"

definition file_Scan :: "ScanOptions \<Rightarrow> fileStore \<Rightarrow> store_error + StoreEntry list" where
  "file_Scan options st = (if fsClosed st then Inl ErrClosed else scanValues options (fsValues st))"

definition file_Update :: "file_json \<Rightarrow> store_error option \<Rightarrow> callback option \<Rightarrow> fileStore \<Rightarrow> store_error option \<times> fileStore" where
  "file_Update js done fn st =
     (case fn of
        None \<Rightarrow> (Some errCallback, st)
      | Some f \<Rightarrow>
          if done \<noteq> None then (done, st)
          else if fsClosed st then (Some ErrClosed, st)
          else case f mapTx (fsValues st) of
              (Some e, working) \<Rightarrow> (Some e, st\<lparr>fsLastErr := storeErrorText e\<rparr>)
            | (None, working) \<Rightarrow>
                (case persist js working st of
                   (Some e, st1) \<Rightarrow> (Some e, st1\<lparr>fsLastErr := storeErrorText e\<rparr>)
                 | (None, st1) \<Rightarrow> (None, st1\<lparr>fsValues := working, fsLastErr := []\<rparr>)))"

definition file_Snapshot :: "fileStore \<Rightarrow> StoreSnapshot" where
  "file_Snapshot st =
     \<lparr>ssEngine = ''file'', ssNamespace = [], ssCapabilities = fileCapabilities,
      ssEntries = of_nat (length (fsValues st)), ssBytes = valueBytes (fsValues st),
      ssOpenedAt = fsOpenedAt st, ssLastError = fsLastErr st\<rparr>"

definition file_Close :: "fileStore \<Rightarrow> store_error option \<times> fileStore" where
  "file_Close st = (None, st\<lparr>fsClosed := True, fsValues := []\<rparr>)"

definition fileEngine :: "file_json \<Rightarrow> fileStore Store" where
  "fileEngine js =
     \<lparr>stName = ''file'', stCapabilities = fileCapabilities, stGet = file_Get, stScan = file_Scan,
      stUpdate = file_Update js, stSnapshot = file_Snapshot, stClose = file_Close\<rparr>"

subsection \<open>The file engine keeps the contract\<close>

definition file_live :: "fileStore \<Rightarrow> bool" where
  "file_live st = (\<not> fsClosed st \<and> distinct (map fst (fsValues st)))"

definition file_view :: "fileStore \<Rightarrow> kv_map" where
  "file_view st = map_of (fsValues st)"

lemma persist_keeps: "persist js m st = (e, st') \<Longrightarrow> fsValues st' = fsValues st \<and> fsClosed st' = fsClosed st"
  by (auto simp: persist_def Let_def split: option.splits if_splits prod.splits)

interpretation filee: kv_store "fileEngine js" memoryChecks file_live file_view for js
proof
  fix st key
  assume l: "file_live st"
  then show "finite (dom (file_view st))" by (simp add: file_view_def finite_dom_map_of)
  show "stGet (fileEngine js) key st = txGet (specTx memoryChecks) key (file_view st)"
    using l by (simp add: fileEngine_def file_Get_def file_live_def file_view_def mapTx_spec(1))
next
  fix st options
  assume "file_live st" "ckScan memoryChecks options = None"
  then show "stScan (fileEngine js) options st = Inr (scanSpec options (file_view st))"
    by (simp add: fileEngine_def file_Scan_def file_live_def file_view_def memoryChecks_def scanValues_spec split: if_splits)
next
  fix st st' "done" p res
  assume l: "file_live st" and u: "stUpdate (fileEngine js) done (Some (runTx p)) st = (res, st')"
  obtain r m where m: "runTx p mapTx (fsValues st) = (r, m)" by force
  then have "runTx p (specTx memoryChecks) (map_of (fsValues st)) = (r, map_of m) \<and> distinct (map fst m)"
    using l by (simp add: runTx_mapTx file_live_def)
  then show "file_live st' \<and> (case res of None \<Rightarrow> runTx p (specTx memoryChecks) (file_view st) = (None, file_view st')
      | Some e \<Rightarrow> file_view st' = file_view st)"
    using l u m by (auto simp: fileEngine_def file_Update_def file_live_def file_view_def dest: persist_keeps
      split: if_splits option.splits prod.splits)
qed

interpretation fileb: kv_bounded "fileEngine js" memoryChecks file_live file_view config for js config
  by unfold_locales

interpretation filen: kv_namespace "boundedStore config (fileEngine js)" "boundedChecks config memoryChecks"
    "\<lambda>st. file_live st \<and> fits config (file_view st)" file_view ns for js config ns
  by unfold_locales

lemma memoryChecks_scan: "0 < soLimit options \<Longrightarrow> ckScan memoryChecks options = None"
  by (simp add: memoryChecks_def)

text \<open>
  C33: Two namespaces of one memory or file engine neither of which extends the other, the engine open and
  its entries within the limits: whatever a transaction does in one, and whether or not it succeeds, every
  \<open>Get\<close> and every \<open>Scan\<close> in the other answers as before.
\<close>

theorem namespace_isolated:
  assumes apart: "\<not> prefix n n'" "\<not> prefix n' n"
  shows "(memory_live st \<and> fits cfg (memory_view st)
      \<and> stUpdate (namespaceStore n (boundedStore cfg memoryEngine)) done (Some (runTx p)) st = (res, st') \<longrightarrow>
      stGet (namespaceStore n' (boundedStore cfg' memoryEngine)) key st' = stGet (namespaceStore n' (boundedStore cfg' memoryEngine)) key st
      \<and> stScan (namespaceStore n' (boundedStore cfg' memoryEngine)) options st' = stScan (namespaceStore n' (boundedStore cfg' memoryEngine)) options st)
    \<and> (file_live ft \<and> fits cfg (file_view ft)
      \<and> stUpdate (namespaceStore n (boundedStore cfg (fileEngine js))) done (Some (runTx p)) ft = (fres, ft') \<longrightarrow>
      stGet (namespaceStore n' (boundedStore cfg' (fileEngine js))) key ft' = stGet (namespaceStore n' (boundedStore cfg' (fileEngine js))) key ft
      \<and> stScan (namespaceStore n' (boundedStore cfg' (fileEngine js))) options ft' = stScan (namespaceStore n' (boundedStore cfg' (fileEngine js))) options ft)"
proof (intro conjI impI; elim conjE)
  assume l: "memory_live st" "fits cfg (memory_view st)"
    and u: "stUpdate (namespaceStore n (boundedStore cfg memoryEngine)) done (Some (runTx p)) st = (res, st')"
  have "memory_live st'" using memb.bd.update_law [of st cfg "done" "namespaceProg n p" res st'] l u
    by (simp add: namespace_Update_def runTx_namespaceTx [abs_def])
  note r = mem.reads_apart [OF l(1) this memn.isolated [OF conjI [OF l] u] apart memoryChecks_scan]
  show "stGet (namespaceStore n' (boundedStore cfg' memoryEngine)) key st' = stGet (namespaceStore n' (boundedStore cfg' memoryEngine)) key st"
    "stScan (namespaceStore n' (boundedStore cfg' memoryEngine)) options st' = stScan (namespaceStore n' (boundedStore cfg' memoryEngine)) options st"
    using r by blast+
next
  assume l: "file_live ft" "fits cfg (file_view ft)"
    and u: "stUpdate (namespaceStore n (boundedStore cfg (fileEngine js))) done (Some (runTx p)) ft = (fres, ft')"
  have "file_live ft'" using fileb.bd.update_law [of ft cfg js "done" "namespaceProg n p" fres ft'] l u
    by (simp add: namespace_Update_def runTx_namespaceTx [abs_def])
  note r = filee.reads_apart [OF l(1) this filen.isolated [OF conjI [OF l] u] apart memoryChecks_scan]
  show "stGet (namespaceStore n' (boundedStore cfg' (fileEngine js))) key ft' = stGet (namespaceStore n' (boundedStore cfg' (fileEngine js))) key ft"
    "stScan (namespaceStore n' (boundedStore cfg' (fileEngine js))) options ft' = stScan (namespaceStore n' (boundedStore cfg' (fileEngine js))) options ft"
    using r by blast+
qed

subsection \<open>What is written is read back\<close>

text \<open>
  \<open>encoding/json\<close> on documents of graphic ASCII text: marshalling gives a non-empty text, and decoding
  it gives the same version and the same map, with its keys in any order.
\<close>

definition graphic_document :: "fileDocument \<Rightarrow> bool" where
  "graphic_document d = (graphic (fdVersion d) \<and> list_all (\<lambda>(k, v). graphic k \<and> graphic v) (fdValues d))"

definition file_json_faithful :: "file_json \<Rightarrow> bool" where
  "file_json_faithful js = (\<forall>d p. graphic_document d \<longrightarrow> distinct (map fst (fdValues d)) \<longrightarrow> fjMarshal js d = Some p \<longrightarrow>
     p \<noteq> [] \<and> (\<exists>d'. fjDecode js p = Some d' \<and> fdVersion d' = fdVersion d \<and> distinct (map fst (fdValues d'))
       \<and> map_of (fdValues d') = map_of (fdValues d)))"

lemma rawStdEncode_inj: "rawStdEncode a = rawStdEncode b \<longleftrightarrow> a = b"
  by (metis rawStd_roundtrip option.inject)

lemma encodeValues_aux:
  assumes "distinct (map fst m)"
  shows "map_of (fold (\<lambda>(key, v). AList.update (rawStdEncode key) (rawStdEncode v)) m acc) (rawStdEncode k) =
      (case map_of m k of None \<Rightarrow> map_of acc (rawStdEncode k) | Some v \<Rightarrow> Some (rawStdEncode v))"
    "x \<in> set (fold (\<lambda>(key, v). AList.update (rawStdEncode key) (rawStdEncode v)) m acc) \<Longrightarrow>
      x \<in> set acc \<or> (\<exists>key v. (key, v) \<in> set m \<and> x = (rawStdEncode key, rawStdEncode v))"
    "distinct (map fst acc) \<Longrightarrow> distinct (map fst (fold (\<lambda>(key, v). AList.update (rawStdEncode key) (rawStdEncode v)) m acc))"
proof -
  show "map_of (fold (\<lambda>(key, v). AList.update (rawStdEncode key) (rawStdEncode v)) m acc) (rawStdEncode k) =
      (case map_of m k of None \<Rightarrow> map_of acc (rawStdEncode k) | Some v \<Rightarrow> Some (rawStdEncode v))"
    using assms
  proof (induction m arbitrary: acc)
    case (Cons x m)
    obtain key v where x: "x = (key, v)" by force
    have "map_of m key = None" using Cons.prems x by (simp add: map_of_eq_None_iff)
    then show ?case using Cons x by (auto simp: update_conv' rawStdEncode_inj split: option.splits)
  qed simp
  show "x \<in> set acc \<or> (\<exists>key v. (key, v) \<in> set m \<and> x = (rawStdEncode key, rawStdEncode v))"
    if "x \<in> set (fold (\<lambda>(key, v). AList.update (rawStdEncode key) (rawStdEncode v)) m acc)"
    using that
  proof (induction m arbitrary: acc)
    case (Cons y m)
    obtain key v where y: "y = (key, v)" by force
    from Cons.IH [of "AList.update (rawStdEncode key) (rawStdEncode v) acc"] Cons.prems show ?case
      unfolding y by (auto dest: alist_update_mem)
  qed simp
  show "distinct (map fst (fold (\<lambda>(key, v). AList.update (rawStdEncode key) (rawStdEncode v)) m acc))" if "distinct (map fst acc)"
    using that by (induction m arbitrary: acc) (auto simp: distinct_update)
qed

lemma encodeValues_facts:
  assumes "distinct (map fst m)"
  shows "map_of (encodeValues m) (rawStdEncode k) = map_option rawStdEncode (map_of m k)"
    "x \<in> set (encodeValues m) \<Longrightarrow> \<exists>key v. (key, v) \<in> set m \<and> x = (rawStdEncode key, rawStdEncode v)"
    "distinct (map fst (encodeValues m))"
  using encodeValues_aux [OF assms, where acc = "[]"] by (auto simp: encodeValues_def split: option.splits)

lemma decodeValues_encoded:
  assumes "\<And>x. x \<in> set rest \<Longrightarrow> \<exists>key v. key \<noteq> [] \<and> x = (rawStdEncode key, rawStdEncode v)" "distinct (map fst rest)"
  shows "\<exists>m'. decodeValues rest m = Inr m' \<and> (distinct (map fst m) \<longrightarrow> distinct (map fst m'))
     \<and> map_of m' = (\<lambda>k. case map_of rest (rawStdEncode k) of None \<Rightarrow> map_of m k | Some b \<Rightarrow> rawStdDecode b)"
  using assms
proof (induction rest arbitrary: m)
  case (Cons x rest)
  obtain key v where x: "x = (rawStdEncode key, rawStdEncode v)" "key \<noteq> []" using Cons.prems(1) [of x] by auto
  have n: "map_of rest (rawStdEncode key) = None" using Cons.prems(2) x by (simp add: map_of_eq_None_iff)
  have d: "distinct (map fst rest)" using Cons.prems(2) by simp
  have pr: "\<exists>key v. key \<noteq> [] \<and> y = (rawStdEncode key, rawStdEncode v)" if "y \<in> set rest" for y
    using Cons.prems(1) [of y] that by simp
  from Cons.IH [OF pr d, of "AList.update key v m"] obtain m' where m': "decodeValues rest (AList.update key v m) = Inr m'"
      "distinct (map fst (AList.update key v m)) \<longrightarrow> distinct (map fst m')"
      "map_of m' = (\<lambda>k. case map_of rest (rawStdEncode k) of None \<Rightarrow> map_of (AList.update key v m) k | Some b \<Rightarrow> rawStdDecode b)"
    by blast
  have "map_of m' = (\<lambda>k. case map_of (x # rest) (rawStdEncode k) of None \<Rightarrow> map_of m k | Some b \<Rightarrow> rawStdDecode b)"
    unfolding m'(3) using n by (auto simp: x update_conv' rawStdEncode_inj split: option.splits)
  then show ?case using m'(1,2) x by (auto simp: distinct_update)
qed simp

lemma rawStd_graphic_text: "graphic (rawStdEncode b)"
  by (force simp: graphic_def list_all_iff dest: rawStd_graphic)

lemma graphic_encoded: "distinct (map fst m) \<Longrightarrow> graphic_document (fileDocumentOf m)"
proof -
  assume "distinct (map fst m)"
  moreover have "graphic fileStoreVersion" by code_simp
  ultimately show ?thesis using encodeValues_facts(2) [of m] rawStd_graphic_text
    by (auto simp: graphic_document_def fileDocumentOf_def list_all_iff)
qed

lemma load_written:
  assumes "file_json_faithful js" "distinct (map fst m)" "[] \<notin> fst ` set m" "fjMarshal js (fileDocumentOf m) = Some payload"
    "int (length payload) \<le> maxFileBytes"
  shows "\<exists>m'. loadPayload js payload = Inr m' \<and> distinct (map fst m') \<and> map_of m' = map_of m"
proof -
  have "distinct (map fst (fdValues (fileDocumentOf m)))" using encodeValues_facts(3) [OF assms(2)] by (simp add: fileDocumentOf_def)
  from assms(1) [unfolded file_json_faithful_def, rule_format, OF graphic_encoded [OF assms(2)] this assms(4)]
  obtain d where d: "payload \<noteq> []" "fjDecode js payload = Some d" "fdVersion d = fileStoreVersion" "distinct (map fst (fdValues d))"
      "map_of (fdValues d) = map_of (encodeValues m)"
    by (auto simp: fileDocumentOf_def)
  have "\<exists>key v. key \<noteq> [] \<and> x = (rawStdEncode key, rawStdEncode v)" if x: "x \<in> set (fdValues d)" for x
  proof -
    have "map_of (encodeValues m) (fst x) = Some (snd x)" using d(4,5) x by (metis map_of_is_SomeI prod.collapse)
    then have "x \<in> set (encodeValues m)" by (metis map_of_SomeD prod.collapse)
    then obtain key v where "(key, v) \<in> set m" "x = (rawStdEncode key, rawStdEncode v)" using encodeValues_facts(2) [OF assms(2)] by blast
    moreover from this have "key \<noteq> []" using assms(3) by (metis fst_conv image_eqI)
    ultimately show ?thesis by blast
  qed
  from decodeValues_encoded [OF this d(4), of "[]"] obtain m' where m': "decodeValues (fdValues d) [] = Inr m'" "distinct (map fst m')"
      "map_of m' = (\<lambda>k. case map_of (encodeValues m) (rawStdEncode k) of None \<Rightarrow> map_of [] k | Some b \<Rightarrow> rawStdDecode b)"
    by (auto simp: d(5))
  have "map_of m' = map_of m" unfolding m'(3) by (auto simp: encodeValues_facts(1) [OF assms(2)] split: option.splits)
  then show ?thesis using d m' assms(5) by (auto simp: loadPayload_def)
qed

subsection \<open>Durability\<close>

text \<open>The renames of a write that does not lose the file.\<close>

definition replaces :: "persist_io \<Rightarrow> bool" where
  "replaces io = (ioRename io = None \<or> ioRemove io \<noteq> None \<and> \<not> ioRemoveMissing io \<or> ioRenameAgain io = None)"

definition durable :: "file_json \<Rightarrow> fileStore \<Rightarrow> bool" where
  "durable js st = (\<exists>payload m. fsDisk st = Some payload \<and> loadPayload js payload = Inr m \<and> distinct (map fst m) \<and> map_of m = file_view st)"

lemma persist_durable:
  assumes "file_json_faithful js" "distinct (map fst m)" "[] \<notin> fst ` set m" "list_all replaces (fsScript st)" "persist js m st = (res, st')"
  shows "list_all replaces (fsScript st')"
    "res = None \<Longrightarrow> \<exists>payload m'. fsDisk st' = Some payload \<and> loadPayload js payload = Inr m' \<and> distinct (map fst m') \<and> map_of m' = map_of m"
    "res \<noteq> None \<Longrightarrow> fsDisk st' = fsDisk st"
proof -
  have r: "replaces (case fsScript st of [] \<Rightarrow> io_fine | io # _ \<Rightarrow> io)"
    using assms(4) by (auto simp: replaces_def io_fine_def split: list.split)
  have t: "list_all replaces (tl (fsScript st))" using assms(4) by (cases "fsScript st") auto
  then show "list_all replaces (fsScript st')"
    using assms(4,5) by (auto simp: persist_def Let_def split: option.splits if_splits prod.splits)
  show "\<exists>payload m'. fsDisk st' = Some payload \<and> loadPayload js payload = Inr m' \<and> distinct (map fst m') \<and> map_of m' = map_of m" if ok: "res = None"
  proof -
    obtain payload where "fjMarshal js (fileDocumentOf m) = Some payload" "int (length payload) \<le> maxFileBytes" "fsDisk st' = Some payload"
      using assms(5) ok by (auto simp: persist_def Let_def replaceFile_def split: option.splits if_splits)
    then show ?thesis using load_written [OF assms(1-3)] by blast
  qed
  show "fsDisk st' = fsDisk st" if "res \<noteq> None"
    using assms(5) that r by (auto simp: persist_def Let_def replaceFile_def replaces_def split: option.splits if_splits)
qed

lemma fits_nonempty: "fits config (map_of m) \<Longrightarrow> [] \<notin> fst ` set m"
proof
  assume f: "fits config (map_of m)" and "[] \<in> fst ` set m"
  then have "map_of m [] \<noteq> None" by (simp add: map_of_eq_None_iff)
  then show False using f by (auto simp: fits_def)
qed

lemma update_durable:
  assumes "file_json_faithful js" "file_live st \<and> fits config (file_view st)" "durable js st" "list_all replaces (fsScript st)"
    "stUpdate (boundedStore config (fileEngine js)) done (Some (runTx p)) st = (res, st')"
  shows "durable js st' \<and> list_all replaces (fsScript st')"
proof (cases "cfReadOnly config \<or> done \<noteq> None")
  case True
  then have "st' = st" using assms(2,5) by (auto simp: bounded_Update_def fileEngine_def file_Update_def split: if_splits)
  then show ?thesis using assms(3,4) by simp
next
  case False
  obtain r m where m: "runTx (boundedProg config p) mapTx (fsValues st) = (r, m)" by force
  note sp = runTx_mapTx [OF m]
  have u: "file_Update js None (Some (runTx (boundedProg config p))) st = (res, st')"
    using False assms(5) by (simp add: bounded_Update_def fileEngine_def runTx_boundedTx [abs_def])
  have d: "distinct (map fst (fsValues st))" "\<not> fsClosed st" using assms(2) by (simp_all add: file_live_def)
  then have "runTx p (specTx (boundedChecks config memoryChecks)) (file_view st) = (r, map_of m)"
    using sp runTx_bounded_spec [of config "file_view st" p memoryChecks] assms(2) by (simp add: runTx_boundedTx file_view_def)
  then have "fits config (map_of m)" using runTx_bounded_spec [of config "file_view st" p memoryChecks] assms(2) by simp
  then have ne: "[] \<notin> fst ` set m" by (rule fits_nonempty)
  show ?thesis
  proof (cases r)
    case (Some e)
    then show ?thesis using u m d assms(3,4) by (auto simp: file_Update_def durable_def file_view_def)
  next
    case None
    obtain e st1 where e: "persist js m st = (e, st1)" by force
    note pd = persist_durable [OF assms(1) conjunct2 [OF sp [OF d(1)]] ne assms(4) e]
    show ?thesis
    proof (cases e)
      case Some
      then show ?thesis using None u m d e pd(1,3) assms(3) persist_keeps [OF e]
        by (auto simp: file_Update_def durable_def file_view_def)
    next
      case None
      then show ?thesis using \<open>r = None\<close> u m d e pd(1,2) by (auto simp: file_Update_def durable_def file_view_def)
    qed
  qed
qed

lemma updates_durable:
  assumes "file_json_faithful js" "file_live st \<and> fits config (file_view st)" "durable js st" "list_all replaces (fsScript st)"
  shows "durable js (storeUpdates (boundedStore config (fileEngine js)) us st)"
  using assms(2-)
proof (induction us arbitrary: st)
  case (Cons u us)
  obtain res st' where u: "stUpdate (boundedStore config (fileEngine js)) (fst u) (Some (runTx (snd u))) st = (res, st')" by force
  have l: "file_live st' \<and> fits config (file_view st')" using fileb.bd.update_law [OF Cons.prems(1) u] by simp
  show ?case using Cons.IH [OF l] update_durable [OF assms(1) Cons.prems u] u by simp
qed simp

lemma openFile_fresh:
  assumes "file_json_faithful js" "openFile js now config None script = Inr st" "list_all replaces script"
  shows "file_live st \<and> fits config' (file_view st) \<and> durable js st \<and> list_all replaces (fsScript st) \<and> file_view st = Map.empty"
proof -
  define st0 where "st0 = \<lparr>fsValues = [], fsClosed = False, fsOpenedAt = now, fsLastErr = [], fsDisk = None, fsScript = script\<rparr>"
  have e: "persist js [] st0 = (None, st)"
    using assms(2) by (auto simp: openFile_def st0_def Let_def split: if_splits prod.splits option.splits)
  have sc: "list_all replaces (fsScript st0)" using assms(3) by (simp add: st0_def)
  show ?thesis using persist_durable [OF assms(1) _ _ sc e] persist_keeps [OF e]
    by (auto simp: st0_def file_live_def file_view_def durable_def)
qed

text \<open>
  C23: A file store made anew and used through the bounding wrapper: after any sequence of updates, whatever
  operating-system calls fail on the way short of both renames of one write, opening the file again gives
  the same map.
\<close>

theorem file_durable:
  assumes "file_json_faithful js" "openFile js now config None script = Inr st" "list_all replaces script"
    "storeUpdates (boundedStore config (fileEngine js)) us st = st'"
  shows "\<exists>st2. openFile js now' config (fsDisk st') [] = Inr st2 \<and> file_view st2 = file_view st'"
proof -
  have "durable js st'" using updates_durable [OF assms(1), of st config us] openFile_fresh [OF assms(1-3)] assms(4) by blast
  moreover have "TrimSpace (cfPath config) \<noteq> []" using assms(2) by (auto simp: openFile_def)
  ultimately show ?thesis by (auto simp: durable_def openFile_def file_view_def)
qed

text \<open>
  C38: When both renames of a write fail after the old file was removed, the update fails, the store still
  holds its map, and the file is gone: opening it again gives an empty store.
\<close>

theorem failed_replace_loses_file:
  assumes "file_live st" "fjMarshal js (fileDocumentOf (snd (runTx p mapTx (fsValues st)))) = Some payload" "int (length payload) \<le> maxFileBytes"
    "fst (runTx p mapTx (fsValues st)) = None"
    "fsScript st = io_fine\<lparr>ioRename := Some e, ioRenameAgain := Some e'\<rparr> # script"
  shows "fst (stUpdate (fileEngine js) None (Some (runTx p)) st) = Some e'
    \<and> file_view (snd (stUpdate (fileEngine js) None (Some (runTx p)) st)) = file_view st
    \<and> fsDisk (snd (stUpdate (fileEngine js) None (Some (runTx p)) st)) = None"
  using assms by (auto simp: fileEngine_def file_Update_def file_live_def persist_def Let_def io_fine_def firstError_def replaceFile_def
      file_view_def split: prod.splits)

subsection \<open>Instances\<close>

text \<open>A marshaller that writes one line per text, for the hypothesis on \<open>encoding/json\<close>.\<close>

fun linesOf :: "bytes \<Rightarrow> bytes \<Rightarrow> string list" where
  "linesOf acc [] = []"
| "linesOf acc (b # bs) = (if b = 10 then ofBytes acc # linesOf [] bs else linesOf (acc @ [b]) bs)"

fun pairsOf :: "string list \<Rightarrow> (string \<times> string) list" where
  "pairsOf (k # v # rest) = (k, v) # pairsOf rest"
| "pairsOf _ = []"

definition demo_file_json :: file_json where
  "demo_file_json =
     \<lparr>fjMarshal = (\<lambda>d. Some (concat (map (\<lambda>t. toBytes t @ [10]) (fdVersion d # concat (map (\<lambda>(k, v). [k, v]) (fdValues d)))))),
      fjDecode = (\<lambda>p. case linesOf [] p of [] \<Rightarrow> None | v # rest \<Rightarrow> Some \<lparr>fdVersion = v, fdValues = pairsOf rest\<rparr>)\<rparr>"

lemma graphic_no_newline: "graphic t \<Longrightarrow> (10 :: byte) \<notin> set (toBytes t)"
proof
  assume g: "graphic t" and "(10 :: byte) \<in> set (toBytes t)"
  then obtain c where c: "c \<in> set t" "(10 :: byte) = of_nat (of_char c)" by (auto simp: toBytes_def)
  have "unat (of_nat (of_char c) :: byte) = of_char c" by (simp add: unat_of_nat)
  moreover have "unat (10 :: byte) = 10" by simp
  ultimately have "(of_char c :: nat) = 10" using c(2) by metis
  then show False using g c(1) by (auto simp: graphic_def list_all_iff)
qed

lemma linesOf_text: "(10 :: byte) \<notin> set t \<Longrightarrow> linesOf acc (t @ 10 # bs) = ofBytes (acc @ t) # linesOf [] bs"
  by (induction t arbitrary: acc) auto

lemma linesOf_concat: "list_all graphic ts \<Longrightarrow> linesOf [] (concat (map (\<lambda>t. toBytes t @ [10]) ts)) = ts"
  by (induction ts) (simp_all add: linesOf_text graphic_no_newline)

lemma pairsOf_concat: "pairsOf (concat (map (\<lambda>(k, v). [k, v]) kvs)) = kvs"
  by (induction kvs) auto

lemma demo_file_json_faithful: "file_json_faithful demo_file_json"
proof -
  have "fjDecode demo_file_json p = Some d" if "graphic_document d" "fjMarshal demo_file_json d = Some p" for d p
  proof -
    have "list_all graphic (fdVersion d # concat (map (\<lambda>(k, v). [k, v]) (fdValues d)))"
      using that(1) by (auto simp: graphic_document_def list_all_iff)
    from linesOf_concat [OF this] that(2) show ?thesis by (auto simp: demo_file_json_def pairsOf_concat)
  qed
  moreover have "p \<noteq> []" if "fjMarshal demo_file_json d = Some p" for d p using that by (auto simp: demo_file_json_def)
  ultimately show ?thesis by (auto simp: file_json_faithful_def)
qed

definition demo_file_config :: StoreConfig where
  "demo_file_config = demo_store_normal\<lparr>cfEngine := ''file'', cfPath := ''/s''\<rparr>"

text \<open>One write whose first rename fails and one that cannot create its temporary file.\<close>

definition demo_script :: "persist_io list" where
  "demo_script = [io_fine, io_fine\<lparr>ioRename := Some StorePanic\<rparr>, io_fine\<lparr>ioCreateTemp := Some StorePanic\<rparr>]"

definition demo_file_updates :: "(store_error option \<times> tx_prog) list" where
  "demo_file_updates = [(None, TxPut [1] (Some [2]) TxReturn), (None, TxPut [3] (Some [4]) TxReturn)]"

definition demo_file :: fileStore where
  "demo_file = (case openFile demo_file_json 0 demo_file_config None demo_script of Inr st \<Rightarrow> st)"

lemma demo_file_opens: "openFile demo_file_json 0 demo_file_config None demo_script = Inr demo_file"
proof -
  have "\<not> isl (openFile demo_file_json 0 demo_file_config None demo_script)" by code_simp
  then show ?thesis by (auto simp: demo_file_def split: sum.splits)
qed

theorem file_durable_witness:
  "\<exists>st. openFile demo_file_json 1 demo_file_config
        (fsDisk (storeUpdates (boundedStore demo_file_config (fileEngine demo_file_json)) demo_file_updates demo_file)) [] = Inr st
     \<and> file_view st [1] = Some [2] \<and> file_view st [3] = None"
proof -
  have "list_all replaces demo_script" by code_simp
  moreover have "file_view (storeUpdates (boundedStore demo_file_config (fileEngine demo_file_json)) demo_file_updates demo_file) [1] = Some [2]"
    "file_view (storeUpdates (boundedStore demo_file_config (fileEngine demo_file_json)) demo_file_updates demo_file) [3] = None"
    by code_simp+
  ultimately show ?thesis
    using file_durable [OF demo_file_json_faithful demo_file_opens _ refl, where us = demo_file_updates and now' = 1] by metis
qed

abbreviation demo_put :: tx_prog where
  "demo_put \<equiv> TxPut [1] (Some [2]) TxReturn"

abbreviation demo_scan :: ScanOptions where
  "demo_scan \<equiv> \<lparr>soPrefix = [], soAfter = [], soLimit = 10\<rparr>"

theorem namespace_isolated_witness:
  "\<exists>st' ft'. stUpdate (namespaceStore (toBytes ''a/'') demo_store) None (Some (runTx demo_put)) (openMemory 0) = (None, st')
     \<and> stGet (namespaceStore (toBytes ''b/'') demo_store) [1] st' = Inl ErrNotFound
     \<and> stScan (namespaceStore (toBytes ''b/'') demo_store) demo_scan st' = Inr []
     \<and> stUpdate (namespaceStore (toBytes ''a/'') (boundedStore demo_store_normal (fileEngine demo_file_json))) None (Some (runTx demo_put)) demo_file = (None, ft')
     \<and> stScan (namespaceStore (toBytes ''b/'') (boundedStore demo_store_normal (fileEngine demo_file_json))) demo_scan ft' = Inr []"
proof -
  let ?a = "toBytes ''a/''" and ?b = "toBytes ''b/''" and ?F = "boundedStore demo_store_normal (fileEngine demo_file_json)"
  have ap: "\<not> prefix ?a ?b" "\<not> prefix ?b ?a" by code_simp+
  have "fst (stUpdate (namespaceStore ?a demo_store) None (Some (runTx demo_put)) (openMemory 0)) = None" by code_simp
  then obtain st' where u: "stUpdate (namespaceStore ?a demo_store) None (Some (runTx demo_put)) (openMemory 0) = (None, st')"
    by (metis prod.collapse)
  have "fst (stUpdate (namespaceStore ?a ?F) None (Some (runTx demo_put)) demo_file) = None" by code_simp
  then obtain ft' where f: "stUpdate (namespaceStore ?a ?F) None (Some (runTx demo_put)) demo_file = (None, ft')"
    by (metis prod.collapse)
  have l: "file_live demo_file" "fits demo_store_normal (file_view demo_file)"
  proof -
    have "fsValues demo_file = [] \<and> \<not> fsClosed demo_file" by code_simp
    then show "file_live demo_file" "fits demo_store_normal (file_view demo_file)"
      by (simp_all add: file_live_def file_view_def fits_def)
  qed
  have old: "stGet (namespaceStore ?b demo_store) [1] (openMemory 0) = Inl ErrNotFound"
    "stScan (namespaceStore ?b demo_store) demo_scan (openMemory 0) = Inr []" "stScan (namespaceStore ?b ?F) demo_scan demo_file = Inr []"
    by code_simp+
  note iso = namespace_isolated [OF ap, of "openMemory 0" demo_store_normal None demo_put None st' demo_store_normal "[1]" demo_scan
      demo_file demo_file_json None ft']
  note new = conjunct1 [OF iso, THEN mp, OF conjI [OF demo_store_live(1) conjI [OF demo_store_live(2) u]]]
    conjunct2 [OF iso, THEN mp, OF conjI [OF l(1) conjI [OF l(2) f]]]
  show ?thesis using u f new unfolding old by blast
qed

theorem failed_replace_loses_file_witness:
  "fsDisk (snd (stUpdate (fileEngine demo_file_json) None (Some (runTx (TxPut [1] (Some [2]) TxReturn)))
     (demo_file\<lparr>fsScript := [io_fine\<lparr>ioRename := Some StorePanic, ioRenameAgain := Some StorePanic\<rparr>]\<rparr>))) = None"
proof -
  let ?st = "demo_file\<lparr>fsScript := [io_fine\<lparr>ioRename := Some StorePanic, ioRenameAgain := Some StorePanic\<rparr>]\<rparr>"
  let ?p = "TxPut [1] (Some [2]) TxReturn"
  have l: "file_live ?st" by code_simp
  have o: "fst (runTx ?p mapTx (fsValues ?st)) = None" by code_simp
  have b: "length (the (fjMarshal demo_file_json (fileDocumentOf (snd (runTx ?p mapTx (fsValues ?st)))))) = 32" by code_simp
  have m: "fjMarshal demo_file_json (fileDocumentOf (snd (runTx ?p mapTx (fsValues ?st)))) =
      Some (the (fjMarshal demo_file_json (fileDocumentOf (snd (runTx ?p mapTx (fsValues ?st))))))"
    by (simp add: demo_file_json_def)
  have s: "fsScript ?st = io_fine\<lparr>ioRename := Some StorePanic, ioRenameAgain := Some StorePanic\<rparr> # []" by simp
  show ?thesis using failed_replace_loses_file [OF l m _ o s] b by simp
qed

end
