(* ===== verification/Store_Migrate.thy ===== *)
theory Store_Migrate
  imports Store_File
begin

text \<open>
  Copying one store into another, \<open>storageadapter/migrate.go\<close>. The source does not change while it is
  copied. The two functions from rounds to errors say what the context answers at the head of the loop
  and inside \<open>Update\<close>. The loop runs until the source has no more keys; it is a partial function, and
  that it returns is a theorem.

  Shown, from the contract alone: \<open>Migrate\<close> returns, and without an error the destination has every key
  of the source under the prefix with its value and is otherwise as before.
\<close>

record MigrateOptions =
  moPrefix :: bytes
  moBatchSize :: int
  moReplace :: bool

record MigrateReport =
  mrSourceEngine :: string
  mrDestinationEngine :: string
  mrEntries :: u64
  mrBytes :: u64
  mrBatches :: u64

definition migratePut :: "StoreEntry \<Rightarrow> tx_prog \<Rightarrow> tx_prog" where
  "migratePut entry next = TxPut (seKey entry) (seValue entry) (\<lambda>r. case r of Some e \<Rightarrow> TxReturn (Some e) | None \<Rightarrow> next)"

primrec migrateProg :: "bool \<Rightarrow> StoreEntry list \<Rightarrow> tx_prog" where
  "migrateProg replace [] = TxReturn None"
| "migrateProg replace (entry # entries) =
     (if \<not> replace then
        TxGet (seKey entry) (\<lambda>r. case r of
            Inr _ \<Rightarrow> TxReturn (Some ErrConflict)
          | Inl e \<Rightarrow> if \<not> storeErrorIs e ErrNotFound then TxReturn (Some e) else migratePut entry (migrateProg replace entries))
      else migratePut entry (migrateProg replace entries))"

definition countEntry :: "StoreEntry \<Rightarrow> MigrateReport \<Rightarrow> MigrateReport" where
  "countEntry entry report =
     report\<lparr>mrEntries := mrEntries report + 1,
       mrBytes := mrBytes report + of_nat (length (seKey entry) + length (sliceBytes (seValue entry)))\<rparr>"

partial_function (option) migrateLoop ::
  "'s Store \<Rightarrow> 's \<Rightarrow> 'd Store \<Rightarrow> MigrateOptions \<Rightarrow> (nat \<Rightarrow> store_error option) \<Rightarrow> (nat \<Rightarrow> store_error option)
    \<Rightarrow> nat \<Rightarrow> MigrateReport \<Rightarrow> bytes \<Rightarrow> 'd \<Rightarrow> (MigrateReport \<times> store_error option \<times> 'd) option" where
  "migrateLoop S s D options ctx uctx n report after d =
     (if ctx n \<noteq> None then Some (report, ctx n, d)
      else case stScan S \<lparr>soPrefix = moPrefix options, soAfter = after, soLimit = moBatchSize options\<rparr> s of
        Inl e \<Rightarrow> Some (report, Some e, d)
      | Inr entries \<Rightarrow>
      if length entries = 0 then Some (report, None, d)
      else case stUpdate D (uctx n) (Some (runTx (migrateProg (moReplace options) entries))) d of
        (res, d1) \<Rightarrow>
          if res \<noteq> None then Some (report, res, d1)
          else
            let report1 = fold countEntry entries (report\<lparr>mrBatches := mrBatches report + 1\<rparr>); after1 = seKey (last entries) in
            if int (length entries) < moBatchSize options then Some (report1, None, d1)
            else if 0 < length (moPrefix options) \<and> \<not> prefix (moPrefix options) after1 then Some (report1, None, d1)
            else migrateLoop S s D options ctx uctx (Suc n) report1 after1 d1)"

declare migrateLoop.simps [code]

definition Migrate ::
  "'s Store \<Rightarrow> 's \<Rightarrow> 'd Store \<Rightarrow> MigrateOptions \<Rightarrow> (nat \<Rightarrow> store_error option) \<Rightarrow> (nat \<Rightarrow> store_error option)
    \<Rightarrow> 'd \<Rightarrow> (MigrateReport \<times> store_error option \<times> 'd) option" where
  "Migrate S s D rawOptions ctx uctx d =
     (let options = (if moBatchSize rawOptions \<le> 0 then rawOptions\<lparr>moBatchSize := 256\<rparr> else rawOptions) in
      if moBatchSize options > 10000 then
        Some (\<lparr>mrSourceEngine = [], mrDestinationEngine = [], mrEntries = 0, mrBytes = 0, mrBatches = 0\<rparr>,
              Some (ErrStore ''storageadapter: migration batch size exceeds 10000''), d)
      else migrateLoop S s D options ctx uctx 0
             \<lparr>mrSourceEngine = stName S, mrDestinationEngine = stName D, mrEntries = 0, mrBytes = 0, mrBatches = 0\<rparr> [] d)"

subsection \<open>One batch\<close>

definition putEntries :: "StoreEntry list \<Rightarrow> kv_map \<Rightarrow> kv_map" where
  "putEntries es m = fold (\<lambda>e m. m(seKey e \<mapsto> sliceBytes (seValue e))) es m"

text \<open>Tests that never answer that a key is absent.\<close>

definition plainChecks :: "tx_checks \<Rightarrow> bool" where
  "plainChecks K = (\<forall>key e. ckGet K key = Some e \<longrightarrow> \<not> storeErrorIs e ErrNotFound)"

lemma migrateProg_effect:
  assumes "runTx (migrateProg replace es) (specTx K) m = (None, m')" "distinct (map seKey es)" "plainChecks K"
  shows "m' = putEntries es m \<and> (\<not> replace \<longrightarrow> (\<forall>e \<in> set es. m (seKey e) = None))"
  using assms
proof (induction es arbitrary: m)
  case Nil
  then show ?case by (simp add: putEntries_def)
next
  case (Cons e es)
  have r: "runTx (migrateProg replace es) (specTx K) (m(seKey e \<mapsto> sliceBytes (seValue e))) = (None, m')"
    and n: "\<not> replace \<longrightarrow> m (seKey e) = None"
    using Cons.prems(1,3) by (auto simp: specTx_def migratePut_def lookupResult_def plainChecks_def split: if_splits option.splits sum.splits)
  have d: "distinct (map seKey es)" "seKey e \<notin> seKey ` set es" using Cons.prems(2) by simp_all
  note ih = Cons.IH [OF r d(1) Cons.prems(3)]
  have i: "m' = putEntries (e # es) m" using conjunct1 [OF ih] by (simp only: putEntries_def fold_simps)
  have "\<not> replace \<longrightarrow> (\<forall>e' \<in> set es. (m(seKey e \<mapsto> sliceBytes (seValue e))) (seKey e') = None)" using ih by blast
  then have "\<not> replace \<longrightarrow> (\<forall>e' \<in> set es. m (seKey e') = None)" using d(2) by (auto split: if_splits)
  then show ?case using n i by simp
qed

lemma putEntries_values:
  assumes "set ks \<subseteq> dom f"
  shows "putEntries (map (\<lambda>key. \<lparr>seKey = key, seValue = copySlice (the (f key))\<rparr>) ks) m k = (if k \<in> set ks then f k else m k)"
  using assms unfolding putEntries_def by (induction ks rule: rev_induct) (auto simp: option.collapse)

lemma mrEntries_count: "mrEntries (fold countEntry es report) = mrEntries report + of_nat (length es)"
  by (induction es arbitrary: report) (simp_all add: countEntry_def algebra_simps)

subsection \<open>The pages of a scan\<close>

definition pageOf :: "bytes \<Rightarrow> bytes \<Rightarrow> int \<Rightarrow> kv_map \<Rightarrow> bytes set" where
  "pageOf P after B m = scanKeys \<lparr>soPrefix = P, soAfter = after, soLimit = B\<rparr> m"

lemma pageOf_mem: "k \<in> pageOf P after B m \<longleftrightarrow> k \<in> dom m \<and> prefix P k \<and> (after = [] \<or> after < k)"
  by (auto simp: pageOf_def scanKeys_def scanSelects_def not_le)

lemma finite_pageOf: "finite (dom m) \<Longrightarrow> finite (pageOf P after B m)"
  by (rule finite_subset [of _ "dom m"]) (auto simp: pageOf_mem)

lemma sorted_le_last: "sorted xs \<Longrightarrow> x \<in> set xs \<Longrightarrow> (x :: 'a :: linorder) \<le> last xs"
  by (induction xs) auto

lemma pageOf_next:
  assumes "finite (dom m)" "m [] = None" "0 < B" "pageOf P after B m \<noteq> {}"
    "ks = take (nat B) (sorted_list_of_set (pageOf P after B m))"
  shows "ks \<noteq> []" "set ks \<subseteq> pageOf P after B m" "distinct ks" "last ks \<noteq> []"
    "pageOf P (last ks) B m = pageOf P after B m - set ks"
    "length ks < nat B \<Longrightarrow> set ks = pageOf P after B m"
proof -
  let ?R = "pageOf P after B m" let ?xs = "sorted_list_of_set ?R"
  have fin: "finite ?R" using assms(1) by (rule finite_pageOf)
  have xs: "set ?xs = ?R" "sorted_wrt (<) ?xs" using fin by simp_all
  show ne: "ks \<noteq> []" using assms(3-5) fin by (auto simp: take_eq_Nil)
  show sub: "set ks \<subseteq> ?R" using assms(5) set_take_subset xs(1) by metis
  show "distinct ks" using assms(5) by simp
  have l: "last ks \<in> set ks" using ne by simp
  then have lR: "last ks \<in> ?R" using sub by blast
  then show "last ks \<noteq> []" using assms(2) by (auto simp: pageOf_mem)
  have app: "?xs = ks @ drop (nat B) ?xs" using assms(5) by simp
  have sw: "sorted_wrt (<) ks" "\<And>x y. x \<in> set ks \<Longrightarrow> y \<in> set (drop (nat B) ?xs) \<Longrightarrow> x < y"
    using xs(2) app by (metis sorted_wrt_append)+
  have "sorted ks" using sw(1) by (rule strict_sorted_imp_sorted)
  then have le: "x \<le> last ks" if "x \<in> set ks" for x using sorted_le_last that by blast
  show "pageOf P (last ks) B m = ?R - set ks"
  proof (rule set_eqI, rule iffI)
    fix k assume k: "k \<in> pageOf P (last ks) B m"
    then have "last ks < k" using \<open>last ks \<noteq> []\<close> by (simp add: pageOf_mem)
    moreover have "after = [] \<or> after < k" using lR \<open>last ks < k\<close> by (auto simp: pageOf_mem)
    ultimately show "k \<in> ?R - set ks" using k le by (auto simp: pageOf_mem dest: leD)
  next
    fix k assume k: "k \<in> ?R - set ks"
    then have "k \<in> set (drop (nat B) ?xs)" using xs(1) app by (metis DiffE Un_iff set_append)
    then show "k \<in> pageOf P (last ks) B m" using sw(2) [OF l] k by (auto simp: pageOf_mem)
  qed
  show "set ks = ?R" if "length ks < nat B" using that assms(5) xs(1) by (simp add: min_def split: if_splits)
qed

subsection \<open>The loop\<close>

text \<open>The scans of a migration that the tests of the source let through.\<close>

definition scannable :: "tx_checks \<Rightarrow> MigrateOptions \<Rightarrow> kv_map \<Rightarrow> bool" where
  "scannable C options m = (\<forall>after. after = [] \<or> after \<in> dom (m) \<longrightarrow>
     ckScan C \<lparr>soPrefix = moPrefix options, soAfter = after, soLimit = moBatchSize options\<rparr> = None)"

text \<open>
  What a migration of the keys \<open>R\<close> of \<open>m\<close> makes of the view \<open>v\<close>: nothing but copies, and without an
  error all of them, counted from \<open>c\<close>.
\<close>

definition copyResult :: "kv_map \<Rightarrow> bytes set \<Rightarrow> bool \<Rightarrow> kv_map \<Rightarrow> u64 \<Rightarrow> MigrateReport \<Rightarrow> store_error option \<Rightarrow> kv_map \<Rightarrow> bool" where
  "copyResult m R replace v c rep err v' \<longleftrightarrow>
     (\<forall>k. v' k = v k \<or> k \<in> R \<and> v' k = m k)
     \<and> (err = None \<longrightarrow> (\<forall>k \<in> R. v' k = m k \<and> (\<not> replace \<longrightarrow> v k = None)) \<and> mrEntries rep = c + of_nat (card R))"

lemma copyResult_join:
  assumes "K \<subseteq> R" "finite R" "\<And>k. v1 k = (if k \<in> K then m k else v k)" "\<not> replace \<longrightarrow> (\<forall>k \<in> K. v k = None)"
    "copyResult m (R - K) replace v1 (c + of_nat (card K)) rep err v'"
  shows "copyResult m R replace v c rep err v'"
proof -
  have "card R = card K + card (R - K)"
    using assms(1,2) by (metis card_Diff_subset card_mono finite_subset le_add_diff_inverse)
  then have "c + of_nat (card K) + of_nat (card (R - K)) = c + of_nat (card R)" by simp
  then show ?thesis using assms(1,3-5) by (auto simp: copyResult_def subset_iff split: if_splits)
qed

locale store_migration =
  src: kv_store S C live view + dst: kv_store D K dlive dview
  for S :: "'s Store" and C live view and D :: "'d Store" and K dlive dview +
  assumes plain: "plainChecks K"
begin

lemma batch_scanned:
  assumes "live s" "scannable C options (view s)" "after = [] \<or> after \<in> dom (view s)"
  shows "stScan S \<lparr>soPrefix = moPrefix options, soAfter = after, soLimit = moBatchSize options\<rparr> s =
    Inr (map (\<lambda>key. \<lparr>seKey = key, seValue = copySlice (the (view s key))\<rparr>)
      (take (nat (moBatchSize options)) (sorted_list_of_set (pageOf (moPrefix options) after (moBatchSize options) (view s)))))"
  using src.scan_law [OF assms(1)] assms(2,3) by (auto simp: scannable_def scanSpec_def pageOf_def)

lemma batch_updates:
  assumes "dlive d" "set ks \<subseteq> dom (view s)" "distinct ks"
    "stUpdate D e (Some (runTx (migrateProg replace (map (\<lambda>key. \<lparr>seKey = key, seValue = copySlice (the (view s key))\<rparr>) ks)))) d = (res, d1)"
  shows "dlive d1" "res \<noteq> None \<Longrightarrow> dview d1 = dview d"
    "res = None \<Longrightarrow> dview d1 k = (if k \<in> set ks then view s k else dview d k) \<and> (\<not> replace \<longrightarrow> (\<forall>k \<in> set ks. dview d k = None))"
proof -
  note u = dst.update_law [OF assms(1,4)]
  show "dlive d1" "res \<noteq> None \<Longrightarrow> dview d1 = dview d" using u by auto
  assume "res = None"
  then have "dview d1 = putEntries (map (\<lambda>key. \<lparr>seKey = key, seValue = copySlice (the (view s key))\<rparr>) ks) (dview d)
      \<and> (\<not> replace \<longrightarrow> (\<forall>k \<in> set ks. dview d k = None))"
    using u migrateProg_effect [OF _ _ plain] assms(3) by (fastforce simp: comp_def)
  then show "dview d1 k = (if k \<in> set ks then view s k else dview d k) \<and> (\<not> replace \<longrightarrow> (\<forall>k \<in> set ks. dview d k = None))"
    using putEntries_values [OF assms(2), of "dview d" k] by simp
qed

lemma loop_round:
  assumes "live s" "view s [] = None" "scannable C options (view s)" "0 < moBatchSize options" "after = [] \<or> after \<in> dom (view s)" "dlive d"
    "R = pageOf (moPrefix options) after (moBatchSize options) (view s)" "ctx n = None" "R \<noteq> {}"
  shows "(\<exists>rep err d'. migrateLoop S s D options ctx uctx n report after d = Some (rep, err, d') \<and> dlive d'
      \<and> copyResult (view s) R (moReplace options) (dview d) (mrEntries report) rep err (dview d'))
    \<or> (\<exists>K report1 after1 d1. K \<subseteq> R \<and> K \<noteq> {} \<and> pageOf (moPrefix options) after1 (moBatchSize options) (view s) = R - K
      \<and> migrateLoop S s D options ctx uctx n report after d = migrateLoop S s D options ctx uctx (Suc n) report1 after1 d1
      \<and> after1 \<in> dom (view s) \<and> dlive d1 \<and> mrEntries report1 = mrEntries report + of_nat (card K)
      \<and> (\<forall>k. dview d1 k = (if k \<in> K then view s k else dview d k)) \<and> (\<not> moReplace options \<longrightarrow> (\<forall>k \<in> K. dview d k = None)))"
proof -
  let ?B = "moBatchSize options" and ?P = "moPrefix options" and ?m = "view s"
  define ks where "ks = take (nat ?B) (sorted_list_of_set R)"
  define es where "es = map (\<lambda>key. \<lparr>seKey = key, seValue = copySlice (the (?m key))\<rparr>) ks"
  have sc: "stScan S \<lparr>soPrefix = ?P, soAfter = after, soLimit = ?B\<rparr> s = Inr es"
    using batch_scanned [OF assms(1,3,5)] by (simp add: es_def ks_def assms(7))
  note loop = migrateLoop.simps [of S s D options ctx uctx n report after d]
  obtain res d1 where u: "stUpdate D (uctx n) (Some (runTx (migrateProg (moReplace options) es))) d = (res, d1)" by force
  note pg = pageOf_next [OF src.finite_view [OF assms(1)] assms(2,4) _ ks_def [unfolded assms(7)], folded assms(7), OF assms(9)]
  have sub: "set ks \<subseteq> dom ?m" using pg(2) assms(7) by (auto simp: pageOf_mem)
  note b = batch_updates [OF assms(6) sub pg(3) u [unfolded es_def]]
  have ne: "es \<noteq> []" and lk: "seKey (last es) = last ks" using pg(1) by (simp_all add: es_def last_map)
  have l: "last ks \<in> set ks" using pg(1) by simp
  then have pre: "prefix ?P (last ks)" using pg(2) assms(7) by (auto simp: pageOf_mem)
  define report1 where "report1 = fold countEntry es (report\<lparr>mrBatches := mrBatches report + 1\<rparr>)"
  have r1: "mrEntries report1 = mrEntries report + of_nat (card (set ks))"
    using distinct_card [OF pg(3)] by (simp add: report1_def mrEntries_count es_def)
  consider (failed) e where "res = Some e" | (last) "res = None" "int (length es) < ?B" | (more) "res = None" "\<not> int (length es) < ?B" by (cases res) auto
  then show ?thesis
  proof cases
    case failed
    then show ?thesis using loop assms(8) sc ne u b(1,2) by (auto simp: copyResult_def)
  next
    case last
    then have "set ks = R" using pg(6) by (simp add: es_def)
    then show ?thesis using loop assms(8) sc ne u last b(3) [OF last(1)] b(1) r1 by (auto simp: report1_def Let_def copyResult_def)
  next
    case more
    have "migrateLoop S s D options ctx uctx n report after d = migrateLoop S s D options ctx uctx (Suc n) report1 (last ks) d1"
      using loop assms(8) sc ne u more pre lk by (simp add: report1_def Let_def)
    moreover have "last ks \<in> dom ?m" using sub l by (rule subsetD)
    ultimately show ?thesis using pg(1,2,5) b(1) b(3) [OF more(1)] r1
      by (intro disjI2 exI [of _ "set ks"] exI [of _ report1] exI [of _ "last ks"] exI [of _ d1]) auto
  qed
qed

lemma loop_copies:
  assumes "live s" "view s [] = None" "scannable C options (view s)" "0 < moBatchSize options" "after = [] \<or> after \<in> dom (view s)" "dlive d"
    "R = pageOf (moPrefix options) after (moBatchSize options) (view s)"
  shows "\<exists>rep err d'. migrateLoop S s D options ctx uctx n report after d = Some (rep, err, d') \<and> dlive d'
    \<and> copyResult (view s) R (moReplace options) (dview d) (mrEntries report) rep err (dview d')"
  using assms
proof (induction "card R" arbitrary: R n report after d rule: less_induct)
  case less
  have fin: "finite R" using finite_pageOf src.finite_view less.prems(1,7) by blast
  note loop = migrateLoop.simps [of S s D options ctx uctx n report after d]
  consider "ctx n \<noteq> None" | (finished) "ctx n = None" "R = {}" | (more) "ctx n = None" "R \<noteq> {}" by blast
  then show ?case
  proof cases
    case 1
    then show ?thesis using loop less.prems(6) by (auto simp: copyResult_def)
  next
    case finished
    then show ?thesis using loop batch_scanned [OF less.prems(1,3,5)] less.prems(6,7) by (simp add: copyResult_def)
  next
    case more
    from loop_round [where report = report and uctx = uctx and ctx = ctx and n = n, OF less.prems more] show ?thesis
    proof (elim disjE exE conjE)
      fix K report1 after1 d1
      assume k: "K \<subseteq> R" "K \<noteq> {}" "pageOf (moPrefix options) after1 (moBatchSize options) (view s) = R - K"
        and nx: "migrateLoop S s D options ctx uctx n report after d = migrateLoop S s D options ctx uctx (Suc n) report1 after1 d1"
        and a: "after1 \<in> dom (view s)" "dlive d1" "mrEntries report1 = mrEntries report + of_nat (card K)"
        and v: "\<forall>k. dview d1 k = (if k \<in> K then view s k else dview d k)" "\<not> moReplace options \<longrightarrow> (\<forall>k \<in> K. dview d k = None)"
      have "card (R - K) < card R" using fin k(1,2) by (intro psubset_card_mono) auto
      from less.hyps [OF this less.prems(1-4) disjI2 [OF a(1)] a(2) k(3) [symmetric], of "Suc n" report1]
      show ?thesis unfolding nx a(3) using copyResult_join [OF k(1) fin v(1) [rule_format] v(2)] by blast
    qed blast
  qed
qed

text \<open>\<open>Migrate\<close> from any source and into any destination that keep the contract.\<close>

lemma migrate_copies:
  assumes "live s" "view s [] = None" "dlive d" "moBatchSize options \<le> 10000"
    "scannable C (if moBatchSize options \<le> 0 then options\<lparr>moBatchSize := 256\<rparr> else options) (view s)"
  shows "\<exists>rep err d'. Migrate S s D options ctx uctx d = Some (rep, err, d') \<and> dlive d'
    \<and> (\<forall>k. dview d' k = dview d k \<or> k \<in> dom (view s) \<and> prefix (moPrefix options) k \<and> dview d' k = view s k)
    \<and> (err = None \<longrightarrow> (\<forall>k. k \<in> dom (view s) \<and> prefix (moPrefix options) k \<longrightarrow> dview d' k = view s k \<and> (\<not> moReplace options \<longrightarrow> dview d k = None))
         \<and> mrEntries rep = of_nat (card {k \<in> dom (view s). prefix (moPrefix options) k}))"
proof -
  define o' where "o' = (if moBatchSize options \<le> 0 then options\<lparr>moBatchSize := 256\<rparr> else options)"
  have o': "moPrefix o' = moPrefix options" "moReplace o' = moReplace options" "0 < moBatchSize o'" "\<not> moBatchSize o' > 10000"
    using assms(4) by (auto simp: o'_def)
  define R where "R = pageOf (moPrefix o') [] (moBatchSize o') (view s)"
  have R: "R = {k \<in> dom (view s). prefix (moPrefix options) k}" by (auto simp: R_def pageOf_mem o')
  have m: "Migrate S s D options ctx uctx d = migrateLoop S s D o' ctx uctx 0
      \<lparr>mrSourceEngine = stName S, mrDestinationEngine = stName D, mrEntries = 0, mrBytes = 0, mrBatches = 0\<rparr> [] d"
    using o'(4) unfolding o'_def Migrate_def by (simp add: Let_def)
  have sc: "scannable C o' (view s)" using assms(5) by (simp add: o'_def)
  from loop_copies [OF assms(1,2) sc o'(3) disjI1 [OF refl] assms(3) R_def, of ctx uctx 0]
  obtain rep err d' where "Migrate S s D options ctx uctx d = Some (rep, err, d')" "dlive d'"
    "\<forall>k. dview d' k = dview d k \<or> k \<in> R \<and> dview d' k = view s k"
    "err = None \<longrightarrow> (\<forall>k \<in> R. dview d' k = view s k \<and> (\<not> moReplace options \<longrightarrow> dview d k = None)) \<and> mrEntries rep = of_nat (card R)"
    unfolding m o'(2) copyResult_def by fastforce
  then show ?thesis unfolding R by blast
qed

end

lemma plain_bounded: "plainChecks C \<Longrightarrow> plainChecks (boundedChecks config C)"
  by (auto simp: plainChecks_def boundedChecks_def validateKey_def orElse_def)

lemma plain_memory: "plainChecks memoryChecks"
  by (simp add: plainChecks_def memoryChecks_def)

text \<open>From the memory engine into the file engine, both behind the bounding wrapper.\<close>

interpretation mig: store_migration "boundedStore c memoryEngine" "boundedChecks c memoryChecks"
    "\<lambda>st. memory_live st \<and> fits c (memory_view st)" memory_view
    "boundedStore c' (fileEngine js)" "boundedChecks c' memoryChecks" "\<lambda>st. file_live st \<and> fits c' (file_view st)" file_view for c c' js
  by unfold_locales (intro plain_bounded plain_memory)

text \<open>
  C28: Migrating a memory store into a file store always returns. Every key of the destination is as before
  or has come from the source with its value; without an error every key of the source under the prefix
  has, none of them existed before unless replacing was asked for, and the report counts them.
\<close>

theorem migrate_exact:
  assumes "memory_live st" "fits c (memory_view st)" "file_live d" "fits c' (file_view d)"
    "moBatchSize options \<le> 10000" "int (length (moPrefix options)) \<le> cfMaxKeyBytes c"
  shows "\<exists>rep err d'. Migrate (boundedStore c memoryEngine) st (boundedStore c' (fileEngine js)) options ctx uctx d = Some (rep, err, d')
    \<and> (\<forall>k. file_view d' k = file_view d k \<or> k \<in> dom (memory_view st) \<and> prefix (moPrefix options) k \<and> file_view d' k = memory_view st k)
    \<and> (err = None \<longrightarrow> (\<forall>k. k \<in> dom (memory_view st) \<and> prefix (moPrefix options) k \<longrightarrow>
           file_view d' k = memory_view st k \<and> (\<not> moReplace options \<longrightarrow> file_view d k = None))
         \<and> mrEntries rep = of_nat (card {k \<in> dom (memory_view st). prefix (moPrefix options) k}))"
proof -
  have n: "memory_view st [] = None" using assms(2) fitsD(1) by (cases "memory_view st []") blast+
  have b: "int (length k) \<le> cfMaxKeyBytes c" if "memory_view st k = Some v" for k v using assms(2) that by (auto simp: fits_def)
  have z: "0 \<le> cfMaxKeyBytes c" using assms(6) by linarith
  have "scannable (boundedChecks c memoryChecks) (if moBatchSize options \<le> 0 then options\<lparr>moBatchSize := 256\<rparr> else options) (memory_view st)"
    using b z assms(5,6) by (auto simp: scannable_def boundedChecks_def memoryChecks_def not_less dest: b)
  from mig.migrate_copies [OF conjI [OF assms(1,2)] n conjI [OF assms(3,4)] assms(5) this] show ?thesis by blast
qed

definition demo_source :: memoryStore where
  "demo_source = storeUpdates demo_store [(None, TxPut [1] (Some [2]) TxReturn), (None, TxPut [3] (Some []) TxReturn)] (openMemory 0)"

theorem migrate_exact_witness:
  "\<exists>rep d'. Migrate demo_store demo_source (boundedStore demo_file_config (fileEngine demo_file_json))
       \<lparr>moPrefix = [], moBatchSize = 1, moReplace = False\<rparr> (\<lambda>_. None) (\<lambda>_. None) (demo_file\<lparr>fsScript := []\<rparr>) = Some (rep, None, d')
     \<and> mrEntries rep = 2 \<and> file_view d' [1] = Some [2] \<and> file_view d' [3] = Some []"
proof -
  let ?d = "demo_file\<lparr>fsScript := []\<rparr>"
  let ?o = "\<lparr>moPrefix = [], moBatchSize = 1, moReplace = False\<rparr>"
  have m: "msValues demo_source = [([1], [2]), ([3], [])]" "\<not> msClosed demo_source" by code_simp+
  have v: "memory_view demo_source [1] = Some [2]" "memory_view demo_source [3] = Some []" "dom (memory_view demo_source) = {[1], [3]}"
    by (auto simp: memory_view_def m(1) dom_map_of_conv_image_fst)
  have l: "memory_live demo_source" by (simp add: memory_live_def m)
  have f: "fits demo_store_normal (memory_view demo_source)"
    by (auto simp: fits_def memory_view_def m(1) demo_store_normal_def demo_store_config_def split: if_splits)
  have dv: "fsValues ?d = []" "\<not> fsClosed ?d" by code_simp+
  then have d: "file_live ?d" "fits demo_file_config (file_view ?d)" by (simp_all add: file_live_def file_view_def)
  have ok: "map_option (\<lambda>(rep, err, d'). err) (Migrate demo_store demo_source (boundedStore demo_file_config (fileEngine demo_file_json)) ?o (\<lambda>_. None) (\<lambda>_. None) ?d) = Some None"
    by code_simp
  have p: "moBatchSize ?o \<le> 10000" "int (length (moPrefix ?o)) \<le> cfMaxKeyBytes demo_store_normal"
    by (simp_all add: demo_store_normal_def demo_store_config_def)
  from migrate_exact [OF l f d p, of demo_file_json "\<lambda>_. None" "\<lambda>_. None"]
  obtain rep err d' where r: "Migrate demo_store demo_source (boundedStore demo_file_config (fileEngine demo_file_json)) ?o (\<lambda>_. None) (\<lambda>_. None) ?d = Some (rep, err, d')"
    "err = None \<longrightarrow> (\<forall>k. k \<in> dom (memory_view demo_source) \<and> prefix (moPrefix ?o) k \<longrightarrow> file_view d' k = memory_view demo_source k \<and> (\<not> moReplace ?o \<longrightarrow> file_view ?d k = None))
       \<and> mrEntries rep = of_nat (card {k \<in> dom (memory_view demo_source). prefix (moPrefix ?o) k})"
    by blast
  have e: "err = None" using ok r(1) by simp
  have c: "{k. k = [1] \<or> k = [3]} = {[1], [3 :: byte]}" by blast
  from r(2) [rule_format, OF e] show ?thesis using r(1) e v by (simp add: c)
qed

end
