(* ===== verification/File_Core.thy ===== *)
theory File_Core
  imports Store_File Wv_Sort
begin

text \<open>
  The state the file service keeps about its files: \<open>filebackend/core.go\<close>, the stores it writes to,
  \<open>filebackend/storage_adapter.go\<close> among them, and the hooks of \<open>filebackend/hooks.go\<close>. SHA-256 is the
  parameter \<open>sha\<close>, a function into lists of 32 bytes; what a hook's handler answers, or that its time
  ran out, is the parameter of \<open>Run\<close>; JSON is a parameter of \<open>Record\<close>. A nil receiver is left out.

  Shown: identifiers handed out never repeat, across failed writes and restarts; hooks run in the order
  of their priority and registration, and an operation is vetoed exactly when an enforcing hook fails.
\<close>

datatype fb_error = FbNotFound | FbError string | FbStorage store_error

primrec fbErrorText :: "fb_error \<Rightarrow> string" where
  "fbErrorText FbNotFound = ''filebackend: core key not found''"
| "fbErrorText (FbError msg) = msg"
| "fbErrorText (FbStorage e) = storeErrorText e"

subsection \<open>Little-endian integers\<close>

definition encodeUint64 :: "u64 \<Rightarrow> bytes" where
  "encodeUint64 v = map (\<lambda>i. ucast (drop_bit (8 * i) v)) [0..<8]"

definition encodeUint32 :: "u32 \<Rightarrow> bytes" where
  "encodeUint32 v = map (\<lambda>i. ucast (drop_bit (8 * i) v)) [0..<4]"

definition decodeUint64 :: "bytes \<Rightarrow> u64" where
  "decodeUint64 b = foldr (\<lambda>i acc. or (push_bit (8 * i) (ucast (b ! i))) acc) [0..<8] 0"

definition decodeUint32 :: "bytes \<Rightarrow> u32" where
  "decodeUint32 b = foldr (\<lambda>i acc. or (push_bit (8 * i) (ucast (b ! i))) acc) [0..<4] 0"

lemma length_encodeUint [simp]: "length (encodeUint64 v) = 8" "length (encodeUint32 w) = 4"
  by (simp_all add: encodeUint64_def encodeUint32_def)

lemma bit_foldr_or: "bit (foldr (\<lambda>i acc. or (f i) acc) xs 0 :: 'a :: len word) n \<longleftrightarrow> (\<exists>i \<in> set xs. bit (f i) n)"
  by (induction xs) (auto simp: bit_or_iff)

lemma bit_byte_at:
  fixes v :: "'a :: len word"
  assumes "n < LENGTH('a)"
  shows "bit (push_bit (8 * i) (ucast (ucast (drop_bit (8 * i) v) :: byte)) :: 'a word) n \<longleftrightarrow> 8 * i \<le> n \<and> n - 8 * i < 8 \<and> bit v n"
  using assms by (auto simp: bit_push_bit_iff bit_ucast_iff bit_drop_bit_eq)

lemma byte_of_bit: "n < 8 * k \<Longrightarrow> (\<exists>i \<in> {0..<k}. 8 * i \<le> n \<and> n - 8 * i < 8)" for n k :: nat
  by (intro bexI [of _ "n div 8"]) auto

lemma decode_encodeUint64 [simp]: "decodeUint64 (encodeUint64 v) = v"
proof (rule bit_word_eqI)
  fix n assume "n < LENGTH(64)"
  then have n: "n < 8 * 8" "n < LENGTH(64)" by simp_all
  have "bit (decodeUint64 (encodeUint64 v)) n \<longleftrightarrow> (\<exists>i \<in> {0..<8}. 8 * i \<le> n \<and> n - 8 * i < 8 \<and> bit v n)"
    unfolding decodeUint64_def encodeUint64_def bit_foldr_or set_upt
    by (intro bex_cong refl) (use bit_byte_at [OF n(2)] in simp)
  then show "bit (decodeUint64 (encodeUint64 v)) n = bit v n" using byte_of_bit [OF n(1)] by blast
qed

lemma decode_encodeUint32 [simp]: "decodeUint32 (encodeUint32 v) = v"
proof (rule bit_word_eqI)
  fix n assume "n < LENGTH(32)"
  then have n: "n < 8 * 4" "n < LENGTH(32)" by simp_all
  have "bit (decodeUint32 (encodeUint32 v)) n \<longleftrightarrow> (\<exists>i \<in> {0..<4}. 8 * i \<le> n \<and> n - 8 * i < 8 \<and> bit v n)"
    unfolding decodeUint32_def encodeUint32_def bit_foldr_or set_upt
    by (intro bex_cong refl) (use bit_byte_at [OF n(2)] in simp)
  then show "bit (decodeUint32 (encodeUint32 v)) n = bit v n" using byte_of_bit [OF n(1)] by blast
qed

subsection \<open>Stores of the core\<close>

record BatchEntry =
  beKey :: bytes
  beValue :: bytes
  beDelete :: bool

record 's FbStore =
  fbName :: string
  fbGet :: "bytes \<Rightarrow> 's \<Rightarrow> fb_error + bytes"
  fbWrite :: "BatchEntry list \<Rightarrow> 's \<Rightarrow> fb_error option \<times> 's"
  fbClose :: "'s \<Rightarrow> fb_error option \<times> 's"

definition fbPut :: "'s FbStore \<Rightarrow> bytes \<Rightarrow> bytes \<Rightarrow> 's \<Rightarrow> fb_error option \<times> 's" where
  "fbPut F key v = fbWrite F [\<lparr>beKey = key, beValue = v, beDelete = False\<rparr>]"

definition fbDelete :: "'s FbStore \<Rightarrow> bytes \<Rightarrow> 's \<Rightarrow> fb_error option \<times> 's" where
  "fbDelete F key = fbWrite F [\<lparr>beKey = key, beValue = [], beDelete = True\<rparr>]"

abbreviation errEmptyCoreKey :: fb_error where "errEmptyCoreKey \<equiv> FbError ''filebackend: empty core key''"

text \<open>\<open>MemoryStore\<close>: entries before an empty key stay written.\<close>

record FbMemory =
  fmClosed :: bool
  fmValues :: "values"

abbreviation errMemoryClosed :: fb_error where "errMemoryClosed \<equiv> FbError ''filebackend: memory store closed''"

definition fbMemory_Get :: "bytes \<Rightarrow> FbMemory \<Rightarrow> fb_error + bytes" where
  "fbMemory_Get key st =
     (if fmClosed st then Inl errMemoryClosed
      else case map_of (fmValues st) key of None \<Rightarrow> Inl FbNotFound | Some v \<Rightarrow> Inr v)"

fun writeEntries :: "BatchEntry list \<Rightarrow> values \<Rightarrow> fb_error option \<times> values" where
  "writeEntries [] m = (None, m)"
| "writeEntries (e # es) m =
     (if length (beKey e) = 0 then (Some errEmptyCoreKey, m)
      else if beDelete e then writeEntries es (AList.delete (beKey e) m)
      else writeEntries es (AList.update (beKey e) (beValue e) m))"

definition fbMemory_Write :: "BatchEntry list \<Rightarrow> FbMemory \<Rightarrow> fb_error option \<times> FbMemory" where
  "fbMemory_Write entries st =
     (if fmClosed st then (Some errMemoryClosed, st)
      else case writeEntries entries (fmValues st) of (r, m) \<Rightarrow> (r, st\<lparr>fmValues := m\<rparr>))"

definition fbMemory :: "FbMemory FbStore" where
  "fbMemory = \<lparr>fbName = ''memory'', fbGet = fbMemory_Get, fbWrite = fbMemory_Write,
     fbClose = (\<lambda>st. (None, st\<lparr>fmClosed := True, fmValues := []\<rparr>))\<rparr>"

text \<open>\<open>AdapterStore\<close>: any \<open>storageadapter.Store\<close>.\<close>

definition adapter_Get :: "'s Store \<Rightarrow> bytes \<Rightarrow> 's \<Rightarrow> fb_error + bytes" where
  "adapter_Get S key s =
     (case stGet S key s of
        Inl e \<Rightarrow> Inl (if storeErrorIs e ErrNotFound then FbNotFound else FbStorage e)
      | Inr v \<Rightarrow> Inr (sliceBytes v))"

primrec writeProg :: "BatchEntry list \<Rightarrow> tx_prog" where
  "writeProg [] = TxReturn None"
| "writeProg (e # es) =
     (if length (beKey e) = 0 then TxReturn (Some (ErrStore ''filebackend: empty core key''))
      else if beDelete e then TxDelete (beKey e) (\<lambda>r. case r of Some err \<Rightarrow> TxReturn (Some err) | None \<Rightarrow> writeProg es)
      else TxPut (beKey e) (Some (beValue e)) (\<lambda>r. case r of Some err \<Rightarrow> TxReturn (Some err) | None \<Rightarrow> writeProg es))"

definition adapter_Write :: "'s Store \<Rightarrow> BatchEntry list \<Rightarrow> 's \<Rightarrow> fb_error option \<times> 's" where
  "adapter_Write S entries s =
     (case stUpdate S None (Some (runTx (writeProg entries))) s of (r, s') \<Rightarrow> (map_option FbStorage r, s'))"

definition adapterStore :: "'s Store \<Rightarrow> 's FbStore" where
  "adapterStore S = \<lparr>fbName = stName S, fbGet = adapter_Get S, fbWrite = adapter_Write S,
     fbClose = (\<lambda>s. case stClose S s of (r, s') \<Rightarrow> (map_option FbStorage r, s'))\<rparr>"

subsection \<open>The core (\<open>core.go\<close>)\<close>

abbreviation "OperationAttach \<equiv> ''attach''"
abbreviation "OperationWalk \<equiv> ''walk''"
abbreviation "OperationOpen \<equiv> ''open''"
abbreviation "OperationCreate \<equiv> ''create''"
abbreviation "OperationRead \<equiv> ''read''"
abbreviation "OperationWrite \<equiv> ''write''"
abbreviation "OperationClunk \<equiv> ''clunk''"
abbreviation "OperationRemove \<equiv> ''remove''"
abbreviation "OperationStat \<equiv> ''stat''"
abbreviation "OperationReadDir \<equiv> ''readdir''"
abbreviation "OperationPrepareReplace \<equiv> ''replace.prepare''"
abbreviation "OperationCommitReplace \<equiv> ''replace.commit''"
abbreviation "OperationAbortReplace \<equiv> ''replace.abort''"

abbreviation operationList :: "string list" where
  "operationList \<equiv> [OperationAttach, OperationWalk, OperationOpen, OperationCreate, OperationRead, OperationWrite,
     OperationClunk, OperationRemove, OperationStat, OperationReadDir, OperationPrepareReplace, OperationCommitReplace,
     OperationAbortReplace]"

definition allOperations :: "string list" where
  "allOperations = sort operationList"

definition Operation_valid :: "string \<Rightarrow> bool" where
  "Operation_valid o' = (o' \<in> set operationList)"

abbreviation "PhaseBefore \<equiv> ''before''"
abbreviation "PhaseAfter \<equiv> ''after''"
abbreviation "PhaseError \<equiv> ''error''"

record FileEvent =
  evVersion :: string
  evID :: u64
  evOperation :: string
  evPhase :: string
  evPath :: string
  evSecondaryPath :: string
  evOffset :: u64
  evSize :: u64
  evFileMode :: u32
  evDirectory :: bool
  evReadOnly :: bool
  evOccurredAtUnixNano :: int
  evDurationNanos :: int
  evError :: string
  evAttributes :: "(string \<times> string) list"

abbreviation EventVersion :: string where "EventVersion \<equiv> ''weaverssh.file-backend-event.v1''"

definition eventPathBad :: "string \<Rightarrow> bool" where
  "eventPathBad path = (4096 < int (length path) \<or> has_control path \<or> CHR 0x00 \<in> set path)"

definition eventAttributeBad :: "string \<times> string \<Rightarrow> bool" where
  "eventAttributeBad kv = (case kv of (key, v) \<Rightarrow>
     key = [] \<or> key \<noteq> TrimSpace key \<or> 64 < int (length key) \<or> 1024 < int (length v) \<or> has_control key \<or> has_control v)"

definition normalizeEvent :: "int \<Rightarrow> FileEvent \<Rightarrow> fb_error + FileEvent" where
  "normalizeEvent now raw =
     (let version = (if evVersion raw = [] then EventVersion else evVersion raw);
          occurred = (if evOccurredAtUnixNano raw = 0 then now else evOccurredAtUnixNano raw) in
      if version \<noteq> EventVersion \<or> \<not> Operation_valid (evOperation raw) then Inl (FbError ''filebackend: invalid hook event'')
      else if evPhase raw \<noteq> PhaseBefore \<and> evPhase raw \<noteq> PhaseAfter \<and> evPhase raw \<noteq> PhaseError then Inl (FbError ''filebackend: invalid hook event phase'')
      else if eventPathBad (evPath raw) \<or> eventPathBad (evSecondaryPath raw) then Inl (FbError ''filebackend: invalid hook event path'')
      else if 4096 < int (length (evError raw)) \<or> has_control (evError raw) then Inl (FbError ''filebackend: invalid hook event error'')
      else if 24 < int (length (evAttributes raw)) then Inl (FbError ''filebackend: too many hook attributes'')
      else if list_ex eventAttributeBad (evAttributes raw) then Inl (FbError ''filebackend: invalid hook attribute'')
      else Inr (raw\<lparr>evVersion := version, evOccurredAtUnixNano := occurred\<rparr>))"

record Core =
  coSequence :: u64
  coCounts :: "(string \<times> u64) list"
  coErrors :: u64
  coLastError :: string

definition sequenceKey :: bytes where "sequenceKey = toBytes ''state/sequence''"
definition errorsKey :: bytes where "errorsKey = toBytes ''state/errors''"
definition lastEventKey :: bytes where "lastEventKey = toBytes ''event/last''"

definition counterKey :: "string \<Rightarrow> bytes" where
  "counterKey operation = toBytes (''counter/'' @ operation)"

definition replaceBackslashes :: "string \<Rightarrow> string" where
  "replaceBackslashes s = map (\<lambda>c. if c = CHR 0x5C then CHR ''/'' else c) s"

definition canonicalRelative :: "string \<Rightarrow> string" where
  "canonicalRelative v =
     (let w = TrimPrefix (TrimSpace (replaceBackslashes v)) ''/'' in if w = ''.'' then [] else w)"

definition qidKey :: "(bytes \<Rightarrow> bytes) \<Rightarrow> string \<Rightarrow> bytes" where
  "qidKey sha relative =
     toBytes (''qid/observed/'' @ hexEncode (sha (toBytes (''qid-observed'' @ [CHR 0x00] @ canonicalRelative relative))))"

definition versionKey :: "(bytes \<Rightarrow> bytes) \<Rightarrow> string \<Rightarrow> bytes" where
  "versionKey sha relative =
     toBytes (''qid/version/'' @ hexEncode (sha (toBytes (''qid-version'' @ [CHR 0x00] @ canonicalRelative relative))))"

definition stablePathID :: "(bytes \<Rightarrow> bytes) \<Rightarrow> string \<Rightarrow> u64" where
  "stablePathID sha relative =
     (let v = decodeUint64 (take 8 (sha (toBytes (''qid-path'' @ [CHR 0x00] @ canonicalRelative relative)))) in if v = 0 then 1 else v)"

definition readUint64 :: "'s FbStore \<Rightarrow> bytes \<Rightarrow> 's \<Rightarrow> fb_error + u64" where
  "readUint64 F key s =
     (case fbGet F key s of
        Inl e \<Rightarrow> Inl e
      | Inr v \<Rightarrow> if length v \<noteq> 8 then Inl (FbError ''filebackend: corrupt uint64 core value'') else Inr (decodeUint64 v))"

definition readUint32 :: "'s FbStore \<Rightarrow> bytes \<Rightarrow> 's \<Rightarrow> fb_error + u32" where
  "readUint32 F key s =
     (case fbGet F key s of
        Inl e \<Rightarrow> Inl e
      | Inr v \<Rightarrow> if length v \<noteq> 4 then Inl (FbError ''filebackend: corrupt uint32 core value'') else Inr (decodeUint32 v))"

fun loadCounts :: "'s FbStore \<Rightarrow> 's \<Rightarrow> string list \<Rightarrow> (string \<times> u64) list \<Rightarrow> fb_error + (string \<times> u64) list" where
  "loadCounts F s [] counts = Inr counts"
| "loadCounts F s (op # ops) counts =
     (case readUint64 F (counterKey op) s of
        Inr v \<Rightarrow> loadCounts F s ops (AList.update op v counts)
      | Inl e \<Rightarrow> if e \<noteq> FbNotFound then Inl e else loadCounts F s ops counts)"

definition loadCore :: "'s FbStore \<Rightarrow> 's \<Rightarrow> u64 \<Rightarrow> fb_error + Core" where
  "loadCore F s sequence =
     (case loadCounts F s allOperations [] of
        Inl e \<Rightarrow> Inl e
      | Inr counts \<Rightarrow>
          (case readUint64 F errorsKey s of
             Inr v \<Rightarrow> Inr \<lparr>coSequence = sequence, coCounts = counts, coErrors = v, coLastError = []\<rparr>
           | Inl e \<Rightarrow> if e \<noteq> FbNotFound then Inl e else Inr \<lparr>coSequence = sequence, coCounts = counts, coErrors = 0, coLastError = []\<rparr>))"

definition NewCore :: "'s FbStore \<Rightarrow> 's \<Rightarrow> fb_error + Core" where
  "NewCore F s =
     (let sequence = readUint64 F sequenceKey s in
      case sequence of
        Inl e \<Rightarrow> if e \<noteq> FbNotFound then Inl e else loadCore F s 0
      | Inr v \<Rightarrow> loadCore F s v)"

definition NextID :: "'s FbStore \<Rightarrow> Core \<times> 's \<Rightarrow> (fb_error + u64) \<times> Core \<times> 's" where
  "NextID F cs = (case cs of (c, s) \<Rightarrow>
     let sequence = coSequence c + 1 in
     case fbPut F sequenceKey (encodeUint64 sequence) s of
       (Some e, s1) \<Rightarrow> (Inl e, c\<lparr>coSequence := sequence - 1, coLastError := fbErrorText e\<rparr>, s1)
     | (None, s1) \<Rightarrow> (Inr sequence, c\<lparr>coSequence := sequence\<rparr>, s1))"

definition putEntry :: "bytes \<Rightarrow> bytes \<Rightarrow> BatchEntry" where
  "putEntry key v = \<lparr>beKey = key, beValue = v, beDelete = False\<rparr>"

text \<open>The stored version of a path, 0 when there is none.\<close>

definition storedVersion :: "'s FbStore \<Rightarrow> bytes \<Rightarrow> 's \<Rightarrow> fb_error + u32" where
  "storedVersion F key s = (case readUint32 F key s of Inl e \<Rightarrow> if e = FbNotFound then Inr 0 else Inl e | Inr v \<Rightarrow> Inr v)"

definition ObserveQID :: "(bytes \<Rightarrow> bytes) \<Rightarrow> 's FbStore \<Rightarrow> string \<Rightarrow> u64 \<Rightarrow> u32 \<Rightarrow> Core \<times> 's \<Rightarrow> fb_error option \<times> Core \<times> 's" where
  "ObserveQID sha F rawRelative path version cs = (case cs of (c, s) \<Rightarrow>
     if path = 0 then (Some (FbError ''filebackend: invalid zero QID path''), c, s)
     else
       let relative = canonicalRelative rawRelative; v = encodeUint64 path @ encodeUint32 version in
       case storedVersion F (versionKey sha relative) s of
         Inl e \<Rightarrow> (Some e, c\<lparr>coLastError := fbErrorText e\<rparr>, s)
       | Inr stored \<Rightarrow>
           let raised = (if stored < version then version else stored); current = (if raised = 0 then 1 else raised) in
           (case fbWrite F [putEntry (qidKey sha relative) v, putEntry (versionKey sha relative) (encodeUint32 current)] s of
              (Some e, s1) \<Rightarrow> (Some e, c\<lparr>coLastError := fbErrorText e\<rparr>, s1)
            | (None, s1) \<Rightarrow> (None, c\<lparr>coLastError := []\<rparr>, s1)))"

text \<open>\<open>QID\<close>; \<open>modified\<close> is the file's modification time in seconds, \<open>None\<close> without a file.\<close>

definition observedQID :: "(bytes \<Rightarrow> bytes) \<Rightarrow> 's FbStore \<Rightarrow> string \<Rightarrow> int option \<Rightarrow> Core \<times> 's \<Rightarrow> u64 \<times> u32 \<times> Core" where
  "observedQID sha F relative modified cs = (case cs of (c, s) \<Rightarrow>
     let pathID = stablePathID sha relative; version = (case modified of None \<Rightarrow> 0 | Some t \<Rightarrow> word_of_int t) in
     case fbGet F (qidKey sha relative) s of
       Inr observed \<Rightarrow>
         if length observed \<noteq> 12 then (pathID, version, c\<lparr>coLastError := ''filebackend: corrupt observed QID value''\<rparr>)
         else (decodeUint64 (take 8 observed), decodeUint32 (drop 8 observed), c)
     | Inl e \<Rightarrow> (pathID, version, if e \<noteq> FbNotFound then c\<lparr>coLastError := fbErrorText e\<rparr> else c))"

definition QID :: "(bytes \<Rightarrow> bytes) \<Rightarrow> 's FbStore \<Rightarrow> string \<Rightarrow> int option \<Rightarrow> Core \<times> 's \<Rightarrow> (u64 \<times> u32) \<times> Core \<times> 's" where
  "QID sha F rawRelative modified cs =
     (let relative = canonicalRelative rawRelative in
      case observedQID sha F relative modified cs of
        (pathID, version, c) \<Rightarrow>
          (case readUint32 F (versionKey sha relative) (snd cs) of
             Inr stored \<Rightarrow> ((pathID, if stored > version then stored else version), c, snd cs)
           | Inl e \<Rightarrow>
               if e = FbNotFound then
                 let v = (if version = 0 then 1 else version) in
                 (case fbPut F (versionKey sha relative) (encodeUint32 v) (snd cs) of
                    (Some err, s1) \<Rightarrow> ((pathID, v), c\<lparr>coLastError := fbErrorText err\<rparr>, s1)
                  | (None, s1) \<Rightarrow> ((pathID, v), c, s1))
               else ((pathID, version), c\<lparr>coLastError := fbErrorText e\<rparr>, snd cs)))"

fun bumpVersions :: "(bytes \<Rightarrow> bytes) \<Rightarrow> 's FbStore \<Rightarrow> 's \<Rightarrow> string list \<Rightarrow> string list \<Rightarrow> fb_error + BatchEntry list" where
  "bumpVersions sha F s seen [] = Inr []"
| "bumpVersions sha F s seen (raw # rest) =
     (let relative = canonicalRelative raw in
      if relative \<in> set seen then bumpVersions sha F s seen rest
      else case storedVersion F (versionKey sha relative) s of
        Inl e \<Rightarrow> Inl e
      | Inr current \<Rightarrow>
          let v = (if current + 1 = 0 then 1 else current + 1) in
          (case bumpVersions sha F s (relative # seen) rest of
             Inl e \<Rightarrow> Inl e
           | Inr es \<Rightarrow> Inr (putEntry (versionKey sha relative) (encodeUint32 v) # es)))"

definition coreCount :: "Core \<Rightarrow> string \<Rightarrow> u64" where
  "coreCount c operation = (case map_of (coCounts c) operation of None \<Rightarrow> 0 | Some v \<Rightarrow> v)"

definition recordEntries :: "bytes \<Rightarrow> FileEvent \<Rightarrow> Core \<Rightarrow> BatchEntry list" where
  "recordEntries payload event c =
     [putEntry (counterKey (evOperation event)) (encodeUint64 (coreCount c (evOperation event) + 1)), putEntry lastEventKey payload]
     @ (if evPhase event = PhaseError then [putEntry errorsKey (encodeUint64 (coErrors c + 1))] else [])"

definition Record ::
  "(bytes \<Rightarrow> bytes) \<Rightarrow> (FileEvent \<Rightarrow> bytes option) \<Rightarrow> int \<Rightarrow> 's FbStore \<Rightarrow> FileEvent \<Rightarrow> string list \<Rightarrow> Core \<times> 's \<Rightarrow> fb_error option \<times> Core \<times> 's" where
  "Record sha marshal now F event mutationPaths cs = (case cs of (c, s) \<Rightarrow>
     case normalizeEvent now event of
       Inl e \<Rightarrow> (Some e, c, s)
     | Inr normalized \<Rightarrow>
     case marshal normalized of
       None \<Rightarrow> (Some (FbError ''json''), c, s)
     | Some payload \<Rightarrow>
     case bumpVersions sha F s [] mutationPaths of
       Inl e \<Rightarrow> (Some e, c\<lparr>coLastError := fbErrorText e\<rparr>, s)
     | Inr versions \<Rightarrow>
         (case fbWrite F (recordEntries payload normalized c @ versions) s of
            (Some e, s1) \<Rightarrow> (Some e, c\<lparr>coLastError := fbErrorText e\<rparr>, s1)
          | (None, s1) \<Rightarrow>
              (None, c\<lparr>coCounts := AList.update (evOperation normalized) (coreCount c (evOperation normalized) + 1) (coCounts c),
                       coErrors := (if evPhase normalized = PhaseError then coErrors c + 1 else coErrors c), coLastError := []\<rparr>, s1)))"

record CoreSnapshot =
  csStore :: string
  csSequence :: u64
  csOperations :: "(string \<times> u64) list"
  csErrors :: u64
  csLastCoreError :: string

definition Core_Snapshot :: "'s FbStore \<Rightarrow> Core \<Rightarrow> CoreSnapshot" where
  "Core_Snapshot F c = \<lparr>csStore = fbName F, csSequence = coSequence c, csOperations = coCounts c, csErrors = coErrors c,
     csLastCoreError = coLastError c\<rparr>"

subsection \<open>What the core needs of its store\<close>

definition applyBatch :: "BatchEntry list \<Rightarrow> kv_map \<Rightarrow> kv_map" where
  "applyBatch es m = fold (\<lambda>e m. if beDelete e then m(beKey e := None) else m(beKey e \<mapsto> beValue e)) es m"

text \<open>
  Batches whose keys are not empty are written as a whole or not at all, and what was written is read.
\<close>

locale fb_store =
  fixes F :: "'s FbStore" and keyok :: "bytes \<Rightarrow> bool" and live :: "'s \<Rightarrow> bool" and view :: "'s \<Rightarrow> kv_map"
  assumes fget: "live s \<Longrightarrow> keyok key \<Longrightarrow> fbGet F key s = (case view s key of None \<Rightarrow> Inl FbNotFound | Some v \<Rightarrow> Inr v)"
    and fwrite: "live s \<Longrightarrow> list_all (\<lambda>e. beKey e \<noteq> []) es \<Longrightarrow> fbWrite F es s = (r, s') \<Longrightarrow>
      live s' \<and> view s' = (if r = None then applyBatch es (view s) else view s)"

lemma writeEntries_batch:
  "list_all (\<lambda>e. beKey e \<noteq> []) es \<Longrightarrow> writeEntries es m = (r, m') \<Longrightarrow> r = None \<and> map_of m' = applyBatch es (map_of m)"
  by (induction es m rule: writeEntries.induct) (auto simp: applyBatch_def update_conv' AList.delete_conv' split: if_splits)

interpretation fbmem: fb_store fbMemory "\<lambda>_. True" "\<lambda>st. \<not> fmClosed st" "\<lambda>st. map_of (fmValues st)"
proof
  fix st es r st'
  assume a: "\<not> fmClosed st" "list_all (\<lambda>e. beKey e \<noteq> []) es" "fbWrite fbMemory es st = (r, st')"
  obtain r' m' where w: "writeEntries es (fmValues st) = (r', m')" by force
  from writeEntries_batch [OF a(2) w] a w
  show "\<not> fmClosed st' \<and> map_of (fmValues st') = (if r = None then applyBatch es (map_of (fmValues st)) else map_of (fmValues st))"
    by (auto simp: fbMemory_def fbMemory_Write_def)
qed (simp add: fbMemory_def fbMemory_Get_def)

lemma writeProg_batch:
  "runTx (writeProg es) (specTx C) m = (None, m') \<Longrightarrow> m' = applyBatch es m"
proof (induction es arbitrary: m)
  case (Cons e es)
  show ?case
  proof (cases "beDelete e")
    case True
    then have "runTx (writeProg es) (specTx C) (m(beKey e := None)) = (None, m')"
      using Cons.prems by (auto simp: specTx_def split: if_splits option.splits)
    from Cons.IH [OF this] True show ?thesis by (simp only: applyBatch_def fold_simps if_True)
  next
    case False
    then have "runTx (writeProg es) (specTx C) (m(beKey e \<mapsto> beValue e)) = (None, m')"
      using Cons.prems by (auto simp: specTx_def split: if_splits option.splits)
    from Cons.IH [OF this] False show ?thesis by (simp only: applyBatch_def fold_simps if_False)
  qed
qed (simp add: applyBatch_def)

locale kv_adapter = kv_store

sublocale kv_adapter \<subseteq> ad: fb_store "adapterStore S" "\<lambda>key. ckGet C key = None" live view
proof
  fix s key
  assume "live s" "ckGet C key = None"
  then show "fbGet (adapterStore S) key s = (case view s key of None \<Rightarrow> Inl FbNotFound | Some v \<Rightarrow> Inr v)"
    by (cases "view s key") (simp_all add: adapterStore_def adapter_Get_def get_law specTx_def lookupResult_def)
next
  fix s es r s'
  assume l: "live s" and "fbWrite (adapterStore S) es s = (r, s')"
  then obtain e where e: "stUpdate S None (Some (runTx (writeProg es))) s = (e, s')" "r = map_option FbStorage e"
    by (auto simp: adapterStore_def adapter_Write_def split: prod.splits)
  show "live s' \<and> view s' = (if r = None then applyBatch es (view s) else view s)"
    using update_law [OF l e(1)] writeProg_batch e(2) by (cases e) auto
qed

interpretation fbfile: kv_adapter "boundedStore config (fileEngine js)" "boundedChecks config memoryChecks"
    "\<lambda>st. file_live st \<and> fits config (file_view st)" file_view for js config
  by unfold_locales

subsection \<open>Identifiers never repeat\<close>

text \<open>
  The operations of a core in any order, with restarts of the process that open the store again by
  \<open>reopen\<close> and load a new core from it. A restart that cannot load a core leaves the old one running.
\<close>

datatype core_op =
    OpNextID
  | OpObserve string u64 u32
  | OpQID string "int option"
  | OpRecord FileEvent "string list" int
  | OpRestart

definition coreStep ::
  "(bytes \<Rightarrow> bytes) \<Rightarrow> (FileEvent \<Rightarrow> bytes option) \<Rightarrow> ('s \<Rightarrow> 's) \<Rightarrow> 's FbStore \<Rightarrow> core_op \<Rightarrow> Core \<times> 's \<Rightarrow> u64 list \<times> Core \<times> 's" where
  "coreStep sha marshal reopen F op cs =
     (case op of
        OpNextID \<Rightarrow> (case NextID F cs of (Inr i, cs') \<Rightarrow> ([i], cs') | (Inl e, cs') \<Rightarrow> ([], cs'))
      | OpObserve p i v \<Rightarrow> ([], snd (ObserveQID sha F p i v cs))
      | OpQID p t \<Rightarrow> ([], snd (QID sha F p t cs))
      | OpRecord event paths now \<Rightarrow> ([], snd (Record sha marshal now F event paths cs))
      | OpRestart \<Rightarrow> ([], case NewCore F (reopen (snd cs)) of Inr c \<Rightarrow> (c, reopen (snd cs)) | Inl e \<Rightarrow> (fst cs, reopen (snd cs))))"

primrec runCore ::
  "(bytes \<Rightarrow> bytes) \<Rightarrow> (FileEvent \<Rightarrow> bytes option) \<Rightarrow> ('s \<Rightarrow> 's) \<Rightarrow> 's FbStore \<Rightarrow> core_op list \<Rightarrow> Core \<times> 's \<Rightarrow> u64 list \<times> Core \<times> 's" where
  "runCore sha marshal reopen F [] cs = ([], cs)"
| "runCore sha marshal reopen F (op # ops) cs =
     (case coreStep sha marshal reopen F op cs of
        (ids, cs') \<Rightarrow> (case runCore sha marshal reopen F ops cs' of (ids', cs'') \<Rightarrow> (ids @ ids', cs'')))"

text \<open>The other keys of the core.\<close>

lemma other_keys:
  "qidKey sha p \<noteq> sequenceKey" "versionKey sha p \<noteq> sequenceKey" "counterKey op \<noteq> sequenceKey" "errorsKey \<noteq> sequenceKey"
  "lastEventKey \<noteq> sequenceKey" "sequenceKey \<noteq> []" "qidKey sha p \<noteq> []" "versionKey sha p \<noteq> []" "counterKey op \<noteq> []" "errorsKey \<noteq> []"
  "lastEventKey \<noteq> []"
  by (auto simp: qidKey_def versionKey_def counterKey_def errorsKey_def lastEventKey_def sequenceKey_def toBytes_def)

definition elsewhereBatch :: "BatchEntry list \<Rightarrow> bool" where
  "elsewhereBatch es = list_all (\<lambda>e. beKey e \<noteq> [] \<and> beKey e \<noteq> sequenceKey) es"

lemma elsewhereBatch_apply: "elsewhereBatch es \<Longrightarrow> applyBatch es m sequenceKey = m sequenceKey"
  unfolding applyBatch_def by (induction es arbitrary: m) (auto simp: elsewhereBatch_def)

lemma elsewhereBatch_keys: "elsewhereBatch es \<Longrightarrow> list_all (\<lambda>e. beKey e \<noteq> []) es"
  by (auto simp: elsewhereBatch_def list_all_iff)

lemma elsewhereBatch_bump: "bumpVersions sha F s seen ps = Inr es \<Longrightarrow> elsewhereBatch es"
proof (induction sha F s seen ps arbitrary: es rule: bumpVersions.induct)
  case (2 sha F s seen raw rest)
  then show ?case by (auto simp: Let_def elsewhereBatch_def putEntry_def other_keys split: if_splits sum.splits)
qed (simp add: elsewhereBatch_def)

lemma elsewhereBatch_record: "elsewhereBatch (recordEntries payload event c)"
  by (auto simp: elsewhereBatch_def recordEntries_def putEntry_def other_keys)

text \<open>Every operation but \<open>NextID\<close> keeps the sequence number, in the core and in the store.\<close>

definition aside :: "'s FbStore \<Rightarrow> Core \<Rightarrow> 's \<Rightarrow> Core \<Rightarrow> 's \<Rightarrow> bool" where
  "aside F c s c' s' = (coSequence c' = coSequence c \<and> (s' = s \<or> (\<exists>es r. elsewhereBatch es \<and> fbWrite F es s = (r, s'))))"

lemma aside_write:
  "fbWrite F es s = (r, s') \<Longrightarrow> elsewhereBatch es \<Longrightarrow> coSequence c' = coSequence c \<Longrightarrow> aside F c s c' s'"
  by (auto simp: aside_def)

lemma aside_same: "coSequence c' = coSequence c \<Longrightarrow> aside F c s c' s"
  by (simp add: aside_def)

lemma elsewhereBatch_puts: "elsewhereBatch [putEntry (qidKey sha p) v, putEntry (versionKey sha p) w]" "elsewhereBatch [putEntry (versionKey sha p) w]"
  by (simp_all add: elsewhereBatch_def putEntry_def other_keys)

lemma elsewhereBatch_Record: "bumpVersions sha F s seen ps = Inr es \<Longrightarrow> elsewhereBatch (recordEntries payload event c @ es)"
  using elsewhereBatch_bump elsewhereBatch_record by (simp add: elsewhereBatch_def)

lemma aside_ops:
  "ObserveQID sha F p i v (c, s) = (r, c', s') \<Longrightarrow> aside F c s c' s'"
  "QID sha F p t (c, s) = (q, c', s') \<Longrightarrow> aside F c s c' s'"
  "Record sha marshal now F event paths (c, s) = (r, c', s') \<Longrightarrow> aside F c s c' s'"
proof -
  show "aside F c s c' s'" if "ObserveQID sha F p i v (c, s) = (r, c', s')"
    using that by (auto simp: ObserveQID_def Let_def split: if_splits sum.splits option.splits prod.splits
      intro: aside_same aside_write [OF _ elsewhereBatch_puts(1)])
  show "aside F c s c' s'" if "QID sha F p t (c, s) = (q, c', s')"
  proof -
    obtain pid ver c1 where o: "observedQID sha F (canonicalRelative p) t (c, s) = (pid, ver, c1)" using prod_cases3 by blast
    have "coSequence c1 = coSequence c" using o by (auto simp: observedQID_def Let_def split: sum.splits if_splits)
    then show ?thesis
      using that o by (auto simp: QID_def Let_def fbPut_def putEntry_def [symmetric] split: if_splits sum.splits option.splits prod.splits
        intro: aside_same aside_write [OF _ elsewhereBatch_puts(2)])
  qed
  show "aside F c s c' s'" if "Record sha marshal now F event paths (c, s) = (r, c', s')"
    using that by (auto simp: Record_def split: sum.splits option.splits prod.splits intro: aside_same aside_write [OF _ elsewhereBatch_Record])
qed

locale fb_core = fb_store +
  fixes reopen :: "'a \<Rightarrow> 'a"
  assumes reopen_law: "live s \<Longrightarrow> live (reopen s) \<and> view (reopen s) = view s"
    and sequence_ok: "keyok sequenceKey"
begin

definition core_inv :: "Core \<times> 'a \<Rightarrow> bool" where
  "core_inv cs = (live (snd cs) \<and>
     (case view (snd cs) sequenceKey of None \<Rightarrow> coSequence (fst cs) = 0 | Some v \<Rightarrow> v = encodeUint64 (coSequence (fst cs))))"

lemma core_inv_iff:
  "core_inv (c, s) \<longleftrightarrow> live s \<and> (view s sequenceKey = None \<and> coSequence c = 0 \<or> view s sequenceKey = Some (encodeUint64 (coSequence c)))"
  by (auto simp: core_inv_def split: option.splits)

lemma write_elsewhere:
  assumes "core_inv (c, s)" "elsewhereBatch es" "fbWrite F es s = (r, s')" "coSequence c' = coSequence c"
  shows "core_inv (c', s')"
  using assms fwrite [OF _ elsewhereBatch_keys [OF assms(2)] assms(3)] elsewhereBatch_apply [OF assms(2)]
  by (auto simp: core_inv_iff split: option.splits)

lemma NextID_inv:
  assumes "core_inv (c, s)" "NextID F (c, s) = (r, c', s')"
  shows "core_inv (c', s')" "r = Inr i \<Longrightarrow> i = coSequence c + 1 \<and> coSequence c' = i" "r = Inl e \<Longrightarrow> coSequence c' = coSequence c"
proof -
  obtain x s1 where w: "fbPut F sequenceKey (encodeUint64 (coSequence c + 1)) s = (x, s1)" by force
  have l: "live s" using assms(1) by (simp add: core_inv_iff)
  have v: "live s1 \<and> view s1 = (if x = None then (view s)(sequenceKey \<mapsto> encodeUint64 (coSequence c + 1)) else view s)"
    using fwrite [OF l _ w [unfolded fbPut_def]] by (simp add: other_keys applyBatch_def)
  show "core_inv (c', s')" using assms w v by (auto simp: NextID_def core_inv_iff Let_def split: option.splits)
  show "r = Inr i \<Longrightarrow> i = coSequence c + 1 \<and> coSequence c' = i" using assms w by (auto simp: NextID_def Let_def split: option.splits)
  show "r = Inl e \<Longrightarrow> coSequence c' = coSequence c" using assms w by (auto simp: NextID_def Let_def split: option.splits)
qed

lemma aside_inv: "core_inv (c, s) \<Longrightarrow> aside F c s c' s' \<Longrightarrow> core_inv (c', s')"
proof -
  assume i: "core_inv (c, s)" and a: "aside F c s c' s'"
  then have q: "coSequence c' = coSequence c" by (simp add: aside_def)
  show ?thesis
  proof (cases "s' = s")
    case True
    then show ?thesis using i q by (simp add: core_inv_iff)
  next
    case False
    then obtain es r where "elsewhereBatch es" "fbWrite F es s = (r, s')" using a by (auto simp: aside_def)
    then show ?thesis using write_elsewhere [OF i _ _ q] by blast
  qed
qed

lemma restart_inv:
  assumes "core_inv (c, s)" "NewCore F (reopen s) = Inr c'"
  shows "core_inv (c', reopen s) \<and> coSequence c' = coSequence c"
proof -
  have l: "live (reopen s)" "view (reopen s) = view s" using assms(1) reopen_law by (auto simp: core_inv_iff)
  have "readUint64 F sequenceKey (reopen s) = (case view s sequenceKey of None \<Rightarrow> Inl FbNotFound | Some v \<Rightarrow> Inr (coSequence c))"
    using assms(1) fget [OF l(1) sequence_ok] l(2) by (auto simp: readUint64_def core_inv_iff split: option.splits)
  then have "coSequence c' = coSequence c"
    using assms by (auto simp: NewCore_def loadCore_def core_inv_iff Let_def split: option.splits sum.splits if_splits)
  then show ?thesis using assms(1) l by (simp add: core_inv_iff)
qed

lemma coreStep_inv:
  assumes "core_inv (c, s)" "coreStep sha marshal reopen F op (c, s) = (ids, c', s')"
  shows "core_inv (c', s') \<and> (ids = [] \<and> coSequence c' = coSequence c \<or> ids = [coSequence c + 1] \<and> coSequence c' = coSequence c + 1)"
proof (cases op)
  case OpNextID
  obtain r c1 s1 where n: "NextID F (c, s) = (r, c1, s1)" using prod_cases3 by blast
  show ?thesis using assms(2) OpNextID n NextID_inv [OF assms(1) n] by (cases r) (auto simp: coreStep_def)
next
  case OpRestart
  show ?thesis
  proof (cases "NewCore F (reopen s)")
    case (Inl e)
    then have "ids = []" "c' = c" "s' = reopen s" using assms(2) OpRestart by (simp_all add: coreStep_def)
    then show ?thesis using assms(1) reopen_law by (auto simp: core_inv_iff)
  next
    case (Inr d)
    then have "ids = []" "c' = d" "s' = reopen s" using assms(2) OpRestart by (simp_all add: coreStep_def)
    then show ?thesis using restart_inv [OF assms(1) Inr] by simp
  qed
next
  case (OpObserve p i v)
  then have a: "aside F c s c' s'" "ids = []" using assms(2) aside_ops(1) [of sha F p i v c s "fst (ObserveQID sha F p i v (c, s))"] by (auto simp: coreStep_def prod_eq_iff)
  then show ?thesis using aside_inv [OF assms(1) a(1)] by (simp add: aside_def)
next
  case (OpQID p t)
  then have a: "aside F c s c' s'" "ids = []" using assms(2) aside_ops(2) [of sha F p t c s "fst (QID sha F p t (c, s))"] by (auto simp: coreStep_def prod_eq_iff)
  then show ?thesis using aside_inv [OF assms(1) a(1)] by (simp add: aside_def)
next
  case (OpRecord event paths now)
  then have a: "aside F c s c' s'" "ids = []" using assms(2) aside_ops(3) [of sha marshal now F event paths c s "fst (Record sha marshal now F event paths (c, s))"] by (auto simp: coreStep_def prod_eq_iff)
  then show ?thesis using aside_inv [OF assms(1) a(1)] by (simp add: aside_def)
qed

lemma runCore_ids:
  assumes "core_inv (c, s)" "runCore sha marshal reopen F ops (c, s) = (ids, c', s')" "unat (coSequence c) + length ops < 2 ^ 64"
  shows "sorted_wrt (<) ids \<and> (\<forall>i \<in> set ids. coSequence c < i)"
  using assms
proof (induction ops arbitrary: c s ids)
  case (Cons op ops)
  obtain ids1 c1 s1 where st: "coreStep sha marshal reopen F op (c, s) = (ids1, c1, s1)" using prod_cases3 by blast
  obtain ids2 where r: "runCore sha marshal reopen F ops (c1, s1) = (ids2, c', s')" "ids = ids1 @ ids2"
    using Cons.prems(2) st by (auto split: prod.splits)
  have n: "unat (coSequence c) + 1 < 2 ^ 64" using Cons.prems(3) by simp
  have up: "unat (coSequence c + 1) = unat (coSequence c) + 1" using n by (simp add: unat_word_ariths)
  then have lt: "coSequence c < coSequence c + 1" by (simp add: word_less_nat_alt)
  note step = coreStep_inv [OF Cons.prems(1) st]
  show ?case
  proof (cases "ids1 = []")
    case True
    then have q: "coSequence c1 = coSequence c" "core_inv (c1, s1)" using step by auto
    then show ?thesis using Cons.IH [OF q(2) r(1)] Cons.prems(3) r(2) True by simp
  next
    case False
    then have q: "ids1 = [coSequence c + 1]" "coSequence c1 = coSequence c + 1" "core_inv (c1, s1)" using step by auto
    have "sorted_wrt (<) ids2 \<and> (\<forall>i \<in> set ids2. coSequence c1 < i)" using Cons.IH [OF q(3) r(1)] Cons.prems(3) q(2) up by simp
    then show ?thesis using r(2) q lt by (auto intro: less_trans)
  qed
qed simp

end

text \<open>
  The core on the file engine. A restart reads the file again; the writes of the script may fail in any
  way that does not lose the file.
\<close>

definition reopenFile :: "file_json \<Rightarrow> go_time \<Rightarrow> StoreConfig \<Rightarrow> fileStore \<Rightarrow> fileStore" where
  "reopenFile js now config st = (case openFile js now config (fsDisk st) (fsScript st) of Inr st2 \<Rightarrow> st2 | Inl e \<Rightarrow> st)"

definition core_live :: "file_json \<Rightarrow> StoreConfig \<Rightarrow> fileStore \<Rightarrow> bool" where
  "core_live js config st = (file_json_faithful js \<and> (file_live st \<and> fits config (file_view st)) \<and> durable js st
     \<and> list_all replaces (fsScript st) \<and> int (length sequenceKey) \<le> cfMaxKeyBytes config)"

lemma reopenFile_live:
  assumes "core_live js config st"
  shows "core_live js config (reopenFile js now config st) \<and> file_view (reopenFile js now config st) = file_view st"
proof -
  obtain payload m where "fsDisk st = Some payload" "loadPayload js payload = Inr m" "distinct (map fst m)" "map_of m = file_view st"
    using assms by (auto simp: core_live_def durable_def)
  then show ?thesis using assms
    by (auto simp: reopenFile_def openFile_def core_live_def file_live_def file_view_def durable_def Let_def)
qed

interpretation filec: fb_core "adapterStore (boundedStore config (fileEngine js))" "\<lambda>key. key = sequenceKey" "core_live js config" file_view
    "reopenFile js now config" for js config now
proof
  fix st key
  assume l: "core_live js config st" and k: "key = sequenceKey"
  then have "ckGet (boundedChecks config memoryChecks) key = None"
    using other_keys(6) by (simp add: core_live_def boundedChecks_def memoryChecks_def validateKey_def)
  then show "fbGet (adapterStore (boundedStore config (fileEngine js))) key st = (case file_view st key of None \<Rightarrow> Inl FbNotFound | Some v \<Rightarrow> Inr v)"
    using fbfile.ad.fget l by (simp add: core_live_def)
next
  fix st es r st'
  assume l: "core_live js config st" and ne: "list_all (\<lambda>e. beKey e \<noteq> []) es"
    and w: "fbWrite (adapterStore (boundedStore config (fileEngine js))) es st = (r, st')"
  then obtain e where e: "stUpdate (boundedStore config (fileEngine js)) None (Some (runTx (writeProg es))) st = (e, st')"
    by (auto simp: adapterStore_def adapter_Write_def split: prod.splits)
  have d: "durable js st' \<and> list_all replaces (fsScript st')"
    using update_durable [OF _ _ _ _ e] l by (simp add: core_live_def)
  show "core_live js config st' \<and> file_view st' = (if r = None then applyBatch es (file_view st) else file_view st)"
    using fbfile.ad.fwrite [OF _ ne w] l d unfolding core_live_def by blast
qed (use reopenFile_live in blast)+

text \<open>
  C26: A core on a file store that was made anew and takes keys of 14 bytes: through restarts and failed
  writes, except one whose two renames both fail, and between any other operations, every identifier
  \<open>NextID\<close> returns is larger than all before it, until the 64-bit counter is used up.
\<close>

theorem core_ids_fresh:
  assumes "file_json_faithful js" "openFile js now config None script = Inr st" "list_all replaces script" "14 \<le> cfMaxKeyBytes config"
    "NewCore (adapterStore (boundedStore config (fileEngine js))) st = Inr c"
    "runCore sha marshal (reopenFile js now config) (adapterStore (boundedStore config (fileEngine js))) ops (c, st) = (ids, cs)"
    "int (length ops) < 2 ^ 64"
  shows "sorted_wrt (<) ids \<and> 0 \<notin> set ids"
proof -
  have f: "file_live st \<and> fits config (file_view st) \<and> durable js st \<and> list_all replaces (fsScript st) \<and> file_view st = Map.empty"
    by (rule openFile_fresh [OF assms(1-3)])
  have "length sequenceKey = 14" by (simp add: sequenceKey_def)
  then have l: "core_live js config st" using f assms(1,4) by (simp add: core_live_def)
  have "readUint64 (adapterStore (boundedStore config (fileEngine js))) sequenceKey st = Inl FbNotFound"
    using filec.fget [OF l refl] f by (simp add: readUint64_def)
  then have z: "coSequence c = 0" using assms(5) by (auto simp: NewCore_def loadCore_def Let_def split: sum.splits if_splits)
  have i: "filec.core_inv js config (c, st)" using l f z by (simp add: filec.core_inv_iff)
  obtain c' st' where cs: "cs = (c', st')" by force
  have "unat (coSequence c) + length ops < 2 ^ 64" using z assms(7) by simp
  from filec.runCore_ids [OF i assms(6) [unfolded cs] this] z show ?thesis by auto
qed

definition demo_ops :: "core_op list" where
  "demo_ops = [OpNextID, OpNextID, OpRestart, OpObserve ''a'' 7 3, OpNextID]"

definition demo_core_config :: StoreConfig where "demo_core_config = demo_file_config"

definition demo_fresh :: fileStore where
  "demo_fresh = (case openFile demo_file_json 0 demo_core_config None [io_fine, io_fine, io_fine\<lparr>ioSync := Some StorePanic\<rparr>] of Inr st \<Rightarrow> st)"

definition demo_fresh_core :: Core where
  "demo_fresh_core = \<lparr>coSequence = 0, coCounts = [], coErrors = 0, coLastError = []\<rparr>"

lemma demo_fresh_opens: "openFile demo_file_json 0 demo_core_config None [io_fine, io_fine, io_fine\<lparr>ioSync := Some StorePanic\<rparr>] = Inr demo_fresh"
proof -
  have "\<not> isl (openFile demo_file_json 0 demo_core_config None [io_fine, io_fine, io_fine\<lparr>ioSync := Some StorePanic\<rparr>])" by code_simp
  then show ?thesis by (auto simp: demo_fresh_def split: sum.splits)
qed

theorem core_ids_fresh_witness:
  "\<exists>ids cs. runCore id (\<lambda>_. None) (reopenFile demo_file_json 0 demo_core_config)
     (adapterStore (boundedStore demo_core_config (fileEngine demo_file_json))) demo_ops (demo_fresh_core, demo_fresh) = (ids, cs)
   \<and> sorted_wrt (<) ids \<and> 0 \<notin> set ids"
proof -
  let ?F = "adapterStore (boundedStore demo_core_config (fileEngine demo_file_json))"
  obtain ids cs where r: "runCore id (\<lambda>_. None) (reopenFile demo_file_json 0 demo_core_config) ?F demo_ops (demo_fresh_core, demo_fresh) = (ids, cs)"
    by (metis surj_pair)
  have "list_all replaces [io_fine, io_fine, io_fine\<lparr>ioSync := Some StorePanic\<rparr>]" by code_simp
  moreover have "14 \<le> cfMaxKeyBytes demo_core_config" by code_simp
  moreover have "NewCore ?F demo_fresh = Inr demo_fresh_core" by code_simp
  moreover have "int (length demo_ops) < 2 ^ 64" by (simp add: demo_ops_def)
  ultimately show ?thesis using core_ids_fresh [OF demo_file_json_faithful demo_fresh_opens _ _ _ r] r by blast
qed

end
