(* ===== verification/File_Hooks.thy ===== *)
theory File_Hooks
  imports File_Core
begin

text \<open>
  The hooks of the file service, \<open>filebackend/hooks.go\<close>. The registry's nested maps are one association
  list with operation and phase as the key. What \<open>invokeHook\<close> returns for a hook, be it the handler's
  answer, its panic or the end of its time, is the parameter \<open>invoke\<close>. A run is the error it returns,
  the failures it reports and the hooks it invoked.

  Shown: the hooks of an operation are invoked in the order of their priority and then of their
  registration; an operation is vetoed exactly when an enforcing hook fails, and only before it takes
  place; other failures are reported and stop nothing.
\<close>

abbreviation "ModeObserve \<equiv> ''observe''"
abbreviation "ModeEnforce \<equiv> ''enforce''"

record Hook =
  hkOperation :: string
  hkPhase :: string
  hkPriority :: int
  hkMode :: string
  hkTimeout :: go_duration
  hkMaxParallel :: int
  hkHandler :: "nat option"

record registeredHook =
  rhHook :: Hook
  rhOrder :: nat

record HookRegistry =
  hrHooks :: "((string \<times> string) \<times> registeredHook list) list"
  hrNextOrder :: nat

definition NewHookRegistry :: HookRegistry where
  "NewHookRegistry = \<lparr>hrHooks = [], hrNextOrder = 0\<rparr>"

definition normalizeHook :: "Hook \<Rightarrow> fb_error + Hook" where
  "normalizeHook raw =
     (let phase = (if hkPhase raw = [] then PhaseBefore else hkPhase raw);
          mode = (if hkMode raw = [] then ModeObserve else hkMode raw);
          timeout = (if hkTimeout raw \<le> 0 then 2 * go_second else hkTimeout raw);
          parallel = (if hkMaxParallel raw \<le> 0 then 1 else hkMaxParallel raw) in
      if \<not> Operation_valid (hkOperation raw) then Inl (FbError ''filebackend: invalid hook operation'')
      else if phase \<noteq> PhaseBefore \<and> phase \<noteq> PhaseAfter \<and> phase \<noteq> PhaseError then Inl (FbError ''filebackend: invalid hook phase'')
      else if hkHandler raw = None then Inl (FbError ''filebackend: hook handler is required'')
      else if mode \<noteq> ModeObserve \<and> mode \<noteq> ModeEnforce then Inl (FbError ''filebackend: invalid hook mode'')
      else if mode = ModeEnforce \<and> phase \<noteq> PhaseBefore then Inl (FbError ''filebackend: enforce hooks are valid only in the before phase'')
      else if timeout > 60 * go_second then Inl (FbError ''filebackend: hook timeout exceeds one minute'')
      else if parallel > 64 then Inl (FbError ''filebackend: hook max_parallel exceeds 64'')
      else Inr (raw\<lparr>hkPhase := phase, hkMode := mode, hkTimeout := timeout, hkMaxParallel := parallel\<rparr>))"

definition hookLess :: "registeredHook \<Rightarrow> registeredHook \<Rightarrow> bool" where
  "hookLess a b =
     (if hkPriority (rhHook a) \<noteq> hkPriority (rhHook b) then hkPriority (rhHook a) < hkPriority (rhHook b) else rhOrder a < rhOrder b)"

definition hooksFor :: "HookRegistry \<Rightarrow> string \<Rightarrow> string \<Rightarrow> registeredHook list" where
  "hooksFor r operation phase = (case map_of (hrHooks r) (operation, phase) of None \<Rightarrow> [] | Some hs \<Rightarrow> hs)"

definition hookCount :: "HookRegistry \<Rightarrow> nat" where
  "hookCount r = (\<Sum>(k, hs) \<leftarrow> hrHooks r. length hs)"

definition Hooks_Register :: "Hook \<Rightarrow> HookRegistry \<Rightarrow> fb_error option \<times> HookRegistry" where
  "Hooks_Register hook r =
     (case normalizeHook hook of
        Inl e \<Rightarrow> (Some e, r)
      | Inr normalized \<Rightarrow>
          if 128 \<le> int (hookCount r) then (Some (FbError ''filebackend: hook registry exceeds 128 hooks''), r)
          else
            let order = Suc (hrNextOrder r); entry = \<lparr>rhHook = normalized, rhOrder = order\<rparr>;
                key = (hkOperation normalized, hkPhase normalized) in
            (None, r\<lparr>hrHooks := AList.update key (insertionSort hookLess (hooksFor r (hkOperation normalized) (hkPhase normalized) @ [entry])) (hrHooks r),
                     hrNextOrder := order\<rparr>))"

definition Hooks_Empty :: "HookRegistry \<Rightarrow> bool" where
  "Hooks_Empty r = list_all (\<lambda>(k, hs). hs = []) (hrHooks r)"

record HookRun =
  hxError :: "fb_error option"
  hxFailures :: "(registeredHook \<times> fb_error) list"
  hxInvoked :: "registeredHook list"

fun runHooks :: "(registeredHook \<Rightarrow> FileEvent \<Rightarrow> fb_error option) \<Rightarrow> FileEvent \<Rightarrow> registeredHook list \<Rightarrow> HookRun" where
  "runHooks invoke event [] = \<lparr>hxError = None, hxFailures = [], hxInvoked = []\<rparr>"
| "runHooks invoke event (entry # entries) =
     (case invoke entry event of
        None \<Rightarrow> (let r = runHooks invoke event entries in r\<lparr>hxInvoked := entry # hxInvoked r\<rparr>)
      | Some e \<Rightarrow>
          if hkMode (rhHook entry) = ModeEnforce then
            \<lparr>hxError = Some (FbError (''filebackend: '' @ evOperation event @ '' '' @ evPhase event @ '' hook vetoed operation: '' @ fbErrorText e)),
             hxFailures = [(entry, e)], hxInvoked = [entry]\<rparr>
          else (let r = runHooks invoke event entries in r\<lparr>hxFailures := (entry, e) # hxFailures r, hxInvoked := entry # hxInvoked r\<rparr>))"

definition Hooks_Run :: "int \<Rightarrow> (registeredHook \<Rightarrow> FileEvent \<Rightarrow> fb_error option) \<Rightarrow> FileEvent \<Rightarrow> HookRegistry \<Rightarrow> HookRun" where
  "Hooks_Run now invoke event r =
     (case normalizeEvent now event of
        Inl e \<Rightarrow> \<lparr>hxError = Some e, hxFailures = [], hxInvoked = []\<rparr>
      | Inr normalized \<Rightarrow> runHooks invoke normalized (hooksFor r (evOperation normalized) (evPhase normalized)))"

subsection \<open>The registry\<close>

primrec registerHooks :: "Hook list \<Rightarrow> HookRegistry \<Rightarrow> HookRegistry" where
  "registerHooks [] r = r"
| "registerHooks (h # hs) r = registerHooks hs (snd (Hooks_Register h r))"

lemma hookLess_order: "weak_order hookLess"
  by (auto simp: weak_order_def hookLess_def split: if_splits)

definition hooks_inv :: "HookRegistry \<Rightarrow> bool" where
  "hooks_inv r = (\<forall>operation phase. sorted_wrt (\<lambda>a b. \<not> hookLess b a) (hooksFor r operation phase)
     \<and> distinct (map rhOrder (hooksFor r operation phase))
     \<and> (\<forall>h \<in> set (hooksFor r operation phase). rhOrder h \<le> hrNextOrder r \<and> (hkMode (rhHook h) = ModeEnforce \<longrightarrow> phase = PhaseBefore)))"

lemma sorted_hookLess:
  "sorted_wrt (\<lambda>a b. \<not> hookLess b a) hs \<Longrightarrow> distinct (map rhOrder hs) \<Longrightarrow> sorted_wrt hookLess hs"
proof (induction hs)
  case (Cons a hs)
  have "hookLess a b" if "b \<in> set hs" for b
  proof -
    have "\<not> hookLess b a" "rhOrder a \<noteq> rhOrder b" using Cons.prems that by auto
    then show ?thesis by (auto simp: hookLess_def split: if_splits)
  qed
  then show ?case using Cons by simp
qed simp

lemma normalizeHook_enforce:
  "normalizeHook raw = Inr h \<Longrightarrow> hkMode h = ModeEnforce \<Longrightarrow> hkPhase h = PhaseBefore"
  unfolding normalizeHook_def Let_def guards by auto

lemma Hooks_Register_inv:
  assumes "hooks_inv r"
  shows "hooks_inv (snd (Hooks_Register hook r))"
proof (cases "fst (Hooks_Register hook r) = None")
  case True
  then obtain h where h: "normalizeHook hook = Inr h" by (auto simp: Hooks_Register_def split: sum.splits)
  define e where "e = \<lparr>rhHook = h, rhOrder = Suc (hrNextOrder r)\<rparr>"
  define r' where "r' = snd (Hooks_Register hook r)"
  let ?old = "hooksFor r (hkOperation h) (hkPhase h)"
  let ?new = "insertionSort hookLess (?old @ [e])"
  have r': "hooksFor r' operation phase = (if operation = hkOperation h \<and> phase = hkPhase h then ?new else hooksFor r operation phase)"
      "hrNextOrder r' = Suc (hrNextOrder r)" for operation phase
    using True h by (auto simp: r'_def Hooks_Register_def Let_def hooksFor_def update_conv' e_def split: if_splits)
  have old: "distinct (map rhOrder ?old)" "\<forall>k \<in> set ?old. rhOrder k \<le> hrNextOrder r \<and> (hkMode (rhHook k) = ModeEnforce \<longrightarrow> hkPhase h = PhaseBefore)"
    using assms by (auto simp: hooks_inv_def)
  note srt = sort_slice_insertionSort hookLess_order
  have st: "set ?new = insert e (set ?old)" using sort_slice_set(1) [OF srt, of "?old @ [e]"] by simp
  have "distinct (map rhOrder ?new)" using sort_slice_distinct [OF srt, of rhOrder "?old @ [e]"] old by (auto simp: e_def)
  moreover have "sorted_wrt (\<lambda>a b. \<not> hookLess b a) ?new" by (rule sort_sliceD(2) [OF srt])
  moreover have "\<forall>k \<in> set ?new. rhOrder k \<le> Suc (hrNextOrder r) \<and> (hkMode (rhHook k) = ModeEnforce \<longrightarrow> hkPhase h = PhaseBefore)"
    unfolding st using old(2) normalizeHook_enforce [OF h] by (auto simp: e_def)
  ultimately show ?thesis using assms unfolding r'_def [symmetric] by (auto simp: hooks_inv_def r' le_SucI)
next
  case False
  then have "snd (Hooks_Register hook r) = r" by (auto simp: Hooks_Register_def Let_def split: sum.splits if_splits)
  then show ?thesis using assms by simp
qed

lemma registerHooks_inv: "hooks_inv r \<Longrightarrow> hooks_inv (registerHooks hs r)"
  by (induction hs arbitrary: r) (auto simp: Hooks_Register_inv)

text \<open>
  The registry as a list: the first 128 hooks that are valid, normalised, numbered from one in the order of
  their registration.
\<close>

definition validHooks :: "Hook list \<Rightarrow> Hook list" where
  "validHooks hooks = take 128 (List.map_filter (\<lambda>h. case normalizeHook h of Inl e \<Rightarrow> None | Inr n \<Rightarrow> Some n) hooks)"

definition registeredEntries :: "Hook list \<Rightarrow> registeredHook list" where
  "registeredEntries hooks = map (\<lambda>(i, h). \<lparr>rhHook = h, rhOrder = i\<rparr>) (enumerate 1 (validHooks hooks))"

lemma validHooks_snoc:
  "validHooks (hooks @ [h]) = (case normalizeHook h of Inl e \<Rightarrow> validHooks hooks
     | Inr n \<Rightarrow> if length (validHooks hooks) < 128 then validHooks hooks @ [n] else validHooks hooks)"
  by (auto simp: validHooks_def map_filter_def split: sum.splits)

lemma registeredEntries_snoc:
  "validHooks (hooks @ [h]) = validHooks hooks @ [n] \<Longrightarrow>
   registeredEntries (hooks @ [h]) = registeredEntries hooks @ [\<lparr>rhHook = n, rhOrder = Suc (length (validHooks hooks))\<rparr>]"
  by (simp add: registeredEntries_def enumerate_append_eq)

lemma update_lengths:
  "(\<Sum>(k, hs) \<leftarrow> AList.update key new xs. length hs) + length (case map_of xs key of None \<Rightarrow> [] | Some hs \<Rightarrow> hs)
   = (\<Sum>(k, hs) \<leftarrow> xs. length hs) + length new"
  by (induction xs) auto

lemma Hooks_Register_ok:
  assumes n: "normalizeHook hook = Inr h" and c: "hookCount r < 128"
  defines "entry \<equiv> \<lparr>rhHook = h, rhOrder = Suc (hrNextOrder r)\<rparr>" and "r' \<equiv> snd (Hooks_Register hook r)"
  shows "hookCount r' = Suc (hookCount r)" "hrNextOrder r' = Suc (hrNextOrder r)"
    "set (hooksFor r' operation phase) = set (hooksFor r operation phase)
       \<union> (if operation = hkOperation h \<and> phase = hkPhase h then {entry} else {})"
proof -
  let ?key = "(hkOperation h, hkPhase h)"
  let ?new = "insertionSort hookLess (hooksFor r (hkOperation h) (hkPhase h) @ [entry])"
  have r': "r' = r\<lparr>hrHooks := AList.update ?key ?new (hrHooks r), hrNextOrder := Suc (hrNextOrder r)\<rparr>"
    using n c by (simp add: r'_def Hooks_Register_def Let_def entry_def)
  have ln: "length ?new = Suc (length (hooksFor r (hkOperation h) (hkPhase h)))" by (simp add: sort_slice_set(2) [OF sort_slice_insertionSort hookLess_order])
  show "hookCount r' = Suc (hookCount r)"
    using update_lengths [of ?key ?new "hrHooks r"] ln by (simp add: r' hookCount_def hooksFor_def)
  show "hrNextOrder r' = Suc (hrNextOrder r)" by (simp add: r')
  show "set (hooksFor r' operation phase) = set (hooksFor r operation phase)
       \<union> (if operation = hkOperation h \<and> phase = hkPhase h then {entry} else {})"
    using sort_slice_set(1) [OF sort_slice_insertionSort hookLess_order, of "hooksFor r (hkOperation h) (hkPhase h) @ [entry]"]
    by (auto simp: r' hooksFor_def update_conv')
qed

lemma registerHooks_append: "registerHooks (as @ bs) r = registerHooks bs (registerHooks as r)"
  by (induction as arbitrary: r) simp_all

lemma registerHooks_entries:
  "hookCount (registerHooks hooks NewHookRegistry) = length (validHooks hooks)
   \<and> hrNextOrder (registerHooks hooks NewHookRegistry) = length (validHooks hooks)
   \<and> (\<forall>operation phase. set (hooksFor (registerHooks hooks NewHookRegistry) operation phase) =
        {x \<in> set (registeredEntries hooks). hkOperation (rhHook x) = operation \<and> hkPhase (rhHook x) = phase})"
proof (induction hooks rule: rev_induct)
  case Nil
  then show ?case
    by (simp add: NewHookRegistry_def hookCount_def hooksFor_def validHooks_def registeredEntries_def)
next
  case (snoc h hooks)
  let ?r = "registerHooks hooks NewHookRegistry"
  have step: "registerHooks (hooks @ [h]) NewHookRegistry = snd (Hooks_Register h ?r)" by (simp add: registerHooks_append)
  show ?case
  proof (cases "\<exists>n. normalizeHook h = Inr n \<and> hookCount ?r < 128")
    case True
    then obtain n where n: "normalizeHook h = Inr n" "hookCount ?r < 128" by blast
    then have v: "validHooks (hooks @ [h]) = validHooks hooks @ [n]" using snoc by (simp add: validHooks_snoc)
    show ?thesis
      unfolding step using Hooks_Register_ok [OF n] snoc by (auto simp: v registeredEntries_snoc [OF v])
  next
    case False
    then have "snd (Hooks_Register h ?r) = ?r" by (auto simp: Hooks_Register_def split: sum.splits)
    moreover have "validHooks (hooks @ [h]) = validHooks hooks"
      using False snoc by (auto simp: validHooks_snoc split: sum.splits)
    ultimately show ?thesis unfolding step using snoc by (simp add: registeredEntries_def)
  qed
qed

subsection \<open>Runs\<close>

definition vetoes :: "(registeredHook \<Rightarrow> FileEvent \<Rightarrow> fb_error option) \<Rightarrow> FileEvent \<Rightarrow> registeredHook \<Rightarrow> bool" where
  "vetoes invoke event h = (hkMode (rhHook h) = ModeEnforce \<and> invoke h event \<noteq> None)"

lemma runHooks_facts:
  "(hxError (runHooks invoke event hs) \<noteq> None \<longleftrightarrow> list_ex (vetoes invoke event) hs)
   \<and> hxInvoked (runHooks invoke event hs) = takeWhile (\<lambda>h. \<not> vetoes invoke event h) hs @ take 1 (dropWhile (\<lambda>h. \<not> vetoes invoke event h) hs)
   \<and> map fst (hxFailures (runHooks invoke event hs)) = filter (\<lambda>h. invoke h event \<noteq> None) (hxInvoked (runHooks invoke event hs))"
  by (induction hs) (auto simp: vetoes_def Let_def split: option.splits)

text \<open>
  C32: For hooks registered in any sequence: a valid event runs the hooks registered for its operation and
  phase, those and no others, where a hook without a phase runs before the operation, an invalid hook is
  refused and the registry takes 128 hooks. They run in the order of priority and registration, up to and
  including the first enforcing hook that fails. The run returns an error exactly when there is such a hook,
  which is never the case after the operation; the reported failures are those of the invoked hooks.
\<close>

theorem hooks_veto:
  assumes "registerHooks hooks NewHookRegistry = r" "normalizeEvent now event = Inr e" "Hooks_Run now invoke event r = run"
  shows "\<exists>hs. sorted_wrt hookLess hs \<and> hs = hooksFor r (evOperation e) (evPhase e)
    \<and> set hs = {h \<in> set (registeredEntries hooks). hkOperation (rhHook h) = evOperation e \<and> hkPhase (rhHook h) = evPhase e}
    \<and> hxInvoked run = takeWhile (\<lambda>h. \<not> vetoes invoke e h) hs @ take 1 (dropWhile (\<lambda>h. \<not> vetoes invoke e h) hs)
    \<and> (hxError run \<noteq> None \<longleftrightarrow> list_ex (vetoes invoke e) hs) \<and> (hxError run \<noteq> None \<longrightarrow> evPhase e = PhaseBefore)
    \<and> map fst (hxFailures run) = filter (\<lambda>h. invoke h e \<noteq> None) (hxInvoked run)"
proof -
  have "hooks_inv NewHookRegistry" by (simp add: hooks_inv_def NewHookRegistry_def hooksFor_def)
  then have inv: "hooks_inv r" using registerHooks_inv assms(1) by blast
  let ?hs = "hooksFor r (evOperation e) (evPhase e)"
  have run: "run = runHooks invoke e ?hs" using assms(2,3) by (auto simp: Hooks_Run_def)
  have "evPhase e = PhaseBefore" if v: "list_ex (vetoes invoke e) ?hs"
  proof -
    obtain h where "h \<in> set ?hs" "vetoes invoke e h" using v unfolding list_ex_iff by blast
    then have "h \<in> set ?hs" "hkMode (rhHook h) = ModeEnforce" by (simp_all add: vetoes_def)
    then show ?thesis using inv unfolding hooks_inv_def by blast
  qed
  moreover have "sorted_wrt hookLess ?hs" using inv sorted_hookLess unfolding hooks_inv_def by blast
  moreover have "set ?hs = {h \<in> set (registeredEntries hooks). hkOperation (rhHook h) = evOperation e \<and> hkPhase (rhHook h) = evPhase e}"
    using registerHooks_entries [of hooks] assms(1) by blast
  ultimately show ?thesis using runHooks_facts [of invoke e ?hs] unfolding run by blast
qed

definition demo_hook :: "int \<Rightarrow> string \<Rightarrow> nat \<Rightarrow> Hook" where
  "demo_hook priority mode n = \<lparr>hkOperation = OperationRead, hkPhase = [], hkPriority = priority, hkMode = mode, hkTimeout = 0, hkMaxParallel = 0,
     hkHandler = Some n\<rparr>"

definition demo_file_event :: FileEvent where
  "demo_file_event = \<lparr>evVersion = [], evID = 1, evOperation = OperationRead, evPhase = PhaseBefore, evPath = ''a'', evSecondaryPath = [],
     evOffset = 0, evSize = 1, evFileMode = 0, evDirectory = False, evReadOnly = False, evOccurredAtUnixNano = 5, evDurationNanos = 0, evError = [], evAttributes = []\<rparr>"

definition demo_invoke :: "registeredHook \<Rightarrow> FileEvent \<Rightarrow> fb_error option" where
  "demo_invoke h e = (if hkHandler (rhHook h) = Some 1 then None else Some (FbError ''no''))"

definition demo_hooks :: HookRegistry where
  "demo_hooks = registerHooks [demo_hook 5 ModeEnforce 3, demo_hook 1 ModeObserve 2, demo_hook 1 [] 1, demo_hook 9 [] 1] NewHookRegistry"

theorem hooks_veto_witness:
  "\<exists>e. normalizeEvent 0 demo_file_event = Inr e
     \<and> map (hkHandler \<circ> rhHook) (hxInvoked (Hooks_Run 0 demo_invoke demo_file_event demo_hooks)) = [Some 2, Some 1, Some 3]
     \<and> hxError (Hooks_Run 0 demo_invoke demo_file_event demo_hooks) \<noteq> None \<and> evPhase e = PhaseBefore"
proof -
  have "\<not> isl (normalizeEvent 0 demo_file_event)" by code_simp
  then obtain e where e: "normalizeEvent 0 demo_file_event = Inr e" by (cases "normalizeEvent 0 demo_file_event") auto
  have r: "map (hkHandler \<circ> rhHook) (hxInvoked (Hooks_Run 0 demo_invoke demo_file_event demo_hooks)) = [Some 2, Some 1, Some 3]"
    "hxError (Hooks_Run 0 demo_invoke demo_file_event demo_hooks) \<noteq> None"
    by code_simp+
  from hooks_veto [OF demo_hooks_def [symmetric] e refl, of demo_invoke] r(2) have "evPhase e = PhaseBefore" by (elim exE conjE) simp
  then show ?thesis using e r by (intro exI conjI)
qed

end
