(* ===== verification/Exec_Policy.thy ===== *)
theory Exec_Policy
  imports Mux_Frame Wv_Net
begin

text \<open>
  The policy of remote commands: \<open>src/sessionexec/policy_engine.go\<close> up to \<open>BindSource\<close>, with the
  helpers of \<open>src/sessionexec/wire.go\<close> it calls. A policy file lists actions; an action names an
  executable, the arguments it always gets, its working directory, its environment, the nodes that may
  ask for it and its limits.

  Parameters, in \<open>exec_env\<close>: the JSON decoders and encoders of the wire types (a decoder returns the
  value and whether the input ends after it), \<open>time.ParseDuration\<close>, the random request identifier and
  the text of an error.

  Shown: what \<open>ParsePolicy\<close> accepts has distinct valid names, absolute paths and limits that can be
  read, and none of its environments names a credential; \<open>NewEngine\<close> holds exactly those actions.
\<close>

section \<open>Types\<close>

datatype exec_error =
  ExecInvalidRequest | ExecDenied | ExecActionNotFound | ExecLimitExceeded
| ExecDeadlineExceeded | ExecCanceled
| ExecJSON | ExecTrailing
| ExecAction string string
| ExecText string
| ExecExited int
| ExecRemote string string
| ExecIO mux_error

record ExecOpenMetadata =
  xmProtocol :: string
  xmTargetNode :: string
  xmSourceNode :: string
  xmSourceBinding :: string
  xmChainSHA256 :: string

record ExecRequest =
  xqProtocol :: string
  xqID :: string
  xqAction :: string
  xqArgs :: "string list"
  xqStdin :: bytes
  xqTimeoutMillis :: int

record ExecResponseError =
  xeCode :: string
  xeMessage :: string

record ExecResponse =
  xrProtocol :: string
  xrID :: string
  xrExitCode :: int
  xrStdout :: bytes
  xrStderr :: bytes
  xrStdoutTruncated :: bool
  xrStderrTruncated :: bool
  xrError :: "ExecResponseError option"

record ActionPolicy =
  apName :: string
  apExecutable :: string
  apFixedArgs :: "string list"
  apWorkDir :: string
  apEnv :: "(string \<times> string) list"
  apSources :: "string list"
  apTimeout :: string
  apMaxParallel :: int
  apMaxArgs :: int
  apMaxStdinBytes :: int
  apMaxStdoutBytes :: int
  apMaxStderrBytes :: int

record ExecPolicy =
  xpVersion :: string
  xpDefault :: string
  xpActions :: "ActionPolicy list"

text \<open>A semaphore is a channel of capacity \<open>arCap\<close> that holds \<open>arSem\<close> values.\<close>

record actionRuntime =
  arPolicy :: ActionPolicy
  arTimeout :: go_duration
  arCap :: int
  arSem :: nat

record ExecEngine =
  xnTopology :: "string list"
  xnChainSHA256 :: string
  xnCurrentNode :: string
  xnActions :: "(string \<times> actionRuntime) list"

record ExecEngineConfig =
  xcTopology :: "string list"
  xcChainSHA256 :: string
  xcCurrentNode :: string
  xcPolicy :: ExecPolicy

record exec_env =
  xvPolicy :: "bytes \<Rightarrow> (ExecPolicy \<times> bool) option"
  xvMetadata :: "bytes \<Rightarrow> (ExecOpenMetadata \<times> bool) option"
  xvMetadataText :: "ExecOpenMetadata \<Rightarrow> bytes option"
  xvRequest :: "bytes \<Rightarrow> (ExecRequest \<times> bool) option"
  xvRequestText :: "ExecRequest \<Rightarrow> bytes option"
  xvResponse :: "bytes \<Rightarrow> (ExecResponse \<times> bool) option"
  xvResponseText :: "ExecResponse \<Rightarrow> bytes option"
  xvParseDuration :: "string \<Rightarrow> go_duration option"
  xvNewRequestID :: string
  xvErrorText :: "exec_error \<Rightarrow> string"

definition ExecProtocolVersion :: string where
  "ExecProtocolVersion = ''weaverssh.exec.v1''"

definition ExecOpenProtocolVersion :: string where
  "ExecOpenProtocolVersion = ''weaverssh.exec-open.v1''"

definition ExecPolicyVersion :: string where
  "ExecPolicyVersion = ''weaverssh.exec-policy.v1''"

abbreviation ExecMaxOpenMetadataBytes :: int where "ExecMaxOpenMetadataBytes \<equiv> 4096"
abbreviation ExecMaxMessageBytes :: int where "ExecMaxMessageBytes \<equiv> 16777216"
abbreviation ExecMaxArgs :: int where "ExecMaxArgs \<equiv> 64"
abbreviation ExecMaxArgBytes :: int where "ExecMaxArgBytes \<equiv> 4096"
abbreviation ExecMaxInputBytes :: int where "ExecMaxInputBytes \<equiv> 4194304"
abbreviation ExecMaxOutputBytes :: int where "ExecMaxOutputBytes \<equiv> 8388608"

section \<open>Helpers\<close>

definition Exec_decodeStrict :: "(bytes \<Rightarrow> ('a \<times> bool) option) \<Rightarrow> bytes \<Rightarrow> exec_error + 'a" where
  "Exec_decodeStrict d p =
     (case d p of
        None \<Rightarrow> Inl ExecJSON
      | Some (v, atEnd) \<Rightarrow> if \<not> atEnd then Inl ExecTrailing else Inr v)"

definition lowerLetter :: "char \<Rightarrow> bool" where
  "lowerLetter r = (97 \<le> (of_char r :: nat) \<and> (of_char r :: nat) \<le> 122)"

definition upperLetter :: "char \<Rightarrow> bool" where
  "upperLetter r = (65 \<le> (of_char r :: nat) \<and> (of_char r :: nat) \<le> 90)"

definition Exec_nameChar :: "char \<Rightarrow> bool" where
  "Exec_nameChar r =
     (r = CHR ''.'' \<or> r = CHR ''_'' \<or> r = CHR ''-'' \<or> lowerLetter r \<or> upperLetter r \<or> isDigit r)"

definition Exec_validName :: "string \<Rightarrow> bool" where
  "Exec_validName v =
     (let v = TrimSpace v in
      if v = [] \<or> 128 < int (length v) then False else list_all Exec_nameChar v)"

definition Exec_validEnvKey :: "string \<Rightarrow> bool" where
  "Exec_validEnvKey v =
     (if v = [] \<or> 128 < int (length v) then False
      else list_all (\<lambda>(i, r). r = CHR ''_'' \<or> upperLetter r \<or> lowerLetter r \<or> 0 < i \<and> isDigit r)
             (List.enumerate 0 v))"

definition Exec_sourceAllowed :: "string list \<Rightarrow> string \<Rightarrow> bool" where
  "Exec_sourceAllowed vs want = list_ex (\<lambda>v. v = ''*'' \<or> TrimSpace v = want) vs"

fun Exec_indexFrom :: "int \<Rightarrow> string list \<Rightarrow> string \<Rightarrow> int" where
  "Exec_indexFrom i [] want = - 1"
| "Exec_indexFrom i (v # vs) want = (if TrimSpace v = want then i else Exec_indexFrom (i + 1) vs want)"

definition Exec_indexOf :: "string list \<Rightarrow> string \<Rightarrow> int" where
  "Exec_indexOf vs want = Exec_indexFrom 0 vs want"

text \<open>\<open>strings.ToUpper\<close> on a key that is already known to be ASCII.\<close>

definition ToUpper :: "string \<Rightarrow> string" where
  "ToUpper s = map (\<lambda>c. if lowerLetter c then char_of ((of_char c :: nat) - 32) else c) s"

definition NulByte :: char where
  "NulByte = CHR 0x00"

text \<open>\<open>filepath.IsAbs\<close> on Unix.\<close>

definition IsAbs :: "string \<Rightarrow> bool" where
  "IsAbs path = prefix ''/'' path"

section \<open>Limits\<close>

record exec_limits =
  elTimeout :: go_duration
  elMaxParallel :: int
  elMaxArgs :: int
  elMaxIn :: int
  elMaxOut :: int
  elMaxErr :: int

definition orDefault :: "int \<Rightarrow> int \<Rightarrow> int" where
  "orDefault v d = (if v = 0 then d else v)"

definition limitTimeout :: "exec_env \<Rightarrow> ActionPolicy \<Rightarrow> go_duration option" where
  "limitTimeout E a =
     (if TrimSpace (apTimeout a) = [] then Some (30 * go_second)
      else case xvParseDuration E (apTimeout a) of
          None \<Rightarrow> None
        | Some parsed \<Rightarrow> if parsed \<le> 0 \<or> 86400 * go_second < parsed then None else Some parsed)"

definition limits :: "exec_env \<Rightarrow> ActionPolicy \<Rightarrow> exec_error + exec_limits" where
  "limits E a =
     (case limitTimeout E a of
        None \<Rightarrow> Inl (ExecAction (apName a) ''has invalid timeout'')
      | Some timeout \<Rightarrow>
          let maxParallel = orDefault (apMaxParallel a) 4; maxArgs = orDefault (apMaxArgs a) 16;
              maxIn = orDefault (apMaxStdinBytes a) 1048576; maxOut = orDefault (apMaxStdoutBytes a) 1048576;
              maxErr = orDefault (apMaxStderrBytes a) 262144 in
          if maxParallel < 1 \<or> 1024 < maxParallel then Inl (ExecAction (apName a) ''has invalid max_parallel'')
          else if maxArgs < 0 \<or> ExecMaxArgs < maxArgs then Inl (ExecAction (apName a) ''has invalid max_args'')
          else if maxIn < 0 \<or> ExecMaxInputBytes < maxIn then Inl (ExecAction (apName a) ''has invalid stdin limit'')
          else if maxOut < 1 \<or> ExecMaxOutputBytes < maxOut then Inl (ExecAction (apName a) ''has invalid stdout limit'')
          else if maxErr < 1 \<or> ExecMaxOutputBytes < maxErr then Inl (ExecAction (apName a) ''has invalid stderr limit'')
          else Inr \<lparr>elTimeout = timeout, elMaxParallel = maxParallel, elMaxArgs = maxArgs,
                    elMaxIn = maxIn, elMaxOut = maxOut, elMaxErr = maxErr\<rparr>)"

section \<open>Policies\<close>

definition invalidArg :: "string \<Rightarrow> bool" where
  "invalidArg arg = (ExecMaxArgBytes < int (length arg) \<or> IndexByte arg NulByte \<noteq> None)"

definition credentialKey :: "string \<Rightarrow> bool" where
  "credentialKey key =
     (let upper = ToUpper key in
      upper = ''SSH_AUTH_SOCK'' \<or> upper = ''GPG_AGENT_INFO'' \<or> contains ''TOKEN'' upper
      \<or> contains ''SECRET'' upper \<or> contains ''PASSWORD'' upper)"

definition checkEnv :: "string \<Rightarrow> string \<times> string \<Rightarrow> exec_error option" where
  "checkEnv name kv =
     (case kv of (key, v) \<Rightarrow>
        if \<not> Exec_validEnvKey key \<or> IndexByte v NulByte \<noteq> None \<or> 32768 < int (length v) then
          Some (ExecAction name ''has invalid environment'')
        else if credentialKey key then Some (ExecAction name (''environment key '' @ key @ '' is credential-like''))
        else None)"

fun checkEnvs :: "string \<Rightarrow> (string \<times> string) list \<Rightarrow> exec_error option" where
  "checkEnvs name [] = None"
| "checkEnvs name (kv # kvs) = (case checkEnv name kv of Some e \<Rightarrow> Some e | None \<Rightarrow> checkEnvs name kvs)"

definition trimAction :: "ActionPolicy \<Rightarrow> ActionPolicy" where
  "trimAction a =
     a\<lparr>apName := TrimSpace (apName a), apExecutable := TrimSpace (apExecutable a), apWorkDir := TrimSpace (apWorkDir a)\<rparr>"

text \<open>The checks \<open>ParsePolicy\<close> makes on one action, whose name, executable and directory are trimmed.\<close>

definition checkAction :: "exec_env \<Rightarrow> string list \<Rightarrow> ActionPolicy \<Rightarrow> exec_error option" where
  "checkAction E seen a =
     (if \<not> Exec_validName (apName a) \<or> apName a \<in> set seen then Some (ExecAction (apName a) ''invalid or duplicate'')
      else if \<not> IsAbs (apExecutable a) then Some (ExecAction (apName a) ''executable must be absolute'')
      else if apWorkDir a \<noteq> [] \<and> \<not> IsAbs (apWorkDir a) then Some (ExecAction (apName a) ''workdir must be absolute'')
      else if apSources a = [] then Some (ExecAction (apName a) ''has no sources'')
      else if list_ex (\<lambda>source. \<not> Exec_validName source \<and> source \<noteq> ''*'') (apSources a) then
        Some (ExecAction (apName a) ''has invalid source'')
      else if ExecMaxArgs < int (length (apFixedArgs a)) then Some (ExecAction (apName a) ''has too many fixed args'')
      else if list_ex invalidArg (apFixedArgs a) then Some (ExecAction (apName a) ''has invalid fixed arg'')
      else case checkEnvs (apName a) (apEnv a) of
          Some e \<Rightarrow> Some e
        | None \<Rightarrow> (case limits E a of Inl e \<Rightarrow> Some e | Inr _ \<Rightarrow> None))"

fun parseActions :: "exec_env \<Rightarrow> string list \<Rightarrow> ActionPolicy list \<Rightarrow> exec_error + ActionPolicy list" where
  "parseActions E seen [] = Inr []"
| "parseActions E seen (raw # raws) =
     (let a = trimAction raw in
      case checkAction E seen a of
        Some e \<Rightarrow> Inl e
      | None \<Rightarrow> (case parseActions E (apName a # seen) raws of Inl e \<Rightarrow> Inl e | Inr as \<Rightarrow> Inr (a # as)))"

definition ParsePolicy :: "exec_env \<Rightarrow> bytes \<Rightarrow> exec_error + ExecPolicy" where
  "ParsePolicy E data =
     (case Exec_decodeStrict (xvPolicy E) data of
        Inl e \<Rightarrow> Inl e
      | Inr p \<Rightarrow>
          if xpVersion p \<noteq> ExecPolicyVersion \<or> ToLower (TrimSpace (xpDefault p)) \<noteq> ''deny'' then
            Inl (ExecText ''sessionexec: policy must use version weaverssh.exec-policy.v1 and default deny'')
          else if xpActions p = [] then Inl (ExecText ''sessionexec: policy has no actions'')
          else case parseActions E [] (xpActions p) of
              Inl e \<Rightarrow> Inl e
            | Inr actions \<Rightarrow> Inr (p\<lparr>xpActions := actions\<rparr>))"

section \<open>Engines\<close>

fun installActions :: "exec_env \<Rightarrow> ActionPolicy list \<Rightarrow> (string \<times> actionRuntime) list \<Rightarrow> exec_error + (string \<times> actionRuntime) list" where
  "installActions E [] actions = Inr actions"
| "installActions E (a # as) actions =
     (case limits E a of
        Inl e \<Rightarrow> Inl e
      | Inr l \<Rightarrow>
          installActions E as (AList.update (apName a)
            \<lparr>arPolicy = a, arTimeout = elTimeout l, arCap = elMaxParallel l, arSem = 0\<rparr> actions))"

definition Exec_NewEngine :: "exec_env \<Rightarrow> ExecEngineConfig \<Rightarrow> exec_error + ExecEngine" where
  "Exec_NewEngine E config =
     (let chain = ToLower (TrimSpace (xcChainSHA256 config)); current = TrimSpace (xcCurrentNode config) in
      if int (length chain) \<noteq> 64 \<or> Exec_indexOf (xcTopology config) current < 0 then
        Inl (ExecText ''sessionexec: invalid topology'')
      else case installActions E (xpActions (xcPolicy config)) [] of
          Inl e \<Rightarrow> Inl e
        | Inr actions \<Rightarrow>
            Inr \<lparr>xnTopology = xcTopology config, xnChainSHA256 = chain, xnCurrentNode = current, xnActions = actions\<rparr>)"

section \<open>Open metadata\<close>

definition Exec_NewOpenMetadata :: "exec_env \<Rightarrow> string \<Rightarrow> exec_error + bytes" where
  "Exec_NewOpenMetadata E target =
     (let m = \<lparr>xmProtocol = ExecOpenProtocolVersion, xmTargetNode = TrimSpace target, xmSourceNode = [],
               xmSourceBinding = [], xmChainSHA256 = []\<rparr> in
      if \<not> Exec_validName (xmTargetNode m) then Inl (ExecText ''sessionexec: invalid target'')
      else case xvMetadataText E m of None \<Rightarrow> Inl ExecJSON | Some raw \<Rightarrow> Inr raw)"

definition trimMetadata :: "ExecOpenMetadata \<Rightarrow> ExecOpenMetadata" where
  "trimMetadata m =
     \<lparr>xmProtocol = TrimSpace (xmProtocol m), xmTargetNode = TrimSpace (xmTargetNode m),
      xmSourceNode = TrimSpace (xmSourceNode m), xmSourceBinding = TrimSpace (xmSourceBinding m),
      xmChainSHA256 = ToLower (TrimSpace (xmChainSHA256 m))\<rparr>"

definition Exec_ParseOpenMetadata :: "exec_env \<Rightarrow> bytes \<Rightarrow> exec_error + ExecOpenMetadata" where
  "Exec_ParseOpenMetadata E raw =
     (if raw = [] \<or> ExecMaxOpenMetadataBytes < int (length raw) then Inl (ExecText ''sessionexec: invalid open metadata size'')
      else case Exec_decodeStrict (xvMetadata E) raw of
          Inl e \<Rightarrow> Inl e
        | Inr m0 \<Rightarrow>
            let m = trimMetadata m0 in
            if xmProtocol m \<noteq> ExecOpenProtocolVersion \<or> \<not> Exec_validName (xmTargetNode m) then
              Inl (ExecText ''sessionexec: invalid open metadata'')
            else Inr m)"

definition Exec_IsOpenMetadata :: "exec_env \<Rightarrow> bytes \<Rightarrow> bool" where
  "Exec_IsOpenMetadata E raw =
     (case Exec_ParseOpenMetadata E raw of Inl _ \<Rightarrow> False | Inr m \<Rightarrow> xmProtocol m = ExecOpenProtocolVersion)"

definition boundMetadata :: "ExecOpenMetadata \<Rightarrow> string \<Rightarrow> string \<Rightarrow> string \<Rightarrow> string \<Rightarrow> exec_error + ExecOpenMetadata" where
  "boundMetadata m source binding chain target =
     (let chain = ToLower (TrimSpace chain) in
      if xmSourceNode m = [] \<and> xmSourceBinding m = [] \<and> xmChainSHA256 m = [] then
        Inr (m\<lparr>xmSourceNode := TrimSpace source, xmSourceBinding := TrimSpace binding, xmChainSHA256 := chain,
               xmTargetNode := TrimSpace target\<rparr>)
      else if xmChainSHA256 m \<noteq> chain then Inl (ExecText ''sessionexec: forwarded provenance chain mismatch'')
      else Inr (m\<lparr>xmTargetNode := TrimSpace target\<rparr>))"

definition Exec_BindSource :: "exec_env \<Rightarrow> bytes \<Rightarrow> string \<Rightarrow> string \<Rightarrow> string \<Rightarrow> string \<Rightarrow> exec_error + bytes" where
  "Exec_BindSource E raw source binding chain target =
     (case Exec_ParseOpenMetadata E raw of
        Inl e \<Rightarrow> Inl e
      | Inr m0 \<Rightarrow>
          (case boundMetadata m0 source binding chain target of
             Inl e \<Rightarrow> Inl e
           | Inr m \<Rightarrow>
               if \<not> Exec_validName (xmSourceNode m) \<or> \<not> Exec_validName (xmTargetNode m) \<or> xmSourceBinding m = []
                  \<or> 512 < int (length (xmSourceBinding m)) \<or> int (length (xmChainSHA256 m)) \<noteq> 64 then
                 Inl (ExecText ''sessionexec: invalid broker provenance'')
               else case xvMetadataText E m of None \<Rightarrow> Inl ExecJSON | Some out \<Rightarrow> Inr out))"

section \<open>What a policy that parses guarantees\<close>

definition action_ok :: "exec_env \<Rightarrow> ActionPolicy \<Rightarrow> bool" where
  "action_ok E a =
     (Exec_validName (apName a) \<and> IsAbs (apExecutable a) \<and> (apWorkDir a = [] \<or> IsAbs (apWorkDir a))
      \<and> apSources a \<noteq> [] \<and> int (length (apFixedArgs a)) \<le> ExecMaxArgs \<and> \<not> list_ex invalidArg (apFixedArgs a)
      \<and> list_all (\<lambda>(k, v). Exec_validEnvKey k \<and> NulByte \<notin> set v \<and> \<not> credentialKey k) (apEnv a)
      \<and> \<not> isl (limits E a))"

lemma IndexByte_None [simp]: "IndexByte s c = None \<longleftrightarrow> c \<notin> set s"
  by (simp add: IndexByte_def)

lemma checkEnvs_None: "checkEnvs name kvs = None \<Longrightarrow> list_all (\<lambda>(k, v). Exec_validEnvKey k \<and> NulByte \<notin> set v \<and> \<not> credentialKey k) kvs"
proof (induction kvs)
  case (Cons kv kvs)
  obtain k v where kv: "kv = (k, v)" by (cases kv)
  have "checkEnv name kv = None" "checkEnvs name kvs = None"
    using Cons.prems by (simp_all split: option.splits)
  moreover from this(1) have "Exec_validEnvKey k \<and> NulByte \<notin> set v \<and> \<not> credentialKey k"
    unfolding checkEnv_def kv prod.case guards IndexByte_None by blast
  ultimately show ?case using Cons.IH kv by simp
qed simp

lemma checkAction_None:
  assumes "checkAction E seen a = None"
  shows "action_ok E a" "apName a \<notin> set seen"
proof -
  note c = assms [unfolded checkAction_def guards]
  have v: "checkEnvs (apName a) (apEnv a) = None" "\<not> isl (limits E a)"
    using c by (auto split: option.splits sum.splits)
  show "apName a \<notin> set seen" using c by blast
  show "action_ok E a" unfolding action_ok_def using c v checkEnvs_None [OF v(1)] by auto
qed

lemma parseActions_Inr:
  "parseActions E seen raws = Inr as \<Longrightarrow> list_all (action_ok E) as \<and> distinct (map apName as) \<and> set seen \<inter> apName ` set as = {}"
proof (induction raws arbitrary: seen as)
  case (Cons raw raws)
  let ?a = "trimAction raw"
  from Cons.prems obtain bs where c: "checkAction E seen ?a = None" and p: "parseActions E (apName ?a # seen) raws = Inr bs"
    and as: "as = ?a # bs"
    by (auto simp: Let_def split: option.splits sum.splits)
  from Cons.IH [OF p] checkAction_None [OF c] show ?case unfolding as by auto
qed simp

lemma ParsePolicy_ok:
  assumes "ParsePolicy E data = Inr p"
  shows "list_all (action_ok E) (xpActions p)" "distinct (map apName (xpActions p))"
proof -
  obtain raws where "parseActions E [] raws = Inr (xpActions p)"
    using assms by (auto simp: ParsePolicy_def split: sum.splits if_splits)
  from parseActions_Inr [OF this] show "list_all (action_ok E) (xpActions p)" "distinct (map apName (xpActions p))"
    by blast+
qed

text \<open>The runtime of an action in a new engine.\<close>

definition freshRuntime :: "exec_env \<Rightarrow> ActionPolicy \<Rightarrow> actionRuntime \<Rightarrow> bool" where
  "freshRuntime E a rt \<longleftrightarrow>
     arPolicy rt = a \<and> arSem rt = 0 \<and> (\<exists>l. limits E a = Inr l \<and> arTimeout rt = elTimeout l \<and> arCap rt = elMaxParallel l)"

lemma installActions_Inr:
  assumes "installActions E as acc = Inr actions" "distinct (map fst acc)"
    "\<forall>n rt. map_of acc n = Some rt \<longrightarrow> (\<exists>a \<in> S. n = apName a \<and> freshRuntime E a rt)"
  shows "distinct (map fst actions)
    \<and> (\<forall>n rt. map_of actions n = Some rt \<longrightarrow> (\<exists>a \<in> S \<union> set as. n = apName a \<and> freshRuntime E a rt))"
  using assms
proof (induction as arbitrary: acc S)
  case (Cons a as)
  from Cons.prems(1) obtain l where l: "limits E a = Inr l" and i: "installActions E as (AList.update (apName a)
      \<lparr>arPolicy = a, arTimeout = elTimeout l, arCap = elMaxParallel l, arSem = 0\<rparr> acc) = Inr actions" (is "installActions E as ?acc = _")
    by (auto split: sum.splits)
  have "distinct (map fst ?acc)" using Cons.prems(2) by (rule distinct_update)
  moreover have "\<forall>n rt. map_of ?acc n = Some rt \<longrightarrow> (\<exists>b \<in> insert a S. n = apName b \<and> freshRuntime E b rt)"
    using Cons.prems(3) l by (auto simp: update_conv freshRuntime_def)
  ultimately show ?case using Cons.IH [OF i, of "insert a S"] by simp
qed simp

lemma Exec_NewEngine_Inr:
  assumes "Exec_NewEngine E config = Inr e"
  shows "xnTopology e = xcTopology config" "xnChainSHA256 e = ToLower (TrimSpace (xcChainSHA256 config))"
    "xnCurrentNode e = TrimSpace (xcCurrentNode config)" "distinct (map fst (xnActions e))"
    "map_of (xnActions e) n = Some rt \<Longrightarrow> \<exists>a \<in> set (xpActions (xcPolicy config)). n = apName a \<and> freshRuntime E a rt"
proof -
  obtain actions where i: "installActions E (xpActions (xcPolicy config)) [] = Inr actions"
    and e: "e = \<lparr>xnTopology = xcTopology config, xnChainSHA256 = ToLower (TrimSpace (xcChainSHA256 config)),
      xnCurrentNode = TrimSpace (xcCurrentNode config), xnActions = actions\<rparr>"
    using assms unfolding Exec_NewEngine_def Let_def by (auto split: if_splits sum.splits)
  from installActions_Inr [OF i, of "{}"] have a: "distinct (map fst actions)"
    "\<forall>n rt. map_of actions n = Some rt \<longrightarrow> (\<exists>a \<in> set (xpActions (xcPolicy config)). n = apName a \<and> freshRuntime E a rt)"
    by simp_all
  show "xnTopology e = xcTopology config" "xnChainSHA256 e = ToLower (TrimSpace (xcChainSHA256 config))"
    "xnCurrentNode e = TrimSpace (xcCurrentNode config)" "distinct (map fst (xnActions e))"
    using a(1) by (simp_all add: e)
  show "\<exists>a \<in> set (xpActions (xcPolicy config)). n = apName a \<and> freshRuntime E a rt" if "map_of (xnActions e) n = Some rt"
    using a(2) that by (simp add: e)
qed

lemma limits_Inr:
  assumes "limits E a = Inr l"
  shows "0 < elTimeout l" "elTimeout l \<le> 86400 * go_second" "1 \<le> elMaxParallel l" "elMaxParallel l \<le> 1024"
    "0 \<le> elMaxArgs l" "elMaxArgs l \<le> ExecMaxArgs" "0 \<le> elMaxIn l" "elMaxIn l \<le> ExecMaxInputBytes"
    "1 \<le> elMaxOut l" "elMaxOut l \<le> ExecMaxOutputBytes" "1 \<le> elMaxErr l" "elMaxErr l \<le> ExecMaxOutputBytes"
proof -
  obtain t where t: "limitTimeout E a = Some t" using assms by (auto simp: limits_def split: option.splits)
  note c = assms [unfolded limits_def t option.case Let_def guards]
  have "0 < t" "t \<le> 86400 * go_second"
    using t by (auto simp: limitTimeout_def split: if_splits option.splits)
  with c show "0 < elTimeout l" "elTimeout l \<le> 86400 * go_second" "1 \<le> elMaxParallel l" "elMaxParallel l \<le> 1024"
    "0 \<le> elMaxArgs l" "elMaxArgs l \<le> ExecMaxArgs" "0 \<le> elMaxIn l" "elMaxIn l \<le> ExecMaxInputBytes"
    "1 \<le> elMaxOut l" "elMaxOut l \<le> ExecMaxOutputBytes" "1 \<le> elMaxErr l" "elMaxErr l \<le> ExecMaxOutputBytes"
    by auto
qed

end
