(* ===== verification/Exec_Engine.thy ===== *)
theory Exec_Engine
  imports Exec_Policy Wv_Sort
begin

text \<open>
  Running remote commands: \<open>Engine.Execute\<close> of \<open>src/sessionexec/policy_engine.go\<close>, and the frames, the
  server and the client of \<open>src/sessionexec/wire.go\<close>.

  \<open>Execute\<close> is cut where its goroutine can wait: \<open>Execute_admit\<close> is everything before the \<open>select\<close> on
  the semaphore, \<open>Sem_acquire\<close> the send on the channel, \<open>Execute_finish\<close> what follows the command, and
  \<open>Sem_release\<close> the deferred receive. \<open>Exec_Execute\<close> puts them together for one call, and \<open>exec_step\<close>
  interleaves any number of calls. Running a command is a parameter: it gives the chunks the process
  wrote, its error and that of its context.

  Shown: whatever a peer sends, a command that starts is an action of the policy, for a source the
  action allows, within the action's limits; the commands of an action that run at once never exceed
  its limit, and no slot is lost; a client and a server agree on the request and its answer. Two
  shortcomings are shown as well: provenance a client writes itself is taken over by the broker, and a
  large timeout wraps round.
\<close>

section \<open>Requests\<close>

definition Exec_normalizeRequest :: "exec_env \<Rightarrow> ExecRequest \<Rightarrow> ExecRequest" where
  "Exec_normalizeRequest E r =
     r\<lparr>xqProtocol := ExecProtocolVersion,
       xqID := (if TrimSpace (xqID r) = [] then xvNewRequestID E else TrimSpace (xqID r)),
       xqAction := TrimSpace (xqAction r)\<rparr>"

definition Exec_validateRequest :: "ExecRequest \<Rightarrow> exec_error option" where
  "Exec_validateRequest r =
     (if xqProtocol r \<noteq> ExecProtocolVersion \<or> xqID r = [] \<or> 128 < int (length (xqID r)) \<or> \<not> Exec_validName (xqAction r)
         \<or> ExecMaxArgs < int (length (xqArgs r)) \<or> ExecMaxInputBytes < int (length (xqStdin r)) \<or> xqTimeoutMillis r < 0
      then Some ExecInvalidRequest else None)"

section \<open>Commands\<close>

definition explicitEnv :: "(string \<times> string) list \<Rightarrow> string list" where
  "explicitEnv vs = map (\<lambda>k. k @ ''='' @ the (map_of vs k)) (sort (remdups (map fst vs)))"

record cappedBuffer =
  cbBuf :: bytes
  cbMax :: int
  cbTruncated :: bool

definition capped_Write :: "cappedBuffer \<Rightarrow> bytes \<Rightarrow> cappedBuffer" where
  "capped_Write c p =
     (let remaining = cbMax c - int (length (cbBuf c)) in
      if remaining \<le> 0 then c\<lparr>cbTruncated := True\<rparr>
      else if remaining < int (length p) then c\<lparr>cbBuf := cbBuf c @ take (nat remaining) p, cbTruncated := True\<rparr>
      else c\<lparr>cbBuf := cbBuf c @ p\<rparr>)"

record exec_command =
  ecPath :: string
  ecArgs :: "string list"
  ecDir :: string
  ecEnv :: "string list"
  ecStdin :: bytes
  ecTimeout :: go_duration

text \<open>
  How a command ends: \<open>exec.ExitError\<close> with its code, or another error. \<open>rnContext\<close> is the error of the
  command's context afterwards.
\<close>

datatype run_error = ExitStatus int | RunFailed string

record exec_run =
  rnStdout :: "bytes list"
  rnStderr :: "bytes list"
  rnError :: "run_error option"
  rnContext :: "exec_error option"

record admission =
  adRequest :: ExecRequest
  adCommand :: exec_command
  adMaxOut :: int
  adMaxErr :: int

definition zeroLimits :: exec_limits where
  "zeroLimits = \<lparr>elTimeout = 0, elMaxParallel = 0, elMaxArgs = 0, elMaxIn = 0, elMaxOut = 0, elMaxErr = 0\<rparr>"

definition requestTimeout :: "ExecRequest \<Rightarrow> go_duration \<Rightarrow> go_duration" where
  "requestTimeout req timeout =
     (if 0 < xqTimeoutMillis req then
        let requested = go_int64 (xqTimeoutMillis req * 1000000) in
        if requested < timeout then requested else timeout
      else timeout)"

definition actionCommand :: "ActionPolicy \<Rightarrow> ExecRequest \<Rightarrow> go_duration \<Rightarrow> exec_command" where
  "actionCommand a req timeout =
     \<lparr>ecPath = apExecutable a, ecArgs = apFixedArgs a @ xqArgs req, ecDir = apWorkDir a, ecEnv = explicitEnv (apEnv a),
      ecStdin = xqStdin req, ecTimeout = timeout\<rparr>"

definition Execute_admit :: "exec_env \<Rightarrow> ExecEngine \<Rightarrow> ExecOpenMetadata \<Rightarrow> ExecRequest \<Rightarrow> exec_error + admission" where
  "Execute_admit E e metadata req0 =
     (if xmTargetNode metadata \<noteq> xnCurrentNode e \<or> xmChainSHA256 metadata \<noteq> xnChainSHA256 e
         \<or> Exec_indexOf (xnTopology e) (xmSourceNode metadata) < 0 then Inl ExecDenied
      else
      let req = Exec_normalizeRequest E req0 in
      case Exec_validateRequest req of
        Some err \<Rightarrow> Inl err
      | None \<Rightarrow>
          (case map_of (xnActions e) (xqAction req) of
             None \<Rightarrow> Inl ExecActionNotFound
           | Some rt \<Rightarrow>
               if \<not> Exec_sourceAllowed (apSources (arPolicy rt)) (xmSourceNode metadata) then Inl ExecDenied
               else
               let l = (case limits E (arPolicy rt) of Inl _ \<Rightarrow> zeroLimits | Inr l \<Rightarrow> l) in
               if elMaxArgs l < int (length (xqArgs req)) \<or> elMaxIn l < int (length (xqStdin req)) then Inl ExecLimitExceeded
               else if list_ex invalidArg (xqArgs req) then Inl ExecInvalidRequest
               else Inr \<lparr>adRequest = req, adCommand = actionCommand (arPolicy rt) req (requestTimeout req (elTimeout l)),
                         adMaxOut = elMaxOut l, adMaxErr = elMaxErr l\<rparr>))"

definition newBuffer :: "int \<Rightarrow> cappedBuffer" where
  "newBuffer maximum = \<lparr>cbBuf = [], cbMax = maximum, cbTruncated = False\<rparr>"

definition exitCode :: "run_error option \<Rightarrow> int" where
  "exitCode err = (case err of None \<Rightarrow> 0 | Some (ExitStatus c) \<Rightarrow> c | Some (RunFailed _) \<Rightarrow> - 1)"

definition Execute_finish :: "admission \<Rightarrow> exec_run \<Rightarrow> ExecResponse \<times> exec_error option" where
  "Execute_finish ad r =
     (let out = foldl capped_Write (newBuffer (adMaxOut ad)) (rnStdout r);
          err = foldl capped_Write (newBuffer (adMaxErr ad)) (rnStderr r) in
      (\<lparr>xrProtocol = ExecProtocolVersion, xrID = xqID (adRequest ad), xrExitCode = exitCode (rnError r),
        xrStdout = cbBuf out, xrStderr = cbBuf err, xrStdoutTruncated = cbTruncated out,
        xrStderrTruncated = cbTruncated err, xrError = None\<rparr>,
       if rnContext r \<noteq> None then rnContext r
       else if cbTruncated out \<or> cbTruncated err then Some ExecLimitExceeded
       else if rnError r \<noteq> None then Some (ExecExited (exitCode (rnError r)))
       else None))"

definition execNoResponse :: ExecResponse where
  "execNoResponse =
     \<lparr>xrProtocol = [], xrID = [], xrExitCode = 0, xrStdout = [], xrStderr = [], xrStdoutTruncated = False,
      xrStderrTruncated = False, xrError = None\<rparr>"

text \<open>
  One call. \<open>acquire\<close> is the outcome of the \<open>select\<close>: \<open>None\<close> when the semaphore took the value, else the
  context's error. The first component are the commands started.
\<close>

definition Exec_Execute ::
  "exec_env \<Rightarrow> exec_error option \<Rightarrow> (exec_command \<Rightarrow> exec_run) \<Rightarrow> ExecEngine option \<Rightarrow> ExecOpenMetadata \<Rightarrow> ExecRequest \<Rightarrow>
     exec_command list \<times> ExecResponse \<times> exec_error option" where
  "Exec_Execute E acquire run eo metadata req =
     (case eo of
        None \<Rightarrow> ([], execNoResponse, Some (ExecText ''sessionexec: nil engine''))
      | Some e \<Rightarrow>
          (case Execute_admit E e metadata req of
             Inl err \<Rightarrow> ([], execNoResponse, Some err)
           | Inr ad \<Rightarrow>
               (case acquire of
                  Some err \<Rightarrow> ([], execNoResponse, Some err)
                | None \<Rightarrow> ([adCommand ad], Execute_finish ad (run (adCommand ad))))))"

section \<open>Frames\<close>

definition Exec_writeFrame :: "conn \<Rightarrow> bytes \<Rightarrow> exec_error option \<times> conn" where
  "Exec_writeFrame w p =
     (if p = [] \<or> ExecMaxMessageBytes < int (length p) then (Some (ExecText ''sessionexec: invalid message size''), w)
      else case writeFull w (put_uint32 (of_nat (length p))) of
          (Some e, w') \<Rightarrow> (Some (ExecIO e), w')
        | (None, w') \<Rightarrow> map_prod (map_option ExecIO) id (writeFull w' p))"

definition Exec_readFrame :: "bytes \<Rightarrow> exec_error + bytes \<times> bytes" where
  "Exec_readFrame bs =
     (case ReadFull 4 bs of
        Inl e \<Rightarrow> Inl (ExecIO e)
      | Inr (h, rest) \<Rightarrow>
          let n = get_uint32 h in
          if n = 0 \<or> 16777216 < n then Inl (ExecText ''sessionexec: invalid message size'')
          else case ReadFull (unat n) rest of Inl e \<Rightarrow> Inl (ExecIO e) | Inr pr \<Rightarrow> Inr pr)"

definition Exec_writeRequest :: "exec_env \<Rightarrow> conn \<Rightarrow> ExecRequest \<Rightarrow> exec_error option \<times> conn" where
  "Exec_writeRequest E w r =
     (case xvRequestText E r of None \<Rightarrow> (Some ExecJSON, w) | Some p \<Rightarrow> Exec_writeFrame w p)"

definition Exec_readRequest :: "exec_env \<Rightarrow> bytes \<Rightarrow> exec_error + ExecRequest" where
  "Exec_readRequest E bs =
     (case Exec_readFrame bs of
        Inl e \<Rightarrow> Inl e
      | Inr (p, _) \<Rightarrow>
          (case Exec_decodeStrict (xvRequest E) p of
             Inl e \<Rightarrow> Inl e
           | Inr req0 \<Rightarrow>
               let req = Exec_normalizeRequest E req0 in
               case Exec_validateRequest req of Some e \<Rightarrow> Inl e | None \<Rightarrow> Inr req))"

definition Exec_writeResponse :: "exec_env \<Rightarrow> conn \<Rightarrow> ExecResponse \<Rightarrow> exec_error option \<times> conn" where
  "Exec_writeResponse E w r =
     (case xvResponseText E (r\<lparr>xrProtocol := ExecProtocolVersion\<rparr>) of
        None \<Rightarrow> (Some ExecJSON, w)
      | Some p \<Rightarrow> Exec_writeFrame w p)"

definition Exec_readResponse :: "exec_env \<Rightarrow> bytes \<Rightarrow> exec_error + ExecResponse" where
  "Exec_readResponse E bs =
     (case Exec_readFrame bs of
        Inl e \<Rightarrow> Inl e
      | Inr (p, _) \<Rightarrow>
          (case Exec_decodeStrict (xvResponse E) p of
             Inl e \<Rightarrow> Inl e
           | Inr resp \<Rightarrow>
               if xrProtocol resp \<noteq> ExecProtocolVersion then Inl (ExecText ''sessionexec: wrong response protocol'')
               else Inr resp))"

section \<open>Server and client\<close>

definition Exec_code :: "exec_error \<Rightarrow> string" where
  "Exec_code err =
     (case err of
        ExecInvalidRequest \<Rightarrow> ''invalid_request''
      | ExecDenied \<Rightarrow> ''denied''
      | ExecActionNotFound \<Rightarrow> ''action_not_found''
      | ExecLimitExceeded \<Rightarrow> ''limit_exceeded''
      | ExecDeadlineExceeded \<Rightarrow> ''deadline_exceeded''
      | ExecCanceled \<Rightarrow> ''canceled''
      | _ \<Rightarrow> ''internal'')"

definition Exec_mapError :: "exec_env \<Rightarrow> exec_error \<Rightarrow> ExecResponseError" where
  "Exec_mapError E err = \<lparr>xeCode = Exec_code err, xeMessage = take 4096 (xvErrorText E err)\<rparr>"

definition Exec_errorResponse :: "exec_env \<Rightarrow> string \<Rightarrow> exec_error \<Rightarrow> ExecResponse" where
  "Exec_errorResponse E i err =
     execNoResponse\<lparr>xrProtocol := ExecProtocolVersion, xrID := i, xrExitCode := - 1, xrError := Some (Exec_mapError E err)\<rparr>"

definition answerOf :: "exec_env \<Rightarrow> ExecRequest \<Rightarrow> ExecResponse \<Rightarrow> exec_error option \<Rightarrow> ExecResponse" where
  "answerOf E req resp err =
     (case err of
        None \<Rightarrow> resp
      | Some e \<Rightarrow> resp\<lparr>xrError := Some (Exec_mapError E e), xrProtocol := ExecProtocolVersion, xrID := xqID req\<rparr>)"

text \<open>
  \<open>bs\<close> are the bytes the stream still delivers. The result are the commands started, the stream and the
  error returned.
\<close>

definition Exec_Serve ::
  "exec_env \<Rightarrow> exec_error option \<Rightarrow> (exec_command \<Rightarrow> exec_run) \<Rightarrow> ExecEngine option \<Rightarrow> conn option \<Rightarrow> bytes \<Rightarrow> bytes \<Rightarrow>
     exec_command list \<times> conn option \<times> exec_error option" where
  "Exec_Serve E acquire run eo stream raw bs =
     (case (eo, stream) of
        (Some e, Some w) \<Rightarrow>
          (case Exec_ParseOpenMetadata E raw of
             Inl err \<Rightarrow> ([], Some (w\<lparr>cnClosed := True\<rparr>), Some err)
           | Inr m \<Rightarrow>
               (case Exec_readRequest E bs of
                  Inl err \<Rightarrow> ([], Some ((snd (Exec_writeResponse E w (Exec_errorResponse E [] err)))\<lparr>cnClosed := True\<rparr>), None)
                | Inr req \<Rightarrow>
                    (case Exec_Execute E acquire run (Some e) m req of
                       (cmds, resp, execErr) \<Rightarrow>
                         (case Exec_writeResponse E w (answerOf E req resp execErr) of
                            (err, w') \<Rightarrow> (cmds, Some (w'\<lparr>cnClosed := True\<rparr>), err)))))
      | _ \<Rightarrow> ([], stream, Some (ExecText ''sessionexec: incomplete server'')))"

text \<open>The client in two parts: what it writes, and what it makes of the answer.\<close>

definition CallStream_send :: "exec_env \<Rightarrow> conn \<Rightarrow> ExecRequest \<Rightarrow> (exec_error + ExecRequest) \<times> conn" where
  "CallStream_send E w req0 =
     (let req = Exec_normalizeRequest E req0 in
      case Exec_validateRequest req of
        Some e \<Rightarrow> (Inl e, w)
      | None \<Rightarrow> (case Exec_writeRequest E w req of (Some e, w') \<Rightarrow> (Inl e, w') | (None, w') \<Rightarrow> (Inr req, w')))"

definition CallStream_receive :: "exec_env \<Rightarrow> ExecRequest \<Rightarrow> bytes \<Rightarrow> ExecResponse \<times> exec_error option" where
  "CallStream_receive E req bs =
     (case Exec_readResponse E bs of
        Inl e \<Rightarrow> (execNoResponse, Some e)
      | Inr resp \<Rightarrow>
          if xrID resp \<noteq> xqID req then (execNoResponse, Some (ExecText ''sessionexec: response ID mismatch''))
          else case xrError resp of
              Some re \<Rightarrow> (resp, Some (ExecRemote (xeCode re) (xeMessage re)))
            | None \<Rightarrow> (resp, None))"

section \<open>Calls side by side\<close>

definition Sem_acquire :: "string \<Rightarrow> ExecEngine \<Rightarrow> ExecEngine option" where
  "Sem_acquire n e =
     (case map_of (xnActions e) n of
        None \<Rightarrow> None
      | Some rt \<Rightarrow>
          if int (arSem rt) < arCap rt then Some (e\<lparr>xnActions := AList.update n (rt\<lparr>arSem := Suc (arSem rt)\<rparr>) (xnActions e)\<rparr>)
          else None)"

definition Sem_release :: "string \<Rightarrow> ExecEngine \<Rightarrow> ExecEngine" where
  "Sem_release n e =
     (case map_of (xnActions e) n of
        None \<Rightarrow> e
      | Some rt \<Rightarrow> e\<lparr>xnActions := AList.update n (rt\<lparr>arSem := arSem rt - 1\<rparr>) (xnActions e)\<rparr>)"

record exec_state =
  exEngine :: ExecEngine
  exRunning :: "(ExecOpenMetadata \<times> admission) list"

inductive exec_step :: "exec_env \<Rightarrow> exec_state \<Rightarrow> exec_state \<Rightarrow> bool" for E where
  start: "\<lbrakk>Execute_admit E (exEngine s) m req = Inr ad; Sem_acquire (xqAction (adRequest ad)) (exEngine s) = Some e\<rbrakk> \<Longrightarrow>
    exec_step E s (s\<lparr>exEngine := e, exRunning := (m, ad) # exRunning s\<rparr>)"
| finish: "exRunning s = us @ (m, ad) # vs \<Longrightarrow>
    exec_step E s (s\<lparr>exEngine := Sem_release (xqAction (adRequest ad)) (exEngine s), exRunning := us @ vs\<rparr>)"

section \<open>Slots\<close>

text \<open>A pool that hands out slots by key: what an acquisition and a release do to the slots in use.\<close>

locale slot_pool =
  fixes acquire :: "'k \<Rightarrow> 'e \<Rightarrow> 'e option" and release :: "'k \<Rightarrow> 'e \<Rightarrow> 'e"
    and used :: "'e \<Rightarrow> 'k \<Rightarrow> int" and cap :: "'e \<Rightarrow> 'k \<Rightarrow> int"
  assumes acquire_iff: "acquire k e \<noteq> None \<longleftrightarrow> used e k < cap e k"
    and acquire_used: "acquire k e = Some e' \<Longrightarrow> used e' = (used e)(k := used e k + 1)"
    and acquire_cap: "acquire k e = Some e' \<Longrightarrow> cap e' = cap e"
    and release_used: "0 < used e k \<Longrightarrow> used (release k e) = (used e)(k := used e k - 1)"
    and release_cap: "cap (release k e) = cap e"
begin

definition pool_inv :: "'e \<Rightarrow> 'k list \<Rightarrow> bool" where
  "pool_inv e ks \<longleftrightarrow> (\<forall>k. used e k = int (count_list ks k) \<and> used e k \<le> cap e k)"

lemma pool_start:
  assumes "pool_inv e ks" "acquire k e = Some e'"
  shows "pool_inv e' (k # ks)"
proof -
  note r = acquire_used [OF assms(2)] acquire_cap [OF assms(2)]
  have u: "used e j = int (count_list ks j)" "used e j \<le> cap e j" for j
    using assms(1) unfolding pool_inv_def by blast+
  have "used e k < cap e k" using acquire_iff [of k e] assms(2) by simp
  then have "used e' j = int (count_list (k # ks) j) \<and> used e' j \<le> cap e' j" for j
    using u [of j] by (auto simp: r)
  then show ?thesis unfolding pool_inv_def by blast
qed

lemma pool_finish:
  assumes "pool_inv e (us @ k # vs)"
  shows "pool_inv (release k e) (us @ vs)"
proof -
  have u: "used e j = int (count_list (us @ k # vs) j)" "used e j \<le> cap e j" for j
    using assms unfolding pool_inv_def by blast+
  have "0 < used e k" using u(1) [of k] by simp
  note r = release_used [OF this] release_cap [of k e]
  have "used (release k e) j = int (count_list (us @ vs) j) \<and> used (release k e) j \<le> cap (release k e) j" for j
    using u [of j] by (auto simp: r split: if_splits)
  then show ?thesis unfolding pool_inv_def by blast
qed

lemma pool_free: "pool_inv e ks \<Longrightarrow> acquire k e \<noteq> None \<longleftrightarrow> int (count_list ks k) < cap e k"
  using acquire_iff [of k e] by (simp add: pool_inv_def)

end

definition semUsed :: "ExecEngine \<Rightarrow> string \<Rightarrow> int" where
  "semUsed e n = (case map_of (xnActions e) n of None \<Rightarrow> 0 | Some rt \<Rightarrow> int (arSem rt))"

definition semCap :: "ExecEngine \<Rightarrow> string \<Rightarrow> int" where
  "semCap e n = (case map_of (xnActions e) n of None \<Rightarrow> 0 | Some rt \<Rightarrow> arCap rt)"

interpretation sem: slot_pool Sem_acquire Sem_release semUsed semCap
proof
  fix n e e'
  show "Sem_acquire n e \<noteq> None \<longleftrightarrow> semUsed e n < semCap e n"
    by (simp add: Sem_acquire_def semUsed_def semCap_def split: option.split)
  show "semUsed e' = (semUsed e)(n := semUsed e n + 1)" if "Sem_acquire n e = Some e'"
    using that by (auto simp: Sem_acquire_def semUsed_def update_conv fun_eq_iff split: option.splits if_splits)
  show "semCap e' = semCap e" if "Sem_acquire n e = Some e'"
    using that by (auto simp: Sem_acquire_def semCap_def update_conv fun_eq_iff split: option.splits if_splits)
  show "semUsed (Sem_release n e) = (semUsed e)(n := semUsed e n - 1)" if "0 < semUsed e n"
    using that by (auto simp: Sem_release_def semUsed_def update_conv fun_eq_iff of_nat_diff split: option.splits)
  show "semCap (Sem_release n e) = semCap e"
    by (auto simp: Sem_release_def semCap_def update_conv fun_eq_iff split: option.splits)
qed

text \<open>Two engines that differ at most in the slots in use.\<close>

definition same_engine :: "ExecEngine \<Rightarrow> ExecEngine \<Rightarrow> bool" where
  "same_engine e e' \<longleftrightarrow> xnTopology e' = xnTopology e \<and> xnChainSHA256 e' = xnChainSHA256 e \<and> xnCurrentNode e' = xnCurrentNode e
     \<and> (\<forall>n. map_option arPolicy (map_of (xnActions e') n) = map_option arPolicy (map_of (xnActions e) n))"

lemma same_acquire: "Sem_acquire n e = Some e' \<Longrightarrow> same_engine e e'"
  by (auto simp: Sem_acquire_def same_engine_def update_conv split: option.splits if_splits)

lemma same_release: "same_engine e (Sem_release n e)"
  by (auto simp: Sem_release_def same_engine_def update_conv split: option.splits)

lemma same_engine_trans: "same_engine e e' \<Longrightarrow> same_engine e' e'' \<Longrightarrow> same_engine e e''"
  by (simp add: same_engine_def)

lemma admit_same:
  assumes "same_engine e e'"
  shows "Execute_admit E e' m req = Execute_admit E e m req"
proof -
  let ?n = "xqAction (Exec_normalizeRequest E req)"
  have "map_option arPolicy (map_of (xnActions e') ?n) = map_option arPolicy (map_of (xnActions e) ?n)"
    using assms by (simp add: same_engine_def)
  with assms show ?thesis
    by (cases "Exec_validateRequest (Exec_normalizeRequest E req)"; cases "map_of (xnActions e') ?n"; cases "map_of (xnActions e) ?n")
      (simp_all add: Execute_admit_def same_engine_def Let_def)
qed

abbreviation actionOf :: "ExecOpenMetadata \<times> admission \<Rightarrow> string" where
  "actionOf r \<equiv> xqAction (adRequest (snd r))"

definition exec_inv :: "exec_env \<Rightarrow> ExecEngine \<Rightarrow> exec_state \<Rightarrow> bool" where
  "exec_inv E e s \<longleftrightarrow> same_engine e (exEngine s) \<and> semCap (exEngine s) = semCap e
     \<and> sem.pool_inv (exEngine s) (map actionOf (exRunning s))
     \<and> (\<forall>(m, ad) \<in> set (exRunning s). \<exists>req. Execute_admit E e m req = Inr ad)"

lemma exec_step_inv:
  assumes "exec_step E s s'" "exec_inv E e s"
  shows "exec_inv E e s'"
  using assms
proof cases
  case (start m req ad e')
  have "Execute_admit E e m req = Inr ad"
    using start(2) assms(2) admit_same [of e "exEngine s"] by (simp add: exec_inv_def)
  then show ?thesis
    using start assms(2) same_acquire same_engine_trans sem.acquire_cap sem.pool_start
    by (fastforce simp: exec_inv_def)
next
  case (finish us m ad vs)
  have "sem.pool_inv (exEngine s) (map actionOf us @ xqAction (adRequest ad) # map actionOf vs)"
    using assms(2) finish(2) by (simp add: exec_inv_def)
  from sem.pool_finish [OF this] show ?thesis
    using finish assms(2) same_release same_engine_trans sem.release_cap by (auto simp: exec_inv_def)
qed

lemma exec_reachable_inv:
  assumes "(exec_step E)\<^sup>*\<^sup>* s s'" "exec_inv E e s"
  shows "exec_inv E e s'"
  using assms by (induction rule: rtranclp_induct) (simp_all add: exec_step_inv)

lemma NewEngine_inv:
  assumes "Exec_NewEngine E config = Inr e"
  shows "exec_inv E e \<lparr>exEngine = e, exRunning = []\<rparr>"
proof -
  have "semUsed e n = 0 \<and> 0 \<le> semCap e n" for n
  proof (cases "map_of (xnActions e) n")
    case (Some rt)
    then obtain a l where "arSem rt = 0" "limits E a = Inr l" "arCap rt = elMaxParallel l"
      using Exec_NewEngine_Inr(5) [OF assms Some] by (auto simp: freshRuntime_def)
    then show ?thesis using limits_Inr(3) [of E a l] by (simp add: semUsed_def semCap_def Some)
  qed (simp add: semUsed_def semCap_def)
  then show ?thesis by (simp add: exec_inv_def same_engine_def sem.pool_inv_def)
qed

text \<open>
  C34: Any number of calls side by side on a new engine: the commands of an action that run at once never
  exceed the action's limit, which is at most 1024; a slot is free exactly when fewer run; and everything
  that runs was admitted by the policy.
\<close>

theorem exec_slots:
  assumes "Exec_NewEngine E config = Inr e" "(exec_step E)\<^sup>*\<^sup>* \<lparr>exEngine = e, exRunning = []\<rparr> s"
    "map_of (xnActions e) n = Some rt"
  shows "int (length (filter (\<lambda>r. actionOf r = n) (exRunning s))) \<le> arCap rt \<and> arCap rt \<le> 1024
    \<and> (Sem_acquire n (exEngine s) \<noteq> None \<longleftrightarrow> int (length (filter (\<lambda>r. actionOf r = n) (exRunning s))) < arCap rt)
    \<and> (\<forall>(m, ad) \<in> set (exRunning s). \<exists>req. Execute_admit E e m req = Inr ad)"
proof -
  have inv: "exec_inv E e s" using exec_reachable_inv [OF assms(2)] NewEngine_inv [OF assms(1)] by blast
  have c: "count_list (map actionOf rs) n = length (filter (\<lambda>r. actionOf r = n) rs)" for rs :: "(ExecOpenMetadata \<times> admission) list"
    by (induction rs) auto
  have k: "semCap (exEngine s) n = arCap rt" using inv assms(3) by (simp add: exec_inv_def semCap_def)
  have p: "sem.pool_inv (exEngine s) (map actionOf (exRunning s))" using inv by (simp add: exec_inv_def)
  then have "int (length (filter (\<lambda>r. actionOf r = n) (exRunning s))) \<le> arCap rt"
    unfolding sem.pool_inv_def using k c by metis
  moreover have "arCap rt \<le> 1024"
    using Exec_NewEngine_Inr(5) [OF assms(1,3)] limits_Inr(4) by (auto simp: freshRuntime_def)
  ultimately show ?thesis using sem.pool_free [OF p, of n] k c inv by (simp add: exec_inv_def)
qed

section \<open>Commands stay within the policy\<close>

lemma Execute_admit_Inr:
  assumes "Execute_admit E e m req0 = Inr ad"
  obtains rt where "xmTargetNode m = xnCurrentNode e" "xmChainSHA256 m = xnChainSHA256 e"
    "0 \<le> Exec_indexOf (xnTopology e) (xmSourceNode m)" "adRequest ad = Exec_normalizeRequest E req0"
    "map_of (xnActions e) (xqAction (adRequest ad)) = Some rt" "Exec_sourceAllowed (apSources (arPolicy rt)) (xmSourceNode m)"
    "\<And>l. limits E (arPolicy rt) = Inr l \<Longrightarrow>
       int (length (xqArgs (adRequest ad))) \<le> elMaxArgs l \<and> int (length (xqStdin (adRequest ad))) \<le> elMaxIn l
       \<and> adCommand ad = actionCommand (arPolicy rt) (adRequest ad) (requestTimeout (adRequest ad) (elTimeout l))
       \<and> adMaxOut ad = elMaxOut l \<and> adMaxErr ad = elMaxErr l"
    "\<not> list_ex invalidArg (xqArgs (adRequest ad))"
proof -
  let ?q = "Exec_normalizeRequest E req0"
  have g: "xmTargetNode m = xnCurrentNode e" "xmChainSHA256 m = xnChainSHA256 e" "0 \<le> Exec_indexOf (xnTopology e) (xmSourceNode m)"
    using assms unfolding Execute_admit_def guards by simp_all
  obtain rt where rt: "Exec_validateRequest ?q = None" "map_of (xnActions e) (xqAction ?q) = Some rt"
    using assms g by (auto simp: Execute_admit_def Let_def split: option.splits)
  note c = assms [unfolded Execute_admit_def Let_def guards rt option.case]
  show ?thesis by (rule that [of rt]) (use c g rt in \<open>auto simp: not_less\<close>)
qed

lemma requestTimeout_le: "requestTimeout req t \<le> t"
  by (simp add: requestTimeout_def Let_def)

lemma Exec_indexFrom_found: "0 \<le> i \<Longrightarrow> 0 \<le> Exec_indexFrom i vs want \<longleftrightarrow> want \<in> TrimSpace ` set vs"
  by (induction i vs want rule: Exec_indexFrom.induct) auto

lemma Exec_indexOf_found: "0 \<le> Exec_indexOf vs want \<longleftrightarrow> want \<in> TrimSpace ` set vs"
  by (simp add: Exec_indexOf_def Exec_indexFrom_found)

lemma Exec_Serve_commands:
  assumes "Exec_Serve E acquire run eo stream raw bs = (cmds, w', err)" "c \<in> set cmds"
  obtains e m req ad where "eo = Some e" "Exec_ParseOpenMetadata E raw = Inr m" "Execute_admit E e m req = Inr ad"
    "c = adCommand ad" "cmds = [c]"
  using assms by (auto simp: Exec_Serve_def Exec_Execute_def split: option.splits sum.splits prod.splits)

text \<open>What a command may be: \<open>a\<close> the action it runs, \<open>l\<close> the action's limits.\<close>

definition commandOf :: "ActionPolicy \<Rightarrow> exec_limits \<Rightarrow> exec_command \<Rightarrow> bool" where
  "commandOf a l c \<longleftrightarrow>
     ecPath c = apExecutable a \<and> IsAbs (ecPath c) \<and> ecDir c = apWorkDir a \<and> ecEnv c = explicitEnv (apEnv a)
     \<and> list_all (\<lambda>(k, _). \<not> credentialKey k) (apEnv a)
     \<and> (\<exists>args. ecArgs c = apFixedArgs a @ args \<and> int (length args) \<le> elMaxArgs l)
     \<and> list_all (\<lambda>arg. int (length arg) \<le> ExecMaxArgBytes \<and> NulByte \<notin> set arg) (ecArgs c)
     \<and> int (length (ecStdin c)) \<le> elMaxIn l \<and> ecTimeout c \<le> elTimeout l"

lemma commandOf_action:
  assumes "action_ok E a" "limits E a = Inr l" "int (length (xqArgs req)) \<le> elMaxArgs l"
    "int (length (xqStdin req)) \<le> elMaxIn l" "\<not> list_ex invalidArg (xqArgs req)"
  shows "commandOf a l (actionCommand a req (requestTimeout req (elTimeout l)))"
proof -
  have "list_all (\<lambda>(k, _). \<not> credentialKey k) (apEnv a)"
    using assms(1) by (auto simp: action_ok_def list_all_iff)
  moreover have "list_all (\<lambda>arg. int (length arg) \<le> ExecMaxArgBytes \<and> NulByte \<notin> set arg) (apFixedArgs a @ xqArgs req)"
    using assms(1,5) by (auto simp: action_ok_def list_all_iff list_ex_iff invalidArg_def not_less)
  ultimately show ?thesis
    using assms by (auto simp: commandOf_def actionCommand_def action_ok_def requestTimeout_le)
qed

text \<open>
  C17: Whatever metadata and bytes a peer sends to the server of a parsed policy, a command that starts is
  the only one of the call and runs an action of the policy: its executable, directory and environment,
  its fixed arguments followed by at most as many others as it allows, all of them of bounded length and
  without a zero byte, with bounded input and at most its timeout, and with no credential in its
  environment. The metadata name a source of the topology that the action allows, this node as the
  target, and this chain.
\<close>

theorem exec_within_policy:
  assumes "ParsePolicy E data = Inr p" "Exec_NewEngine E config = Inr e" "xcPolicy config = p"
    "Exec_Serve E acquire run (Some e) (Some w) raw bs = (cmds, w', err)" "c \<in> set cmds"
  shows "cmds = [c] \<and> (\<exists>m a l. Exec_ParseOpenMetadata E raw = Inr m \<and> a \<in> set (xpActions p) \<and> limits E a = Inr l
    \<and> Exec_sourceAllowed (apSources a) (xmSourceNode m) \<and> xmSourceNode m \<in> TrimSpace ` set (xcTopology config)
    \<and> xmTargetNode m = TrimSpace (xcCurrentNode config) \<and> xmChainSHA256 m = ToLower (TrimSpace (xcChainSHA256 config))
    \<and> commandOf a l c)"
proof -
  obtain e' m req ad where e': "Some e = Some e'" and s: "Exec_ParseOpenMetadata E raw = Inr m"
    "Execute_admit E e' m req = Inr ad" "c = adCommand ad" "cmds = [c]" by (rule Exec_Serve_commands [OF assms(4,5)])
  note n = Exec_NewEngine_Inr [OF assms(2)]
  have "Execute_admit E e m req = Inr ad" using s(2) e' by simp
  then obtain rt where rt: "xmTargetNode m = xnCurrentNode e" "xmChainSHA256 m = xnChainSHA256 e"
    "0 \<le> Exec_indexOf (xnTopology e) (xmSourceNode m)" "map_of (xnActions e) (xqAction (adRequest ad)) = Some rt"
    "Exec_sourceAllowed (apSources (arPolicy rt)) (xmSourceNode m)" "\<not> list_ex invalidArg (xqArgs (adRequest ad))"
    "\<And>l. limits E (arPolicy rt) = Inr l \<Longrightarrow>
       int (length (xqArgs (adRequest ad))) \<le> elMaxArgs l \<and> int (length (xqStdin (adRequest ad))) \<le> elMaxIn l
       \<and> adCommand ad = actionCommand (arPolicy rt) (adRequest ad) (requestTimeout (adRequest ad) (elTimeout l))"
    by (rule Execute_admit_Inr) blast
  from n(5) [OF rt(4)] obtain l where a: "arPolicy rt \<in> set (xpActions p)" and l: "limits E (arPolicy rt) = Inr l"
    unfolding freshRuntime_def assms(3) by blast
  have "action_ok E (arPolicy rt)" using ParsePolicy_ok(1) [OF assms(1)] a by (simp add: list_all_iff)
  with rt(6) rt(7) [OF l] l have "commandOf (arPolicy rt) l c" using commandOf_action s(3) by simp
  then show ?thesis using s(1,4) a l rt(1,2,3,5) n(1-3) Exec_indexOf_found by auto
qed

section \<open>Output is capped\<close>

lemma capped_Write_prefix:
  assumes "cbBuf c = take (nat (cbMax c)) xs" "\<not> cbTruncated c \<longrightarrow> cbBuf c = xs" "0 \<le> cbMax c"
  shows "cbBuf (capped_Write c p) = take (nat (cbMax c)) (xs @ p)
    \<and> (\<not> cbTruncated (capped_Write c p) \<longrightarrow> cbBuf (capped_Write c p) = xs @ p) \<and> cbMax (capped_Write c p) = cbMax c"
proof (cases "int (length xs) < cbMax c")
  case True
  then have x: "cbBuf c = xs" using assms(1) by simp
  have "nat (cbMax c - int (length xs)) = nat (cbMax c) - length xs" by simp
  then show ?thesis using True x assms(2) by (auto simp: capped_Write_def Let_def)
next
  case False
  then have n: "nat (cbMax c) \<le> length xs" by linarith
  then have "int (length (cbBuf c)) = cbMax c" using assms(1,3) by simp
  with n show ?thesis using False assms(1,3) by (simp add: capped_Write_def Let_def)
qed

lemma capped_writes:
  assumes "cbBuf c = take (nat (cbMax c)) xs" "\<not> cbTruncated c \<longrightarrow> cbBuf c = xs" "0 \<le> cbMax c"
  shows "cbBuf (foldl capped_Write c ps) = take (nat (cbMax c)) (xs @ concat ps)
    \<and> (\<not> cbTruncated (foldl capped_Write c ps) \<longrightarrow> cbBuf (foldl capped_Write c ps) = xs @ concat ps)"
  using assms
proof (induction ps arbitrary: c xs)
  case (Cons p ps)
  let ?c = "capped_Write c p"
  note w = capped_Write_prefix [OF Cons.prems, of p]
  then have m: "cbMax ?c = cbMax c" by blast
  have "cbBuf ?c = take (nat (cbMax ?c)) (xs @ p)" "\<not> cbTruncated ?c \<longrightarrow> cbBuf ?c = xs @ p" "0 \<le> cbMax ?c"
    using w m Cons.prems(3) unfolding m by blast+
  from Cons.IH [OF this] show ?case unfolding m foldl_Cons concat.simps append_assoc .
qed simp

lemma Execute_finish_ok:
  assumes "Execute_finish ad r = (resp, None)" "0 \<le> adMaxOut ad" "0 \<le> adMaxErr ad"
  shows "xrStdout resp = concat (rnStdout r)" "xrStderr resp = concat (rnStderr r)" "rnError r = None" "rnContext r = None"
  using assms capped_writes [of "newBuffer (adMaxOut ad)" "[]" "rnStdout r"] capped_writes [of "newBuffer (adMaxErr ad)" "[]" "rnStderr r"]
  by (auto simp: Execute_finish_def Let_def newBuffer_def split: if_splits)

section \<open>Client and server\<close>

lemma Exec_frame_roundtrip:
  assumes "Exec_writeFrame w p = (None, w')"
  shows "\<exists>h. cnOut w' = cnOut w @ h @ p \<and> Exec_readFrame (h @ p) = Inr (p, [])"
proof -
  let ?h = "put_uint32 (of_nat (length p))"
  have n: "p \<noteq> []" "int (length p) \<le> ExecMaxMessageBytes"
    using assms by (auto simp: Exec_writeFrame_def split: if_splits)
  obtain w1 where "writeFull w ?h = (None, w1)" "writeFull w1 p = (None, w')"
    using assms n by (auto simp: Exec_writeFrame_def map_prod_def split: prod.splits option.splits if_splits)
  then have o: "cnOut w' = cnOut w @ ?h @ p" using writeFull_ok by fastforce
  have l: "length p < 2 ^ 32" using n(2) by simp
  then have u: "unat (of_nat (length p) :: u32) = length p" by (simp add: unat_of_nat)
  have "(of_nat (length p) :: u32) \<noteq> 0" using n(1) u by (metis length_0_conv unat_0)
  moreover have "\<not> 16777216 < (of_nat (length p) :: u32)" using n(2) u by (simp add: word_less_nat_alt)
  ultimately have "Exec_readFrame (?h @ p) = Inr (p, [])"
    using ReadFull_append [of p "length p" "[]"] by (simp add: Exec_readFrame_def u Let_def)
  with o show ?thesis by blast
qed

text \<open>The encoder and the strict decoder of requests and answers fit each other.\<close>

definition exec_json_faithful :: "exec_env \<Rightarrow> bool" where
  "exec_json_faithful E \<longleftrightarrow>
     (\<forall>r p. xvRequestText E r = Some p \<longrightarrow> xvRequest E p = Some (r, True))
     \<and> (\<forall>r p. xvResponseText E r = Some p \<longrightarrow> xvResponse E p = Some (r, True))"

lemma normalizeRequest_idem:
  assumes "TrimSpace (xvNewRequestID E) = xvNewRequestID E" "xqID (Exec_normalizeRequest E r) \<noteq> []"
  shows "Exec_normalizeRequest E (Exec_normalizeRequest E r) = Exec_normalizeRequest E r"
  using assms by (simp add: Exec_normalizeRequest_def)

lemma sent_request_read:
  assumes "exec_json_faithful E" "CallStream_send E w req0 = (Inr req, w1)" "cnOut w = []"
    "TrimSpace (xvNewRequestID E) = xvNewRequestID E"
  shows "Exec_readRequest E (cnOut w1) = Inr req" "Exec_normalizeRequest E req = req"
proof -
  have v: "Exec_validateRequest req = None" and wr: "Exec_writeRequest E w req = (None, w1)" and q: "req = Exec_normalizeRequest E req0"
    using assms(2) by (auto simp: CallStream_send_def Let_def split: option.splits prod.splits)
  show i: "Exec_normalizeRequest E req = req"
    using v normalizeRequest_idem [OF assms(4), of req0] unfolding q Exec_validateRequest_def guards by blast
  obtain p where p: "xvRequestText E req = Some p" "Exec_writeFrame w p = (None, w1)"
    using wr by (auto simp: Exec_writeRequest_def split: option.splits)
  have "xvRequest E p = Some (req, True)" using assms(1) p(1) by (simp add: exec_json_faithful_def)
  then show "Exec_readRequest E (cnOut w1) = Inr req"
    using Exec_frame_roundtrip [OF p(2)] assms(3) v i by (auto simp: Exec_readRequest_def Exec_decodeStrict_def)
qed

lemma answer_read:
  assumes "exec_json_faithful E" "Exec_writeResponse E v r = (None, v')" "cnOut v = []"
  shows "Exec_readResponse E (cnOut v') = Inr (r\<lparr>xrProtocol := ExecProtocolVersion\<rparr>)"
proof -
  let ?r = "r\<lparr>xrProtocol := ExecProtocolVersion\<rparr>"
  obtain p where p: "xvResponseText E ?r = Some p" "Exec_writeFrame v p = (None, v')"
    using assms(2) by (auto simp: Exec_writeResponse_def split: option.splits)
  have "xvResponse E p = Some (?r, True)" using assms(1) p(1) by (simp add: exec_json_faithful_def)
  then show ?thesis
    using Exec_frame_roundtrip [OF p(2)] assms(3) by (auto simp: Exec_readResponse_def Exec_decodeStrict_def)
qed

lemma Execute_answer:
  assumes "Exec_Execute E acquire run (Some e) m req = (cmds, resp, err)" "Exec_normalizeRequest E req = req"
  shows "(answerOf E req resp err)\<lparr>xrProtocol := ExecProtocolVersion\<rparr> = answerOf E req resp err"
    "xrID (answerOf E req resp err) = xqID req" "xrError (answerOf E req resp err) = map_option (Exec_mapError E) err"
proof -
  have "err = None \<Longrightarrow> xrProtocol resp = ExecProtocolVersion \<and> xrID resp = xqID req" and n: "xrError resp = None"
    using assms by (auto simp: Exec_Execute_def Execute_finish_def execNoResponse_def Let_def elim!: Execute_admit_Inr
        split: option.splits sum.splits)
  then show "(answerOf E req resp err)\<lparr>xrProtocol := ExecProtocolVersion\<rparr> = answerOf E req resp err"
    "xrID (answerOf E req resp err) = xqID req" "xrError (answerOf E req resp err) = map_option (Exec_mapError E) err"
    by (simp_all add: answerOf_def split: option.split)
qed

text \<open>
  A client's call reaches the server: when the client's request and the server's answer are written
  without error, in whatever pieces the streams take them, the server runs the request the client
  normalized, and the client returns what running it gave. An error of the server comes back as its code
  and its text cut to 4096 bytes.
\<close>

theorem exec_exchange:
  assumes "exec_json_faithful E" "TrimSpace (xvNewRequestID E) = xvNewRequestID E"
    "CallStream_send E w req0 = (Inr req, w1)" "cnOut w = []" "Exec_ParseOpenMetadata E raw = Inr m"
    "Exec_Serve E acquire run (Some e) (Some v) raw (cnOut w1) = (cmds, Some v', None)" "cnOut v = []"
  shows "\<exists>resp err. Exec_Execute E acquire run (Some e) m req = (cmds, resp, err)
    \<and> CallStream_receive E req (cnOut v') =
        (answerOf E req resp err, map_option (\<lambda>x. ExecRemote (Exec_code x) (take 4096 (xvErrorText E x))) err)"
proof -
  note r = sent_request_read [OF assms(1,3,4,2)]
  obtain resp err where x: "Exec_Execute E acquire run (Some e) m req = (cmds, resp, err)"
    using assms(6) by (auto simp: Exec_Serve_def assms(5) r(1) split: prod.splits)
  obtain v1 where "Exec_writeResponse E v (answerOf E req resp err) = (None, v1)" "v' = v1\<lparr>cnClosed := True\<rparr>"
    using assms(6) by (auto simp: Exec_Serve_def assms(5) r(1) x split: prod.splits)
  then have "Exec_readResponse E (cnOut v') = Inr (answerOf E req resp err)"
    using answer_read [OF assms(1) _ assms(7)] Execute_answer(1) [OF x r(2)] by simp
  then show ?thesis
    using x Execute_answer(2,3) [OF x r(2)] by (auto simp: CallStream_receive_def Exec_mapError_def split: option.split)
qed

section \<open>Where the source of a request comes from\<close>

text \<open>What JSON gives back of metadata whose texts are ASCII.\<close>

definition metadata_ascii :: "ExecOpenMetadata \<Rightarrow> bool" where
  "metadata_ascii m = list_all (\<lambda>c. (of_char c :: nat) < 128)
     (xmProtocol m @ xmTargetNode m @ xmSourceNode m @ xmSourceBinding m @ xmChainSHA256 m)"

definition metadata_faithful :: "exec_env \<Rightarrow> bool" where
  "metadata_faithful E \<longleftrightarrow>
     (\<forall>m p. metadata_ascii m \<and> xvMetadataText E m = Some p \<longrightarrow> p \<noteq> [] \<and> xvMetadata E p = Some (m, True))"

lemma nameChar_ascii: "Exec_nameChar c \<Longrightarrow> (of_char c :: nat) < 128"
proof -
  assume n: "Exec_nameChar c"
  have "(of_char c :: nat) \<le> 122" if "lowerLetter c \<or> upperLetter c \<or> isDigit c"
    using that unfolding lowerLetter_def upperLetter_def isDigit_def Let_def by linarith
  then show ?thesis using n unfolding Exec_nameChar_def by force
qed

lemma trimMetadata_idem: "trimMetadata (trimMetadata m) = trimMetadata m"
  by (simp add: trimMetadata_def TrimSpace_ToLower)

lemma ParseOpenMetadata_Inr:
  assumes "Exec_ParseOpenMetadata E raw = Inr m"
  shows "trimMetadata m = m" "xmProtocol m = ExecOpenProtocolVersion"
  using assms by (auto simp: Exec_ParseOpenMetadata_def Let_def trimMetadata_idem split: if_splits sum.splits)

text \<open>
  C39: Metadata in ASCII that already carry a valid source, a binding of at most 512 bytes and the digest of
  the broker's chain pass the broker with that source and binding, whoever wrote them, for every valid
  target and if their text fits the limit of 4096 bytes: \<open>BindSource\<close> succeeds, its result is the same for
  every node and binding of the broker, and the target reads the source and the binding the sender wrote.
\<close>

theorem claimed_source_kept:
  assumes "metadata_faithful E" "metadata_ascii m" "Exec_ParseOpenMetadata E raw = Inr m"
    and m: "Exec_validName (xmSourceNode m)" "xmSourceBinding m \<noteq> []" "length (xmSourceBinding m) \<le> 512"
      "xmChainSHA256 m = ToLower (TrimSpace chain)" "length (xmChainSHA256 m) = 64"
    and t: "Exec_validName target" "xvMetadataText E (m\<lparr>xmTargetNode := TrimSpace target\<rparr>) = Some out"
      "int (length out) \<le> ExecMaxOpenMetadataBytes"
  shows "Exec_BindSource E raw source binding chain target = Inr out
    \<and> Exec_ParseOpenMetadata E out = Inr (m\<lparr>xmTargetNode := TrimSpace target\<rparr>)"
proof -
  let ?b = "m\<lparr>xmTargetNode := TrimSpace target\<rparr>"
  note p = ParseOpenMetadata_Inr [OF assms(3)]
  have v: "Exec_validName (TrimSpace target)" using t(1) by (simp add: Exec_validName_def)
  have "\<not> Exec_validName []" by code_simp
  then have "xmSourceNode m \<noteq> []" using m(1) by metis
  then have "boundMetadata m source binding chain target = Inr ?b" using m(4) by (simp add: boundMetadata_def Let_def)
  then have b: "Exec_BindSource E raw source binding chain target = Inr out"
    using m(1-3,5) v t(2) by (simp add: Exec_BindSource_def assms(3))
  have "list_all (\<lambda>c. (of_char c :: nat) < 128) (TrimSpace target)"
    using v nameChar_ascii unfolding Exec_validName_def Let_def TrimSpace_idem list_all_iff by metis
  then have "metadata_ascii ?b" using assms(2) by (simp add: metadata_ascii_def)
  then have o: "out \<noteq> []" "xvMetadata E out = Some (?b, True)" using assms(1) t(2) unfolding metadata_faithful_def by blast+
  have "trimMetadata ?b = ?b" using p(1) by (cases m) (auto simp: trimMetadata_def)
  then have "Exec_ParseOpenMetadata E out = Inr ?b"
    using o t(3) v p(2) by (simp add: Exec_ParseOpenMetadata_def Exec_decodeStrict_def Let_def)
  with b show ?thesis by blast
qed

text \<open>A request for some 292 years wraps round to a timeout in the past.\<close>

lemma exec_timeout_wraps:
  assumes "xqTimeoutMillis req = 9223372036855" "0 < t"
  shows "requestTimeout req t < 0"
  using assms by (simp add: requestTimeout_def go_int64_def Let_def)

section \<open>An example\<close>

text \<open>
  Node \<open>target\<close> offers \<open>echo\<close> to \<open>origin\<close>. The decoders know one policy, one request, its answer, the
  metadata a broker sends and those a client may write.
\<close>

abbreviation demo_chain :: string where
  "demo_chain \<equiv> replicate 64 (CHR ''a'')"

definition demo_action :: ActionPolicy where
  "demo_action = \<lparr>apName = ''echo'', apExecutable = ''/bin/echo'', apFixedArgs = [''-n''], apWorkDir = [], apEnv = [(''LANG'', ''C'')],
     apSources = [''origin''], apTimeout = [], apMaxParallel = 1, apMaxArgs = 4, apMaxStdinBytes = 0, apMaxStdoutBytes = 1024,
     apMaxStderrBytes = 0\<rparr>"

definition demo_exec_policy :: ExecPolicy where
  "demo_exec_policy = \<lparr>xpVersion = ExecPolicyVersion, xpDefault = ''deny'', xpActions = [demo_action]\<rparr>"

definition demo_exec_meta :: ExecOpenMetadata where
  "demo_exec_meta = \<lparr>xmProtocol = ExecOpenProtocolVersion, xmTargetNode = ''target'', xmSourceNode = ''origin'',
     xmSourceBinding = ''b1'', xmChainSHA256 = demo_chain\<rparr>"

definition demo_exec_request :: ExecRequest where
  "demo_exec_request = \<lparr>xqProtocol = ExecProtocolVersion, xqID = ''7'', xqAction = ''echo'', xqArgs = [''hi''], xqStdin = [],
     xqTimeoutMillis = 500\<rparr>"

definition demo_exec_answer :: ExecResponse where
  "demo_exec_answer = execNoResponse\<lparr>xrProtocol := ExecProtocolVersion, xrID := ''7'', xrStdout := [104, 105]\<rparr>"

definition demo_exec :: exec_env where
  "demo_exec =
     \<lparr>xvPolicy = (\<lambda>_. Some (demo_exec_policy, True)),
      xvMetadata = (\<lambda>p. if p = [1] then Some (demo_exec_meta, True)
                        else if p = [2] then Some (demo_exec_meta\<lparr>xmTargetNode := '' any ''\<rparr>, True) else None),
      xvMetadataText = (\<lambda>m. if m = demo_exec_meta then Some [1] else None),
      xvRequest = (\<lambda>p. if p = [3] then Some (demo_exec_request, True) else None),
      xvRequestText = (\<lambda>r. if r = demo_exec_request then Some [3] else None),
      xvResponse = (\<lambda>p. if p = [4] then Some (demo_exec_answer, True) else None),
      xvResponseText = (\<lambda>r. if r = demo_exec_answer then Some [4] else None),
      xvParseDuration = (\<lambda>_. None), xvNewRequestID = ''1'', xvErrorText = (\<lambda>_. ''error'')\<rparr>"

definition demo_exec_config :: ExecEngineConfig where
  "demo_exec_config = \<lparr>xcTopology = [''origin'', '' target'', ''other''], xcChainSHA256 = demo_chain, xcCurrentNode = ''target '',
     xcPolicy = demo_exec_policy\<rparr>"

definition demo_exec_engine :: ExecEngine where
  "demo_exec_engine = \<lparr>xnTopology = [''origin'', '' target'', ''other''], xnChainSHA256 = demo_chain, xnCurrentNode = ''target'',
     xnActions = [(''echo'', \<lparr>arPolicy = demo_action, arTimeout = 30 * go_second, arCap = 1, arSem = 0\<rparr>)]\<rparr>"

definition demo_exec_run :: "exec_command \<Rightarrow> exec_run" where
  "demo_exec_run c = \<lparr>rnStdout = [[104], [105]], rnStderr = [], rnError = None, rnContext = None\<rparr>"

definition demo_exec_command :: exec_command where
  "demo_exec_command = \<lparr>ecPath = ''/bin/echo'', ecArgs = [''-n'', ''hi''], ecDir = [], ecEnv = [''LANG=C''], ecStdin = [],
     ecTimeout = 500000000\<rparr>"

abbreviation demo_exec_conn :: conn where
  "demo_exec_conn \<equiv> \<lparr>cnScript = [Wrote 2, Wrote 2], cnOut = [], cnClosed = False\<rparr>"

lemma demo_exec_engine_new: "Exec_NewEngine demo_exec demo_exec_config = Inr demo_exec_engine"
  by code_simp

lemma demo_exec_parses: "ParsePolicy demo_exec [9] = Inr demo_exec_policy"
  by code_simp

lemma demo_exec_frame: "Exec_readFrame [0, 0, 0, 1, 3] = Inr ([3], [])"
  by (simp add: Exec_readFrame_def ReadFull_def get_uint32_def)

lemma demo_exec_calls:
  "Exec_ParseOpenMetadata demo_exec [1] = Inr demo_exec_meta"
  "Exec_normalizeRequest demo_exec demo_exec_request = demo_exec_request" "Exec_validateRequest demo_exec_request = None"
  "Exec_Execute demo_exec None demo_exec_run (Some demo_exec_engine) demo_exec_meta demo_exec_request
   = ([demo_exec_command], demo_exec_answer, None)"
  "Exec_writeResponse demo_exec demo_exec_conn demo_exec_answer = (None, \<lparr>cnScript = [], cnOut = [0, 0, 0, 1, 4], cnClosed = False\<rparr>)"
  by code_simp+

lemma demo_exec_read: "Exec_readRequest demo_exec [0, 0, 0, 1, 3] = Inr demo_exec_request"
  using demo_exec_calls(2,3) by (simp add: Exec_readRequest_def demo_exec_frame Exec_decodeStrict_def demo_exec_def)

lemma demo_exec_serves:
  "Exec_Serve demo_exec None demo_exec_run (Some demo_exec_engine) (Some demo_exec_conn) [1] [0, 0, 0, 1, 3]
   = ([demo_exec_command], Some \<lparr>cnScript = [], cnOut = [0, 0, 0, 1, 4], cnClosed = True\<rparr>, None)"
  by (simp add: Exec_Serve_def answerOf_def demo_exec_calls demo_exec_read)

theorem exec_within_policy_witness:
  "demo_exec_command \<in> set (fst (Exec_Serve demo_exec None demo_exec_run (Some demo_exec_engine) (Some demo_exec_conn) [1] [0, 0, 0, 1, 3]))
   \<and> (\<exists>m a l. Exec_ParseOpenMetadata demo_exec [1] = Inr m \<and> a \<in> set (xpActions demo_exec_policy)
        \<and> Exec_sourceAllowed (apSources a) (xmSourceNode m) \<and> commandOf a l demo_exec_command)"
  using exec_within_policy [OF demo_exec_parses demo_exec_engine_new _ demo_exec_serves, of demo_exec_command]
  by (fastforce simp: demo_exec_serves demo_exec_config_def)

theorem exec_slots_witness:
  "\<exists>s. (exec_step demo_exec)\<^sup>*\<^sup>* \<lparr>exEngine = demo_exec_engine, exRunning = []\<rparr> s \<and> length (exRunning s) = 1
     \<and> Sem_acquire ''echo'' (exEngine s) = None"
proof -
  let ?init = "\<lparr>exEngine = demo_exec_engine, exRunning = []\<rparr>"
  have "\<not> isl (Execute_admit demo_exec demo_exec_engine demo_exec_meta demo_exec_request)"
    "Sem_acquire ''echo'' demo_exec_engine \<noteq> None" "map_option arCap (map_of (xnActions demo_exec_engine) ''echo'') = Some 1"
    by code_simp+
  then obtain ad e rt where a: "Execute_admit demo_exec demo_exec_engine demo_exec_meta demo_exec_request = Inr ad"
    "Sem_acquire ''echo'' demo_exec_engine = Some e" "map_of (xnActions demo_exec_engine) ''echo'' = Some rt" "arCap rt = 1"
    by (cases "Execute_admit demo_exec demo_exec_engine demo_exec_meta demo_exec_request") auto
  have "xqAction (Exec_normalizeRequest demo_exec demo_exec_request) = ''echo''" by code_simp
  then have n: "xqAction (adRequest ad) = ''echo''" using a(1) by (elim Execute_admit_Inr) simp
  let ?s = "?init\<lparr>exEngine := e, exRunning := [(demo_exec_meta, ad)]\<rparr>"
  have "exec_step demo_exec ?init ?s"
    using exec_step.start [of demo_exec ?init demo_exec_meta demo_exec_request ad e] a(1,2) n by simp
  then have r: "(exec_step demo_exec)\<^sup>*\<^sup>* ?init ?s" by blast
  from exec_slots [OF demo_exec_engine_new r a(3)] a(4) n have "Sem_acquire ''echo'' (exEngine ?s) = None" by simp
  with r show ?thesis by (intro exI [of _ ?s]) simp
qed

lemma demo_exec_faithful: "exec_json_faithful demo_exec" "metadata_faithful demo_exec"
  by (auto simp: exec_json_faithful_def metadata_faithful_def demo_exec_def split: if_splits)

theorem exec_exchange_witness:
  "\<exists>w1. CallStream_send demo_exec demo_exec_conn demo_exec_request = (Inr demo_exec_request, w1)
     \<and> CallStream_receive demo_exec demo_exec_request [0, 0, 0, 1, 4] = (demo_exec_answer, None)"
proof -
  have s: "CallStream_send demo_exec demo_exec_conn demo_exec_request
      = (Inr demo_exec_request, \<lparr>cnScript = [], cnOut = [0, 0, 0, 1, 3], cnClosed = False\<rparr>)" by code_simp
  have i: "TrimSpace (xvNewRequestID demo_exec) = xvNewRequestID demo_exec" by code_simp
  from exec_exchange [OF demo_exec_faithful(1) i s _ demo_exec_calls(1), of None demo_exec_run demo_exec_engine demo_exec_conn]
    demo_exec_serves demo_exec_calls(4)
  have "CallStream_receive demo_exec demo_exec_request [0, 0, 0, 1, 4] = (demo_exec_answer, None)"
    by (simp add: answerOf_def)
  with s show ?thesis by blast
qed

theorem claimed_source_kept_witness:
  "Exec_ParseOpenMetadata demo_exec [2] = Inr (demo_exec_meta\<lparr>xmTargetNode := ''any''\<rparr>)
   \<and> Exec_BindSource demo_exec [2] ''other'' ''b9'' demo_chain ''target'' = Inr [1]
   \<and> Exec_ParseOpenMetadata demo_exec [1] = Inr demo_exec_meta
   \<and> fst (Exec_Serve demo_exec None demo_exec_run (Some demo_exec_engine) (Some demo_exec_conn) [1] [0, 0, 0, 1, 3]) = [demo_exec_command]"
proof -
  let ?m = "demo_exec_meta\<lparr>xmTargetNode := ''any''\<rparr>"
  have m: "Exec_ParseOpenMetadata demo_exec [2] = Inr ?m" by code_simp
  have f: "metadata_ascii ?m" "Exec_validName (xmSourceNode ?m)" "xmSourceBinding ?m \<noteq> []" "length (xmSourceBinding ?m) \<le> 512"
    "xmChainSHA256 ?m = ToLower (TrimSpace demo_chain)" "length (xmChainSHA256 ?m) = 64" "Exec_validName ''target''"
    "xvMetadataText demo_exec (?m\<lparr>xmTargetNode := TrimSpace ''target''\<rparr>) = Some [1]"
    "int (length ([1] :: bytes)) \<le> ExecMaxOpenMetadataBytes"
    by code_simp+
  have e: "?m\<lparr>xmTargetNode := TrimSpace ''target''\<rparr> = demo_exec_meta" by code_simp
  from claimed_source_kept [OF demo_exec_faithful(2) f(1) m f(2-9), of "''other''" "''b9''"]
  show ?thesis unfolding e demo_exec_serves using m by simp
qed

end
