(* ===== verification/Spec2Isabelle.thy ===== *)
theory Spec2Isabelle
  imports Mux_Flow Mux_Session Session_Link Auth_Config Hop_Proof Route_Router
    Session_Udp Proxy_Window Pkt_Padding Session_Resume Auth_Forward Session_Reconnect Store_Migrate File_Hooks Exec_Engine
begin

text \<open>
  Verification of weaverssh: its session layer, its storage adapters and its file backend.

  \<^bold>\<open>The program.\<close> weaverssh joins hosts that reach each other over SSH into a chain of nodes. Two
  neighbours share one ordered transport and run a session over it. The multiplexer (\<open>src/sessionmux\<close>)
  cuts the session into logical streams with their own flow control. The control protocol
  (\<open>src/sessioncontrol\<close>) registers the nodes of the chain from signed contexts and opens streams to
  them by name; the proofs it checks are built and verified by \<open>src/authproof\<close> and \<open>src/hopproof\<close>.
  The link manager (\<open>src/sessionlink\<close>) numbers the transports a link has had, so that a superseded one
  is fenced off, and the router (\<open>src/sessionroute\<close>) publishes live sessions in a file and forwards a
  request node by node to its target. The services behind a stream dial TCP connections
  (\<open>src/sessiontcp\<close>), accept them (\<open>src/sessionbind\<close>) and relay datagrams (\<open>src/sessionudp\<close>), all
  within an allowlist of destinations, or run the commands a policy names (\<open>src/sessionexec\<close>). Beside the sessions, \<open>src/storageadapter\<close> gives the components
  one transactional key-value interface over memory and files, and \<open>src/filebackend\<close> keeps its
  counters on it and runs the hooks around every file operation.

  \<^bold>\<open>How the code is translated.\<close> A Go struct is a record with its fields, a set of named constants a
  datatype or the constants themselves, a function a HOL function of the same name (prefixed where two
  packages share a name). Sized integers are words where they can wrap and integers where the code
  checks their range; instants are nanoseconds since Go's zero time; strings are character lists and
  byte slices lists of 8-bit words; a Go map is an association list. A function that can fail returns
  a sum with the error on the left. A method that changes its receiver returns the new value. Code
  between two points where a goroutine can wait is one step, and the interleavings of goroutines are
  sequences of steps. What is not in the repository is a parameter: Ed25519 and SHA-256 (\<open>crypto\<close>),
  \<open>encoding/json\<close>, the random source, the clock, \<open>sort.Slice\<close> up to its documented freedom, the
  operating system and the network. Theorems that need something of a parameter state it as a
  hypothesis, and a witness instantiates it.

  \<^bold>\<open>Shared theories.\<close>
  \<^item> \<open>Wv_Prelude\<close>, \<open>Wv_Text\<close>, \<open>Wv_Base64\<close>, \<open>Wv_Net\<close>, \<open>Wv_Sort\<close>: the parts of Go's standard library
    the sources call, with their round trips.
  \<^item> \<open>Wv_Fencing\<close>: the contract of generation-numbered stores, interpreted by \<open>Session_Link\<close> and
    \<open>Route_Lease\<close>.

  \<^bold>\<open>The multiplexer\<close> (\<open>src/sessionmux\<close>).
  \<^item> \<open>Mux_Frame\<close>: \<open>frame.go\<close> and \<open>flow.go\<close>. Frames survive the wire through any pattern of short
    writes; malformed and truncated ones are refused.
  \<^item> \<open>Mux_Stream\<close>: \<open>stream.go\<close>, one operation for each critical section.
  \<^item> \<open>Mux_Credit\<close>, \<open>Mux_Flow\<close>: the credit contract as locales for a sender and a receiver,
    interpreted by the stream operations, and one direction of a stream end to end. A peer that follows
    the protocol is never blamed, bytes arrive in order, and a blocked sender gets its credit back.
  \<^item> \<open>Mux_Core\<close>, \<open>Mux_Inv\<close>, \<open>Mux_Session\<close>: \<open>mux.go\<close>, its invariant, and its runs against an arbitrary
    peer. Memory and credit stay bounded, streams do not disturb each other, IDs are unique, opening
    ends with both sides agreeing.

  \<^bold>\<open>Links and routes\<close> (\<open>src/sessionlink\<close>, \<open>src/sessionroute\<close>).
  \<^item> \<open>Session_Link\<close>: \<open>types.go\<close> and \<open>manager.go\<close>. A superseded token is refused for ever, and the
    value handed out is the newest.
  \<^item> \<open>Route_File\<close>, \<open>Route_Registry\<close>, \<open>Route_Lease\<close>: the registry files, their lock and the two stores.
    A live lease is fenced against other transports, and the wait for the lock ends.
  \<^item> \<open>Route_Router\<close>: \<open>router.go\<close>. A request gets one link closer to its target with every hop.

  \<^bold>\<open>Proofs of identity\<close> (\<open>src/authproof\<close>, \<open>src/hopproof\<close>).
  \<^item> \<open>Auth_Grant\<close>, \<open>Auth_Node\<close>, \<open>Auth_Reconnect\<close>: \<open>proof.go\<close>, \<open>authority.go\<close>, \<open>node_context.go\<close>,
    \<open>reconnect_identity.go\<close>. What verifies was signed over its own encoding, is in its validity and
    meets every option; what was signed verifies; a nonce is accepted once.
  \<^item> \<open>Auth_Wire\<close>, \<open>Auth_Config\<close>, \<open>Auth_Forward\<close>: \<open>ssh_agent.go\<close>, \<open>message_signer.go\<close>,
    \<open>runtime_config.go\<close>, \<open>native_forwarding.go\<close>.
  \<^item> \<open>Hop_Proof\<close>: \<open>hop.go\<close>, \<open>sshsig.go\<close> and \<open>recursive_attach.go\<close>. A chain that verifies is the signed
    path from the root to the node, and appending to a chain that verifies gives one.

  \<^bold>\<open>Control\<close> (\<open>src/sessioncontrol\<close>).
  \<^item> \<open>Session_Registry\<close>: the registry of verified nodes and the target streams, with the acceptors'
    common contract as the locale \<open>target_acceptor\<close>.
  \<^item> \<open>Session_Reconnect\<close>: one-shot and challenge-bound registration, both sides of the exchange.

  \<^bold>\<open>Services\<close> (\<open>src/sessiontcp\<close>, \<open>src/sessionbind\<close>, \<open>src/sessionudp\<close>, \<open>src/socksudp\<close>,
  \<open>src/sessionproxy\<close>, \<open>src/sessionresume\<close>, \<open>src/padding\<close>).
  \<^item> \<open>Dest_Policy\<close>, \<open>Session_Tcp\<close>, \<open>Session_Udp\<close>, \<open>Socks_Udp\<close>: whatever a peer sends, the services
    reach only allowlisted destinations.
  \<^item> \<open>Proxy_Window\<close>: the replay window refines the set of numbers seen.
  \<^item> \<open>Session_Resume\<close>: a copy that was interrupted is complete and exact in the end.
  \<^item> \<open>Pkt_Padding\<close>: padding is undone.

  \<^bold>\<open>Remote commands\<close> (\<open>src/sessionexec\<close>).
  \<^item> \<open>Exec_Policy\<close>: \<open>policy_engine.go\<close> up to \<open>BindSource\<close>. What a parsed policy guarantees of its actions.
  \<^item> \<open>Exec_Engine\<close>: \<open>Execute\<close> and \<open>wire.go\<close>. Only actions of the policy run, for sources they allow and
    within their limits; the slots of an action are the locale \<open>slot_pool\<close>, interpreted on the engine's
    semaphores; client and server agree on a call; a source a client claims is not replaced.

  \<^bold>\<open>Storage adapters\<close> (\<open>src/storageadapter\<close>).
  \<^item> \<open>Store_Config\<close>: \<open>adapter.go\<close> and \<open>config.go\<close>, the interface's types and the configuration.
  \<^item> \<open>Store_Engine\<close>: \<open>memory.go\<close> and \<open>wrappers.go\<close>. A transaction's callback is a program over the
    four transaction calls, run against the engine, the bounding wrapper or the namespace wrapper.
  \<^item> \<open>Store_Contract\<close>: what a store promises as the locales \<open>kv_store\<close>, \<open>kv_bounded\<close>,
    \<open>kv_namespace\<close> and their exact versions, with the abstract map every store refines; the
    interpretations on the memory engine and its wrappers; and \<open>registry.go\<close>.
  \<^item> \<open>Store_Open\<close>: what follows for a store opened through the registry. It behaves as one map, and
    keys and values stay within the configured bounds.
  \<^item> \<open>Store_File\<close>: \<open>file.go\<close>. Opening the file again gives the map the store showed, whatever calls of
    the operating system failed, unless both renames of one write fail; then the file is lost. The same
    locales are interpreted on it, and namespaces of either engine do not see each other.
  \<^item> \<open>Store_Migrate\<close>: \<open>migrate.go\<close> over any store of the contract (locale \<open>store_migration\<close>). The copy
    ends, and a report without error means the destination holds the source's entries.

  \<^bold>\<open>File backend\<close> (\<open>src/filebackend\<close>).
  \<^item> \<open>File_Core\<close>: \<open>core.go\<close> and \<open>storage_adapter.go\<close>. The identifiers the core hands out are fresh
    over any sequence of operations, failures and restarts, over the file store of \<open>Store_File\<close>.
  \<^item> \<open>File_Hooks\<close>: \<open>hooks.go\<close>. An enforcing hook that refuses stops the operation, and exactly the
    hooks registered for an operation and phase run, in the order of their priorities.

  \<^bold>\<open>Bounds and fuel.\<close> No definition that models code takes fuel except the loops whose end is decided
  outside: the lock loop takes the outcomes of its rounds as a list, the retry loop of the copy takes
  its attempt limit from the configuration, the write loops take a script of the writer's answers, and
  the loop that writes a stream and the one that migrates a store are partial functions into options.
  Each has a theorem that it ends.

  \<^bold>\<open>Not modelled.\<close> The bodies of goroutines that only copy bytes between sockets, process start-up,
  command-line handling, platform code and everything that is a thin layer over an external service
  (9P, FUSE, SQLite, RocksDB, Kubernetes, Fabric, immudb, MQTT brokers) has no content the kernel could
  check beyond the parameters it would introduce. The event relay (\<open>src/sessionevents\<close>), the proof-carrying SOCKS
  requests (\<open>src/socksproof\<close>), the evidence journals, the event bus, the rule engine and map-reduce have
  such content and are not translated; nothing here depends on them.
\<close>

end
